(* ===== verification/Go_Base.thy ===== *)
theory Go_Base
  imports Main "HOL-Library.Word" "HOL-Library.Monad_Syntax"
begin

text \<open>
  The prelude of the development: how values of Go are represented, and the
  lemmas about byte strings that every component uses.

  \<^item> A Go byte is an \<open>8 word\<close>; a byte slice, and a Go string (a byte sequence as
    well), is a list of bytes. \<open>str\<close> turns a literal into its bytes.
  \<^item> An unsigned integer of 16, 32 or 64 bits that is computed with is a \<open>nat\<close>, and
    wherever the code's arithmetic can leave the width the wrap-around is written out
    with \<open>u16\<close>, \<open>u32\<close> or \<open>u64\<close>. Flag sets (the hints) are \<open>32 word\<close>.
  \<^item> An error value is the string it was created with; a function that returns an
    error returns \<open>error + 'a\<close>.
  \<^item> A computation that may panic (an index or a slice bound out of range) returns an
    option, and \<open>None\<close> is the panic.
\<close>

unbundle bit_operations_syntax

named_theorems go_simps \<open>equations that evaluate the byte-level primitives\<close>
named_theorems go_len \<open>lengths of the byte strings the code builds\<close>

type_synonym byte = "8 word"
type_synonym bytes = "byte list"
type_synonym gostr = "byte list"
type_synonym error = "string"

definition str :: "string \<Rightarrow> gostr" where
  "str s = map of_char s"

lemma str_nonempty: "s \<noteq> [] \<Longrightarrow> str s \<noteq> []"
  by (simp add: str_def)

lemma length_str [simp]: "length (str s) = length s"
  by (simp add: str_def)

subsection \<open>Fixed-width unsigned arithmetic\<close>

definition u16 :: "nat \<Rightarrow> nat" where
  "u16 n = n mod 65536"

definition u32 :: "nat \<Rightarrow> nat" where
  "u32 n = n mod 4294967296"

definition u64 :: "nat \<Rightarrow> nat" where
  "u64 n = n mod 18446744073709551616"

text \<open>Subtraction of two 64-bit values; it wraps below zero.\<close>

definition u64_sub :: "nat \<Rightarrow> nat \<Rightarrow> nat" where
  "u64_sub a b = u64 (a + (18446744073709551616 - u64 b))"

lemma u16_id [simp]: "n < 65536 \<Longrightarrow> u16 n = n"
  by (simp add: u16_def)

lemma u32_id [simp]: "n < 4294967296 \<Longrightarrow> u32 n = n"
  by (simp add: u32_def)

lemma u64_id [simp]: "n < 18446744073709551616 \<Longrightarrow> u64 n = n"
  by (simp add: u64_def)

lemma u16_less [simp]: "u16 n < 65536"
  by (simp add: u16_def)

lemma u64_less [simp]: "u64 n < 18446744073709551616"
  by (simp add: u64_def)

lemma u64_sub_id [simp]:
  assumes "b \<le> a" and "a < 18446744073709551616"
  shows "u64_sub a b = a - b"
proof -
  have "a + (18446744073709551616 - b) = (a - b) + 18446744073709551616"
    using assms by linarith
  then have "u64 (a + (18446744073709551616 - b)) = (a - b) mod 18446744073709551616"
    by (simp only: u64_def mod_add_self2)
  then show ?thesis
    using assms by (simp only: u64_sub_def) simp
qed

subsection \<open>Big-endian integers\<close>

text \<open>
  \<open>be_nat\<close> reads a byte string as one big-endian integer, \<open>be_bytes k v\<close> writes the
  low \<open>k\<close> bytes of \<open>v\<close>. They stand for \<open>binary.BigEndian\<close> at every width, and for
  the code's own shift-and-or chains.
\<close>

definition be_nat :: "bytes \<Rightarrow> nat" where
  "be_nat bs = foldl (\<lambda>a b. a * 256 + unat b) 0 bs"

fun be_bytes :: "nat \<Rightarrow> nat \<Rightarrow> bytes" where
  "be_bytes 0 v = []"
| "be_bytes (Suc k) v = be_bytes k (v div 256) @ [of_nat v]"

lemma be_bytes_2: "be_bytes 2 v = [of_nat (v div 256), of_nat v]"
  by (simp add: numeral_2_eq_2)

lemma length_be_bytes [simp, go_len]: "length (be_bytes k v) = k"
  by (induction k arbitrary: v) auto

lemma be_nat_Nil [simp]: "be_nat [] = 0"
  by (simp add: be_nat_def)

lemma be_nat_snoc: "be_nat (bs @ [b]) = be_nat bs * 256 + unat b"
  by (simp add: be_nat_def)

lemma be_nat_one [simp]: "be_nat [a] = unat a"
  by (simp add: be_nat_def)

lemma be_nat_Cons: "be_nat (x # bs) = unat x * 256 ^ length bs + be_nat bs"
proof (induction bs rule: rev_induct)
  case Nil
  then show ?case by simp
next
  case (snoc b bs)
  have "be_nat (x # bs @ [b]) = be_nat (x # bs) * 256 + unat b"
    using be_nat_snoc [of "x # bs" b] by simp
  with snoc show ?case by (simp add: be_nat_snoc)
qed

lemma be_nat_two: "be_nat [a, b] = unat a * 256 + unat b"
  by (simp add: be_nat_def)

lemma unat_byte_less [simp]: "unat (b :: byte) < 256"
proof -
  have "unat b < 2 ^ LENGTH(8)"
    by (rule unsigned_less)
  then show ?thesis by simp
qed

lemma unat_of_nat_byte [simp]: "unat (of_nat v :: byte) = v mod 256"
  by (simp add: unat_of_nat)

lemma be_nat_be_bytes: "be_nat (be_bytes k v) = v mod 256 ^ k"
proof (induction k arbitrary: v)
  case 0
  then show ?case by simp
next
  case (Suc k)
  have "v mod 256 ^ Suc k = (v div 256) mod 256 ^ k * 256 + v mod 256"
    using mod_mult2_eq [of v 256 "256 ^ k"] by simp
  then show ?case by (simp add: be_nat_snoc Suc)
qed

lemma be_nat_less: "be_nat bs < 256 ^ length bs"
proof (induction bs rule: rev_induct)
  case Nil
  then show ?case by simp
next
  case (snoc b bs)
  have "unat b < 256"
    by simp
  moreover have "be_nat bs * 256 + 256 \<le> 256 ^ length bs * 256"
    using snoc by simp
  ultimately have "be_nat bs * 256 + unat b < 256 ^ length bs * 256"
    by linarith
  then show ?case by (simp add: be_nat_snoc mult.commute)
qed

lemma be_bytes_be_nat: "be_bytes (length bs) (be_nat bs) = bs"
proof (induction bs rule: rev_induct)
  case Nil
  then show ?case by simp
next
  case (snoc b bs)
  have lt: "unat b < 256"
    by simp
  then have "(be_nat bs * 256 + unat b) div 256 = be_nat bs"
    by simp
  moreover have "(of_nat (be_nat bs * 256 + unat b) :: byte) = b"
    by (metis lt mod_mult_self3 mod_less unat_of_nat_byte word_unat_eq_iff)
  ultimately show ?case
    using snoc by (simp add: be_nat_snoc)
qed

subsection \<open>Checked reads: an index or a slice bound out of range panics\<close>

definition rd8 :: "bytes \<Rightarrow> nat \<Rightarrow> nat option" where
  "rd8 b i = (if i < length b then Some (unat (b ! i)) else None)"

definition slice :: "'a list \<Rightarrow> nat \<Rightarrow> nat \<Rightarrow> 'a list option" where
  "slice b i j = (if i \<le> j \<and> j \<le> length b then Some (take (j - i) (drop i b)) else None)"

definition rd16 :: "bytes \<Rightarrow> nat \<Rightarrow> nat option" where
  "rd16 b i = map_option be_nat (slice b i (i + 2))"

definition rd32 :: "bytes \<Rightarrow> nat \<Rightarrow> nat option" where
  "rd32 b i = map_option be_nat (slice b i (i + 4))"

lemma rd8_Some [simp, intro]: "i < length b \<Longrightarrow> rd8 b i = Some (unat (b ! i))"
  by (simp add: rd8_def)

lemma slice_Some [simp, intro]:
  "i \<le> j \<Longrightarrow> j \<le> length b \<Longrightarrow> slice b i j = Some (take (j - i) (drop i b))"
  by (simp add: slice_def)

lemma rd16_Some [simp, intro]:
  "i + 2 \<le> length b \<Longrightarrow> rd16 b i = Some (be_nat (take 2 (drop i b)))"
  by (simp add: rd16_def)

lemma rd32_Some [simp, intro]:
  "i + 4 \<le> length b \<Longrightarrow> rd32 b i = Some (be_nat (take 4 (drop i b)))"
  by (simp add: rd32_def)

lemma rd8_less: "rd8 b i = Some v \<Longrightarrow> v < 256"
  by (auto simp: rd8_def split: if_splits)

lemma rd16_less: "rd16 b i = Some v \<Longrightarrow> v < 65536"
  using be_nat_less [of "take 2 (drop i b)"]
  by (auto simp: rd16_def slice_def split: if_splits)

lemma take_drop_append_middle:
  "length a = i \<Longrightarrow> length m = n \<Longrightarrow> take n (drop i (a @ m @ z)) = m"
  by simp

lemma nth_at: "length a = i \<Longrightarrow> (a @ x # z) ! i = x"
  by auto

lemma drop_at: "length a = i \<Longrightarrow> drop i (a @ z) = z"
  by auto

lemma xor_twice [simp]: "(a XOR m) XOR (m :: byte) = a"
  by (simp add: xor.assoc)

subsection \<open>Writes into a buffer\<close>

text \<open>
  \<open>copy_at d i s\<close> is the buffer after \<open>copy(d[i:], s)\<close>: as many bytes as fit.
  The code calls it with \<open>i \<le> len(d)\<close>; \<open>put16\<close> and \<open>put32\<close> are
  \<open>binary.BigEndian.PutUint16(d[i:], v)\<close> and its 32-bit form, which panic when the
  bytes do not fit.
\<close>

definition copy_at :: "bytes \<Rightarrow> nat \<Rightarrow> bytes \<Rightarrow> bytes" where
  "copy_at d i s = take i d @ take (length d - i) s @ drop (i + length s) d"

text \<open>\<open>copyFrom d i s\<close> is \<open>copy(d[i:], s)\<close>, which panics when \<open>i\<close> is beyond the end.\<close>

definition copyFrom :: "bytes \<Rightarrow> nat \<Rightarrow> bytes \<Rightarrow> bytes option" where
  "copyFrom d i s = (if i \<le> length d then Some (copy_at d i s) else None)"

definition set8 :: "bytes \<Rightarrow> nat \<Rightarrow> byte \<Rightarrow> bytes option" where
  "set8 d i v = (if i < length d then Some (d[i := v]) else None)"

definition put16 :: "bytes \<Rightarrow> nat \<Rightarrow> nat \<Rightarrow> bytes option" where
  "put16 d i v = (if i + 2 \<le> length d then Some (copy_at d i (be_bytes 2 v)) else None)"

definition put32 :: "bytes \<Rightarrow> nat \<Rightarrow> nat \<Rightarrow> bytes option" where
  "put32 d i v = (if i + 4 \<le> length d then Some (copy_at d i (be_bytes 4 v)) else None)"

lemma length_copy_at [simp, go_len]: "i \<le> length d \<Longrightarrow> length (copy_at d i s) = length d"
  by (simp add: copy_at_def min_def)

lemma copy_at_fits: "i + length s \<le> length d \<Longrightarrow> copy_at d i s = take i d @ s @ drop (i + length s) d"
  by (simp add: copy_at_def)

lemma put16_Some [simp]:
  "i + 2 \<le> length d \<Longrightarrow> put16 d i v = Some (take i d @ be_bytes 2 v @ drop (i + 2) d)"
  by (simp add: put16_def copy_at_fits)

lemma put32_Some [simp]:
  "i + 4 \<le> length d \<Longrightarrow> put32 d i v = Some (take i d @ be_bytes 4 v @ drop (i + 4) d)"
  by (simp add: put32_def copy_at_fits)

subsection \<open>The interface of a self-delimiting encoding\<close>

text \<open>
  An encoder and a decoder that reads one value off the front of a byte string and says
  how many bytes it took. The decoder undoes the encoder whatever bytes follow, and only
  ever accepts values the encoder is meant for. The lemmas below (encodings are prefix
  free, decoding at an offset, a whole sequence of values) hold for every such pair.
\<close>

fun decode_many :: "(bytes \<Rightarrow> error + 'a \<times> nat) \<Rightarrow> nat \<Rightarrow> bytes \<Rightarrow> error + 'a list \<times> nat" where
  "decode_many dec 0 b = Inr ([], 0)"
| "decode_many dec (Suc k) b =
    (case dec b of Inl e \<Rightarrow> Inl e
     | Inr (v, n) \<Rightarrow>
        (case decode_many dec k (drop n b) of Inl e \<Rightarrow> Inl e
         | Inr (vs, m) \<Rightarrow> Inr (v # vs, n + m)))"

locale codec =
  fixes enc :: "'a \<Rightarrow> bytes"
    and dec :: "bytes \<Rightarrow> error + 'a \<times> nat"
    and ok :: "'a \<Rightarrow> bool"
  assumes dec_enc: "ok v \<Longrightarrow> dec (enc v @ rest) = Inr (v, length (enc v))"
    and dec_ok: "dec b = Inr (v, n) \<Longrightarrow> ok v \<and> 0 < n \<and> n \<le> length b"
begin

lemma dec_enc_drop: "ok v \<Longrightarrow> length a = i \<Longrightarrow> dec (drop i (a @ enc v @ rest)) = Inr (v, length (enc v))"
  by (simp add: dec_enc)

lemma prefix_free: "ok v \<Longrightarrow> ok w \<Longrightarrow> enc v @ r = enc w @ r' \<Longrightarrow> v = w \<and> r = r'"
  by (metis append_same_eq append_eq_append_conv dec_enc sum.inject(2) prod.inject)

lemma enc_inject: "ok v \<Longrightarrow> ok w \<Longrightarrow> enc v = enc w \<longleftrightarrow> v = w"
  using prefix_free [of v w "[]" "[]"] by auto

lemma decode_many_encs:
  "\<forall>v \<in> set vs. ok v \<Longrightarrow>
    decode_many dec (length vs) (concat (map enc vs) @ rest) = Inr (vs, length (concat (map enc vs)))"
  by (induction vs) (simp_all add: dec_enc)

lemma decode_many_ok:
  "decode_many dec k b = Inr (vs, n) \<Longrightarrow> length vs = k \<and> n \<le> length b \<and> (\<forall>v \<in> set vs. ok v)"
proof (induction k arbitrary: b vs n)
  case (Suc k)
  from Suc.prems obtain v m ws l where
    d: "dec b = Inr (v, m)" and r: "decode_many dec k (drop m b) = Inr (ws, l)"
    and eq: "vs = v # ws" "n = m + l"
    by (auto split: sum.splits)
  from Suc.IH [OF r] dec_ok [OF d] eq show ?case
    by auto
qed simp

end

end
