(* ===== verification/Go_Strings.thy ===== *)
theory Go_Strings
  imports Go_Base
begin

text \<open>
  The functions of Go's \<open>strings\<close> and \<open>bytes\<close> packages that the program calls, on byte
  strings: searching for a substring, prefixes and suffixes, splitting and joining, and
  the base64 encoding of \<open>encoding/base64\<close>.
\<close>

definition hasPrefix :: "bytes \<Rightarrow> bytes \<Rightarrow> bool" where
  "hasPrefix s p = (take (length p) s = p)"

definition hasSuffix :: "bytes \<Rightarrow> bytes \<Rightarrow> bool" where
  "hasSuffix s p = (length p \<le> length s \<and> drop (length s - length p) s = p)"

text \<open>\<open>strings.Index\<close>; \<open>None\<close> is the result \<open>-1\<close>.\<close>

fun indexOf :: "bytes \<Rightarrow> bytes \<Rightarrow> nat option" where
  "indexOf p [] = (if p = [] then Some 0 else None)"
| "indexOf p (c # s) = (if hasPrefix (c # s) p then Some 0 else map_option Suc (indexOf p s))"

fun indexByte :: "byte \<Rightarrow> bytes \<Rightarrow> nat option" where
  "indexByte b [] = None"
| "indexByte b (c # s) = (if c = b then Some 0 else map_option Suc (indexByte b s))"

text \<open>\<open>strings.LastIndexByte\<close>.\<close>

definition lastIndexByte :: "byte \<Rightarrow> bytes \<Rightarrow> nat option" where
  "lastIndexByte b s = map_option (\<lambda>i. length s - 1 - i) (indexByte b (rev s))"

text \<open>\<open>strings.Split\<close> at a one-byte separator, and \<open>SplitN\<close> with the limit 2.\<close>

fun splitByte :: "byte \<Rightarrow> bytes \<Rightarrow> bytes list" where
  "splitByte b [] = [[]]"
| "splitByte b (c # s) =
    (if c = b then [] # splitByte b s
     else (case splitByte b s of [] \<Rightarrow> [[c]] | x # xs \<Rightarrow> (c # x) # xs))"

definition splitByte2 :: "byte \<Rightarrow> bytes \<Rightarrow> bytes list" where
  "splitByte2 b s = (case indexByte b s of None \<Rightarrow> [s] | Some i \<Rightarrow> [take i s, drop (i + 1) s])"

fun joinBytes :: "bytes \<Rightarrow> bytes list \<Rightarrow> bytes" where
  "joinBytes sep [] = []"
| "joinBytes sep [x] = x"
| "joinBytes sep (x # y # xs) = x @ sep @ joinBytes sep (y # xs)"

subsection \<open>Base64\<close>

definition base64Alphabet :: gostr where
  "base64Alphabet = str ''ABCDEFGHIJKLMNOPQRSTUVWXYZabcdefghijklmnopqrstuvwxyz0123456789+/''"

definition base64Char :: "nat \<Rightarrow> byte" where
  "base64Char n = base64Alphabet ! (n mod 64)"

fun base64Encode :: "bytes \<Rightarrow> gostr" where
  "base64Encode (a # b # c # s) =
    (let n = be_nat [a, b, c] in
     [base64Char (n div 262144), base64Char (n div 4096), base64Char (n div 64), base64Char n] @ base64Encode s)"
| "base64Encode [a, b] =
    (let n = be_nat [a, b, 0] in
     [base64Char (n div 262144), base64Char (n div 4096), base64Char (n div 64)] @ str ''='')"
| "base64Encode [a] =
    (let n = be_nat [a, 0, 0] in [base64Char (n div 262144), base64Char (n div 4096)] @ str ''=='')"
| "base64Encode [] = []"

subsection \<open>What they compute\<close>

lemma indexOf_Some:
  "indexOf p s = Some i \<Longrightarrow> i + length p \<le> length s \<and> take (length p) (drop i s) = p"
proof (induction s arbitrary: i)
  case (Cons c s)
  show ?case
  proof (cases "hasPrefix (c # s) p")
    case True
    with Cons.prems have "i = 0" "take (length p) (c # s) = p"
      by (simp_all add: hasPrefix_def)
    then show ?thesis
      by (metis drop0 add_0 length_take min.cobounded1 min.commute)
  next
    case False
    with Cons.prems obtain j where "indexOf p s = Some j" "i = Suc j"
      by auto
    with Cons.IH [of j] show ?thesis by simp
  qed
qed (auto split: if_splits)

lemma indexByte_Some: "indexByte b s = Some i \<Longrightarrow> i < length s \<and> s ! i = b \<and> b \<notin> set (take i s)"
  by (induction s arbitrary: i) (auto split: if_splits)

lemma indexByte_None: "indexByte b s = None \<longleftrightarrow> b \<notin> set s"
  by (induction s) auto

lemma splitByte_nonempty [simp]: "splitByte b s \<noteq> []"
  by (induction s) (auto split: list.split)

text \<open>Joining what was split gives the string back.\<close>

lemma join_split: "joinBytes [b] (splitByte b s) = s"
proof (induction s)
  case (Cons c s)
  obtain x xs where x: "splitByte b s = x # xs"
    by (cases "splitByte b s") auto
  with Cons show ?case
    by (cases xs) auto
qed simp

lemma split_parts: "x \<in> set (splitByte b s) \<Longrightarrow> b \<notin> set x"
  by (induction s arbitrary: x) (auto split: if_splits list.splits)

lemma length_base64Encode: "length (base64Encode s) = (length s + 2) div 3 * 4"
  by (induction s rule: base64Encode.induct) (simp_all add: Let_def, presburger)

end
