(* ===== verification/Outbounds.thy ===== *)
theory Outbounds
  imports Go_Strings "HOL-Library.Word"
begin

text \<open>
  The outbounds (\<open>phantomtcp/phantom.go\<close>): the hint bits, the \<open>Outbound\<close> struct and
  \<open>CreateOutbounds\<close>, which builds them from the configuration. \<open>Fallback\<close> points to an
  outbound of an earlier configuration entry, which no longer changes, so the pointer is
  modelled by the value it points to. The machine's default device and its local
  addresses are parameters.
\<close>

unbundle bit_operations_syntax

subsection \<open>Hints\<close>

type_synonym hint = "32 word"

definition HINT_NONE :: hint where "HINT_NONE = 0x0"
definition HINT_HTTPS :: hint where "HINT_HTTPS = push_bit 0 1"
definition HINT_HTTP2 :: hint where "HINT_HTTP2 = push_bit 1 1"
definition HINT_HTTP3 :: hint where "HINT_HTTP3 = push_bit 2 1"
definition HINT_IPV4 :: hint where "HINT_IPV4 = push_bit 3 1"
definition HINT_IPV6 :: hint where "HINT_IPV6 = push_bit 4 1"
definition HINT_FAKEIP :: hint where "HINT_FAKEIP = push_bit 5 1"
definition HINT_MOVE :: hint where "HINT_MOVE = push_bit 6 1"
definition HINT_STRIP :: hint where "HINT_STRIP = push_bit 7 1"
definition HINT_FRONTING :: hint where "HINT_FRONTING = push_bit 8 1"
definition HINT_TLS1_3 :: hint where "HINT_TLS1_3 = push_bit 9 1"
definition HINT_TTL :: hint where "HINT_TTL = push_bit 10 1"
definition HINT_WMD5 :: hint where "HINT_WMD5 = push_bit 11 1"
definition HINT_NACK :: hint where "HINT_NACK = push_bit 12 1"
definition HINT_WACK :: hint where "HINT_WACK = push_bit 13 1"
definition HINT_WCSUM :: hint where "HINT_WCSUM = push_bit 14 1"
definition HINT_WSEQ :: hint where "HINT_WSEQ = push_bit 15 1"
definition HINT_WTIME :: hint where "HINT_WTIME = push_bit 16 1"
definition HINT_OOB :: hint where "HINT_OOB = push_bit 17 1"
definition HINT_TFO :: hint where "HINT_TFO = push_bit 18 1"
definition HINT_UDP :: hint where "HINT_UDP = push_bit 19 1"
definition HINT_NOTCP :: hint where "HINT_NOTCP = push_bit 20 1"
definition HINT_DELAY :: hint where "HINT_DELAY = push_bit 21 1"
definition HINT_REVERSE :: hint where "HINT_REVERSE = push_bit 22 1"
definition HINT_DF :: hint where "HINT_DF = push_bit 23 1"
definition HINT_SAT :: hint where "HINT_SAT = push_bit 24 1"
definition HINT_RAND :: hint where "HINT_RAND = push_bit 25 1"
definition HINT_TCPFRAG :: hint where "HINT_TCPFRAG = push_bit 26 1"
definition HINT_TLSFRAG :: hint where "HINT_TLSFRAG = push_bit 27 1"
definition HINT_KEEPALIVE :: hint where "HINT_KEEPALIVE = push_bit 29 1"
definition HINT_SYNX2 :: hint where "HINT_SYNX2 = push_bit 30 1"
definition HINT_ZERO :: hint where "HINT_ZERO = push_bit 31 1"

definition HINT_DNS :: hint where
  "HINT_DNS = HINT_HTTPS OR HINT_HTTP2 OR HINT_HTTP3 OR HINT_IPV4 OR HINT_IPV6"

definition HINT_FAKE :: hint where
  "HINT_FAKE = HINT_TTL OR HINT_WMD5 OR HINT_NACK OR HINT_WACK OR HINT_WCSUM OR HINT_WSEQ OR HINT_WTIME"

definition HINT_MODIFY :: hint where
  "HINT_MODIFY = HINT_FAKE OR HINT_TFO OR HINT_OOB OR HINT_TCPFRAG OR HINT_TLSFRAG OR HINT_REVERSE
    OR HINT_MOVE OR HINT_STRIP OR HINT_FRONTING"

lemmas hint_defs = HINT_NONE_def HINT_HTTPS_def HINT_HTTP2_def HINT_HTTP3_def HINT_IPV4_def HINT_IPV6_def
  HINT_FAKEIP_def HINT_MOVE_def HINT_STRIP_def HINT_FRONTING_def HINT_TLS1_3_def HINT_TTL_def HINT_WMD5_def
  HINT_NACK_def HINT_WACK_def HINT_WCSUM_def HINT_WSEQ_def HINT_WTIME_def HINT_OOB_def HINT_TFO_def HINT_UDP_def
  HINT_NOTCP_def HINT_DELAY_def HINT_REVERSE_def HINT_DF_def HINT_SAT_def HINT_RAND_def HINT_TCPFRAG_def
  HINT_TLSFRAG_def HINT_KEEPALIVE_def HINT_SYNX2_def HINT_ZERO_def HINT_DNS_def HINT_FAKE_def HINT_MODIFY_def

text \<open>The names of the raw-socket build (\<open>raw.go\<close>).\<close>

definition HintMap :: "gostr \<Rightarrow> hint option" where
  "HintMap = map_of [
    (str ''none'', HINT_NONE),
    (str ''https'', HINT_HTTPS), (str ''h2'', HINT_HTTP2), (str ''h3'', HINT_HTTP3),
    (str ''ipv4'', HINT_IPV4), (str ''ipv6'', HINT_IPV6), (str ''fakeip'', HINT_FAKEIP),
    (str ''move'', HINT_MOVE), (str ''strip'', HINT_STRIP), (str ''fronting'', HINT_FRONTING),
    (str ''tls1.3'', HINT_TLS1_3),
    (str ''ttl'', HINT_TTL), (str ''w-md5'', HINT_WMD5), (str ''n-ack'', HINT_NACK), (str ''w-ack'', HINT_WACK),
    (str ''w-csum'', HINT_WCSUM), (str ''w-seq'', HINT_WSEQ), (str ''w-time'', HINT_WTIME), (str ''oob'', HINT_OOB),
    (str ''tfo'', HINT_TFO), (str ''udp'', HINT_UDP), (str ''no-tcp'', HINT_NOTCP), (str ''delay'', HINT_DELAY),
    (str ''reverse'', HINT_REVERSE), (str ''df'', HINT_DF), (str ''sat'', HINT_SAT), (str ''rand'', HINT_RAND),
    (str ''tcp-frag'', HINT_TCPFRAG), (str ''tls-frag'', HINT_TLSFRAG), (str ''keep-alive'', HINT_KEEPALIVE),
    (str ''synx2'', HINT_SYNX2), (str ''zero'', HINT_ZERO)]"

subsection \<open>The structs\<close>

record outboundConfig =
  cfg_Name :: gostr
  cfg_Device :: gostr
  cfg_DNS :: gostr
  cfg_Hint :: gostr
  cfg_MTU :: int
  cfg_TTL :: int
  cfg_MaxTTL :: int
  cfg_Protocol :: gostr
  cfg_Address :: gostr
  cfg_PublicKey :: gostr
  cfg_PrivateKey :: gostr
  cfg_Timeout :: int
  cfg_Fallback :: gostr

datatype protocol = DIRECT | REDIRECT | NAT64 | HTTP | HTTPS | SOCKS4 | SOCKS5

datatype outbound = Outbound
  (ob_Device: gostr) (ob_DNS: gostr) (ob_Hint: hint) (ob_MTU: nat) (ob_TTL: nat) (ob_MaxTTL: nat)
  (ob_Protocol: protocol) (ob_Address: gostr) (ob_Authorization: gostr)
  (ob_Timeout: nat) (ob_Fallback: "outbound option")

subsection \<open>CreateOutbounds\<close>

text \<open>Unsupported names are logged and ignored.\<close>

fun hintBits :: "gostr list \<Rightarrow> hint \<Rightarrow> hint" where
  "hintBits [] h = h"
| "hintBits (n # ns) h =
    hintBits ns
      (if n \<noteq> [] then (case HintMap n of Some b \<Rightarrow> h OR b | None \<Rightarrow> h) else h)"

definition protocolOf :: "gostr \<Rightarrow> protocol" where
  "protocolOf p =
    (if p = str ''direct'' then DIRECT
     else if p = str ''redirect'' then REDIRECT
     else if p = str ''nat64'' then NAT64
     else if p = str ''http'' then HTTP
     else if p = str ''https'' then HTTPS
     else if p = str ''socks4'' then SOCKS4
     else if p = str ''socks5'' then SOCKS5
     else if p = str ''socks'' then SOCKS5
     else DIRECT)"

definition authorizationOf :: "outboundConfig \<Rightarrow> gostr" where
  "authorizationOf config =
    (if protocolOf (cfg_Protocol config) = HTTP \<or> protocolOf (cfg_Protocol config) = HTTPS
     then str ''Basic '' @ base64Encode (cfg_PublicKey config @ str '':'' @ cfg_PrivateKey config)
     else [])"

record outboundsState =
  obs_Map :: "gostr \<Rightarrow> outbound option"
  obs_devices :: "gostr list"

text \<open>
  One configuration entry. \<open>localAddr device ipv6\<close> says whether \<open>GetLocalTCPAddr\<close>
  finds an address of the device. The three tests at the end look at the configured
  hints, not at the ones just added. The map holds a pointer, so the updates of \<open>Device\<close>
  and \<open>Hint\<close> after the insertion show in it; the lookup of the device name in between
  sees the new entry.
\<close>

definition createOutbound ::
  "gostr \<Rightarrow> (gostr \<Rightarrow> bool \<Rightarrow> bool) \<Rightarrow> outboundConfig \<Rightarrow> outboundsState \<Rightarrow> outboundsState" where
  "createOutbound defaultDev localAddr config st =
    (let hint = hintBits (splitByte 44 (cfg_Hint config)) HINT_NONE;
         fallback = (if cfg_Fallback config \<noteq> [] then obs_Map st (cfg_Fallback config) else None);
         timeout = (if cfg_Timeout config > 0 then nat (cfg_Timeout config mod 65536) else 65535);
         fake = (hint AND HINT_FAKE \<noteq> 0);
         device = (if fake \<and> cfg_Device config = [] then defaultDev else cfg_Device config);
         known = (device = cfg_Name config \<or> obs_Map st device \<noteq> None);
         devices = (if fake \<and> \<not> known \<and> device \<notin> set (obs_devices st) then obs_devices st @ [device]
                    else obs_devices st);
         unset = (hint AND HINT_IPV4 = 0 \<and> hint AND HINT_IPV6 = 0);
         hint1 = (if device \<noteq> [] \<and> unset then
                    (let h6 = (if localAddr device True then hint OR HINT_IPV6 else hint)
                     in if localAddr device False then h6 OR HINT_IPV4 else h6)
                  else hint);
         hint2 = (if unset then hint1 OR HINT_IPV4 else hint1);
         outbound = Outbound device (cfg_DNS config) hint2 (nat (cfg_MTU config mod 65536))
           (nat (cfg_TTL config mod 256)) (nat (cfg_MaxTTL config mod 256))
           (protocolOf (cfg_Protocol config)) (cfg_Address config) (authorizationOf config) timeout fallback
     in st\<lparr>obs_Map := (obs_Map st)(cfg_Name config \<mapsto> outbound), obs_devices := devices\<rparr>)"

text \<open>
  The result: the map, the devices to monitor, and the default outbound, which keeps its
  previous value when no entry is named \<open>default\<close>.
\<close>

definition CreateOutbounds ::
  "gostr \<Rightarrow> (gostr \<Rightarrow> bool \<Rightarrow> bool) \<Rightarrow> outboundConfig list \<Rightarrow> outbound option
    \<Rightarrow> outboundsState \<times> outbound option" where
  "CreateOutbounds defaultDev localAddr configs previous =
    (let st = fold (createOutbound defaultDev localAddr) configs \<lparr>obs_Map = Map.empty, obs_devices = []\<rparr>
     in (st, case obs_Map st (str ''default'') of Some ob \<Rightarrow> Some ob | None \<Rightarrow> previous))"

end
