(* ===== verification/Go_Net.thy ===== *)
theory Go_Net
  imports Go_Strings
begin

text \<open>
  The functions of Go's \<open>net\<close>, \<open>net/netip\<close> and \<open>strconv\<close> packages that the name
  service and the profile use: decimal numbers, the textual forms of IP addresses, and
  networks. A \<open>net.IP\<close> is a byte string, the nil address is the empty one; the parser's
  failures are \<open>None\<close>.
\<close>

unbundle bit_operations_syntax

subsection \<open>Numbers\<close>

definition isDigit :: "byte \<Rightarrow> bool" where
  "isDigit c \<longleftrightarrow> 48 \<le> c \<and> c \<le> 57"

definition decimal :: "bytes \<Rightarrow> nat" where
  "decimal ds = foldl (\<lambda>n c. n * 10 + (unat c - 48)) 0 ds"

text \<open>\<open>strconv.Atoi\<close> on a 64-bit platform and \<open>strconv.ParseUint(s, 10, bits)\<close>.\<close>

definition Atoi :: "gostr \<Rightarrow> int option" where
  "Atoi s =
    (let (neg, ds) = (if s \<noteq> [] \<and> hd s = 45 then (True, tl s) else if s \<noteq> [] \<and> hd s = 43 then (False, tl s) else (False, s));
         n = decimal ds
     in if ds = [] \<or> \<not> list_all isDigit ds then None
        else if neg then (if n \<le> 9223372036854775808 then Some (- int n) else None)
        else (if n < 9223372036854775808 then Some (int n) else None))"

definition ParseUint :: "gostr \<Rightarrow> nat \<Rightarrow> nat option" where
  "ParseUint s bits =
    (if s = [] \<or> \<not> list_all isDigit s then None
     else if decimal s < 2 ^ bits then Some (decimal s) else None)"

subsection \<open>Addresses\<close>

definition v4InV6Prefix :: bytes where
  "v4InV6Prefix = replicate 10 0 @ [0xff, 0xff]"

text \<open>\<open>IP.To4\<close> and \<open>IP.To16\<close>; the nil result is the empty address.\<close>

definition To4 :: "bytes \<Rightarrow> bytes" where
  "To4 ip =
    (if length ip = 4 then ip
     else if length ip = 16 \<and> take 12 ip = v4InV6Prefix then drop 12 ip
     else [])"

definition To16 :: "bytes \<Rightarrow> bytes" where
  "To16 ip = (if length ip = 4 then v4InV6Prefix @ ip else if length ip = 16 then ip else [])"

text \<open>\<open>parseIPv4Fields\<close>: the digits of the current field and the fields before it.\<close>

fun ipv4Fields :: "gostr \<Rightarrow> nat \<Rightarrow> nat \<Rightarrow> bytes \<Rightarrow> bytes option" where
  "ipv4Fields [] val digLen fields =
    (if length fields < 3 \<or> digLen = 0 then None else Some (fields @ [of_nat val]))"
| "ipv4Fields (c # s) val digLen fields =
    (if isDigit c then
       (if digLen = 1 \<and> val = 0 then None
        else if val * 10 + (unat c - 48) > 255 then None
        else ipv4Fields s (val * 10 + (unat c - 48)) (digLen + 1) fields)
     else if c = 46 then
       (if digLen = 0 \<or> length fields = 3 then None
        else ipv4Fields s 0 0 (fields @ [of_nat val]))
     else None)"

definition hexValue :: "byte \<Rightarrow> nat option" where
  "hexValue c =
    (if 48 \<le> c \<and> c \<le> 57 then Some (unat c - 48)
     else if 97 \<le> c \<and> c \<le> 102 then Some (unat c - 87)
     else if 65 \<le> c \<and> c \<le> 70 then Some (unat c - 55)
     else None)"

text \<open>The hexadecimal digits at the front, at most four of them: their value and number.\<close>

fun hexGroup :: "gostr \<Rightarrow> nat \<Rightarrow> nat \<Rightarrow> (nat \<times> nat) option" where
  "hexGroup [] acc off = Some (acc, off)"
| "hexGroup (c # s) acc off =
    (case hexValue c of None \<Rightarrow> Some (acc, off)
     | Some v \<Rightarrow> if off > 3 then None else hexGroup s (acc * 16 + v) (off + 1))"

text \<open>
  The loop of \<open>parseIPv6\<close> over the groups: the bytes so far and where the ellipsis
  stands in them. The first argument bounds the groups that still fit, of which the
  sixteen bytes have eight.
\<close>

fun ipv6Groups :: "nat \<Rightarrow> gostr \<Rightarrow> bytes \<Rightarrow> nat option \<Rightarrow> (bytes \<times> nat option \<times> gostr) option" where
  "ipv6Groups 0 s ip ellipsis = Some (ip, ellipsis, s)"
| "ipv6Groups (Suc k) s ip ellipsis =
    (case hexGroup s 0 0 of None \<Rightarrow> None
     | Some (acc, off) \<Rightarrow>
        (if off = 0 then None
         else if off < length s \<and> s ! off = 46 then
           (if ellipsis = None \<and> length ip \<noteq> 12 then None
            else if length ip + 4 > 16 then None
            else (case ipv4Fields s 0 0 [] of None \<Rightarrow> None | Some v4 \<Rightarrow> Some (ip @ v4, ellipsis, [])))
         else
           (let ip = ip @ be_bytes 2 acc; s = drop off s in
            if s = [] then Some (ip, ellipsis, [])
            else if hd s \<noteq> 58 then None
            else if length s = 1 then None
            else
              (let s = tl s in
               if hd s = 58 then
                 (if ellipsis \<noteq> None then None
                  else if tl s = [] then Some (ip, Some (length ip), [])
                  else ipv6Groups k (tl s) ip (Some (length ip)))
               else ipv6Groups k s ip ellipsis))))"

definition parseIPv6 :: "gostr \<Rightarrow> (bytes \<times> gostr) option" where
  "parseIPv6 s =
    (let (s, zone, bad) = (case indexByte 37 s of None \<Rightarrow> (s, [], False) | Some i \<Rightarrow> (take i s, drop (i + 1) s, drop (i + 1) s = []));
         lead = hasPrefix s [58, 58]
     in if bad then None
        else if lead \<and> length s = 2 then Some (replicate 16 0, zone)
        else
          (case ipv6Groups 8 (if lead then drop 2 s else s) [] (if lead then Some 0 else None) of None \<Rightarrow> None
           | Some (ip, ellipsis, rest) \<Rightarrow>
              (if rest \<noteq> [] then None
               else if length ip < 16 then
                 (case ellipsis of None \<Rightarrow> None
                  | Some e \<Rightarrow> Some (take e ip @ replicate (16 - length ip) 0 @ drop e ip, zone))
               else if ellipsis \<noteq> None then None
               else Some (ip, zone))))"

text \<open>\<open>netip.ParseAddr\<close>: the four or sixteen bytes and the zone.\<close>

definition ParseAddr :: "gostr \<Rightarrow> (bytes \<times> gostr) option" where
  "ParseAddr s =
    (case filter (\<lambda>c. c = 46 \<or> c = 58 \<or> c = 37) s of [] \<Rightarrow> None
     | c # _ \<Rightarrow>
        (if c = 46 then map_option (\<lambda>ip. (ip, [])) (ipv4Fields s 0 0 [])
         else if c = 58 then parseIPv6 s
         else None))"

text \<open>\<open>net.ParseIP\<close> returns the sixteen-byte form, or nil (empty).\<close>

definition ParseIP :: "gostr \<Rightarrow> bytes" where
  "ParseIP s = (case ParseAddr s of Some (ip, zone) \<Rightarrow> if zone = [] then To16 ip else [] | None \<Rightarrow> [])"

subsection \<open>Printing an address\<close>

fun decDigits :: "nat \<Rightarrow> nat \<Rightarrow> gostr" where
  "decDigits 0 n = []"
| "decDigits (Suc k) n = (if n < 10 then [of_nat (48 + n)] else decDigits k (n div 10) @ [of_nat (48 + n mod 10)])"

definition decString :: "nat \<Rightarrow> gostr" where
  "decString n = decDigits (Suc n) n"

definition intString :: "int \<Rightarrow> gostr" where
  "intString i = (if i < 0 then 45 # decString (nat (- i)) else decString (nat i))"

definition hexDigit :: "nat \<Rightarrow> byte" where
  "hexDigit d = (if d < 10 then of_nat (48 + d) else of_nat (87 + d))"

definition hex16 :: "nat \<Rightarrow> gostr" where
  "hex16 n =
    (if n \<ge> 4096 then [hexDigit (n div 4096 mod 16), hexDigit (n div 256 mod 16), hexDigit (n div 16 mod 16), hexDigit (n mod 16)]
     else if n \<ge> 256 then [hexDigit (n div 256 mod 16), hexDigit (n div 16 mod 16), hexDigit (n mod 16)]
     else if n \<ge> 16 then [hexDigit (n div 16 mod 16), hexDigit (n mod 16)]
     else [hexDigit (n mod 16)])"

fun groups16 :: "bytes \<Rightarrow> nat list" where
  "groups16 (a # b # s) = be_nat [a, b] # groups16 s"
| "groups16 s = []"

definition zeroRun :: "nat list \<Rightarrow> nat \<Rightarrow> nat" where
  "zeroRun gs i = length (takeWhile (\<lambda>g. g = 0) (drop i gs))"

text \<open>The first longest run of at least two zero groups, as a start and a length.\<close>

definition longestZeros :: "nat list \<Rightarrow> nat \<times> nat" where
  "longestZeros gs =
    foldl (\<lambda>(st, l) i. if zeroRun gs i \<ge> 2 \<and> zeroRun gs i > l then (i, zeroRun gs i) else (st, l)) (0, 0) [0..<length gs]"

definition ip6String :: "bytes \<Rightarrow> gostr" where
  "ip6String ip =
    (let gs = groups16 ip; (st, l) = longestZeros gs; p = (\<lambda>g. joinBytes [58] (map hex16 g))
     in if l = 0 then p gs else p (take st gs) @ [58, 58] @ p (drop (st + l) gs))"

definition IPString :: "bytes \<Rightarrow> gostr" where
  "IPString ip =
    (if ip = [] then str ''<nil>''
     else if length ip \<noteq> 4 \<and> length ip \<noteq> 16 then
       63 # concat (map (\<lambda>b. [hexDigit (unat b div 16), hexDigit (unat b mod 16)]) ip)
     else if To4 ip \<noteq> [] then joinBytes [46] (map (\<lambda>b. decString (unat b)) (To4 ip))
     else ip6String ip)"

subsection \<open>Networks\<close>

text \<open>A \<open>net.IPNet\<close> is a pair of an address and a mask. \<open>CIDRMask\<close> has \<open>n\<close> ones.\<close>

definition CIDRMask :: "nat \<Rightarrow> nat \<Rightarrow> bytes" where
  "CIDRMask n bits = map (\<lambda>i. if 8 * (i + 1) \<le> n then 0xff else if n \<le> 8 * i then 0
    else of_nat (256 - 2 ^ (8 - (n - 8 * i)))) [0..<bits div 8]"

definition networkNumberAndMask :: "bytes \<times> bytes \<Rightarrow> bytes \<times> bytes" where
  "networkNumberAndMask net =
    (let (ip, m) = net; ip = (if To4 ip \<noteq> [] then To4 ip else ip) in
     if length ip \<noteq> 4 \<and> length ip \<noteq> 16 then ([], [])
     else if length m = 4 then (if length ip \<noteq> 4 then ([], []) else (ip, m))
     else if length m = 16 then (ip, if length ip = 4 then drop 12 m else m)
     else ([], []))"

definition netContains :: "bytes \<times> bytes \<Rightarrow> bytes \<Rightarrow> bool" where
  "netContains net ip =
    (let (nn, m) = networkNumberAndMask net; ip = (if To4 ip \<noteq> [] then To4 ip else ip)
     in length ip = length nn \<and> map2 (AND) nn m = map2 (AND) ip m)"

definition ParseCIDR :: "gostr \<Rightarrow> (bytes \<times> bytes) option" where
  "ParseCIDR s =
    (case indexByte 47 s of None \<Rightarrow> None
     | Some i \<Rightarrow>
        (case ParseAddr (take i s) of None \<Rightarrow> None
         | Some (ip, zone) \<Rightarrow>
            (let ds = drop (i + 1) s; bits = 8 * length ip in
             if zone \<noteq> [] \<or> ds = [] \<or> \<not> list_all isDigit ds \<or> decimal ds \<ge> 0xFFFFFF \<or> decimal ds > bits then None
             else
               (let m = CIDRMask (decimal ds) bits in Some (map2 (AND) ip m, m)))))"

text \<open>\<open>netip.ParsePrefix\<close>: the masked address and the number of bits.\<close>

definition ParsePrefix :: "gostr \<Rightarrow> (bytes \<times> nat) option" where
  "ParsePrefix s =
    (case lastIndexByte 47 s of None \<Rightarrow> None
     | Some i \<Rightarrow>
        (case ParseAddr (take i s) of None \<Rightarrow> None
         | Some (ip, zone) \<Rightarrow>
            (let ds = drop (i + 1) s; bits = 8 * length ip in
             if zone \<noteq> [] \<or> ds = [] \<or> \<not> list_all isDigit ds \<or> (length ds > 1 \<and> hd ds = 48) \<or> decimal ds > bits then None
             else Some (map2 (AND) ip (CIDRMask (decimal ds) bits), decimal ds))))"

subsection \<open>Facts\<close>

lemma length_To4: "length (To4 ip) = 4 \<or> To4 ip = []"
  by (auto simp: To4_def v4InV6Prefix_def)

lemma To4_To16 [simp]: "length ip = 4 \<Longrightarrow> To4 (To16 ip) = ip"
  by (simp add: To4_def To16_def v4InV6Prefix_def)

lemma length_To16: "length ip = 4 \<or> length ip = 16 \<Longrightarrow> length (To16 ip) = 16"
  by (auto simp: To16_def v4InV6Prefix_def)

lemma ipv4Fields_length: "ipv4Fields s v d fs = Some ip \<Longrightarrow> length fs \<le> 3 \<Longrightarrow> length ip = 4"
  by (induction s v d fs rule: ipv4Fields.induct) (auto split: if_splits)

lemma ipv6Groups_length:
  "ipv6Groups k s ip e = Some (ip', e', s') \<Longrightarrow> length ip + 2 * k = 16 \<Longrightarrow> length ip' \<le> 16"
proof (induction k arbitrary: s ip e)
  case (Suc k)
  obtain acc off where g: "hexGroup s 0 0 = Some (acc, off)"
    using Suc.prems(1) by (auto split: option.splits)
  show ?case
  proof (cases "off < length s \<and> s ! off = 46")
    case True
    with g Suc.prems obtain v4 where "ipv4Fields s 0 0 [] = Some v4" "ip' = ip @ v4" "length ip + 4 \<le> 16"
      by (auto split: option.splits if_splits)
    with ipv4Fields_length [of s 0 0 "[]" v4] show ?thesis by simp
  next
    case False
    let ?s = "drop off s"
    have step: "ip' = ip @ be_bytes 2 acc \<or> (\<exists>t d. ipv6Groups k t (ip @ be_bytes 2 acc) d = Some (ip', e', s'))"
      using g False Suc.prems(1)
      by (simp add: Let_def split: if_splits) blast+
    then show ?thesis
      using Suc.IH Suc.prems(2) by auto
  qed
qed simp

lemma ParseAddr_length: "ParseAddr s = Some (ip, z) \<Longrightarrow> length ip = 4 \<or> length ip = 16"
proof -
  assume p: "ParseAddr s = Some (ip, z)"
  show ?thesis
  proof (cases "ipv4Fields s 0 0 [] = Some ip")
    case True
    then show ?thesis
      using ipv4Fields_length [of s 0 0 "[]" ip] by simp
  next
    case False
    with p have "parseIPv6 s = Some (ip, z)"
      by (auto simp: ParseAddr_def split: list.splits if_splits)
    then show ?thesis
      by (auto simp: parseIPv6_def Let_def split: if_splits option.splits prod.splits
          dest!: ipv6Groups_length)
  qed
qed

lemma ParseIP_length: "ParseIP s = [] \<or> length (ParseIP s) = 16"
  using ParseAddr_length by (auto simp: ParseIP_def length_To16 split: option.split)

end
