(* ===== verification/Profile_Lookup.thy ===== *)
theory Profile_Lookup
  imports Outbounds Go_Net
begin

text \<open>
  Finding the outbound of a host name or of an address (\<open>phantomtcp/phantom.go\<close>):
  the ranges, the \<open>PhantomProfile\<close> struct, \<open>GetOutbound\<close> and \<open>GetOutboundByIP\<close>. An
  outbound pointer may be nil, so the values of the maps are options.
\<close>

record ipRange =
  rng_Start :: nat
  rng_End :: nat
  rng_Interface :: "outbound option"

record phantomProfile =
  DomainMap :: "gostr \<Rightarrow> outbound option option"
  IPv4Ranges :: "ipRange list"
  IPv6Ranges :: "ipRange list"

subsection \<open>Parent domains\<close>

text \<open>
  The loop that the name lookups share: from offset \<open>o\<close>, at most \<open>depth\<close> times, go to the
  next dot and look up the rest of the name from there, the dot included.
\<close>

fun parentLoop :: "(gostr \<Rightarrow> 'a option) \<Rightarrow> nat \<Rightarrow> gostr \<Rightarrow> nat \<Rightarrow> ('a \<times> nat) option" where
  "parentLoop m 0 name offset = None"
| "parentLoop m (Suc depth) name offset =
    (case indexByte 46 (drop offset name) of None \<Rightarrow> None
     | Some off \<Rightarrow>
        (case m (drop (offset + off) name) of
           Some v \<Rightarrow> Some (v, offset + off)
         | None \<Rightarrow> parentLoop m depth name (offset + off + 1)))"

definition GetOutbound ::
  "phantomProfile \<Rightarrow> outbound option \<Rightarrow> int \<Rightarrow> gostr \<Rightarrow> outbound option \<times> nat" where
  "GetOutbound profile defaultOutbound subdomainDepth name =
    (case DomainMap profile name of Some config \<Rightarrow> (config, 0)
     | None \<Rightarrow>
        (case parentLoop (DomainMap profile) (nat subdomainDepth) name 0 of
           Some (config, offset) \<Rightarrow> (config, offset)
         | None \<Rightarrow> (defaultOutbound, 0)))"

text \<open>The parent domains the loop tries, longest first, with their offsets in the name.\<close>

definition parents :: "gostr \<Rightarrow> (gostr \<times> nat) list" where
  "parents name = map (\<lambda>i. (drop i name, i)) (filter (\<lambda>i. name ! i = 46) [0..<length name])"

lemma indexByte_dots:
  assumes "st \<le> length name"
  shows "filter (\<lambda>i. name ! i = b) [st..<length name] =
    (case indexByte b (drop st name) of None \<Rightarrow> []
     | Some k \<Rightarrow> (st + k) # filter (\<lambda>i. name ! i = b) [st + k + 1..<length name])"
  using assms
proof (induction "length name - st" arbitrary: st)
  case 0
  then show ?case by simp
next
  case (Suc n)
  then have st: "st < length name"
    by simp
  have IH: "filter (\<lambda>i. name ! i = b) [Suc st..<length name] =
    (case indexByte b (drop (Suc st) name) of None \<Rightarrow> []
     | Some k \<Rightarrow> (Suc st + k) # filter (\<lambda>i. name ! i = b) [Suc st + k + 1..<length name])"
    using Suc.hyps(2) st by (intro Suc.hyps(1)) simp_all
  have d: "drop st name = name ! st # drop (Suc st) name"
    using st by (simp add: Cons_nth_drop_Suc)
  from IH show ?case
    by (simp add: d upt_conv_Cons [OF st] split: option.split)
qed

text \<open>The loop finds the first parent domain in the map.\<close>

lemma parentLoop_find:
  assumes "st \<le> length name"
  shows "parentLoop m depth name st =
    (case filter (\<lambda>i. m (drop i name) \<noteq> None) (take depth (filter (\<lambda>i. name ! i = 46) [st..<length name])) of
       [] \<Rightarrow> None | i # _ \<Rightarrow> Some (the (m (drop i name)), i))"
  using assms
proof (induction m depth name st rule: parentLoop.induct)
  case (2 m depth name st)
  show ?case
  proof (cases "indexByte 46 (drop st name)")
    case None
    then show ?thesis
      using indexByte_dots [OF "2.prems", of 46] by simp
  next
    case (Some k)
    have b: "st + k + 1 \<le> length name"
      using indexByte_Some [OF Some] by auto
    show ?thesis
      using Some indexByte_dots [OF "2.prems", of 46] "2.IH" [OF Some _ b]
      by (simp split: option.split)
  qed
qed simp

lemma GetOutbound_first:
  "GetOutbound profile defaultOutbound subdomainDepth name =
    (case filter (\<lambda>(parent, _). DomainMap profile parent \<noteq> None)
        ((name, 0) # take (nat subdomainDepth) (parents name)) of
       [] \<Rightarrow> (defaultOutbound, 0)
     | (parent, i) # _ \<Rightarrow> (the (DomainMap profile parent), i))"
  using parentLoop_find [of 0 name "DomainMap profile" "nat subdomainDepth"]
  by (auto simp: GetOutbound_def parents_def take_map filter_map o_def split: option.split list.split)

subsection \<open>Address ranges\<close>

text \<open>\<open>sort.Search\<close>: the binary search for the first index at which \<open>f\<close> holds.\<close>

function searchLoop :: "(nat \<Rightarrow> bool) \<Rightarrow> nat \<Rightarrow> nat \<Rightarrow> nat" where
  "searchLoop f i j =
    (if i < j then
       (let h = (i + j) div 2 in if \<not> f h then searchLoop f (h + 1) j else searchLoop f i h)
     else i)"
  by pat_completeness auto
termination
  by (relation "measure (\<lambda>(_, i, j). j - i)") auto

declare searchLoop.simps [simp del]

definition Search :: "nat \<Rightarrow> (nat \<Rightarrow> bool) \<Rightarrow> nat" where
  "Search n f = searchLoop f 0 n"

definition rangeOf :: "ipRange list \<Rightarrow> nat \<Rightarrow> outbound option option" where
  "rangeOf ranges ip =
    (let index = Search (length ranges) (\<lambda>i. rng_End (ranges ! i) > ip)
     in if index < length ranges \<and> ip \<ge> rng_Start (ranges ! index) then Some (rng_Interface (ranges ! index))
        else None)"

text \<open>\<open>None\<close> is the panic of \<open>ip[:16]\<close> on an address that is neither kind.\<close>

definition GetOutboundByIP :: "phantomProfile \<Rightarrow> outbound option \<Rightarrow> bytes \<Rightarrow> outbound option option" where
  "GetOutboundByIP profile defaultOutbound ip =
    (if To4 ip \<noteq> [] then
       (case rangeOf (IPv4Ranges profile) (be_nat (To4 ip)) of Some ob \<Rightarrow> Some ob | None \<Rightarrow> Some defaultOutbound)
     else if length ip < 16 then None
     else
       (case rangeOf (IPv6Ranges profile) (be_nat (take 8 ip)) of Some ob \<Rightarrow> Some ob | None \<Rightarrow> Some defaultOutbound))"

text \<open>What the search relies on: the ranges are disjoint and in ascending order.\<close>

definition rangesOk :: "ipRange list \<Rightarrow> bool" where
  "rangesOk rs \<longleftrightarrow> sorted_wrt (\<lambda>a b. rng_End a \<le> rng_Start b) rs \<and> (\<forall>r \<in> set rs. rng_Start r < rng_End r)"

lemma searchLoop_first:
  assumes "i \<le> j" and "j \<le> n" and mono: "\<And>a b. a \<le> b \<Longrightarrow> b < n \<Longrightarrow> f a \<Longrightarrow> f b"
    and "\<forall>k < i. \<not> f k" and "j < n \<longrightarrow> f j"
  shows "(\<forall>k < searchLoop f i j. \<not> f k) \<and> (searchLoop f i j < n \<longrightarrow> f (searchLoop f i j)) \<and> searchLoop f i j \<le> n"
  using assms(1,2,4,5)
proof (induction "j - i" arbitrary: i j rule: less_induct)
  case less
  show ?case
  proof (cases "i < j")
    case True
    let ?h = "(i + j) div 2"
    have h: "i \<le> ?h" "?h < j"
      using True by auto
    show ?thesis
    proof (cases "f ?h")
      case False
      have "\<forall>k < ?h + 1. \<not> f k"
        using False mono h less.prems(2) by (metis Suc_eq_plus1 less_Suc_eq_le order.strict_trans2)
      moreover have "j - (?h + 1) < j - i" "?h + 1 \<le> j"
        using h True by linarith+
      moreover have "searchLoop f i j = searchLoop f (?h + 1) j"
        using False True by (simp add: searchLoop.simps [of f i j] Let_def)
      ultimately show ?thesis
        using less.hyps [of j "?h + 1"] less.prems(2,4) by simp
    next
      case f: True
      have "searchLoop f i j = searchLoop f i ?h"
        using f True by (simp add: searchLoop.simps [of f i j] Let_def)
      moreover have "?h - i < j - i" "?h \<le> n"
        using h True less.prems(2) by linarith+
      ultimately show ?thesis
        using less.hyps [of ?h i] less.prems(3) h(1) f by simp
    qed
  next
    case False
    then have "searchLoop f i j = i"
      by (subst searchLoop.simps) simp
    moreover have "i = j"
      using False less.prems(1) by simp
    ultimately show ?thesis
      using less.prems by simp
  qed
qed

lemma Search_first:
  assumes "\<And>a b. a \<le> b \<Longrightarrow> b < n \<Longrightarrow> f a \<Longrightarrow> f b"
  shows "(\<forall>k < Search n f. \<not> f k) \<and> (Search n f < n \<longrightarrow> f (Search n f)) \<and> Search n f \<le> n"
  unfolding Search_def using assms by (intro searchLoop_first) auto

lemma rangesOk_ends: "rangesOk rs \<Longrightarrow> a \<le> b \<Longrightarrow> b < length rs \<Longrightarrow> rng_End (rs ! a) \<le> rng_End (rs ! b)"
proof (cases "a = b")
  case False
  assume ok: "rangesOk rs" and ab: "a \<le> b" "b < length rs"
  then have "rng_End (rs ! a) \<le> rng_Start (rs ! b)"
    using False by (auto simp: rangesOk_def sorted_wrt_iff_nth_less)
  moreover have "rng_Start (rs ! b) < rng_End (rs ! b)"
    using ok ab by (simp add: rangesOk_def)
  ultimately show ?thesis by simp
qed simp

lemma rangeOf_spec:
  assumes "rangesOk rs"
  shows "rangeOf rs ip = map_option rng_Interface (find (\<lambda>r. rng_Start r \<le> ip \<and> ip < rng_End r) rs)"
proof -
  let ?f = "\<lambda>i. rng_End (rs ! i) > ip" and ?P = "\<lambda>r. rng_Start r \<le> ip \<and> ip < rng_End r"
  define k where "k = Search (length rs) ?f"
  have k: "\<forall>i < k. \<not> ?f i" "k < length rs \<longrightarrow> ?f k" "k \<le> length rs"
  proof -
    have "?f b" if "a \<le> b" "b < length rs" "?f a" for a b
      using rangesOk_ends [OF assms that(1,2)] that(3) by simp
    from Search_first [of "length rs" ?f, OF this, folded k_def]
    show "\<forall>i < k. \<not> ?f i" "k < length rs \<longrightarrow> ?f k" "k \<le> length rs" by auto
  qed
  show ?thesis
  proof (cases "k < length rs \<and> rng_Start (rs ! k) \<le> ip")
    case True
    then have "find ?P rs = Some (rs ! k)"
      using k by (auto simp: find_Some_iff)
    with True show ?thesis
      by (simp add: rangeOf_def Let_def flip: k_def)
  next
    case False
    have "\<not> ?P r" if "r \<in> set rs" for r
    proof
      assume P: "?P r"
      from that obtain i where i: "i < length rs" "r = rs ! i"
        by (auto simp: in_set_conv_nth)
      have ki: "k \<le> i"
        using k(1) i P not_le_imp_less by blast
      then have "rng_Start (rs ! k) \<le> rng_Start (rs ! i)"
      proof (cases "k = i")
        case False
        with ki have "k < i" by simp
        with assms i have "rng_End (rs ! k) \<le> rng_Start (rs ! i)" "rng_Start (rs ! k) < rng_End (rs ! k)"
          by (auto simp: rangesOk_def sorted_wrt_iff_nth_less)
        then show ?thesis by simp
      qed simp
      with False ki i P show False by auto
    qed
    then have "find ?P rs = None"
      by (simp add: find_None_iff)
    with False show ?thesis
      by (auto simp: rangeOf_def Let_def simp flip: k_def)
  qed
qed

end
