(* ===== verification/Dns_Wire.thy ===== *)
theory Dns_Wire
  imports Go_Net
begin

text \<open>
  The DNS messages of \<open>phantomtcp/dns.go\<close>: reading the question (\<open>GetQName\<close>) and names
  in answers (\<open>GetName\<close>, \<open>GetNameOffset\<close>), writing questions (\<open>PackQName\<close>,
  \<open>PackRequest\<close>), the fixed answers (\<open>BuildServfail\<close>, \<open>BuildNodata\<close>,
  \<open>BuildNxdomain\<close>), the options of a server's URL and the fake addresses. A result
  \<open>None\<close> is a panic; slices have the capacity of their length.
\<close>

subsection \<open>Reading names\<close>

text \<open>
  \<open>GetQName\<close> fails with an empty name and zeros. The loop reads the labels after the
  first one; \<open>wire\<close> is the length of the name on the wire so far.
\<close>

function qnameLoop :: "bytes \<Rightarrow> nat \<Rightarrow> nat \<Rightarrow> gostr \<Rightarrow> (gostr \<times> nat) option" where
  "qnameLoop buf off wire qname =
    (if off \<ge> length buf then None
     else
       (let len = unat (buf ! off); off = off + 1; wire = wire + 1 in
        if len > 63 then None
        else if len = 0 then (if wire > 255 then None else Some (qname, off))
        else
          (let end = off + len; wire = wire + len in
           if end > length buf \<or> wire \<ge> 255 then None
           else qnameLoop buf end wire (qname @ [46] @ take len (drop off buf)))))"
  by pat_completeness auto
termination
  by (relation "measure (\<lambda>(buf, off, _). length buf - off)") auto

declare qnameLoop.simps [simp del]

definition GetQName :: "bytes \<Rightarrow> gostr \<times> nat \<times> nat" where
  "GetQName buf =
    (if length buf < 13 then ([], 0, 0)
     else
       (let len = unat (buf ! 12); end = 13 + len; wire = end - 12 in
        if len > 63 \<or> end > length buf \<or> wire \<ge> 255 then ([], 0, 0)
        else
          (case qnameLoop buf end wire (take len (drop 13 buf)) of None \<Rightarrow> ([], 0, 0)
           | Some (qname, off) \<Rightarrow>
              (let end = off + 4 in
               if end > length buf then ([], 0, 0)
               else (qname, be_nat (take 2 (drop off buf)), end)))))"

text \<open>
  \<open>GetName\<close> follows the low byte of a compression pointer by calling itself. \<open>None\<close>
  is a panic or a recursion that never ends (which exhausts the stack); both end the
  process.
\<close>

partial_function (option) getNameLoop :: "bytes \<Rightarrow> nat \<Rightarrow> gostr \<Rightarrow> (gostr \<times> nat) option" where
  "getNameLoop buf offset name =
    (if offset \<ge> length buf then None
     else
       (let len = unat (buf ! offset); offset = offset + 1 in
        if len = 0 then Some (name, offset)
        else
          (let name = (if name \<noteq> [] then name @ [46] else name) in
           if len < 63 then
             (if offset + len > length buf then None
              else
                (let part = take len (drop offset buf); offset = offset + len in
                 if offset + 2 > length buf then Some ([], offset)
                 else getNameLoop buf offset (name @ part)))
           else
             (if offset \<ge> length buf then None
              else
                Option.bind (getNameLoop buf (unat (buf ! offset)) [])
                  (\<lambda>r. Some (name @ fst r, offset + 1))))))"

declare getNameLoop.simps [code]

definition GetName :: "bytes \<Rightarrow> nat \<Rightarrow> (gostr \<times> nat) option" where
  "GetName buf offset = getNameLoop buf offset []"

text \<open>\<open>GetNameOffset\<close> skips a name without following its pointers; 0 is its failure.\<close>

function GetNameOffset :: "bytes \<Rightarrow> nat \<Rightarrow> nat" where
  "GetNameOffset response offset =
    (if offset \<ge> length response then 0
     else
       (let len = unat (response ! offset); offset = offset + 1 in
        if len = 0 then offset
        else if len < 63 then
          (if offset + len + 2 > length response then 0 else GetNameOffset response (offset + len))
        else offset + 1))"
  by pat_completeness auto
termination
  by (relation "measure (\<lambda>(r, off). length r - off)") auto

declare GetNameOffset.simps [simp del]

subsection \<open>Writing questions\<close>

text \<open>
  \<open>strings.Count(name, "")\<close> is one more than the number of runes; an invalid byte counts
  as a rune of its own.
\<close>

definition isCont :: "byte \<Rightarrow> bool" where
  "isCont b \<longleftrightarrow> 0x80 \<le> b \<and> b \<le> 0xBF"

fun utf8Width :: "bytes \<Rightarrow> nat" where
  "utf8Width [] = 0"
| "utf8Width (b # s) =
    (if b < 0x80 then 1
     else if 0xC2 \<le> b \<and> b \<le> 0xDF then (if length s \<ge> 1 \<and> isCont (s ! 0) then 2 else 1)
     else if 0xE0 \<le> b \<and> b \<le> 0xEF then
       (if length s \<ge> 2 \<and> (if b = 0xE0 then 0xA0 else 0x80) \<le> s ! 0 \<and> s ! 0 \<le> (if b = 0xED then 0x9F else 0xBF)
           \<and> isCont (s ! 1) then 3 else 1)
     else if 0xF0 \<le> b \<and> b \<le> 0xF4 then
       (if length s \<ge> 3 \<and> (if b = 0xF0 then 0x90 else 0x80) \<le> s ! 0 \<and> s ! 0 \<le> (if b = 0xF4 then 0x8F else 0xBF)
           \<and> isCont (s ! 1) \<and> isCont (s ! 2) then 4 else 1)
     else 1)"

lemma utf8Width_pos: "s \<noteq> [] \<Longrightarrow> 0 < utf8Width s"
  by (cases s) simp_all

function runeCount :: "bytes \<Rightarrow> nat" where
  "runeCount s = (if s = [] then 0 else Suc (runeCount (drop (utf8Width s) s)))"
  by pat_completeness auto
termination
  by (relation "measure length") (auto intro!: diff_less simp: utf8Width_pos)

declare runeCount.simps [simp del]

text \<open>
  The dots of the copied name are replaced by the lengths of the labels that follow:
  \<open>at\<close> is where the length of the current label goes, \<open>l\<close> the length so far.
\<close>

fun packLoop :: "bytes \<Rightarrow> nat \<Rightarrow> nat \<Rightarrow> nat \<Rightarrow> nat \<Rightarrow> bytes" where
  "packLoop q at l i 0 = q[at := of_nat l]"
| "packLoop q at l i (Suc k) =
    (if q ! i = 46 then packLoop (q[at := of_nat l]) i 0 (i + 1) k
     else packLoop q at (l + 1) (i + 1) k)"

definition PackQName :: "gostr \<Rightarrow> bytes" where
  "PackQName name =
    (let len = runeCount name + 1 in packLoop (copy_at (replicate (len + 1) 0) 1 name) 0 0 1 (len - 1))"

text \<open>Writing at the current length of a message, which advances; a \<open>copy\<close> may be cut short.\<close>

definition wr8 :: "nat \<Rightarrow> bytes \<times> nat \<Rightarrow> (bytes \<times> nat) option" where
  "wr8 v dn = map_option (\<lambda>d. (d, snd dn + 1)) (set8 (fst dn) (snd dn) (of_nat v))"

definition wr16 :: "nat \<Rightarrow> bytes \<times> nat \<Rightarrow> (bytes \<times> nat) option" where
  "wr16 v dn = map_option (\<lambda>d. (d, snd dn + 2)) (put16 (fst dn) (snd dn) v)"

definition wr32 :: "nat \<Rightarrow> bytes \<times> nat \<Rightarrow> (bytes \<times> nat) option" where
  "wr32 v dn = map_option (\<lambda>d. (d, snd dn + 4)) (put32 (fst dn) (snd dn) v)"

definition wcopy :: "bytes \<Rightarrow> bytes \<times> nat \<Rightarrow> (bytes \<times> nat) option" where
  "wcopy s dn = map_option (\<lambda>d. (d, snd dn + length s)) (copyFrom (fst dn) (snd dn) s)"

text \<open>The EDNS client subnet option of \<open>PackRequest\<close>.\<close>

definition packECS :: "gostr \<Rightarrow> bytes \<times> nat \<Rightarrow> (bytes \<times> nat) option" where
  "packECS ecs dn = do {
    dn \<leftarrow> wr8 0 dn;
    dn \<leftarrow> wr16 41 dn;
    dn \<leftarrow> wr16 4096 dn;
    dn \<leftarrow> wr8 0 dn;
    dn \<leftarrow> wr8 0 dn;
    dn \<leftarrow> wr16 0x800 dn;
    let ecsip = ParseIP ecs;
    if To4 ecsip \<noteq> [] then do {
      dn \<leftarrow> wr16 11 dn;
      dn \<leftarrow> wr16 8 dn;
      dn \<leftarrow> wr16 7 dn;
      dn \<leftarrow> wr16 1 dn;
      dn \<leftarrow> wr8 24 dn;
      dn \<leftarrow> wr8 0 dn;
      net \<leftarrow> slice (To4 ecsip) 0 3;
      wcopy net dn }
    else do {
      dn \<leftarrow> wr16 15 dn;
      dn \<leftarrow> wr16 8 dn;
      dn \<leftarrow> wr16 11 dn;
      dn \<leftarrow> wr16 2 dn;
      dn \<leftarrow> wr8 56 dn;
      dn \<leftarrow> wr8 0 dn;
      net \<leftarrow> slice ecsip 0 7;
      wcopy net dn } }"

definition PackRequest :: "gostr \<Rightarrow> nat \<Rightarrow> nat \<Rightarrow> gostr \<Rightarrow> nat \<Rightarrow> bytes option" where
  "PackRequest name qtype ident ecs qtype2 = do {
    dn \<leftarrow> wr16 ident (replicate 512 0, 0);
    dn \<leftarrow> wr16 0x0100 dn;
    dn \<leftarrow> wr16 (if qtype2 \<noteq> 0 then 2 else 1) dn;
    dn \<leftarrow> wr16 0 dn;
    dn \<leftarrow> wr16 0 dn;
    dn \<leftarrow> wr16 (if ecs \<noteq> [] then 1 else 0) dn;
    let qname = PackQName name;
    dn \<leftarrow> (if qtype2 = 0 then do {
        dn \<leftarrow> wcopy qname dn;
        dn \<leftarrow> wr16 qtype dn;
        wr16 1 dn }
      else do {
        dn \<leftarrow> wr16 0xC012 dn;
        dn \<leftarrow> wr16 qtype dn;
        dn \<leftarrow> wr16 1 dn;
        dn \<leftarrow> wcopy qname dn;
        dn \<leftarrow> wr16 qtype2 dn;
        wr16 1 dn });
    dn \<leftarrow> (if ecs \<noteq> [] then packECS ecs dn else Some dn);
    slice (fst dn) 0 (snd dn) }"

subsection \<open>Fixed answers\<close>

definition BuildServfail :: "bytes \<Rightarrow> bytes option" where
  "BuildServfail request = do {
    response \<leftarrow> set8 request 2 0x81;
    set8 response 3 0x82 }"

definition soaRecord :: bytes where
  "soaRecord = [0x00, 0x00, 0x06, 0x00, 0x01, 0x00, 0x00, 0x00, 0x00, 0x00, 0x40, 0x01] @ str ''a'' @ [12]
    @ str ''root-servers'' @ [3] @ str ''net'' @ [0, 5] @ str ''nstld'' @ [12] @ str ''verisign-grs'' @ [3] @ str ''com''
    @ [0, 0x78, 0xa4, 0x92, 0x64, 0x00, 0x00, 0x07, 0x08, 0x00, 0x00, 0x03, 0x84, 0x00, 0x09, 0x3a, 0x80,
       0x00, 0x00, 0x00, 0x00]"

text \<open>The response has 75 bytes more than the request, so no index is out of range.\<close>

definition BuildNodata :: "bytes \<Rightarrow> nat \<Rightarrow> bytes" where
  "BuildNodata request ttl =
    (let len = length request;
         response = (request @ replicate 75 0)[2 := 0x81, 3 := 0x80];
         response = copy_at response 8 (be_bytes 2 1);
         response = copy_at response len soaRecord;
         response = copy_at response (len + 5) (be_bytes 4 ttl)
     in copy_at response (len + 71) (be_bytes 4 ttl))"

definition BuildNxdomain :: "bytes \<Rightarrow> nat \<Rightarrow> bytes" where
  "BuildNxdomain request ttl = (BuildNodata request ttl)[3 := 0x83]"

subsection \<open>Server options\<close>

record serverOptions =
  opt_ECS :: gostr
  opt_Type :: gostr
  opt_PD :: gostr
  opt_Domain :: gostr
  opt_Output :: gostr
  opt_BadSubnet :: "(bytes \<times> bytes) option"
  opt_Fallback :: bytes
  opt_QType2 :: nat
  opt_Delay :: int

definition serverOptions0 :: serverOptions where
  "serverOptions0 = \<lparr>opt_ECS = [], opt_Type = [], opt_PD = [], opt_Domain = [], opt_Output = [], opt_BadSubnet = None,
    opt_Fallback = [], opt_QType2 = 0, opt_Delay = 0\<rparr>"

definition parseOption :: "gostr \<Rightarrow> serverOptions \<Rightarrow> serverOptions" where
  "parseOption opt so =
    (case splitByte2 61 opt of
       [k, v] \<Rightarrow>
         (if k = str ''ecs'' then so\<lparr>opt_ECS := v\<rparr>
          else if k = str ''pd'' then so\<lparr>opt_PD := v\<rparr>
          else if k = str ''type'' then so\<lparr>opt_Type := v\<rparr>
          else if k = str ''domain'' then so\<lparr>opt_Domain := v\<rparr>
          else if k = str ''output'' then so\<lparr>opt_Output := v\<rparr>
          else if k = str ''badsubnet'' then so\<lparr>opt_BadSubnet := ParseCIDR v\<rparr>
          else if k = str ''fallback'' then so\<lparr>opt_Fallback := ParseIP v\<rparr>
          else if k = str ''qtype2'' then
            (case ParseUint v 16 of Some n \<Rightarrow> so\<lparr>opt_QType2 := n\<rparr> | None \<Rightarrow> so)
          else if k = str ''delay'' then
            (case Atoi v of Some n \<Rightarrow> so\<lparr>opt_Delay := n\<rparr> | None \<Rightarrow> so)
          else so)
     | _ \<Rightarrow> so)"

definition ParseOptions :: "gostr \<Rightarrow> serverOptions" where
  "ParseOptions options = fold parseOption (splitByte 38 options) serverOptions0"

subsection \<open>Fake addresses\<close>

definition VirtualAddrPrefix :: byte where
  "VirtualAddrPrefix = 255"

definition parseFakeIPIndex :: "bytes \<Rightarrow> (nat \<times> bool) option" where
  "parseFakeIPIndex ip =
    (if ip = [] then None
     else if hd ip = 0 then
       (if length ip = 16 then Some (be_nat (take 2 (drop 14 ip)), True) else Some (0, False))
     else if hd ip = VirtualAddrPrefix then
       (if length ip = 4 then Some (be_nat (take 2 (drop 2 ip)), True) else Some (0, False))
     else Some (0, False))"

end
