(* ===== verification/Dns_Lookup.thy ===== *)
theory Dns_Lookup
  imports Profile_Lookup Dns_Wire
begin

text \<open>
  Asking a server (\<open>phantomtcp/dns.go\<close>): the lookups over TCP, TLS, TCP fast open, UDP and
  HTTPS, and the translation of A answers of \<open>TCPlookupDNS64\<close>. What the network does is a
  parameter: a dialler is a function of the address and of the bytes written, and a
  connection is the list of segments that arrive on it, after which reading fails. The
  result of a lookup is \<open>None\<close> for a panic, and an error or the answer otherwise.
\<close>

subsection \<open>Host and port\<close>

definition validOptionalPort :: "gostr \<Rightarrow> bool" where
  "validOptionalPort port = (port = [] \<or> hd port = 58 \<and> list_all isDigit (tl port))"

definition splitHostPort :: "gostr \<Rightarrow> gostr \<times> int" where
  "splitHostPort hostport =
    (let (host, port) =
       (case lastIndexByte 58 hostport of
          Some colon \<Rightarrow>
            (if validOptionalPort (drop colon hostport) then
               (take colon hostport, case Atoi (drop (colon + 1) hostport) of Some p \<Rightarrow> p | None \<Rightarrow> 0)
             else (hostport, 0))
        | None \<Rightarrow> (hostport, 0))
     in if hasPrefix host [91] \<and> hasSuffix host [93] then (take (length host - 2) (drop 1 host), port)
        else (host, port))"

text \<open>\<open>net.SplitHostPort\<close> as far as \<open>HTTPSlookup\<close> uses it: whether it succeeds.\<close>

definition hasHostPort :: "gostr \<Rightarrow> bool" where
  "hasHostPort hostport =
    (case lastIndexByte 58 hostport of None \<Rightarrow> False
     | Some i \<Rightarrow>
        (if hasPrefix hostport [91] then
           (case indexByte 93 hostport of None \<Rightarrow> False
            | Some end \<Rightarrow> end + 1 = i \<and> 91 \<notin> set (drop 1 hostport) \<and> 93 \<notin> set (drop (end + 1) hostport))
         else 58 \<notin> set (take i hostport) \<and> 91 \<notin> set hostport \<and> 93 \<notin> set hostport))"

subsection \<open>The network\<close>

record dnsNet =
  net_Resolve :: "gostr \<Rightarrow> bytes option"
  net_Outbound :: "outbound \<Rightarrow> gostr \<Rightarrow> int \<Rightarrow> bytes \<Rightarrow> bytes list option"
  net_TCP :: "gostr \<Rightarrow> bytes \<Rightarrow> bytes list option"
  net_TLS :: "gostr \<Rightarrow> bytes \<Rightarrow> bytes list option"
  net_TFO :: "gostr \<Rightarrow> bytes \<Rightarrow> bytes list option"
  net_UDP :: "gostr \<Rightarrow> bytes \<Rightarrow> (int \<times> bytes) list option"
  net_HTTPS :: "gostr \<Rightarrow> gostr \<Rightarrow> gostr \<Rightarrow> bytes \<Rightarrow> bytes option"
  net_Profile :: phantomProfile
  net_Default :: "outbound option"

text \<open>A \<open>Read\<close> into a buffer of \<open>m\<close> bytes; what does not fit stays for the next one.\<close>

definition connRead :: "nat \<Rightarrow> bytes list \<Rightarrow> (bytes \<times> bytes list) option" where
  "connRead m conn =
    (case conn of [] \<Rightarrow> None
     | c # cs \<Rightarrow> if length c \<le> m then Some (c, cs) else Some (take m c, drop m c # cs))"

text \<open>\<open>got\<close> are the bytes \<open>data[:recvlen]\<close> of the 1024-byte buffer, \<open>n\<close> those of the last read.\<close>

function recvLoop :: "nat \<Rightarrow> bytes \<Rightarrow> nat \<Rightarrow> bytes list \<Rightarrow> error + bytes" where
  "recvLoop len got n conn =
    (if length got < len \<and> n > 0 then
       (case connRead (1024 - length got) conn of None \<Rightarrow> Inl ''read''
        | Some (d, conn) \<Rightarrow> recvLoop len (got @ d) (length d) conn)
     else Inr (drop 2 got))"
  by pat_completeness auto
termination
  by (relation "measure (\<lambda>(len, got, n, conn). 2 * (len - length got) + (if n > 0 then 1 else 0))") (auto simp: neq_Nil_conv)

declare recvLoop.simps [simp del]

definition tcpReceive :: "bytes list \<Rightarrow> error + bytes" where
  "tcpReceive conn =
    (case connRead 1024 conn of None \<Rightarrow> Inl ''read''
     | Some (d, conn) \<Rightarrow>
        (if length d < 2 then Inr []
         else recvLoop (u16 (be_nat (take 2 d) + 2)) d (length d) conn))"

text \<open>The request after its length, in a buffer of 1024 bytes.\<close>

definition tcpFrame :: "bytes \<Rightarrow> bytes option" where
  "tcpFrame request = do {
    data \<leftarrow> put16 (replicate 1024 0) 0 (u16 (length request));
    data \<leftarrow> copyFrom data 2 request;
    slice data 0 (length request + 2) }"

definition exchange :: "(bytes \<Rightarrow> bytes list option) \<Rightarrow> bytes \<Rightarrow> (error + bytes) option" where
  "exchange dial request =
    map_option (\<lambda>data. case dial data of None \<Rightarrow> Inl ''dial'' | Some conn \<Rightarrow> tcpReceive conn) (tcpFrame request)"

text \<open>The dialler of \<open>TCPlookup\<close> frames the request only after the outbound is known.\<close>

definition TCPlookup :: "dnsNet \<Rightarrow> bytes \<Rightarrow> gostr \<Rightarrow> (error + bytes) option" where
  "TCPlookup net request address =
    (case net_Resolve net address of None \<Rightarrow> Some (Inl ''resolve'')
     | Some ip \<Rightarrow>
        (case GetOutboundByIP (net_Profile net) (net_Default net) ip of None \<Rightarrow> None
         | Some (Some outbound) \<Rightarrow>
             (let (host, port) = splitHostPort address in exchange (net_Outbound net outbound host port) request)
         | Some None \<Rightarrow> exchange (net_TCP net address) request))"

definition TLSlookup :: "dnsNet \<Rightarrow> bytes \<Rightarrow> gostr \<Rightarrow> (error + bytes) option" where
  "TLSlookup net request address = exchange (net_TLS net address) request"

definition TFOlookup :: "dnsNet \<Rightarrow> bytes \<Rightarrow> gostr \<Rightarrow> (error + bytes) option" where
  "TFOlookup net request address =
    (case net_Resolve net address of None \<Rightarrow> Some (Inl ''resolve'')
     | Some _ \<Rightarrow> exchange (net_TFO net address) request)"

text \<open>
  When no server name is configured, the code takes the host with its port if the split
  succeeds, and the empty host if it fails.
\<close>

definition HTTPSlookup :: "dnsNet \<Rightarrow> bytes \<Rightarrow> gostr \<Rightarrow> gostr \<Rightarrow> gostr \<Rightarrow> (error + bytes) option" where
  "HTTPSlookup net request host path servername =
    (let servername = (if servername = [] then (if hasHostPort host then host else []) else servername)
     in case net_HTTPS net host path servername request of
          None \<Rightarrow> Some (Inl ''https'') | Some body \<Rightarrow> Some (Inr body))"

text \<open>
  \<open>UDPlookup\<close>: the datagrams that arrive before the deadline, each with the nanoseconds
  since the start; replies that come too early are dropped. A request with additional
  records also waits for a reply with a nonzero byte 11; the buffer keeps the bytes of the
  datagrams before it.
\<close>

fun udpLoop :: "bool \<Rightarrow> int \<Rightarrow> bytes \<Rightarrow> (int \<times> bytes) list \<Rightarrow> error + bytes" where
  "udpLoop additional delay buf [] = Inl ''read''"
| "udpLoop additional delay buf ((elapsed, d) # ds) =
    (let buf = copy_at buf 0 d in
     if elapsed < delay * 1000000 then udpLoop additional delay buf ds
     else if additional \<and> buf ! 11 = 0 then udpLoop additional delay buf ds
     else Inr (take (length d) buf))"

definition UDPlookup :: "dnsNet \<Rightarrow> bytes \<Rightarrow> gostr \<Rightarrow> int \<Rightarrow> (error + bytes) option" where
  "UDPlookup net request address delay =
    (case net_UDP net address request of None \<Rightarrow> Some (Inl ''dial'')
     | Some ds \<Rightarrow>
        (if length request \<le> 11 then None
         else Some (udpLoop (request ! 11 \<noteq> 0) delay (replicate 1024 0) ds)))"

subsection \<open>DNS64\<close>

text \<open>
  \<open>TCPlookupDNS64\<close> copies the answer of an A query to a new buffer of 1024 bytes, each
  IPv4 address embedded in the prefix. One answer: \<open>offset\<close> is where the name of the
  answer ends (the loop over its labels is that of \<open>GetNameOffset\<close>), \<open>offset4\<close> and
  \<open>offset6\<close> are how far the input has been copied and the output written. \<open>Some None\<close> is
  the return without an answer.
\<close>

definition answer64 ::
  "bytes \<Rightarrow> bytes \<Rightarrow> nat \<Rightarrow> nat \<Rightarrow> bytes \<times> nat \<Rightarrow> (nat \<times> bytes \<times> nat) option option" where
  "answer64 prefix response offset4 offset dn =
    (if offset + 2 > length response then Some None
     else
       Option.bind (slice response offset4 offset) (\<lambda>name.
       Option.bind (wcopy name dn) (\<lambda>dn.
         (let atype = be_nat (take 2 (drop offset response)); start = offset; offset = offset + 8 in
          if offset + 2 > length response then Some None
          else
            (let dataLength = be_nat (take 2 (drop offset response)); offset = offset + 2 + dataLength in
             if atype = 1 then
               (if offset > length response then Some None
                else do {
                  dn \<leftarrow> wr16 28 dn;
                  fixed \<leftarrow> slice response (start + 2) (start + 8);
                  dn \<leftarrow> wcopy fixed dn;
                  dn \<leftarrow> wr16 (u16 (dataLength + 12)) dn;
                  p \<leftarrow> slice prefix 0 12;
                  dn \<leftarrow> wcopy p dn;
                  ip \<leftarrow> slice response (start + 10) offset;
                  dn \<leftarrow> wcopy ip dn;
                  Some (Some (offset, dn)) })
             else do {
               rest \<leftarrow> slice response start offset;
               dn \<leftarrow> wcopy rest dn;
               Some (Some (offset, dn)) })))))"

fun answers64 :: "bytes \<Rightarrow> bytes \<Rightarrow> nat \<Rightarrow> nat \<Rightarrow> bytes \<times> nat \<Rightarrow> (bytes \<times> nat) option option" where
  "answers64 prefix response 0 offset dn = Some (Some dn)"
| "answers64 prefix response (Suc k) offset dn =
    (let o1 = GetNameOffset response offset in
     if o1 = 0 then Some None
     else
       (case answer64 prefix response offset o1 dn of
          None \<Rightarrow> None
        | Some None \<Rightarrow> Some None
        | Some (Some (o2, dn)) \<Rightarrow> answers64 prefix response k o2 dn))"

definition TCPlookupDNS64 ::
  "dnsNet \<Rightarrow> bytes \<Rightarrow> gostr \<Rightarrow> nat \<Rightarrow> bytes \<Rightarrow> (error + bytes) option" where
  "TCPlookupDNS64 net request address offset prefix = do {
    request \<leftarrow> (if offset < 4 then None else put16 request (offset - 4) 1);
    r \<leftarrow> TCPlookup net request address;
    case r of Inl e \<Rightarrow> Some (Inl e)
    | Inr response \<Rightarrow> do {
        q \<leftarrow> slice response 0 offset;
        d \<leftarrow> put16 (copy_at (replicate 1024 0) 0 q) (offset - 4) 28;
        count \<leftarrow> rd16 response 6;
        res \<leftarrow> answers64 prefix response count offset (d, offset);
        case res of None \<Rightarrow> Some (Inr [])
        | Some dn \<Rightarrow> map_option Inr (slice (fst dn) 0 (snd dn)) } }"

end
