(* ===== verification/Dns_Records.thy ===== *)
theory Dns_Records
  imports Dns_Wire Outbounds
begin

text \<open>
  The records of a name (\<open>phantomtcp/dns.go\<close>): the structs, what an answer adds to them
  (\<open>GetAnswers\<close>) and the answers built from them (\<open>PackAnswers\<close>, \<open>BuildResponse\<close>). A
  \<open>*RecordAddresses\<close> may be shared by several names, so the pointers are indexes into a
  heap, and the operations take the heap with the struct. \<open>now\<close> is the clock in seconds,
  taken to stand still during one call; \<open>None\<close> is a panic, or a recursion of \<open>GetName\<close>
  that never ends.
\<close>

unbundle bit_operations_syntax

record recordAddresses =
  ra_TTL :: int
  ra_Addresses :: "bytes list"

record dnsRecords =
  rec_Index :: nat
  rec_ALPN :: hint
  rec_IPv4Hint :: "nat option"
  rec_IPv6Hint :: "nat option"
  rec_CName :: gostr
  rec_Ech :: bytes

definition dnsRecords0 :: dnsRecords where
  "dnsRecords0 = \<lparr>rec_Index = 0, rec_ALPN = 0, rec_IPv4Hint = None, rec_IPv6Hint = None, rec_CName = [], rec_Ech = []\<rparr>"

type_synonym recHeap = "recordAddresses list \<times> dnsRecords"

subsection \<open>Reading answers\<close>

text \<open>The closure \<open>nsfilter\<close>: a nil address is the empty list.\<close>

definition nsfilter :: "serverOptions \<Rightarrow> bytes \<Rightarrow> bytes" where
  "nsfilter options address =
    (if (case opt_BadSubnet options of Some net \<Rightarrow> netContains net address | None \<Rightarrow> False) then []
     else if opt_PD options \<noteq> [] then ParseIP (opt_PD options @ IPString address)
     else address)"

definition newIPv4 :: "int \<Rightarrow> bytes list \<Rightarrow> recHeap \<Rightarrow> recHeap" where
  "newIPv4 ttl ips st =
    (fst st @ [\<lparr>ra_TTL = ttl, ra_Addresses = ips\<rparr>], (snd st)\<lparr>rec_IPv4Hint := Some (length (fst st))\<rparr>)"

definition newIPv6 :: "int \<Rightarrow> bytes list \<Rightarrow> recHeap \<Rightarrow> recHeap" where
  "newIPv6 ttl ips st =
    (fst st @ [\<lparr>ra_TTL = ttl, ra_Addresses = ips\<rparr>], (snd st)\<lparr>rec_IPv6Hint := Some (length (fst st))\<rparr>)"

definition appendAddress :: "nat \<Rightarrow> bytes \<Rightarrow> recHeap \<Rightarrow> recHeap" where
  "appendAddress p ip st =
    ((fst st)[p := (fst st ! p)\<lparr>ra_Addresses := ra_Addresses (fst st ! p) @ [ip]\<rparr>], snd st)"

definition addIPv4 :: "int \<Rightarrow> bytes \<Rightarrow> recHeap \<Rightarrow> recHeap" where
  "addIPv4 ttl ip st =
    (case rec_IPv4Hint (snd st) of None \<Rightarrow> newIPv4 ttl [ip] st | Some p \<Rightarrow> appendAddress p ip st)"

definition addIPv6 :: "int \<Rightarrow> bytes \<Rightarrow> recHeap \<Rightarrow> recHeap" where
  "addIPv6 ttl ip st =
    (case rec_IPv6Hint (snd st) of None \<Rightarrow> newIPv6 ttl [ip] st | Some p \<Rightarrow> appendAddress p ip st)"

text \<open>The parameters of an HTTPS record (type 65): ALPN names, address hints, ECH.\<close>

definition alpnHint :: "gostr \<Rightarrow> hint" where
  "alpnHint name =
    (if name = str ''http/1.1'' then HINT_HTTPS
     else if name = str ''h2'' then HINT_HTTP2
     else if name = str ''h3'' then HINT_HTTP3
     else 0)"

function alpnLoop :: "bytes \<Rightarrow> nat \<Rightarrow> nat \<Rightarrow> hint \<Rightarrow> hint option" where
  "alpnLoop response offset end alpn =
    (if offset + 1 < end then
       (if offset \<ge> length response then None
        else
          (let len = unat (response ! offset); offset = offset + 1 in
           if offset + len > end then Some alpn
           else if offset + len > length response then None
           else alpnLoop response (offset + len) end (alpn OR alpnHint (take len (drop offset response)))))
     else Some alpn)"
  by pat_completeness auto
termination
  by (relation "measure (\<lambda>(response, offset, end, alpn). end - offset)") auto

declare alpnLoop.simps [simp del]

text \<open>The addresses of a hint, \<open>w\<close> bytes each (4 or 16); a last partial one is read past its end.\<close>

function hintLoop :: "nat \<Rightarrow> bytes \<Rightarrow> nat \<Rightarrow> nat \<Rightarrow> bytes list option" where
  "hintLoop w response offset end =
    (if offset < end \<and> 0 < w then
       (if offset + w > length response then None
        else map_option (Cons (take w (drop offset response))) (hintLoop w response (offset + w) end))
     else Some [])"
  by pat_completeness auto
termination
  by (relation "measure (\<lambda>(w, response, offset, end). end - offset)") auto

declare hintLoop.simps [simp del]

definition svcParam :: "int \<Rightarrow> bytes \<Rightarrow> nat \<Rightarrow> nat \<Rightarrow> nat \<Rightarrow> recHeap \<Rightarrow> recHeap option" where
  "svcParam ttl response key offset end st =
    (if key = 1 then
       map_option (\<lambda>alpn. (fst st, (snd st)\<lparr>rec_ALPN := alpn\<rparr>)) (alpnLoop response offset end (rec_ALPN (snd st)))
     else if key = 4 then
       map_option (\<lambda>ips. newIPv4 ttl (map To16 ips) st) (hintLoop 4 response offset end)
     else if key = 5 then
       Some (fst st, (snd st)\<lparr>rec_Ech := take (end - offset) (drop offset response)\<rparr>)
     else if key = 6 then
       map_option (\<lambda>ips. newIPv6 ttl ips st) (hintLoop 16 response offset end)
     else Some st)"

function svcLoop :: "int \<Rightarrow> bytes \<Rightarrow> nat \<Rightarrow> recHeap \<Rightarrow> (nat \<times> recHeap) option" where
  "svcLoop ttl response offset st =
    (if offset + 4 < length response then
       (let key = be_nat (take 2 (drop offset response));
            len = be_nat (take 2 (drop (offset + 2) response));
            offset = offset + 4;
            end = offset + len
        in if end > length response then Some (offset, st)
           else
             (case svcParam ttl response key offset end st of None \<Rightarrow> None
              | Some st \<Rightarrow> svcLoop ttl response end st))
     else Some (offset, st))"
  by pat_completeness auto
termination
  by (relation "measure (\<lambda>(ttl, response, offset, st). length response - offset)") auto

declare svcLoop.simps [simp del]

text \<open>
  One answer after its name, at \<open>offset\<close>: \<open>None\<close> is a panic, \<open>Some (None, st)\<close> a return
  from \<open>GetAnswers\<close>, and \<open>Some (Some o, st)\<close> goes on with the next answer at \<open>o\<close>. The
  \<open>continue\<close> after a filtered address does not skip the address.
\<close>

definition answer ::
  "nat \<Rightarrow> int \<Rightarrow> bytes \<Rightarrow> serverOptions \<Rightarrow> nat \<Rightarrow> recHeap \<Rightarrow> (nat option \<times> recHeap) option" where
  "answer minTTL now response options offset st =
    (if offset + 2 > length response then Some (None, st)
     else
       (let atype = be_nat (take 2 (drop offset response)); offset = offset + 4 in
        if offset + 4 > length response then Some (None, st)
        else
          (let ttl = int (max minTTL (be_nat (take 4 (drop offset response)))) + now; offset = offset + 4 in
           if offset + 2 > length response then Some (None, st)
           else
             (let dataLength = be_nat (take 2 (drop offset response)); offset = offset + 2 in
              if atype = 1 then
                (if offset + 4 > length response then Some (None, st)
                 else
                   (let ip = To4 (nsfilter options (To16 (take 4 (drop offset response)))) in
                    if ip = [] then Some (Some offset, st)
                    else Some (Some (offset + dataLength), addIPv4 ttl ip st)))
              else if atype = 28 then
                (if offset + 16 > length response then Some (None, st)
                 else
                   (let ip = nsfilter options (take 16 (drop offset response)) in
                    if ip = [] then Some (Some offset, st)
                    else Some (Some (offset + dataLength), addIPv6 ttl ip st)))
              else if atype = 65 then
                map_option (\<lambda>(o1, st). (Some (o1 + dataLength), st)) (svcLoop ttl response (offset + 3) st)
              else if atype = 5 then
                map_option (\<lambda>_. (Some (offset + dataLength), st)) (GetName response offset)
              else Some (Some (offset + dataLength), st)))))"

fun answersLoop ::
  "nat \<Rightarrow> int \<Rightarrow> bytes \<Rightarrow> serverOptions \<Rightarrow> nat \<Rightarrow> nat \<Rightarrow> recHeap \<Rightarrow> recHeap option" where
  "answersLoop minTTL now response options 0 offset st = Some st"
| "answersLoop minTTL now response options (Suc k) offset st =
    (let o1 = GetNameOffset response offset in
     if o1 = 0 then Some st
     else
       (case answer minTTL now response options o1 st of
          None \<Rightarrow> None
        | Some (None, st) \<Rightarrow> Some st
        | Some (Some o2, st) \<Rightarrow> answersLoop minTTL now response options k o2 st))"

fun skipQuestions :: "bytes \<Rightarrow> nat \<Rightarrow> nat \<Rightarrow> nat option" where
  "skipQuestions response 0 offset = Some offset"
| "skipQuestions response (Suc k) offset =
    (let o1 = GetNameOffset response offset in if o1 = 0 then None else skipQuestions response k (o1 + 4))"

definition GetAnswers :: "nat \<Rightarrow> int \<Rightarrow> bytes \<Rightarrow> serverOptions \<Rightarrow> recHeap \<Rightarrow> recHeap option" where
  "GetAnswers minTTL now response options st =
    (if 12 > length response then Some st
     else
       (let qdCount = be_nat (take 2 (drop 4 response)); anCount = be_nat (take 2 (drop 6 response)) in
        if anCount = 0 then Some st
        else
          (case skipQuestions response qdCount 12 of None \<Rightarrow> Some st
           | Some offset \<Rightarrow> answersLoop minTTL now response options anCount offset st)))"

subsection \<open>Building answers\<close>

text \<open>A \<open>copy\<close> after which the length goes on by a fixed number of bytes.\<close>

definition wfield :: "nat \<Rightarrow> bytes \<Rightarrow> bytes \<times> nat \<Rightarrow> (bytes \<times> nat) option" where
  "wfield n s dn = map_option (\<lambda>d. (d, snd dn + n)) (copyFrom (fst dn) (snd dn) s)"

definition packAddress :: "nat \<Rightarrow> bytes \<Rightarrow> bytes \<times> nat \<Rightarrow> (bytes \<times> nat) option" where
  "packAddress ttl ip dn =
    (if To4 ip \<noteq> [] then do {
       dn \<leftarrow> wcopy [0xC0, 0x0C, 0, 1, 0, 1] dn;
       dn \<leftarrow> wr32 ttl dn;
       dn \<leftarrow> wcopy [0, 4] dn;
       wfield 4 (To4 ip) dn }
     else do {
       dn \<leftarrow> wcopy [0xC0, 0x0C, 0, 28, 0, 1] dn;
       dn \<leftarrow> wr32 ttl dn;
       dn \<leftarrow> wcopy [0, 16] dn;
       wfield 16 ip dn })"

fun packAddresses :: "nat \<Rightarrow> bytes list \<Rightarrow> bytes \<times> nat \<Rightarrow> (bytes \<times> nat) option" where
  "packAddresses ttl [] dn = Some dn"
| "packAddresses ttl (ip # ips) dn = Option.bind (packAddress ttl ip dn) (packAddresses ttl ips)"

definition addressSize :: "bytes \<Rightarrow> nat" where
  "addressSize ip = (if To4 ip \<noteq> [] then 16 else 28)"

text \<open>The closure \<open>packA\<close>; the time to live wraps when the addresses have expired.\<close>

definition packA :: "int \<Rightarrow> nat \<Rightarrow> recordAddresses \<Rightarrow> (nat \<times> bytes) option" where
  "packA now minttl rec =
    (let ttl = max (if ra_TTL rec > 0 then nat ((ra_TTL rec - now) mod 4294967296) else 0) minttl;
         ips = ra_Addresses rec
     in map_option (\<lambda>dn. (length ips, fst dn))
          (packAddresses ttl ips (replicate (sum_list (map addressSize ips)) 0, 0)))"

text \<open>The parts of an HTTPS answer. \<open>None\<close> inside the result is the early return with no answer.\<close>

definition addressesOf :: "recordAddresses list \<Rightarrow> nat option \<Rightarrow> bytes list" where
  "addressesOf h p = (case p of Some i \<Rightarrow> ra_Addresses (h ! i) | None \<Rightarrow> [])"

definition httpsLength :: "recordAddresses list \<Rightarrow> dnsRecords \<Rightarrow> nat" where
  "httpsLength h r =
    (let v4 = length (addressesOf h (rec_IPv4Hint r));
         v6 = length (addressesOf h (rec_IPv6Hint r));
         t = 15;
         t = (if rec_ALPN r AND (HINT_HTTPS OR HINT_HTTP3) \<noteq> 0
              then t + 4 + (if rec_ALPN r AND HINT_HTTP3 \<noteq> 0 then 3 else 0)
                     + (if rec_ALPN r AND HINT_HTTPS \<noteq> 0 then 3 else 0)
              else t);
         t = (if v4 > 0 then u16 (t + u16 (4 + v4 * 4)) else t);
         t = (if rec_Ech r \<noteq> [] then u16 (t + u16 (4 + length (rec_Ech r))) else t)
     in (if v6 > 0 then u16 (t + u16 (4 + v6 * 16)) else t))"

definition packALPN :: "hint \<Rightarrow> bytes \<times> nat \<Rightarrow> (bytes \<times> nat) option" where
  "packALPN alpn dn =
    (if alpn AND (HINT_HTTPS OR HINT_HTTP3) \<noteq> 0 then do {
       let svcLenOffset = snd dn + 2;
       dn \<leftarrow> wcopy [0, 1, 0, 0] dn;
       dn \<leftarrow> (if alpn AND HINT_HTTP3 \<noteq> 0 then wcopy [2, 0x68, 0x33] dn else Some dn);
       dn \<leftarrow> (if alpn AND HINT_HTTPS \<noteq> 0 then wcopy [2, 0x68, 0x32] dn else Some dn);
       d \<leftarrow> put16 (fst dn) svcLenOffset (u16 (snd dn - svcLenOffset - 2));
       Some (d, snd dn) }
     else Some dn)"

fun packHints :: "nat \<Rightarrow> bytes list \<Rightarrow> bytes \<times> nat \<Rightarrow> (bytes \<times> nat) option" where
  "packHints w [] dn = Some dn"
| "packHints w (ip # ips) dn = Option.bind (wfield w ip dn) (packHints w ips)"

text \<open>A parameter of key \<open>key\<close> that is left out when it has no content.\<close>

definition packParam ::
  "byte \<Rightarrow> nat \<Rightarrow> (bytes \<times> nat \<Rightarrow> (bytes \<times> nat) option) \<Rightarrow> bytes \<times> nat \<Rightarrow> (bytes \<times> nat) option" where
  "packParam key len content dn =
    (if len > 0 then do {
       dn \<leftarrow> wcopy [0, key] dn;
       dn \<leftarrow> wr16 (u16 len) dn;
       content dn }
     else Some dn)"

definition packHTTPS :: "nat \<Rightarrow> recordAddresses list \<Rightarrow> dnsRecords \<Rightarrow> (nat \<times> bytes) option" where
  "packHTTPS minttl h r =
    (let totalLen = httpsLength h r;
         v4 = addressesOf h (rec_IPv4Hint r);
         v6 = addressesOf h (rec_IPv6Hint r)
     in if totalLen = 15 then Some (0, [])
        else do {
          d \<leftarrow> copyFrom (replicate totalLen 0) 0 [0xC0, 0x0C, 0x00, 65, 0x00, 0x01];
          d \<leftarrow> put32 d 6 minttl;
          d \<leftarrow> put16 d 10 (u16 (totalLen + 65536 - 12));
          d \<leftarrow> put16 d 12 1;
          d \<leftarrow> set8 d 14 0;
          dn \<leftarrow> packALPN (rec_ALPN r) (d, 15);
          if v4 \<noteq> [] \<and> (\<exists>ip \<in> set v4. To4 ip = []) then
            map_option (\<lambda>_. (0, [])) (packParam 4 (length v4 * 4) (packHints 4 (takeWhile (\<lambda>ip. ip \<noteq> []) (map To4 v4))) dn)
          else do {
            dn \<leftarrow> packParam 4 (length v4 * 4) (packHints 4 (map To4 v4)) dn;
            dn \<leftarrow> packParam 5 (length (rec_Ech r)) (wcopy (rec_Ech r)) dn;
            dn \<leftarrow> packParam 6 (length v6 * 16) (packHints 16 (map To16 v6)) dn;
            Some (1, fst dn) } })"

definition PackAnswers ::
  "int \<Rightarrow> nat \<Rightarrow> nat \<Rightarrow> recordAddresses list \<Rightarrow> dnsRecords \<Rightarrow> (nat \<times> bytes) option" where
  "PackAnswers now qtype minttl h r =
    (if qtype = 1 then (case rec_IPv4Hint r of None \<Rightarrow> Some (0, []) | Some p \<Rightarrow> packA now minttl (h ! p))
     else if qtype = 28 then (case rec_IPv6Hint r of None \<Rightarrow> Some (0, []) | Some p \<Rightarrow> packA now minttl (h ! p))
     else if qtype = 65 then packHTTPS minttl h r
     else Some (0, []))"

subsection \<open>Responses\<close>

text \<open>
  The answer with a fake address: the buffer has 512 bytes, so a request that does not
  leave room for the answer is a panic.
\<close>

definition fakeA :: "nat \<Rightarrow> bytes \<times> nat \<Rightarrow> bytes option" where
  "fakeA index dn = do {
    dn \<leftarrow> wcopy [0xC0, 0x0C, 0x00, 1, 0x00, 0x01, 0x00, 0x00, 0x00, 0x10, 0x00, 0x04, VirtualAddrPrefix, 0] dn;
    dn \<leftarrow> wr16 index dn;
    d \<leftarrow> put16 (fst dn) 6 1;
    slice d 0 (snd dn) }"

definition fakeALPN :: "hint \<Rightarrow> bytes \<times> nat \<Rightarrow> (bytes \<times> nat) option" where
  "fakeALPN alpn dn =
    (if alpn AND (HINT_HTTP2 OR HINT_HTTP3) \<noteq> 0 then do {
       let svcLenOffset = snd dn + 2;
       dn \<leftarrow> wcopy [0, 1, 0, 0] dn;
       dn \<leftarrow> (if alpn AND HINT_HTTP3 \<noteq> 0 then do {
             dn \<leftarrow> wcopy [2, 0x68, 0x33] dn;
             wcopy [5, 0x68, 0x33, 0x2d, 0x32, 0x39] dn }
           else Some dn);
       dn \<leftarrow> (if alpn AND HINT_HTTP2 \<noteq> 0 then wcopy [2, 0x68, 0x32] dn else Some dn);
       d \<leftarrow> put16 (fst dn) svcLenOffset (u16 (snd dn - svcLenOffset - 2));
       Some (d, snd dn) }
     else Some dn)"

definition fakeHTTPS :: "dnsRecords \<Rightarrow> bytes \<times> nat \<Rightarrow> bytes option" where
  "fakeHTTPS r dn =
    (if rec_ALPN r AND (HINT_HTTPS OR HINT_HTTP2 OR HINT_HTTP3) = 0 then slice (fst dn) 0 (snd dn)
     else do {
       let dataLenOffset = snd dn + 10;
       dn \<leftarrow> wcopy [0xC0, 0x0C, 0x00, 65, 0, 1, 0, 0, 0, 16, 0, 0, 0, 1, 0] dn;
       dn \<leftarrow> fakeALPN (rec_ALPN r) dn;
       dn \<leftarrow> wcopy [0, 4, 0, 4, VirtualAddrPrefix, 0] dn;
       dn \<leftarrow> wr16 (rec_Index r) dn;
       dn \<leftarrow> packParam 5 (length (rec_Ech r)) (wcopy (rec_Ech r)) dn;
       d \<leftarrow> put16 (fst dn) 6 1;
       d \<leftarrow> put16 d dataLenOffset (u16 (snd dn - dataLenOffset - 2));
       slice d 0 (snd dn) })"

definition BuildResponse ::
  "int \<Rightarrow> bytes \<Rightarrow> nat \<Rightarrow> nat \<Rightarrow> recordAddresses list \<Rightarrow> dnsRecords \<Rightarrow> bytes option" where
  "BuildResponse now request qtype minttl h r =
    (if rec_Index r > 0 then
       (let response = (copy_at (replicate 512 0) 0 request)[2 := 0x81, 3 := 0x80];
            dn = (response, length request)
        in if qtype = 1 then fakeA (rec_Index r) dn
           else if qtype = 28 then Some (BuildNodata request minttl)
           else if qtype = 65 then fakeHTTPS r dn
           else slice response 0 (length request))
     else
       Option.bind (PackAnswers now qtype minttl h r) (\<lambda>(count, answer).
         if count = 0 then Some (BuildNodata request minttl)
         else do {
           let len = length request;
           d \<leftarrow> copyFrom (replicate (len + length answer) 0) 0 request;
           d \<leftarrow> set8 d 2 0x81;
           d \<leftarrow> set8 d 3 0x80;
           d \<leftarrow> put16 d 6 (u16 count);
           d \<leftarrow> copyFrom d len answer;
           Some d }))"

end
