(* ===== verification/Dns_Service.thy ===== *)
theory Dns_Service
  imports Dns_Lookup Dns_Records
begin

text \<open>
  The name service (\<open>phantomtcp/dns.go\<close>): the cache, the table of fake addresses,
  \<open>NSLookup\<close>, which resolves for the program itself, and \<open>NSRequest\<close>, which answers a
  client. The records of the names live in a heap of their own: several names may share
  one. A call runs to its end without another in between (the code's locks do not cover a
  whole call); \<open>None\<close> is a panic.
\<close>

unbundle bit_operations_syntax

record dnsState =
  dns_Addresses :: "recordAddresses list"
  dns_Records :: "dnsRecords list"
  dns_Cache :: "gostr \<Rightarrow> nat option"
  dns_Nose :: "(gostr \<times> outbound option) list"

definition dnsState0 :: dnsState where
  "dnsState0 = \<lparr>dns_Addresses = [], dns_Records = [], dns_Cache = Map.empty, dns_Nose = [(str ''phantom.socks'', None)]\<rparr>"

subsection \<open>The cache and the fake addresses\<close>

definition LoadDNSCache :: "dnsState \<Rightarrow> gostr \<Rightarrow> nat option" where
  "LoadDNSCache st qname = dns_Cache st qname"

definition StoreDNSCache :: "dnsState \<Rightarrow> gostr \<Rightarrow> nat \<Rightarrow> dnsState" where
  "StoreDNSCache st qname p = st\<lparr>dns_Cache := (dns_Cache st)(qname \<mapsto> p)\<rparr>"

definition AddDNSLie :: "gostr \<times> outbound option \<Rightarrow> dnsState \<Rightarrow> dnsState \<times> nat" where
  "AddDNSLie lie st = (st\<lparr>dns_Nose := dns_Nose st @ [lie]\<rparr>, u32 (length (dns_Nose st)))"

definition GetDNSLie :: "dnsState \<Rightarrow> nat \<Rightarrow> (gostr \<times> outbound option) option" where
  "GetDNSLie st index = (if index < length (dns_Nose st) then Some (dns_Nose st ! index) else None)"

text \<open>The laws that the service relies on: of a store by name, and of an append-only table.\<close>

locale nameStore =
  fixes load :: "'s \<Rightarrow> 'k \<Rightarrow> 'v option"
    and store :: "'s \<Rightarrow> 'k \<Rightarrow> 'v \<Rightarrow> 's"
  assumes load_store: "load (store s k v) k' = (if k' = k then Some v else load s k')"
begin

lemma load_stored [simp]: "load (store s k v) k = Some v"
  by (simp add: load_store)

lemma load_grows: "load s k' \<noteq> None \<Longrightarrow> load (store s k v) k' \<noteq> None"
  by (simp add: load_store)

lemma load_fresh: "load s k = None \<Longrightarrow> load s k' = Some w \<Longrightarrow> load (store s k v) k' = Some w"
  by (auto simp: load_store)

end

locale lieTable =
  fixes add :: "'a \<Rightarrow> 's \<Rightarrow> 's \<times> nat"
    and get :: "'s \<Rightarrow> nat \<Rightarrow> 'a option"
    and size :: "'s \<Rightarrow> nat"
  assumes get_iff: "get s i \<noteq> None \<longleftrightarrow> i < size s"
    and add_size: "size (fst (add x s)) = Suc (size s)"
    and add_index: "snd (add x s) = u32 (size s)"
    and get_added: "get (fst (add x s)) (size s) = Some x"
    and get_kept: "i < size s \<Longrightarrow> get (fst (add x s)) i = get s i"
begin

lemma index_valid: "get (fst (add x s)) (snd (add x s)) \<noteq> None"
  unfolding get_iff add_size add_index by (simp add: u32_def less_Suc_eq_le)

lemma added: "size s < 4294967296 \<Longrightarrow> get (fst (add x s)) (snd (add x s)) = Some x"
  by (simp add: add_index get_added)

lemma kept: "get s i = Some y \<Longrightarrow> get (fst (add x s)) i = Some y"
  using get_iff [of s i] get_kept [of i s x] by simp

lemma kept_all: "get s i = Some y \<Longrightarrow> get (fold (\<lambda>x s. fst (add x s)) xs s) i = Some y"
  by (induction xs arbitrary: s) (simp_all add: kept)

end

interpretation dnsCache: nameStore LoadDNSCache StoreDNSCache
  by unfold_locales (simp add: LoadDNSCache_def StoreDNSCache_def)

interpretation dnsLies: lieTable AddDNSLie GetDNSLie "\<lambda>st. length (dns_Nose st)"
  by unfold_locales (auto simp: AddDNSLie_def GetDNSLie_def nth_append)

text \<open>\<open>new(DNSRecords)\<close>, and an assignment to \<open>*records\<close>.\<close>

definition newRecords :: "dnsState \<Rightarrow> dnsState \<times> nat" where
  "newRecords st = (st\<lparr>dns_Records := dns_Records st @ [dnsRecords0]\<rparr>, length (dns_Records st))"

definition setRecords :: "nat \<Rightarrow> dnsRecords \<Rightarrow> dnsState \<Rightarrow> dnsState" where
  "setRecords p r st = st\<lparr>dns_Records := (dns_Records st)[p := r]\<rparr>"

definition recordsOf :: "dnsState \<Rightarrow> nat \<Rightarrow> dnsRecords" where
  "recordsOf st p = dns_Records st ! p"

definition onHeap :: "nat \<Rightarrow> (recHeap \<Rightarrow> recHeap) \<Rightarrow> dnsState \<Rightarrow> dnsState" where
  "onHeap p f st =
    (let (h, r) = f (dns_Addresses st, recordsOf st p) in (setRecords p r st)\<lparr>dns_Addresses := h\<rparr>)"

definition addLie :: "gostr \<Rightarrow> outbound \<Rightarrow> hint \<Rightarrow> nat \<Rightarrow> dnsState \<Rightarrow> dnsState" where
  "addLie name ob alpn p st =
    (let (st, index) = AddDNSLie (name, Some ob) st
     in setRecords p ((recordsOf st p)\<lparr>rec_Index := index, rec_ALPN := alpn\<rparr>) st)"

subsection \<open>The server of an outbound\<close>

text \<open>A parsed URL; \<open>env_URL\<close> is \<open>url.Parse\<close>, \<open>None\<close> its error.\<close>

record dnsURL =
  url_Scheme :: gostr
  url_Host :: gostr
  url_Path :: gostr
  url_RawQuery :: gostr

record dnsEnv =
  env_Net :: dnsNet
  env_URL :: "gostr \<Rightarrow> dnsURL option"
  env_Now :: int
  env_MinTTL :: nat
  env_Depth :: int
  env_IPv4First :: bool

definition optionsOf :: "dnsURL \<Rightarrow> serverOptions" where
  "optionsOf u = (if url_RawQuery u \<noteq> [] then ParseOptions (url_RawQuery u) else serverOptions0)"

text \<open>The lookup of a scheme; \<open>None\<close> when the scheme is not known.\<close>

definition lookupOf ::
  "dnsEnv \<Rightarrow> dnsURL \<Rightarrow> serverOptions \<Rightarrow> (bytes \<Rightarrow> (error + bytes) option) option" where
  "lookupOf env u options =
    (let net = env_Net env in
     if url_Scheme u = str ''udp'' then Some (\<lambda>request. UDPlookup net request (url_Host u) (opt_Delay options))
     else if url_Scheme u = str ''tcp'' then Some (\<lambda>request. TCPlookup net request (url_Host u))
     else if url_Scheme u = str ''tls'' then Some (\<lambda>request. TLSlookup net request (url_Host u))
     else if url_Scheme u = str ''https'' then
       Some (\<lambda>request. HTTPSlookup net request (url_Host u) (url_Path u) (opt_Domain options))
     else if url_Scheme u = str ''tfo'' then Some (\<lambda>request. TFOlookup net request (url_Host u))
     else None)"

definition getAnswersInto :: "dnsEnv \<Rightarrow> bytes \<Rightarrow> serverOptions \<Rightarrow> nat \<Rightarrow> dnsState \<Rightarrow> dnsState option" where
  "getAnswersInto env response options p st =
    map_option (\<lambda>hr. onHeap p (\<lambda>_. hr) st)
      (GetAnswers (env_MinTTL env) (env_Now env) response options (dns_Addresses st, recordsOf st p))"

text \<open>The configured address when there is no answer, with a time to live of 0: for ever.\<close>

definition fallback4 :: "serverOptions \<Rightarrow> nat \<Rightarrow> dnsState \<Rightarrow> dnsState" where
  "fallback4 options p st =
    (if rec_IPv4Hint (recordsOf st p) = None \<and> opt_Fallback options \<noteq> [] \<and> To4 (opt_Fallback options) \<noteq> []
     then onHeap p (newIPv4 0 [opt_Fallback options]) st else st)"

definition fallback6 :: "serverOptions \<Rightarrow> nat \<Rightarrow> dnsState \<Rightarrow> dnsState" where
  "fallback6 options p st =
    (if rec_IPv6Hint (recordsOf st p) = None \<and> opt_Fallback options \<noteq> [] \<and> To4 (opt_Fallback options) = []
     then onHeap p (newIPv6 0 [opt_Fallback options]) st else st)"

definition noAnswer4 :: "nat \<Rightarrow> dnsState \<Rightarrow> dnsState" where
  "noAnswer4 p st = (if rec_IPv4Hint (recordsOf st p) = None then onHeap p (newIPv4 0 []) st else st)"

definition noAnswer6 :: "nat \<Rightarrow> dnsState \<Rightarrow> dnsState" where
  "noAnswer6 p st = (if rec_IPv6Hint (recordsOf st p) = None then onHeap p (newIPv6 0 []) st else st)"

subsection \<open>NSLookup\<close>

text \<open>The cached records of a name, or new ones that start as a copy of its parent domain's.\<close>

definition loadOrCreate :: "dnsEnv \<Rightarrow> gostr \<Rightarrow> dnsState \<Rightarrow> dnsState \<times> nat" where
  "loadOrCreate env name st =
    (case LoadDNSCache st name of Some p \<Rightarrow> (st, p)
     | None \<Rightarrow>
        (let (st, p) = newRecords st;
             st = StoreDNSCache st name p
         in (case parentLoop (LoadDNSCache st) (nat (env_Depth env)) name 0 of
               Some (q, _) \<Rightarrow> (setRecords p (recordsOf st q) st, p)
             | None \<Rightarrow> (st, p))))"

text \<open>The records after a server answered: the result of \<open>NSLookup\<close> for one type.\<close>

definition lookupAnswered ::
  "dnsEnv \<Rightarrow> outbound \<Rightarrow> gostr \<Rightarrow> nat \<Rightarrow> serverOptions \<Rightarrow> bytes \<Rightarrow> nat \<Rightarrow> dnsState
    \<Rightarrow> (dnsState \<times> nat \<times> bytes list) option" where
  "lookupAnswered env ob name qtype options response p st =
    (let st = (if ob_Hint ob AND HINT_FAKEIP \<noteq> 0 \<and> rec_Index (recordsOf st p) = 0
               then addLie name ob (ob_Hint ob AND HINT_DNS) p st else st)
     in map_option (\<lambda>st.
          if qtype = 1 then
            (let st = noAnswer4 p (fallback4 options p st)
             in (st, rec_Index (recordsOf st p), addressesOf (dns_Addresses st) (rec_IPv4Hint (recordsOf st p))))
          else
            (let st = noAnswer6 p (fallback6 options p st)
             in (st, rec_Index (recordsOf st p), addressesOf (dns_Addresses st) (rec_IPv6Hint (recordsOf st p)))))
          (getAnswersInto env response options p st))"

definition lookupServer ::
  "dnsEnv \<Rightarrow> outbound \<Rightarrow> gostr \<Rightarrow> nat \<Rightarrow> nat \<Rightarrow> dnsState \<Rightarrow> (dnsState \<times> nat \<times> bytes list) option" where
  "lookupServer env ob name qtype p st =
    (case env_URL env (ob_DNS ob) of None \<Rightarrow> Some (st, 0, [])
     | Some u \<Rightarrow>
        (let options = optionsOf u;
             name' = (if rec_CName (recordsOf st p) \<noteq> [] then rec_CName (recordsOf st p) else name)
         in if url_Host u = [] then lookupAnswered env ob name qtype options [] p st
            else
              (case lookupOf env u options of
                 None \<Rightarrow>
                   (let st = addLie name ob (ob_Hint ob) p st in Some (st, rec_Index (recordsOf st p), []))
               | Some lookup \<Rightarrow> do {
                   request \<leftarrow> PackRequest name' qtype 0 (opt_ECS options) (opt_QType2 options);
                   r \<leftarrow> lookup request;
                   case r of Inl _ \<Rightarrow> Some (st, 0, [])
                   | Inr response \<Rightarrow> lookupAnswered env ob name qtype options response p st })))"

definition NSLookupType ::
  "dnsEnv \<Rightarrow> outbound \<Rightarrow> gostr \<Rightarrow> nat \<Rightarrow> dnsState \<Rightarrow> (dnsState \<times> nat \<times> bytes list) option" where
  "NSLookupType env ob name qtype st =
    (let (st, p) = loadOrCreate env name st; r = recordsOf st p in
     if qtype = 1 \<and> rec_IPv4Hint r \<noteq> None then
       Some (st, rec_Index r, addressesOf (dns_Addresses st) (rec_IPv4Hint r))
     else if qtype = 28 \<and> rec_IPv6Hint r \<noteq> None then
       Some (st, rec_Index r, addressesOf (dns_Addresses st) (rec_IPv6Hint r))
     else if qtype \<noteq> 1 \<and> qtype \<noteq> 28 then Some (st, 0, [])
     else lookupServer env ob name qtype p st)"

text \<open>
  Type 0 asks for what the hints of the outbound say. For both families the code runs the
  IPv4 lookup in a goroutine of its own; \<open>env_IPv4First\<close> says which of the two runs first.
  The IPv4 addresses count only if there are no IPv6 ones.
\<close>

definition NSLookup ::
  "dnsEnv \<Rightarrow> outbound \<Rightarrow> gostr \<Rightarrow> nat \<Rightarrow> dnsState \<Rightarrow> (dnsState \<times> nat \<times> bytes list) option" where
  "NSLookup env ob name qtype st =
    (let ipv4 = (ob_Hint ob AND HINT_IPV4 \<noteq> 0); ipv6 = (ob_Hint ob AND HINT_IPV6 \<noteq> 0) in
     if qtype \<noteq> 0 then NSLookupType env ob name qtype st
     else if ob_Protocol ob = NAT64 then NSLookupType env ob name 1 st
     else if ipv4 = ipv6 then
       (if env_IPv4First env then do {
          (st, _, addresses4) \<leftarrow> NSLookupType env ob name 1 st;
          (st, index, addresses) \<leftarrow> NSLookupType env ob name 28 st;
          Some (st, index, if addresses \<noteq> [] then addresses else addresses4) }
        else do {
          (st, index, addresses) \<leftarrow> NSLookupType env ob name 28 st;
          (st, _, addresses4) \<leftarrow> NSLookupType env ob name 1 st;
          Some (st, index, if addresses \<noteq> [] then addresses else addresses4) })
     else if ipv6 then NSLookupType env ob name 28 st
     else NSLookupType env ob name 1 st)"

subsection \<open>NSRequest\<close>

type_synonym dnsReply = "(dnsState \<times> nat \<times> bytes) option"

definition respond :: "dnsEnv \<Rightarrow> nat \<Rightarrow> bytes \<Rightarrow> nat \<Rightarrow> nat \<Rightarrow> nat \<Rightarrow> dnsState \<Rightarrow> dnsReply" where
  "respond env index request qtype minttl p st =
    map_option (\<lambda>response. (st, index, response))
      (BuildResponse (env_Now env) request qtype minttl (dns_Addresses st) (recordsOf st p))"

text \<open>
  The records the request starts with. A new cache entry begins as a copy of the entry at
  the offset where the profile found the outbound, which is the entry itself when the name
  or none of its parents is in the profile.
\<close>

definition requestRecords :: "dnsEnv \<Rightarrow> bool \<Rightarrow> gostr \<Rightarrow> dnsState \<Rightarrow> dnsState \<times> nat \<times> outbound option" where
  "requestRecords env cache name st =
    (if cache then
       (case LoadDNSCache st name of Some p \<Rightarrow> (st, p, None)
        | None \<Rightarrow>
           (let (st, p) = newRecords st;
                st = StoreDNSCache st name p;
                (ob, offset) = GetOutbound (net_Profile (env_Net env)) (net_Default (env_Net env)) (env_Depth env) name
            in (case LoadDNSCache st (drop offset name) of
                  Some q \<Rightarrow> (setRecords p (recordsOf st q) st, p, ob)
                | None \<Rightarrow> (st, p, ob))))
     else (let (st, p) = newRecords st in (st, p, None)))"

text \<open>
  The first switch: an answer from the records, or the records without the addresses that
  have expired. \<open>Inl\<close> is the time to live of the answer.
\<close>

definition fresh :: "int \<Rightarrow> recordAddresses \<Rightarrow> bool" where
  "fresh now rec \<longleftrightarrow> ra_TTL rec = 0 \<or> ra_TTL rec > now"

definition answerFromCache :: "dnsEnv \<Rightarrow> nat \<Rightarrow> nat \<Rightarrow> dnsState \<Rightarrow> nat + dnsState" where
  "answerFromCache env qtype p st =
    (let r = recordsOf st p in
     if qtype = 1 then
       (case rec_IPv4Hint r of
          Some a \<Rightarrow>
            (if fresh (env_Now env) (dns_Addresses st ! a) then Inl 60
             else Inr (setRecords p (r\<lparr>rec_IPv4Hint := None\<rparr>) st))
        | None \<Rightarrow> if rec_Index r > 0 then Inl 60 else Inr st)
     else if qtype = 28 then
       (case rec_IPv6Hint r of
          Some a \<Rightarrow>
            (if fresh (env_Now env) (dns_Addresses st ! a) then Inl 60
             else Inr (setRecords p (r\<lparr>rec_IPv6Hint := None\<rparr>) st))
        | None \<Rightarrow> if rec_Index r > 0 then Inl 60 else Inr st)
     else if qtype = 65 then
       (if rec_ALPN r AND (HINT_HTTPS OR HINT_HTTP2 OR HINT_HTTP3) \<noteq> 0 then Inl 3600 else Inr st)
     else Inr st)"

text \<open>What a server's response does to the records, and the reply.\<close>

definition answerFromServer ::
  "dnsEnv \<Rightarrow> bytes \<Rightarrow> nat \<Rightarrow> serverOptions \<Rightarrow> bytes \<Rightarrow> nat \<Rightarrow> dnsState \<Rightarrow> dnsReply" where
  "answerFromServer env request qtype options response p st =
    (if qtype = 1 then
       Option.bind (getAnswersInto env response options p st) (\<lambda>st.
         let st = fallback4 options p st in
         if rec_IPv4Hint (recordsOf st p) = None then respond env 0 request qtype 0 p (noAnswer4 p st)
         else respond env (rec_Index (recordsOf st p)) request qtype 0 p st)
     else if qtype = 28 then
       Option.bind (getAnswersInto env response options p st) (\<lambda>st.
         let st = fallback6 options p st in
         if rec_IPv6Hint (recordsOf st p) = None then respond env 0 request qtype 0 p (noAnswer6 p st)
         else respond env (rec_Index (recordsOf st p)) request qtype 0 p st)
     else Some (st, 0, response))"

text \<open>The request sent on: the client's own, unless the client's subnet or an alias has to be put in.\<close>

definition forwardRequest :: "bytes \<Rightarrow> gostr \<Rightarrow> nat \<Rightarrow> serverOptions \<Rightarrow> dnsRecords \<Rightarrow> bytes option" where
  "forwardRequest request name qtype options r =
    (if opt_ECS options \<noteq> [] \<or> rec_CName r \<noteq> [] then
       PackRequest (if rec_CName r \<noteq> [] then rec_CName r else name) qtype (be_nat (take 2 request))
         (opt_ECS options) (opt_QType2 options)
     else Some request)"

definition askServer :: "dnsEnv \<Rightarrow> outbound \<Rightarrow> bytes \<Rightarrow> gostr \<Rightarrow> nat \<Rightarrow> nat \<Rightarrow> dnsState \<Rightarrow> dnsReply" where
  "askServer env ob request name qtype p st =
    (let r = recordsOf st p in
     if ob_DNS ob = [] then Some (st, 0, BuildNxdomain request 86400)
     else
       (case env_URL env (ob_DNS ob) of
          None \<Rightarrow> map_option (\<lambda>response. (st, 0, response)) (BuildServfail request)
        | Some u \<Rightarrow>
           (let options = optionsOf u in
            if url_RawQuery u \<noteq> [] \<and> (opt_Type options = str ''A'' \<and> qtype = 28 \<or> opt_Type options = str ''AAAA'' \<and> qtype = 1)
            then respond env (rec_Index r) request qtype 60 p st
            else do {
              request' \<leftarrow> forwardRequest request name qtype options r;
              case lookupOf env u options of
                None \<Rightarrow> map_option (\<lambda>response. (st, 0, response)) (BuildServfail request)
              | Some lookup \<Rightarrow> do {
                  res \<leftarrow> lookup request';
                  case res of
                    Inl _ \<Rightarrow> map_option (\<lambda>response. (st, 0, response)) (BuildServfail request)
                  | Inr response \<Rightarrow> answerFromServer env request qtype options response p st } })))"

definition requestOutbound ::
  "dnsEnv \<Rightarrow> outbound option \<Rightarrow> bytes \<Rightarrow> gostr \<Rightarrow> nat \<Rightarrow> nat \<Rightarrow> dnsState \<Rightarrow> dnsReply" where
  "requestOutbound env found request name qtype p st =
    (case (case found of Some ob \<Rightarrow> Some ob
           | None \<Rightarrow> fst (GetOutbound (net_Profile (env_Net env)) (net_Default (env_Net env)) (env_Depth env) name)) of
       None \<Rightarrow> respond env 0 request qtype 3600 p st
     | Some ob \<Rightarrow>
        (let st = setRecords p ((recordsOf st p)\<lparr>rec_ALPN := ob_Hint ob AND HINT_DNS\<rparr>) st in
         if ob_Hint ob AND HINT_FAKEIP \<noteq> 0 then
           (if qtype \<notin> {1, 28, 65} then respond env (rec_Index (recordsOf st p)) request qtype 3600 p st
            else
              (let st = (if rec_Index (recordsOf st p) = 0
                         then addLie name ob (rec_ALPN (recordsOf st p)) p st else st)
               in respond env (rec_Index (recordsOf st p)) request qtype 600 p st))
         else askServer env ob request name qtype p st))"

definition NSRequest :: "dnsEnv \<Rightarrow> bytes \<Rightarrow> bool \<Rightarrow> dnsState \<Rightarrow> dnsReply" where
  "NSRequest env request cache st =
    (let (name, qtype, end) = GetQName request in
     if name = [] then map_option (\<lambda>response. (st, 0, response)) (BuildServfail request)
     else
       (let request = take end (request[10 := 0, 11 := 0]);
            (st, p, found) = requestRecords env cache name st
        in (case answerFromCache env qtype p st of
              Inl ttl \<Rightarrow> respond env (rec_Index (recordsOf st p)) request qtype ttl p st
            | Inr st \<Rightarrow> requestOutbound env found request name qtype p st)))"

subsection \<open>Addresses to connect to\<close>

text \<open>A \<open>net.TCPAddr\<close> is its address and port; \<open>pick n\<close> is the random choice below \<open>n\<close>.\<close>

definition ResolveTCPAddrs ::
  "dnsEnv \<Rightarrow> outbound \<Rightarrow> gostr \<Rightarrow> int \<Rightarrow> dnsState \<Rightarrow> (dnsState \<times> (error + (bytes \<times> int) list)) option" where
  "ResolveTCPAddrs env ob host port st =
    (let ip = ParseIP host in
     if ip \<noteq> [] then Some (st, Inr [(ip, port)])
     else
       map_option (\<lambda>(st, _, addrs). (st, if addrs = [] then Inl ''no such host'' else Inr (map (\<lambda>ip. (ip, port)) addrs)))
         (NSLookup env ob host 0 st))"

definition ResolveTCPAddr ::
  "dnsEnv \<Rightarrow> (nat \<Rightarrow> nat) \<Rightarrow> outbound \<Rightarrow> gostr \<Rightarrow> int \<Rightarrow> dnsState \<Rightarrow> (dnsState \<times> (error + bytes \<times> int)) option" where
  "ResolveTCPAddr env pick ob host port st =
    (let ip = ParseIP host in
     if ip \<noteq> [] then Some (st, Inr (ip, port))
     else
       map_option (\<lambda>(st, _, addrs).
         (st, if addrs = [] then Inl ''no such host'' else Inr (addrs ! pick (length addrs), port)))
         (NSLookup env ob host 0 st))"

subsection \<open>Servers\<close>

text \<open>
  \<open>DNSServer\<close> reads a datagram into 512 bytes, \<open>DNSTCPServer\<close> one framed request with a
  single read into 2048 bytes and \<open>DoHServer\<close> the body of a request; each answers with
  \<open>NSRequest\<close>. An empty reply is no reply.
\<close>

definition DNSServer :: "dnsEnv \<Rightarrow> bytes \<Rightarrow> dnsState \<Rightarrow> (dnsState \<times> bytes) option" where
  "DNSServer env datagram st =
    map_option (\<lambda>(st, _, response). (st, response)) (NSRequest env (take 512 datagram) True st)"

definition DNSTCPServer :: "dnsEnv \<Rightarrow> bytes list \<Rightarrow> dnsState \<Rightarrow> (dnsState \<times> bytes) option" where
  "DNSTCPServer env conn st =
    (case connRead 2048 conn of None \<Rightarrow> Some (st, [])
     | Some (d, _) \<Rightarrow>
        (let data = copy_at (replicate 2048 0) 0 d; requestLen = be_nat (take 2 data) in
         if int requestLen > int (length d) - 2 then Some (st, [])
         else do {
           (st, _, response) \<leftarrow> NSRequest env (take requestLen (drop 2 data)) True st;
           data \<leftarrow> put16 data 0 (u16 (length response));
           data \<leftarrow> copyFrom data 2 response;
           reply \<leftarrow> slice data 0 (length response + 2);
           Some (st, reply) }))"

text \<open>What reading the body once gives: its bytes, and whether it reported an error (or the end) with them.\<close>

definition DoHServer :: "dnsEnv \<Rightarrow> bytes \<times> bool \<Rightarrow> dnsState \<Rightarrow> (dnsState \<times> bytes) option" where
  "DoHServer env body st =
    (let (request, failed) = body in
     if failed then Some (st, [])
     else map_option (\<lambda>(st, _, response). (st, response)) (NSRequest env (take 2048 request) True st))"

end
