(* ===== verification/Profile_Load.thy ===== *)
theory Profile_Load
  imports Dns_Service
begin

text \<open>
  Loading the configuration files (\<open>phantomtcp/phantom.go\<close>): \<open>LoadProfile\<close>, which fills
  the domain map, the address ranges, the name cache and the fake addresses from the lines
  of a profile, \<open>LoadHosts\<close>, which fills the cache from a hosts file, and \<open>GetPAC\<close>. The
  contents of the file are an argument; \<open>bufio.ReadLine\<close> cuts it into lines.
\<close>

unbundle bit_operations_syntax

subsection \<open>The lines of a file\<close>

text \<open>
  \<open>ReadLine\<close> on a reader of 4096 bytes: a line without its line feed and the carriage
  return before it; a longer line comes in pieces of 4096 bytes, or of 4095 when the last
  byte of the buffer is a carriage return, which is then read again.
\<close>

definition readBuffer :: nat where
  "readBuffer = 4096"

definition dropCR :: "bytes \<Rightarrow> bytes" where
  "dropCR line = (if line \<noteq> [] \<and> last line = 13 then butlast line else line)"

function readLines :: "bytes \<Rightarrow> gostr list" where
  "readLines s =
    (if s = [] then []
     else
       (case indexByte 10 (take readBuffer s) of
          Some i \<Rightarrow> dropCR (take i s) # readLines (drop (i + 1) s)
        | None \<Rightarrow>
           (if length s < readBuffer then [s]
            else if s ! (readBuffer - 1) = 13 then take (readBuffer - 1) s # readLines (drop (readBuffer - 1) s)
            else take readBuffer s # readLines (drop readBuffer s))))"
  by pat_completeness auto
termination
  by (relation "measure length") (auto simp: readBuffer_def)

declare readLines.simps [simp del]

subsection \<open>Values in a line\<close>

text \<open>The number that \<open>strconv.Atoi\<close> returns beside an error: 0, or the bound it exceeds.\<close>

definition AtoiValue :: "gostr \<Rightarrow> int" where
  "AtoiValue s =
    (case Atoi s of Some n \<Rightarrow> n
     | None \<Rightarrow>
        (let neg = (s \<noteq> [] \<and> hd s = 45); ds = (if s \<noteq> [] \<and> (hd s = 45 \<or> hd s = 43) then tl s else s)
         in if ds = [] \<or> \<not> list_all isDigit ds then 0
            else if neg then - 9223372036854775808 else 9223372036854775807))"

text \<open>
  \<open>base64.StdEncoding.DecodeString\<close>: the bytes decoded up to the first error, and whether
  there is none. Line feeds and carriage returns do not count.
\<close>

definition base64Value :: "byte \<Rightarrow> nat option" where
  "base64Value c = indexByte c base64Alphabet"

definition base64Quantum :: "nat \<Rightarrow> nat list \<Rightarrow> bytes" where
  "base64Quantum n vs = take n (be_bytes 3 (foldl (\<lambda>x v. x * 64 + v) 0 vs))"

fun base64Groups :: "bytes \<Rightarrow> bytes \<times> bool" where
  "base64Groups [] = ([], True)"
| "base64Groups (a # b # c # d # s) =
    (case (base64Value a, base64Value b) of
       (Some x, Some y) \<Rightarrow>
         (case base64Value c of
            None \<Rightarrow>
              (if c = 61 \<and> d = 61 then (base64Quantum 1 [x, y, 0, 0], s = []) else ([], False))
          | Some z \<Rightarrow>
              (case base64Value d of
                 None \<Rightarrow> (if d = 61 then (base64Quantum 2 [x, y, z, 0], s = []) else ([], False))
               | Some w \<Rightarrow> (let (rest, ok) = base64Groups s in (base64Quantum 3 [x, y, z, w] @ rest, ok))))
     | _ \<Rightarrow> ([], False))"
| "base64Groups s = ([], False)"

definition base64Decode :: "gostr \<Rightarrow> bytes \<times> bool" where
  "base64Decode s = base64Groups (filter (\<lambda>c. c \<noteq> 10 \<and> c \<noteq> 13) s)"

subsection \<open>The state of a load\<close>

text \<open>
  \<open>ld_Current\<close> is the local \<open>CurrentInterface\<close>. A line goes on to the next one, ends the
  load with an error, or panics.
\<close>

record loadState =
  ld_Dns :: dnsState
  ld_Profile :: phantomProfile
  ld_MinTTL :: nat
  ld_Depth :: int
  ld_Current :: "outbound option"

datatype loadResult = Next loadState | Failed loadState | LoadPanic

text \<open>
  \<open>le_Outbounds\<close> is \<open>OutboundsMap\<close>; \<open>le_Resolve\<close> the text of the address that
  \<open>net.ResolveTCPAddr\<close> finds, \<open>None\<close> its error: it may ask the system's resolver.
\<close>

record loadEnv =
  le_Outbounds :: "gostr \<Rightarrow> outbound option"
  le_Resolve :: "gostr \<Rightarrow> gostr option"

definition setDomain :: "gostr \<Rightarrow> outbound option \<Rightarrow> loadState \<Rightarrow> loadState" where
  "setDomain name ob st =
    st\<lparr>ld_Profile := (ld_Profile st)\<lparr>DomainMap := (DomainMap (ld_Profile st))(name \<mapsto> ob)\<rparr>\<rparr>"

definition setCache :: "gostr \<Rightarrow> nat \<Rightarrow> loadState \<Rightarrow> loadState" where
  "setCache name p st = st\<lparr>ld_Dns := StoreDNSCache (ld_Dns st) name p\<rparr>"

subsection \<open>The addresses of a name\<close>

text \<open>\<open>records.IPv4Hint.Addresses = append(...)\<close>, with a new hint when there is none.\<close>

definition extendIPv4 :: "bytes list \<Rightarrow> recHeap \<Rightarrow> recHeap" where
  "extendIPv4 ips hr =
    (let hr = (if rec_IPv4Hint (snd hr) = None then newIPv4 0 [] hr else hr)
     in (case rec_IPv4Hint (snd hr) of Some a \<Rightarrow> fold (appendAddress a) ips hr | None \<Rightarrow> hr))"

definition extendIPv6 :: "bytes list \<Rightarrow> recHeap \<Rightarrow> recHeap" where
  "extendIPv6 ips hr =
    (let hr = (if rec_IPv6Hint (snd hr) = None then newIPv6 0 [] hr else hr)
     in (case rec_IPv6Hint (snd hr) of Some a \<Rightarrow> fold (appendAddress a) ips hr | None \<Rightarrow> hr))"

text \<open>One item of the list: an address, or a name, whose cached addresses are copied.\<close>

definition loadAddress :: "nat \<Rightarrow> gostr \<Rightarrow> dnsState \<Rightarrow> dnsState" where
  "loadAddress p addr st =
    (if ParseIP addr = [] then
       (case LoadDNSCache st addr of
          Some q \<Rightarrow>
            (let r = recordsOf st q;
                 st = (if rec_IPv4Hint r \<noteq> None
                       then onHeap p (extendIPv4 (addressesOf (dns_Addresses st) (rec_IPv4Hint r))) st else st)
             in if rec_IPv6Hint r \<noteq> None
                then onHeap p (extendIPv6 (addressesOf (dns_Addresses st) (rec_IPv6Hint r))) st else st)
        | None \<Rightarrow> setRecords p ((recordsOf st p)\<lparr>rec_CName := addr\<rparr>) st)
     else if To4 (ParseIP addr) \<noteq> [] then onHeap p (extendIPv4 [To4 (ParseIP addr)]) st
     else onHeap p (extendIPv6 [ParseIP addr]) st)"

definition loadAddresses :: "gostr \<Rightarrow> gostr \<Rightarrow> outbound \<Rightarrow> loadState \<Rightarrow> loadState" where
  "loadAddresses name addrs ob st =
    (let (dns, p) = newRecords (ld_Dns st);
         dns = (if ob_Hint ob AND HINT_FAKEIP \<noteq> 0 then addLie name ob (ob_Hint ob AND HINT_DNS) p dns else dns);
         dns = fold (loadAddress p) (splitByte 44 addrs) dns;
         key = (if ParseIP name = [] then name else IPString (ParseIP name))
     in setCache key p (setDomain key (Some ob) (st\<lparr>ld_Dns := dns\<rparr>)))"

subsection \<open>The lines of a profile\<close>

text \<open>\<open>name[cname]=\<close> and \<open>name[ech]=\<close> change the records of a cached name.\<close>

definition loadAttribute :: "gostr \<Rightarrow> gostr \<Rightarrow> loadState \<Rightarrow> loadState" where
  "loadAttribute key val st =
    (case splitByte2 91 (butlast key) of
       [name, attribute] \<Rightarrow>
         (case LoadDNSCache (ld_Dns st) name of None \<Rightarrow> st
          | Some p \<Rightarrow>
             (let r = recordsOf (ld_Dns st) p in
              if attribute = str ''cname'' then st\<lparr>ld_Dns := setRecords p (r\<lparr>rec_CName := val\<rparr>) (ld_Dns st)\<rparr>
              else if attribute = str ''ech'' then
                st\<lparr>ld_Dns := setRecords p (r\<lparr>rec_Ech := fst (base64Decode val)\<rparr>) (ld_Dns st)\<rparr>
              else st))
     | _ \<Rightarrow> st)"

text \<open>\<open>name=[other]\<close> lets a name share the records and the outbound of another one.\<close>

definition loadQuote :: "gostr \<Rightarrow> gostr \<Rightarrow> loadState \<Rightarrow> loadResult" where
  "loadQuote name val st =
    (if length val < 2 then LoadPanic
     else
       (let quote = take (length val - 2) (drop 1 val);
            st = (case LoadDNSCache (ld_Dns st) quote of Some p \<Rightarrow> setCache name p st | None \<Rightarrow> st)
        in Next (case DomainMap (ld_Profile st) quote of Some s \<Rightarrow> setDomain name s st | None \<Rightarrow> st)))"

definition loadPair :: "gostr \<Rightarrow> gostr \<Rightarrow> loadState \<Rightarrow> loadResult" where
  "loadPair key val st =
    (if key = str ''dns-min-ttl'' then
       (case Atoi val of Some ttl \<Rightarrow> Next (st\<lparr>ld_MinTTL := nat (ttl mod 4294967296)\<rparr>) | None \<Rightarrow> Failed st)
     else if key = str ''subdomain'' then
       (let st = st\<lparr>ld_Depth := AtoiValue val\<rparr> in if Atoi val = None then Failed st else Next st)
     else if hasSuffix key [93] then Next (loadAttribute key val st)
     else if hasPrefix val [91] then loadQuote key val st
     else
       (case ld_Current st of None \<Rightarrow> LoadPanic | Some ob \<Rightarrow> Next (loadAddresses key val ob st)))"

text \<open>
  The range of a network: of an IPv4 one its addresses, of an IPv6 one the upper halves of
  its addresses. The shift count of line 657 is negative for more than 64 bits: a panic.
\<close>

definition loadRange :: "bytes \<Rightarrow> nat \<Rightarrow> loadState \<Rightarrow> loadResult" where
  "loadRange ip bits st =
    (if length ip = 4 then
       (let first = be_nat ip
        in Next (st\<lparr>ld_Profile := (ld_Profile st)\<lparr>IPv4Ranges := IPv4Ranges (ld_Profile st) @
             [\<lparr>rng_Start = first, rng_End = u32 (first + u32 (2 ^ (32 - bits))), rng_Interface = ld_Current st\<rparr>]\<rparr>\<rparr>))
     else if bits > 64 then LoadPanic
     else
       (let first = be_nat (take 8 ip)
        in Next (st\<lparr>ld_Profile := (ld_Profile st)\<lparr>IPv6Ranges := IPv6Ranges (ld_Profile st) @
             [\<lparr>rng_Start = first, rng_End = u64 (first + u64 (2 ^ (64 - bits))), rng_Interface = ld_Current st\<rparr>]\<rparr>\<rparr>)))"

text \<open>A name alone: under an outbound that does something new records, else none.\<close>

definition loadName :: "gostr \<Rightarrow> loadState \<Rightarrow> loadResult" where
  "loadName name st =
    (case ld_Current st of None \<Rightarrow> LoadPanic
     | Some ob \<Rightarrow>
        Next (if ob_DNS ob \<noteq> [] \<or> ob_Protocol ob \<noteq> DIRECT then
                (let (dns, p) = newRecords (ld_Dns st)
                 in setCache name p (setDomain name (Some ob) (st\<lparr>ld_Dns := dns\<rparr>)))
              else setDomain name None st))"

definition loadSingle :: "loadEnv \<Rightarrow> gostr \<Rightarrow> loadState \<Rightarrow> loadResult" where
  "loadSingle env key st =
    (if hd key = 91 then
       (if length key < 2 then LoadPanic
        else
          (case le_Outbounds env (take (length key - 2) (drop 1 key)) of
             Some ob \<Rightarrow> Next (st\<lparr>ld_Current := Some ob\<rparr>) | None \<Rightarrow> Next st))
     else
       (case le_Resolve env key of Some addr \<Rightarrow> Next (setDomain addr (ld_Current st) st)
        | None \<Rightarrow>
           (case ParsePrefix key of Some (ip, bits) \<Rightarrow> loadRange ip bits st
            | None \<Rightarrow>
               (if ParseIP key \<noteq> [] then Next (setDomain (IPString (ParseIP key)) (ld_Current st) st)
                else loadName key st))))"

definition loadLine :: "loadEnv \<Rightarrow> gostr \<Rightarrow> loadState \<Rightarrow> loadResult" where
  "loadLine env line st =
    (if line = [] \<or> hd line = 35 then Next st
     else
       (case splitByte2 61 (hd (splitByte2 35 line)) of
          [key, val] \<Rightarrow> loadPair key val st
        | ks \<Rightarrow> loadSingle env (hd ks) st))"

fun loadLines :: "loadEnv \<Rightarrow> gostr list \<Rightarrow> loadState \<Rightarrow> loadResult" where
  "loadLines env [] st = Next st"
| "loadLines env (line # lines) st =
    (case loadLine env line st of Next st \<Rightarrow> loadLines env lines st | r \<Rightarrow> r)"

text \<open>\<open>sort.SliceStable\<close> by the start of the range, after the last line.\<close>

definition sortRanges :: "phantomProfile \<Rightarrow> phantomProfile" where
  "sortRanges p = p\<lparr>IPv4Ranges := sort_key rng_Start (IPv4Ranges p), IPv6Ranges := sort_key rng_Start (IPv6Ranges p)\<rparr>"

definition LoadProfile :: "loadEnv \<Rightarrow> outbound option \<Rightarrow> bytes \<Rightarrow> loadState \<Rightarrow> loadResult" where
  "LoadProfile env defaultOutbound content st =
    (case loadLines env (readLines content) (st\<lparr>ld_Current := defaultOutbound\<rparr>) of
       Next st \<Rightarrow> Next (st\<lparr>ld_Profile := sortRanges (ld_Profile st)\<rparr>)
     | r \<Rightarrow> r)"

subsection \<open>The hosts file\<close>

text \<open>
  The search for the records of a parent domain, in the state that it leaves: a hit does
  not end the loop, which goes on at the same dot, so the copy is made again.
\<close>

fun hostsParent :: "nat \<Rightarrow> gostr \<Rightarrow> nat \<Rightarrow> nat option \<Rightarrow> dnsState \<Rightarrow> dnsState \<times> nat option" where
  "hostsParent 0 name offset records st = (st, records)"
| "hostsParent (Suc k) name offset records st =
    (case indexByte 46 (drop offset name) of None \<Rightarrow> (st, records)
     | Some off \<Rightarrow>
        (case LoadDNSCache st (drop (offset + off) name) of
           Some q \<Rightarrow>
             (let (st, p) = newRecords st; st = StoreDNSCache (setRecords p (recordsOf st q) st) name p
              in hostsParent k name (offset + off) (Some p) st)
         | None \<Rightarrow> hostsParent k name (offset + off + 1) records st))"

definition maxTTL :: int where
  "maxTTL = 0x7FFFFFFFFFFFFFFF"

definition hostsLine :: "phantomProfile \<Rightarrow> outbound option \<Rightarrow> int \<Rightarrow> gostr \<Rightarrow> dnsState \<Rightarrow> dnsState" where
  "hostsLine profile defaultOutbound depth line st =
    (if line = [] \<or> hd line = 35 then st
     else
       (case splitByte2 9 line of
          [address, name] \<Rightarrow>
            (if LoadDNSCache st name \<noteq> None then st
             else
               (let (st, records) = hostsParent (nat depth) name 0 None st;
                    (st, p) = (case records of Some p \<Rightarrow> (st, p) | None \<Rightarrow> newRecords st);
                    st = (case fst (GetOutbound profile defaultOutbound depth name) of
                            Some ob \<Rightarrow> (if ob_Hint ob \<noteq> 0 then addLie name ob (ob_Hint ob AND HINT_DNS) p st else st)
                          | None \<Rightarrow> st);
                    ip = ParseIP address
                in if ip = [] then st
                   else
                     StoreDNSCache
                       (if To4 ip \<noteq> [] then onHeap p (newIPv4 maxTTL [To4 ip]) st else onHeap p (newIPv6 maxTTL [ip]) st)
                       name p))
        | _ \<Rightarrow> st))"

definition LoadHosts :: "phantomProfile \<Rightarrow> outbound option \<Rightarrow> int \<Rightarrow> bytes \<Rightarrow> dnsState \<Rightarrow> dnsState" where
  "LoadHosts profile defaultOutbound depth content st =
    fold (hostsLine profile defaultOutbound depth) (readLines content) st"

subsection \<open>Proxy auto-configuration\<close>

text \<open>\<open>hosts\<close> are the keys of the domain map in the order of Go's iteration.\<close>

definition pacRule :: "gostr \<Rightarrow> gostr" where
  "pacRule host = [34] @ host @ [34] @ str '':1,'' @ [10]"

definition pacLines :: "gostr list \<Rightarrow> gostr" where
  "pacLines ls = joinBytes [10] ls"

definition GetPAC :: "gostr list \<Rightarrow> int \<Rightarrow> gostr \<Rightarrow> gostr \<Rightarrow> gostr" where
  "GetPAC hosts depth address profile =
    (if profile = [] then
       pacLines [str ''function FindProxyForURL(url, host) {'', [9] @ str ''return '' @ [39] @ address @ [39] @ str '';'', str ''}'']
     else
       pacLines
         [str ''var proxy = '' @ [39] @ str ''SOCKS '' @ address @ [39] @ str '';'',
          str ''var rules = {'',
          concat (map pacRule hosts) @ str ''}'',
          str ''function FindProxyForURL(url, host) {'',
          [9] @ str ''if (rules[host] != undefined) {'',
          [9, 9] @ str ''return proxy;'',
          [9] @ str ''}'',
          [9] @ str ''for (var i = 0; i < '' @ intString depth @ str ''; i++){'',
          [9, 9] @ str ''var dot = host.indexOf('' @ [34] @ str ''.'' @ [34] @ str '');'',
          [9, 9] @ str ''if (dot == -1) {return '' @ [39] @ str ''DIRECT'' @ [39] @ str '';}'',
          [9, 9] @ str ''host = host.slice(dot);'',
          [9, 9] @ str ''if (rules[host] != undefined) {return proxy;}'',
          [9, 9] @ str ''host = host.slice(1);'',
          [9] @ str ''}'',
          [9] @ str ''return '' @ [39] @ str ''DIRECT'' @ [39] @ str '';'',
          str ''}'', []])"

end
