(* ===== verification/Dns_Names.thy ===== *)
theory Dns_Names
  imports Dns_Wire
begin

text \<open>
  What the DNS messages carry: the labels that \<open>PackQName\<close> writes, the messages that fit
  the buffer of \<open>PackRequest\<close>, and that \<open>GetQName\<close> reads the question back.
\<close>

subsection \<open>Labels\<close>

definition label :: "bytes \<Rightarrow> bytes" where
  "label l = of_nat (length l) # l"

lemma label_append: "label l @ r = of_nat (length l) # l @ r"
  by (simp add: label_def)

lemma length_label [simp]: "length (label l) = Suc (length l)"
  by (simp add: label_def)

definition wireName :: "bytes list \<Rightarrow> bytes" where
  "wireName ls = concat (map label ls) @ [0]"

definition ascii :: "bytes \<Rightarrow> bool" where
  "ascii s \<longleftrightarrow> (\<forall>b \<in> set s. b < 0x80)"

lemma runeCount_ascii: "ascii s \<Longrightarrow> runeCount s = length s"
  by (induction s) (simp_all add: runeCount.simps ascii_def)

text \<open>
  The loop of \<open>PackQName\<close>, on a buffer whose part before \<open>at\<close> is finished: \<open>done\<close> are the
  bytes of the current label, \<open>s\<close> what is left of the name.
\<close>

lemma packLoop_labels:
  assumes "length pre = at" "length cur = l" "i = at + 1 + l"
  shows "packLoop (pre @ z # cur @ s @ [0]) at l i (length s) =
    pre @ (case splitByte 46 s of x # xs \<Rightarrow> label (cur @ x) @ concat (map label xs) @ [0])"
  using assms
proof (induction s arbitrary: pre z cur at l i)
  case Nil
  then show ?case by (simp add: label_def list_update_append)
next
  case (Cons c s)
  have q: "(pre @ z # cur @ (c # s) @ [0]) ! i = c"
    using Cons.prems by (simp add: nth_append)
  show ?case
  proof (cases "c = 46")
    case True
    have "packLoop (pre @ z # cur @ (c # s) @ [0]) at l i (length (c # s)) =
        packLoop ((pre @ of_nat l # cur) @ c # [] @ s @ [0]) i 0 (i + 1) (length s)"
      using q True Cons.prems by (simp add: list_update_append)
    also have "\<dots> = (pre @ of_nat l # cur) @ (case splitByte 46 s of x # xs \<Rightarrow> label ([] @ x) @ concat (map label xs) @ [0])"
      using Cons.prems by (intro Cons.IH) simp_all
    finally show ?thesis
      using True Cons.prems splitByte_nonempty [of 46 s]
      by (simp add: label_def split: list.splits)
  next
    case False
    have "packLoop (pre @ z # cur @ (c # s) @ [0]) at l i (length (c # s)) =
        packLoop (pre @ z # (cur @ [c]) @ s @ [0]) at (l + 1) (i + 1) (length s)"
      using q False by simp
    also have "\<dots> = pre @ (case splitByte 46 s of x # xs \<Rightarrow> label ((cur @ [c]) @ x) @ concat (map label xs) @ [0])"
      using Cons.prems by (intro Cons.IH) simp_all
    finally show ?thesis
      using False splitByte_nonempty [of 46 s] by (simp split: list.splits)
  qed
qed

lemma PackQName_labels: "ascii name \<Longrightarrow> PackQName name = wireName (splitByte 46 name)"
proof -
  assume "ascii name"
  then have "PackQName name = packLoop ([] @ 0 # [] @ name @ [0]) 0 0 1 (length name)"
    by (simp add: PackQName_def runeCount_ascii copy_at_def)
  then show ?thesis
    using packLoop_labels [of "[]" 0 "[]" 0 1 0 name] splitByte_nonempty [of 46 name]
    by (simp add: wireName_def split: list.splits)
qed

lemma length_wireName: "ls \<noteq> [] \<Longrightarrow> length (wireName ls) = length (joinBytes [46] ls) + 2"
  by (induction ls rule: induct_list012) (simp_all add: wireName_def label_def)

subsection \<open>Messages that fit their buffer\<close>

definition filled :: "nat \<Rightarrow> bytes \<Rightarrow> bytes \<times> nat" where
  "filled n s = (s @ replicate (n - length s) 0, length s)"

lemma copy_at_filled:
  "length (s @ t) \<le> n \<Longrightarrow> copy_at (s @ replicate (n - length s) 0) (length s) t = (s @ t) @ replicate (n - length (s @ t)) 0"
  by (simp add: copy_at_def)

lemma replicate_first: "0 < m \<Longrightarrow> (replicate m x)[0 := y] = y # replicate (m - 1) x"
  by (cases m) simp_all

lemma wr_filled:
  "length s + 1 \<le> n \<Longrightarrow> wr8 v (filled n s) = Some (filled n (s @ [of_nat v]))"
  "length s + 2 \<le> n \<Longrightarrow> wr16 v (filled n s) = Some (filled n (s @ be_bytes 2 v))"
  "length s + 4 \<le> n \<Longrightarrow> wr32 v (filled n s) = Some (filled n (s @ be_bytes 4 v))"
  "length s + length t \<le> n \<Longrightarrow> wcopy t (filled n s) = Some (filled n (s @ t))"
  using copy_at_filled [of s "be_bytes 2 v" n] copy_at_filled [of s "be_bytes 4 v" n] copy_at_filled [of s t n]
  by (auto simp: wr8_def wr16_def wr32_def wcopy_def filled_def set8_def put16_def put32_def copyFrom_def
      list_update_append replicate_first)

lemma filled_start: "(replicate n 0, 0) = filled n []"
  by (simp add: filled_def)

lemma filled_slice: "length s \<le> n \<Longrightarrow> slice (fst (filled n s)) 0 (snd (filled n s)) = Some s"
  by (simp add: filled_def slice_def)


definition question :: "bytes \<Rightarrow> nat \<Rightarrow> bytes" where
  "question qname qtype = qname @ be_bytes 2 qtype @ [0, 1]"

definition requestHeader :: "nat \<Rightarrow> nat \<Rightarrow> nat \<Rightarrow> bytes" where
  "requestHeader ident qdCount arCount = be_bytes 2 ident @ [1, 0] @ be_bytes 2 qdCount @ [0, 0, 0, 0] @ be_bytes 2 arCount"

lemma be_bytes_literals: "be_bytes 2 0 = [0, 0]" "be_bytes 2 (Suc 0) = [0, 1]" "be_bytes 2 0x0100 = [1, 0]"
  by (simp_all add: be_bytes_2 word_eq_iff_unsigned)

lemma PackRequest_plain:
  assumes "length (PackQName name) + 16 \<le> 512"
  shows "PackRequest name qtype ident [] 0 = Some (requestHeader ident 1 0 @ question (PackQName name) qtype)"
  using assms
  by (simp add: PackRequest_def filled_start wr_filled filled_slice requestHeader_def question_def be_bytes_literals
      del: be_bytes.simps)

subsection \<open>Reading the question back\<close>

lemma qnameLoop_labels:
  assumes "off = length pre" and "\<forall>l \<in> set ls. 1 \<le> length l \<and> length l \<le> 63"
    and "wire + length (concat (map label ls)) + 1 \<le> 255"
  shows "qnameLoop (pre @ concat (map label ls) @ 0 # rest) off wire q =
    Some (q @ concat (map (Cons 46) ls), off + length (concat (map label ls)) + 1)"
  using assms
proof (induction ls arbitrary: pre off wire q)
  case Nil
  then show ?case by (subst qnameLoop.simps) (simp add: nth_append)
next
  case (Cons l ls)
  let ?d = "pre @ concat (map label (l # ls)) @ 0 # rest"
  have l: "1 \<le> length l" "length l \<le> 63"
    using Cons.prems(2) by auto
  have u: "unat (?d ! off) = length l"
    using Cons.prems(1) l by (simp add: nth_append label_def unsigned_of_nat take_bit_eq_mod)
  have p: "take (length l) (drop (off + 1) ?d) = l"
    using Cons.prems(1) by (simp add: label_def)
  have "qnameLoop ?d off wire q =
      qnameLoop ((pre @ label l) @ concat (map label ls) @ 0 # rest) (off + 1 + length l) (wire + 1 + length l) (q @ [46] @ l)"
    using u p l Cons.prems by (subst qnameLoop.simps) (auto simp: Let_def label_def)
  also have "\<dots> = Some ((q @ [46] @ l) @ concat (map (Cons 46) ls), (off + 1 + length l) + length (concat (map label ls)) + 1)"
    using Cons.prems by (intro Cons.IH) (simp_all add: label_def)
  finally show ?case
    by (simp add: label_append)
qed

lemma joinBytes_concat: "joinBytes sep (x # xs) = x @ concat (map (\<lambda>l. sep @ l) xs)"
  by (induction xs arbitrary: x) simp_all

lemma GetQName_labels:
  assumes "length h = 12" and "ls \<noteq> []" and ls: "\<forall>l \<in> set ls. 1 \<le> length l \<and> length l \<le> 63"
    and size: "length (wireName ls) \<le> 255" and "2 \<le> length rest"
  shows "GetQName (h @ wireName ls @ be_bytes 2 qtype @ rest) =
    (joinBytes [46] ls, qtype mod 65536, 12 + length (wireName ls) + 4)"
proof -
  from assms(2) obtain l xs where l: "ls = l # xs"
    by (cases ls) auto
  let ?d = "h @ wireName ls @ be_bytes 2 qtype @ rest"
  have ll: "1 \<le> length l" "length l \<le> 63"
    using ls by (auto simp: l)
  have u: "unat (?d ! 12) = length l"
    using assms(1) ll by (simp add: nth_append l wireName_def label_def unsigned_of_nat take_bit_eq_mod)
  have p: "take (length l) (drop 13 ?d) = l"
    using assms(1) by (simp add: l wireName_def label_def)
  have w: "length (wireName ls) = 2 + length l + length (concat (map label xs))"
    by (simp add: l wireName_def label_def)
  have loop: "qnameLoop ((h @ label l) @ concat (map label xs) @ 0 # (be_bytes 2 qtype @ rest)) (13 + length l) (13 + length l - 12) l =
      Some (l @ concat (map (Cons 46) xs), (13 + length l) + length (concat (map label xs)) + 1)"
    using assms(1) ls size w by (intro qnameLoop_labels) (auto simp: l label_def)
  have d: "(h @ label l) @ concat (map label xs) @ 0 # (be_bytes 2 qtype @ rest) = ?d"
    by (simp add: l wireName_def)
  have e: "(13 + length l) + length (concat (map label xs)) + 1 = 12 + length (wireName ls)"
    using w by simp
  have n: "l @ concat (map (Cons 46) xs) = joinBytes [46] ls"
    by (simp add: l joinBytes_concat)
  have "qnameLoop ?d (13 + length l) (13 + length l - 12) l = Some (joinBytes [46] ls, 12 + length (wireName ls))"
    using loop unfolding d e n .
  moreover have "be_nat (take 2 (drop (12 + length (wireName ls)) ?d)) = qtype mod 65536"
    using assms(1) by (simp add: be_nat_be_bytes)
  ultimately show ?thesis
    using u p ll size w assms(1,5) by (simp add: GetQName_def Let_def)
qed

text \<open>Whatever question is read, it lies inside the message, and its name within the limit.\<close>

lemma qnameLoop_bounds:
  "qnameLoop buf off wire q = Some (name, e) \<Longrightarrow>
    length name + off + 1 = length q + e \<and> off < e \<and> e \<le> length buf \<and> e + wire \<le> off + 255"
proof (induction buf off wire q rule: qnameLoop.induct)
  case (1 buf off wire q)
  let ?len = "unat (buf ! off)"
  have off: "off < length buf" and len: "?len \<le> 63"
    using "1.prems" by (auto simp: qnameLoop.simps [of buf off] Let_def split: if_splits)
  show ?case
  proof (cases "?len = 0")
    case True
    then show ?thesis
      using "1.prems" off by (auto simp: qnameLoop.simps [of buf off] split: if_splits)
  next
    case False
    then have fit: "off + 1 + ?len \<le> length buf" "wire + 1 + ?len < 255"
      and rec: "qnameLoop buf (off + 1 + ?len) (wire + 1 + ?len) (q @ [46] @ take ?len (drop (off + 1) buf)) = Some (name, e)"
      using "1.prems" off len by (auto simp: qnameLoop.simps [of buf off] Let_def split: if_splits)
    have "length name + (off + 1 + ?len) + 1 = length (q @ [46] @ take ?len (drop (off + 1) buf)) + e \<and>
        off + 1 + ?len < e \<and> e \<le> length buf \<and> e + (wire + 1 + ?len) \<le> (off + 1 + ?len) + 255"
      by (rule "1.IH" [OF _ refl refl refl _ _ refl refl]) (use off len False fit rec in auto)
    then show ?thesis
      using fit by auto
  qed
qed

lemma GetQName_bounds_aux:
  assumes "GetQName buf = (name, qtype, e)" and "e \<noteq> 0"
  shows "e \<le> length buf \<and> length name + 18 = e \<and> length name \<le> 253 \<and> qtype < 65536"
proof -
  let ?len = "unat (buf ! 12)"
  obtain off where loop: "qnameLoop buf (13 + ?len) (1 + ?len) (take ?len (drop 13 buf)) = Some (name, off)"
    and e: "e = off + 4" "e \<le> length buf" and q: "qtype = be_nat (take 2 (drop off buf))" and l: "13 + ?len \<le> length buf"
    using assms by (auto simp: GetQName_def Let_def split: if_splits option.splits prod.splits)
  have "qtype < 65536"
    using be_nat_less [of "take 2 (drop off buf)"] e by (simp add: q)
  then show ?thesis
    using qnameLoop_bounds [OF loop] e l by auto
qed

end
