(* ===== verification/Dns_Properties.thy ===== *)
theory Dns_Properties
  imports Dns_Names Dns_Records
begin

text \<open>
  The properties of the DNS messages: questions and answers that are written are read
  back, reading stays inside the message, and where it does not end.
\<close>

subsection \<open>Questions\<close>

definition hostName :: "gostr \<Rightarrow> bool" where
  "hostName name \<longleftrightarrow> ascii name \<and> (\<forall>l \<in> set (splitByte 46 name). 1 \<le> length l \<and> length l \<le> 63) \<and> length name \<le> 253"

definition queryMessage :: "nat \<Rightarrow> gostr \<Rightarrow> nat \<Rightarrow> bytes" where
  "queryMessage ident name qtype = requestHeader ident 1 0 @ wireName (splitByte 46 name) @ be_bytes 2 qtype @ [0, 1]"

lemma length_PackQName: "hostName name \<Longrightarrow> length (wireName (splitByte 46 name)) = length name + 2"
  using length_wireName [of "splitByte 46 name"] by (simp add: join_split)

lemma PackRequest_query: "hostName name \<Longrightarrow> PackRequest name qtype ident [] 0 = Some (queryMessage ident name qtype)"
  using length_PackQName [of name]
  by (subst PackRequest_plain)
     (auto simp: PackQName_labels hostName_def queryMessage_def question_def)

lemma GetQName_query:
  assumes "hostName name" and "qtype < 65536"
  shows "GetQName (queryMessage ident name qtype) = (name, qtype, length (queryMessage ident name qtype))"
proof -
  have "GetQName (requestHeader ident 1 0 @ wireName (splitByte 46 name) @ be_bytes 2 qtype @ [0, 1]) =
      (joinBytes [46] (splitByte 46 name), qtype mod 65536, 12 + length (wireName (splitByte 46 name)) + 4)"
    using assms length_PackQName [of name]
    by (intro GetQName_labels) (auto simp: requestHeader_def hostName_def)
  then show ?thesis
    using assms by (simp add: queryMessage_def join_split requestHeader_def)
qed

text \<open>The option for the client's subnet, and a request with it and with a second type.\<close>

definition subnetOption :: "bytes \<Rightarrow> bytes" where
  "subnetOption ip = [0] @ be_bytes 2 41 @ be_bytes 2 4096 @ [0, 0] @ be_bytes 2 0x800 @
    (if To4 ip \<noteq> [] then be_bytes 2 11 @ be_bytes 2 8 @ be_bytes 2 7 @ be_bytes 2 1 @ [24, 0] @ take 3 (To4 ip)
     else be_bytes 2 15 @ be_bytes 2 8 @ be_bytes 2 11 @ be_bytes 2 2 @ [56, 0] @ take 7 ip)"

lemma packECS_filled:
  assumes "length s + 26 \<le> n"
  shows "packECS ecs (filled n s) = (if ParseIP ecs = [] then None else Some (filled n (s @ subnetOption (ParseIP ecs))))"
proof -
  have "To4 (ParseIP ecs) = [] \<or> length (To4 (ParseIP ecs)) = 4" "ParseIP ecs = [] \<or> length (ParseIP ecs) = 16" "To4 [] = []"
    using length_To4 [of "ParseIP ecs"] ParseIP_length [of ecs] by (auto simp: To4_def)
  then show ?thesis
    using assms by (auto simp: packECS_def Let_def wr_filled slice_def subnetOption_def simp del: be_bytes.simps)
qed

lemma PackRequest_fits:
  assumes "length (PackQName name) + 48 \<le> 512"
  shows "PackRequest name qtype ident ecs qtype2 = (if ecs \<noteq> [] \<and> ParseIP ecs = [] then None
    else Some (requestHeader ident (if qtype2 = 0 then 1 else 2) (if ecs = [] then 0 else 1)
      @ (if qtype2 = 0 then question (PackQName name) qtype else question (be_bytes 2 0xC012) qtype @ question (PackQName name) qtype2)
      @ (if ecs = [] then [] else subnetOption (ParseIP ecs))))"
proof -
  have "length (subnetOption (ParseIP ecs)) \<le> 26"
    by (simp add: subnetOption_def min_def del: be_bytes.simps)
  then show ?thesis
    using assms
    by (auto simp: PackRequest_def filled_start wr_filled filled_slice requestHeader_def question_def be_bytes_literals packECS_filled
        simp del: be_bytes.simps)
qed

text \<open>C29: A question that the program writes for a name of ASCII labels (each of 1 to 63
  bytes, at most 253 in all) is read back by its own parser, the same name and the same type,
  and ends where the message ends unless a subnet option follows it. With a second type there are
  two questions, and the first is a pointer to the name in the second: there the parser reads no
  name. Writing panics on a subnet that is no address, and only then.\<close>

theorem question_roundtrip:
  assumes "hostName name" and "qtype < 65536"
  shows "case PackRequest name qtype ident ecs qtype2 of None \<Rightarrow> ecs \<noteq> [] \<and> ParseIP ecs = []
    | Some m \<Rightarrow> \<not> (ecs \<noteq> [] \<and> ParseIP ecs = [])
        \<and> (if qtype2 = 0 then GetQName m = (name, qtype, length name + 18) \<and> (length m = length name + 18 \<longleftrightarrow> ecs = [])
           else GetQName m = ([], 0, 0) \<and> take 2 (drop 12 m) = [0xC0, 18]
             \<and> take (length name + 2) (drop 18 m) = wireName (splitByte 46 name))"
proof -
  have q: "PackQName name = wireName (splitByte 46 name)" "length (wireName (splitByte 46 name)) = length name + 2" "length name \<le> 253"
    using assms(1) PackQName_labels length_PackQName by (auto simp: hostName_def)
  define opt where "opt = (if ecs = [] then [] else subnetOption (ParseIP ecs))"
  have opt: "opt = [] \<longleftrightarrow> ecs = []"
    by (simp add: opt_def subnetOption_def)
  note request = PackRequest_fits [of name qtype ident ecs qtype2, folded opt_def, unfolded q(1)]
  show ?thesis
  proof (cases "ecs \<noteq> [] \<and> ParseIP ecs = []")
    case True
    with request q(2,3) show ?thesis by simp
  next
    case ok: False
    show ?thesis
    proof (cases "qtype2 = 0")
      case True
      let ?h = "requestHeader ident 1 (if ecs = [] then 0 else 1)"
      have "GetQName (?h @ wireName (splitByte 46 name) @ be_bytes 2 qtype @ [0, 1] @ opt) =
          (joinBytes [46] (splitByte 46 name), qtype mod 65536, 12 + length (wireName (splitByte 46 name)) + 4)"
        using assms(1) q by (intro GetQName_labels) (auto simp: requestHeader_def hostName_def)
      then show ?thesis
        using True ok request q assms opt by (simp add: question_def join_split requestHeader_def del: be_bytes.simps)
    next
      case False
      have p: "be_bytes 2 0xC012 = [0xC0, 18]"
        by (simp add: be_bytes_2 word_eq_iff_unsigned)
      let ?m = "requestHeader ident 2 (if ecs = [] then 0 else 1) @ question [0xC0, 18] qtype @ question (wireName (splitByte 46 name)) qtype2 @ opt"
      have h: "length (requestHeader ident 2 n) = 12" for n
        by (simp add: requestHeader_def del: be_bytes.simps)
      have "GetQName ?m = ([], 0, 0)" "take 2 (drop 12 ?m) = [0xC0, 18]" "take (length name + 2) (drop 18 ?m) = wireName (splitByte 46 name)"
        using h q by (simp_all add: GetQName_def question_def nth_append del: be_bytes.simps)
      then show ?thesis
        using False ok request q p by simp
    qed
  qed
qed

theorem question_roundtrip_witness:
  "(\<exists>m. PackRequest (str ''a.bc'') 28 7 [] 0 = Some m \<and> GetQName m = (str ''a.bc'', 28, length m))
    \<and> (\<exists>m. PackRequest (str ''a.bc'') 28 7 [] 1 = Some m \<and> GetQName m = ([], 0, 0))"
proof -
  have "hostName (str ''a.bc'')"
    by (simp add: hostName_def ascii_def str_def)
  note request = question_roundtrip [OF this, where qtype = 28 and ident = 7 and ecs = "[]"]
  from request [of 0] request [of 1] show ?thesis
    by (auto simp: str_def split: option.splits)
qed

text \<open>Whatever message arrives, the question that is read ends inside the message, its
  name has at most 253 bytes and as many as the question's length says, and its type fits 16
  bits.\<close>

theorem question_inside:
  assumes "GetQName buf = (name, qtype, e)" and "e \<noteq> 0"
  shows "e \<le> length buf \<and> length name + 18 = e \<and> length name \<le> 253 \<and> qtype < 65536"
  using assms by (rule GetQName_bounds_aux)

theorem question_inside_witness:
  "(20::nat) \<le> length (queryMessage 7 (str ''ab'') 1) \<and> length (str ''ab'') + 18 = (20::nat) \<and> length (str ''ab'') \<le> 253 \<and> (1::nat) < 65536"
proof (rule question_inside)
  show "GetQName (queryMessage 7 (str ''ab'') 1) = (str ''ab'', 1, 20)"
    by code_simp
qed simp

subsection \<open>Names that never end\<close>

text \<open>
  Offsets from which every pointer leads back: each holds a byte of at least 63, which the
  code takes for a pointer, and the byte after it, which the code takes for the target, is
  an offset of the set again.
\<close>

definition pointerCycle :: "bytes \<Rightarrow> nat set \<Rightarrow> bool" where
  "pointerCycle buf S \<longleftrightarrow> (\<forall>i \<in> S. i + 1 < length buf \<and> 63 \<le> unat (buf ! i) \<and> unat (buf ! (i + 1)) \<in> S)"

lemma getNameLoop_cycle:
  assumes "getNameLoop buf offset name = Some y" and "pointerCycle buf S"
  shows "offset \<notin> S"
proof -
  have "pointerCycle buf S \<longrightarrow> offset \<notin> S"
  proof (rule getNameLoop.raw_induct [where P = "\<lambda>buf offset name y. pointerCycle buf S \<longrightarrow> offset \<notin> S", OF _ assms(1)], intro impI notI)
    fix loop buf offset name y
    assume IH: "\<And>offset name b y. loop offset name b = Some y \<Longrightarrow> pointerCycle offset S \<longrightarrow> name \<notin> S"
      and body: "(if length buf \<le> offset then None
        else let len = unat (buf ! offset); offset = offset + 1
             in if len = 0 then Some (name, offset)
                else let name = if name \<noteq> [] then name @ [46] else name
                     in if len < 63
                        then if length buf < offset + len then None
                             else let part = take len (drop offset buf); offset = offset + len
                                  in if length buf < offset + 2 then Some ([], offset) else loop buf offset (name @ part)
                        else if length buf \<le> offset then None
                             else loop buf (unat (buf ! offset)) [] \<bind> (\<lambda>r. Some (name @ fst r, offset + 1))) = Some y"
      and cycle: "pointerCycle buf S" and "offset \<in> S"
    then have i: "offset + 1 < length buf" "63 \<le> unat (buf ! offset)" "unat (buf ! (offset + 1)) \<in> S"
      by (auto simp: pointerCycle_def)
    then obtain r where "loop buf (unat (buf ! (offset + 1))) [] = Some r"
      using body by (auto simp: Let_def bind_eq_Some_conv split: if_splits)
    with IH i(3) cycle show False
      by blast
  qed
  with assms(2) show ?thesis by simp
qed

text \<open>C30: The parser of names in answers does not return on a pointer that leads back to
  itself, however long the way: the recursion never ends, and the process dies of it.\<close>

theorem pointer_cycle_hangs:
  assumes "pointerCycle buf S" and "offset \<in> S"
  shows "GetName buf offset = None"
  using getNameLoop_cycle [of buf offset "[]" _ S] assms by (cases "GetName buf offset") (auto simp: GetName_def)

theorem pointer_cycle_hangs_witness: "GetName [0xC0, 2, 0xC0, 0] 0 = None"
  by (rule pointer_cycle_hangs [where S = "{0, 2}"]) (simp_all add: pointerCycle_def)

end
