(* ===== verification/Dns_Answers.thy ===== *)
theory Dns_Answers
  imports Dns_Properties
begin

text \<open>
  Answers that are built are read back: the bytes of \<open>PackAnswers\<close>, what \<open>GetAnswers\<close>
  makes of them, and the answers with fake addresses.
\<close>

subsection \<open>The bytes of an answer\<close>

definition goodIP :: "bytes \<Rightarrow> bool" where
  "goodIP ip \<longleftrightarrow> To4 ip \<noteq> [] \<or> length ip = 16"

definition answerBytes :: "nat \<Rightarrow> bytes \<Rightarrow> bytes" where
  "answerBytes ttl ip =
    (if To4 ip \<noteq> [] then [0xC0, 0x0C, 0, 1, 0, 1] @ be_bytes 4 ttl @ [0, 4] @ To4 ip
     else [0xC0, 0x0C, 0, 28, 0, 1] @ be_bytes 4 ttl @ [0, 16] @ ip)"

lemma length_answerBytes [simp]: "goodIP ip \<Longrightarrow> length (answerBytes ttl ip) = addressSize ip"
  using length_To4 [of ip] by (auto simp: answerBytes_def addressSize_def goodIP_def)

lemma wfield_fits: "length t = k \<Longrightarrow> wfield k t = wcopy t"
  by (rule ext) (simp add: wfield_def wcopy_def)

lemma packAddress_filled:
  assumes "goodIP ip" and "length s + addressSize ip \<le> n"
  shows "packAddress ttl ip (filled n s) = Some (filled n (s @ answerBytes ttl ip))"
  using assms length_To4 [of ip]
  by (auto simp: packAddress_def answerBytes_def addressSize_def goodIP_def wr_filled wfield_fits split: if_splits)

lemma packAddresses_filled:
  "\<forall>ip \<in> set ips. goodIP ip \<Longrightarrow> length s + sum_list (map addressSize ips) \<le> n \<Longrightarrow>
    packAddresses ttl ips (filled n s) = Some (filled n (s @ concat (map (answerBytes ttl) ips)))"
  by (induction ips arbitrary: s) (simp_all add: packAddress_filled)

lemma length_answers:
  "\<forall>ip \<in> set ips. goodIP ip \<Longrightarrow> length (concat (map (answerBytes ttl) ips)) = sum_list (map addressSize ips)"
  by (induction ips) simp_all

lemma fst_filled: "length s = n \<Longrightarrow> fst (filled n s) = s"
  by (simp add: filled_def)

definition answerTTL :: "int \<Rightarrow> nat \<Rightarrow> int \<Rightarrow> nat" where
  "answerTTL now minttl t = max (if t > 0 then nat ((t - now) mod 4294967296) else 0) minttl"

lemma packA_answers:
  assumes "\<forall>ip \<in> set ips. goodIP ip"
  shows "packA now minttl \<lparr>ra_TTL = t, ra_Addresses = ips\<rparr> =
    Some (length ips, concat (map (answerBytes (answerTTL now minttl t)) ips))"
  using packAddresses_filled [of ips "[]" "sum_list (map addressSize ips)"] assms length_answers [OF assms]
  by (simp add: packA_def filled_start answerTTL_def fst_filled Let_def)

subsection \<open>Reading an answer\<close>

lemma GetNameOffset_pointer: "GetNameOffset (pre @ 0xC0 # x # rest) (length pre) = length pre + 2"
  by (subst GetNameOffset.simps) (simp add: nth_append)

lemma GetNameOffset_labels:
  assumes "\<forall>l \<in> set ls. 1 \<le> length l \<and> length l \<le> 62" and "rest \<noteq> []"
  shows "GetNameOffset (pre @ concat (map label ls) @ 0 # rest) (length pre) = length pre + length (concat (map label ls)) + 1"
  using assms
proof (induction ls arbitrary: pre)
  case Nil
  then show ?case by (subst GetNameOffset.simps) (simp add: nth_append)
next
  case (Cons l ls)
  let ?d = "pre @ concat (map label (l # ls)) @ 0 # rest"
  have l: "1 \<le> length l" "length l \<le> 62"
    using Cons.prems(1) by auto
  have u: "unat (?d ! length pre) = length l"
    using l by (simp add: label_append nth_append)
  have "0 < length rest"
    using Cons.prems(2) by simp
  then have "GetNameOffset ?d (length pre) = GetNameOffset ?d (length pre + 1 + length l)"
    using u l by (subst GetNameOffset.simps) (auto simp: Let_def)
  also have "\<dots> = GetNameOffset ((pre @ label l) @ concat (map label ls) @ 0 # rest) (length (pre @ label l))"
    by simp
  also have "\<dots> = length (pre @ label l) + length (concat (map label ls)) + 1"
    using Cons.prems by (intro Cons.IH) auto
  finally show ?case by simp
qed

definition plainOptions :: "serverOptions \<Rightarrow> bool" where
  "plainOptions options \<longleftrightarrow> opt_BadSubnet options = None \<and> opt_PD options = []"

lemma nsfilter_plain [simp]: "plainOptions options \<Longrightarrow> nsfilter options ip = ip"
  by (simp add: plainOptions_def nsfilter_def)

definition takeIP :: "int \<Rightarrow> bytes \<Rightarrow> recHeap \<Rightarrow> recHeap" where
  "takeIP ttl ip = (if To4 ip \<noteq> [] then addIPv4 ttl (To4 ip) else addIPv6 ttl ip)"

lemma answer_record:
  assumes "goodIP ip" and "ttl < 4294967296" and "plainOptions options"
  shows "answer minTTL now (pre @ answerBytes ttl ip @ rest) options (length pre + 2) st =
    Some (Some (length pre + addressSize ip), takeIP (int (max minTTL ttl) + now) ip st)"
proof (cases "To4 ip = []")
  case True
  with assms(1) have ip: "length ip = 16" "ip \<noteq> []" by (auto simp: goodIP_def)
  have d: "pre @ answerBytes ttl ip @ rest = (pre @ [0xC0, 0x0C]) @ [0, 28] @ [0, 1] @ be_bytes 4 ttl @ [0, 16] @ ip @ rest"
    using True by (simp add: answerBytes_def)
  show ?thesis
    unfolding d using True ip assms(2,3)
    by (simp add: answer_def Let_def be_nat_be_bytes be_nat_two addressSize_def takeIP_def)
next
  case False
  with length_To4 [of ip] have ip: "length (To4 ip) = 4" by simp
  have d: "pre @ answerBytes ttl ip @ rest = (pre @ [0xC0, 0x0C]) @ [0, 1] @ [0, 1] @ be_bytes 4 ttl @ [0, 4] @ To4 ip @ rest"
    using False by (simp add: answerBytes_def)
  show ?thesis
    unfolding d using False ip assms(2,3)
    by (simp add: answer_def Let_def be_nat_be_bytes be_nat_two addressSize_def takeIP_def)
qed

lemma answerBytes_pointer: "\<exists>r. answerBytes ttl ip = 0xC0 # 0x0C # r"
  by (simp add: answerBytes_def)

lemma answersLoop_records:
  assumes "\<forall>ip \<in> set ips. goodIP ip" and "ttl < 4294967296" and "plainOptions options"
  shows "answersLoop minTTL now (pre @ concat (map (answerBytes ttl) ips)) options (length ips) (length pre) st =
    Some (fold (takeIP (int (max minTTL ttl) + now)) ips st)"
  using assms(1)
proof (induction ips arbitrary: pre st)
  case Nil
  then show ?case by simp
next
  case (Cons ip ips)
  let ?rest = "concat (map (answerBytes ttl) ips)"
  have o1: "GetNameOffset (pre @ answerBytes ttl ip @ ?rest) (length pre) = length pre + 2"
    using answerBytes_pointer [of ttl ip] GetNameOffset_pointer [of pre "0x0C"] by auto
  have "answer minTTL now (pre @ answerBytes ttl ip @ ?rest) options (length pre + 2) st =
      Some (Some (length pre + addressSize ip), takeIP (int (max minTTL ttl) + now) ip st)"
    using Cons.prems assms(2,3) by (intro answer_record) auto
  moreover have "answersLoop minTTL now ((pre @ answerBytes ttl ip) @ ?rest) options (length ips) (length (pre @ answerBytes ttl ip))
      (takeIP (int (max minTTL ttl) + now) ip st) =
      Some (fold (takeIP (int (max minTTL ttl) + now)) ips (takeIP (int (max minTTL ttl) + now) ip st))"
    using Cons.prems by (intro Cons.IH) auto
  ultimately show ?case
    using Cons.prems o1 by simp
qed

subsection \<open>Responses\<close>

text \<open>The header of a response: the request's identification, flags and counts.\<close>

definition responseHeader :: "nat \<Rightarrow> nat \<Rightarrow> bytes" where
  "responseHeader ident count = be_bytes 2 ident @ [0x81, 0x80, 0, 1] @ be_bytes 2 count @ [0, 0, 0, 0]"

definition responseMessage :: "nat \<Rightarrow> gostr \<Rightarrow> nat \<Rightarrow> nat \<Rightarrow> bytes \<Rightarrow> bytes" where
  "responseMessage ident name qtype count answers =
    responseHeader ident count @ wireName (splitByte 46 name) @ be_bytes 2 qtype @ [0, 1] @ answers"

lemma query_shape: "\<exists>a b. queryMessage ident name qtype =
    [a, b, 1, 0, 0, 1, 0, 0, 0, 0, 0, 0] @ wireName (splitByte 46 name) @ be_bytes 2 qtype @ [0, 1] \<and> be_bytes 2 ident = [a, b]"
  by (simp add: queryMessage_def requestHeader_def be_bytes_literals be_bytes_2)

lemma BuildResponse_query:
  assumes "rec_Index r = 0" and "PackAnswers now qtype minttl h r = Some (count, answers)" and "0 < count" "count < 65536"
  shows "BuildResponse now (queryMessage ident name qtype) qtype minttl h r =
    Some (responseMessage ident name qtype count answers)"
proof -
  obtain a b where q: "queryMessage ident name qtype =
      [a, b, 1, 0, 0, 1, 0, 0, 0, 0, 0, 0] @ wireName (splitByte 46 name) @ be_bytes 2 qtype @ [0, 1]"
    and ab: "be_bytes 2 ident = [a, b]"
    using query_shape by blast
  show ?thesis
    using assms ab
    by (simp add: BuildResponse_def q responseMessage_def responseHeader_def set8_def put16_def copyFrom_def copy_at_def
        be_bytes_2)
qed

lemma GetAnswers_response:
  assumes "hostName name" and labels: "\<forall>l \<in> set (splitByte 46 name). length l \<le> 62"
    and ips: "\<forall>ip \<in> set ips. goodIP ip" and "0 < length ips" "length ips < 65536"
    and "ttl < 4294967296" and "plainOptions options"
  shows "GetAnswers minTTL now (responseMessage ident name qtype (length ips) (concat (map (answerBytes ttl) ips))) options st =
    Some (fold (takeIP (int (max minTTL ttl) + now)) ips st)"
proof -
  let ?ls = "splitByte 46 name" and ?answers = "concat (map (answerBytes ttl) ips)"
  let ?m = "responseMessage ident name qtype (length ips) ?answers"
  let ?pre = "responseHeader ident (length ips) @ wireName ?ls @ be_bytes 2 qtype @ [0, 1]"
  have h: "length (responseHeader ident (length ips)) = 12"
    by (simp add: responseHeader_def)
  have "GetNameOffset (responseHeader ident (length ips) @ concat (map label ?ls) @ 0 # (be_bytes 2 qtype @ [0, 1] @ ?answers))
      (length (responseHeader ident (length ips))) = length (responseHeader ident (length ips)) + length (concat (map label ?ls)) + 1"
    using assms(1) labels by (intro GetNameOffset_labels) (auto simp: hostName_def)
  then have "GetNameOffset ?m 12 = 12 + length (wireName ?ls)"
    by (simp add: responseMessage_def wireName_def h)
  then have skip: "skipQuestions ?m 1 12 = Some (length ?pre)"
    using h by simp
  have "answersLoop minTTL now (?pre @ ?answers) options (length ips) (length ?pre) st =
      Some (fold (takeIP (int (max minTTL ttl) + now)) ips st)"
    using ips assms(6,7) by (rule answersLoop_records)
  then have "answersLoop minTTL now ?m options (length ips) (length ?pre) st =
      Some (fold (takeIP (int (max minTTL ttl) + now)) ips st)"
    by (simp add: responseMessage_def)
  moreover have "be_nat (take 2 (drop 4 ?m)) = 1" "be_nat (take 2 (drop 6 ?m)) = length ips" "12 \<le> length ?m"
    using assms(5) by (simp_all add: responseMessage_def responseHeader_def be_nat_be_bytes be_nat_two)
  ultimately show ?thesis
    using skip assms(4) by (simp add: GetAnswers_def)
qed

text \<open>What one list of addresses leaves in empty records.\<close>

lemma takeIP4s:
  assumes "\<forall>ip \<in> set ips. To4 ip \<noteq> []"
  shows "fold (takeIP ttl) ips ([\<lparr>ra_TTL = t, ra_Addresses = xs\<rparr>], r\<lparr>rec_IPv4Hint := Some 0\<rparr>) =
    ([\<lparr>ra_TTL = t, ra_Addresses = xs @ map To4 ips\<rparr>], r\<lparr>rec_IPv4Hint := Some 0\<rparr>)"
  using assms
  by (induction ips arbitrary: xs) (simp_all add: takeIP_def addIPv4_def appendAddress_def)

lemma takeIP6s:
  assumes "\<forall>ip \<in> set ips. To4 ip = []"
  shows "fold (takeIP ttl) ips ([\<lparr>ra_TTL = t, ra_Addresses = xs\<rparr>], r\<lparr>rec_IPv6Hint := Some 0\<rparr>) =
    ([\<lparr>ra_TTL = t, ra_Addresses = xs @ ips\<rparr>], r\<lparr>rec_IPv6Hint := Some 0\<rparr>)"
  using assms
  by (induction ips arbitrary: xs) (simp_all add: takeIP_def addIPv6_def appendAddress_def)

definition answerRecords :: "int \<Rightarrow> nat \<Rightarrow> bytes list \<Rightarrow> recHeap" where
  "answerRecords ttl qtype ips =
    (if qtype = 1 then ([\<lparr>ra_TTL = ttl, ra_Addresses = map To4 ips\<rparr>], dnsRecords0\<lparr>rec_IPv4Hint := Some 0\<rparr>)
     else ([\<lparr>ra_TTL = ttl, ra_Addresses = ips\<rparr>], dnsRecords0\<lparr>rec_IPv6Hint := Some 0\<rparr>))"

definition familyOf :: "nat \<Rightarrow> bytes \<Rightarrow> bool" where
  "familyOf qtype ip \<longleftrightarrow> qtype = 1 \<and> To4 ip \<noteq> [] \<or> qtype = 28 \<and> length ip = 16 \<and> To4 ip = []"

lemma takeIPs_new:
  assumes "ips \<noteq> []" and "\<forall>ip \<in> set ips. familyOf qtype ip"
  shows "fold (takeIP ttl) ips ([], dnsRecords0) = answerRecords ttl qtype ips"
proof (cases ips)
  case (Cons ip xs)
  show ?thesis
  proof (cases "qtype = 1")
    case True
    then show ?thesis
      using assms takeIP4s [of xs ttl ttl "[To4 ip]" dnsRecords0]
      by (simp add: Cons familyOf_def takeIP_def addIPv4_def newIPv4_def answerRecords_def dnsRecords0_def)
  next
    case False
    then show ?thesis
      using assms takeIP6s [of xs ttl ttl "[ip]" dnsRecords0]
      by (simp add: Cons familyOf_def takeIP_def addIPv6_def newIPv6_def answerRecords_def dnsRecords0_def)
  qed
qed (use assms in simp)

text \<open>C10: What the service answers is what a client that asks it stores. For a name whose
  labels have at most 62 bytes, cached addresses of the family asked for that have not
  expired are built into a response to the program's own question, and the program's own
  reader of that response, starting with no records, ends with the same addresses in the
  same order, good for as long as the cache has them and at least the minimal time.\<close>

theorem answers_roundtrip:
  assumes "hostName name" and "\<forall>l \<in> set (splitByte 46 name). length l \<le> 62"
    and "rec_Index r = 0" and "qtype = 1 \<and> rec_IPv4Hint r = Some p \<or> qtype = 28 \<and> rec_IPv6Hint r = Some p"
    and "h ! p = \<lparr>ra_TTL = now + int left, ra_Addresses = ips\<rparr>" and "0 < now" "left < 4294967296"
    and "ips \<noteq> []" "length ips < 65536" and "\<forall>ip \<in> set ips. familyOf qtype ip" and "minttl < 4294967296"
  shows "\<exists>m resp. PackRequest name qtype ident [] 0 = Some m \<and> BuildResponse now m qtype minttl h r = Some resp
    \<and> GetAnswers minTTL now resp serverOptions0 ([], dnsRecords0)
      = Some (answerRecords (now + int (max minTTL (max left minttl))) qtype ips)"
proof -
  let ?ttl = "max left minttl"
  have ips: "\<forall>ip \<in> set ips. goodIP ip"
    using assms(10) by (auto simp: familyOf_def goodIP_def)
  have ttl: "answerTTL now minttl (now + int left) = ?ttl"
    using assms(6,7) by (simp add: answerTTL_def)
  have "PackAnswers now qtype minttl h r = packA now minttl (h ! p)"
    using assms(4) by (auto simp: PackAnswers_def)
  also have "\<dots> = Some (length ips, concat (map (answerBytes ?ttl) ips))"
    using packA_answers [OF ips, of now minttl "now + int left"] assms(5) ttl by simp
  finally have "BuildResponse now (queryMessage ident name qtype) qtype minttl h r =
      Some (responseMessage ident name qtype (length ips) (concat (map (answerBytes ?ttl) ips)))"
    using assms by (intro BuildResponse_query) auto
  moreover have "GetAnswers minTTL now (responseMessage ident name qtype (length ips) (concat (map (answerBytes ?ttl) ips)))
      serverOptions0 ([], dnsRecords0) = Some (fold (takeIP (int (max minTTL ?ttl) + now)) ips ([], dnsRecords0))"
    using assms ips by (intro GetAnswers_response) (auto simp: plainOptions_def serverOptions0_def)
  ultimately show ?thesis
    using assms(1) takeIPs_new [OF assms(8,10)] by (simp add: PackRequest_query add.commute)
qed

theorem answers_roundtrip_witness:
  "\<exists>m resp. PackRequest (str ''a.bc'') 1 7 [] 0 = Some m
    \<and> BuildResponse 1000 m 1 60 [\<lparr>ra_TTL = 1000 + int 300, ra_Addresses = [[1, 2, 3, 4], [5, 6, 7, 8]]\<rparr>]
        (dnsRecords0\<lparr>rec_IPv4Hint := Some 0\<rparr>) = Some resp
    \<and> GetAnswers 0 1000 resp serverOptions0 ([], dnsRecords0)
      = Some (answerRecords (1000 + int (max 0 (max 300 60))) 1 [[1, 2, 3, 4], [5, 6, 7, 8]])"
proof (rule answers_roundtrip)
  show "hostName (str ''a.bc'')" "\<forall>l \<in> set (splitByte 46 (str ''a.bc'')). length l \<le> 62"
    by (simp_all add: hostName_def ascii_def str_def)
  show "[\<lparr>ra_TTL = 1000 + int 300, ra_Addresses = [[1, 2, 3, 4], [5, 6, 7, 8]]\<rparr>] ! 0
      = \<lparr>ra_TTL = 1000 + int 300, ra_Addresses = [[1, 2, 3, 4], [5, 6, 7, 8]]\<rparr>"
    by simp
qed (simp_all add: dnsRecords0_def familyOf_def To4_def)

text \<open>An address that the configured bad subnet rejects costs the addresses after it: the
  code goes on with the next answer at the rejected address instead of behind it. Of the two
  answers here, 1.2.3.4 is in the bad subnet and 9.9.9.9 is not, and neither is stored.\<close>

theorem bad_address_derails:
  "GetAnswers 0 1000 (responseMessage 7 (str ''ab'') 1 2 (answerBytes 60 [1, 2, 3, 4] @ answerBytes 60 [9, 9, 9, 9]))
     (serverOptions0\<lparr>opt_BadSubnet := Some ([1, 2, 0, 0], [255, 255, 0, 0])\<rparr>) ([], dnsRecords0) = Some ([], dnsRecords0)
   \<and> GetAnswers 0 1000 (responseMessage 7 (str ''ab'') 1 1 (answerBytes 60 [9, 9, 9, 9]))
     (serverOptions0\<lparr>opt_BadSubnet := Some ([1, 2, 0, 0], [255, 255, 0, 0])\<rparr>) ([], dnsRecords0)
     = Some (answerRecords 1060 1 [[9, 9, 9, 9]])"
  by code_simp

subsection \<open>Fake addresses\<close>

definition fakeAnswer :: "nat \<Rightarrow> bytes" where
  "fakeAnswer index = [0xC0, 0x0C, 0, 1, 0, 1, 0, 0, 0, 0x10, 0, 4, VirtualAddrPrefix, 0] @ be_bytes 2 index"

lemma fakeA_filled:
  assumes "length t \<le> 484"
  shows "fakeA index (filled 512 ([a, b, 0x81, 0x80, 0, 1, 0, 0, 0, 0, 0, 0] @ t)) =
    Some ([a, b, 0x81, 0x80, 0, 1, 0, 1, 0, 0, 0, 0] @ t @ fakeAnswer index)"
proof -
  let ?s = "[a, b, 0x81, 0x80, 0, 1, 0, 0, 0, 0, 0, 0] @ t @ fakeAnswer index"
  let ?s1 = "[a, b, 0x81, 0x80, 0, 1, 0, 1, 0, 0, 0, 0] @ t @ fakeAnswer index"
  have len: "length ?s \<le> 512" "snd (filled 512 ?s) = snd (filled 512 ?s1)"
    using assms by (simp_all add: fakeAnswer_def filled_def)
  have "fakeA index (filled 512 ([a, b, 0x81, 0x80, 0, 1, 0, 0, 0, 0, 0, 0] @ t)) =
      Option.bind (put16 (fst (filled 512 ?s)) 6 1) (\<lambda>d. slice d 0 (snd (filled 512 ?s)))"
    using assms by (simp add: fakeA_def wr_filled fakeAnswer_def)
  also have "put16 (fst (filled 512 ?s)) 6 1 = Some (fst (filled 512 ?s1))"
    using len by (simp add: filled_def be_bytes_literals)
  also have "Option.bind (Some (fst (filled 512 ?s1))) (\<lambda>d. slice d 0 (snd (filled 512 ?s))) = Some ?s1"
    unfolding len(2) using filled_slice [of ?s1 512] len(1) by simp
  finally show ?thesis .
qed

lemma BuildResponse_fake:
  assumes "0 < rec_Index r" and "length (queryMessage ident name 1) \<le> 496"
  shows "BuildResponse now (queryMessage ident name 1) 1 minttl h r =
    Some (responseMessage ident name 1 1 (fakeAnswer (rec_Index r)))"
proof -
  define t where "t = wireName (splitByte 46 name) @ be_bytes 2 1 @ [0, 1]"
  obtain a b where q: "queryMessage ident name 1 = [a, b, 1, 0, 0, 1, 0, 0, 0, 0, 0, 0] @ t" (is "_ = ?q")
    and ab: "be_bytes 2 ident = [a, b]"
    using query_shape unfolding t_def by blast
  have t: "length t \<le> 484"
    using assms(2) unfolding q by simp
  then have "copy_at (replicate 512 0) 0 ?q = ?q @ replicate (512 - length ?q) 0"
    using copy_at_filled [of "[]" ?q 512] by simp
  then have "((copy_at (replicate 512 0) 0 ?q)[2 := 0x81, 3 := 0x80], length ?q) =
      filled 512 ([a, b, 0x81, 0x80, 0, 1, 0, 0, 0, 0, 0, 0] @ t)"
    by (simp add: filled_def)
  then have "BuildResponse now ?q 1 minttl h r = fakeA (rec_Index r) (filled 512 ([a, b, 0x81, 0x80, 0, 1, 0, 0, 0, 0, 0, 0] @ t))"
    using assms(1) by (simp add: BuildResponse_def Let_def)
  also have "\<dots> = Some ([a, b, 0x81, 0x80, 0, 1, 0, 1, 0, 0, 0, 0] @ t @ fakeAnswer (rec_Index r))"
    by (rule fakeA_filled [OF t])
  also have "[a, b, 0x81, 0x80, 0, 1, 0, 1, 0, 0, 0, 0] @ t @ fakeAnswer (rec_Index r) =
      responseMessage ident name 1 1 (fakeAnswer (rec_Index r))"
    using ab by (simp add: responseMessage_def responseHeader_def t_def be_bytes_literals)
  finally show ?thesis
    unfolding q .
qed

end
