(* ===== verification/Dns_Invariant.thy ===== *)
theory Dns_Invariant
  imports Dns_Service Dns_Answers
begin

text \<open>
  The invariant of the name service's state: every pointer is valid and every fake address
  belongs to a name with an outbound. Operations keep it, and never take back a cache
  entry or a fake address.
\<close>

subsection \<open>Records and their heap\<close>

definition hintsOk :: "recHeap \<Rightarrow> bool" where
  "hintsOk st \<longleftrightarrow> (\<forall>p. rec_IPv4Hint (snd st) = Some p \<or> rec_IPv6Hint (snd st) = Some p \<longrightarrow> p < length (fst st))"

definition heapStep :: "recHeap \<Rightarrow> recHeap \<Rightarrow> bool" where
  "heapStep st st' \<longleftrightarrow> length (fst st) \<le> length (fst st') \<and> rec_Index (snd st') = rec_Index (snd st)
    \<and> rec_CName (snd st') = rec_CName (snd st) \<and> (hintsOk st \<longrightarrow> hintsOk st')"

named_theorems heap_steps \<open>operations on records that keep their pointers valid\<close>

lemma heapStep_refl [heap_steps]: "heapStep st st"
  by (simp add: heapStep_def)

lemma heapStep_trans: "heapStep st st1 \<Longrightarrow> heapStep st1 st2 \<Longrightarrow> heapStep st st2"
  by (auto simp: heapStep_def)

lemma heapStep_new [heap_steps]: "heapStep st (newIPv4 ttl ips st)" "heapStep st (newIPv6 ttl ips st)"
  by (auto simp: heapStep_def hintsOk_def newIPv4_def newIPv6_def less_Suc_eq)

lemma heapStep_append [heap_steps]: "heapStep st (appendAddress p ip st)"
  by (simp add: heapStep_def hintsOk_def appendAddress_def)

lemma heapStep_add [heap_steps]: "heapStep st (addIPv4 ttl ip st)" "heapStep st (addIPv6 ttl ip st)"
  by (auto simp: addIPv4_def addIPv6_def heap_steps split: option.split)

lemma heapStep_svcParam: "svcParam ttl response key offset end st = Some st' \<Longrightarrow> heapStep st st'"
  by (auto simp: svcParam_def heap_steps split: if_splits) (auto simp: heapStep_def hintsOk_def)

lemma heapStep_svcLoop: "svcLoop ttl response offset st = Some (o1, st') \<Longrightarrow> heapStep st st'"
proof (induction ttl response offset st rule: svcLoop.induct)
  case (1 ttl response offset st)
  let ?key = "be_nat (take 2 (drop offset response))" and ?len = "be_nat (take 2 (drop (offset + 2) response))"
  show ?case
  proof (cases "offset + 4 < length response \<and> offset + 4 + ?len \<le> length response")
    case True
    then obtain st1 where s: "svcParam ttl response ?key (offset + 4) (offset + 4 + ?len) st = Some st1"
      and r: "svcLoop ttl response (offset + 4 + ?len) st1 = Some (o1, st')"
      using "1.prems" by (auto simp: svcLoop.simps [of ttl response offset] Let_def split: option.splits if_splits)
    have "heapStep st1 st'"
      using True s r by (intro "1.IH" [OF _ refl refl refl refl _ s]) auto
    then show ?thesis
      using heapStep_svcParam [OF s] heapStep_trans by blast
  next
    case False
    then show ?thesis
      using "1.prems" by (auto simp: svcLoop.simps [of ttl response offset] Let_def heap_steps split: if_splits)
  qed
qed

lemma heapStep_answer: "answer minTTL now response options offset st = Some (next, st') \<Longrightarrow> heapStep st st'"
  by (auto simp: answer_def Let_def heap_steps dest: heapStep_svcLoop split: if_splits)

lemma heapStep_answers:
  "answersLoop minTTL now response options k offset st = Some st' \<Longrightarrow> heapStep st st'"
proof (induction minTTL now response options k offset st rule: answersLoop.induct)
  case (2 minTTL now response options k offset st)
  then show ?case
    by (auto simp: Let_def heap_steps split: if_splits option.splits prod.splits
        intro: heapStep_trans [OF heapStep_answer] heapStep_answer)
qed (simp add: heap_steps)

lemma heapStep_GetAnswers: "GetAnswers minTTL now response options st = Some st' \<Longrightarrow> heapStep st st'"
  by (auto simp: GetAnswers_def Let_def heap_steps dest: heapStep_answers split: if_splits option.splits)

subsection \<open>The state\<close>

definition dnsOk :: "dnsState \<Rightarrow> bool" where
  "dnsOk st \<longleftrightarrow> dns_Nose st \<noteq> [] \<and> (\<forall>i. 0 < i \<and> i < length (dns_Nose st) \<longrightarrow> snd (dns_Nose st ! i) \<noteq> None)
    \<and> (\<forall>r \<in> set (dns_Records st). rec_Index r < length (dns_Nose st) \<and> hintsOk (dns_Addresses st, r))
    \<and> (\<forall>name p. dns_Cache st name = Some p \<longrightarrow> p < length (dns_Records st))"

definition extends :: "dnsState \<Rightarrow> dnsState \<Rightarrow> bool" where
  "extends st st' \<longleftrightarrow> (\<exists>lies. dns_Nose st' = dns_Nose st @ lies)
    \<and> (\<forall>name p. dns_Cache st name = Some p \<longrightarrow> dns_Cache st' name = Some p)
    \<and> length (dns_Records st) \<le> length (dns_Records st') \<and> length (dns_Addresses st) \<le> length (dns_Addresses st')"

definition okStep :: "dnsState \<Rightarrow> dnsState \<Rightarrow> bool" where
  "okStep st st' \<longleftrightarrow> extends st st' \<and> dnsOk st'"

lemma extends_refl: "extends st st"
  by (simp add: extends_def)

lemma extends_trans: "extends st st1 \<Longrightarrow> extends st1 st2 \<Longrightarrow> extends st st2"
  by (auto simp: extends_def)

lemma okStep_refl: "dnsOk st \<Longrightarrow> okStep st st"
  by (simp add: okStep_def extends_refl)

lemma okStep_trans: "okStep st st1 \<Longrightarrow> okStep st1 st2 \<Longrightarrow> okStep st st2"
  using extends_trans by (auto simp: okStep_def)

lemma okStep_valid: "okStep st st' \<Longrightarrow> p < length (dns_Records st) \<Longrightarrow> p < length (dns_Records st')"
  by (simp add: okStep_def extends_def)

lemma recordsOf_ok:
  "dnsOk st \<Longrightarrow> p < length (dns_Records st) \<Longrightarrow>
    rec_Index (recordsOf st p) < length (dns_Nose st) \<and> hintsOk (dns_Addresses st, recordsOf st p)"
  by (simp add: dnsOk_def recordsOf_def)

lemma setRecords_ok:
  "dnsOk st \<Longrightarrow> rec_Index r < length (dns_Nose st) \<Longrightarrow> hintsOk (dns_Addresses st, r) \<Longrightarrow> okStep st (setRecords p r st)"
  by (auto simp: okStep_def extends_def dnsOk_def setRecords_def dest!: set_update_subset_insert [THEN subsetD])

lemma hintsOk_more: "hintsOk (h, r) \<Longrightarrow> length h \<le> length h' \<Longrightarrow> hintsOk (h', r)"
  by (auto simp: hintsOk_def intro: order_less_le_trans)

lemma onHeap_ok:
  assumes "dnsOk st" "p < length (dns_Records st)"
    and "heapStep (dns_Addresses st, recordsOf st p) (f (dns_Addresses st, recordsOf st p))"
  shows "okStep st (onHeap p f st)"
proof -
  obtain h r where f: "f (dns_Addresses st, recordsOf st p) = (h, r)"
    by (cases "f (dns_Addresses st, recordsOf st p)")
  have h: "length (dns_Addresses st) \<le> length h" "rec_Index r < length (dns_Nose st)" "hintsOk (h, r)"
    using assms recordsOf_ok [OF assms(1,2)] by (auto simp: f heapStep_def)
  then show ?thesis
    using assms(1) hintsOk_more [OF _ h(1)]
    by (auto simp: onHeap_def f okStep_def extends_def dnsOk_def setRecords_def
        dest!: set_update_subset_insert [THEN subsetD])
qed

lemma addLie_ok:
  assumes "dnsOk st" "p < length (dns_Records st)"
  shows "okStep st (addLie name ob alpn p st)"
proof -
  let ?n = "length (dns_Nose st)"
  have "u32 ?n < Suc ?n"
    by (simp add: u32_def less_Suc_eq_le)
  moreover have "\<forall>i. 0 < i \<and> i < Suc ?n \<longrightarrow> snd ((dns_Nose st @ [(name, Some ob)]) ! i) \<noteq> None"
    using assms(1) by (auto simp: dnsOk_def nth_append less_Suc_eq)
  ultimately show ?thesis
    using assms recordsOf_ok [OF assms]
    by (auto simp: addLie_def AddDNSLie_def okStep_def extends_def dnsOk_def setRecords_def recordsOf_def hintsOk_def
        dest!: set_update_subset_insert [THEN subsetD] intro: less_SucI)
qed

lemma newRecords_ok:
  "dnsOk st \<Longrightarrow> newRecords st = (st', p) \<Longrightarrow> okStep st st' \<and> p < length (dns_Records st') \<and> dns_Cache st' = dns_Cache st"
  by (auto simp: newRecords_def okStep_def extends_def dnsOk_def hintsOk_def dnsRecords0_def less_SucI)

lemma StoreDNSCache_ok:
  "dnsOk st \<Longrightarrow> p < length (dns_Records st) \<Longrightarrow> LoadDNSCache st name = None \<Longrightarrow> okStep st (StoreDNSCache st name p)"
  by (auto simp: StoreDNSCache_def LoadDNSCache_def okStep_def extends_def dnsOk_def)

subsection \<open>Composed operations\<close>

text \<open>Steps from a valid state at a valid pointer; they compose.\<close>

definition stepAt :: "nat \<Rightarrow> dnsState \<Rightarrow> dnsState \<Rightarrow> bool" where
  "stepAt p st st' \<longleftrightarrow> (dnsOk st \<and> p < length (dns_Records st) \<longrightarrow> okStep st st')"

named_theorems ok_steps \<open>operations of the service that keep its state valid\<close>

lemma stepAt_refl [ok_steps]: "stepAt p st st"
  by (simp add: stepAt_def okStep_refl)

lemma stepAt_trans: "stepAt p st st1 \<Longrightarrow> stepAt p st1 st2 \<Longrightarrow> stepAt p st st2"
  using okStep_trans by (auto simp: stepAt_def okStep_valid) (auto simp: okStep_def)

lemma stepAt_onHeap: "(\<And>hr. heapStep hr (f hr)) \<Longrightarrow> stepAt p st (onHeap p f st)"
  by (simp add: stepAt_def onHeap_ok)

lemma stepAt_fallback [ok_steps]:
  "stepAt p st (fallback4 options p st)" "stepAt p st (fallback6 options p st)"
  "stepAt p st (noAnswer4 p st)" "stepAt p st (noAnswer6 p st)"
  by (simp_all add: fallback4_def fallback6_def noAnswer4_def noAnswer6_def ok_steps stepAt_onHeap heap_steps)

lemma stepAt_addLie [ok_steps]: "stepAt p st (addLie name ob alpn p st)"
  by (simp add: stepAt_def addLie_ok)

lemma stepAt_getAnswers: "getAnswersInto env response options p st = Some st' \<Longrightarrow> stepAt p st st'"
  by (auto simp: getAnswersInto_def stepAt_def intro!: onHeap_ok dest: heapStep_GetAnswers)

lemma stepAt_setALPN [ok_steps]: "stepAt p st (setRecords p ((recordsOf st p)\<lparr>rec_ALPN := alpn\<rparr>) st)"
  using recordsOf_ok [of st p] by (auto simp: stepAt_def hintsOk_def intro!: setRecords_ok)

lemma stepAt_expire [ok_steps]:
  "stepAt p st (setRecords p ((recordsOf st p)\<lparr>rec_IPv4Hint := None\<rparr>) st)"
  "stepAt p st (setRecords p ((recordsOf st p)\<lparr>rec_IPv6Hint := None\<rparr>) st)"
  using recordsOf_ok [of st p] by (auto simp: stepAt_def hintsOk_def intro!: setRecords_ok)

lemma stepAt_after:
  assumes "stepAt p st st1"
  shows "stepAt p st (fallback4 options p st1)" "stepAt p st (noAnswer4 p st1)"
    "stepAt p st (fallback6 options p st1)" "stepAt p st (noAnswer6 p st1)"
  using stepAt_trans [OF assms] by (simp_all add: ok_steps)

lemma stepAt_lie_answers:
  "getAnswersInto env response options p (addLie name ob alpn p st) = Some st' \<Longrightarrow> stepAt p st st'"
  using stepAt_trans [OF stepAt_addLie stepAt_getAnswers] .

lemma lookupAnswered_ok:
  "lookupAnswered env ob name qtype options response p st = Some (st', r) \<Longrightarrow> stepAt p st st'"
  by (auto simp: lookupAnswered_def Let_def split: if_splits
      intro!: stepAt_after dest: stepAt_lie_answers stepAt_getAnswers)

lemma lookupServer_ok: "lookupServer env ob name qtype p st = Some (st', r) \<Longrightarrow> stepAt p st st'"
  by (auto simp: lookupServer_def Let_def ok_steps bind_eq_Some_conv split: option.splits if_splits dest: lookupAnswered_ok)
     (auto simp: ok_steps split: sum.splits dest: lookupAnswered_ok)

text \<open>A copy of another valid record.\<close>

lemma setRecords_copy:
  "dnsOk st \<Longrightarrow> q < length (dns_Records st) \<Longrightarrow> okStep st (setRecords p (recordsOf st q) st)"
  using recordsOf_ok [of st q] by (intro setRecords_ok) auto

lemma LoadDNSCache_valid: "dnsOk st \<Longrightarrow> LoadDNSCache st name = Some q \<Longrightarrow> q < length (dns_Records st)"
  by (simp add: dnsOk_def LoadDNSCache_def)

lemma parentLoop_value: "parentLoop m k name o1 = Some (v, i) \<Longrightarrow> m (drop i name) = Some v"
  by (induction m k name o1 rule: parentLoop.induct) (auto split: option.splits)

lemma createRecords_ok:
  assumes "dnsOk st" and "LoadDNSCache st name = None" and "newRecords st = (st1, p)"
  shows "okStep st (StoreDNSCache st1 name p) \<and> p < length (dns_Records (StoreDNSCache st1 name p))"
proof -
  have n: "okStep st st1" "p < length (dns_Records st1)" "LoadDNSCache st1 name = None"
    using newRecords_ok [OF assms(1,3)] assms(2) by (simp_all add: LoadDNSCache_def)
  then have "okStep st1 (StoreDNSCache st1 name p)"
    by (intro StoreDNSCache_ok) (auto simp: okStep_def)
  with n show ?thesis
    using okStep_trans okStep_valid by blast
qed

lemma copyParent_ok:
  assumes "okStep st st1 \<and> p < length (dns_Records st1)" and "LoadDNSCache st1 key = Some q"
  shows "okStep st (setRecords p (recordsOf st1 q) st1) \<and> p < length (dns_Records (setRecords p (recordsOf st1 q) st1))"
  using assms LoadDNSCache_valid [of st1 key q] setRecords_copy [of st1 q p] okStep_trans [of st st1]
  by (auto simp: okStep_def) (simp add: setRecords_def)

lemma loadOrCreate_ok:
  assumes "dnsOk st" and "loadOrCreate env name st = (st', p)"
  shows "okStep st st' \<and> p < length (dns_Records st')"
proof (cases "LoadDNSCache st name")
  case (Some q)
  then show ?thesis
    using assms LoadDNSCache_valid okStep_refl by (auto simp: loadOrCreate_def)
next
  case None
  obtain st1 q where n: "newRecords st = (st1, q)"
    by (cases "newRecords st")
  note c = createRecords_ok [OF assms(1) None n]
  show ?thesis
  proof (cases "parentLoop (LoadDNSCache (StoreDNSCache st1 name q)) (nat (env_Depth env)) name 0")
    case None
    then show ?thesis
      using assms(2) \<open>LoadDNSCache st name = None\<close> n c by (auto simp: loadOrCreate_def)
  next
    case (Some vi)
    then obtain v i where "parentLoop (LoadDNSCache (StoreDNSCache st1 name q)) (nat (env_Depth env)) name 0 = Some (v, i)"
      by (cases vi) auto
    with copyParent_ok [OF c parentLoop_value [OF this]] show ?thesis
      using assms(2) \<open>LoadDNSCache st name = None\<close> n by (auto simp: loadOrCreate_def Let_def)
  qed
qed

lemma stepAt_step: "okStep st st1 \<and> p < length (dns_Records st1) \<Longrightarrow> stepAt p st1 st' \<Longrightarrow> okStep st st'"
  using okStep_trans by (auto simp: stepAt_def okStep_def)

lemma NSLookupType_ok:
  assumes "dnsOk st" and "NSLookupType env ob name qtype st = Some (st', r)"
  shows "okStep st st'"
proof -
  obtain st1 p where l: "loadOrCreate env name st = (st1, p)"
    by (cases "loadOrCreate env name st")
  have "stepAt p st1 st'"
    using assms(2) by (auto simp: NSLookupType_def l Let_def ok_steps split: if_splits dest: lookupServer_ok)
  then show ?thesis
    using loadOrCreate_ok [OF assms(1) l] stepAt_step by blast
qed

lemma NSLookupType_two:
  "dnsOk st \<Longrightarrow> NSLookupType env ob name q st = Some (st1, r1) \<Longrightarrow>
    NSLookupType env ob name q' st1 = Some (st', r2) \<Longrightarrow> okStep st st'"
  using NSLookupType_ok [of st env ob name q st1 r1] NSLookupType_ok [of st1 env ob name q' st' r2] okStep_trans
  by (auto simp: okStep_def)

lemma NSLookup_ok: "dnsOk st \<Longrightarrow> NSLookup env ob name qtype st = Some (st', r) \<Longrightarrow> okStep st st'"
  by (auto simp: NSLookup_def Let_def bind_eq_Some_conv split: if_splits intro: NSLookupType_ok NSLookupType_two)

lemma requestRecords_ok:
  assumes "dnsOk st" and "requestRecords env cache name st = (st', p, ob)"
  shows "okStep st st' \<and> p < length (dns_Records st')"
proof (cases "cache \<and> LoadDNSCache st name = None")
  case True
  obtain st1 q where n: "newRecords st = (st1, q)"
    by (cases "newRecords st")
  obtain ob' o1 where g: "GetOutbound (net_Profile (env_Net env)) (net_Default (env_Net env)) (env_Depth env) name = (ob', o1)"
    by (cases "GetOutbound (net_Profile (env_Net env)) (net_Default (env_Net env)) (env_Depth env) name")
  note c = createRecords_ok [OF assms(1) conjunct2 [OF True] n]
  show ?thesis
    using assms(2) True n g c copyParent_ok [OF c]
    by (auto simp: requestRecords_def Let_def split: option.splits)
next
  case False
  then show ?thesis
    using assms LoadDNSCache_valid okStep_refl newRecords_ok
    by (auto simp: requestRecords_def Let_def split: option.splits if_splits prod.splits)
qed

lemma answerFromCache_ok: "answerFromCache env qtype p st = Inr st' \<Longrightarrow> stepAt p st st'"
  by (auto simp: answerFromCache_def Let_def ok_steps split: if_splits option.splits)

lemma respond_state: "respond env index request qtype ttl p st = Some (st', r) \<Longrightarrow> st' = st"
  by (auto simp: respond_def)

lemma answerFromServer_ok:
  "answerFromServer env request qtype options response p st = Some (st', r) \<Longrightarrow> stepAt p st st'"
  by (auto simp: answerFromServer_def Let_def ok_steps bind_eq_Some_conv split: if_splits
      intro!: stepAt_after dest: stepAt_getAnswers dest!: respond_state)

lemma askServer_ok: "askServer env ob request name qtype p st = Some (st', r) \<Longrightarrow> stepAt p st st'"
  by (auto simp: askServer_def Let_def ok_steps bind_eq_Some_conv split: option.splits if_splits
      dest!: respond_state)
     (auto simp: ok_steps split: sum.splits dest: answerFromServer_ok)

lemma requestOutbound_ok:
  assumes "requestOutbound env found request name qtype p st = Some (st', r)"
  shows "stepAt p st st'"
proof -
  let ?found = "case found of Some ob \<Rightarrow> Some ob
    | None \<Rightarrow> fst (GetOutbound (net_Profile (env_Net env)) (net_Default (env_Net env)) (env_Depth env) name)"
  show ?thesis
  proof (cases ?found)
    case None
    then show ?thesis
      using assms by (auto simp: requestOutbound_def ok_steps dest!: respond_state)
  next
    case (Some ob)
    define st1 where "st1 = setRecords p ((recordsOf st p)\<lparr>rec_ALPN := ob_Hint ob AND HINT_DNS\<rparr>) st"
    have "stepAt p st1 st'"
      using assms Some
      by (auto simp: requestOutbound_def Let_def ok_steps st1_def [symmetric] split: if_splits dest!: respond_state
          dest: askServer_ok)
    then show ?thesis
      using stepAt_trans [OF stepAt_setALPN] unfolding st1_def by blast
  qed
qed

lemma NSRequest_ok:
  assumes "dnsOk st" and "NSRequest env request cache st = Some (st', r)"
  shows "okStep st st'"
proof -
  obtain name qtype e where q: "GetQName request = (name, qtype, e)"
    by (cases "GetQName request") auto
  obtain st1 p ob where l: "requestRecords env cache name st = (st1, p, ob)"
    by (cases "requestRecords env cache name st") auto
  have "st' = st \<or> stepAt p st1 st'"
    using assms(2)
    by (auto simp: NSRequest_def q l Let_def ok_steps split: if_splits sum.splits dest!: respond_state
        dest: stepAt_trans [OF answerFromCache_ok requestOutbound_ok])
  then show ?thesis
    using okStep_refl [OF assms(1)] stepAt_step [OF requestRecords_ok [OF assms(1) l]] by blast
qed

end
