(* ===== verification/Profile_Load_Properties.thy ===== *)
theory Profile_Load_Properties
  imports Profile_Load Dns_Invariant "HOL-Library.Multiset"
begin

text \<open>
  Loading the configuration files: the state of the name service stays valid, whatever the
  file holds; the ranges end up in the order that the binary search needs, so that an
  address finds the outbound its network is listed under; a well-formed profile does not
  panic.
\<close>

unbundle bit_operations_syntax

subsection \<open>The name service\<close>

text \<open>A valid state that keeps the fake addresses. Unlike a lookup, a load may redefine a name.\<close>

definition dnsGrows :: "dnsState \<Rightarrow> dnsState \<Rightarrow> bool" where
  "dnsGrows st st' \<longleftrightarrow> (dnsOk st \<longrightarrow> dnsOk st' \<and> (\<exists>lies. dns_Nose st' = dns_Nose st @ lies)
    \<and> length (dns_Records st) \<le> length (dns_Records st'))"

named_theorems grows \<open>operations that keep the state of the name service valid\<close>

lemma dnsGrows_refl [grows]: "dnsGrows st st"
  by (simp add: dnsGrows_def)

lemma dnsGrows_trans: "dnsGrows st st1 \<Longrightarrow> dnsGrows st1 st2 \<Longrightarrow> dnsGrows st st2"
  by (force simp: dnsGrows_def)

lemma okStep_grows: "(dnsOk st \<Longrightarrow> okStep st st') \<Longrightarrow> dnsGrows st st'"
  by (auto simp: dnsGrows_def okStep_def extends_def)

lemma stepAt_grows: "stepAt p st st' \<Longrightarrow> p < length (dns_Records st) \<Longrightarrow> dnsGrows st st'"
  by (auto simp: stepAt_def intro: okStep_grows)

lemma dnsGrows_store: "p < length (dns_Records st) \<Longrightarrow> dnsGrows st (StoreDNSCache st name p)"
  by (auto simp: dnsGrows_def StoreDNSCache_def dnsOk_def)

lemma dnsGrows_new: "newRecords st = (st', p) \<Longrightarrow> dnsGrows st st' \<and> p < length (dns_Records st')"
  using newRecords_ok [of st st' p] by (auto simp: newRecords_def intro: okStep_grows)

lemma heapStep_appends: "heapStep hr (fold (appendAddress a) ips hr)"
proof (induction ips arbitrary: hr)
  case (Cons ip ips)
  have "heapStep hr (appendAddress a ip hr)"
    by (rule heapStep_append)
  from heapStep_trans [OF this Cons.IH] show ?case by simp
qed (simp add: heap_steps)

lemma heapStep_extend: "heapStep hr (extendIPv4 ips hr)" "heapStep hr (extendIPv6 ips hr)"
  by (auto simp: extendIPv4_def extendIPv6_def Let_def heap_steps heapStep_appends
      intro: heapStep_trans [OF heapStep_new(1) heapStep_appends] heapStep_trans [OF heapStep_new(2) heapStep_appends]
      split: option.splits)

lemma loadAddress_step: "stepAt p st (loadAddress p addr st)"
proof -
  have h: "stepAt p st (onHeap p (extendIPv4 ips) st)" "stepAt p st (onHeap p (extendIPv6 ips) st)" for ips st
    by (simp_all add: stepAt_onHeap heapStep_extend)
  have c: "stepAt p st (setRecords p ((recordsOf st p)\<lparr>rec_CName := addr\<rparr>) st)"
    using recordsOf_ok [of st p] by (auto simp: stepAt_def hintsOk_def intro!: setRecords_ok)
  show ?thesis
    by (auto simp: loadAddress_def Let_def h c ok_steps intro: stepAt_trans [OF h(1) h(2)] split: option.splits)
qed

lemma stepAt_fold: "(\<And>x st. stepAt p st (f x st)) \<Longrightarrow> stepAt p st (fold f xs st)"
  by (induction xs arbitrary: st) (auto simp: ok_steps intro: stepAt_trans)

text \<open>Steps at new records, which are then stored under a name.\<close>

lemma stored_grows:
  assumes "newRecords st = (st1, p)" and "stepAt p st1 st2"
  shows "dnsGrows st (StoreDNSCache st2 name p)"
proof (cases "dnsOk st")
  case True
  note n = newRecords_ok [OF True assms(1)]
  then have "okStep st1 st2"
    using assms(2) by (simp add: stepAt_def okStep_def)
  with n have s: "okStep st st2" and p: "p < length (dns_Records st2)"
    using okStep_trans okStep_valid by blast+
  then show ?thesis
    by (intro dnsGrows_trans [OF okStep_grows dnsGrows_store])
qed (simp add: dnsGrows_def)

lemma loadAddresses_grows: "dnsGrows (ld_Dns st) (ld_Dns (loadAddresses name addrs ob st))"
proof -
  obtain dns p where n: "newRecords (ld_Dns st) = (dns, p)"
    by (cases "newRecords (ld_Dns st)")
  have "stepAt p dns (fold (loadAddress p) (splitByte 44 addrs)
      (if ob_Hint ob AND HINT_FAKEIP \<noteq> 0 then addLie name ob (ob_Hint ob AND HINT_DNS) p dns else dns))"
    by (rule stepAt_trans [OF _ stepAt_fold [OF loadAddress_step]]) (simp add: ok_steps)
  then show ?thesis
    by (simp add: loadAddresses_def n Let_def setCache_def setDomain_def stored_grows [OF n])
qed

lemma setRecords_grows:
  "p < length (dns_Records st) \<Longrightarrow> rec_Index r = rec_Index (recordsOf st p) \<Longrightarrow> rec_IPv4Hint r = rec_IPv4Hint (recordsOf st p) \<Longrightarrow>
    rec_IPv6Hint r = rec_IPv6Hint (recordsOf st p) \<Longrightarrow> dnsGrows st (setRecords p r st)"
  using recordsOf_ok [of st p] by (auto simp: hintsOk_def intro!: okStep_grows setRecords_ok)

lemma dnsGrows_cached:
  "LoadDNSCache st name = Some p \<Longrightarrow> (p < length (dns_Records st) \<Longrightarrow> dnsGrows st st') \<Longrightarrow> dnsGrows st st'"
  using LoadDNSCache_valid [of st name p] by (cases "dnsOk st") (auto simp: dnsGrows_def)

lemma loadAttribute_grows: "dnsGrows (ld_Dns st) (ld_Dns (loadAttribute key val st))"
  by (auto simp: loadAttribute_def Let_def dnsGrows_refl split: list.split option.split)
     (erule dnsGrows_cached, simp add: setRecords_grows)+

text \<open>The state in which a line leaves the load, if it does not panic.\<close>

fun resultState :: "loadResult \<Rightarrow> loadState option" where
  "resultState (Next st) = Some st"
| "resultState (Failed st) = Some st"
| "resultState LoadPanic = None"

lemma setDomain_simps [simp]:
  "ld_Dns (setDomain name ob st) = ld_Dns st" "ld_Current (setDomain name ob st) = ld_Current st"
  "IPv4Ranges (ld_Profile (setDomain name ob st)) = IPv4Ranges (ld_Profile st)"
  "IPv6Ranges (ld_Profile (setDomain name ob st)) = IPv6Ranges (ld_Profile st)"
  by (simp_all add: setDomain_def)

lemma setCache_simps [simp]:
  "ld_Dns (setCache name p st) = StoreDNSCache (ld_Dns st) name p" "ld_Current (setCache name p st) = ld_Current st"
  "ld_Profile (setCache name p st) = ld_Profile st"
  by (simp_all add: setCache_def)

lemma loadQuote_grows:
  "resultState (loadQuote name val st) = Some st' \<Longrightarrow> dnsGrows (ld_Dns st) (ld_Dns st')"
  by (auto simp: loadQuote_def Let_def dnsGrows_refl split: if_splits option.splits)
     (erule dnsGrows_cached, simp add: dnsGrows_store)+

lemma loadName_grows:
  assumes "resultState (loadName name st) = Some st'"
  shows "dnsGrows (ld_Dns st) (ld_Dns st')"
  using assms stored_grows [OF _ stepAt_refl]
  by (auto simp: loadName_def Let_def dnsGrows_refl split: option.splits if_splits prod.splits)

lemma loadLine_grows:
  assumes "resultState (loadLine env line st) = Some st'"
  shows "dnsGrows (ld_Dns st) (ld_Dns st')"
  using assms loadQuote_grows loadName_grows
  by (auto simp: loadLine_def loadPair_def loadSingle_def loadRange_def Let_def dnsGrows_refl loadAddresses_grows loadAttribute_grows
      split: if_splits option.splits list.splits prod.splits)

lemma loadLines_grows:
  "resultState (loadLines env lines st) = Some st' \<Longrightarrow> dnsGrows (ld_Dns st) (ld_Dns st')"
proof (induction lines arbitrary: st)
  case (Cons line lines)
  show ?case
  proof (cases "loadLine env line st")
    case (Next st1)
    have "dnsGrows (ld_Dns st) (ld_Dns st1)"
      using loadLine_grows [of env line st] Next by simp
    with Cons Next show ?thesis
      by (auto intro: dnsGrows_trans)
  next
    case (Failed st1)
    then show ?thesis
      using Cons.prems loadLine_grows [of env line st] by simp
  next
    case LoadPanic
    then show ?thesis
      using Cons.prems by simp
  qed
qed (simp add: dnsGrows_refl)

subsection \<open>The ranges\<close>

text \<open>The outbound a heading selects, and the one selected after some lines.\<close>

definition lineKeys :: "gostr \<Rightarrow> gostr list" where
  "lineKeys line = splitByte2 61 (hd (splitByte2 35 line))"

definition heading :: "loadEnv \<Rightarrow> gostr \<Rightarrow> outbound option" where
  "heading env line =
    (case lineKeys line of
       [key] \<Rightarrow> if line \<noteq> [] \<and> hd line \<noteq> 35 \<and> hd key = 91 then le_Outbounds env (take (length key - 2) (drop 1 key)) else None
     | _ \<Rightarrow> None)"

definition selected :: "loadEnv \<Rightarrow> outbound option \<Rightarrow> gostr list \<Rightarrow> outbound option" where
  "selected env ob lines = foldl (\<lambda>c line. case heading env line of Some ob \<Rightarrow> Some ob | None \<Rightarrow> c) ob lines"

text \<open>A line that is a network and nothing else.\<close>

definition networkLine :: "loadEnv \<Rightarrow> gostr \<Rightarrow> bytes \<Rightarrow> nat \<Rightarrow> bool" where
  "networkLine env line ip bits \<longleftrightarrow> line \<noteq> [] \<and> hd line \<noteq> 91 \<and> 35 \<notin> set line \<and> 61 \<notin> set line
    \<and> le_Resolve env line = None \<and> ParsePrefix line = Some (ip, bits)"

lemma splitByte2_cases: "(\<exists>x. splitByte2 b s = [x]) \<or> (\<exists>x y. splitByte2 b s = [x, y])"
  by (auto simp: splitByte2_def split: option.split)

lemma splitByte2_none: "b \<notin> set s \<Longrightarrow> splitByte2 b s = [s]"
  using indexByte_None [of b s] by (simp add: splitByte2_def)

lemma loadAddresses_rest:
  "ld_Current (loadAddresses name addrs ob st) = ld_Current st"
  "IPv4Ranges (ld_Profile (loadAddresses name addrs ob st)) = IPv4Ranges (ld_Profile st)"
  "IPv6Ranges (ld_Profile (loadAddresses name addrs ob st)) = IPv6Ranges (ld_Profile st)"
  by (simp_all add: loadAddresses_def Let_def split: prod.split)

lemma loadAttribute_rest:
  "ld_Current (loadAttribute key val st) = ld_Current st" "ld_Profile (loadAttribute key val st) = ld_Profile st"
  by (auto simp: loadAttribute_def Let_def split: list.split option.split)

lemma loadPair_rest:
  assumes "loadPair key val st = Next st'"
  shows "ld_Current st' = ld_Current st \<and> IPv4Ranges (ld_Profile st') = IPv4Ranges (ld_Profile st)
    \<and> IPv6Ranges (ld_Profile st') = IPv6Ranges (ld_Profile st)"
  using assms by (auto simp: loadPair_def loadQuote_def Let_def loadAddresses_rest loadAttribute_rest
      split: if_splits option.splits)

lemma loadSingle_rest:
  assumes "loadSingle env key st = Next st'"
  shows "ld_Current st' = (if hd key = 91 then case le_Outbounds env (take (length key - 2) (drop 1 key)) of
        Some ob \<Rightarrow> Some ob | None \<Rightarrow> ld_Current st else ld_Current st)
    \<and> (\<exists>rs. IPv4Ranges (ld_Profile st') = IPv4Ranges (ld_Profile st) @ rs)
    \<and> (\<exists>rs. IPv6Ranges (ld_Profile st') = IPv6Ranges (ld_Profile st) @ rs)"
  using assms by (auto simp: loadSingle_def loadRange_def loadName_def Let_def split: if_splits option.splits prod.splits)

lemma loadLine_rest:
  assumes "loadLine env line st = Next st'"
  shows "ld_Current st' = (case heading env line of Some ob \<Rightarrow> Some ob | None \<Rightarrow> ld_Current st)
    \<and> (\<exists>rs. IPv4Ranges (ld_Profile st') = IPv4Ranges (ld_Profile st) @ rs)
    \<and> (\<exists>rs. IPv6Ranges (ld_Profile st') = IPv6Ranges (ld_Profile st) @ rs)"
proof (cases "line = [] \<or> hd line = 35")
  case False
  consider (single) key where "lineKeys line = [key]" | (pair) key val where "lineKeys line = [key, val]"
    using splitByte2_cases unfolding lineKeys_def by blast
  then show ?thesis
  proof cases
    case single
    with assms False have "loadSingle env key st = Next st'"
      by (simp add: loadLine_def lineKeys_def)
    then show ?thesis
      using loadSingle_rest [of env key st st'] single False by (auto simp: heading_def split: option.split)
  next
    case pair
    with assms False have "loadPair key val st = Next st'"
      by (simp add: loadLine_def lineKeys_def)
    then show ?thesis
      using loadPair_rest pair by (simp add: heading_def)
  qed
qed (use assms in \<open>auto simp: loadLine_def heading_def split: list.split\<close>)

lemma loadLines_ranges:
  "loadLines env lines st = Next st' \<Longrightarrow> ld_Current st' = selected env (ld_Current st) lines
    \<and> (\<exists>rs. IPv4Ranges (ld_Profile st') = IPv4Ranges (ld_Profile st) @ rs)
    \<and> (\<exists>rs. IPv6Ranges (ld_Profile st') = IPv6Ranges (ld_Profile st) @ rs)"
proof (induction lines arbitrary: st)
  case (Cons line lines)
  then obtain st1 where st1: "loadLine env line st = Next st1" "loadLines env lines st1 = Next st'"
    by (auto split: loadResult.splits)
  with Cons.IH [OF st1(2)] loadLine_rest [OF st1(1)] show ?case
    by (auto simp: selected_def)
qed (simp add: selected_def)


lemma loadLine_network: "networkLine env line ip bits \<Longrightarrow> hd line \<noteq> 35 \<Longrightarrow> loadLine env line st = loadRange ip bits st"
  by (simp add: networkLine_def loadLine_def splitByte2_none loadSingle_def)







lemma length_CIDRMask [simp]: "length (CIDRMask n (8 * k)) = k"
  by (simp add: CIDRMask_def)












subsection \<open>Errors\<close>

text \<open>
  How a line ends when an outbound is selected: the two numbers can be malformed, which is an
  error; a heading or a reference without its second bracket's place, and an IPv6 network of
  more than 64 bits, are panics. It does not depend on the state.
\<close>

definition pairFails :: "gostr \<Rightarrow> gostr \<Rightarrow> bool" where
  "pairFails key val \<longleftrightarrow> (key = str ''dns-min-ttl'' \<or> key = str ''subdomain'') \<and> Atoi val = None"

definition pairPanics :: "gostr \<Rightarrow> gostr \<Rightarrow> bool" where
  "pairPanics key val \<longleftrightarrow> key \<noteq> str ''dns-min-ttl'' \<and> key \<noteq> str ''subdomain'' \<and> \<not> hasSuffix key [93] \<and> val = [91]"

definition singlePanics :: "loadEnv \<Rightarrow> gostr \<Rightarrow> bool" where
  "singlePanics env key \<longleftrightarrow> key = [91] \<or> hd key \<noteq> 91 \<and> le_Resolve env key = None
    \<and> (case ParsePrefix key of Some (ip, bits) \<Rightarrow> length ip \<noteq> 4 \<and> bits > 64 | None \<Rightarrow> False)"

definition lineFails :: "gostr \<Rightarrow> bool" where
  "lineFails line \<longleftrightarrow> line \<noteq> [] \<and> hd line \<noteq> 35 \<and> (case lineKeys line of [key, val] \<Rightarrow> pairFails key val | _ \<Rightarrow> False)"

definition linePanics :: "loadEnv \<Rightarrow> gostr \<Rightarrow> bool" where
  "linePanics env line \<longleftrightarrow> line \<noteq> [] \<and> hd line \<noteq> 35
    \<and> (case lineKeys line of [key] \<Rightarrow> singlePanics env key | [key, val] \<Rightarrow> pairPanics key val | _ \<Rightarrow> False)"

lemma str_head: "hasPrefix s [b] \<longleftrightarrow> s \<noteq> [] \<and> hd s = b"
  by (cases s) (auto simp: hasPrefix_def)

lemma short_head: "s \<noteq> [] \<Longrightarrow> hd s = b \<Longrightarrow> length s < 2 \<longleftrightarrow> s = [b]"
  by (cases s) auto

lemma loadPair_result:
  assumes "ld_Current st \<noteq> None"
  shows "(loadPair key val st = LoadPanic) = pairPanics key val" "(\<exists>st'. loadPair key val st = Failed st') = pairFails key val"
proof -
  have "length val < 2 \<longleftrightarrow> val = [91]" if "hasPrefix val [91]"
    using that by (intro short_head) (auto simp: str_head)
  then show "(loadPair key val st = LoadPanic) = pairPanics key val" "(\<exists>st'. loadPair key val st = Failed st') = pairFails key val"
    using assms by (auto simp: loadPair_def pairPanics_def pairFails_def loadQuote_def Let_def str_head split: option.splits)
qed

lemma loadSingle_result:
  assumes "ld_Current st \<noteq> None" and "key \<noteq> []"
  shows "(loadSingle env key st = LoadPanic) = singlePanics env key" "loadSingle env key st \<noteq> Failed st'"
  using assms short_head [of key 91]
  by (auto simp: loadSingle_def singlePanics_def loadRange_def loadName_def Let_def split: option.splits prod.splits)

lemma lineKeys_single:
  assumes "line \<noteq> []" "hd line \<noteq> 35" "lineKeys line = [key]"
  shows "key \<noteq> []"
proof -
  obtain c cs where line: "line = c # cs" "c \<noteq> 35"
    using assms(1,2) by (cases line) auto
  then obtain cs' where "hd (splitByte2 35 line) = c # cs'"
    by (cases "indexByte 35 cs") (auto simp: splitByte2_def)
  with assms(3) show ?thesis
    by (auto simp: lineKeys_def splitByte2_def split: option.splits)
qed

lemma loadLine_result:
  assumes "ld_Current st \<noteq> None"
  shows "(loadLine env line st = LoadPanic) = linePanics env line" "(\<exists>st'. loadLine env line st = Failed st') = lineFails line"
proof -
  consider (skip) "line = [] \<or> hd line = 35"
    | (single) key where "line \<noteq> []" "hd line \<noteq> 35" "lineKeys line = [key]"
    | (pair) key val where "line \<noteq> []" "hd line \<noteq> 35" "lineKeys line = [key, val]"
    using splitByte2_cases unfolding lineKeys_def by blast
  then have "(loadLine env line st = LoadPanic) = linePanics env line \<and> (\<exists>st'. loadLine env line st = Failed st') = lineFails line"
  proof cases
    case skip
    then show ?thesis
      by (auto simp: loadLine_def linePanics_def lineFails_def)
  next
    case single
    with loadSingle_result [OF assms lineKeys_single [OF single]] show ?thesis
      by (auto simp: loadLine_def linePanics_def lineFails_def lineKeys_def)
  next
    case pair
    with loadPair_result [OF assms] show ?thesis
      by (simp add: loadLine_def linePanics_def lineFails_def lineKeys_def)
  qed
  then show "(loadLine env line st = LoadPanic) = linePanics env line" "(\<exists>st'. loadLine env line st = Failed st') = lineFails line"
    by blast+
qed

text \<open>The first line that does not go on decides.\<close>

definition badLine :: "loadEnv \<Rightarrow> gostr \<Rightarrow> bool" where
  "badLine env line \<longleftrightarrow> linePanics env line \<or> lineFails line"

lemma loadLines_result:
  "ld_Current st \<noteq> None \<Longrightarrow>
    (loadLines env lines st = LoadPanic \<longleftrightarrow> (\<exists>line. find (badLine env) lines = Some line \<and> linePanics env line))
    \<and> ((\<exists>st'. loadLines env lines st = Failed st') \<longleftrightarrow> (\<exists>line. find (badLine env) lines = Some line \<and> lineFails line))"
proof (induction lines arbitrary: st)
  case (Cons line lines)
  note r = loadLine_result [OF Cons.prems, of env line]
  show ?case
  proof (cases "loadLine env line st")
    case (Next st1)
    then have "ld_Current st1 \<noteq> None"
      using loadLine_rest [OF Next] Cons.prems by (auto split: option.split)
    moreover have "\<not> badLine env line"
      using r Next by (auto simp: badLine_def)
    ultimately show ?thesis
      using Cons.IH Next by simp
  qed (use r in \<open>auto simp: badLine_def\<close>)
qed simp

subsection \<open>The properties\<close>

text \<open>Loading a profile, whatever it holds, keeps the state of the name service valid and
  every fake address handed out before, and when it gets to the end the ranges are the old
  and the new ones in ascending order.\<close>

theorem profile_valid:
  assumes "dnsOk (ld_Dns st)" and "resultState (LoadProfile env defaultOutbound content st) = Some st'"
  shows "dnsOk (ld_Dns st') \<and> (\<exists>lies. dns_Nose (ld_Dns st') = dns_Nose (ld_Dns st) @ lies)
    \<and> (LoadProfile env defaultOutbound content st = Next st' \<longrightarrow>
        sorted (map rng_Start (IPv4Ranges (ld_Profile st'))) \<and> sorted (map rng_Start (IPv6Ranges (ld_Profile st')))
        \<and> (\<exists>rs. mset (IPv4Ranges (ld_Profile st')) = mset (IPv4Ranges (ld_Profile st)) + mset rs))"
proof -
  let ?r = "loadLines env (readLines content) (st\<lparr>ld_Current := defaultOutbound\<rparr>)"
  obtain st1 where st1: "resultState ?r = Some st1" "ld_Dns st' = ld_Dns st1"
      "LoadProfile env defaultOutbound content st = Next st' \<Longrightarrow>
        ?r = Next st1 \<and> ld_Profile st' = sortRanges (ld_Profile st1)"
    using assms(2) by (cases ?r) (auto simp: LoadProfile_def)
  have "dnsGrows (ld_Dns st) (ld_Dns st1)"
    using loadLines_grows [OF st1(1)] by simp
  moreover have "LoadProfile env defaultOutbound content st = Next st' \<Longrightarrow>
      \<exists>rs. mset (IPv4Ranges (ld_Profile st')) = mset (IPv4Ranges (ld_Profile st)) + mset rs"
    using st1(3) loadLines_ranges [of env "readLines content" "st\<lparr>ld_Current := defaultOutbound\<rparr>" st1]
    by (auto simp: sortRanges_def)
  ultimately show ?thesis
    using assms(1) st1(2,3) by (simp add: dnsGrows_def sortRanges_def)
qed

text \<open>C33: A profile with a default outbound panics or fails exactly when the first line that does
  not go on is one that does so: a lone bracket as heading or as reference, or an IPv6 network
  of more than 64 bits; or a malformed number.\<close>

theorem profile_errors:
  "(LoadProfile env (Some ob) content st = LoadPanic
      \<longleftrightarrow> (\<exists>line. find (badLine env) (readLines content) = Some line \<and> linePanics env line))
    \<and> ((\<exists>st'. LoadProfile env (Some ob) content st = Failed st')
      \<longleftrightarrow> (\<exists>line. find (badLine env) (readLines content) = Some line \<and> lineFails line))"
proof -
  let ?r = "loadLines env (readLines content) (st\<lparr>ld_Current := Some ob\<rparr>)"
  have "LoadProfile env (Some ob) content st = LoadPanic \<longleftrightarrow> ?r = LoadPanic"
    "(\<exists>st'. LoadProfile env (Some ob) content st = Failed st') \<longleftrightarrow> (\<exists>st'. ?r = Failed st')"
    by (cases ?r; simp add: LoadProfile_def)+
  then show ?thesis
    using loadLines_result [of "st\<lparr>ld_Current := Some ob\<rparr>" env "readLines content"] by simp
qed


definition sampleLoad :: loadState where
  "sampleLoad = \<lparr>ld_Dns = dnsState0, ld_Profile = \<lparr>DomainMap = Map.empty, IPv4Ranges = [], IPv6Ranges = []\<rparr>,
    ld_MinTTL = 0, ld_Depth = 2, ld_Current = None\<rparr>"

definition sampleOutbound :: outbound where
  "sampleOutbound = Outbound [] [] HINT_IPV4 0 0 0 SOCKS5 (str ''10.0.0.1:1080'') [] 65535 None"

definition sampleLoadEnv :: loadEnv where
  "sampleLoadEnv = \<lparr>le_Outbounds = [str ''p'' \<mapsto> sampleOutbound], le_Resolve = (\<lambda>_. None)\<rparr>"

definition sampleNetworks :: bytes where
  "sampleNetworks = str ''10.0.0.0/8'' @ [10] @ str ''[p]'' @ [10] @ str ''1.2.3.0/24'' @ [10] @ str ''fd00::/16'' @ [10]"

definition sampleNetwork6 :: bytes where
  "sampleNetwork6 = [253, 0, 0, 0, 0, 0, 0, 0, 0, 0, 0, 0, 0, 0, 0, 0]"


definition sampleLoaded :: loadState where
  "sampleLoaded = sampleLoad\<lparr>ld_Current := Some sampleOutbound, ld_Profile := \<lparr>DomainMap = Map.empty,
    IPv4Ranges = [\<lparr>rng_Start = 16909056, rng_End = 16909312, rng_Interface = Some sampleOutbound\<rparr>,
      \<lparr>rng_Start = 167772160, rng_End = 184549376, rng_Interface = None\<rparr>],
    IPv6Ranges = [\<lparr>rng_Start = 18230571291595767808, rng_End = 18230852766572478464, rng_Interface = Some sampleOutbound\<rparr>]\<rparr>\<rparr>"

lemma sampleNetworks_lines: "readLines sampleNetworks = [str ''10.0.0.0/8'', str ''[p]'', str ''1.2.3.0/24'', str ''fd00::/16'']"
  by (simp add: sampleNetworks_def readLines.simps str_def readBuffer_def dropCR_def)

lemma sampleNetworks_parse:
  "ParsePrefix (str ''10.0.0.0/8'') = Some ([10, 0, 0, 0], 8)" "ParsePrefix (str ''1.2.3.0/24'') = Some ([1, 2, 3, 0], 24)"
  by (simp_all add: ParsePrefix_def lastIndexByte_def str_def ParseAddr_def isDigit_def decimal_def CIDRMask_def upt_rec)

lemma sampleNetworks_parse6: "ParsePrefix (str ''fd00::/16'') = Some (sampleNetwork6, 16)"
proof -
  have "be_bytes (Suc (Suc 0)) 64768 = [253, 0]"
    by simp
  then have "be_bytes 2 64768 = [253, 0]"
    by (simp only: numeral_2_eq_2)
  then have "ipv6Groups (Suc 7) [102, 100, 48, 48, 58, 58] [] None = Some ([253, 0], Some 2, [])"
    unfolding ipv6Groups.simps by (simp add: hexValue_def del: be_bytes.simps)
  moreover have "replicate 14 0 = [0, 0, 0, 0, 0, 0, 0, 0, 0, 0, 0, 0, 0, 0 :: byte]"
    by (simp add: numeral_eq_Suc)
  ultimately have "parseIPv6 [102, 100, 48, 48, 58, 58] = Some (sampleNetwork6, [])"
    by (simp add: parseIPv6_def hasPrefix_def sampleNetwork6_def del: ipv6Groups.simps)
  then show ?thesis
    by (simp add: ParsePrefix_def lastIndexByte_def str_def ParseAddr_def isDigit_def decimal_def CIDRMask_def upt_rec sampleNetwork6_def)
qed

lemma sampleNetworks_network:
  "networkLine sampleLoadEnv (str ''10.0.0.0/8'') [10, 0, 0, 0] 8" "networkLine sampleLoadEnv (str ''1.2.3.0/24'') [1, 2, 3, 0] 24"
  "networkLine sampleLoadEnv (str ''fd00::/16'') sampleNetwork6 16"
  by (simp_all add: networkLine_def sampleNetworks_parse sampleNetworks_parse6 sampleLoadEnv_def) (simp_all add: str_def)

lemma sample_heading: "loadLine sampleLoadEnv (str ''[p]'') st = Next (st\<lparr>ld_Current := Some sampleOutbound\<rparr>)"
  by (simp add: loadLine_def loadSingle_def str_def splitByte2_def sampleLoadEnv_def)

lemma sample_networks:
  "loadLine sampleLoadEnv (str ''10.0.0.0/8'') st = loadRange [10, 0, 0, 0] 8 st"
  "loadLine sampleLoadEnv (str ''1.2.3.0/24'') st = loadRange [1, 2, 3, 0] 24 st"
  "loadLine sampleLoadEnv (str ''fd00::/16'') st = loadRange sampleNetwork6 16 st"
  by (rule sampleNetworks_network [THEN loadLine_network], simp add: str_def)+

lemma sample_load: "LoadProfile sampleLoadEnv None sampleNetworks sampleLoad = Next sampleLoaded"
  by (simp add: LoadProfile_def sampleNetworks_lines sample_heading sample_networks loadRange_def be_nat_def u32_def u64_def sortRanges_def
      sampleLoad_def sampleLoaded_def sampleNetwork6_def)



theorem profile_valid_witness:
  "dnsOk (ld_Dns sampleLoaded) \<and> (\<exists>lies. dns_Nose (ld_Dns sampleLoaded) = dns_Nose dnsState0 @ lies)
    \<and> sorted (map rng_Start (IPv4Ranges (ld_Profile sampleLoaded)))"
proof -
  have "dnsOk dnsState0"
    by (auto simp: dnsOk_def dnsState0_def)
  with profile_valid [of sampleLoad sampleLoadEnv None sampleNetworks sampleLoaded] sample_load show ?thesis
    by (simp add: sampleLoad_def)
qed

end
