(* ===== verification/Profile_Hosts.thy ===== *)
theory Profile_Hosts
  imports Profile_Load_Properties
begin

text \<open>
  What a hosts file does to the name service: it never touches what is cached already, and a
  name of the file resolves to its address from then on.
\<close>

unbundle bit_operations_syntax

subsection \<open>Steps that leave the older state alone\<close>

text \<open>From a state with \<open>n\<close> records on, only newer records and the name itself change.\<close>

definition leaves :: "nat \<Rightarrow> gostr \<Rightarrow> dnsState \<Rightarrow> dnsState \<Rightarrow> bool" where
  "leaves n name st st' \<longleftrightarrow> n \<le> length (dns_Records st) \<and> length (dns_Records st) \<le> length (dns_Records st')
    \<and> (\<forall>p < n. recordsOf st' p = recordsOf st p)
    \<and> (\<forall>key. key \<noteq> name \<longrightarrow> LoadDNSCache st' key = LoadDNSCache st key)
    \<and> (\<exists>as. dns_Addresses st' = dns_Addresses st @ as) \<and> (\<exists>ls. dns_Nose st' = dns_Nose st @ ls)"

lemma leaves_refl: "n \<le> length (dns_Records st) \<Longrightarrow> leaves n name st st"
  by (simp add: leaves_def)

lemma leaves_trans: "leaves n name st st1 \<Longrightarrow> leaves n name st1 st2 \<Longrightarrow> leaves n name st st2"
  by (auto simp: leaves_def)

lemma leaves_new: "n \<le> length (dns_Records st) \<Longrightarrow> newRecords st = (st', p) \<Longrightarrow> leaves n name st st' \<and> n \<le> p"
  by (auto simp: newRecords_def leaves_def recordsOf_def nth_append LoadDNSCache_def)

lemma leaves_set: "n \<le> length (dns_Records st) \<Longrightarrow> n \<le> p \<Longrightarrow> leaves n name st (setRecords p r st)"
  by (simp add: leaves_def setRecords_def recordsOf_def LoadDNSCache_def)

lemma leaves_store: "n \<le> length (dns_Records st) \<Longrightarrow> leaves n name st (StoreDNSCache st name p)"
  by (simp add: leaves_def StoreDNSCache_def recordsOf_def LoadDNSCache_def)

lemma leaves_lie: "n \<le> length (dns_Records st) \<Longrightarrow> n \<le> p \<Longrightarrow> leaves n name st (addLie name' ob alpn p st)"
  by (auto simp: leaves_def addLie_def AddDNSLie_def setRecords_def recordsOf_def LoadDNSCache_def)

lemma leaves_hint:
  "n \<le> length (dns_Records st) \<Longrightarrow> n \<le> p \<Longrightarrow> leaves n name st (onHeap p (newIPv4 ttl ips) st)"
  "n \<le> length (dns_Records st) \<Longrightarrow> n \<le> p \<Longrightarrow> leaves n name st (onHeap p (newIPv6 ttl ips) st)"
  by (auto simp: leaves_def onHeap_def newIPv4_def newIPv6_def setRecords_def recordsOf_def LoadDNSCache_def split: prod.splits)

lemma leaves_length: "leaves n name st st' \<Longrightarrow> n \<le> length (dns_Records st')"
  by (simp add: leaves_def)

text \<open>The records under construction: valid and newer than the state the line started in.\<close>

definition building :: "nat \<Rightarrow> gostr \<Rightarrow> dnsState \<Rightarrow> dnsState \<Rightarrow> nat option \<Rightarrow> bool" where
  "building n name st st' records \<longleftrightarrow> leaves n name st st' \<and> dnsGrows st st'
    \<and> (\<forall>p. records = Some p \<longrightarrow> n \<le> p \<and> p < length (dns_Records st'))"

lemma building_new:
  assumes "building n name st st1 r" and "newRecords st1 = (st2, p)"
  shows "building n name st st2 (Some p)"
  using assms leaves_new [OF leaves_length assms(2)] dnsGrows_new [OF assms(2)]
  by (auto simp: building_def intro: leaves_trans dnsGrows_trans)

lemma building_step:
  assumes "building n name st st1 (Some p)" and "leaves n name st1 st2" and "stepAt p st1 st2"
  shows "building n name st st2 (Some p)"
  using assms stepAt_grows [OF assms(3)] by (auto simp: building_def leaves_def intro: dnsGrows_trans leaves_trans)

lemma building_copy:
  assumes "building n name st st1 r" and "LoadDNSCache st1 key = Some q" and "newRecords st1 = (st2, p)"
  shows "building n name st (StoreDNSCache (setRecords p (recordsOf st2 q) st2) name p) (Some p)"
proof -
  let ?st3 = "setRecords p (recordsOf st2 q) st2"
  have b: "building n name st st2 (Some p)"
    using building_new [OF assms(1,3)] .
  have "stepAt p st2 ?st3"
    unfolding stepAt_def
  proof
    assume ok: "dnsOk st2 \<and> p < length (dns_Records st2)"
    have "LoadDNSCache st2 key = Some q"
      using assms(2,3) by (auto simp: newRecords_def LoadDNSCache_def)
    then show "okStep st2 ?st3"
      using ok by (intro setRecords_copy LoadDNSCache_valid [of st2 key]) auto
  qed
  then have b3: "building n name st ?st3 (Some p)"
    using b by (intro building_step [OF b]) (auto simp: building_def intro!: leaves_set dest: leaves_length)
  then show ?thesis
    using leaves_trans [OF _ leaves_store [OF leaves_length]] dnsGrows_trans [OF _ dnsGrows_store]
    by (auto simp: building_def) (simp add: StoreDNSCache_def)
qed

lemma building_parent:
  "building n name st st1 r \<Longrightarrow> hostsParent k name offset r st1 = (st2, r') \<Longrightarrow> building n name st st2 r'"
proof (induction k name offset r st1 rule: hostsParent.induct)
  case (2 k name offset records st1)
  show ?case
  proof (cases "indexByte 46 (drop offset name)")
    case None
    with "2.prems" show ?thesis by simp
  next
    case (Some off)
    show ?thesis
    proof (cases "LoadDNSCache st1 (drop (offset + off) name)")
      case None
      with "2.IH"(1) [OF Some None] "2.prems" Some show ?thesis by simp
    next
      case q: (Some q)
      obtain st3 p where n: "newRecords st1 = (st3, p)"
        by (cases "newRecords st1")
      with "2.IH"(2) [OF Some q n [symmetric] refl refl] "2.prems" Some q building_copy [OF "2.prems"(1) q n] show ?thesis
        by simp
    qed
  qed
qed simp

definition hostsOutbound :: "phantomProfile \<Rightarrow> outbound option \<Rightarrow> int \<Rightarrow> gostr \<Rightarrow> outbound option" where
  "hostsOutbound profile defaultOutbound depth name =
    (case fst (GetOutbound profile defaultOutbound depth name) of
       Some ob \<Rightarrow> if ob_Hint ob \<noteq> 0 then Some ob else None | None \<Rightarrow> None)"

text \<open>The address that a name is given, in the form that the records hold.\<close>

definition hostsIP :: "gostr \<Rightarrow> bytes" where
  "hostsIP address = (if To4 (ParseIP address) \<noteq> [] then To4 (ParseIP address) else ParseIP address)"

definition hostsHint :: "bytes \<Rightarrow> dnsRecords \<Rightarrow> nat option" where
  "hostsHint ip r = (if length ip = 4 then rec_IPv4Hint r else rec_IPv6Hint r)"

text \<open>The records of a name are those of the file.\<close>

definition hostsEntry :: "bytes \<Rightarrow> gostr \<Rightarrow> outbound option \<Rightarrow> dnsState \<Rightarrow> bool" where
  "hostsEntry ip name ob st \<longleftrightarrow> (\<exists>p a. LoadDNSCache st name = Some p \<and> p < length (dns_Records st)
    \<and> hostsHint ip (recordsOf st p) = Some a \<and> a < length (dns_Addresses st)
    \<and> dns_Addresses st ! a = \<lparr>ra_TTL = maxTTL, ra_Addresses = [ip]\<rparr>
    \<and> (\<forall>o'. ob = Some o' \<longrightarrow> length (dns_Nose st) < 4294967296 \<longrightarrow> GetDNSLie st (rec_Index (recordsOf st p)) = Some (name, Some o')))"

lemma hostsEntry_leaves:
  assumes "hostsEntry ip name ob st" and "leaves (length (dns_Records st)) name' st st'" and "name' \<noteq> name"
  shows "hostsEntry ip name ob st'"
proof -
  obtain p a where e: "LoadDNSCache st name = Some p" "p < length (dns_Records st)" "hostsHint ip (recordsOf st p) = Some a"
      "a < length (dns_Addresses st)" "dns_Addresses st ! a = \<lparr>ra_TTL = maxTTL, ra_Addresses = [ip]\<rparr>"
      "\<forall>o'. ob = Some o' \<longrightarrow> length (dns_Nose st) < 4294967296 \<longrightarrow> GetDNSLie st (rec_Index (recordsOf st p)) = Some (name, Some o')"
    using assms(1) unfolding hostsEntry_def by blast
  have l: "recordsOf st' p = recordsOf st p" "LoadDNSCache st' name = Some p" "p < length (dns_Records st')"
    using assms(2,3) e(1,2) by (auto simp: leaves_def)
  moreover have "a < length (dns_Addresses st')" "dns_Addresses st' ! a = dns_Addresses st ! a"
    using assms(2) e(4) by (auto simp: leaves_def nth_append)
  moreover have "length (dns_Nose st) \<le> length (dns_Nose st')" "GetDNSLie st i = Some x \<Longrightarrow> GetDNSLie st' i = Some x" for i x
    using assms(2) by (auto simp: leaves_def GetDNSLie_def nth_append split: if_splits)
  ultimately show ?thesis
    using e unfolding hostsEntry_def by (intro exI [of _ p] exI [of _ a]) (auto intro: le_less_trans)
qed

lemma addLie_lie:
  assumes "p < length (dns_Records st)" and "length (dns_Nose st) < 4294967296"
  shows "GetDNSLie (addLie name ob alpn p st) (rec_Index (recordsOf (addLie name ob alpn p st) p)) = Some (name, Some ob)"
  using assms by (simp add: addLie_def AddDNSLie_def GetDNSLie_def setRecords_def recordsOf_def u32_def)

text \<open>The last part of a line: the fake address, the address and the cache entry.\<close>

definition hostsFinish :: "bytes \<Rightarrow> gostr \<Rightarrow> outbound option \<Rightarrow> nat \<Rightarrow> dnsState \<Rightarrow> dnsState" where
  "hostsFinish ip name ob p st =
    (let st = (case ob of Some o' \<Rightarrow> addLie name o' (ob_Hint o' AND HINT_DNS) p st | None \<Rightarrow> st)
     in if ip = [] then st
        else StoreDNSCache (if To4 ip \<noteq> [] then onHeap p (newIPv4 maxTTL [To4 ip]) st else onHeap p (newIPv6 maxTTL [ip]) st) name p)"

lemma hostsFinish_building:
  assumes "building n name st0 st (Some p)"
  shows "building n name st0 (hostsFinish ip name ob p st) (Some p)"
proof -
  define st1 where "st1 = (case ob of Some o' \<Rightarrow> addLie name o' (ob_Hint o' AND HINT_DNS) p st | None \<Rightarrow> st)"
  have p: "n \<le> p" "n \<le> length (dns_Records st)"
    using assms by (auto simp: building_def dest: leaves_length)
  have b1: "building n name st0 st1 (Some p)"
    using building_step [OF assms leaves_lie stepAt_addLie] p assms by (simp add: st1_def split: option.split)
  define st2 where "st2 = (if To4 ip \<noteq> [] then onHeap p (newIPv4 maxTTL [To4 ip]) st1 else onHeap p (newIPv6 maxTTL [ip]) st1)"
  have "n \<le> length (dns_Records st1)"
    using b1 by (auto simp: building_def dest: leaves_length)
  then have b2: "building n name st0 st2 (Some p)"
    unfolding st2_def using p(1)
    by (intro building_step [OF b1]) (simp_all add: leaves_hint stepAt_onHeap heap_steps)
  then have "building n name st0 (StoreDNSCache st2 name p) (Some p)"
    using leaves_trans [OF _ leaves_store [OF leaves_length]] dnsGrows_trans [OF _ dnsGrows_store]
    by (auto simp: building_def) (simp add: StoreDNSCache_def)
  with b1 show ?thesis
    by (simp add: hostsFinish_def st1_def [symmetric] st2_def Let_def)
qed

lemma hostsFinish_entry:
  assumes "p < length (dns_Records st)" and "ip \<noteq> []" and "length ip = 4 \<or> length ip = 16"
  shows "hostsEntry (if To4 ip \<noteq> [] then To4 ip else ip) name ob (hostsFinish ip name ob p st)"
proof -
  let ?st1 = "case ob of Some o' \<Rightarrow> addLie name o' (ob_Hint o' AND HINT_DNS) p st | None \<Rightarrow> st"
  have st1: "p < length (dns_Records ?st1)" "dns_Addresses ?st1 = dns_Addresses st"
    "\<forall>o'. ob = Some o' \<longrightarrow> length (dns_Nose ?st1) < 4294967296 \<longrightarrow> GetDNSLie ?st1 (rec_Index (recordsOf ?st1 p)) = Some (name, Some o')"
    using assms(1) addLie_lie [OF assms(1)] by (auto simp: addLie_def AddDNSLie_def setRecords_def split: option.split)
  have "To4 ip \<noteq> [] \<Longrightarrow> length (To4 ip) = 4" "To4 ip = [] \<Longrightarrow> length ip = 16"
    using assms(3) length_To4 [of ip] by (auto simp: To4_def)
  with st1 assms(2) show ?thesis
    unfolding hostsEntry_def hostsFinish_def Let_def
    by (auto simp: hostsHint_def onHeap_def newIPv4_def newIPv6_def setRecords_def recordsOf_def StoreDNSCache_def LoadDNSCache_def
        GetDNSLie_def)
qed

subsection \<open>A line\<close>

text \<open>The name a line of the file is about.\<close>

definition hostsName :: "gostr \<Rightarrow> gostr option" where
  "hostsName line = (if line = [] \<or> hd line = 35 then None else case splitByte2 9 line of [_, name] \<Rightarrow> Some name | _ \<Rightarrow> None)"

lemma hostsLine_skip:
  "hostsName line = None \<Longrightarrow> hostsLine profile ob depth line st = st"
  "hostsName line = Some name \<Longrightarrow> LoadDNSCache st name \<noteq> None \<Longrightarrow> hostsLine profile ob depth line st = st"
  by (auto simp: hostsName_def hostsLine_def split: list.splits if_splits)

lemma hostsLine_new:
  assumes "hostsName line = Some name" and "LoadDNSCache st name = None"
  obtains p st1 where "building (length (dns_Records st)) name st st1 (Some p)"
    "hostsLine profile dflt depth line st =
      hostsFinish (ParseIP (hd (splitByte2 9 line))) name (hostsOutbound profile dflt depth name) p st1"
proof -
  obtain address where a: "line \<noteq> []" "hd line \<noteq> 35" "splitByte2 9 line = [address, name]"
    using assms(1) by (auto simp: hostsName_def split: if_splits list.splits)
  obtain st1 r where h: "hostsParent (nat depth) name 0 None st = (st1, r)"
    by (cases "hostsParent (nat depth) name 0 None st")
  have "building (length (dns_Records st)) name st st None"
    by (simp add: building_def leaves_refl dnsGrows_refl)
  note b = building_parent [OF this h]
  obtain st2 p where n: "(case r of Some p \<Rightarrow> (st1, p) | None \<Rightarrow> newRecords st1) = (st2, p)"
    by (cases "case r of Some p \<Rightarrow> (st1, p) | None \<Rightarrow> newRecords st1")
  have "building (length (dns_Records st)) name st st2 (Some p)"
    using b building_new [OF b] n by (cases r) auto
  moreover have "hostsLine profile dflt depth line st = hostsFinish (ParseIP address) name (hostsOutbound profile dflt depth name) p st2"
    using a assms(2) h n
    by (auto simp: hostsLine_def hostsFinish_def hostsOutbound_def Let_def split: option.splits)
  ultimately show ?thesis
    using a(3) by (intro that) simp_all
qed

lemma hostsLine_keeps:
  assumes "hostsName line \<noteq> Some name \<or> LoadDNSCache st name \<noteq> None"
  shows "dnsGrows st (hostsLine profile dflt depth line st)
    \<and> (\<exists>name'. name' \<noteq> name \<and> leaves (length (dns_Records st)) name' st (hostsLine profile dflt depth line st))"
proof -
  let ?st' = "hostsLine profile dflt depth line st"
  have "dnsGrows st ?st' \<and> leaves (length (dns_Records st)) (0 # name) st ?st'" if "?st' = st"
    using that by (simp add: dnsGrows_refl leaves_refl)
  then have skip: ?thesis if "?st' = st"
    using that by (intro conjI exI [of _ "0 # name"]) simp_all
  show ?thesis
  proof (cases "hostsName line")
    case None
    then show ?thesis by (intro skip) (rule hostsLine_skip)
  next
    case (Some name')
    show ?thesis
    proof (cases "LoadDNSCache st name'")
      case None
      obtain p st1 where "building (length (dns_Records st)) name' st st1 (Some p)"
          "?st' = hostsFinish (ParseIP (hd (splitByte2 9 line))) name' (hostsOutbound profile dflt depth name') p st1"
        by (rule hostsLine_new [OF Some None])
      then have "building (length (dns_Records st)) name' st ?st' (Some p)"
        using hostsFinish_building by simp
      moreover have "name' \<noteq> name"
        using assms Some None by auto
      ultimately show ?thesis
        by (auto simp: building_def)
    next
      case p: (Some p)
      then show ?thesis
        using hostsLine_skip(2) [OF Some] by (intro skip) simp
    qed
  qed
qed

lemma hostsLine_entry:
  assumes "hostsName line = Some name" and "LoadDNSCache st name = None" and "ParseIP (hd (splitByte2 9 line)) \<noteq> []"
  shows "dnsGrows st (hostsLine profile dflt depth line st)
    \<and> hostsEntry (hostsIP (hd (splitByte2 9 line))) name (hostsOutbound profile dflt depth name) (hostsLine profile dflt depth line st)"
proof -
  obtain p st1 where b: "building (length (dns_Records st)) name st st1 (Some p)"
      "hostsLine profile dflt depth line st =
        hostsFinish (ParseIP (hd (splitByte2 9 line))) name (hostsOutbound profile dflt depth name) p st1"
    by (rule hostsLine_new [OF assms(1,2)])
  moreover have "p < length (dns_Records st1)"
    using b(1) by (simp add: building_def)
  moreover have "length (ParseIP (hd (splitByte2 9 line))) = 4 \<or> length (ParseIP (hd (splitByte2 9 line))) = 16"
    using ParseIP_length assms(3) by blast
  ultimately show ?thesis
    using hostsFinish_entry [OF _ assms(3)] hostsFinish_building [OF b(1)] by (simp add: hostsIP_def building_def)
qed

subsection \<open>The file\<close>

lemma hostsLines_before:
  "\<forall>line \<in> set lines. hostsName line \<noteq> Some name \<Longrightarrow> LoadDNSCache st name = None \<Longrightarrow>
    dnsGrows st (fold (hostsLine profile dflt depth) lines st)
    \<and> LoadDNSCache (fold (hostsLine profile dflt depth) lines st) name = None"
proof (induction lines arbitrary: st)
  case (Cons line lines)
  have k: "dnsGrows st (hostsLine profile dflt depth line st)"
      "LoadDNSCache (hostsLine profile dflt depth line st) name = None"
    using hostsLine_keeps [of line name st profile dflt depth] Cons.prems by (auto simp: leaves_def)
  with Cons.IH [OF _ k(2)] Cons.prems show ?case
    by (auto intro: dnsGrows_trans)
qed (simp add: dnsGrows_refl)

lemma hostsLines_after:
  "hostsEntry ip name ob st \<Longrightarrow> dnsGrows st (fold (hostsLine profile dflt depth) lines st)
    \<and> hostsEntry ip name ob (fold (hostsLine profile dflt depth) lines st)"
proof (induction lines arbitrary: st)
  case (Cons line lines)
  then have "LoadDNSCache st name \<noteq> None"
    by (auto simp: hostsEntry_def)
  then obtain name' where k: "dnsGrows st (hostsLine profile dflt depth line st)" "name' \<noteq> name"
      "leaves (length (dns_Records st)) name' st (hostsLine profile dflt depth line st)"
    using hostsLine_keeps [of line name st profile dflt depth] by blast
  from Cons.IH [OF hostsEntry_leaves [OF Cons.prems k(3,2)]] k(1) show ?case
    by (auto intro: dnsGrows_trans)
qed (simp add: dnsGrows_refl)

lemma hostsEntry_lookup:
  assumes "hostsEntry ip name ob st" and "qtype = (if length ip = 4 then 1 else 28)"
  shows "\<exists>index. NSLookup env server name qtype st = Some (st, index, [ip])
    \<and> (\<forall>o'. ob = Some o' \<longrightarrow> length (dns_Nose st) < 4294967296 \<longrightarrow> GetDNSLie st index = Some (name, Some o'))"
  using assms by (auto simp: hostsEntry_def hostsHint_def NSLookup_def NSLookupType_def loadOrCreate_def Let_def addressesOf_def)

text \<open>C34: After a hosts file is loaded, a name of it that was not known before resolves to the
  address of its first line, without a question to any server, and if the outbound of the
  name has hints the lookup also gives a fake address that leads back to the name and the
  outbound. The state of the name service stays valid.\<close>

theorem hosts_resolve:
  assumes "dnsOk st" and "LoadDNSCache st name = None" and "readLines content = before @ line # after"
    and "hostsName line = Some name" and "\<forall>l \<in> set before. hostsName l \<noteq> Some name"
    and "ParseIP (hd (splitByte2 9 line)) \<noteq> []"
    and "st' = LoadHosts profile defaultOutbound depth content st" and "length (dns_Nose st') < 4294967296"
  shows "dnsOk st' \<and> (\<exists>index. NSLookup env server name (if length (hostsIP (hd (splitByte2 9 line))) = 4 then 1 else 28) st' =
      Some (st', index, [hostsIP (hd (splitByte2 9 line))])
    \<and> (\<forall>ob. fst (GetOutbound profile defaultOutbound depth name) = Some ob \<and> ob_Hint ob \<noteq> 0 \<longrightarrow>
        GetDNSLie st' index = Some (name, Some ob)))"
proof -
  let ?f = "hostsLine profile defaultOutbound depth"
  let ?st1 = "fold ?f before st"
  let ?ob = "hostsOutbound profile defaultOutbound depth name"
  note b = hostsLines_before [OF assms(5,2), of profile defaultOutbound depth]
  note e = hostsLine_entry [OF assms(4) b [THEN conjunct2] assms(6), where profile = profile and dflt = defaultOutbound and depth = depth]
  have st': "st' = fold ?f after (?f line ?st1)"
    using assms(3,7) by (simp add: LoadHosts_def)
  note f = hostsLines_after [OF e [THEN conjunct2], where lines = after and profile = profile and dflt = defaultOutbound and depth = depth, folded st']
  have "dnsGrows st st'"
    using b e f by (meson dnsGrows_trans)
  with assms(1) have "dnsOk st'"
    by (simp add: dnsGrows_def)
  with hostsEntry_lookup [OF f [THEN conjunct2] refl] assms(8) show ?thesis
    by (fastforce simp: hostsOutbound_def)
qed

definition sampleHosts :: bytes where
  "sampleHosts = str ''# hosts'' @ [10] @ str ''1.2.3.4'' @ [9] @ str ''a.bc'' @ [10]"

lemma sampleHosts_lines: "readLines sampleHosts = [str ''# hosts''] @ (str ''1.2.3.4'' @ [9] @ str ''a.bc'') # []"
  by (simp add: sampleHosts_def readLines.simps str_def readBuffer_def dropCR_def)

lemma sampleHosts_name:
  "hostsName (str ''1.2.3.4'' @ [9] @ str ''a.bc'') = Some (str ''a.bc'')" "hostsName (str ''# hosts'') = None"
  "hd (splitByte2 9 (str ''1.2.3.4'' @ [9] @ str ''a.bc'')) = str ''1.2.3.4''"
  "hostsIP (str ''1.2.3.4'') = [1, 2, 3, 4]" "ParseIP (str ''1.2.3.4'') \<noteq> []"
  by (simp_all add: hostsName_def hostsIP_def splitByte2_def str_def ParseIP_def ParseAddr_def isDigit_def To16_def To4_def v4InV6Prefix_def)

definition sampleHosted :: dnsState where
  "sampleHosted = \<lparr>dns_Addresses = [\<lparr>ra_TTL = maxTTL, ra_Addresses = [[1, 2, 3, 4]]\<rparr>],
    dns_Records = [\<lparr>rec_Index = 1, rec_ALPN = HINT_IPV4 AND HINT_DNS, rec_IPv4Hint = Some 0, rec_IPv6Hint = None, rec_CName = [], rec_Ech = []\<rparr>],
    dns_Cache = [str ''a.bc'' \<mapsto> 0], dns_Nose = [(str ''phantom.socks'', None), (str ''a.bc'', Some sampleOutbound)]\<rparr>"

lemma sample_hosts: "LoadHosts (ld_Profile sampleLoad) (Some sampleOutbound) 2 sampleHosts dnsState0 = sampleHosted"
proof -
  have none: "hostsLine (ld_Profile sampleLoad) (Some sampleOutbound) 2 (str ''# hosts'') dnsState0 = dnsState0"
    by (simp add: hostsLine_def str_def)
  have parent: "hostsParent 2 (str ''a.bc'') 0 None dnsState0 = (dnsState0, None)"
    by (simp add: numeral_2_eq_2 str_def LoadDNSCache_def dnsState0_def)
  have split: "splitByte2 9 (str ''1.2.3.4'' @ 9 # str ''a.bc'') = [str ''1.2.3.4'', str ''a.bc'']"
      "hd (str ''1.2.3.4'' @ 9 # str ''a.bc'') \<noteq> 35"
    by (simp_all add: splitByte2_def str_def)
  have ob: "fst (GetOutbound (ld_Profile sampleLoad) (Some sampleOutbound) 2 (str ''a.bc'')) = Some sampleOutbound"
    by (simp add: GetOutbound_def sampleLoad_def str_def numeral_2_eq_2)
  have hint: "ob_Hint sampleOutbound = HINT_IPV4" "HINT_IPV4 \<noteq> 0"
    by (simp_all add: sampleOutbound_def HINT_IPV4_def)
  have ip: "To4 (ParseIP (str ''1.2.3.4'')) = [1, 2, 3, 4]"
    using sampleHosts_name(4,5) unfolding hostsIP_def by (auto simp: str_def ParseIP_def ParseAddr_def isDigit_def To16_def To4_def v4InV6Prefix_def)
  have "hostsLine (ld_Profile sampleLoad) (Some sampleOutbound) 2 (str ''1.2.3.4'' @ [9] @ str ''a.bc'') dnsState0 = sampleHosted"
    using sampleHosts_name(5)
    by (simp add: hostsLine_def split parent ob hint ip)
       (simp add: LoadDNSCache_def dnsState0_def newRecords_def addLie_def AddDNSLie_def setRecords_def recordsOf_def
         onHeap_def newIPv4_def StoreDNSCache_def sampleHosted_def dnsRecords0_def u32_def)
  then show ?thesis
    using none by (simp add: LoadHosts_def sampleHosts_lines)
qed

theorem hosts_resolve_witness:
  "dnsOk sampleHosted \<and> (\<forall>env server. \<exists>index. NSLookup env server (str ''a.bc'') 1 sampleHosted = Some (sampleHosted, index, [[1, 2, 3, 4]])
    \<and> GetDNSLie sampleHosted index = Some (str ''a.bc'', Some sampleOutbound))"
proof -
  have ok: "dnsOk dnsState0"
    by (auto simp: dnsOk_def dnsState0_def)
  have fresh: "LoadDNSCache dnsState0 (str ''a.bc'') = None"
    by (simp add: dnsState0_def LoadDNSCache_def)
  have before: "\<forall>l \<in> set [str ''# hosts'']. hostsName l \<noteq> Some (str ''a.bc'')"
    using sampleHosts_name by simp
  have "fst (GetOutbound (ld_Profile sampleLoad) (Some sampleOutbound) 2 (str ''a.bc'')) = Some sampleOutbound"
    by (simp add: GetOutbound_def sampleLoad_def str_def numeral_2_eq_2)
  moreover have "ob_Hint sampleOutbound \<noteq> 0"
    by (simp add: sampleOutbound_def HINT_IPV4_def)
  ultimately show ?thesis
    using hosts_resolve [OF ok fresh sampleHosts_lines sampleHosts_name(1) before _ sample_hosts [symmetric]] sampleHosts_name
    by (simp add: sampleHosted_def)
qed

end
