(* ===== verification/Quic_Varint.thy ===== *)
theory Quic_Varint
  imports Go_Base
begin

text \<open>
  The variable-length integers of QUIC (\<open>readVarint\<close>, \<open>writeVarint\<close>, \<open>varintAt\<close>,
  \<open>skipVarints\<close> of \<open>phantomtcp/quic.go\<close>): the two top bits of the first byte are the
  length class, the rest is big-endian. The code's \<open>a << 8 | b\<close> chains are \<open>be_nat\<close>
  of the bytes, the first one masked.
\<close>

definition readVarint :: "bytes \<Rightarrow> error + nat \<times> nat" where
  "readVarint b =
    (case b of
      [] \<Rightarrow> Inl ''short varint''
    | first # _ \<Rightarrow>
        (let k = unat (drop_bit 6 first) in
         if k = 0 then Inr (unat (first AND 0x3f), 1)
         else if k = 1 then
           (if length b < 2 then Inl ''short varint''
            else Inr (be_nat ((first AND 0x3f) # take 1 (tl b)), 2))
         else if k = 2 then
           (if length b < 4 then Inl ''short varint''
            else Inr (be_nat ((first AND 0x3f) # take 3 (tl b)), 4))
         else
           (if length b < 8 then Inl ''short varint''
            else Inr (be_nat (take 8 b) mod 4611686018427387904, 8))))"

definition writeVarint :: "nat \<Rightarrow> bytes" where
  "writeVarint v =
    (if v \<le> 0x3f then [of_nat v]
     else if v \<le> 0x3fff then [0x40 OR of_nat (v div 2 ^ 8), of_nat v]
     else if v \<le> 0x3fffffff then
       [0x80 OR of_nat (v div 2 ^ 24), of_nat (v div 2 ^ 16), of_nat (v div 2 ^ 8), of_nat v]
     else
       (let b = be_bytes 8 v in (0xc0 OR (hd b AND 0x3f)) # tl b))"

subsection \<open>The first byte\<close>

lemma unat_and_3f: "unat (b AND 0x3f :: byte) = unat b mod 64"
proof -
  have "b AND 0x3f = take_bit 6 b"
    by (simp add: take_bit_eq_mask mask_numeral)
  then show ?thesis
    by (simp only: unsigned_take_bit_eq) (simp add: take_bit_eq_mod)
qed

lemma unat_drop_bit_6: "unat (drop_bit 6 b :: byte) = unat b div 64"
  by (simp add: drop_bit_eq_div unat_div)

lemma byte_class_all:
  "\<forall>n \<in> set [0..<64].
     (0x40 OR (of_nat n :: byte)) AND 0x3f = of_nat n \<and>
     (0x80 OR (of_nat n :: byte)) AND 0x3f = of_nat n \<and>
     unat (drop_bit 6 (0x40 OR (of_nat n :: byte))) = 1 \<and>
     unat (drop_bit 6 (0x80 OR (of_nat n :: byte))) = 2 \<and>
     unat (drop_bit 6 (0xc0 OR (of_nat n :: byte))) = 3 \<and>
     unat (0xc0 OR (of_nat n :: byte)) = 192 + n"
  by code_simp

lemma byte_class:
  assumes "n < 64"
  shows "(0x40 OR (of_nat n :: byte)) AND 0x3f = of_nat n"
    and "(0x80 OR (of_nat n :: byte)) AND 0x3f = of_nat n"
    and "unat (drop_bit 6 (0x40 OR (of_nat n :: byte))) = 1"
    and "unat (drop_bit 6 (0x80 OR (of_nat n :: byte))) = 2"
    and "unat (drop_bit 6 (0xc0 OR (of_nat n :: byte))) = 3"
    and "unat (0xc0 OR (of_nat n :: byte)) = 192 + n"
  using assms byte_class_all by simp_all

lemma byte_small:
  assumes "n < 64"
  shows "(of_nat n :: byte) AND 0x3f = of_nat n" and "unat (drop_bit 6 (of_nat n :: byte)) = 0"
  using assms by (simp_all add: word_unat_eq_iff unat_and_3f unat_drop_bit_6)

subsection \<open>Length of an encoding, and reading it back\<close>

lemma length_writeVarint:
  "length (writeVarint v) =
    (if v \<le> 0x3f then 1 else if v \<le> 0x3fff then 2 else if v \<le> 0x3fffffff then 4 else 8)"
  by (simp add: writeVarint_def Let_def)

lemma length_writeVarint_bounds [simp]:
  "0 < length (writeVarint v)" "length (writeVarint v) \<le> 8" "writeVarint v \<noteq> []"
  by (auto simp: writeVarint_def Let_def)

lemma length_writeVarint_mono: "v \<le> w \<Longrightarrow> length (writeVarint v) \<le> length (writeVarint w)"
  by (simp add: length_writeVarint)

text \<open>One equation per length class.\<close>

lemma readVarint_class:
  "unat (drop_bit 6 f) = 0 \<Longrightarrow> readVarint (f # r) = Inr (unat (f AND 0x3f), 1)"
  "unat (drop_bit 6 f) = 1 \<Longrightarrow> readVarint (f # b # r) = Inr (be_nat [f AND 0x3f, b], 2)"
  "unat (drop_bit 6 f) = 2 \<Longrightarrow>
     readVarint (f # b # c # d # r) = Inr (be_nat [f AND 0x3f, b, c, d], 4)"
  "unat (drop_bit 6 f) = 3 \<Longrightarrow> length t = 7 \<Longrightarrow>
     readVarint ((f # t) @ r) = Inr (be_nat (f # t) mod 4611686018427387904, 8)"
  by (simp_all add: readVarint_def Let_def)

lemma div_256_split: "(v::nat) div 256 * 256 + v mod 256 = v"
  by simp

lemma be_nat_Cons4: "be_nat [a, b, c, d] = ((unat a * 256 + unat b) * 256 + unat c) * 256 + unat d"
  by (simp add: be_nat_def)

lemma readVarint_8:
  assumes "v < 4611686018427387904"
  shows "readVarint (((0xc0 OR (hd (be_bytes 8 v) AND 0x3f)) # tl (be_bytes 8 v)) @ rest) = Inr (v, 8)"
proof -
  obtain h t where bt: "be_bytes 8 v = h # t" and lt: "length t = 7"
    using length_be_bytes [of 8 v] by (cases "be_bytes 8 v") auto
  have hv: "unat h * 256 ^ 7 + be_nat t = v"
    using be_nat_be_bytes [of 8 v] assms by (simp add: bt be_nat_Cons lt)
  then have h64: "unat h < 64"
    using assms by simp
  have h: "h AND 0x3f = of_nat (unat h)"
    using byte_small(1) [OF h64] by simp
  have "be_nat ((0xc0 OR of_nat (unat h)) # t) = v + 3 * 4611686018427387904"
    using hv by (simp only: be_nat_Cons lt byte_class(6) [OF h64]) simp
  moreover have "(v + 3 * 4611686018427387904) mod 4611686018427387904 = v"
    using assms by (simp only: mod_mult_self1 mod_less)
  ultimately have "be_nat ((0xc0 OR of_nat (unat h)) # t) mod 4611686018427387904 = v"
    by simp
  with readVarint_class(4) [OF byte_class(5) [OF h64] lt, of rest] show ?thesis
    by (simp only: bt list.sel h)
qed

text \<open>Decoding an encoded value gives it back, whatever follows it, and consumes its bytes.\<close>

lemma readVarint_writeVarint:
  assumes "v < 4611686018427387904"
  shows "readVarint (writeVarint v @ rest) = Inr (v, length (writeVarint v))"
proof -
  consider "v \<le> 0x3f" | "0x3f < v" "v \<le> 0x3fff" | "0x3fff < v" "v \<le> 0x3fffffff" | "0x3fffffff < v"
    by linarith
  then show ?thesis
  proof cases
    case 1
    then show ?thesis
      by (simp add: writeVarint_def readVarint_class(1) [OF byte_small(2)] byte_small(1))
  next
    case 2
    then have lt: "v div 2 ^ 8 < 64" by simp
    from 2 readVarint_class(2) [OF byte_class(3) [OF lt], of "of_nat v" rest] show ?thesis
      by (simp only: writeVarint_def byte_class(1) [OF lt] be_nat_two) simp
  next
    case 3
    then have lt: "v div 2 ^ 24 < 64" by simp
    have "v div 2 ^ 24 = v div 256 div 256 div 256" and "v div 2 ^ 16 = v div 256 div 256"
      by (simp_all flip: div_mult2_eq)
    then have "((v div 2 ^ 24 * 256 + v div 2 ^ 16 mod 256) * 256 + v div 2 ^ 8 mod 256) * 256 + v mod 256 = v"
      by (simp add: div_256_split)
    with 3 lt readVarint_class(3) [OF byte_class(4) [OF lt], of "of_nat (v div 2 ^ 16)" "of_nat (v div 2 ^ 8)" "of_nat v" rest]
    show ?thesis
      by (simp only: writeVarint_def byte_class(2) [OF lt] be_nat_Cons4) simp
  next
    case 4
    then show ?thesis
      using readVarint_8 [OF assms, of rest] by (simp add: writeVarint_def Let_def)
  qed
qed

lemma be_nat_masked:
  assumes "length t = k"
  shows "be_nat ((f AND 0x3f) # t) < 64 * 256 ^ k"
proof -
  have "be_nat ((f AND 0x3f) # t) = unat f mod 64 * 256 ^ k + be_nat t"
    by (simp only: be_nat_Cons unat_and_3f assms)
  also have "\<dots> < unat f mod 64 * 256 ^ k + 256 ^ k"
    using be_nat_less [of t] assms by simp
  also have "\<dots> = (unat f mod 64 + 1) * 256 ^ k"
    by simp
  also have "\<dots> \<le> 64 * 256 ^ k"
    by (intro mult_right_mono) (simp_all add: Suc_leI)
  finally show ?thesis .
qed

text \<open>What is read is below \<open>2 ^ 62\<close>, and takes 1, 2, 4 or 8 of the bytes at hand.\<close>

lemma readVarint_bounds:
  assumes "readVarint b = Inr (v, n)"
  shows "v < 4611686018427387904 \<and> 0 < n \<and> n \<le> length b"
proof (cases b)
  case Nil
  with assms show ?thesis by (simp add: readVarint_def)
next
  case (Cons f t)
  define k where "k = unat (drop_bit 6 f)"
  have k4: "k < 4"
    using unat_byte_less [of f] by (simp add: k_def unat_drop_bit_6 less_mult_imp_div_less)
  consider "k = 0" | "k = 1" | "k = 2" | "k = 3"
    using k4 by linarith
  then show ?thesis
  proof cases
    case 1
    with assms Cons have "v = unat (f AND 0x3f)" "n = 1"
      by (simp_all add: readVarint_def flip: k_def)
    with Cons show ?thesis
      using unat_and_3f [of f] by simp
  next
    case 2
    with assms Cons have "v = be_nat ((f AND 0x3f) # take 1 t)" "n = 2" "2 \<le> length b"
      by (auto simp add: readVarint_def not_less Suc_le_eq simp flip: k_def split: if_splits)
    with Cons show ?thesis
      using be_nat_masked [of "take 1 t" 1 f] by simp
  next
    case 3
    with assms Cons have "v = be_nat ((f AND 0x3f) # take 3 t)" "n = 4" "4 \<le> length b"
      by (simp_all add: readVarint_def not_less flip: k_def split: if_splits)
    with Cons show ?thesis
      using be_nat_masked [of "take 3 t" 3 f] by simp
  next
    case 4
    with assms Cons have "v = be_nat (take 8 b) mod 4611686018427387904" "n = 8" "8 \<le> length b"
      by (simp_all add: readVarint_def not_less flip: k_def split: if_splits)
    then show ?thesis by simp
  qed
qed

text \<open>Only the bytes that are read matter.\<close>

lemma readVarint_local:
  assumes "readVarint b = Inr (v, n)" and "take n b' = take n b" and "n \<le> length b'"
  shows "readVarint b' = Inr (v, n)"
proof -
  have n: "0 < n" "n \<le> length b"
    using readVarint_bounds [OF assms(1)] by auto
  obtain f t where b: "b = f # t"
    using n by (cases b) auto
  obtain t' where b': "b' = f # t'" and t: "take (n - 1) t' = take (n - 1) t"
    using assms(2,3) n b by (cases b') (auto simp: take_Cons')
  define k where "k = unat (drop_bit 6 f)"
  consider "k = 0" "n = 1" | "k = 1" "n = 2" | "k = 2" "n = 4" | "k \<noteq> 0" "k \<noteq> 1" "k \<noteq> 2" "n = 8"
    using assms(1) by (auto simp: readVarint_def b simp flip: k_def split: if_splits)
  then show ?thesis
    using assms t n
    by cases (auto simp: readVarint_def b b' simp flip: k_def split: if_splits)
qed

interpretation varint: codec writeVarint readVarint "\<lambda>v. v < 4611686018427387904"
  using readVarint_writeVarint readVarint_bounds by unfold_locales blast+

subsection \<open>Reading at an offset\<close>

text \<open>
  \<open>varintAt\<close> advances the caller's offset; on an error the callers give up, so only
  the successful offset is returned.
\<close>

definition varintAt :: "bytes \<Rightarrow> nat \<Rightarrow> error + nat \<times> nat" where
  "varintAt data off =
    (if length data \<le> off then Inl ''short varint''
     else
       (case readVarint (drop off data) of
          Inl e \<Rightarrow> Inl e
        | Inr (value, n) \<Rightarrow> Inr (value, off + n)))"

fun skipVarints :: "bytes \<Rightarrow> nat \<Rightarrow> nat \<Rightarrow> error + nat" where
  "skipVarints data off 0 = Inr off"
| "skipVarints data off (Suc count) =
    (case varintAt data off of
       Inl e \<Rightarrow> Inl e
     | Inr (_, off') \<Rightarrow> skipVarints data off' count)"

lemma varintAt_bounds:
  assumes "varintAt data off = Inr (v, off')"
  shows "off < off' \<and> off' \<le> length data \<and> v < 4611686018427387904"
proof -
  from assms obtain n where "readVarint (drop off data) = Inr (v, n)" "off' = off + n" "off < length data"
    by (auto simp: varintAt_def split: if_splits sum.splits)
  then show ?thesis
    using varint.dec_ok [of "drop off data" v n] by auto
qed

lemma varintAt_writeVarint:
  assumes "v < 4611686018427387904" and "length a = off"
  shows "varintAt (a @ writeVarint v @ rest) off = Inr (v, off + length (writeVarint v))"
  using assms varint.dec_enc_drop [OF assms, of rest] by (simp add: varintAt_def)

lemma skipVarints_bounds:
  "skipVarints data off n = Inr off' \<Longrightarrow> off \<le> length data \<Longrightarrow> off + n \<le> off' \<and> off' \<le> length data"
proof (induction n arbitrary: off)
  case (Suc n)
  then obtain v o1 where v: "varintAt data off = Inr (v, o1)" and s: "skipVarints data o1 n = Inr off'"
    by (auto split: sum.splits)
  from varintAt_bounds [OF v] Suc.IH [OF s] show ?case by auto
qed simp

end
