(* ===== verification/Quic_Readers.thy ===== *)
theory Quic_Readers
  imports Quic_Varint
begin

text \<open>
  The contract of the functions that read a frame's fields at an offset of a packet: a
  read depends only on the bytes it consumes, neither on where they stand nor on what
  follows them. \<open>reader\<close> states it for functions that return a value and the advanced
  offset, \<open>ender\<close> for those that only return the offset. The introduction rules follow
  the shapes the code uses (read then continue, skip a number of bytes, check a guard).
\<close>

locale reader =
  fixes r :: "bytes \<Rightarrow> nat \<Rightarrow> error + 'a \<times> nat"
  assumes confined: "r (a @ m @ z) (length a) = Inr (v, e) \<Longrightarrow> e \<le> length a + length m \<Longrightarrow>
    length a \<le> e \<and> r (a' @ m @ z') (length a') = Inr (v, length a' + (e - length a))"
    and inside: "r d off = Inr (v, e) \<Longrightarrow> off \<le> length d \<Longrightarrow> off \<le> e \<and> e \<le> length d"
begin

text \<open>The consumed bytes alone decide.\<close>

lemma moved:
  assumes "r d off = Inr (v, e)" and "off \<le> length d"
  shows "r (a @ take (e - off) (drop off d) @ z) (length a) = Inr (v, length a + (e - off))"
proof -
  have e: "off \<le> e" "e \<le> length d"
    using inside [OF assms] by auto
  have "d = take off d @ take (e - off) (drop off d) @ drop e d"
    using e by (metis append_take_drop_id drop_drop le_add_diff_inverse2)
  moreover have "length (take off d) = off" "length (take (e - off) (drop off d)) = e - off"
    using e by auto
  ultimately show ?thesis
    using confined [of "take off d" "take (e - off) (drop off d)" "drop e d" v e a z] assms e
    by simp
qed

lemma from_front: "r d off = Inr (v, e) \<Longrightarrow> off \<le> length d \<Longrightarrow> r (drop off d) 0 = Inr (v, e - off)"
  using confined [of "take off d" "drop off d" "[]" v e "[]" "[]"] inside [of d off v e]
  by (simp add: min_def)

end

locale ender =
  fixes r :: "bytes \<Rightarrow> nat \<Rightarrow> error + nat"
  assumes confined: "r (a @ m @ z) (length a) = Inr e \<Longrightarrow> e \<le> length a + length m \<Longrightarrow>
    length a \<le> e \<and> r (a' @ m @ z') (length a') = Inr (length a' + (e - length a))"
    and inside: "r d off = Inr e \<Longrightarrow> off \<le> length d \<Longrightarrow> off \<le> e \<and> e \<le> length d"
begin

lemma moved:
  assumes "r d off = Inr e" and "off \<le> length d"
  shows "r (a @ take (e - off) (drop off d) @ z) (length a) = Inr (length a + (e - off))"
proof -
  have e: "off \<le> e" "e \<le> length d"
    using inside [OF assms] by auto
  have "d = take off d @ take (e - off) (drop off d) @ drop e d"
    using e by (metis append_take_drop_id drop_drop le_add_diff_inverse2)
  moreover have "length (take off d) = off" "length (take (e - off) (drop off d)) = e - off"
    using e by auto
  ultimately show ?thesis
    using confined [of "take off d" "take (e - off) (drop off d)" "drop e d" e a z] assms e
    by simp
qed

end

named_theorems readers \<open>introduction rules for the reader contracts\<close>

text \<open>A part of the middle that a first read consumed.\<close>

lemma split_middle:
  assumes "length a \<le> o1" "o1 \<le> length a + length m"
  obtains m1 m2 where "m = m1 @ m2" "o1 = length (a @ m1)"
  using assms by (intro that [of "take (o1 - length a) m" "drop (o1 - length a) m"]) auto

lemma reader_bind [readers]:
  assumes r: "reader r" and f: "\<And>v. reader (f v)"
  shows "reader (\<lambda>d off. case r d off of Inl e \<Rightarrow> Inl (E e) | Inr (v, o1) \<Rightarrow> f v d o1)"
proof
  fix a m z a' z' :: bytes and v e
  assume step: "(case r (a @ m @ z) (length a) of Inl e \<Rightarrow> Inl (E e)
    | Inr (v, o1) \<Rightarrow> f v (a @ m @ z) o1) = Inr (v, e)" and e: "e \<le> length a + length m"
  from step obtain w o1 where 1: "r (a @ m @ z) (length a) = Inr (w, o1)"
    and 2: "f w (a @ m @ z) o1 = Inr (v, e)"
    by (auto split: sum.splits)
  have "length a \<le> o1" "o1 \<le> length (a @ m @ z)"
    using reader.inside [OF r 1] by auto
  moreover from this have "o1 \<le> e"
    using reader.inside [OF f 2] by auto
  ultimately obtain m1 m2 where m: "m = m1 @ m2" "o1 = length (a @ m1)"
    using e split_middle by (metis le_trans)
  have r': "r (a' @ m @ z') (length a') = Inr (w, length (a' @ m1))"
    using reader.confined [OF r 1, of a' z'] e \<open>o1 \<le> e\<close> m(2) by auto
  have "f w ((a @ m1) @ m2 @ z) (length (a @ m1)) = Inr (v, e)"
    using 2 m by simp
  from reader.confined [OF f this, of "a' @ m1" z'] e m
  have "length (a @ m1) \<le> e \<and> f w (a' @ m @ z') (length (a' @ m1)) = Inr (v, length (a' @ m1) + (e - length (a @ m1)))"
    by simp
  then show "length a \<le> e \<and> (case r (a' @ m @ z') (length a') of Inl e \<Rightarrow> Inl (E e)
    | Inr (v, o1) \<Rightarrow> f v (a' @ m @ z') o1) = Inr (v, length a' + (e - length a))"
    using r' by auto
next
  fix d off v e
  assume "(case r d off of Inl e \<Rightarrow> Inl (E e) | Inr (v, o1) \<Rightarrow> f v d o1) = Inr (v, e)"
    and off: "off \<le> length d"
  then obtain w o1 where "r d off = Inr (w, o1)" "f w d o1 = Inr (v, e)"
    by (auto split: sum.splits)
  then show "off \<le> e \<and> e \<le> length d"
    using reader.inside [OF r] reader.inside [OF f] off by (meson le_trans)
qed

lemma reader_return [readers]: "reader (\<lambda>d off. Inr (v, off))"
  by unfold_locales simp_all

lemma reader_fail [readers]: "reader (\<lambda>d off. Inl e)"
  by unfold_locales simp_all

lemma reader_if [readers]: "(c \<Longrightarrow> reader r) \<Longrightarrow> (\<not> c \<Longrightarrow> reader s) \<Longrightarrow> reader (\<lambda>d off. if c then r d off else s d off)"
  by (cases c) simp_all

text \<open>An ender is a reader of nothing.\<close>

lemma ender_reader: "ender r \<longleftrightarrow> reader (\<lambda>d off. case r d off of Inl e \<Rightarrow> Inl e | Inr o1 \<Rightarrow> Inr ((), o1))"
proof -
  have eq: "(case x of Inl e \<Rightarrow> Inl e | Inr o1 \<Rightarrow> Inr ((), o1)) = Inr (v, e) \<longleftrightarrow> x = Inr e"
    for x :: "error + nat" and v e
    by (cases x) auto
  show ?thesis
    unfolding ender_def reader_def eq by simp
qed

lemma ender_bind [readers]:
  assumes r: "reader r" and f: "\<And>v. ender (f v)"
  shows "ender (\<lambda>d off. case r d off of Inl e \<Rightarrow> Inl (E e) | Inr (v, o1) \<Rightarrow> f v d o1)"
proof -
  have "reader (\<lambda>d off. case r d off of Inl e \<Rightarrow> Inl (E e)
    | Inr (v, o1) \<Rightarrow> (case f v d o1 of Inl e \<Rightarrow> Inl e | Inr o1 \<Rightarrow> Inr ((), o1)))"
    using f by (intro reader_bind [OF r]) (simp only: ender_reader)
  moreover have "(\<lambda>d off. case (case r d off of Inl e \<Rightarrow> Inl (E e) | Inr (v, o1) \<Rightarrow> f v d o1) of
      Inl e \<Rightarrow> Inl e | Inr o1 \<Rightarrow> Inr ((), o1)) =
    (\<lambda>d off. case r d off of Inl e \<Rightarrow> Inl (E e)
    | Inr (v, o1) \<Rightarrow> (case f v d o1 of Inl e \<Rightarrow> Inl e | Inr o1 \<Rightarrow> Inr ((), o1)))"
    by (intro ext) (auto split: sum.splits)
  ultimately show ?thesis
    by (simp only: ender_reader)
qed

lemma ender_then [readers]:
  assumes r: "ender r" and f: "ender f"
  shows "ender (\<lambda>d off. case r d off of Inl e \<Rightarrow> Inl (E e) | Inr o1 \<Rightarrow> f d o1)"
proof -
  have "ender (\<lambda>d off. case (case r d off of Inl e \<Rightarrow> Inl e | Inr o1 \<Rightarrow> Inr ((), o1)) of
      Inl e \<Rightarrow> Inl (E e) | Inr (v, o1) \<Rightarrow> f d o1)"
    using r f by (intro ender_bind) (simp_all only: ender_reader)
  moreover have "(\<lambda>d off. case (case r d off of Inl e \<Rightarrow> Inl e | Inr o1 \<Rightarrow> Inr ((), o1)) of
      Inl e \<Rightarrow> Inl (E e) | Inr (v, o1) \<Rightarrow> f d o1) =
    (\<lambda>d off. case r d off of Inl e \<Rightarrow> Inl (E e) | Inr o1 \<Rightarrow> f d o1)"
    by (intro ext) (auto split: sum.splits)
  ultimately show ?thesis
    by simp
qed

lemma ender_return [readers]: "ender (\<lambda>d off. Inr off)"
  by unfold_locales simp_all

lemma ender_fail [readers]: "ender (\<lambda>d off. Inl e)"
  by unfold_locales simp_all

lemma ender_if [readers]: "(c \<Longrightarrow> ender r) \<Longrightarrow> (\<not> c \<Longrightarrow> ender s) \<Longrightarrow> ender (\<lambda>d off. if c then r d off else s d off)"
  by (cases c) simp_all

lemma ender_skip [readers]:
  "ender (\<lambda>d off. if n > length d - off then Inl e else Inr (off + n))"
  by unfold_locales (auto split: if_splits)

lemma ender_skip_sum [readers]:
  "ender (\<lambda>d off. if off + n > length d then Inl e else Inr (off + n))"
  by unfold_locales (auto split: if_splits)

lemma reader_varintAt [readers]: "reader varintAt"
proof
  fix a m z a' z' :: bytes and v e
  assume v: "varintAt (a @ m @ z) (length a) = Inr (v, e)" and e: "e \<le> length a + length m"
  from v obtain n where n: "readVarint (m @ z) = Inr (v, n)" "e = length a + n"
    by (auto simp: varintAt_def split: if_splits sum.splits)
  with e have "n \<le> length m" by simp
  with readVarint_local [OF n(1), of "m @ z'"] have "readVarint (m @ z') = Inr (v, n)" "m \<noteq> []"
    using readVarint_bounds [OF n(1)] by auto
  with n(2) show "length a \<le> e \<and> varintAt (a' @ m @ z') (length a') = Inr (v, length a' + (e - length a))"
    by (simp add: varintAt_def)
next
  fix d off v e
  assume "varintAt d off = Inr (v, e)" "off \<le> length d"
  then show "off \<le> e \<and> e \<le> length d"
    using varintAt_bounds by fastforce
qed

lemma ender_skipVarints [readers]: "ender (\<lambda>d off. skipVarints d off n)"
proof (induction n)
  case 0
  show ?case by (simp add: ender_return)
next
  case (Suc n)
  show ?case
    by (simp only: skipVarints.simps) (intro ender_bind reader_varintAt Suc)
qed

text \<open>The code's two elementary readers keep the contract.\<close>

interpretation varint_field: reader varintAt
  by (rule reader_varintAt)

interpretation varint_fields: ender "\<lambda>d off. skipVarints d off n" for n
  by (rule ender_skipVarints)

end
