(* ===== verification/Quic_Frames.thy ===== *)
theory Quic_Frames
  imports Quic_Readers
begin

text \<open>
  The frames of a QUIC packet (\<open>phantomtcp/quic.go\<close>): where a frame ends (\<open>frameEnd\<close>),
  parsing, mapping and printing ACK frames, and the CRYPTO stream. The loops over the
  frames of a packet advance by \<open>frameEnd\<close>, which always makes progress; that is what
  their termination proofs use.
\<close>

subsection \<open>ACK frames\<close>

record ackRange =
  smallest :: nat
  largest :: nat

record ackFrame =
  ack_type :: byte
  ack_delay :: nat
  ack_ranges :: "ackRange list"
  ack_ecn :: "nat list"

text \<open>The loop over the \<open>rangeCount\<close> further ranges; \<open>previous\<close> is the last smallest number.\<close>

fun parseAckRanges :: "nat \<Rightarrow> nat \<Rightarrow> bytes \<Rightarrow> nat \<Rightarrow> error + ackRange list \<times> nat" where
  "parseAckRanges 0 previous data off = Inr ([], off)"
| "parseAckRanges (Suc n) previous data off =
    (case varintAt data off of Inl e \<Rightarrow> Inl e
     | Inr (gap, off) \<Rightarrow>
        (case varintAt data off of Inl e \<Rightarrow> Inl e
         | Inr (span, off) \<Rightarrow>
            (if gap > previous \<or> previous - gap < 2 then Inl ''invalid ACK gap''
             else if span > previous - gap - 2 then Inl ''invalid ACK range''
             else
               (case parseAckRanges n (previous - gap - 2 - span) data off of Inl e \<Rightarrow> Inl e
                | Inr (rs, off) \<Rightarrow>
                   Inr (\<lparr>smallest = previous - gap - 2 - span, largest = previous - gap - 2\<rparr> # rs, off)))))"

fun readVarints :: "nat \<Rightarrow> bytes \<Rightarrow> nat \<Rightarrow> error + nat list \<times> nat" where
  "readVarints 0 data off = Inr ([], off)"
| "readVarints (Suc n) data off =
    (case varintAt data off of Inl e \<Rightarrow> Inl e
     | Inr (v, off) \<Rightarrow>
        (case readVarints n data off of Inl e \<Rightarrow> Inl e
         | Inr (vs, off) \<Rightarrow> Inr (v # vs, off)))"

definition parseAckFrame :: "bytes \<Rightarrow> nat \<Rightarrow> byte \<Rightarrow> error + ackFrame \<times> nat" where
  "parseAckFrame data off frameType =
    (case varintAt data off of Inl e \<Rightarrow> Inl e
     | Inr (lrg, off) \<Rightarrow>
        (case varintAt data off of Inl e \<Rightarrow> Inl e
         | Inr (delay, off) \<Rightarrow>
            (case varintAt data off of Inl e \<Rightarrow> Inl e
             | Inr (rangeCount, off) \<Rightarrow>
                (if rangeCount > length data - off then Inl ''invalid ACK range count''
                 else
                   (case varintAt data off of Inl e \<Rightarrow> Inl ''invalid ACK first range''
                    | Inr (firstRange, off) \<Rightarrow>
                       (if firstRange > lrg then Inl ''invalid ACK first range''
                        else
                          (case parseAckRanges rangeCount (lrg - firstRange) data off of Inl e \<Rightarrow> Inl e
                           | Inr (rs, off) \<Rightarrow>
                              (case readVarints (if frameType = 0x03 then 3 else 0) data off of Inl e \<Rightarrow> Inl e
                               | Inr (ecn, off) \<Rightarrow>
                                  Inr (\<lparr>ack_type = frameType, ack_delay = delay,
                                    ack_ranges = \<lparr>smallest = lrg - firstRange, largest = lrg\<rparr> # rs,
                                    ack_ecn = (if frameType = 0x03 then ecn else [0, 0, 0])\<rparr>, off)))))))))"

fun appendAckRanges :: "bytes \<Rightarrow> ackRange \<Rightarrow> ackRange list \<Rightarrow> error + bytes" where
  "appendAckRanges dst previous [] = Inr dst"
| "appendAckRanges dst previous (current # rs) =
    (if u64 (largest current + 2) > smallest previous then Inl ''overlapping ACK ranges''
     else appendAckRanges
       (dst @ writeVarint (u64_sub (u64_sub (smallest previous) (largest current)) 2)
            @ writeVarint (u64_sub (largest current) (smallest current))) current rs)"

definition appendAckFrame :: "bytes \<Rightarrow> ackFrame \<Rightarrow> error + bytes" where
  "appendAckFrame dst ack =
    (case ack_ranges ack of
       [] \<Rightarrow> Inl ''ACK has no ranges''
     | r0 # rs \<Rightarrow>
        (if \<exists>r \<in> set (ack_ranges ack). smallest r > largest r then Inl ''invalid ACK range''
         else
           (case appendAckRanges
                   (dst @ [ack_type ack] @ writeVarint (largest r0) @ writeVarint (ack_delay ack)
                    @ writeVarint (length rs) @ writeVarint (u64_sub (largest r0) (smallest r0))) r0 rs of
              Inl e \<Rightarrow> Inl e
            | Inr dst \<Rightarrow>
               Inr (if ack_type ack = 0x03 then dst @ concat (map writeVarint (ack_ecn ack)) else dst))))"

subsection \<open>Mapping acknowledged numbers\<close>

definition mapAckPN :: "nat \<Rightarrow> nat \<Rightarrow> nat" where
  "mapAckPN pn first =
    (if pn = first \<or> pn = u64 (first + 1) then first
     else if pn > u64 (first + 1) then pn - 1
     else pn)"

definition remapRange :: "nat \<Rightarrow> ackRange list \<Rightarrow> ackRange \<Rightarrow> ackRange list" where
  "remapRange first mapped r =
    (let current = \<lparr>smallest = mapAckPN (smallest r) first, largest = mapAckPN (largest r) first\<rparr> in
     if mapped \<noteq> [] \<and> u64 (largest current + 1) \<ge> smallest (last mapped) then
       (if smallest current < smallest (last mapped)
        then butlast mapped @ [(last mapped)\<lparr>smallest := smallest current\<rparr>]
        else mapped)
     else mapped @ [current])"

definition remapAck :: "ackFrame \<Rightarrow> nat \<Rightarrow> ackFrame" where
  "remapAck ack first = ack\<lparr>ack_ranges := foldl (remapRange first) [] (ack_ranges ack)\<rparr>"

subsection \<open>Where a frame ends\<close>

text \<open>The switch over the type, after the type byte has been read.\<close>

definition frameRest :: "byte \<Rightarrow> bytes \<Rightarrow> nat \<Rightarrow> error + nat" where
  "frameRest frameType data off =
   (if frameType = 0x00 \<or> frameType = 0x01 \<or> frameType = 0x1e then Inr off
    else if frameType = 0x02 \<or> frameType = 0x03 then
      (case parseAckFrame data off frameType of Inl e \<Rightarrow> Inl e | Inr (_, end) \<Rightarrow> Inr end)
    else if frameType = 0x04 then skipVarints data off 3
    else if frameType = 0x05 then skipVarints data off 2
    else if frameType = 0x06 then
      (case varintAt data off of Inl e \<Rightarrow> Inl e
       | Inr (_, off) \<Rightarrow>
          (case varintAt data off of Inl e \<Rightarrow> Inl ''short frame''
           | Inr (len, off) \<Rightarrow>
              (if len > length data - off then Inl ''short frame'' else Inr (off + len))))
    else if frameType = 0x07 then
      (case varintAt data off of Inl e \<Rightarrow> Inl ''short frame''
       | Inr (len, off) \<Rightarrow>
          (if len > length data - off then Inl ''short frame'' else Inr (off + len)))
    else if frameType \<ge> 0x08 \<and> frameType \<le> 0x0f then
      (case skipVarints data off (if frameType AND 0x04 \<noteq> 0 then 2 else 1) of Inl e \<Rightarrow> Inl e
       | Inr off \<Rightarrow>
          (if frameType AND 0x02 = 0 then Inr (length data)
           else
             (case varintAt data off of Inl e \<Rightarrow> Inl ''short STREAM frame''
              | Inr (len, off) \<Rightarrow>
                 (if len > length data - off then Inl ''short STREAM frame'' else Inr (off + len)))))
    else if frameType = 0x10 \<or> frameType = 0x12 \<or> frameType = 0x13 \<or> frameType = 0x14
      \<or> frameType = 0x16 \<or> frameType = 0x17 \<or> frameType = 0x19 then skipVarints data off 1
    else if frameType = 0x11 \<or> frameType = 0x15 then skipVarints data off 2
    else if frameType = 0x18 then
      (case skipVarints data off 2 of Inl e \<Rightarrow> Inl e
       | Inr off \<Rightarrow>
          (if off \<ge> length data then Inl ''short NEW_CONNECTION_ID frame''
           else
             (let cidLen = unat (data ! off); off = off + 1 in
              if cidLen > 20 \<or> off + cidLen + 16 > length data
              then Inl ''short NEW_CONNECTION_ID frame''
              else Inr (off + cidLen + 16))))
    else if frameType = 0x1a \<or> frameType = 0x1b then
      (if off + 8 > length data then Inl ''short PATH frame'' else Inr (off + 8))
    else if frameType = 0x1c \<or> frameType = 0x1d then
      (case skipVarints data off (if frameType = 0x1c then 2 else 1) of Inl e \<Rightarrow> Inl e
       | Inr off \<Rightarrow>
          (case varintAt data off of Inl e \<Rightarrow> Inl ''short CONNECTION_CLOSE frame''
           | Inr (reasonLen, off) \<Rightarrow>
              (if reasonLen > length data - off then Inl ''short CONNECTION_CLOSE frame''
               else Inr (off + reasonLen))))
    else if frameType = 0x30 then Inr (length data)
    else if frameType = 0x31 then
      (case varintAt data off of Inl e \<Rightarrow> Inl ''short DATAGRAM frame''
       | Inr (len, off) \<Rightarrow>
          (if len > length data - off then Inl ''short DATAGRAM frame'' else Inr (off + len)))
    else Inl ''unsupported frame'')"

definition frameEnd :: "bytes \<Rightarrow> nat \<Rightarrow> error + nat" where
  "frameEnd data start =
    (if start \<ge> length data then Inl ''short frame''
     else frameRest (data ! start) data (start + 1))"

text \<open>The frame types that extend to the end of the packet: STREAM and DATAGRAM without a length.\<close>

definition runsToEnd :: "byte \<Rightarrow> bool" where
  "runsToEnd t = (t \<ge> 0x08 \<and> t \<le> 0x0f \<and> t AND 0x02 = 0 \<or> t = 0x30)"

subsection \<open>Frames are read locally\<close>

text \<open>
  The contracts of \<open>Quic_Readers\<close> for the ACK parser and, for every frame type with a
  length of its own, for the code after the type byte.
\<close>

lemma reader_readVarints [readers]: "reader (readVarints n)"
proof (induction n)
  case 0
  show ?case by (simp only: readVarints.simps) (rule reader_return)
next
  case (Suc n)
  show ?case
    by (simp only: readVarints.simps [abs_def]) (intro reader_bind reader_varintAt Suc reader_return)
qed


lemma reader_parseAckRanges [readers]: "reader (parseAckRanges n previous)"
proof (induction n arbitrary: previous)
  case 0
  show ?case by (simp only: parseAckRanges.simps) (rule reader_return)
next
  case (Suc n)
  show ?case
    by (simp only: parseAckRanges.simps [abs_def])
      (intro reader_bind reader_varintAt reader_if reader_fail Suc reader_return)
qed

text \<open>A count that is checked against the bytes left, when reading consumes that many.\<close>

interpretation ack_range_list: reader "parseAckRanges n previous" for n previous
  by (rule reader_parseAckRanges)

interpretation ack_ecn_counts: reader "readVarints n" for n
  by (rule reader_readVarints)

lemma reader_count:
  assumes r: "reader r"
    and need: "\<And>d off v e. r d off = Inr (v, e) \<Longrightarrow> off \<le> length d \<Longrightarrow> off + n \<le> e"
  shows "reader (\<lambda>d off. if n > length d - off then Inl x else r d off)"
proof
  fix a m z a' z' :: bytes and v e
  assume "(if n > length (a @ m @ z) - length a then Inl x else r (a @ m @ z) (length a)) = Inr (v, e)"
    and e: "e \<le> length a + length m"
  then have v: "r (a @ m @ z) (length a) = Inr (v, e)"
    by (simp split: if_splits)
  from need [OF v] e have "n \<le> length m"
    by simp
  with reader.confined [OF r v e, of a' z']
  show "length a \<le> e \<and> (if n > length (a' @ m @ z') - length a' then Inl x else r (a' @ m @ z') (length a'))
    = Inr (v, length a' + (e - length a))"
    by simp
next
  fix d off v e
  assume "(if n > length d - off then Inl x else r d off) = Inr (v, e)" "off \<le> length d"
  then show "off \<le> e \<and> e \<le> length d"
    using reader.inside [OF r] by (simp split: if_splits)
qed

lemma parseAckRanges_consumes:
  "parseAckRanges n p d off = Inr (rs, e) \<Longrightarrow> off \<le> length d \<Longrightarrow> off + 2 * n \<le> e \<and> length rs = n"
proof (induction n arbitrary: p off rs)
  case (Suc n)
  from Suc.prems obtain gap o1 span o2 rs' where
    1: "varintAt d off = Inr (gap, o1)" and 2: "varintAt d o1 = Inr (span, o2)"
    and 3: "parseAckRanges n (p - gap - 2 - span) d o2 = Inr (rs', e)"
    and rs: "rs = \<lparr>smallest = p - gap - 2 - span, largest = p - gap - 2\<rparr> # rs'"
    by (auto split: sum.splits if_splits)
  from varintAt_bounds [OF 1] varintAt_bounds [OF 2] Suc.IH [OF 3] rs show ?case
    by auto
qed simp

lemma reader_parseAckFrame [readers]: "reader (\<lambda>d off. parseAckFrame d off t)"
proof -
  have tail: "reader (\<lambda>data off. case varintAt data off of Inl e \<Rightarrow> Inl ''invalid ACK first range''
      | Inr (firstRange, off) \<Rightarrow>
        (if firstRange > lrg then Inl ''invalid ACK first range''
         else (case parseAckRanges n (lrg - firstRange) data off of Inl e \<Rightarrow> Inl e
           | Inr (rs, off) \<Rightarrow>
             (case readVarints (if t = 0x03 then 3 else 0) data off of Inl e \<Rightarrow> Inl e
              | Inr (ecn, off) \<Rightarrow> Inr (\<lparr>ack_type = t, ack_delay = delay,
                  ack_ranges = \<lparr>smallest = lrg - firstRange, largest = lrg\<rparr> # rs,
                  ack_ecn = (if t = 0x03 then ecn else [0, 0, 0])\<rparr>, off)))))" (is "reader ?r")
    for lrg delay n
    by (intro readers)
  have "off + n \<le> e" if "(case varintAt d off of Inl e \<Rightarrow> Inl ''invalid ACK first range''
      | Inr (firstRange, off) \<Rightarrow>
        (if firstRange > lrg then Inl ''invalid ACK first range''
         else (case parseAckRanges n (lrg - firstRange) d off of Inl e \<Rightarrow> Inl e
           | Inr (rs, off) \<Rightarrow>
             (case readVarints (if t = 0x03 then 3 else 0) d off of Inl e \<Rightarrow> Inl e
              | Inr (ecn, off) \<Rightarrow> Inr (\<lparr>ack_type = t, ack_delay = delay,
                  ack_ranges = \<lparr>smallest = lrg - firstRange, largest = lrg\<rparr> # rs,
                  ack_ecn = (if t = 0x03 then ecn else [0, 0, 0])\<rparr>, off))))) = Inr (v, e)"
    and off: "off \<le> length d" for lrg delay n d off v e
  proof -
    from that obtain f o1 rs o2 ecn where 1: "varintAt d off = Inr (f, o1)"
      and 2: "parseAckRanges n (lrg - f) d o1 = Inr (rs, o2)"
      and 3: "readVarints (if t = 0x03 then 3 else 0) d o2 = Inr (ecn, e)"
      by (auto split: sum.splits if_splits)
    from varintAt_bounds [OF 1] parseAckRanges_consumes [OF 2]
      ack_range_list.inside [OF 2] ack_ecn_counts.inside [OF 3]
    show ?thesis by linarith
  qed
  then show ?thesis
    unfolding parseAckFrame_def
    by (intro reader_bind reader_varintAt reader_count tail)
qed

text \<open>One byte, then the rest.\<close>

text \<open>The ACK parsers and the parser of the CRYPTO frame keep the reader contract.\<close>

interpretation ack_frame: reader "\<lambda>d off. parseAckFrame d off t" for t
  by (rule reader_parseAckFrame)

lemma ender_byte:
  assumes f: "\<And>v. ender (f v)"
  shows "ender (\<lambda>d off. if off \<ge> length d then Inl x else f (d ! off) d (off + 1))"
proof -
  have b: "reader (\<lambda>d off. if off \<ge> length d then Inl x else Inr (d ! off, off + 1))"
  proof
    fix a m z a' z' :: bytes and v e
    assume "(if length a \<ge> length (a @ m @ z) then Inl x else Inr ((a @ m @ z) ! length a, length a + 1)) = Inr (v, e)"
      and "e \<le> length a + length m"
    then show "length a \<le> e \<and> (if length a' \<ge> length (a' @ m @ z') then Inl x
      else Inr ((a' @ m @ z') ! length a', length a' + 1)) = Inr (v, length a' + (e - length a))"
      by (cases m) (auto split: if_splits)
  qed (auto split: if_splits)
  have "ender (\<lambda>d off. case (if off \<ge> length d then Inl x else Inr (d ! off, off + 1)) of
      Inl e \<Rightarrow> Inl e | Inr (v, o1) \<Rightarrow> f v d o1)"
    by (intro ender_bind b f)
  moreover have "(\<lambda>d off. case (if off \<ge> length d then Inl x else Inr (d ! off, off + 1)) of
      Inl e \<Rightarrow> Inl e | Inr (v, o1) \<Rightarrow> f v d o1) =
    (\<lambda>d off. if off \<ge> length d then Inl x else f (d ! off) d (off + 1))"
    by (intro ext) auto
  ultimately show ?thesis
    by simp
qed

lemma ender_cid:
  "ender (\<lambda>d off. if n > 20 \<or> off + n + 16 > length d then Inl x else Inr (off + n + 16))"
  by unfold_locales (auto split: if_splits)

lemma ender_frameRest: "\<not> runsToEnd t \<Longrightarrow> ender (frameRest t)"
  unfolding frameRest_def [abs_def] Let_def
  by (intro readers ender_byte ender_cid) (unfold runsToEnd_def, blast+)

interpretation crypto_rest: ender "frameRest 0x06"
  by (rule ender_frameRest) (simp add: runsToEnd_def)

lemma frameRest_runsToEnd:
  assumes "runsToEnd t"
  shows "frameRest t d off =
    (case skipVarints d off (if t = 0x30 then 0 else if t AND 0x04 \<noteq> 0 then 2 else 1) of
       Inl e \<Rightarrow> Inl e | Inr _ \<Rightarrow> Inr (length d))"
proof (cases "t = 0x30")
  case True
  then show ?thesis by (simp add: frameRest_def)
next
  case False
  with assms have b: "0x08 \<le> t" "t \<le> 0x0f" "t AND 0x02 = 0"
    by (auto simp: runsToEnd_def)
  then have "t \<notin> {0, 1, 0x1e, 2, 3, 4, 5, 6, 7}"
    by (auto simp: word_le_nat_alt)
  with b False show ?thesis
    by (simp add: frameRest_def split: sum.split)
qed

lemma runsToEnd_frameRest: "runsToEnd t \<Longrightarrow> frameRest t d off = Inr e \<Longrightarrow> e = length d"
  by (simp add: frameRest_runsToEnd split: sum.splits)

text \<open>A frame that parses is a non-empty piece of the packet.\<close>

lemma frameEnd_bounds: "frameEnd d start = Inr e \<Longrightarrow> start < e \<and> e \<le> length d"
proof -
  assume a: "frameEnd d start = Inr e"
  then have s: "start < length d" and r: "frameRest (d ! start) d (start + 1) = Inr e"
    by (auto simp: frameEnd_def split: if_splits)
  show ?thesis
  proof (cases "runsToEnd (d ! start)")
    case True
    from runsToEnd_frameRest [OF True r] s show ?thesis by simp
  next
    case False
    from ender.inside [OF ender_frameRest [OF False] r] s show ?thesis by simp
  qed
qed

text \<open>The bytes of a frame with a length of its own are the same frame anywhere.\<close>

lemma frameEnd_moved:
  assumes "frameEnd d start = Inr e" and "\<not> runsToEnd (d ! start)"
  shows "frameEnd (a @ take (e - start) (drop start d) @ z) (length a) = Inr (length a + (e - start))"
proof -
  have b: "start < e" "e \<le> length d"
    using frameEnd_bounds [OF assms(1)] by auto
  from assms have r: "frameRest (d ! start) d (start + 1) = Inr e"
    by (auto simp: frameEnd_def split: if_splits)
  have pieces: "take (e - start) (drop start d) = d ! start # take (e - (start + 1)) (drop (start + 1) d)"
    using b by (simp add: Cons_nth_drop_Suc [symmetric] take_Cons' drop_Suc)
  have "length a + 1 + (e - (start + 1)) = length a + (e - start)"
    using b by linarith
  with ender.moved [OF ender_frameRest [OF assms(2)] r, of "a @ [d ! start]" z] b
  show ?thesis
    by (simp add: frameEnd_def pieces del: diff_Suc_Suc)
qed

subsection \<open>Well-formed ACK frames\<close>

text \<open>
  Ranges in descending order with a gap between any two, every number a valid packet
  number, and counters only in the frame type that carries them.
\<close>

definition ackRangesOk :: "ackRange list \<Rightarrow> bool" where
  "ackRangesOk rs \<longleftrightarrow> rs \<noteq> [] \<and> sorted_wrt (\<lambda>r q. largest q + 2 \<le> smallest r) rs
    \<and> (\<forall>r \<in> set rs. smallest r \<le> largest r \<and> largest r < 4611686018427387904)"

definition ackOk :: "ackFrame \<Rightarrow> bool" where
  "ackOk ack \<longleftrightarrow> ackRangesOk (ack_ranges ack) \<and> ack_delay ack < 4611686018427387904
    \<and> length (ack_ecn ack) = 3 \<and> (\<forall>c \<in> set (ack_ecn ack). c < 4611686018427387904)
    \<and> (ack_type ack = 0x03 \<or> ack_ecn ack = [0, 0, 0])"

definition acked :: "ackRange list \<Rightarrow> nat set" where
  "acked rs = (\<Union>r \<in> set rs. {smallest r..largest r})"

lemma acked_simps [simp]:
  "acked [] = {}" "acked (r # rs) = {smallest r..largest r} \<union> acked rs"
  "acked (rs @ ss) = acked rs \<union> acked ss"
  by (auto simp: acked_def)

lemma parseAckRanges_ok:
  assumes "parseAckRanges n p d off = Inr (rs, e)" and "p < 4611686018427387904"
  shows "sorted_wrt (\<lambda>r q. largest q + 2 \<le> smallest r) rs
    \<and> (\<forall>r \<in> set rs. smallest r \<le> largest r \<and> largest r + 2 \<le> p)"
  using assms
proof (induction n arbitrary: p off rs)
  case (Suc n)
  from Suc.prems(1) obtain gap o1 span o2 rs' where
    3: "parseAckRanges n (p - gap - 2 - span) d o2 = Inr (rs', e)"
    and le: "gap \<le> p" "2 \<le> p - gap" "span \<le> p - gap - 2"
    and rs: "rs = \<lparr>smallest = p - gap - 2 - span, largest = p - gap - 2\<rparr> # rs'"
    by (auto simp: not_less split: sum.splits if_splits)
  from Suc.IH [OF 3] Suc.prems(2) le show ?case
    by (fastforce simp: rs)
qed simp

lemma readVarints_ok:
  "readVarints n d off = Inr (vs, e) \<Longrightarrow> length vs = n \<and> (\<forall>v \<in> set vs. v < 4611686018427387904)"
proof (induction n arbitrary: off vs)
  case (Suc n)
  then obtain v o1 vs' where 1: "varintAt d off = Inr (v, o1)" "readVarints n d o1 = Inr (vs', e)" "vs = v # vs'"
    by (auto split: sum.splits)
  from varintAt_bounds [OF 1(1)] Suc.IH [OF 1(2)] 1(3) show ?case by auto
qed simp

lemma parseAckFrame_ok:
  assumes "parseAckFrame d off t = Inr (ack, e)"
  shows "ackOk ack \<and> ack_type ack = t"
proof -
  from assms obtain l o1 dl o2 n o3 f o4 rs o5 ecn where
    1: "varintAt d off = Inr (l, o1)" and 2: "varintAt d o1 = Inr (dl, o2)"
    and 3: "varintAt d o2 = Inr (n, o3)" and 4: "varintAt d o3 = Inr (f, o4)" and fl: "f \<le> l"
    and 5: "parseAckRanges n (l - f) d o4 = Inr (rs, o5)"
    and 6: "readVarints (if t = 0x03 then 3 else 0) d o5 = Inr (ecn, e)"
    and ack: "ack = \<lparr>ack_type = t, ack_delay = dl, ack_ranges = \<lparr>smallest = l - f, largest = l\<rparr> # rs,
      ack_ecn = (if t = 0x03 then ecn else [0, 0, 0])\<rparr>"
    by (auto simp: parseAckFrame_def not_less split: sum.splits if_splits)
  have l: "l < 4611686018427387904" "dl < 4611686018427387904"
    using varintAt_bounds [OF 1] varintAt_bounds [OF 2] by auto
  then have "l - f < 4611686018427387904" by simp
  from parseAckRanges_ok [OF 5 this] l fl readVarints_ok [OF 6] show ?thesis
    by (fastforce simp: ackOk_def ackRangesOk_def ack)
qed

lemma ackRanges_count:
  "sorted_wrt (\<lambda>r q. largest q + 2 \<le> smallest r) (r # rs) \<Longrightarrow> (\<forall>q \<in> set rs. smallest q \<le> largest q)
    \<Longrightarrow> 2 * length rs \<le> smallest r"
proof (induction rs arbitrary: r)
  case (Cons q rs)
  then have "2 * length rs \<le> smallest q" "largest q + 2 \<le> smallest r" "smallest q \<le> largest q"
    by auto
  then show ?case by simp
qed simp

subsection \<open>Printing a well-formed ACK frame and parsing it back\<close>

fun ackRangesBytes :: "ackRange \<Rightarrow> ackRange list \<Rightarrow> bytes" where
  "ackRangesBytes p [] = []"
| "ackRangesBytes p (r # rs) =
    writeVarint (smallest p - largest r - 2) @ writeVarint (largest r - smallest r) @ ackRangesBytes r rs"

definition ackBytes :: "ackFrame \<Rightarrow> bytes" where
  "ackBytes ack =
    (let r0 = hd (ack_ranges ack); rs = tl (ack_ranges ack)
     in writeVarint (largest r0) @ writeVarint (ack_delay ack) @ writeVarint (length rs)
        @ writeVarint (largest r0 - smallest r0) @ ackRangesBytes r0 rs
        @ (if ack_type ack = 0x03 then concat (map writeVarint (ack_ecn ack)) else []))"

lemma appendAckRanges_ok:
  assumes "ackRangesOk (p # rs)"
  shows "appendAckRanges dst p rs = Inr (dst @ ackRangesBytes p rs)"
  using assms
proof (induction rs arbitrary: dst p)
  case (Cons r rs)
  then have "ackRangesOk (r # rs)" and le: "largest r + 2 \<le> smallest p" "smallest p \<le> largest p"
    "largest p < 4611686018427387904" "smallest r \<le> largest r"
    by (auto simp: ackRangesOk_def)
  with Cons.IH [of r] show ?case
    by simp
qed simp

lemma appendAckFrame_ok:
  assumes "ackOk ack"
  shows "appendAckFrame dst ack = Inr (dst @ ack_type ack # ackBytes ack)"
proof -
  from assms obtain r0 rs where rs: "ack_ranges ack = r0 # rs" and ok: "ackRangesOk (r0 # rs)"
    by (cases "ack_ranges ack") (auto simp: ackOk_def ackRangesOk_def)
  then have "\<not> (\<exists>r \<in> set (ack_ranges ack). largest r < smallest r)" "smallest r0 \<le> largest r0"
    "largest r0 < 4611686018427387904"
    by (auto simp: ackRangesOk_def)
  with rs appendAckRanges_ok [OF ok] show ?thesis
    by (simp add: appendAckFrame_def ackBytes_def Let_def)
qed

lemma varintAt_at: "v < 4611686018427387904 \<Longrightarrow> length a = off \<Longrightarrow> d = a @ writeVarint v @ z \<Longrightarrow>
    varintAt d off = Inr (v, off + length (writeVarint v))"
  using varintAt_writeVarint by simp

lemma parseAckRanges_bytes:
  assumes "ackRangesOk (p # rs)"
  shows "parseAckRanges (length rs) (smallest p) (a @ ackRangesBytes p rs @ z) (length a) =
    Inr (rs, length a + length (ackRangesBytes p rs))"
  using assms
proof (induction rs arbitrary: a p)
  case (Cons r rs)
  let ?g = "smallest p - largest r - 2" and ?s = "largest r - smallest r"
  have ok: "ackRangesOk (r # rs)" and le: "largest r + 2 \<le> smallest p" "smallest p \<le> largest p"
    "largest p < 4611686018427387904" "smallest r \<le> largest r"
    using Cons.prems by (auto simp: ackRangesOk_def)
  let ?d = "a @ ackRangesBytes p (r # rs) @ z"
  have 1: "varintAt ?d (length a) = Inr (?g, length a + length (writeVarint ?g))"
    using le by (intro varintAt_at [OF _ refl]) simp_all
  have 2: "varintAt ?d (length a + length (writeVarint ?g)) =
      Inr (?s, length a + length (writeVarint ?g) + length (writeVarint ?s))"
    using le by (intro varintAt_at [where a = "a @ writeVarint ?g"]) simp_all
  have next': "smallest p - ?g - 2 = largest r" "largest r - ?s = smallest r" "?g \<le> smallest p"
    using le by auto
  have 3: "parseAckRanges (length rs) (smallest r) ?d (length a + length (writeVarint ?g) + length (writeVarint ?s)) =
      Inr (rs, length a + length (ackRangesBytes p (r # rs)))"
    using Cons.IH [OF ok, of "a @ writeVarint ?g @ writeVarint ?s"] by (simp add: ac_simps)
  have "\<not> (?g > smallest p \<or> smallest p - ?g < 2)" "\<not> ?s > smallest p - ?g - 2"
    using le by auto
  then show ?case
    by (simp only: length_Cons parseAckRanges.simps 1 2 sum.case prod.case if_False next' 3) simp
qed simp

lemma readVarints_bytes:
  "\<forall>v \<in> set vs. v < 4611686018427387904 \<Longrightarrow>
    readVarints (length vs) (a @ concat (map writeVarint vs) @ z) (length a) =
      Inr (vs, length a + length (concat (map writeVarint vs)))"
proof (induction vs arbitrary: a)
  case (Cons v vs)
  have 1: "varintAt (a @ concat (map writeVarint (v # vs)) @ z) (length a) = Inr (v, length a + length (writeVarint v))"
    using Cons.prems by (intro varintAt_at [OF _ refl]) simp_all
  have "readVarints (length vs) (a @ concat (map writeVarint (v # vs)) @ z) (length a + length (writeVarint v)) =
      Inr (vs, length a + length (concat (map writeVarint (v # vs))))"
    using Cons.IH [of "a @ writeVarint v"] Cons.prems by simp
  then show ?case
    by (simp only: length_Cons readVarints.simps 1 sum.case prod.case)
qed simp

lemma length_ackRangesBytes: "length rs \<le> length (ackRangesBytes p rs)"
proof (induction rs arbitrary: p)
  case (Cons r rs)
  from Cons [of r] length_writeVarint_bounds(1) [of "smallest p - largest r - 2"] show ?case
    by (simp only: length_Cons ackRangesBytes.simps length_append)
qed simp

lemma parseAckFrame_bytes:
  assumes ok: "ackOk ack"
  shows "parseAckFrame (a @ ackBytes ack @ z) (length a) (ack_type ack) = Inr (ack, length a + length (ackBytes ack))"
proof -
  from ok obtain r0 rs where rs: "ack_ranges ack = r0 # rs" and rok: "ackRangesOk (r0 # rs)"
    by (cases "ack_ranges ack") (auto simp: ackOk_def ackRangesOk_def)
  have le: "smallest r0 \<le> largest r0" "largest r0 < 4611686018427387904" "2 * length rs \<le> smallest r0"
    "ack_delay ack < 4611686018427387904"
    using rok ok ackRanges_count [of r0 rs] by (auto simp: ackRangesOk_def ackOk_def)
  let ?b = "writeVarint (largest r0)" and ?c = "writeVarint (ack_delay ack)" and ?n = "writeVarint (length rs)"
    and ?f = "writeVarint (largest r0 - smallest r0)"
    and ?e = "if ack_type ack = 0x03 then concat (map writeVarint (ack_ecn ack)) else []"
  define d where "d = a @ ackBytes ack @ z"
  have d: "d = a @ ?b @ ?c @ ?n @ ?f @ ackRangesBytes r0 rs @ ?e @ z"
    by (simp add: d_def ackBytes_def rs Let_def)
  let ?o1 = "length a + length ?b" 
  let ?o2 = "?o1 + length ?c"
  let ?o3 = "?o2 + length ?n"
  let ?o4 = "?o3 + length ?f"
  let ?o5 = "?o4 + length (ackRangesBytes r0 rs)"
  have 1: "varintAt d (length a) = Inr (largest r0, ?o1)"
    using le d by (intro varintAt_at) simp_all
  have 2: "varintAt d ?o1 = Inr (ack_delay ack, ?o2)"
    using le d by (intro varintAt_at [where a = "a @ ?b"]) simp_all
  have 3: "varintAt d ?o2 = Inr (length rs, ?o3)"
    using le d by (intro varintAt_at [where a = "a @ ?b @ ?c"]) simp_all
  have 4: "varintAt d ?o3 = Inr (largest r0 - smallest r0, ?o4)"
    using le d by (intro varintAt_at [where a = "a @ ?b @ ?c @ ?n"]) simp_all
  have 5: "parseAckRanges (length rs) (smallest r0) d ?o4 = Inr (rs, ?o5)"
    using parseAckRanges_bytes [OF rok, of "a @ ?b @ ?c @ ?n @ ?f" "?e @ z"] by (simp add: d ac_simps)
  have 6: "readVarints (if ack_type ack = 0x03 then 3 else 0) d ?o5 =
      Inr (if ack_type ack = 0x03 then ack_ecn ack else [], ?o5 + length ?e)"
    using readVarints_bytes [of "ack_ecn ack" "a @ ?b @ ?c @ ?n @ ?f @ ackRangesBytes r0 rs" z] ok
    by (auto simp add: d ackOk_def ac_simps)
  have cnt: "\<not> length rs > length d - ?o3"
    using length_ackRangesBytes [of rs r0] by (simp add: d)
  have f: "\<not> largest r0 - smallest r0 > largest r0" "largest r0 - (largest r0 - smallest r0) = smallest r0"
    using le by auto
  have len: "?o5 + length ?e = length a + length (ackBytes ack)"
    by (simp add: ackBytes_def rs Let_def)
  have r: "\<lparr>smallest = smallest r0, largest = largest r0\<rparr> = r0"
    by simp
  have ecn: "(if ack_type ack = 3 then if ack_type ack = 3 then ack_ecn ack else [] else [0, 0, 0]) = ack_ecn ack"
    using ok by (auto simp: ackOk_def)
  have "parseAckFrame d (length a) (ack_type ack) = Inr (\<lparr>ack_type = ack_type ack, ack_delay = ack_delay ack,
      ack_ranges = r0 # rs, ack_ecn = ack_ecn ack\<rparr>, ?o5 + length ?e)"
    by (simp only: parseAckFrame_def 1 2 3 4 sum.case prod.case cnt f if_False 5 6 r ecn)
  then show ?thesis
    unfolding len d_def by (simp flip: rs)
qed


subsection \<open>Mapping the acknowledged numbers of a frame\<close>

lemma mapAckPN_eq: "first < 18446744073709551615 \<Longrightarrow> mapAckPN pn first = (if pn \<le> first then pn else pn - 1)"
  by (simp add: mapAckPN_def)

lemma mapAckPN_mono: "first < 18446744073709551615 \<Longrightarrow> p \<le> q \<Longrightarrow> mapAckPN p first \<le> mapAckPN q first"
  by (auto simp: mapAckPN_eq)

lemma mapAckPN_interval:
  assumes "first < 18446744073709551615" and "s \<le> l"
  shows "(\<lambda>p. mapAckPN p first) ` {s..l} = {mapAckPN s first..mapAckPN l first}"
proof
  show "(\<lambda>p. mapAckPN p first) ` {s..l} \<subseteq> {mapAckPN s first..mapAckPN l first}"
    using mapAckPN_mono [OF assms(1)] by auto
next
  show "{mapAckPN s first..mapAckPN l first} \<subseteq> (\<lambda>p. mapAckPN p first) ` {s..l}"
  proof
    fix q assume q: "q \<in> {mapAckPN s first..mapAckPN l first}"
    define p where "p = (if q \<le> first \<and> s \<le> q then q else Suc q)"
    have "p \<in> {s..l}" "mapAckPN p first = q"
      using q assms by (auto simp: p_def mapAckPN_eq split: if_splits)
    then show "q \<in> (\<lambda>p. mapAckPN p first) ` {s..l}"
      by force
  qed
qed

text \<open>One step keeps the ranges in order, and adds the image of the range it is given.\<close>

lemma remapRange_step:
  assumes first: "first < 18446744073709551615"
    and m: "ackRangesOk m" "smallest (last m) = mapAckPN p first"
    and r: "smallest r \<le> largest r" "largest r + 2 \<le> p" "p < 4611686018427387904"
  shows "ackRangesOk (remapRange first m r) \<and> smallest (last (remapRange first m r)) = mapAckPN (smallest r) first
    \<and> acked (remapRange first m r) = acked m \<union> (\<lambda>p. mapAckPN p first) ` {smallest r..largest r}"
proof -
  obtain m' q where mq: "m = m' @ [q]"
    using m(1) by (cases m rule: rev_exhaust) (auto simp: ackRangesOk_def)
  let ?s = "mapAckPN (smallest r) first" and ?l = "mapAckPN (largest r) first"
  have q: "smallest q = mapAckPN p first" "smallest q \<le> largest q"
    using m by (auto simp: mq ackRangesOk_def)
  have b: "?s \<le> ?l" "?l + 1 \<le> mapAckPN p first" "?l < 4611686018427387904"
    using r first by (auto simp: mapAckPN_eq)
  have img: "(\<lambda>p. mapAckPN p first) ` {smallest r..largest r} = {?s..?l}"
    by (rule mapAckPN_interval [OF first r(1)])
  show ?thesis
  proof (cases "?l + 1 \<ge> smallest q")
    case True
    then have step: "remapRange first m r = m' @ [q\<lparr>smallest := ?s\<rparr>]"
      using b q by (simp add: remapRange_def Let_def mq)
    have "ackRangesOk (m' @ [q\<lparr>smallest := ?s\<rparr>])"
      using m(1) b q True by (auto simp: mq ackRangesOk_def sorted_wrt_append)
    moreover have "{?s..largest q} = {smallest q..largest q} \<union> {?s..?l}"
      using b q True by auto
    ultimately show ?thesis
      by (simp add: step img) (simp add: mq Un_assoc)
  next
    case False
    then have step: "remapRange first m r = m @ [\<lparr>smallest = ?s, largest = ?l\<rparr>]"
      using b q by (simp add: remapRange_def Let_def mq)
    have "largest r' + 0 \<ge> smallest r' \<and> ?l + 2 \<le> smallest r'" if "r' \<in> set m" for r'
    proof -
      have "smallest q \<le> smallest r'" "smallest r' \<le> largest r'"
        using that m(1) q by (auto simp: mq ackRangesOk_def sorted_wrt_append)
      with False show ?thesis by simp
    qed
    then have "ackRangesOk (m @ [\<lparr>smallest = ?s, largest = ?l\<rparr>])"
      using m(1) b by (auto simp: ackRangesOk_def sorted_wrt_append)
    then show ?thesis
      by (simp add: step img)
  qed
qed

lemma foldl_remapRange:
  assumes "first < 18446744073709551615" and "ackRangesOk m" "smallest (last m) = mapAckPN (smallest p) first"
    and "ackRangesOk (p # rs)"
  shows "ackRangesOk (foldl (remapRange first) m rs)
    \<and> acked (foldl (remapRange first) m rs) = acked m \<union> (\<lambda>p. mapAckPN p first) ` acked rs"
  using assms(2-)
proof (induction rs arbitrary: m p)
  case (Cons r rs)
  have r: "smallest r \<le> largest r" "largest r + 2 \<le> smallest p" "smallest p < 4611686018427387904"
    and ok: "ackRangesOk (r # rs)"
    using Cons.prems(3) by (auto simp: ackRangesOk_def)
  from remapRange_step [OF assms(1) Cons.prems(1,2) r] Cons.IH [OF _ _ ok] show ?case
    by (simp add: image_Un Un_assoc)
qed simp

lemma remapAck_ok:
  assumes first: "first < 18446744073709551615" and ok: "ackOk ack"
  shows "ackOk (remapAck ack first)
    \<and> acked (ack_ranges (remapAck ack first)) = (\<lambda>p. mapAckPN p first) ` acked (ack_ranges ack)"
proof -
  from ok obtain r0 rs where rs: "ack_ranges ack = r0 # rs" and rok: "ackRangesOk (r0 # rs)"
    by (cases "ack_ranges ack") (auto simp: ackOk_def ackRangesOk_def)
  have r0: "smallest r0 \<le> largest r0" "largest r0 < 4611686018427387904"
    using rok by (auto simp: ackRangesOk_def)
  let ?m = "[\<lparr>smallest = mapAckPN (smallest r0) first, largest = mapAckPN (largest r0) first\<rparr>]"
  have "mapAckPN (largest r0) first < 4611686018427387904"
    using r0 first by (auto simp: mapAckPN_eq)
  then have m: "ackRangesOk ?m"
    using mapAckPN_mono [OF first r0(1)] by (simp add: ackRangesOk_def)
  have step: "ack_ranges (remapAck ack first) = foldl (remapRange first) ?m rs"
    by (simp add: remapAck_def rs remapRange_def [of first "[]"])
  have a: "acked ?m = (\<lambda>p. mapAckPN p first) ` {smallest r0..largest r0}"
    using mapAckPN_interval [OF first r0(1)] by simp
  have "ackRangesOk (foldl (remapRange first) ?m rs)
    \<and> acked (foldl (remapRange first) ?m rs) = acked ?m \<union> (\<lambda>p. mapAckPN p first) ` acked rs"
    by (rule foldl_remapRange [OF first m _ rok]) simp
  moreover have "ack_delay (remapAck ack first) = ack_delay ack" "ack_ecn (remapAck ack first) = ack_ecn ack"
    "ack_type (remapAck ack first) = ack_type ack"
    by (simp_all add: remapAck_def)
  ultimately show ?thesis
    using ok unfolding ackOk_def step a by (simp add: rs image_Un)
qed

end
