(* ===== verification/Quic_Rewrite_Acks.thy ===== *)
theory Quic_Rewrite_Acks
  imports Quic_Frames
begin

text \<open>
  Rewriting the ACK frames of a packet (\<open>rewriteAckFrames\<close> of \<open>phantomtcp/quic.go\<close>).
  \<open>frameList\<close> cuts a packet into its frames; the theorems relate the loop of the code to
  a function on that list, and show that what it writes parses again.
\<close>

lemma parseAckFrame_advances:
  "parseAckFrame d off t = Inr (ack, e) \<Longrightarrow> off \<le> length d \<Longrightarrow> off < e \<and> e \<le> length d"
proof -
  assume p: "parseAckFrame d off t = Inr (ack, e)" and off: "off \<le> length d"
  then obtain l o1 dl o2 n o3 f o4 rs o5 ecn where
    1: "varintAt d off = Inr (l, o1)" and 2: "varintAt d o1 = Inr (dl, o2)"
    and 3: "varintAt d o2 = Inr (n, o3)" and 4: "varintAt d o3 = Inr (f, o4)"
    and 5: "parseAckRanges n (l - f) d o4 = Inr (rs, o5)"
    and 6: "readVarints (if t = 0x03 then 3 else 0) d o5 = Inr (ecn, e)"
    by (auto simp: parseAckFrame_def split: sum.splits if_splits)
  from varintAt_bounds [OF 1] varintAt_bounds [OF 2] varintAt_bounds [OF 3] varintAt_bounds [OF 4]
    ack_range_list.inside [OF 5] ack_ecn_counts.inside [OF 6]
  show ?thesis by linarith
qed

function rewriteAckLoop :: "bytes \<Rightarrow> nat \<Rightarrow> nat \<Rightarrow> bytes \<Rightarrow> error + bytes" where
  "rewriteAckLoop plaintext first off out =
    (if off < length plaintext then
       (let frameType = plaintext ! off in
        if frameType = 0x02 \<or> frameType = 0x03 then
          (case parseAckFrame plaintext (off + 1) frameType of Inl e \<Rightarrow> Inl e
           | Inr (ack, end) \<Rightarrow>
              (case appendAckFrame out (remapAck ack first) of Inl e \<Rightarrow> Inl e
               | Inr out \<Rightarrow> rewriteAckLoop plaintext first end out))
        else
          (case frameEnd plaintext off of Inl e \<Rightarrow> Inl e
           | Inr end \<Rightarrow>
              rewriteAckLoop plaintext first end (out @ take (end - off) (drop off plaintext))))
     else Inr out)"
  by pat_completeness auto
termination
  by (relation "measure (\<lambda>(p, _, off, _). length p - off)")
    (auto dest!: frameEnd_bounds parseAckFrame_advances)

declare rewriteAckLoop.simps [simp del]

definition rewriteAckFrames :: "bytes \<Rightarrow> nat \<Rightarrow> error + bytes" where
  "rewriteAckFrames plaintext first = rewriteAckLoop plaintext first 0 []"


subsection \<open>The frames of a packet\<close>

function frameList :: "bytes \<Rightarrow> nat \<Rightarrow> error + bytes list" where
  "frameList data off =
    (if off < length data then
       (case frameEnd data off of Inl e \<Rightarrow> Inl e
        | Inr end \<Rightarrow>
           (case frameList data end of Inl e \<Rightarrow> Inl e
            | Inr fs \<Rightarrow> Inr (take (end - off) (drop off data) # fs)))
     else Inr [])"
  by pat_completeness auto
termination
  by (relation "measure (\<lambda>(p, off). length p - off)") (auto dest!: frameEnd_bounds)

declare frameList.simps [simp del]

text \<open>What rewriting does to one frame.\<close>

definition rewriteFrame :: "nat \<Rightarrow> bytes \<Rightarrow> bytes" where
  "rewriteFrame first f =
    (if hd f = 0x02 \<or> hd f = 0x03 then
       (case parseAckFrame f 1 (hd f) of Inl _ \<Rightarrow> f
        | Inr (ack, _) \<Rightarrow> hd f # ackBytes (remapAck ack first))
     else f)"

lemma frameEnd_ack:
  assumes "frameEnd d off = Inr e" "d ! off = 0x02 \<or> d ! off = 0x03"
  shows "\<exists>ack. parseAckFrame d (off + 1) (d ! off) = Inr (ack, e) \<and>
    parseAckFrame (take (e - off) (drop off d)) 1 (d ! off) = Inr (ack, e - off)"
proof -
  have b: "off < e" "e \<le> length d"
    using frameEnd_bounds [OF assms(1)] by auto
  from assms obtain ack where p: "parseAckFrame d (off + 1) (d ! off) = Inr (ack, e)"
    by (auto simp: frameEnd_def frameRest_def split: if_splits sum.splits)
  have pieces: "take (e - off) (drop off d) = [d ! off] @ take (e - (off + 1)) (drop (off + 1) d)"
    using b by (simp add: Cons_nth_drop_Suc [symmetric] take_Cons' drop_Suc)
  have "length [d ! off] + (e - (off + 1)) = e - off"
    using b by simp
  with ack_frame.moved [OF p, of "[d ! off]" "[]"] b have
    "parseAckFrame (take (e - off) (drop off d)) 1 (d ! off) = Inr (ack, e - off)"
    unfolding pieces by (simp del: append.simps)
  with p show ?thesis by blast
qed

lemma hd_frame: "off < e \<Longrightarrow> e \<le> length d \<Longrightarrow> hd (take (e - off) (drop off d)) = d ! off"
  by (simp add: hd_drop_conv_nth)

lemma rewriteAckLoop_frames:
  assumes first: "first < 18446744073709551615"
  shows "rewriteAckLoop d first off out =
    map_sum id (\<lambda>fs. out @ concat (map (rewriteFrame first) fs)) (frameList d off)"
proof (induction d off arbitrary: out rule: frameList.induct)
  case (1 d off)
  show ?case
  proof (cases "off < length d")
    case False
    then show ?thesis
      by (simp add: rewriteAckLoop.simps frameList.simps)
  next
    case off: True
    let ?f = "\<lambda>e. take (e - off) (drop off d)"
    show ?thesis
    proof (cases "frameEnd d off")
      case (Inl x)
      then have "d ! off = 0x02 \<or> d ! off = 0x03 \<Longrightarrow> parseAckFrame d (off + 1) (d ! off) = Inl x"
        using off by (auto simp: frameEnd_def frameRest_def split: sum.splits)
      with Inl off show ?thesis
        by (subst rewriteAckLoop.simps, subst frameList.simps) (auto simp: Let_def)
    next
      case (Inr e)
      have b: "off < e" "e \<le> length d"
        using frameEnd_bounds [OF Inr] by auto
      note IH = "1.IH" [OF off Inr]
      show ?thesis
      proof (cases "d ! off = 0x02 \<or> d ! off = 0x03")
        case True
        from frameEnd_ack [OF Inr True] obtain ack where
          p: "parseAckFrame d (off + 1) (d ! off) = Inr (ack, e)"
          and pf: "parseAckFrame (?f e) 1 (d ! off) = Inr (ack, e - off)" by blast
        have "ackOk (remapAck ack first)" "ack_type (remapAck ack first) = d ! off"
          using remapAck_ok [OF first] parseAckFrame_ok [OF p] by (auto simp: remapAck_def)
        then have a: "appendAckFrame out (remapAck ack first) = Inr (out @ d ! off # ackBytes (remapAck ack first))"
          for out using appendAckFrame_ok by metis
        have "rewriteFrame first (?f e) = d ! off # ackBytes (remapAck ack first)"
          using True pf by (simp add: rewriteFrame_def hd_frame [OF b])
        with True off p a IH show ?thesis
          by (subst rewriteAckLoop.simps, subst frameList.simps)
            (simp add: Inr Let_def split: sum.splits)
      next
        case False
        then have "rewriteFrame first (?f e) = ?f e"
          by (simp add: rewriteFrame_def hd_frame [OF b])
        with False off IH show ?thesis
          by (subst rewriteAckLoop.simps, subst frameList.simps)
            (simp add: Inr Let_def split: sum.splits)
      qed
    qed
  qed
qed

subsection \<open>Frames that stand on their own\<close>

text \<open>
  A frame is \<open>standsAlone\<close> when it ends where it should wherever it is put, and
  \<open>standsLast\<close> when it does at the end of a packet; only the last frame of a packet may
  be of the second kind only.
\<close>

definition standsAlone :: "bytes \<Rightarrow> bool" where
  "standsAlone f \<longleftrightarrow> f \<noteq> [] \<and> (\<forall>a z. frameEnd (a @ f @ z) (length a) = Inr (length a + length f))"

definition standsLast :: "bytes \<Rightarrow> bool" where
  "standsLast f \<longleftrightarrow> f \<noteq> [] \<and> (\<forall>a. frameEnd (a @ f) (length a) = Inr (length a + length f))"

fun framesStand :: "bytes list \<Rightarrow> bool" where
  "framesStand [] = True"
| "framesStand [f] = standsLast f"
| "framesStand (f # g # fs) = (standsAlone f \<and> framesStand (g # fs))"

lemma standsAlone_Last: "standsAlone f \<Longrightarrow> standsLast f"
  unfolding standsAlone_def standsLast_def by (metis append_Nil2)

lemma framesStand_Cons: "standsAlone f \<Longrightarrow> framesStand fs \<Longrightarrow> framesStand (f # fs)"
  by (cases fs) (auto intro: standsAlone_Last)

lemma frameList_concat:
  "framesStand fs \<Longrightarrow> frameList (a @ concat fs) (length a) = Inr fs"
proof (induction fs arbitrary: a rule: framesStand.induct)
  case 1
  then show ?case by (simp add: frameList.simps)
next
  case (2 f)
  then have "f \<noteq> []" "frameEnd (a @ f) (length a) = Inr (length a + length f)"
    by (auto simp: standsLast_def)
  moreover have "frameList (a @ f) (length a + length f) = Inr []"
    by (simp add: frameList.simps)
  ultimately show ?case
    by (subst frameList.simps) simp
next
  case (3 f g fs)
  let ?z = "concat (g # fs)"
  from 3 have f: "f \<noteq> []" "frameEnd (a @ f @ ?z) (length a) = Inr (length a + length f)"
    by (auto simp: standsAlone_def)
  have "frameList ((a @ f) @ ?z) (length (a @ f)) = Inr (g # fs)"
    using 3 by (intro "3.IH") simp
  then have "frameList (a @ f @ ?z) (length a + length f) = Inr (g # fs)"
    by simp
  with f have "frameList (a @ f @ ?z) (length a) = Inr (f # g # fs)"
    by (subst frameList.simps) simp
  then show ?case by simp
qed

lemma standsAlone_frame:
  assumes e: "frameEnd d off = Inr e" and t: "\<not> runsToEnd (d ! off)"
  shows "standsAlone (take (e - off) (drop off d))"
  using frameEnd_moved [OF e t] frameEnd_bounds [OF e] by (auto simp: standsAlone_def min_def)

lemma standsLast_frame:
  assumes e: "frameEnd d off = Inr e" and t: "runsToEnd (d ! off)"
  shows "e = length d \<and> standsLast (drop off d)"
proof -
  let ?n = "if d ! off = 0x30 then 0 else if d ! off AND 0x04 \<noteq> 0 then 2 else 1"
  from e have off: "off < length d" and r: "frameRest (d ! off) d (off + 1) = Inr e"
    by (auto simp: frameEnd_def split: if_splits)
  from r obtain o1 where o1: "skipVarints d (off + 1) ?n = Inr o1" and el: "e = length d"
    unfolding frameRest_runsToEnd [OF t] by (auto split: sum.splits)
  have b: "off + 1 \<le> o1" "o1 \<le> length d"
    using skipVarints_bounds [OF o1] off by auto
  have d: "drop off d = [d ! off] @ take (o1 - (off + 1)) (drop (off + 1) d) @ drop o1 d"
    using off b by (simp add: Cons_nth_drop_Suc [symmetric] del: diff_Suc_Suc)
      (metis append_take_drop_id drop_drop le_add_diff_inverse2)
  have "frameEnd (a @ drop off d) (length a) = Inr (length a + length (drop off d))" for a
  proof -
    have "skipVarints ((a @ [d ! off]) @ take (o1 - (off + 1)) (drop (off + 1) d) @ drop o1 d)
        (length (a @ [d ! off])) ?n = Inr (length (a @ [d ! off]) + (o1 - (off + 1)))"
      by (rule varint_fields.moved [OF o1]) (use off in simp)
    then have "skipVarints (a @ drop off d) (length a + 1) ?n = Inr (length (a @ [d ! off]) + (o1 - (off + 1)))"
      by (simp add: d)
    then have "frameRest (d ! off) (a @ drop off d) (length a + 1) = Inr (length (a @ drop off d))"
      unfolding frameRest_runsToEnd [OF t] by simp
    moreover have "(a @ drop off d) ! length a = d ! off"
      using off by (simp add: nth_append)
    ultimately show ?thesis
      using off by (simp add: frameEnd_def)
  qed
  with off el show ?thesis
    by (simp add: standsLast_def)
qed

lemma frameList_stand: "frameList d off = Inr fs \<Longrightarrow> framesStand fs \<and> (off \<le> length d \<longrightarrow> concat fs = drop off d)"
proof (induction d off arbitrary: fs rule: frameList.induct)
  case (1 d off)
  show ?case
  proof (cases "off < length d")
    case False
    with "1.prems" show ?thesis
      by (simp add: frameList.simps)
  next
    case True
    with "1.prems" obtain e gs where e: "frameEnd d off = Inr e" and gs: "frameList d e = Inr gs"
      and fs: "fs = take (e - off) (drop off d) # gs"
      by (subst (asm) frameList.simps) (auto split: sum.splits)
    have b: "off < e" "e \<le> length d"
      using frameEnd_bounds [OF e] by auto
    have IH: "framesStand gs" "concat gs = drop e d"
      using "1.IH" [OF True e gs] b by auto
    have cat: "concat fs = drop off d"
      using b by (simp add: fs IH(2)) (metis append_take_drop_id drop_drop le_add_diff_inverse2 less_imp_le)
    show ?thesis
    proof (cases "runsToEnd (d ! off)")
      case True
      from standsLast_frame [OF e True] have "e = length d" "standsLast (drop off d)" by auto
      moreover from this have "gs = []"
        using gs by (simp add: frameList.simps)
      ultimately show ?thesis
        using fs cat by simp
    next
      case False
      with standsAlone_frame [OF e False] IH cat show ?thesis
        by (simp add: fs framesStand_Cons)
    qed
  qed
qed

lemma standsAlone_ack:
  assumes ok: "ackOk ack" and t: "ack_type ack = 0x02 \<or> ack_type ack = 0x03"
  shows "standsAlone (ack_type ack # ackBytes ack)"
proof -
  have "frameEnd (a @ (ack_type ack # ackBytes ack) @ z) (length a) = Inr (length a + length (ack_type ack # ackBytes ack))"
    for a z
    using parseAckFrame_bytes [OF ok, of "a @ [ack_type ack]" z] t
    by (auto simp: frameEnd_def frameRest_def)
  then show ?thesis
    by (simp add: standsAlone_def)
qed

text \<open>
  The specification of one rewritten frame: an ACK frame of the same type whose
  acknowledged numbers are the images under \<open>mapAckPN\<close>, any other frame unchanged.
\<close>

definition ackMapped :: "nat \<Rightarrow> bytes \<Rightarrow> bytes \<Rightarrow> bool" where
  "ackMapped first f g \<longleftrightarrow>
    (if hd f = 0x02 \<or> hd f = 0x03 then
       \<exists>a b. parseAckFrame f 1 (hd f) = Inr (a, length f) \<and> parseAckFrame g 1 (hd g) = Inr (b, length g)
         \<and> hd g = hd f \<and> ack_delay b = ack_delay a \<and> ack_ecn b = ack_ecn a
         \<and> acked (ack_ranges b) = (\<lambda>p. mapAckPN p first) ` acked (ack_ranges a)
     else g = f)"

lemma ack_rewritten:
  assumes first: "first < 18446744073709551615" and e: "frameEnd d off = Inr e"
    and t: "d ! off = 0x02 \<or> d ! off = 0x03"
  shows "standsAlone (rewriteFrame first (take (e - off) (drop off d)))
    \<and> ackMapped first (take (e - off) (drop off d)) (rewriteFrame first (take (e - off) (drop off d)))"
proof -
  let ?f = "take (e - off) (drop off d)"
  have b: "off < e" "e \<le> length d"
    using frameEnd_bounds [OF e] by auto
  from frameEnd_ack [OF e t] obtain ack where pf: "parseAckFrame ?f 1 (d ! off) = Inr (ack, e - off)" by blast
  define r where "r = remapAck ack first"
  have ok: "ackOk r" "ack_type r = d ! off" and ack: "acked (ack_ranges r) = (\<lambda>p. mapAckPN p first) ` acked (ack_ranges ack)"
    and same: "ack_delay r = ack_delay ack" "ack_ecn r = ack_ecn ack"
    using remapAck_ok [OF first] parseAckFrame_ok [OF pf] by (auto simp: r_def remapAck_def)
  have g: "rewriteFrame first ?f = ack_type r # ackBytes r"
    using t pf ok by (simp add: rewriteFrame_def hd_frame [OF b] r_def)
  have "parseAckFrame (ack_type r # ackBytes r) 1 (ack_type r) = Inr (r, length (ack_type r # ackBytes r))"
    using parseAckFrame_bytes [OF ok(1), of "[ack_type r]" "[]"] by simp
  moreover have "length ?f = e - off"
    using b by simp
  ultimately show ?thesis
    using standsAlone_ack [OF ok(1)] t pf ok(2) ack same
    by (auto simp: g ackMapped_def hd_frame [OF b])
qed

lemma rewriteFrame_list:
  assumes "first < 18446744073709551615" and "frameList d off = Inr fs"
  shows "framesStand (map (rewriteFrame first) fs) \<and> list_all2 (ackMapped first) fs (map (rewriteFrame first) fs)"
  using assms(2)
proof (induction d off arbitrary: fs rule: frameList.induct)
  case (1 d off)
  show ?case
  proof (cases "off < length d")
    case False
    with "1.prems" show ?thesis
      by (simp add: frameList.simps)
  next
    case off: True
    with "1.prems" obtain e gs where e: "frameEnd d off = Inr e" and gs: "frameList d e = Inr gs"
      and fs: "fs = take (e - off) (drop off d) # gs"
      by (subst (asm) frameList.simps) (auto split: sum.splits)
    let ?f = "take (e - off) (drop off d)"
    have b: "off < e" "e \<le> length d"
      using frameEnd_bounds [OF e] by auto
    note IH = "1.IH" [OF off e gs]
    show ?thesis
    proof (cases "d ! off = 0x02 \<or> d ! off = 0x03")
      case True
      from ack_rewritten [OF assms(1) e True] IH show ?thesis
        by (simp add: fs framesStand_Cons)
    next
      case False
      then have "rewriteFrame first ?f = ?f" and m: "ackMapped first ?f ?f"
        by (simp_all add: rewriteFrame_def ackMapped_def hd_frame [OF b])
      then show ?thesis
      proof (cases "runsToEnd (d ! off)")
        case True
        from standsLast_frame [OF e True] have "e = length d" "standsLast (drop off d)" by auto
        moreover from this have "gs = []"
          using gs by (simp add: frameList.simps)
        ultimately show ?thesis
          using \<open>rewriteFrame first ?f = ?f\<close> m by (simp add: fs)
      next
        case F: False
        from standsAlone_frame [OF e F] IH \<open>rewriteFrame first ?f = ?f\<close> m show ?thesis
          by (simp add: fs framesStand_Cons)
      qed
    qed
  qed
qed

text \<open>
  The whole of \<open>rewriteAckFrames\<close>: it fails exactly when the packet does not parse, and
  otherwise its output parses into the same frames with their ACKs mapped.
\<close>

lemma rewriteAckFrames_frames:
  assumes "first < 18446744073709551615"
  shows "case frameList plaintext 0 of
      Inl e \<Rightarrow> rewriteAckFrames plaintext first = Inl e
    | Inr fs \<Rightarrow> (\<exists>out gs. rewriteAckFrames plaintext first = Inr out \<and> frameList out 0 = Inr gs
        \<and> list_all2 (ackMapped first) fs gs)"
proof (cases "frameList plaintext 0")
  case (Inl e)
  then show ?thesis
    by (simp add: rewriteAckFrames_def rewriteAckLoop_frames [OF assms])
next
  case (Inr fs)
  from rewriteFrame_list [OF assms Inr] frameList_concat [of "map (rewriteFrame first) fs" "[]"]
  show ?thesis
    by (simp add: Inr rewriteAckFrames_def rewriteAckLoop_frames [OF assms])
qed

end
