(* ===== verification/Quic_Stream.thy ===== *)
theory Quic_Stream
  imports Quic_Rewrite_Acks
begin

text \<open>
  The CRYPTO stream of the Initial packets and the server name in it
  (\<open>phantomtcp/quic.go\<close>): \<open>extractCryptoStream\<close>, \<open>mergeInitialCryptoFrames\<close>,
  \<open>contiguousCryptoStream\<close>, \<open>clientHelloComplete\<close>, \<open>sniHostNameRange\<close>,
  \<open>buildCryptoFrame\<close> and \<open>splitInitialCryptoFrames\<close>. A stream under reassembly is a
  buffer and, per byte, whether it has been received.
\<close>

definition quicUDPPacketSize :: nat where
  "quicUDPPacketSize = 65535"

subsection \<open>One CRYPTO frame\<close>

text \<open>\<open>make\<close> and \<open>copy\<close>: the buffer grown to at least \<open>n\<close> elements.\<close>

definition extendTo :: "nat \<Rightarrow> 'a \<Rightarrow> 'a list \<Rightarrow> 'a list" where
  "extendTo n pad xs = xs @ replicate (n - length xs) pad"

function extractLoop :: "bytes \<Rightarrow> nat \<Rightarrow> bytes \<Rightarrow> error + bytes" where
  "extractLoop frames off stream =
    (if off < length frames then
       (case frameEnd frames off of Inl e \<Rightarrow> Inl e
        | Inr end \<Rightarrow>
           (if frames ! off \<noteq> 0x06 then extractLoop frames end stream
            else
              (case varintAt frames (off + 1) of Inl e \<Rightarrow> Inl e
               | Inr (offset, pos) \<Rightarrow>
                  (case varintAt frames pos of Inl e \<Rightarrow> Inl ''short crypto frame''
                   | Inr (len, pos) \<Rightarrow>
                      (if len > end - pos then Inl ''short crypto frame''
                       else
                         (let streamEnd = u64 (offset + len) in
                          if streamEnd < offset \<or> streamEnd > quicUDPPacketSize
                          then Inl ''invalid crypto frame range''
                          else extractLoop frames end
                            (copy_at (extendTo streamEnd 0 stream) offset (take len (drop pos frames)))))))))
     else Inr stream)"
  by pat_completeness auto
termination
  by (relation "measure (\<lambda>(p, off, _). length p - off)") (auto dest!: frameEnd_bounds)

declare extractLoop.simps [simp del]

definition extractCryptoStream :: "bytes \<Rightarrow> error + bytes" where
  "extractCryptoStream frames = extractLoop frames 0 []"

text \<open>
  The byte loop of the merge: a byte that was received before must be the same. The
  buffers are returned in every case, as the code changes them in place.
\<close>

fun mergeBytes :: "bytes \<Rightarrow> nat \<Rightarrow> bytes \<Rightarrow> bool list \<Rightarrow> error option \<times> bytes \<times> bool list" where
  "mergeBytes [] target stream covered = (None, stream, covered)"
| "mergeBytes (v # vs) target stream covered =
    (if covered ! target \<and> stream ! target \<noteq> v then (Some ''conflicting CRYPTO data'', stream, covered)
     else mergeBytes vs (target + 1) (stream[target := v]) (covered[target := True]))"

function mergeLoop :: "bytes \<Rightarrow> nat \<Rightarrow> bytes \<Rightarrow> bool list \<Rightarrow> error option \<times> bytes \<times> bool list" where
  "mergeLoop plaintext off stream covered =
    (if off < length plaintext then
       (case frameEnd plaintext off of Inl e \<Rightarrow> (Some e, stream, covered)
        | Inr end \<Rightarrow>
           (if plaintext ! off \<noteq> 0x06 then mergeLoop plaintext end stream covered
            else
              (case varintAt plaintext (off + 1) of Inl e \<Rightarrow> (Some e, stream, covered)
               | Inr (offset, pos) \<Rightarrow>
                  (case varintAt plaintext pos of Inl e \<Rightarrow> (Some ''invalid CRYPTO frame'', stream, covered)
                   | Inr (len, pos) \<Rightarrow>
                      (if len > end - pos \<or> u64 (offset + len) < offset
                          \<or> u64 (offset + len) > quicUDPPacketSize
                       then (Some ''invalid CRYPTO frame'', stream, covered)
                       else
                         (let streamEnd = u64 (offset + len) in
                          case mergeBytes (take len (drop pos plaintext)) offset
                              (extendTo streamEnd 0 stream) (extendTo streamEnd False covered) of
                            (Some e, stream, covered) \<Rightarrow> (Some e, stream, covered)
                          | (None, stream, covered) \<Rightarrow> mergeLoop plaintext end stream covered))))))
     else (None, stream, covered))"
  by pat_completeness auto
termination
  by (relation "measure (\<lambda>(p, off, _). length p - off)") (auto dest!: frameEnd_bounds)

declare mergeLoop.simps [simp del]

definition mergeInitialCryptoFrames :: "bytes \<Rightarrow> bytes \<Rightarrow> bool list \<Rightarrow> error option \<times> bytes \<times> bool list" where
  "mergeInitialCryptoFrames plaintext stream covered = mergeLoop plaintext 0 stream covered"

definition contiguousCryptoStream :: "bytes \<Rightarrow> bool list \<Rightarrow> bytes" where
  "contiguousCryptoStream stream covered = take (length (takeWhile id covered)) stream"

definition buildCryptoFrame :: "nat \<Rightarrow> bytes \<Rightarrow> bytes" where
  "buildCryptoFrame offset data = [0x06] @ writeVarint offset @ writeVarint (length data) @ data"

subsection \<open>The ClientHello\<close>

definition clientHelloComplete :: "bytes \<Rightarrow> bool" where
  "clientHelloComplete clientHello =
    (if length clientHello < 4 \<or> clientHello ! 0 \<noteq> 0x01 then False
     else length clientHello \<ge> 4 + be_nat (take 3 (drop 1 clientHello)))"

text \<open>The walk over the extensions; the result is the place and length of the host name.\<close>

function sniExtensions :: "bytes \<Rightarrow> nat \<Rightarrow> nat \<Rightarrow> (nat \<times> nat) option" where
  "sniExtensions clientHello offset extensionsEnd =
    (if offset + 4 \<le> extensionsEnd then
       (let extensionType = be_nat (take 2 (drop offset clientHello));
            extensionLength = be_nat (take 2 (drop (offset + 2) clientHello));
            offset = offset + 4;
            extEnd = offset + extensionLength
        in if extEnd > extensionsEnd then None
           else if extensionType = 0 \<and> extensionLength \<ge> 5 then
             (let serverNameLength = be_nat (take 2 (drop (offset + 3) clientHello));
                  nameStart = offset + 5
              in if serverNameLength > 0 \<and> nameStart + serverNameLength \<le> extEnd
                 then Some (nameStart, serverNameLength)
                 else None)
           else sniExtensions clientHello extEnd extensionsEnd)
     else None)"
  by pat_completeness auto
termination
  by (relation "measure (\<lambda>(_, off, e). e - off)") auto

declare sniExtensions.simps [simp del]

definition sniHostNameRange :: "bytes \<Rightarrow> (nat \<times> nat) option" where
  "sniHostNameRange clientHello =
    (let headerLen = length clientHello; offset = 4 + 2 + 32 in
     if offset + 1 > headerLen \<or> clientHello ! 0 \<noteq> 0x01 then None
     else
       (let offset = offset + (1 + unat (clientHello ! offset)) in
        if offset + 2 > headerLen then None
        else
          (let offset = offset + (2 + be_nat (take 2 (drop offset clientHello))) in
           if offset + 1 > headerLen then None
           else
             (let offset = offset + (1 + unat (clientHello ! offset)) in
              if offset + 2 > headerLen then None
              else
                (let extensionsLength = be_nat (take 2 (drop offset clientHello));
                     offset = offset + 2;
                     extensionsEnd = offset + extensionsLength
                 in sniExtensions clientHello offset
                      (if extensionsEnd > headerLen then headerLen else extensionsEnd))))))"

subsection \<open>Splitting the ClientHello inside the host name\<close>

text \<open>
  The first loop collects the CRYPTO segments and keeps the other frames (PADDING
  aside) for the first packet.
\<close>

function splitLoop ::
  "bytes \<Rightarrow> nat \<Rightarrow> bytes \<Rightarrow> (nat \<times> bytes) list \<Rightarrow> nat \<Rightarrow> (bytes \<times> (nat \<times> bytes) list \<times> nat) option" where
  "splitLoop plaintext off first segments streamLength =
    (if off < length plaintext then
       (case frameEnd plaintext off of Inl _ \<Rightarrow> None
        | Inr end \<Rightarrow>
           (if plaintext ! off = 0x00 then splitLoop plaintext end first segments streamLength
            else if plaintext ! off = 0x06 then
              (case varintAt plaintext (off + 1) of Inl _ \<Rightarrow> None
               | Inr (offset, pos) \<Rightarrow>
                  (case varintAt plaintext pos of Inl _ \<Rightarrow> None
                   | Inr (len, pos) \<Rightarrow>
                      (if len > end - pos then None
                       else if offset > 18446744073709551615 - len then None
                       else
                         (let segmentEnd = offset + len in
                          splitLoop plaintext end first
                            (segments @ [(offset, take len (drop pos plaintext))])
                            (if segmentEnd > streamLength then segmentEnd else streamLength)))))
            else splitLoop plaintext end (first @ take (end - off) (drop off plaintext)) segments streamLength))
     else Some (first, segments, streamLength))"
  by pat_completeness auto
termination
  by (relation "measure (\<lambda>(p, off, _). length p - off)") (auto dest!: frameEnd_bounds)

declare splitLoop.simps [simp del]

text \<open>The second loop lays the segments into the stream, with the byte loop of the merge.\<close>

fun fillSegments :: "(nat \<times> bytes) list \<Rightarrow> bytes \<Rightarrow> bool list \<Rightarrow> (bytes \<times> bool list) option" where
  "fillSegments [] stream covered = Some (stream, covered)"
| "fillSegments ((start, data) # segments) stream covered =
    (case mergeBytes data start stream covered of
       (Some _, _, _) \<Rightarrow> None
     | (None, stream, covered) \<Rightarrow> fillSegments segments stream covered)"

definition splitInitialCryptoFrames :: "bytes \<Rightarrow> (bytes \<times> bytes) option" where
  "splitInitialCryptoFrames plaintext =
    (case splitLoop plaintext 0 [] [] 0 of None \<Rightarrow> None
     | Some (first, segments, streamLength) \<Rightarrow>
        (if segments = [] \<or> streamLength > length plaintext then None
         else
           (case fillSegments segments (replicate streamLength 0) (replicate streamLength False) of
              None \<Rightarrow> None
            | Some (stream, covered) \<Rightarrow>
               (if \<not> list_all id covered then None
                else
                  (case sniHostNameRange stream of None \<Rightarrow> None
                   | Some (sniStart, sniLength) \<Rightarrow>
                      (if sniLength \<le> 1 then None
                       else
                         (let split = sniStart + sniLength div 2 in
                          if split \<le> 0 \<or> split \<ge> length stream then None
                          else Some (first @ buildCryptoFrame 0 (take split stream),
                                     buildCryptoFrame split (drop split stream)))))))))"

end
