(* ===== verification/Quic_Reassembly.thy ===== *)
theory Quic_Reassembly
  imports Quic_Stream
begin

text \<open>
  What the reassembly of the CRYPTO stream promises, stated over the finite map from
  stream positions to received bytes: merging a packet adds the bytes of its CRYPTO
  frames or reports a conflict, and the order in which packets arrive does not matter.
\<close>

subsection \<open>The abstract stream\<close>

definition received :: "bytes \<Rightarrow> bool list \<Rightarrow> nat \<Rightarrow> byte option" where
  "received s c i = (if i < length c \<and> c ! i then Some (s ! i) else None)"

fun segmentMap :: "nat \<times> bytes \<Rightarrow> nat \<Rightarrow> byte option" where
  "segmentMap (start, data) i = (if start \<le> i \<and> i < start + length data then Some (data ! (i - start)) else None)"

declare segmentMap.simps [simp del]

definition compat :: "(nat \<Rightarrow> byte option) \<Rightarrow> (nat \<Rightarrow> byte option) \<Rightarrow> bool" where
  "compat m n \<longleftrightarrow> (\<forall>i v w. m i = Some v \<longrightarrow> n i = Some w \<longrightarrow> v = w)"

definition agree :: "(nat \<Rightarrow> byte option) set \<Rightarrow> bool" where
  "agree M \<longleftrightarrow> (\<forall>m \<in> M. \<forall>n \<in> M. compat m n)"

text \<open>A buffer in which the positions not received yet hold zero.\<close>

definition clean :: "bytes \<Rightarrow> bool list \<Rightarrow> bool" where
  "clean s c \<longleftrightarrow> length s = length c \<and> (\<forall>i < length c. \<not> c ! i \<longrightarrow> s ! i = 0)"

lemma clean_determined:
  assumes "clean s c" "clean s' c'" "length c = length c'" "received s c = received s' c'"
  shows "s = s' \<and> c = c'"
proof -
  have c: "c ! i = c' ! i" if "i < length c" for i
    using fun_cong [OF assms(4), of i] that assms(3) by (auto simp: received_def split: if_splits)
  then have "c = c'"
    using assms(3) by (auto intro: nth_equalityI)
  moreover have "s ! i = s' ! i" if "i < length c" for i
    using fun_cong [OF assms(4), of i] c [OF that] that assms(1-3)
    by (auto simp: received_def clean_def split: if_splits)
  then have "s = s'"
    using assms(1-3) by (auto intro!: nth_equalityI simp: clean_def)
  ultimately show ?thesis by simp
qed

lemma compat_sym: "compat m n \<longleftrightarrow> compat n m"
  by (auto simp: compat_def)

lemma compat_refl [simp]: "compat m m"
  by (simp add: compat_def)

lemma agree_insert_add:
  "agree (insert m (insert n M)) \<longleftrightarrow> compat m n \<and> agree (insert (m ++ n) M)"
proof -
  have "compat m n \<Longrightarrow> compat (m ++ n) x \<longleftrightarrow> compat m x \<and> compat n x" for x
    unfolding compat_def map_add_def by (auto split: option.splits) (metis option.exhaust)+
  then show ?thesis
    unfolding agree_def by (auto simp: compat_sym)
qed

subsection \<open>Merging bytes\<close>

lemma received_update:
  "t < length s \<Longrightarrow> length s = length c \<Longrightarrow>
    received (s[t := v]) (c[t := True]) = (received s c)(t \<mapsto> v)"
  by (intro ext) (auto simp: received_def nth_list_update)

lemma segmentMap_Cons: "segmentMap (t, v # vs) = (segmentMap (Suc t, vs))(t \<mapsto> v)"
  by (intro ext) (auto simp: segmentMap.simps nth_Cons' Suc_le_eq)

lemma segmentMap_Nil [simp]: "segmentMap (t, []) = Map.empty"
  by (intro ext) (simp add: segmentMap.simps)

lemma compat_empty [simp]: "compat m Map.empty"
  by (simp add: compat_def)

lemma compat_update:
  assumes "n t = None"
  shows "compat m (n(t \<mapsto> v)) \<longleftrightarrow> (\<forall>w. m t = Some w \<longrightarrow> w = v) \<and> compat (m(t \<mapsto> v)) n"
proof -
  have at: "(\<forall>i. P i) \<longleftrightarrow> P t \<and> (\<forall>i. i \<noteq> t \<longrightarrow> P i)" for P
    by metis
  show ?thesis
    unfolding compat_def
    by (subst at, subst (2) at) (use assms in auto)
qed

lemma copy_at_Nil [simp]: "copy_at s t [] = s"
  by (simp add: copy_at_def)

lemma mergeBytes_spec:
  assumes "t + length vs \<le> length s" "length s = length c" "clean s c"
    and "mergeBytes vs t s c = (r, s', c')"
  shows "(r = None \<longleftrightarrow> compat (received s c) (segmentMap (t, vs))) \<and> clean s' c' \<and> length c' = length c
    \<and> (r = None \<longrightarrow> received s' c' = received s c ++ segmentMap (t, vs) \<and> s' = copy_at s t vs)"
  using assms
proof (induction vs arbitrary: t s c)
  case Nil
  then show ?case
    by simp
next
  case (Cons v vs)
  have t: "t < length c" "t < length s"
    using Cons.prems(1,2) by auto
  have cm: "compat (received s c) (segmentMap (t, v # vs)) \<longleftrightarrow>
      (c ! t \<longrightarrow> s ! t = v) \<and> compat ((received s c)(t \<mapsto> v)) (segmentMap (Suc t, vs))"
    unfolding segmentMap_Cons by (subst compat_update) (auto simp add: received_def t segmentMap.simps)
  show ?case
  proof (cases "c ! t \<and> s ! t \<noteq> v")
    case True
    then show ?thesis
      using Cons.prems cm by auto
  next
    case False
    then have m: "mergeBytes vs (Suc t) (s[t := v]) (c[t := True]) = (r, s', c')"
      using Cons.prems(4) by (simp split: if_splits)
    have cl: "clean (s[t := v]) (c[t := True])"
      using Cons.prems(3) t by (auto simp: clean_def nth_list_update)
    have eq: "received s c ++ segmentMap (t, v # vs) = (received s c)(t \<mapsto> v) ++ segmentMap (Suc t, vs)"
      unfolding segmentMap_Cons by (intro ext) (auto simp: map_add_def segmentMap.simps split: option.split)
    have cp: "copy_at (s[t := v]) (Suc t) vs = copy_at s t (v # vs)"
      using t Cons.prems(1) by (simp add: copy_at_fits take_Suc_conv_app_nth)
    from Cons.IH [OF _ _ cl m] Cons.prems(1,2) t False cm show ?thesis
      by (auto simp add: received_update eq cp simp del: fun_upd_apply)
  qed
qed

lemma received_extend:
  "length s = length c \<Longrightarrow> received (extendTo n x s) (extendTo n False c) = received s c"
  by (intro ext) (auto simp: received_def extendTo_def nth_append)

lemma clean_extend: "clean s c \<Longrightarrow> clean (extendTo n 0 s) (extendTo n False c)"
  by (auto simp: clean_def extendTo_def nth_append)

lemma length_extendTo [simp, go_len]: "length (extendTo n x s) = max n (length s)"
  by (simp add: extendTo_def)

subsection \<open>The CRYPTO segments of a packet\<close>

function cryptoSegments :: "bytes \<Rightarrow> nat \<Rightarrow> (nat \<times> bytes) list option" where
  "cryptoSegments plaintext off =
    (if off < length plaintext then
       (case frameEnd plaintext off of Inl _ \<Rightarrow> None
        | Inr end \<Rightarrow>
           (if plaintext ! off \<noteq> 0x06 then cryptoSegments plaintext end
            else
              (case varintAt plaintext (off + 1) of Inl _ \<Rightarrow> None
               | Inr (offset, pos) \<Rightarrow>
                  (case varintAt plaintext pos of Inl _ \<Rightarrow> None
                   | Inr (len, pos) \<Rightarrow>
                      (if len > end - pos \<or> offset + len > quicUDPPacketSize then None
                       else map_option (Cons (offset, take len (drop pos plaintext)))
                              (cryptoSegments plaintext end))))))
     else Some [])"
  by pat_completeness auto
termination
  by (relation "measure (\<lambda>(p, off). length p - off)") (auto dest!: frameEnd_bounds)

declare cryptoSegments.simps [simp del]

fun mergeSegments :: "(nat \<times> bytes) list \<Rightarrow> bytes \<Rightarrow> bool list \<Rightarrow> error option \<times> bytes \<times> bool list" where
  "mergeSegments [] s c = (None, s, c)"
| "mergeSegments ((start, data) # ss) s c =
    (case mergeBytes data start (extendTo (start + length data) 0 s) (extendTo (start + length data) False c) of
       (Some e, s, c) \<Rightarrow> (Some e, s, c)
     | (None, s, c) \<Rightarrow> mergeSegments ss s c)"

text \<open>A CRYPTO frame that \<open>frameEnd\<close> accepts, with its offset, length and data.\<close>

lemma frameEnd_crypto:
  assumes "frameEnd d off = Inr e" "d ! off = 0x06"
  shows "\<exists>offset p1 len p2. varintAt d (off + 1) = Inr (offset, p1) \<and> varintAt d p1 = Inr (len, p2)
    \<and> e = p2 + len \<and> p2 + len \<le> length d \<and> offset < 4611686018427387904 \<and> len < 4611686018427387904"
proof -
  from assms obtain offset p1 len p2 where 1: "varintAt d (off + 1) = Inr (offset, p1)"
    and 2: "varintAt d p1 = Inr (len, p2)" and e: "e = p2 + len" "len \<le> length d - p2"
    by (auto simp: frameEnd_def frameRest_def not_less split: if_splits sum.splits)
  from varintAt_bounds [OF 1] varintAt_bounds [OF 2] e 1 2 show ?thesis
    by auto
qed

lemma mergeLoop_segments:
  "(fst (mergeLoop d off s c) = None \<longleftrightarrow>
      (\<exists>ss. cryptoSegments d off = Some ss \<and> fst (mergeSegments ss s c) = None)) \<and>
    (\<forall>ss. cryptoSegments d off = Some ss \<longrightarrow> mergeLoop d off s c = mergeSegments ss s c)"
proof (induction d off arbitrary: s c rule: cryptoSegments.induct)
  case (1 d off)
  show ?case
  proof (cases "off < length d")
    case False
    then show ?thesis
      by (simp add: mergeLoop.simps [of d off] cryptoSegments.simps [of d off])
  next
    case off: True
    show ?thesis
    proof (cases "frameEnd d off")
      case (Inl e)
      with off show ?thesis
        by (simp add: mergeLoop.simps [of d off] cryptoSegments.simps [of d off])
    next
      case (Inr e)
      show ?thesis
      proof (cases "d ! off = 0x06")
        case False
        with off Inr "1.IH"(1) [OF off Inr False] show ?thesis
          by (simp add: mergeLoop.simps [of d off] cryptoSegments.simps [of d off])
      next
        case True
        from frameEnd_crypto [OF Inr True] obtain offset p1 len p2 where
          v: "varintAt d (off + 1) = Inr (offset, p1)" "varintAt d p1 = Inr (len, p2)"
          and e: "e = p2 + len" "p2 + len \<le> length d" "offset < 4611686018427387904" "len < 4611686018427387904"
          by blast
        note v' = v [simplified]
        have u: "u64 (offset + len) = offset + len" "length (take len (drop p2 d)) = len"
          using e by simp_all
        show ?thesis
        proof (cases "offset + len > quicUDPPacketSize")
          case T: True
          with off Inr True v' u e show ?thesis
            by (simp add: mergeLoop.simps [of d off] cryptoSegments.simps [of d off])
        next
          case F: False
          then have g: "\<not> (len > e - p2 \<or> offset + len > quicUDPPacketSize)"
            using e by simp
          note IH = "1.IH"(2) [OF off Inr _ v(1) refl v(2) refl g]
          define D where "D = take len (drop p2 d)"
          have lenD: "length D = len"
            using u(2) by (simp only: D_def)
          have cs: "cryptoSegments d off = map_option (Cons (offset, D)) (cryptoSegments d e)"
            using off Inr True v' u e F by (simp add: cryptoSegments.simps [of d off] D_def)
          have ml: "mergeLoop d off s c =
              (case mergeBytes D offset (extendTo (offset + len) 0 s) (extendTo (offset + len) False c) of
                (Some e, stream, covered) \<Rightarrow> (Some e, stream, covered)
              | (None, stream, covered) \<Rightarrow> mergeLoop d e stream covered)"
            using off Inr True v' u e F by (simp add: mergeLoop.simps [of d off] Let_def D_def split: option.split prod.split)
          show ?thesis
            using IH True unfolding cs ml
            by (cases "cryptoSegments d e") (auto simp: lenD split: option.splits prod.splits)
        qed
      qed
    qed
  qed
qed


text \<open>
  Merging segments succeeds exactly when they agree with each other and with what was
  received before, and then the map is the union.
\<close>

lemma mergeSegments_spec:
  assumes "clean s c" and "mergeSegments ss s c = (r, s', c')"
  shows "(r = None \<longleftrightarrow> agree (insert (received s c) (segmentMap ` set ss)))
    \<and> (r = None \<longrightarrow> clean s' c' \<and> received s' c' = foldl (++) (received s c) (map segmentMap ss)
        \<and> length c' = foldl max (length c) (map (\<lambda>(start, data). start + length data) ss))"
  using assms
proof (induction ss arbitrary: s c)
  case Nil
  then show ?case
    by (simp add: agree_def)
next
  case (Cons seg ss)
  obtain t d where seg: "seg = (t, d)"
    by (cases seg)
  let ?s = "extendTo (t + length d) 0 s" and ?c = "extendTo (t + length d) False c"
  have len: "length s = length c"
    using Cons.prems(1) by (simp add: clean_def)
  obtain r1 s1 c1 where m: "mergeBytes d t ?s ?c = (r1, s1, c1)"
    by (cases "mergeBytes d t ?s ?c")
  have spec: "(r1 = None \<longleftrightarrow> compat (received s c) (segmentMap (t, d))) \<and> clean s1 c1
    \<and> length c1 = max (t + length d) (length c)
    \<and> (r1 = None \<longrightarrow> received s1 c1 = received s c ++ segmentMap (t, d))"
    using mergeBytes_spec [OF _ _ clean_extend [OF Cons.prems(1)] m] len
    by (auto simp add: received_extend)
  have ag: "agree (insert (received s c) (segmentMap ` set (seg # ss))) \<longleftrightarrow>
    compat (received s c) (segmentMap (t, d)) \<and> agree (insert (received s c ++ segmentMap (t, d)) (segmentMap ` set ss))"
    using agree_insert_add by (simp add: seg)
  show ?case
  proof (cases r1)
    case (Some e)
    with Cons.prems(2) m spec ag show ?thesis
      by (auto simp: seg)
  next
    case None
    with Cons.prems(2) m have "mergeSegments ss s1 c1 = (r, s', c')"
      by (simp add: seg)
    from Cons.IH [OF _ this] None spec ag show ?thesis
      by (simp add: seg max.commute)
  qed
qed

text \<open>In a set of maps that agree, the union does not depend on the order.\<close>

lemma foldl_map_add_Some:
  assumes "agree (insert m (set ms))"
  shows "foldl (++) m ms i = Some v \<longleftrightarrow> (\<exists>n \<in> insert m (set ms). n i = Some v)"
  using assms
proof (induction ms arbitrary: m)
  case (Cons n ms)
  then have c: "compat m n" and IH: "foldl (++) (m ++ n) ms i = Some v \<longleftrightarrow>
      (\<exists>x \<in> insert (m ++ n) (set ms). x i = Some v)"
    using agree_insert_add [of m n "set ms"] by auto
  have "(m ++ n) i = Some v \<longleftrightarrow> m i = Some v \<or> n i = Some v"
    using c by (auto simp: map_add_def compat_def split: option.splits)
  with IH show ?case by auto
qed simp

lemma foldl_map_add_same:
  assumes "agree (insert m (set ms))" "set ms = set ms'"
  shows "foldl (++) m ms = foldl (++) m ms'"
proof
  fix i
  show "foldl (++) m ms i = foldl (++) m ms' i"
    using foldl_map_add_Some [of m ms i] foldl_map_add_Some [of m ms' i] assms
    by (cases "foldl (++) m ms i"; cases "foldl (++) m ms' i") auto
qed

lemma foldl_max: "foldl max (n :: nat) xs = Max (insert n (set xs))"
proof (induction xs arbitrary: n)
  case (Cons x xs)
  have "Max (insert (max n x) (set xs)) = Max (insert n (insert x (set xs)))"
    by (cases "set xs = {}") (simp_all add: Max_insert ac_simps)
  with Cons [of "max n x"] show ?case by simp
qed simp

lemma mergeSegments_append:
  "mergeSegments (ss @ ts) s c =
    (case mergeSegments ss s c of (Some e, s, c) \<Rightarrow> (Some e, s, c) | (None, s, c) \<Rightarrow> mergeSegments ts s c)"
  by (induction ss arbitrary: s c) (auto split: prod.splits option.splits)

lemma mergeSegments_perm:
  assumes "clean s c" and "mergeSegments ss s c = (None, s', c')" and "set ss = set ts"
  shows "mergeSegments ts s c = (None, s', c')"
proof -
  obtain r s2 c2 where t: "mergeSegments ts s c = (r, s2, c2)"
    by (cases "mergeSegments ts s c")
  note A = mergeSegments_spec [OF assms(1,2)] and B = mergeSegments_spec [OF assms(1) t]
  have r: "r = None"
    using A B assms(3) by simp
  have "foldl (++) (received s c) (map segmentMap ss) = foldl (++) (received s c) (map segmentMap ts)"
    using A assms(3) by (intro foldl_map_add_same) simp_all
  moreover have "foldl max (length c) (map (\<lambda>(start, data). start + length data) ss) =
    foldl max (length c) (map (\<lambda>(start, data). start + length data) ts)"
    by (simp only: foldl_max set_map assms(3))
  ultimately show ?thesis
    using A B r clean_determined [of s' c' s2 c2] t by simp
qed

text \<open>Two packets merge in either order, with the same result.\<close>

lemma merge_commutes:
  assumes cl: "clean s c"
    and a: "mergeInitialCryptoFrames p s c = (None, s1, c1)"
    and b: "mergeInitialCryptoFrames q s1 c1 = (None, s2, c2)"
  shows "\<exists>t1 d1. mergeInitialCryptoFrames q s c = (None, t1, d1) \<and>
    mergeInitialCryptoFrames p t1 d1 = (None, s2, c2)"
proof -
  from a mergeLoop_segments [of p 0 s c] obtain ss where ss: "cryptoSegments p 0 = Some ss"
    and m1: "mergeSegments ss s c = (None, s1, c1)"
    by (auto simp: mergeInitialCryptoFrames_def)
  from b mergeLoop_segments [of q 0 s1 c1] obtain ts where ts: "cryptoSegments q 0 = Some ts"
    and m2: "mergeSegments ts s1 c1 = (None, s2, c2)"
    by (auto simp: mergeInitialCryptoFrames_def)
  have "mergeSegments (ss @ ts) s c = (None, s2, c2)"
    using m1 m2 by (simp add: mergeSegments_append)
  then have "mergeSegments (ts @ ss) s c = (None, s2, c2)"
    by (rule mergeSegments_perm [OF cl]) auto
  then obtain t1 d1 where "mergeSegments ts s c = (None, t1, d1)" "mergeSegments ss t1 d1 = (None, s2, c2)"
    by (auto simp: mergeSegments_append split: prod.splits option.splits)
  with ss ts mergeLoop_segments [of q 0 s c] mergeLoop_segments [of p 0 t1 d1] show ?thesis
    by (auto simp: mergeInitialCryptoFrames_def)
qed


subsection \<open>Extraction agrees with the merge\<close>

lemma extractLoop_merge:
  "clean s c \<Longrightarrow> mergeLoop d off s c = (None, s', c') \<Longrightarrow> extractLoop d off s = Inr s'"
proof (induction d off arbitrary: s c rule: cryptoSegments.induct)
  case (1 d off)
  show ?case
  proof (cases "off < length d")
    case False
    with "1.prems" show ?thesis
      by (simp add: mergeLoop.simps [of d off] extractLoop.simps [of d off])
  next
    case off: True
    with "1.prems" obtain e where e: "frameEnd d off = Inr e"
      by (cases "frameEnd d off") (simp_all add: mergeLoop.simps [of d off])
    show ?thesis
    proof (cases "d ! off = 0x06")
      case False
      with off e "1.prems" "1.IH"(1) [OF off e False] show ?thesis
        by (simp add: mergeLoop.simps [of d off] extractLoop.simps [of d off])
    next
      case True
      from frameEnd_crypto [OF e True] obtain offset p1 len p2 where
        v: "varintAt d (off + 1) = Inr (offset, p1)" "varintAt d p1 = Inr (len, p2)"
        and b: "e = p2 + len" "p2 + len \<le> length d" "offset < 4611686018427387904" "len < 4611686018427387904"
        by blast
      note v' = v [simplified]
      define D where "D = take len (drop p2 d)"
      have lenD: "length D = len"
        using b by (simp add: D_def)
      let ?s = "extendTo (offset + len) 0 s" and ?c = "extendTo (offset + len) False c"
      obtain s1 c1 where g: "\<not> (len > e - p2 \<or> offset + len > quicUDPPacketSize)"
        and m: "mergeBytes D offset ?s ?c = (None, s1, c1)" and rest: "mergeLoop d e s1 c1 = (None, s', c')"
        using "1.prems"(2) off e True v' b
        by (auto simp: mergeLoop.simps [of d off] Let_def D_def split: if_splits option.splits prod.splits)
      have len: "length s = length c"
        using "1.prems"(1) by (simp add: clean_def)
      from mergeBytes_spec [OF _ _ clean_extend [OF "1.prems"(1)] m] len lenD
      have "clean s1 c1" and s1: "s1 = copy_at ?s offset D"
        by auto
      from "1.IH"(2) [OF off e _ v(1) refl v(2) refl g this(1) rest] True
      have "extractLoop d e s1 = Inr s'" by simp
      then show ?thesis
        using off e True v' b g by (simp add: extractLoop.simps [of d off] s1 D_def Let_def)
    qed
  qed
qed

lemma clean_Nil: "clean [] []"
  by (simp add: clean_def)

subsection \<open>Splitting\<close>

lemma sniExtensions_bounds:
  "sniExtensions h off e = Some (st, n) \<Longrightarrow> off < st \<and> 0 < n \<and> st + n \<le> e"
proof (induction h off e rule: sniExtensions.induct)
  case (1 h off e)
  from "1.prems" "1.IH" [OF _ refl refl refl refl] show ?case
    by (auto simp: sniExtensions.simps [of h off e] Let_def split: if_splits)
qed

text \<open>The host name lies inside the ClientHello.\<close>

lemma sniHostNameRange_bounds:
  assumes "sniHostNameRange h = Some (st, n)"
  shows "38 < st \<and> 0 < n \<and> st + n \<le> length h"
proof -
  from assms obtain off e where "sniExtensions h off e = Some (st, n)" "e \<le> length h" "38 \<le> off"
    by (auto simp: sniHostNameRange_def Let_def split: if_splits)
  with sniExtensions_bounds [of h off e st n] show ?thesis
    by auto
qed


lemma frameList_alone:
  "frameList d off = Inr fs \<Longrightarrow> \<forall>f \<in> set fs. \<not> runsToEnd (hd f) \<Longrightarrow> \<forall>f \<in> set fs. standsAlone f"
proof (induction d off arbitrary: fs rule: frameList.induct)
  case (1 d off)
  show ?case
  proof (cases "off < length d")
    case False
    with "1.prems" show ?thesis by (simp add: frameList.simps)
  next
    case True
    with "1.prems" obtain e gs where e: "frameEnd d off = Inr e" and gs: "frameList d e = Inr gs"
      and fs: "fs = take (e - off) (drop off d) # gs"
      by (subst (asm) frameList.simps) (auto split: sum.splits)
    have "hd (take (e - off) (drop off d)) = d ! off"
      using frameEnd_bounds [OF e] by (intro hd_frame) auto
    then have "\<not> runsToEnd (d ! off)"
      using "1.prems"(2) unfolding fs by (metis list.set_intros(1))
    with standsAlone_frame [OF e] "1.IH" [OF True e gs] "1.prems"(2) show ?thesis
      by (simp add: fs)
  qed
qed

text \<open>The first loop of the split collects the CRYPTO segments of the packet.\<close>

lemma splitLoop_spec:
  assumes "frameList d off = Inr fs" and "splitLoop d off first segs n = Some (first', segs', n')"
    and "n' \<le> quicUDPPacketSize"
  shows "\<exists>ss. cryptoSegments d off = Some ss \<and> segs' = segs @ ss
    \<and> first' = first @ concat (filter (\<lambda>f. hd f \<noteq> 0x00 \<and> hd f \<noteq> 0x06) fs)
    \<and> n' = foldl max n (map (\<lambda>(start, data). start + length data) ss)"
  using assms
proof (induction d off arbitrary: fs first segs n rule: frameList.induct)
  case (1 d off)
  show ?case
  proof (cases "off < length d")
    case False
    with "1.prems" show ?thesis
      by (simp add: frameList.simps [of d off] splitLoop.simps [of d off] cryptoSegments.simps [of d off])
  next
    case off: True
    with "1.prems"(1) obtain e gs where e: "frameEnd d off = Inr e" and gs: "frameList d e = Inr gs"
      and fs: "fs = take (e - off) (drop off d) # gs"
      by (subst (asm) frameList.simps) (auto split: sum.splits)
    have hd: "hd (take (e - off) (drop off d)) = d ! off"
      using frameEnd_bounds [OF e] by (intro hd_frame) auto
    note IH = "1.IH" [OF off e gs _ "1.prems"(3)]
    show ?thesis
    proof (cases "d ! off = 0x06")
      case False
      show ?thesis
      proof (cases "d ! off = 0x00")
        case True
        with off e "1.prems"(2) have "splitLoop d e first segs n = Some (first', segs', n')"
          by (simp add: splitLoop.simps [of d off])
        from IH [OF this] True off e show ?thesis
          by (simp add: fs hd cryptoSegments.simps [of d off])
      next
        case F: False
        with False off e "1.prems"(2)
        have "splitLoop d e (first @ take (e - off) (drop off d)) segs n = Some (first', segs', n')"
          by (simp add: splitLoop.simps [of d off])
        from IH [OF this] F False off e show ?thesis
          by (simp add: fs hd cryptoSegments.simps [of d off])
      qed
    next
      case True
      from frameEnd_crypto [OF e True] obtain offset p1 len p2 where
        v: "varintAt d (off + 1) = Inr (offset, p1)" "varintAt d p1 = Inr (len, p2)"
        and b: "e = p2 + len" "p2 + len \<le> length d" "offset < 4611686018427387904" "len < 4611686018427387904"
        by blast
      note v' = v [simplified]
      define D where "D = take len (drop p2 d)"
      have lenD: "length D = len"
        using b by (simp add: D_def)
      have "splitLoop d e first (segs @ [(offset, D)]) (max n (offset + len)) = Some (first', segs', n')"
        using "1.prems"(2) off e True v' b
        by (auto simp add: splitLoop.simps [of d off] Let_def D_def max_def split: if_splits)
      from IH [OF this] obtain ss where ss: "cryptoSegments d e = Some ss" "segs' = segs @ (offset, D) # ss"
        "first' = first @ concat (filter (\<lambda>f. hd f \<noteq> 0x00 \<and> hd f \<noteq> 0x06) gs)"
        "n' = foldl max (max n (offset + len)) (map (\<lambda>(start, data). start + length data) ss)"
        by auto
      have "offset + len \<le> n'"
        unfolding ss(4) foldl_max by (simp add: Max_ge_iff)
      with "1.prems"(3) have "\<not> offset + len > quicUDPPacketSize"
        by simp
      with ss True off e v' b show ?thesis
        by (simp add: fs hd hd [unfolded b(1)] cryptoSegments.simps [of d off] D_def lenD [unfolded D_def])
    qed
  qed
qed

text \<open>Its second loop lays them into a buffer, like the merge.\<close>

lemma fillSegments_spec:
  assumes "clean s c" "\<forall>(start, data) \<in> set ss. start + length data \<le> length c"
    and "fillSegments ss s c = Some (s', c')"
  shows "clean s' c' \<and> length c' = length c \<and> agree (insert (received s c) (segmentMap ` set ss))
    \<and> received s' c' = foldl (++) (received s c) (map segmentMap ss)"
  using assms
proof (induction ss arbitrary: s c)
  case Nil
  then show ?case by (simp add: agree_def)
next
  case (Cons seg ss)
  obtain t d where seg: "seg = (t, d)"
    by (cases seg)
  from Cons.prems(3) obtain s1 c1 where m: "mergeBytes d t s c = (None, s1, c1)"
    and f: "fillSegments ss s1 c1 = Some (s', c')"
    by (auto simp: seg split: prod.splits option.splits)
  have "t + length d \<le> length s" "length s = length c"
    using Cons.prems(1,2) by (auto simp: seg clean_def)
  from mergeBytes_spec [OF this Cons.prems(1) m] Cons.IH [OF _ _ f] Cons.prems(2)
  have "compat (received s c) (segmentMap (t, d)) \<and> clean s' c' \<and> length c' = length c
    \<and> agree (insert (received s c ++ segmentMap (t, d)) (segmentMap ` set ss))
    \<and> received s' c' = foldl (++) (received s c ++ segmentMap (t, d)) (map segmentMap ss)"
    by (auto simp: seg)
  with agree_insert_add [of "received s c" "segmentMap (t, d)" "segmentMap ` set ss"] show ?case
    by (simp add: seg)
qed

text \<open>The CRYPTO frames the split builds, after frames that stand alone.\<close>

lemma cryptoSegments_padding: "cryptoSegments (a @ replicate n 0) (length a) = Some []"
proof (induction n arbitrary: a)
  case 0
  show ?case by (simp add: cryptoSegments.simps)
next
  case (Suc n)
  have "cryptoSegments (a @ 0 # replicate n 0) (length a) = cryptoSegments (a @ 0 # replicate n 0) (Suc (length a))"
    by (simp add: cryptoSegments.simps [of _ "length a"] frameEnd_def frameRest_def)
  with Suc [of "a @ [0]"] show ?case by simp
qed

lemma cryptoSegments_build:
  assumes "start + length data \<le> quicUDPPacketSize"
  shows "cryptoSegments (a @ buildCryptoFrame start data @ replicate n 0) (length a) = Some [(start, data)]"
proof -
  let ?d = "a @ buildCryptoFrame start data @ replicate n 0"
  let ?e = "length a + 1 + length (writeVarint start) + length (writeVarint (length data)) + length data"
  have small: "start < 4611686018427387904" "length data < 4611686018427387904"
    using assms by (simp_all add: quicUDPPacketSize_def)
  have 1: "varintAt ?d (length a + 1) = Inr (start, length a + 1 + length (writeVarint start))"
    using small by (intro varintAt_at [where a = "a @ [0x06]"]) (simp_all add: buildCryptoFrame_def)
  have 2: "varintAt ?d (length a + 1 + length (writeVarint start)) =
      Inr (length data, length a + 1 + length (writeVarint start) + length (writeVarint (length data)))"
    using small by (intro varintAt_at [where a = "a @ [0x06] @ writeVarint start"]) (simp_all add: buildCryptoFrame_def)
  have len: "length ?d = ?e + n"
    by (simp add: buildCryptoFrame_def)
  have t: "?d ! length a = 0x06"
    by (simp add: buildCryptoFrame_def nth_append)
  have e: "frameEnd ?d (length a) = Inr ?e"
    using 1 2 len by (simp add: frameEnd_def frameRest_def t)
  have "take (length data) (drop (length a + 1 + length (writeVarint start) + length (writeVarint (length data))) ?d) = data"
    by (simp add: buildCryptoFrame_def)
  moreover have "cryptoSegments ?d ?e = Some []"
    using cryptoSegments_padding [of "a @ buildCryptoFrame start data" n]
    by (simp add: buildCryptoFrame_def add.assoc)
  ultimately show ?thesis
    using e t 1 2 len assms by (simp add: cryptoSegments.simps [of _ "length a"])
qed

lemma cryptoSegments_skip:
  "\<forall>f \<in> set gs. standsAlone f \<and> hd f \<noteq> 0x06 \<Longrightarrow>
    cryptoSegments (a @ concat gs @ z) (length a) = cryptoSegments (a @ concat gs @ z) (length a + length (concat gs))"
proof (induction gs arbitrary: a)
  case (Cons f gs)
  let ?d = "a @ concat (f # gs) @ z"
  from Cons.prems have f: "f \<noteq> []" "frameEnd ?d (length a) = Inr (length a + length f)" "hd f \<noteq> 0x06"
    by (auto simp: standsAlone_def)
  moreover have "?d ! length a = hd f"
    using f(1) by (cases f) (simp_all add: nth_append)
  ultimately have "cryptoSegments ?d (length a) = cryptoSegments ?d (length a + length f)"
    by (simp add: cryptoSegments.simps [of _ "length a"])
  with Cons.IH [of "a @ f"] Cons.prems show ?case
    by (simp add: add.assoc)
qed simp


lemma received_full: "list_all id c \<Longrightarrow> received s c = (\<lambda>i. if i < length c then Some (s ! i) else None)"
  by (intro ext) (simp add: received_def list_all_length)

lemma full_covered: "list_all id c \<Longrightarrow> c = replicate (length c) True"
  by (simp add: list_all_length list_eq_iff_nth_eq)

lemma received_Nil [simp]: "received [] [] = Map.empty"
  by (simp add: received_def fun_eq_iff)

lemma received_fresh: "received (replicate n 0) (replicate n False) = Map.empty"
  by (intro ext) (simp add: received_def)

text \<open>Merging the two pieces of a stream, in order, rebuilds it.\<close>

lemma mergeSegments_split:
  assumes k: "k \<le> length s"
  shows "\<exists>s1 c1. mergeSegments [(0, take k s)] [] [] = (None, s1, c1) \<and> s1 = take k s
    \<and> mergeSegments [(k, drop k s)] s1 c1 = (None, s, replicate (length s) True)"
proof -
  obtain r1 s1 c1 where m1: "mergeSegments [(0, take k s)] [] [] = (r1, s1, c1)"
    by (cases "mergeSegments [(0, take k s)] [] []")
  have e: "received [] [] = Map.empty"
    by (simp add: received_def fun_eq_iff)
  have ag: "agree (insert (received [] []) (segmentMap ` set [(0, take k s)]))"
    by (simp add: e agree_def compat_def)
  from mergeSegments_spec [OF clean_Nil m1] ag have A: "r1 = None" "clean s1 c1"
    "received s1 c1 = Map.empty ++ segmentMap (0, take k s)" "length c1 = max 0 (0 + length (take k s))"
    by (simp_all add: e)
  have c1: "length c1 = k" "length s1 = k"
    using A k by (simp_all add: clean_def)
  have rc: "received s1 c1 i = (if i < k then Some (s ! i) else None)" for i
    using A(3) k by (simp add: segmentMap.simps map_add_def split: option.split)
  have s1: "s1 = take k s"
  proof (rule nth_equalityI)
    fix i assume "i < length s1"
    then show "s1 ! i = take k s ! i"
      using rc [of i] c1 by (simp add: received_def split: if_splits)
  qed (use c1 k in simp)
  obtain r2 s2 c2 where m2: "mergeSegments [(k, drop k s)] s1 c1 = (r2, s2, c2)"
    by (cases "mergeSegments [(k, drop k s)] s1 c1")
  have "agree (insert (received s1 c1) (segmentMap ` set [(k, drop k s)]))"
    using rc by (auto simp: agree_def compat_def segmentMap.simps split: if_splits)
  with mergeSegments_spec [OF A(2) m2] have B: "r2 = None" "clean s2 c2"
    "received s2 c2 = received s1 c1 ++ segmentMap (k, drop k s)" "length c2 = max (length c1) (k + length (drop k s))"
    by simp_all
  have "received s2 c2 = received s (replicate (length s) True)"
    using k rc by (intro ext) (auto simp: B(3) map_add_def segmentMap.simps received_def split: option.split)
  moreover have "length c2 = length s"
    using B(4) c1 k by simp
  moreover have "clean s (replicate (length s) True)"
    by (simp add: clean_def)
  ultimately have "s2 = s \<and> c2 = replicate (length s) True"
    using clean_determined [OF B(2)] by simp
  with m1 m2 A(1) B(1) s1 show ?thesis
    by simp
qed

text \<open>
  What a successful split computes: the stream of the packet, completely received, and a
  cut strictly inside its host name.
\<close>

lemma splitInitialCryptoFrames_stream:
  assumes sp: "splitInitialCryptoFrames plaintext = Some (first, second)"
    and size: "length plaintext \<le> quicUDPPacketSize" and fs: "frameList plaintext 0 = Inr fs"
  obtains stream k st n where
    "mergeInitialCryptoFrames plaintext [] [] = (None, stream, replicate (length stream) True)"
    "length stream \<le> quicUDPPacketSize" "k \<le> length stream"
    "first = concat (filter (\<lambda>f. hd f \<noteq> 0x00 \<and> hd f \<noteq> 0x06) fs) @ buildCryptoFrame 0 (take k stream)"
    "second = buildCryptoFrame k (drop k stream)"
    "sniHostNameRange stream = Some (st, n)" "st < k" "k < st + n"
proof -
  from sp obtain first0 segs m stream covered st n where
    lp: "splitLoop plaintext 0 [] [] 0 = Some (first0, segs, m)" and m: "m \<le> length plaintext"
    and fill: "fillSegments segs (replicate m 0) (replicate m False) = Some (stream, covered)"
    and full: "list_all id covered" and sni: "sniHostNameRange stream = Some (st, n)" and n: "1 < n"
    and k: "st + n div 2 < length stream"
    and out: "first = first0 @ buildCryptoFrame 0 (take (st + n div 2) stream)"
      "second = buildCryptoFrame (st + n div 2) (drop (st + n div 2) stream)"
    by (auto simp: splitInitialCryptoFrames_def Let_def not_less not_le split: option.splits if_splits)
  have mq: "m \<le> quicUDPPacketSize"
    using m size by simp
  from splitLoop_spec [OF fs lp mq] obtain ss where ss: "cryptoSegments plaintext 0 = Some ss" "segs = ss"
    and f0: "first0 = concat (filter (\<lambda>f. hd f \<noteq> 0x00 \<and> hd f \<noteq> 0x06) fs)"
    and mm: "m = foldl max 0 (map (\<lambda>(start, data). start + length data) ss)"
    by auto
  have fit: "\<forall>(start, data) \<in> set ss. start + length data \<le> length (replicate m False)"
    unfolding mm foldl_max by (force simp: Max_ge_iff)
  have cl: "clean (replicate m 0) (replicate m False)"
    by (simp add: clean_def)
  from fillSegments_spec [OF cl fit] fill have F: "clean stream covered" "length covered = m"
    "agree (insert Map.empty (segmentMap ` set ss))" "received stream covered = foldl (++) Map.empty (map segmentMap ss)"
    by (simp_all add: received_fresh ss(2))
  have ls: "length stream = m" and cov: "covered = replicate (length stream) True"
    using F(1,2) full_covered [OF full] by (simp_all add: clean_def)
  obtain r s' c' where ms: "mergeSegments ss [] [] = (r, s', c')"
    by (cases "mergeSegments ss [] []")
  from mergeSegments_spec [OF clean_Nil ms] F(3) have M: "r = None" "clean s' c'"
    "received s' c' = foldl (++) Map.empty (map segmentMap ss)" "length c' = m"
    by (simp_all add: received_Nil mm)
  have "s' = stream \<and> c' = covered"
    by (rule clean_determined [OF M(2) F(1)]) (simp_all add: M F)
  then have "mergeInitialCryptoFrames plaintext [] [] = (None, stream, replicate (length stream) True)"
    using mergeLoop_segments [of plaintext 0 "[]" "[]"] ss(1) ms M(1) cov
    by (simp add: mergeInitialCryptoFrames_def)
  then show ?thesis
    by (rule that [OF _ _ _ out(1) [unfolded f0] out(2) sni]) (use ls mq k n in simp_all)
qed

text \<open>
  The two plaintexts, however padded, reassemble to the very stream of the original, and
  neither of them carries the host name whole.
\<close>

lemma split_reassembles:
  assumes sp: "splitInitialCryptoFrames plaintext = Some (first, second)"
    and size: "length plaintext \<le> quicUDPPacketSize"
    and fs: "frameList plaintext 0 = Inr fs" "\<forall>f \<in> set fs. \<not> runsToEnd (hd f)"
  shows "\<exists>stream k st n.
      mergeInitialCryptoFrames plaintext [] [] = (None, stream, replicate (length stream) True)
    \<and> (\<exists>c. mergeInitialCryptoFrames (first @ replicate a 0) [] [] = (None, take k stream, c)
        \<and> mergeInitialCryptoFrames (second @ replicate b 0) (take k stream) c
          = (None, stream, replicate (length stream) True))
    \<and> cryptoSegments first 0 = Some [(0, take k stream)] \<and> cryptoSegments second 0 = Some [(k, drop k stream)]
    \<and> sniHostNameRange stream = Some (st, n) \<and> st < k \<and> k < st + n"
proof -
  from splitInitialCryptoFrames_stream [OF sp size fs(1)] obtain stream k st n where
    whole: "mergeInitialCryptoFrames plaintext [] [] = (None, stream, replicate (length stream) True)"
    and len: "length stream \<le> quicUDPPacketSize" "k \<le> length stream"
    and out: "first = concat (filter (\<lambda>f. hd f \<noteq> 0x00 \<and> hd f \<noteq> 0x06) fs) @ buildCryptoFrame 0 (take k stream)"
      "second = buildCryptoFrame k (drop k stream)"
    and sni: "sniHostNameRange stream = Some (st, n)" "st < k" "k < st + n" .
  let ?gs = "filter (\<lambda>f. hd f \<noteq> 0x00 \<and> hd f \<noteq> 0x06) fs"
  have small: "0 + length (take k stream) \<le> quicUDPPacketSize" "k + length (drop k stream) \<le> quicUDPPacketSize"
    using len by simp_all
  have alone: "\<forall>f \<in> set ?gs. standsAlone f \<and> hd f \<noteq> 0x06"
    using frameList_alone [OF fs] by simp
  have seg1: "cryptoSegments (first @ replicate i 0) 0 = Some [(0, take k stream)]" for i
    using cryptoSegments_skip [OF alone, of "[]" "buildCryptoFrame 0 (take k stream) @ replicate i 0"]
      cryptoSegments_build [OF small(1), of "concat ?gs" i] by (simp add: out)
  have seg2: "cryptoSegments (second @ replicate i 0) 0 = Some [(k, drop k stream)]" for i
    using cryptoSegments_build [OF small(2), of "[]" i] by (simp add: out)
  from mergeSegments_split [OF len(2)] obtain c1 where
    "mergeSegments [(0, take k stream)] [] [] = (None, take k stream, c1)"
    "mergeSegments [(k, drop k stream)] (take k stream) c1 = (None, stream, replicate (length stream) True)"
    by auto
  then have "mergeInitialCryptoFrames (first @ replicate a 0) [] [] = (None, take k stream, c1)
      \<and> mergeInitialCryptoFrames (second @ replicate b 0) (take k stream) c1
        = (None, stream, replicate (length stream) True)"
    using mergeLoop_segments [of "first @ replicate a 0" 0 "[]" "[]"]
      mergeLoop_segments [of "second @ replicate b 0" 0 "take k stream" c1] seg1 seg2
    by (simp add: mergeInitialCryptoFrames_def)
  with whole seg1 [of 0] seg2 [of 0] sni show ?thesis
    by (simp only: replicate_0 append_Nil2) blast
qed

end
