(* ===== verification/Go_Crypto.thy ===== *)
theory Go_Crypto
  imports Go_Base
begin

text \<open>
  The part of Go's standard library that the QUIC code calls for its cryptography:
  \<open>crypto/sha256\<close> (FIPS 180-4), \<open>crypto/hmac\<close> (RFC 2104), \<open>crypto/aes\<close>
  (FIPS 197, the three key sizes) and \<open>crypto/cipher\<close>'s GCM (SP 800-38D, 12-byte
  nonce, 16-byte tag). The definitions compute the standard functions; what the rest of
  the development uses of them is the interface \<open>aead\<close> at the end.
\<close>

subsection \<open>SHA-256 and HMAC\<close>

type_synonym w32 = "32 word"

text \<open>
  The constants of FIPS 180-4 by their definition: the first 32 bits of the fractional parts
  of the cube roots of the first 64 primes, and of the square roots of the first eight.
  \<open>int_root k n b r\<close> completes the lower \<open>b\<close> bits of the integer root \<open>r\<close>.
\<close>

fun int_root :: "nat \<Rightarrow> nat \<Rightarrow> nat \<Rightarrow> nat \<Rightarrow> nat" where
  "int_root k n 0 r = r"
| "int_root k n (Suc b) r = int_root k n b (if (r + 2 ^ b) ^ k \<le> n then r + 2 ^ b else r)"

definition first_primes :: "nat \<Rightarrow> nat list" where
  "first_primes b = filter (\<lambda>p. \<forall>d \<in> set [2..<p]. p mod d \<noteq> 0) [2..<b]"

definition sha256_k :: "w32 list" where
  "sha256_k = map (\<lambda>p. of_nat (int_root 3 (p * 2 ^ 96) 36 0)) (first_primes 312)"

definition sha256_h0 :: "w32 list" where
  "sha256_h0 = map (\<lambda>p. of_nat (int_root 2 (p * 2 ^ 64) 36 0)) [2, 3, 5, 7, 11, 13, 17, 19]"

text \<open>The message schedule, newest word first.\<close>

fun sha256_schedule :: "nat \<Rightarrow> w32 list \<Rightarrow> w32 list" where
  "sha256_schedule 0 ws = ws"
| "sha256_schedule (Suc n) ws =
    (let a = ws ! 1; b = ws ! 14;
         s1 = word_rotr 17 a XOR word_rotr 19 a XOR drop_bit 10 a;
         s0 = word_rotr 7 b XOR word_rotr 18 b XOR drop_bit 3 b
     in sha256_schedule n ((s1 + ws ! 6 + s0 + ws ! 15) # ws))"

fun sha256_round :: "w32 list \<Rightarrow> w32 \<times> w32 \<Rightarrow> w32 list" where
  "sha256_round [a, b, c, d, e, f, g, h] (k, w) =
    (let s1 = word_rotr 6 e XOR word_rotr 11 e XOR word_rotr 25 e;
         ch = (e AND f) XOR (NOT e AND g);
         t1 = h + s1 + ch + k + w;
         s0 = word_rotr 2 a XOR word_rotr 13 a XOR word_rotr 22 a;
         maj = (a AND b) XOR (a AND c) XOR (b AND c)
     in [t1 + s0 + maj, a, b, c, d + t1, e, f, g])"
| "sha256_round st kw = st"

fun chunks :: "nat \<Rightarrow> nat \<Rightarrow> 'a list \<Rightarrow> 'a list list" where
  "chunks n 0 xs = []"
| "chunks n (Suc k) xs = take n xs # chunks n k (drop n xs)"

definition sha256_block :: "w32 list \<Rightarrow> bytes \<Rightarrow> w32 list" where
  "sha256_block st blk =
    (let ws = map (\<lambda>c. of_nat (be_nat c)) (chunks 4 16 blk);
         sched = rev (sha256_schedule 48 (rev ws))
     in map2 (+) st (foldl sha256_round st (zip sha256_k sched)))"

definition sha256_pad :: "bytes \<Rightarrow> bytes" where
  "sha256_pad m = m @ [0x80] @ replicate ((119 - length m mod 64) mod 64) 0 @ be_bytes 8 (8 * length m)"

definition sha256 :: "bytes \<Rightarrow> bytes" where
  "sha256 m =
    (let p = sha256_pad m in
     concat (map (\<lambda>w. be_bytes 4 (unat w))
       (foldl sha256_block sha256_h0 (chunks 64 (length p div 64) p))))"

definition hmac_sha256 :: "bytes \<Rightarrow> bytes \<Rightarrow> bytes" where
  "hmac_sha256 key m =
    (let k0 = (if 64 < length key then sha256 key else key);
         k = k0 @ replicate (64 - length k0) 0
     in sha256 (map (\<lambda>b. b XOR 0x5c) k @ sha256 (map (\<lambda>b. b XOR 0x36) k @ m)))"

subsection \<open>AES\<close>

definition aes_sbox :: "byte list" where
  "aes_sbox = [
   0x63, 0x7c, 0x77, 0x7b, 0xf2, 0x6b, 0x6f, 0xc5, 0x30, 0x01, 0x67, 0x2b,
   0xfe, 0xd7, 0xab, 0x76, 0xca, 0x82, 0xc9, 0x7d, 0xfa, 0x59, 0x47, 0xf0,
   0xad, 0xd4, 0xa2, 0xaf, 0x9c, 0xa4, 0x72, 0xc0, 0xb7, 0xfd, 0x93, 0x26,
   0x36, 0x3f, 0xf7, 0xcc, 0x34, 0xa5, 0xe5, 0xf1, 0x71, 0xd8, 0x31, 0x15,
   0x04, 0xc7, 0x23, 0xc3, 0x18, 0x96, 0x05, 0x9a, 0x07, 0x12, 0x80, 0xe2,
   0xeb, 0x27, 0xb2, 0x75, 0x09, 0x83, 0x2c, 0x1a, 0x1b, 0x6e, 0x5a, 0xa0,
   0x52, 0x3b, 0xd6, 0xb3, 0x29, 0xe3, 0x2f, 0x84, 0x53, 0xd1, 0x00, 0xed,
   0x20, 0xfc, 0xb1, 0x5b, 0x6a, 0xcb, 0xbe, 0x39, 0x4a, 0x4c, 0x58, 0xcf,
   0xd0, 0xef, 0xaa, 0xfb, 0x43, 0x4d, 0x33, 0x85, 0x45, 0xf9, 0x02, 0x7f,
   0x50, 0x3c, 0x9f, 0xa8, 0x51, 0xa3, 0x40, 0x8f, 0x92, 0x9d, 0x38, 0xf5,
   0xbc, 0xb6, 0xda, 0x21, 0x10, 0xff, 0xf3, 0xd2, 0xcd, 0x0c, 0x13, 0xec,
   0x5f, 0x97, 0x44, 0x17, 0xc4, 0xa7, 0x7e, 0x3d, 0x64, 0x5d, 0x19, 0x73,
   0x60, 0x81, 0x4f, 0xdc, 0x22, 0x2a, 0x90, 0x88, 0x46, 0xee, 0xb8, 0x14,
   0xde, 0x5e, 0x0b, 0xdb, 0xe0, 0x32, 0x3a, 0x0a, 0x49, 0x06, 0x24, 0x5c,
   0xc2, 0xd3, 0xac, 0x62, 0x91, 0x95, 0xe4, 0x79, 0xe7, 0xc8, 0x37, 0x6d,
   0x8d, 0xd5, 0x4e, 0xa9, 0x6c, 0x56, 0xf4, 0xea, 0x65, 0x7a, 0xae, 0x08,
   0xba, 0x78, 0x25, 0x2e, 0x1c, 0xa6, 0xb4, 0xc6, 0xe8, 0xdd, 0x74, 0x1f,
   0x4b, 0xbd, 0x8b, 0x8a, 0x70, 0x3e, 0xb5, 0x66, 0x48, 0x03, 0xf6, 0x0e,
   0x61, 0x35, 0x57, 0xb9, 0x86, 0xc1, 0x1d, 0x9e, 0xe1, 0xf8, 0x98, 0x11,
   0x69, 0xd9, 0x8e, 0x94, 0x9b, 0x1e, 0x87, 0xe9, 0xce, 0x55, 0x28, 0xdf,
   0x8c, 0xa1, 0x89, 0x0d, 0xbf, 0xe6, 0x42, 0x68, 0x41, 0x99, 0x2d, 0x0f,
   0xb0, 0x54, 0xbb, 0x16]"

definition sub_byte :: "byte \<Rightarrow> byte" where
  "sub_byte b = aes_sbox ! unat b"

definition xtime :: "byte \<Rightarrow> byte" where
  "xtime b = push_bit 1 b XOR (if bit b 7 then 0x1b else 0)"

definition xor_bytes :: "bytes \<Rightarrow> bytes \<Rightarrow> bytes" where
  "xor_bytes xs ys = map2 (XOR) xs ys"

text \<open>Key expansion: the words of the schedule, newest first, each four bytes.\<close>

definition aes_next :: "nat \<Rightarrow> nat \<Rightarrow> byte \<Rightarrow> bytes list \<Rightarrow> bytes" where
  "aes_next nk i rcon ws =
    (let prev = hd ws; old = ws ! (nk - 1) in
     if i mod nk = 0 then
       (let t = map sub_byte (tl prev @ [hd prev]) in xor_bytes old ((hd t XOR rcon) # tl t))
     else if 6 < nk \<and> i mod nk = 4 then xor_bytes old (map sub_byte prev)
     else xor_bytes old prev)"

fun aes_expand :: "nat \<Rightarrow> nat \<Rightarrow> nat \<Rightarrow> byte \<Rightarrow> bytes list \<Rightarrow> bytes list" where
  "aes_expand 0 nk i rcon ws = ws"
| "aes_expand (Suc n) nk i rcon ws =
    aes_expand n nk (i + 1) (if i mod nk = 0 then xtime rcon else rcon) (aes_next nk i rcon ws # ws)"

definition aes_round_keys :: "bytes \<Rightarrow> bytes list" where
  "aes_round_keys key =
    (let nk = length key div 4; nr = nk + 6;
         ws = rev (aes_expand (4 * (nr + 1) - nk) nk nk 1 (rev (chunks 4 nk key)))
     in map concat (chunks 4 (nr + 1) ws))"

definition shift_rows :: "bytes \<Rightarrow> bytes" where
  "shift_rows s = map (\<lambda>i. s ! ((i + 4 * (i mod 4)) mod 16)) [0..<16]"

fun mix_column :: "bytes \<Rightarrow> bytes" where
  "mix_column [a, b, c, d] =
    [xtime a XOR xtime b XOR b XOR c XOR d,
     a XOR xtime b XOR xtime c XOR c XOR d,
     a XOR b XOR xtime c XOR xtime d XOR d,
     xtime a XOR a XOR b XOR c XOR xtime d]"
| "mix_column s = s"

definition aes_encrypt :: "bytes \<Rightarrow> bytes \<Rightarrow> bytes" where
  "aes_encrypt key blk =
    (let ks = aes_round_keys key;
         s0 = xor_bytes blk (hd ks);
         mid = foldl (\<lambda>s k. xor_bytes (concat (map mix_column (chunks 4 4 (shift_rows (map sub_byte s))))) k)
                 s0 (butlast (tl ks))
     in xor_bytes (shift_rows (map sub_byte mid)) (last ks))"

text \<open>\<open>aes.NewCipher\<close> refuses any other key size; a cipher is its encryption function.\<close>

definition aes_NewCipher :: "bytes \<Rightarrow> error + (bytes \<Rightarrow> bytes)" where
  "aes_NewCipher key =
    (if length key \<in> {16, 24, 32} then Inr (aes_encrypt key) else Inl ''invalid key size'')"

subsection \<open>GCM\<close>

type_synonym w128 = "128 word"

definition gf_mult :: "w128 \<Rightarrow> w128 \<Rightarrow> w128" where
  "gf_mult x y =
    fst (foldl (\<lambda>(z, v) i.
          (if bit x (127 - i) then z XOR v else z,
           if bit v 0 then drop_bit 1 v XOR push_bit 120 0xe1 else drop_bit 1 v))
        (0, y) [0..<128])"

definition pad16 :: "bytes \<Rightarrow> bytes" where
  "pad16 b = b @ replicate ((16 - length b mod 16) mod 16) 0"

definition ghash :: "w128 \<Rightarrow> bytes \<Rightarrow> w128" where
  "ghash h d = foldl (\<lambda>y c. gf_mult (y XOR of_nat (be_nat c)) h) 0 (chunks 16 (length d div 16) d)"

fun gcm_stream :: "(bytes \<Rightarrow> bytes) \<Rightarrow> bytes \<Rightarrow> nat \<Rightarrow> nat \<Rightarrow> bytes" where
  "gcm_stream E nonce ctr 0 = []"
| "gcm_stream E nonce ctr (Suc n) = E (nonce @ be_bytes 4 ctr) @ gcm_stream E nonce (ctr + 1) n"

definition gcm_ctr :: "(bytes \<Rightarrow> bytes) \<Rightarrow> bytes \<Rightarrow> bytes \<Rightarrow> bytes" where
  "gcm_ctr E nonce d = xor_bytes d (gcm_stream E nonce 2 ((length d + 15) div 16))"

definition gcm_tag :: "(bytes \<Rightarrow> bytes) \<Rightarrow> bytes \<Rightarrow> bytes \<Rightarrow> bytes \<Rightarrow> bytes" where
  "gcm_tag E nonce ct aad =
    (let h = of_nat (be_nat (E (replicate 16 0)));
         s = ghash h (pad16 aad @ pad16 ct @ be_bytes 8 (8 * length aad) @ be_bytes 8 (8 * length ct))
     in be_bytes 16 (unat (s XOR of_nat (be_nat (E (nonce @ be_bytes 4 1))))))"

definition gcm_Seal :: "(bytes \<Rightarrow> bytes) \<Rightarrow> bytes \<Rightarrow> bytes \<Rightarrow> bytes \<Rightarrow> bytes" where
  "gcm_Seal E nonce plaintext aad =
    (let ct = gcm_ctr E nonce plaintext in ct @ gcm_tag E nonce ct aad)"

definition gcm_Open :: "(bytes \<Rightarrow> bytes) \<Rightarrow> bytes \<Rightarrow> bytes \<Rightarrow> bytes \<Rightarrow> error + bytes" where
  "gcm_Open E nonce ciphertext aad =
    (if length ciphertext < 16 then Inl ''cipher: message authentication failed''
     else
       (let n = length ciphertext - 16; ct = take n ciphertext in
        if drop n ciphertext = gcm_tag E nonce ct aad then Inr (gcm_ctr E nonce ct)
        else Inl ''cipher: message authentication failed''))"

subsection \<open>Lengths\<close>

lemma length_xor_bytes [simp, go_len]: "length (xor_bytes a b) = min (length a) (length b)"
  by (simp add: xor_bytes_def)

lemma length_chunks [simp, go_len]: "length (chunks n k xs) = k"
  by (induction n k xs rule: chunks.induct) auto

lemma chunks_lengths:
  "length xs = n * k \<Longrightarrow> c \<in> set (chunks n k xs) \<Longrightarrow> length c = n"
  by (induction n k xs rule: chunks.induct) auto

lemma set_chunks_subset:
  "c \<in> set (chunks n k xs) \<Longrightarrow> set c \<subseteq> set xs"
proof (induction n k xs rule: chunks.induct)
  case (2 n k xs)
  then show ?case
    using set_take_subset [of n xs] set_drop_subset [of n xs] by auto
qed simp

lemma length_aes_next:
  assumes "0 < nk" "nk \<le> length ws" "\<forall>w \<in> set ws. length w = 4"
  shows "length (aes_next nk i rcon ws) = 4"
proof -
  have h: "length (hd ws) = 4"
    using assms by (cases ws) auto
  have "ws ! (nk - 1) \<in> set ws"
    using assms(1,2) by (intro nth_mem) linarith
  then have "length (ws ! (nk - 1)) = 4"
    using assms(3) by blast
  with h show ?thesis
    by (simp add: aes_next_def Let_def)
qed

lemma aes_expand_words:
  assumes "0 < nk" "nk \<le> length ws" "\<forall>w \<in> set ws. length w = 4"
  shows "length (aes_expand n nk i rcon ws) = n + length ws \<and>
    (\<forall>w \<in> set (aes_expand n nk i rcon ws). length w = 4)"
  using assms
proof (induction n arbitrary: i rcon ws)
  case (Suc n)
  then have "\<forall>w \<in> set (aes_next nk i rcon ws # ws). length w = 4"
    using length_aes_next by simp
  with Suc.IH [of "aes_next nk i rcon ws # ws"] Suc.prems show ?case
    by simp
qed simp

lemma length_aes_round_key:
  assumes "length key \<in> {16, 24, 32}" and "k \<in> set (aes_round_keys key)"
  shows "length k = 16"
proof -
  define nk where "nk = length key div 4"
  define ws where "ws = aes_expand (4 * (nk + 6 + 1) - nk) nk nk 1 (rev (chunks 4 nk key))"
  have nk: "0 < nk" "nk \<le> 8" "length key = 4 * nk"
    using assms(1) by (auto simp: nk_def)
  have w4: "length w = 4" if "w \<in> set (chunks 4 nk key)" for w
    using chunks_lengths [OF nk(3) that] .
  have ws: "length ws = 4 * (nk + 7)" "\<forall>w \<in> set ws. length w = 4"
    using aes_expand_words [of nk "rev (chunks 4 nk key)" "4 * (nk + 6 + 1) - nk" nk 1] nk w4
    by (simp_all add: ws_def)
  have "aes_round_keys key = map concat (chunks 4 (nk + 7) (rev ws))"
    unfolding aes_round_keys_def Let_def nk_def ws_def
    by (simp only: add.assoc) (simp only: numeral_plus_one semiring_norm)
  with assms(2) obtain c where c: "c \<in> set (chunks 4 (nk + 7) (rev ws))" "k = concat c"
    by (simp only: set_map) blast
  have "length c = 4"
    using chunks_lengths [OF _ c(1)] ws(1) by simp
  moreover have "map length c = map (\<lambda>_. 4) c"
    using set_chunks_subset [OF c(1)] ws(2) by auto
  ultimately show ?thesis
    using c(2) by (simp only: length_concat map_replicate_const sum_list_replicate)
      (simp add: length_concat map_replicate_const sum_list_replicate)
qed

lemma aes_round_keys_nonempty: "aes_round_keys key \<noteq> []"
  by (simp add: aes_round_keys_def Let_def flip: length_greater_0_conv)

lemma length_aes_encrypt:
  assumes "length key \<in> {16, 24, 32}"
  shows "length (aes_encrypt key blk) = 16"
proof -
  have "last (aes_round_keys key) \<in> set (aes_round_keys key)"
    using aes_round_keys_nonempty by simp
  then have "length (last (aes_round_keys key)) = 16"
    by (rule length_aes_round_key [OF assms])
  then show ?thesis
    by (simp add: aes_encrypt_def Let_def shift_rows_def)
qed

lemma length_gcm_stream: "(\<And>b. length (E b) = 16) \<Longrightarrow> length (gcm_stream E nonce c n) = 16 * n"
  by (induction n arbitrary: c) auto

lemma xor_bytes_twice: "length d \<le> length k \<Longrightarrow> xor_bytes (xor_bytes d k) k = d"
  by (auto simp: xor_bytes_def list_eq_iff_nth_eq xor.assoc)

lemma length_gcm_ctr:
  assumes "\<And>b. length (E b) = 16"
  shows "length (gcm_ctr E nonce d) = length d"
proof -
  have "length d \<le> 16 * ((length d + 15) div 16)"
    by presburger
  then show ?thesis
    by (simp add: gcm_ctr_def length_gcm_stream [OF assms])
qed

lemma gcm_ctr_twice:
  assumes "\<And>b. length (E b) = 16"
  shows "gcm_ctr E nonce (gcm_ctr E nonce d) = d"
proof -
  have "length d \<le> length (gcm_stream E nonce 2 ((length d + 15) div 16))"
    unfolding length_gcm_stream [OF assms] by presburger
  then show ?thesis
    by (simp add: gcm_ctr_def min_def length_gcm_ctr [OF assms, unfolded gcm_ctr_def] xor_bytes_twice)
qed

lemma length_gcm_tag [simp, go_len]: "length (gcm_tag E nonce ct aad) = 16"
  by (simp add: gcm_tag_def Let_def)

subsection \<open>The interface of an authenticated cipher\<close>

text \<open>
  What the packet code relies on: sealing adds a fixed overhead, opening what was sealed
  under the same nonce and header gives the plaintext back, and whatever opens was
  sealed (there is one sealed form per plaintext, nonce and header).
\<close>

locale aead =
  fixes seal :: "bytes \<Rightarrow> bytes \<Rightarrow> bytes \<Rightarrow> bytes"
    and unseal :: "bytes \<Rightarrow> bytes \<Rightarrow> bytes \<Rightarrow> error + bytes"
    and overhead :: nat
  assumes length_seal: "length (seal nonce p aad) = length p + overhead"
    and unseal_seal: "unseal nonce (seal nonce p aad) aad = Inr p"
    and unseal_only: "unseal nonce c aad = Inr p \<Longrightarrow> c = seal nonce p aad"
begin

lemma unseal_length: "unseal nonce c aad = Inr p \<Longrightarrow> length c = length p + overhead"
  using unseal_only length_seal by blast

lemma unseal_iff: "unseal nonce c aad = Inr p \<longleftrightarrow> c = seal nonce p aad"
  using unseal_only unseal_seal by blast

lemma seal_inject: "seal nonce p aad = seal nonce q aad \<Longrightarrow> p = q"
  using unseal_seal by (metis sum.inject(2))

lemma unseal_short: "length c < overhead \<Longrightarrow> \<exists>e. unseal nonce c aad = Inl e"
  using unseal_length [of nonce c aad] by (cases "unseal nonce c aad") auto

end

text \<open>GCM over any block cipher with 16-byte blocks is such a cipher.\<close>

locale block_cipher =
  fixes E :: "bytes \<Rightarrow> bytes"
  assumes block_length: "length (E b) = 16"
begin

sublocale aead "gcm_Seal E" "gcm_Open E" 16
proof
  fix nonce p aad
  show "length (gcm_Seal E nonce p aad) = length p + 16"
    by (simp add: gcm_Seal_def Let_def length_gcm_ctr block_length)
next
  fix nonce p aad
  show "gcm_Open E nonce (gcm_Seal E nonce p aad) aad = Inr p"
    by (simp add: gcm_Open_def gcm_Seal_def Let_def length_gcm_ctr gcm_ctr_twice block_length)
next
  fix nonce c aad p
  assume "gcm_Open E nonce c aad = Inr p"
  then have "16 \<le> length c"
    and tag: "drop (length c - 16) c = gcm_tag E nonce (take (length c - 16) c) aad"
    and p: "p = gcm_ctr E nonce (take (length c - 16) c)"
    by (auto simp: gcm_Open_def Let_def split: if_splits)
  have "gcm_Seal E nonce p aad = take (length c - 16) c @ drop (length c - 16) c"
    by (simp add: gcm_Seal_def Let_def p gcm_ctr_twice block_length tag)
  then show "c = gcm_Seal E nonce p aad"
    by simp
qed

end

text \<open>AES with a 16-byte key, the cipher of the Initial packets (the keys come out of HKDF).\<close>

definition aes_of :: "bytes \<Rightarrow> bytes \<Rightarrow> bytes" where
  "aes_of key = aes_encrypt (take 16 key @ replicate (16 - length key) 0)"

interpretation aes_gcm: block_cipher "aes_of key" for key
proof
  show "length (aes_of key b) = 16" for b
    unfolding aes_of_def by (rule length_aes_encrypt) (simp add: min_def)
qed

lemma aes_NewCipher_16: "length key = 16 \<Longrightarrow> aes_NewCipher key = Inr (aes_of key)"
  by (simp add: aes_NewCipher_def aes_of_def)

end
