(* ===== verification/Quic_Packet.thy ===== *)
theory Quic_Packet
  imports Quic_Varint Go_Crypto
begin

text \<open>
  QUIC Initial packets (\<open>phantomtcp/quic.go\<close>): the Initial secrets, the long header,
  header protection, packet numbers, and the encryption and decryption of one packet.
  Versions are the 32-bit numbers of the wire, packet numbers 64-bit.
\<close>

subsection \<open>Versions and secrets\<close>

definition quicVersionNone :: nat where "quicVersionNone = 0"
definition quicVersionNotLong :: nat where "quicVersionNotLong = 0xffffffff"
definition quicVersion1 :: nat where "quicVersion1 = 0x00000001"
definition quicVersionDraft29 :: nat where "quicVersionDraft29 = 0xff00001d"
definition quicVersion2 :: nat where "quicVersion2 = 0x6b3343cf"
definition quicVersionGoogle :: nat where "quicVersionGoogle = 0xfffffffe"

definition quicMinimumInitialDatagramSize :: nat where "quicMinimumInitialDatagramSize = 1200"
definition quicPendingTimeout :: int where "quicPendingTimeout = 5000000000"
definition quicPendingLimit :: nat where "quicPendingLimit = 1024"
definition quicPendingBytes :: nat where "quicPendingBytes = 256 * 1024"

lemmas quic_versions = quicVersionNone_def quicVersionNotLong_def quicVersion1_def
  quicVersionDraft29_def quicVersion2_def quicVersionGoogle_def

definition quicV1Salt :: bytes where
  "quicV1Salt = [0x38, 0x76, 0x2c, 0xf7, 0xf5, 0x59, 0x34, 0xb3, 0x4d, 0x17, 0x9a, 0xe6, 0xa4,
    0xc8, 0x0c, 0xad, 0xcc, 0xbb, 0x7f, 0x0a]"

definition quicDraft29Salt :: bytes where
  "quicDraft29Salt = [0xaf, 0xbf, 0xec, 0x28, 0x99, 0x93, 0xd2, 0x4c, 0x9e, 0x97, 0x86, 0xf1, 0x9c,
    0x61, 0x11, 0xe0, 0x43, 0x90, 0xa8, 0x99]"

definition quicV2Salt :: bytes where
  "quicV2Salt = [0x0d, 0xed, 0xe3, 0xde, 0xf7, 0x00, 0xa6, 0xdb, 0x81, 0x93, 0x81, 0xbe, 0x6e,
    0x26, 0x9d, 0xcb, 0xf9, 0xbd, 0x2e, 0xd9]"

definition quicVersionSalt :: "nat \<Rightarrow> bytes option" where
  "quicVersionSalt version =
    (if version = quicVersion1 then Some quicV1Salt
     else if version = quicVersionDraft29 then Some quicDraft29Salt
     else if version = quicVersion2 then Some quicV2Salt
     else None)"

definition hkdfExtract :: "bytes \<Rightarrow> bytes \<Rightarrow> bytes" where
  "hkdfExtract salt ikm =
    hmac_sha256 (if length salt = 0 then replicate 32 0 else salt) ikm"

text \<open>
  The loop of \<open>hkdfExpandLabel\<close>: \<open>out\<close> is what has been generated so far. Every
  block is 32 bytes long, so the loop ends.
\<close>

lemma length_sha256_round: "length st = 8 \<Longrightarrow> length (sha256_round st kw) = 8"
  by (cases "(st, kw)" rule: sha256_round.cases) (simp_all add: Let_def)

lemma length_foldl_round: "length st = 8 \<Longrightarrow> length (foldl sha256_round st kws) = 8"
  by (induction kws arbitrary: st) (simp_all add: length_sha256_round)

lemma length_foldl_block: "length st = 8 \<Longrightarrow> length (foldl sha256_block st bs) = 8"
  by (induction bs arbitrary: st) (simp_all add: sha256_block_def Let_def length_foldl_round)

lemma length_sha256 [simp, go_len]: "length (sha256 m) = 32"
proof -
  define st where "st = foldl sha256_block sha256_h0
    (chunks 64 (length (sha256_pad m) div 64) (sha256_pad m))"
  have "length st = 8"
    unfolding st_def by (rule length_foldl_block) (simp add: sha256_h0_def)
  then have "sum_list (map (\<lambda>w. length (be_bytes 4 (unat w))) st) = 32"
    by (simp add: sum_list_triv)
  then show ?thesis
    by (simp add: sha256_def Let_def length_concat comp_def flip: st_def)
qed

lemma length_hmac_sha256 [simp, go_len]: "length (hmac_sha256 k m) = 32"
  by (simp add: hmac_sha256_def Let_def)

function hkdf_loop :: "bytes \<Rightarrow> bytes \<Rightarrow> nat \<Rightarrow> bytes \<Rightarrow> bytes \<Rightarrow> byte \<Rightarrow> bytes" where
  "hkdf_loop secret info len out block counter =
    (if length out < len then
       (let block' = hmac_sha256 secret (block @ info @ [counter])
        in hkdf_loop secret info len (out @ take (len - length out) block') block' (counter + 1))
     else out)"
  by pat_completeness auto
termination
  by (relation "measure (\<lambda>(_, _, len, out, _, _). len - length out)") auto

declare hkdf_loop.simps [simp del]

definition hkdfExpandLabel :: "bytes \<Rightarrow> gostr \<Rightarrow> nat \<Rightarrow> bytes" where
  "hkdfExpandLabel secret label len =
    (let fullLabel = str ''tls13 '' @ label;
         info = be_bytes 2 len @ [of_nat (length fullLabel)] @ fullLabel @ [0]
     in hkdf_loop secret info len [] [] 1)"

definition initialSecrets :: "nat \<Rightarrow> bytes \<Rightarrow> bool \<Rightarrow> (bytes \<times> bytes \<times> bytes) option" where
  "initialSecrets version dcid server =
    (case quicVersionSalt version of
       None \<Rightarrow> None
     | Some salt \<Rightarrow>
        (let initial = hkdfExtract salt dcid;
             perspective = (if server then str ''server in'' else str ''client in'');
             secret = hkdfExpandLabel initial perspective 32;
             v2 = (version = quicVersion2);
             keyLabel = (if v2 then str ''quicv2 key'' else str ''quic key'');
             ivLabel = (if v2 then str ''quicv2 iv'' else str ''quic iv'');
             hpLabel = (if v2 then str ''quicv2 hp'' else str ''quic hp'')
         in Some (hkdfExpandLabel secret keyLabel 16, hkdfExpandLabel secret ivLabel 12,
                  hkdfExpandLabel secret hpLabel 16)))"

definition quicInitialSecrets :: "nat \<Rightarrow> bytes \<Rightarrow> (bytes \<times> bytes \<times> bytes) option" where
  "quicInitialSecrets version dcid = initialSecrets version dcid False"

lemma length_hkdf_loop: "length out \<le> len \<Longrightarrow> length (hkdf_loop secret info len out block counter) = len"
proof (induction secret info len out block counter rule: hkdf_loop.induct)
  case (1 secret info len out block counter)
  then show ?case
    by (subst hkdf_loop.simps) (auto simp: Let_def)
qed

lemma length_hkdfExpandLabel [simp, go_len]: "length (hkdfExpandLabel secret label len) = len"
  by (simp add: hkdfExpandLabel_def Let_def length_hkdf_loop)

text \<open>The derived key, iv and header-protection key have the sizes the ciphers need.\<close>

lemma initialSecrets_lengths:
  "initialSecrets version dcid server = Some (key, iv, hp) \<Longrightarrow>
    length key = 16 \<and> length iv = 12 \<and> length hp = 16"
  by (auto simp: initialSecrets_def Let_def split: option.splits)

subsection \<open>The long header\<close>

record initialParse =
  pkt_version :: nat
  pkt_dcid :: bytes
  pkt_scid :: bytes
  pkt_token :: bytes
  pkt_pnOffset :: nat
  pkt_payloadLen :: nat
  pkt_packetLen :: nat

definition quicLongPacketType :: "byte \<Rightarrow> nat \<Rightarrow> nat" where
  "quicLongPacketType first version =
    (let packetType = unat (drop_bit 4 first AND 0x03) in
     if version = quicVersion2 then
       (if packetType = 0 then 3 else if packetType = 1 then 0 else if packetType = 2 then 1 else 2)
     else packetType)"

definition parseInitialPacket :: "bytes \<Rightarrow> error + initialParse" where
  "parseInitialPacket data =
    (if length data < 7 \<or> data ! 0 AND 0x80 = 0 then Inl ''not long header''
     else
       (let version = be_nat (take 4 (drop 1 data)) in
        if quicLongPacketType (data ! 0) version \<noteq> 0 then Inl ''not initial''
        else
          (let dcidLen = unat (data ! 5); pos = 6 in
           if pos + dcidLen > length data then Inl ''short dcid''
           else
             (let dcid = take dcidLen (drop pos data); pos = pos + dcidLen in
              if pos \<ge> length data then Inl ''short scid len''
              else
                (let scidLen = unat (data ! pos); pos = pos + 1 in
                 if pos + scidLen > length data then Inl ''short scid''
                 else
                   (let scid = take scidLen (drop pos data); pos = pos + scidLen in
                    case readVarint (drop pos data) of
                      Inl e \<Rightarrow> Inl e
                    | Inr (tokenLen, n) \<Rightarrow>
                        (let pos = pos + n in
                         if pos + tokenLen > length data then Inl ''short token''
                         else
                           (let token = take tokenLen (drop pos data); pos = pos + tokenLen in
                            case readVarint (drop pos data) of
                              Inl e \<Rightarrow> Inl e
                            | Inr (payloadLen, n) \<Rightarrow>
                                (let pnOffset = pos + n in
                                 if pnOffset + payloadLen > length data then Inl ''short payload''
                                 else Inr \<lparr>pkt_version = version, pkt_dcid = dcid, pkt_scid = scid,
                                   pkt_token = token, pkt_pnOffset = pnOffset,
                                   pkt_payloadLen = payloadLen,
                                   pkt_packetLen = pnOffset + payloadLen\<rparr>)))))))))"

subsection \<open>Header protection\<close>

text \<open>
  Both directions XOR the first byte with the low bits of the mask, and the bytes of the
  packet number with the bytes after it; removing reads the number's length from the
  unmasked first byte, applying is told it.
\<close>

definition xor_mask :: "bytes \<Rightarrow> nat \<Rightarrow> bytes \<Rightarrow> nat \<Rightarrow> bytes" where
  "xor_mask p off msk n =
    foldl (\<lambda>p i. p[off + i := p ! (off + i) XOR msk ! (1 + i)]) p [0..<n]"

definition xor_first :: "bytes \<Rightarrow> bytes \<Rightarrow> bytes" where
  "xor_first p msk = p[0 := p ! 0 XOR (msk ! 0 AND 0x0f)]"

definition removeHeaderProtection :: "bytes \<Rightarrow> nat \<Rightarrow> bytes \<Rightarrow> error + nat \<times> bytes" where
  "removeHeaderProtection packet pnOffset hpKey =
    (if pnOffset + 20 > length packet then Inl ''short header for hp sample''
     else
       (case aes_NewCipher hpKey of
          Inl e \<Rightarrow> Inl e
        | Inr block \<Rightarrow>
            (let mask = block (take 16 (drop (pnOffset + 4) packet));
                 packet = xor_first packet mask;
                 pnLen = unat (packet ! 0 AND 0x03) + 1
             in if pnOffset + pnLen > length packet then Inl ''short packet number''
                else Inr (pnLen, xor_mask packet pnOffset mask pnLen))))"

definition applyHeaderProtection :: "bytes \<Rightarrow> nat \<Rightarrow> nat \<Rightarrow> bytes \<Rightarrow> error + bytes" where
  "applyHeaderProtection header pnOffset pnLen hpKey =
    (if pnOffset + 4 + 16 > length header then Inl ''short header for hp sample''
     else
       (case aes_NewCipher hpKey of
          Inl e \<Rightarrow> Inl e
        | Inr block \<Rightarrow>
            (let mask = block (take 16 (drop (pnOffset + 4) header))
             in Inr (xor_mask (xor_first header mask) pnOffset mask pnLen))))"

subsection \<open>Packet numbers\<close>

text \<open>
  \<open>expected & ^pnMask | truncated\<close> keeps the high bits of \<open>expected\<close> and takes the
  low ones from the wire: the mask is \<open>2 ^ (8 * pnLen) - 1\<close> and \<open>truncated\<close> fits it.
\<close>

definition decodePacketNumber :: "bytes \<Rightarrow> nat \<Rightarrow> nat \<Rightarrow> nat \<Rightarrow> nat" where
  "decodePacketNumber header pnOffset pnLen expected =
    (let truncated = be_nat (take pnLen (drop pnOffset header));
         pnWindow = 2 ^ (8 * pnLen);
         pnHalfWindow = pnWindow div 2;
         candidate = expected div pnWindow * pnWindow + truncated;
         maxPacketNumber = 2 ^ 62 - 1
     in if u64 (candidate + pnHalfWindow) \<le> expected \<and> candidate \<le> maxPacketNumber - pnWindow
        then u64 (candidate + pnWindow)
        else if candidate > u64 (expected + pnHalfWindow) \<and> candidate \<ge> pnWindow
        then candidate - pnWindow
        else candidate)"

definition encodePacketNumber :: "nat \<Rightarrow> nat \<Rightarrow> bytes" where
  "encodePacketNumber pn pnLen = be_bytes pnLen pn"

definition packetNumberLen :: "nat \<Rightarrow> nat" where
  "packetNumberLen pn =
    (if pn \<le> 0xff then 1 else if pn \<le> 0xffff then 2 else if pn \<le> 0xffffff then 3 else 4)"

text \<open>The iv is always 12 bytes long here, as long as the nonce.\<close>

definition quicNonce :: "bytes \<Rightarrow> nat \<Rightarrow> bytes" where
  "quicNonce iv pn = xor_bytes (replicate 4 0 @ be_bytes 8 pn) iv"

subsection \<open>Decryption and encryption of one packet\<close>

definition decryptInitialWithExpected ::
  "bytes \<Rightarrow> bytes \<Rightarrow> bytes \<Rightarrow> bytes \<Rightarrow> nat \<Rightarrow> error + bytes \<times> nat \<times> nat" where
  "decryptInitialWithExpected data key iv hp expected =
    (case parseInitialPacket data of
       Inl e \<Rightarrow> Inl e
     | Inr pkt \<Rightarrow>
        (case removeHeaderProtection (take (pkt_packetLen pkt) data) (pkt_pnOffset pkt) hp of
           Inl e \<Rightarrow> Inl e
         | Inr (pnLen, packet) \<Rightarrow>
            (let headerEnd = pkt_pnOffset pkt + pnLen in
             if headerEnd + pkt_payloadLen pkt - pnLen > length packet then Inl ''short ciphertext''
             else
               (let pn = decodePacketNumber packet (pkt_pnOffset pkt) pnLen expected;
                    aad = take headerEnd packet;
                    ciphertext = take (pkt_pnOffset pkt + pkt_payloadLen pkt - headerEnd) (drop headerEnd packet)
                in case aes_NewCipher key of
                     Inl e \<Rightarrow> Inl e
                   | Inr block \<Rightarrow>
                      (case gcm_Open block (quicNonce iv pn) ciphertext aad of
                         Inl e \<Rightarrow> Inl e
                       | Inr plaintext \<Rightarrow> Inr (plaintext, pn, pnLen))))))"

definition decryptInitial :: "bytes \<Rightarrow> bytes \<Rightarrow> bytes \<Rightarrow> bytes \<Rightarrow> error + bytes \<times> nat" where
  "decryptInitial data key iv hp =
    (case decryptInitialWithExpected data key iv hp 0 of
       Inl e \<Rightarrow> Inl e
     | Inr (plaintext, pn, _) \<Rightarrow> Inr (plaintext, pn))"

definition initialHeader :: "nat \<Rightarrow> bytes \<Rightarrow> bytes \<Rightarrow> bytes \<Rightarrow> nat \<Rightarrow> nat \<Rightarrow> bytes" where
  "initialHeader version dcid scid token pnLen plainLen =
    [(0xc0 OR of_nat (pnLen - 1)) OR (if version = quicVersion2 then 0x10 else 0)]
    @ be_bytes 4 version
    @ [of_nat (length dcid)] @ dcid
    @ [of_nat (length scid)] @ scid
    @ writeVarint (length token) @ token
    @ writeVarint (pnLen + plainLen + 16)"

definition encryptInitialWithPNLen ::
  "nat \<Rightarrow> bytes \<Rightarrow> bytes \<Rightarrow> bytes \<Rightarrow> nat \<Rightarrow> nat \<Rightarrow> bytes \<Rightarrow> bytes \<Rightarrow> bytes \<Rightarrow> bytes \<Rightarrow> error + bytes"
where
  "encryptInitialWithPNLen version dcid scid token pn pnLen plaintext key iv hp =
    (let pnLen = (if pnLen < 1 \<or> pnLen > 4 then packetNumberLen pn else pnLen);
         pnBytes = encodePacketNumber pn pnLen
     in case aes_NewCipher key of
          Inl e \<Rightarrow> Inl e
        | Inr block \<Rightarrow>
           (let header0 = initialHeader version dcid scid token pnLen (length plaintext);
                pnOffset = length header0;
                header = header0 @ pnBytes;
                ciphertext = gcm_Seal block (quicNonce iv pn) plaintext header
            in applyHeaderProtection (header @ ciphertext) pnOffset pnLen hp))"

definition encryptInitial ::
  "nat \<Rightarrow> bytes \<Rightarrow> bytes \<Rightarrow> bytes \<Rightarrow> nat \<Rightarrow> bytes \<Rightarrow> bytes \<Rightarrow> bytes \<Rightarrow> bytes \<Rightarrow> error + bytes" where
  "encryptInitial version dcid scid token pn plaintext key iv hp =
    encryptInitialWithPNLen version dcid scid token pn (packetNumberLen pn) plaintext key iv hp"

subsection \<open>Decoding packet numbers\<close>

text \<open>
  The arithmetic of the choice, over one window size: keeping the high part of
  \<open>expected\<close>, the low part of \<open>pn\<close> gives \<open>pn\<close>, or misses it by one window.
\<close>

lemma window_quotients:
  fixes pn expected h W :: nat
  assumes W: "W = 2 * h" "0 < h"
    and low: "expected < pn + h" and high: "pn \<le> expected + h"
  shows "expected div W * W = pn div W * W \<or> expected div W * W = pn div W * W + W
    \<or> pn div W * W = expected div W * W + W"
proof -
  have step: "x div W \<le> Suc (y div W)" if "x \<le> y + W" for x y
  proof -
    have "(y + W) div W = Suc (y div W)"
      using W by (subst div_add_self2) simp_all
    with div_le_mono [OF that, of W] show ?thesis by simp
  qed
  have a: "pn div W \<le> Suc (expected div W)"
    using W high by (intro step) linarith
  have b: "expected div W \<le> Suc (pn div W)"
    using W low by (intro step) linarith
  from a b have "expected div W = pn div W \<or> expected div W = Suc (pn div W) \<or> pn div W = Suc (expected div W)"
    by linarith
  then show ?thesis
    by (elim disjE) simp_all
qed

lemma window_choice:
  fixes pn expected h W :: nat
  assumes W: "W = 2 * h" "0 < h" "h \<le> 2147483648"
    and low: "expected < pn + h" and high: "pn \<le> expected + h"
    and pn: "pn < 4611686018427387904" and e: "expected \<le> 4611686018427387904"
    and c: "c = expected div W * W + pn mod W"
  shows "(if u64 (c + h) \<le> expected \<and> c \<le> 4611686018427387903 - W then u64 (c + W)
    else if c > u64 (expected + h) \<and> c \<ge> W then c - W else c) = pn"
proof -
  define A where "A = expected div W * W"
  define B where "B = pn div W * W"
  have e': "expected = A + expected mod W" and p': "pn = B + pn mod W"
    unfolding A_def B_def by (simp_all only: div_mult_mod_eq)
  have r': "expected mod W < W" "pn mod W < W"
    using W by simp_all
  have AB: "A = B \<or> A = B + W \<or> B = A + W"
    using window_quotients [OF W(1,2) low high] by (simp only: A_def B_def)
  have c': "c = A + pn mod W"
    by (simp only: c A_def)
  have "c \<le> expected + W"
    using c' e' p' r' by linarith
  then have u: "u64 (c + h) = c + h" "u64 (c + W) = c + W" "u64 (expected + h) = expected + h"
    using W e by simp_all
  show ?thesis
    using AB W low high pn e e' p' r' c' unfolding u
    by (elim disjE) (simp_all only: split: if_split, (intro conjI impI; linarith)+)
qed

lemma decodePacketNumber_encode:
  assumes k: "1 \<le> k" "k \<le> 4"
    and wire: "take k (drop off header) = encodePacketNumber pn k"
    and low: "expected < pn + 2 ^ (8 * k) div 2"
    and high: "pn \<le> expected + 2 ^ (8 * k) div 2"
    and pn: "pn < 2 ^ 62" and e: "expected \<le> 2 ^ 62"
  shows "decodePacketNumber header off k expected = pn"
proof -
  have t: "be_nat (take k (drop off header)) = pn mod 2 ^ (8 * k)"
    by (simp add: wire encodePacketNumber_def be_nat_be_bytes power_mult)
  define h where "h = (2 :: nat) ^ (8 * k - 1)"
  have "8 * k = Suc (8 * k - 1)"
    using k by linarith
  then have W: "(2 :: nat) ^ (8 * k) = 2 * h"
    unfolding h_def by (metis power_Suc)
  have h: "0 < h" "h \<le> 2147483648"
    using k power_increasing [of "8 * k - 1" 31 "2 :: nat"] by (simp_all add: h_def)
  have half: "(2 :: nat) ^ (8 * k) div 2 = h"
    unfolding W by simp
  have "(2 :: nat) ^ 62 = 4611686018427387904" and "(2 :: nat) ^ 62 - 1 = 4611686018427387903"
    by simp_all
  with window_choice [OF W h _ _ _ _ refl, of expected pn] low high pn e show ?thesis
    unfolding decodePacketNumber_def Let_def t half by (simp only: simp_thms)
qed

lemma length_xor_mask [simp, go_len]: "length (xor_mask p off m n) = length p"
  unfolding xor_mask_def by (induction n) simp_all

lemma length_xor_first [simp, go_len]: "length (xor_first p m) = length p"
  by (simp add: xor_first_def)

lemma nth_xor_mask:
  assumes "off + n \<le> length p" "i < length p"
  shows "xor_mask p off m n ! i = (if off \<le> i \<and> i < off + n then p ! i XOR m ! (1 + (i - off)) else p ! i)"
  using assms
proof (induction n)
  case 0
  then show ?case by (auto simp add: xor_mask_def)
next
  case (Suc n)
  have step: "xor_mask p off m (Suc n) =
      (xor_mask p off m n)[off + n := xor_mask p off m n ! (off + n) XOR m ! (1 + n)]"
    by (simp add: xor_mask_def)
  show ?case
    using Suc by (auto simp: step nth_list_update)
qed

lemma nth_xor_first:
  "i < length p \<Longrightarrow> xor_first p m ! i = (if i = 0 then p ! 0 XOR (m ! 0 AND 0x0f) else p ! i)"
  by (cases p) (simp_all add: xor_first_def nth_list_update)

lemma high_nibble:
  fixes a m :: byte
  shows "drop_bit 4 (a XOR (m AND 0x0f)) = drop_bit 4 a"
    and "(a XOR (m AND 0x0f)) AND 0x80 = 0 \<longleftrightarrow> a AND 0x80 = 0"
proof -
  have m: "(0x0f :: byte) = mask 4" and e: "(0x80 :: byte) = 2 ^ 7"
    by (simp_all add: mask_numeral)
  show "drop_bit 4 (a XOR (m AND 0x0f)) = drop_bit 4 a"
    unfolding m by (rule bit_word_eqI) (simp add: bit_simps)
  show "(a XOR (m AND 0x0f)) AND 0x80 = 0 \<longleftrightarrow> a AND 0x80 = 0"
    unfolding m e and_exp_eq_0_iff_not_bit by (simp add: bit_simps)
qed

text \<open>XORing twice with one mask restores the packet.\<close>

lemma xor_first_mask_twice:
  assumes "0 < off" "off + n \<le> length p"
  shows "xor_mask (xor_first (xor_mask (xor_first p m) off m n) m) off m n = p"
proof (rule nth_equalityI)
  fix i assume "i < length (xor_mask (xor_first (xor_mask (xor_first p m) off m n) m) off m n)"
  then have "i < length p" "0 < length p" by auto
  with assms show "xor_mask (xor_first (xor_mask (xor_first p m) off m n) m) off m n ! i = p ! i"
    by (simp add: nth_xor_mask nth_xor_first)
qed simp

lemma xor_first_mask_sample:
  assumes "0 < off" "off + n \<le> length p" "n \<le> 4"
  shows "drop (off + 4) (xor_mask (xor_first p m) off m n) = drop (off + 4) p"
  using assms by (auto intro!: nth_equalityI simp: nth_xor_mask nth_xor_first)

lemma removeHeaderProtection_apply:
  assumes a: "applyHeaderProtection header off n hp = Inr p"
    and off: "0 < off" and n: "n = unat (header ! 0 AND 0x03) + 1"
  shows "removeHeaderProtection p off hp = Inr (n, header)"
proof -
  from a obtain E where E: "aes_NewCipher hp = Inr E" and len: "off + 20 \<le> length header"
    and p: "p = xor_mask (xor_first header (E (take 16 (drop (off + 4) header)))) off
              (E (take 16 (drop (off + 4) header))) n"
    by (auto simp: applyHeaderProtection_def Let_def split: if_splits sum.splits)
  define m where "m = E (take 16 (drop (off + 4) header))"
  have n4: "n \<le> 4"
  proof -
    have "header ! 0 AND 0x03 \<le> (3 :: byte)"
      by (rule word_and_le1)
    then show ?thesis by (simp add: n word_le_nat_alt)
  qed
  have lenp: "length p = length header"
    by (simp add: p)
  have sample: "take 16 (drop (off + 4) p) = take 16 (drop (off + 4) header)"
    using xor_first_mask_sample [of off n header m] off len n4 by (simp add: p m_def)
  have restored: "xor_mask (xor_first p m) off m n = header"
    using xor_first_mask_twice [of off n header m] off len n4 by (simp add: p m_def)
  have "off + n \<le> length (xor_first p m)" "0 < length (xor_first p m)"
    using len n4 lenp by auto
  from nth_xor_mask [OF this, of m] off have "xor_first p m ! 0 = header ! 0"
    by (simp add: restored)
  with n have "unat (xor_first p m ! 0 AND 0x03) + 1 = n"
    by simp
  with E lenp len sample restored n4 show ?thesis
    by (simp add: removeHeaderProtection_def Let_def flip: m_def)


qed

lemma applyHeaderProtection_ok:
  assumes "off + 20 \<le> length header" "length hp = 16"
  shows "\<exists>p. applyHeaderProtection header off n hp = Inr p \<and> length p = length header"
  using assms by (simp add: applyHeaderProtection_def aes_NewCipher_16 Let_def)

text \<open>Header protection leaves the fields of the header before the packet number alone.\<close>

lemma applyHeaderProtection_header:
  assumes a: "applyHeaderProtection header off n hp = Inr p" and off: "0 < off" and n: "n \<le> 4"
  shows "\<exists>f. p = f # take (off - 1) (drop 1 header) @ drop off p
    \<and> drop_bit 4 f = drop_bit 4 (header ! 0) \<and> (f AND 0x80 = 0 \<longleftrightarrow> header ! 0 AND 0x80 = 0)
    \<and> length p = length header"
proof -
  from a obtain m where p: "p = xor_mask (xor_first header m) off m n" and len: "off + 20 \<le> length header"
    by (auto simp: applyHeaderProtection_def Let_def split: if_splits sum.splits)
  have bnd: "off + n \<le> length (xor_first header m)"
    using len n by simp
  have "p = (p ! 0) # take (off - 1) (drop 1 header) @ drop off p"
  proof (rule nth_equalityI)
    show "length p = length ((p ! 0) # take (off - 1) (drop 1 header) @ drop off p)"
      using len off by (simp add: p)
  next
    fix i assume i: "i < length p"
    then have "p ! i = header ! i" if "0 < i" "i < off"
      using that bnd by (simp add: p nth_xor_mask nth_xor_first)
    then show "p ! i = ((p ! 0) # take (off - 1) (drop 1 header) @ drop off p) ! i"
      using i off len by (cases i) (auto simp: nth_append p)
  qed
  moreover have "p ! 0 = header ! 0 XOR (m ! 0 AND 0x0f)"
    using nth_xor_mask [OF bnd, of 0 m] nth_xor_first [of 0 header m] off len by (cases "header = []") (auto simp: p)
  ultimately show ?thesis
    using high_nibble by (intro exI [of _ "p ! 0"]) (simp add: p)
qed


text \<open>
  Parsing what \<open>initialHeader\<close> lays out, under any first byte of an Initial packet of the
  version, followed by at least the announced number of bytes.
\<close>

lemma parseInitialPacket_header:
  assumes first: "first AND 0x80 \<noteq> 0" "quicLongPacketType first version = 0"
    and sizes: "version < 2 ^ 32" "length dcid < 256" "length scid < 256" "length token < 2 ^ 62"
      "pnLen + plainLen + 16 < 2 ^ 62"
    and h: "h = initialHeader version dcid scid token pnLen plainLen"
    and rest: "pnLen + plainLen + 16 \<le> length rest"
  shows "parseInitialPacket (first # drop 1 h @ rest) =
    Inr \<lparr>pkt_version = version, pkt_dcid = dcid, pkt_scid = scid, pkt_token = token,
      pkt_pnOffset = length h, pkt_payloadLen = pnLen + plainLen + 16,
      pkt_packetLen = length h + (pnLen + plainLen + 16)\<rparr>"
proof -
  let ?tl = "writeVarint (length token)" and ?pl = "writeVarint (pnLen + plainLen + 16)"
  have data: "first # drop 1 h @ rest = [first] @ be_bytes 4 version
      @ [of_nat (length dcid)] @ dcid @ [of_nat (length scid)] @ scid
      @ ?tl @ token @ ?pl @ rest"
    by (simp add: h initialHeader_def)
  have len: "length h = 7 + length dcid + length scid + length ?tl + length token + length ?pl"
    by (simp add: h initialHeader_def)
  have tok: "readVarint (?tl @ token @ ?pl @ rest) = Inr (length token, length ?tl)"
    using varint.dec_enc [of "length token"] sizes by simp
  have pay: "readVarint (?pl @ rest) = Inr (pnLen + plainLen + 16, length ?pl)"
    using varint.dec_enc [of "pnLen + plainLen + 16"] sizes by simp
  have v: "be_nat (be_bytes 4 version) = version"
    using sizes by (simp add: be_nat_be_bytes)
  let ?d = "length dcid" and ?s = "length scid" and ?t = "length token"
  define D where "D = first # drop 1 h @ rest"
  have lenD: "length D = length h + length rest"
    using len by (simp add: D_def)
  have D: "D = first # be_bytes 4 version @ of_nat ?d # dcid @ of_nat ?s # scid @ ?tl @ token @ ?pl @ rest"
    using data by (simp add: D_def)
  have f0: "D ! 0 = first"
    by (simp add: D)
  have f1: "take 4 (drop 1 D) = be_bytes 4 version"
    by (simp add: D)
  have f2: "D ! 5 = of_nat ?d"
    unfolding D by (rule nth_at [of "[first] @ be_bytes 4 version", simplified]) simp
  have f3: "take ?d (drop 6 D) = dcid"
    using take_drop_append_middle [of "[first] @ be_bytes 4 version @ [of_nat ?d]" 6 dcid ?d]
    by (simp add: D)
  have f4: "D ! (6 + ?d) = of_nat ?s"
    unfolding D by (rule nth_at [of "[first] @ be_bytes 4 version @ of_nat ?d # dcid", simplified]) simp
  have f5: "take ?s (drop (6 + ?d + 1) D) = scid"
    unfolding D by (rule take_drop_append_middle [of "[first] @ be_bytes 4 version @ of_nat ?d # dcid @ [of_nat ?s]", simplified]) simp_all
  have f6: "drop (6 + ?d + 1 + ?s) D = ?tl @ token @ ?pl @ rest"
    unfolding D by (rule drop_at [of "[first] @ be_bytes 4 version @ of_nat ?d # dcid @ of_nat ?s # scid", simplified]) simp
  have f7: "take ?t (drop (6 + ?d + 1 + ?s + length ?tl) D) = token"
    unfolding D by (rule take_drop_append_middle [of "[first] @ be_bytes 4 version @ of_nat ?d # dcid @ of_nat ?s # scid @ ?tl", simplified]) simp_all
  have f8: "drop (6 + ?d + 1 + ?s + length ?tl + ?t) D = ?pl @ rest"
    unfolding D by (rule drop_at [of "[first] @ be_bytes 4 version @ of_nat ?d # dcid @ of_nat ?s # scid @ ?tl @ token", simplified]) simp
  have u: "unat (of_nat ?d :: byte) = ?d" "unat (of_nat ?s :: byte) = ?s"
    using sizes by simp_all
  have "parseInitialPacket D =
    Inr \<lparr>pkt_version = version, pkt_dcid = dcid, pkt_scid = scid, pkt_token = token,
      pkt_pnOffset = length h, pkt_payloadLen = pnLen + plainLen + 16,
      pkt_packetLen = length h + (pnLen + plainLen + 16)\<rparr>"
    using first rest lenD len
    unfolding parseInitialPacket_def Let_def f0 f1 f2 v u f3 f4 f5 f6 tok
    by (simp add: f7 [simplified] f8 [simplified] pay)
  then show ?thesis
    by (simp only: D_def)
qed


subsection \<open>A packet that was encrypted decrypts to its plaintext\<close>

lemma initialHeader_first:
  assumes n: "1 \<le> pnLen" "pnLen \<le> 4"
    and h: "h = initialHeader version dcid scid token pnLen plainLen"
  shows "unat (h ! 0 AND 0x03) + 1 = pnLen" "h ! 0 AND 0x80 \<noteq> 0"
    "version = quicVersion2 \<Longrightarrow> drop_bit 4 (h ! 0) = 13"
    "version \<noteq> quicVersion2 \<Longrightarrow> drop_bit 4 (h ! 0) = 12"
proof -
  have all: "\<forall>n \<in> {1, 2, 3, 4 :: nat}. \<forall>v \<in> {0, 0x10 :: byte}.
      unat (((0xc0 OR of_nat (n - 1)) OR v) AND 0x03) + 1 = n \<and>
      ((0xc0 OR of_nat (n - 1)) OR v) AND 0x80 \<noteq> 0 \<and>
      drop_bit 4 ((0xc0 OR of_nat (n - 1)) OR v) = (if v = 0 then 12 else 13)"
    by code_simp
  have mem: "pnLen \<in> {1, 2, 3, 4}"
    using n by auto
  have h0: "h ! 0 = (0xc0 OR of_nat (pnLen - 1)) OR (if version = quicVersion2 then 0x10 else 0)"
    by (simp add: h initialHeader_def)
  from bspec [OF bspec [OF all mem], of "if version = quicVersion2 then 0x10 else 0"]
  show "unat (h ! 0 AND 0x03) + 1 = pnLen" "h ! 0 AND 0x80 \<noteq> 0"
    "version = quicVersion2 \<Longrightarrow> drop_bit 4 (h ! 0) = 13"
    "version \<noteq> quicVersion2 \<Longrightarrow> drop_bit 4 (h ! 0) = 12"
    unfolding h0 by (auto split: if_splits)
qed

lemma quicLongPacketType_header:
  assumes "version = quicVersion2 \<Longrightarrow> drop_bit 4 f = (13 :: byte)"
    and "version \<noteq> quicVersion2 \<Longrightarrow> drop_bit 4 f = (12 :: byte)"
  shows "quicLongPacketType f version = 0"
proof -
  have "unat ((13 :: byte) AND 0x03) = 1" "unat ((12 :: byte) AND 0x03) = 0"
    by code_simp+
  with assms show ?thesis
    by (cases "version = quicVersion2") (simp_all add: quicLongPacketType_def Let_def)
qed

lemma length_initialHeader:
  "0 < length (initialHeader version dcid scid token pnLen plainLen)"
  by (simp add: initialHeader_def)

lemma encryptInitialWithPNLen_ok:
  assumes n: "1 \<le> pnLen" "pnLen \<le> 4" and keys: "length key = 16" "length hp = 16"
    and size: "4 \<le> pnLen + length plaintext"
  shows "\<exists>p. encryptInitialWithPNLen version dcid scid token pn pnLen plaintext key iv hp = Inr p
    \<and> length p = length (initialHeader version dcid scid token pnLen (length plaintext))
        + pnLen + length plaintext + 16"
proof -
  let ?h = "initialHeader version dcid scid token pnLen (length plaintext)"
  let ?header = "?h @ encodePacketNumber pn pnLen"
  let ?c = "gcm_Seal (aes_of key) (quicNonce iv pn) plaintext ?header"
  have "length ?c = length plaintext + 16"
    by (rule aes_gcm.length_seal)
  with size applyHeaderProtection_ok [of "length ?h" "?header @ ?c" hp pnLen] keys
  obtain p where "applyHeaderProtection (?header @ ?c) (length ?h) pnLen hp = Inr p"
    "length p = length (?header @ ?c)"
    by (auto simp: encodePacketNumber_def)
  with n keys \<open>length ?c = _\<close> show ?thesis
    by (auto simp: encryptInitialWithPNLen_def Let_def aes_NewCipher_16 encodePacketNumber_def)
qed

text \<open>The layout of an encrypted packet: how it parses, and what removing its protection shows.\<close>

lemma encrypted_packet:
  assumes v: "version < 2 ^ 32" and ids: "length dcid < 256" "length scid < 256"
    and tok: "length token < 2 ^ 62" and pl: "length plaintext < 2 ^ 61"
    and n: "1 \<le> pnLen" "pnLen \<le> 4" and keys: "length key = 16"
    and h: "h = initialHeader version dcid scid token pnLen (length plaintext)"
    and header: "header = h @ encodePacketNumber pn pnLen"
    and c: "c = gcm_Seal (aes_of key) (quicNonce iv pn) plaintext header"
    and enc: "encryptInitialWithPNLen version dcid scid token pn pnLen plaintext key iv hp = Inr packet"
  shows "removeHeaderProtection packet (length h) hp = Inr (pnLen, header @ c)"
    and "parseInitialPacket (packet @ suffix) =
      Inr \<lparr>pkt_version = version, pkt_dcid = dcid, pkt_scid = scid, pkt_token = token,
        pkt_pnOffset = length h, pkt_payloadLen = pnLen + length plaintext + 16,
        pkt_packetLen = length h + (pnLen + length plaintext + 16)\<rparr>"
    and "length packet = length h + (pnLen + length plaintext + 16)"
proof -
  have lc: "length c = length plaintext + 16"
    unfolding c by (rule aes_gcm.length_seal)
  have ap: "applyHeaderProtection (header @ c) (length h) pnLen hp = Inr packet"
    using enc n keys
    by (simp add: encryptInitialWithPNLen_def Let_def aes_NewCipher_16 flip: h)
      (simp add: c header)
  have h0: "0 < length h"
    unfolding h by (rule length_initialHeader)
  have hd0: "(header @ c) ! 0 = h ! 0"
    using h0 by (simp add: header nth_append)
  note first = initialHeader_first [OF n h]
  show "removeHeaderProtection packet (length h) hp = Inr (pnLen, header @ c)"
    using first(1) by (intro removeHeaderProtection_apply [OF ap h0]) (simp only: hd0)
  from applyHeaderProtection_header [OF ap h0 n(2)] obtain f where
    packet: "packet = f # take (length h - 1) (drop 1 (header @ c)) @ drop (length h) packet"
    and f: "drop_bit 4 f = drop_bit 4 (h ! 0)" "f AND 0x80 \<noteq> 0" and lp: "length packet = length (header @ c)"
    using first(2) by (auto simp: hd0)
  show len: "length packet = length h + (pnLen + length plaintext + 16)"
    using lp lc by (simp add: header encodePacketNumber_def)
  have "take (length h - 1) (drop 1 (header @ c)) = drop 1 h"
    using h0 by (simp add: header take_drop)
  with packet have data: "packet @ suffix = f # drop 1 h @ (drop (length h) packet @ suffix)"
    by (metis append_Cons append_assoc)
  show "parseInitialPacket (packet @ suffix) =
    Inr \<lparr>pkt_version = version, pkt_dcid = dcid, pkt_scid = scid, pkt_token = token,
      pkt_pnOffset = length h, pkt_payloadLen = pnLen + length plaintext + 16,
      pkt_packetLen = length h + (pnLen + length plaintext + 16)\<rparr>"
    unfolding data
  proof (rule parseInitialPacket_header [OF f(2) _ v ids tok _ h])
    show "quicLongPacketType f version = 0"
      using first(3,4) by (intro quicLongPacketType_header) (simp_all add: f(1))
  qed (use n pl len in \<open>simp_all\<close>)
qed

lemma decrypt_encrypt:
  assumes v: "version < 2 ^ 32" and ids: "length dcid < 256" "length scid < 256"
    and tok: "length token < 2 ^ 62" and pl: "length plaintext < 2 ^ 61"
    and n: "1 \<le> pnLen" "pnLen \<le> 4"
    and keys: "length key = 16"
    and low: "expected < pn + 2 ^ (8 * pnLen) div 2" and high: "pn \<le> expected + 2 ^ (8 * pnLen) div 2"
    and pn: "pn < 2 ^ 62" "expected \<le> 2 ^ 62"
    and enc: "encryptInitialWithPNLen version dcid scid token pn pnLen plaintext key iv hp = Inr packet"
  shows "decryptInitialWithExpected (packet @ suffix) key iv hp expected = Inr (plaintext, pn, pnLen)"
proof -
  define h where "h = initialHeader version dcid scid token pnLen (length plaintext)"
  define header where "header = h @ encodePacketNumber pn pnLen"
  define c where "c = gcm_Seal (aes_of key) (quicNonce iv pn) plaintext header"
  note p = encrypted_packet [OF v ids tok pl n keys h_def header_def c_def enc]
  have lc: "length c = length plaintext + 16"
    unfolding c_def by (rule aes_gcm.length_seal)
  have wire: "take pnLen (drop (length h) (header @ c)) = encodePacketNumber pn pnLen"
    by (simp add: header_def encodePacketNumber_def)
  have d: "decodePacketNumber (header @ c) (length h) pnLen expected = pn"
    by (rule decodePacketNumber_encode [OF n wire low high pn])
  have lh: "length header = length h + pnLen"
    by (simp add: header_def encodePacketNumber_def)
  have cl: "length h + (pnLen + length plaintext + 16) - length header = length c"
    using lh lc by simp
  have "gcm_Open (aes_of key) (quicNonce iv pn) c header = Inr plaintext"
    unfolding c_def by (rule aes_gcm.unseal_seal)
  then show ?thesis
    using lh lc p(3) n keys
    by (simp add: decryptInitialWithExpected_def p(1,2) Let_def d aes_NewCipher_16 cl flip: lh)
qed

subsection \<open>What a parsed, and a decrypted, packet looks like\<close>

lemma parseInitialPacket_fields:
  assumes "parseInitialPacket data = Inr pkt"
  shows "pkt_version pkt < 2 ^ 32 \<and> length (pkt_dcid pkt) < 256 \<and> length (pkt_scid pkt) < 256
    \<and> length (pkt_token pkt) \<le> length data \<and> pkt_pnOffset pkt + pkt_payloadLen pkt = pkt_packetLen pkt
    \<and> pkt_packetLen pkt \<le> length data"
proof -
  have "be_nat (take 4 (drop 1 data)) < 256 ^ length (take 4 (drop 1 data))"
    by (rule be_nat_less)
  also have "\<dots> \<le> 256 ^ 4"
    by (rule power_increasing) simp_all
  finally have v: "be_nat (take 4 (drop (Suc 0) data)) < 4294967296"
    by simp
  show ?thesis
    using assms unfolding parseInitialPacket_def Let_def
    by (auto simp: not_less split: if_splits sum.splits intro!: v intro: le_less_trans [OF _ unat_byte_less])
qed

lemma decryptInitial_fields:
  assumes d: "decryptInitialWithExpected data key iv hp expected = Inr (plaintext, pn, n)"
    and key: "length key = 16"
  shows "\<exists>pkt. parseInitialPacket data = Inr pkt \<and> 1 \<le> n \<and> n \<le> 4
    \<and> length plaintext + n + 16 = pkt_payloadLen pkt \<and> 20 \<le> pkt_payloadLen pkt"
proof -
  from d obtain pkt packet where p: "parseInitialPacket data = Inr pkt"
    and r: "removeHeaderProtection (take (pkt_packetLen pkt) data) (pkt_pnOffset pkt) hp = Inr (n, packet)"
    and le: "pkt_pnOffset pkt + n + pkt_payloadLen pkt - n \<le> length packet"
    and o: "gcm_Open (aes_of key) (quicNonce iv (decodePacketNumber packet (pkt_pnOffset pkt) n expected))
      (take (pkt_pnOffset pkt + pkt_payloadLen pkt - (pkt_pnOffset pkt + n)) (drop (pkt_pnOffset pkt + n) packet))
      (take (pkt_pnOffset pkt + n) packet) = Inr plaintext"
    by (auto simp: decryptInitialWithExpected_def aes_NewCipher_16 [OF key] Let_def not_less split: sum.splits if_splits)
  note f = parseInitialPacket_fields [OF p]
  from r obtain m where n: "n = unat (xor_first (take (pkt_packetLen pkt) data) m ! 0 AND 0x03) + 1"
    and len: "length packet = length (take (pkt_packetLen pkt) data)"
    and s: "pkt_pnOffset pkt + 20 \<le> length (take (pkt_packetLen pkt) data)"
    by (auto simp: removeHeaderProtection_def Let_def not_less split: sum.splits if_splits)
  have "(x AND 0x03) \<le> (3 :: byte)" for x
    by (rule word_and_le1)
  then have "n \<le> 4"
    by (simp add: n word_le_nat_alt)
  moreover have "length packet = pkt_packetLen pkt"
    using len f by simp
  moreover from this have "length (take (pkt_pnOffset pkt + pkt_payloadLen pkt - (pkt_pnOffset pkt + n)) (drop (pkt_pnOffset pkt + n) packet))
      = pkt_payloadLen pkt - n"
    using conjunct1 [OF conjunct2 [OF conjunct2 [OF conjunct2 [OF conjunct2 [OF f]]]]] by (simp flip: diff_diff_left)
  then have "pkt_payloadLen pkt - n = length plaintext + 16"
    using aes_gcm.unseal_length [OF o] by simp
  ultimately show ?thesis
    using f s n p len by auto
qed

end
