(* ===== verification/Quic_Collector.thy ===== *)
theory Quic_Collector
  imports Quic_Reassembly Quic_Packet
begin

text \<open>
  Collecting the Initial packets of a connection until its ClientHello is complete
  (\<open>phantomtcp/quic.go\<close>): \<open>quicLongPacketEnd\<close>, \<open>locateQUICInitial\<close>, the
  collector and the pending datagrams of a client, and the classification of a
  datagram (\<open>GetQUICVersion\<close>, \<open>GetQUICSNI\<close>). Times are nanoseconds; the zero
  \<open>time.Time\<close> is \<open>None\<close>.
\<close>

subsection \<open>Coalesced packets\<close>

definition quicLongPacketEnd :: "bytes \<Rightarrow> error + nat \<times> nat" where
  "quicLongPacketEnd data =
    (if length data < 7 \<or> data ! 0 AND 0x80 = 0 then Inl ''not long header''
     else
       (let version = be_nat (take 4 (drop 1 data));
            dcidLen = unat (data ! 5);
            pos = 6
        in if dcidLen > 20 \<or> pos + dcidLen \<ge> length data then Inl ''short dcid''
        else
          (let pos = pos + dcidLen; scidLen = unat (data ! pos); pos = pos + 1 in
           if scidLen > 20 \<or> pos + scidLen > length data then Inl ''short scid''
           else
             (let pos = pos + scidLen in
              if version = 0 then Inr (0xff, length data)
              else
                (let packetType = quicLongPacketType (data ! 0) version in
                 if packetType = 3 then Inr (packetType, length data)
                 else
                   (case (if packetType = 0 then
                            (case readVarint (drop pos data) of Inl e \<Rightarrow> Inl e
                             | Inr (tokenLen, n) \<Rightarrow>
                                (if tokenLen > length data - (pos + n) then Inl ''short token''
                                 else Inr (pos + n + tokenLen)))
                          else Inr pos) of
                      Inl e \<Rightarrow> Inl e
                    | Inr pos \<Rightarrow>
                       (case readVarint (drop pos data) of Inl e \<Rightarrow> Inl e
                        | Inr (payloadLen, n) \<Rightarrow>
                           (if payloadLen > length data - (pos + n) then Inl ''short payload''
                            else Inr (packetType, pos + n + payloadLen)))))))))"

lemma quicLongPacketEnd_bounds:
  assumes "quicLongPacketEnd data = Inr (t, e)"
  shows "0 < e \<and> e \<le> length data"
proof -
  have v: "0 < n \<and> n \<le> length (drop p data)" if "readVarint (drop p data) = Inr (x, n)" for p x n
    using readVarint_bounds [OF that] by simp
  have "data \<noteq> []"
    using assms by (auto simp: quicLongPacketEnd_def)
  with assms show ?thesis
    by (auto simp: quicLongPacketEnd_def Let_def not_less split: if_splits sum.splits dest!: v)
qed

function locateLoop :: "bytes \<Rightarrow> nat \<Rightarrow> error + (bytes \<times> bytes \<times> bytes) option" where
  "locateLoop data off =
    (if off < length data then
       (if data ! off AND 0x80 = 0 then Inl ''Initial not found''
        else
          (case quicLongPacketEnd (drop off data) of Inl e \<Rightarrow> Inl e
           | Inr (packetType, end) \<Rightarrow>
              (let end = end + off in
               if packetType = 3 then Inr None
               else if packetType = 0
               then Inr (Some (take off data, take (end - off) (drop off data), drop end data))
               else locateLoop data end)))
     else Inl ''Initial not found'')"
  by pat_completeness auto
termination
  by (relation "measure (\<lambda>(d, off). length d - off)") (auto dest!: quicLongPacketEnd_bounds)

declare locateLoop.simps [simp del]

text \<open>\<open>Inr None\<close> is the \<open>retry\<close> result.\<close>

definition locateQUICInitial :: "bytes \<Rightarrow> error + (bytes \<times> bytes \<times> bytes) option" where
  "locateQUICInitial data = locateLoop data 0"

subsection \<open>The collector\<close>

record quicInitialCollector =
  col_version :: nat
  col_dcid :: bytes
  col_expected :: nat
  col_stream :: bytes
  col_covered :: "bool list"

definition quicCollector0 :: quicInitialCollector where
  "quicCollector0 = \<lparr>col_version = 0, col_dcid = [], col_expected = 0, col_stream = [], col_covered = []\<rparr>"

definition collectorReset :: "quicInitialCollector \<Rightarrow> quicInitialCollector" where
  "collectorReset col = col\<lparr>col_version := 0, col_dcid := [], col_expected := 0, col_stream := [], col_covered := []\<rparr>"

text \<open>A packet of another connection starts the collection over.\<close>

definition collectorSwitch :: "quicInitialCollector \<Rightarrow> initialParse \<Rightarrow> quicInitialCollector" where
  "collectorSwitch col pkt =
    (if col_version col \<noteq> 0 \<and> (pkt_version pkt \<noteq> col_version col \<or> pkt_dcid pkt \<noteq> col_dcid col)
     then collectorReset col else col)"

text \<open>The connection and the next expected number, once the packet is decrypted.\<close>

definition collectorNote :: "quicInitialCollector \<Rightarrow> initialParse \<Rightarrow> nat \<Rightarrow> quicInitialCollector" where
  "collectorNote col pkt pn =
    (let col = (if col_version col = 0
                then col\<lparr>col_version := pkt_version pkt, col_dcid := pkt_dcid pkt\<rparr> else col)
     in if pn \<ge> col_expected col then col\<lparr>col_expected := u64 (pn + 1)\<rparr> else col)"

text \<open>
  The handling of one Initial packet in the loop of \<open>add\<close>: the packet number, or the
  error it returns with, and the collector as it is then.
\<close>

definition collectorPacket :: "quicInitialCollector \<Rightarrow> bytes \<Rightarrow> (error + nat) \<times> quicInitialCollector" where
  "collectorPacket col packet =
    (case parseInitialPacket packet of Inl e \<Rightarrow> (Inl e, col)
     | Inr pkt \<Rightarrow>
        (let col = collectorSwitch col pkt
         in case quicInitialSecrets (pkt_version pkt) (pkt_dcid pkt) of
              None \<Rightarrow> (Inl ''unsupported QUIC version'', col)
            | Some (key, iv, hp) \<Rightarrow>
               (case decryptInitialWithExpected packet key iv hp (col_expected col) of
                  Inl e \<Rightarrow> (Inl e, col)
                | Inr (plain, pn, _) \<Rightarrow>
                   (let col = collectorNote col pkt pn
                    in case mergeInitialCryptoFrames plain (col_stream col) (col_covered col) of
                         (Some e, stream, covered) \<Rightarrow>
                           (Inl e, col\<lparr>col_stream := stream, col_covered := covered\<rparr>)
                       | (None, stream, covered) \<Rightarrow>
                           (Inr pn, col\<lparr>col_stream := stream, col_covered := covered\<rparr>)))))"

function collectorLoop ::
  "quicInitialCollector \<Rightarrow> bytes \<Rightarrow> nat \<Rightarrow> nat \<Rightarrow> bool \<Rightarrow> (error + nat) \<times> quicInitialCollector" where
  "collectorLoop col data off lowestPN foundInitial =
    (if off < length data \<and> data ! off AND 0x80 \<noteq> 0 then
       (case quicLongPacketEnd (drop off data) of Inl e \<Rightarrow> (Inl e, col)
        | Inr (packetType, packetEnd) \<Rightarrow>
           (if packetType = 3 then (Inl ''QUIC Retry'', collectorReset col)
            else if packetType = 0 then
              (case collectorPacket col (take packetEnd (drop off data)) of
                 (Inl e, col) \<Rightarrow> (Inl e, col)
               | (Inr pn, col) \<Rightarrow>
                  collectorLoop col data (off + packetEnd) (if pn < lowestPN then pn else lowestPN) True)
            else collectorLoop col data (off + packetEnd) lowestPN foundInitial))
     else if \<not> foundInitial then (Inl ''QUIC Initial not found'', col)
     else (Inr lowestPN, col))"
  by pat_completeness auto
termination
  by (relation "measure (\<lambda>(_, d, off, _, _). length d - off)") (auto dest!: quicLongPacketEnd_bounds)

declare collectorLoop.simps [simp del]

definition collectorStream :: "quicInitialCollector \<Rightarrow> bytes" where
  "collectorStream col = contiguousCryptoStream (col_stream col) (col_covered col)"

text \<open>The server name (empty while the ClientHello is incomplete) and the lowest packet number.\<close>

definition collectorAdd :: "quicInitialCollector \<Rightarrow> bytes \<Rightarrow> (error + gostr \<times> nat) \<times> quicInitialCollector" where
  "collectorAdd col data =
    (case collectorLoop col data 0 18446744073709551615 False of
       (Inl e, col) \<Rightarrow> (Inl e, col)
     | (Inr lowestPN, col) \<Rightarrow>
        (let stream = collectorStream col in
         case sniHostNameRange stream of
           Some (start, len) \<Rightarrow>
             (if clientHelloComplete stream then (Inr (take len (drop start stream), lowestPN), col)
              else (Inr ([], lowestPN), col))
         | None \<Rightarrow> (Inr ([], lowestPN), col)))"

subsection \<open>The pending datagrams of a client\<close>

record quicInitialPending =
  pend_collector :: quicInitialCollector
  pend_packets :: "(nat \<times> bytes) list"
  pend_size :: nat
  pend_updated :: "int option"

definition quicPending0 :: quicInitialPending where
  "quicPending0 = \<lparr>pend_collector = quicCollector0, pend_packets = [], pend_size = 0, pend_updated = None\<rparr>"

definition pendingExpired :: "quicInitialPending \<Rightarrow> int \<Rightarrow> bool" where
  "pendingExpired p now =
    (case pend_updated p of None \<Rightarrow> False | Some updated \<Rightarrow> now - updated > quicPendingTimeout)"

definition pendingAdd :: "quicInitialPending \<Rightarrow> bytes \<Rightarrow> int \<Rightarrow> (error + gostr) \<times> quicInitialPending" where
  "pendingAdd p data now =
    (case collectorAdd (pend_collector p) data of
       (Inl e, col) \<Rightarrow> (Inl e, p\<lparr>pend_collector := col\<rparr>)
     | (Inr (sni, pn), col) \<Rightarrow>
        (Inr sni, p\<lparr>pend_collector := col, pend_packets := pend_packets p @ [(pn, data)],
                    pend_size := pend_size p + length data, pend_updated := Some now\<rparr>))"

definition pendingOverLimit :: "quicInitialPending \<Rightarrow> bool" where
  "pendingOverLimit p = (pend_size p > quicPendingBytes)"

text \<open>\<open>sort.SliceStable\<close> by packet number.\<close>

definition pendingDatagrams :: "quicInitialPending \<Rightarrow> bytes list" where
  "pendingDatagrams p = map snd (sort_key fst (pend_packets p))"

definition pendingStats :: "quicInitialPending \<Rightarrow> nat \<times> nat" where
  "pendingStats p = (length (pend_packets p), length (collectorStream (pend_collector p)))"

definition pendingClientHelloReady :: "quicInitialPending \<Rightarrow> bool" where
  "pendingClientHelloReady p = clientHelloComplete (collectorStream (pend_collector p))"

text \<open>\<open>None\<close> in the result is \<open>waiting\<close>.\<close>

definition pendingAccumulate ::
  "quicInitialPending \<Rightarrow> bytes \<Rightarrow> int \<Rightarrow> (error + bytes list option) \<times> quicInitialPending" where
  "pendingAccumulate p data now =
    (case pendingAdd p data now of
       (Inl e, p) \<Rightarrow> (Inl e, p)
     | (Inr _, p) \<Rightarrow>
        (if pendingOverLimit p then (Inl ''QUIC Initial pending data limit reached'', p)
         else if \<not> pendingClientHelloReady p then (Inr None, p)
         else (Inr (Some (pendingDatagrams p)), p)))"

subsection \<open>Classifying a datagram\<close>

definition GetQUICVersion :: "bytes \<Rightarrow> nat" where
  "GetQUICVersion data =
    (if length data < 5 then quicVersionNotLong
     else if data ! 0 = 0x0d then
       (if length data > 13 \<and> take 4 (drop 9 data) = str ''Q043'' then quicVersionGoogle
        else quicVersionNone)
     else if data ! 0 AND 0xC0 \<noteq> 0xC0 then quicVersionNotLong
     else
       (let version = be_nat (take 4 (drop 1 data)) in
        if version = quicVersion1 \<or> version = quicVersionDraft29 \<or> version = quicVersion2 then
          (if quicLongPacketType (data ! 0) version \<noteq> 0 then quicVersionNone else version)
        else if take 4 (drop 1 data) = str ''Q046'' \<or> take 4 (drop 1 data) = str ''Q050''
        then quicVersionGoogle
        else quicVersionNone))"

definition isQUICInitialDatagram :: "bytes \<Rightarrow> bool" where
  "isQUICInitialDatagram data =
    (let version = GetQUICVersion data in version \<noteq> quicVersionNone \<and> version \<noteq> quicVersionNotLong)"

definition getIETFQUICSNI :: "bytes \<Rightarrow> gostr" where
  "getIETFQUICSNI b =
    (if GetQUICVersion b = 0 then []
     else (case collectorAdd quicCollector0 b of (Inl _, _) \<Rightarrow> [] | (Inr (sni, _), _) \<Rightarrow> sni))"

text \<open>
  The tags of a gQUIC CHLO; integers are little-endian. The slice from the end of the
  previous tag to the end of the SNI tag panics when the ends decrease.
\<close>

fun gquicTags :: "bytes \<Rightarrow> nat \<Rightarrow> nat \<Rightarrow> nat \<Rightarrow> nat \<Rightarrow> nat \<Rightarrow> gostr option" where
  "gquicTags b baseOffset dataOffset i 0 sniOffset = Some []"
| "gquicTags b baseOffset dataOffset i (Suc k) sniOffset =
    (let offset = baseOffset + i * 8;
         tagName = take 4 (drop offset b);
         offsetEnd = be_nat (rev (take 2 (drop (offset + 4) b)))
     in if tagName = str ''SNI'' @ [0] then
          (if length (drop dataOffset b) < offsetEnd then Some []
           else slice (drop dataOffset b) sniOffset offsetEnd)
        else gquicTags b baseOffset dataOffset (i + 1) k offsetEnd)"

definition getGQUICCHLOSNI :: "bytes \<Rightarrow> nat \<Rightarrow> nat \<Rightarrow> gostr option" where
  "getGQUICCHLOSNI b baseOffset tagNumOffset =
    (let tagNum = be_nat (rev (take 2 (drop tagNumOffset b)));
         dataOffset = baseOffset + 8 * tagNum
     in if \<not> (length b > dataOffset) then Some []
        else gquicTags b baseOffset dataOffset 0 tagNum 0)"

definition getGQUIC043SNI :: "bytes \<Rightarrow> gostr option" where
  "getGQUIC043SNI b =
    (if \<not> (length b > 23 \<and> take 4 (drop 9 b) = str ''Q043'') then Some []
     else if \<not> (length b > 26 \<and> b ! 26 = 0xa0) then Some []
     else if \<not> (length b > 38 \<and> take 4 (drop 30 b) = str ''CHLO'') then Some []
     else getGQUICCHLOSNI b 38 34)"

definition getGQUIC046SNI :: "bytes \<Rightarrow> gostr option" where
  "getGQUIC046SNI b =
    (if \<not> (length b > 31 \<and> b ! 30 = 0xa0) then Some []
     else if \<not> (length b > 42 \<and> take 4 (drop 34 b) = str ''CHLO'') then Some []
     else getGQUICCHLOSNI b 42 38)"

definition GetQUICSNI :: "bytes \<Rightarrow> gostr option" where
  "GetQUICSNI b =
    (if length b = 0 then Some []
     else if b ! 0 = 0x0d then getGQUIC043SNI b
     else if b ! 0 AND 0xc0 = 0xc0 then
       (if length b > 5 \<and> (take 4 (drop 1 b) = str ''Q046'' \<or> take 4 (drop 1 b) = str ''Q050'')
        then getGQUIC046SNI b
        else Some (getIETFQUICSNI b))
     else Some [])"

end
