(* ===== verification/Quic_Rewriter.thy ===== *)
theory Quic_Rewriter
  imports Quic_Collector
begin

text \<open>
  The rewriter of a QUIC connection (\<open>phantomtcp/quic.go\<close>): it splits the client's
  first Initial packet in two, renumbers the later ones, and maps the server's ACKs
  back. The rewriter's lock makes each call one step; \<open>None\<close> is the nil rewriter.
\<close>

subsection \<open>Encryption to a size\<close>

definition padded :: "bytes \<Rightarrow> nat \<Rightarrow> bytes" where
  "padded plaintext padding = plaintext @ replicate padding 0"

text \<open>The loops try at most \<open>attempts\<close> times, like the code's three and eight.\<close>

fun paddedLoop ::
  "nat \<Rightarrow> nat \<Rightarrow> initialParse \<Rightarrow> nat \<Rightarrow> nat \<Rightarrow> bytes \<Rightarrow> bytes \<Rightarrow> bytes \<Rightarrow> bytes \<Rightarrow> nat \<Rightarrow> error + bytes" where
  "paddedLoop 0 padding pkt pn pnLen plaintext key iv hp other = Inl ''unable to pad Initial''"
| "paddedLoop (Suc attempts) padding pkt pn pnLen plaintext key iv hp other =
    (case encryptInitialWithPNLen (pkt_version pkt) (pkt_dcid pkt) (pkt_scid pkt) (pkt_token pkt) pn pnLen
            (padded plaintext padding) key iv hp of
       Inl e \<Rightarrow> Inl e
     | Inr encrypted \<Rightarrow>
        (let missing = int quicMinimumInitialDatagramSize - int other - int (length encrypted) in
         if missing \<le> 0 then Inr encrypted
         else paddedLoop attempts (padding + nat missing) pkt pn pnLen plaintext key iv hp other))"

definition encryptPaddedInitial ::
  "initialParse \<Rightarrow> nat \<Rightarrow> nat \<Rightarrow> bytes \<Rightarrow> bytes \<Rightarrow> bytes \<Rightarrow> bytes \<Rightarrow> nat \<Rightarrow> error + bytes" where
  "encryptPaddedInitial pkt pn pnLen plaintext key iv hp otherDatagramBytes =
    paddedLoop 3 0 pkt pn pnLen plaintext key iv hp otherDatagramBytes"

fun sizedLoop ::
  "nat \<Rightarrow> nat \<Rightarrow> initialParse \<Rightarrow> nat \<Rightarrow> nat \<Rightarrow> bytes \<Rightarrow> bytes \<Rightarrow> bytes \<Rightarrow> bytes \<Rightarrow> nat \<Rightarrow> error + bytes" where
  "sizedLoop 0 padding pkt pn pnLen plaintext key iv hp targetSize =
    Inl ''unable to preserve Initial packet size''"
| "sizedLoop (Suc attempts) padding pkt pn pnLen plaintext key iv hp targetSize =
    (case encryptInitialWithPNLen (pkt_version pkt) (pkt_dcid pkt) (pkt_scid pkt) (pkt_token pkt) pn pnLen
            (padded plaintext padding) key iv hp of
       Inl e \<Rightarrow> Inl e
     | Inr encrypted \<Rightarrow>
        (if length encrypted = targetSize then Inr encrypted
         else
           (let adjustment = int targetSize - int (length encrypted) in
            if int padding + adjustment < 0 then Inl ''rewritten Initial exceeds packet size''
            else sizedLoop attempts (nat (int padding + adjustment)) pkt pn pnLen plaintext key iv hp targetSize)))"

definition encryptInitialToPacketSize ::
  "initialParse \<Rightarrow> nat \<Rightarrow> nat \<Rightarrow> bytes \<Rightarrow> bytes \<Rightarrow> bytes \<Rightarrow> bytes \<Rightarrow> nat \<Rightarrow> error + bytes" where
  "encryptInitialToPacketSize pkt pn pnLen plaintext key iv hp targetSize =
    sizedLoop 8 0 pkt pn pnLen plaintext key iv hp targetSize"

subsection \<open>The client's packets\<close>

definition fragmentClientInitial ::
  "bytes \<Rightarrow> bytes \<Rightarrow> bytes \<Rightarrow> initialParse \<Rightarrow> bytes \<Rightarrow> nat \<Rightarrow> nat \<Rightarrow> bytes \<Rightarrow> bytes \<Rightarrow> bytes \<Rightarrow> error + bytes list"
where
  "fragmentClientInitial prefix packet suffix pkt plaintext pn pnLen key iv hp =
    (case splitInitialCryptoFrames plaintext of
       None \<Rightarrow> Inl ''CRYPTO frame cannot be split''
     | Some (firstPlain, secondPlain) \<Rightarrow>
        (case encryptPaddedInitial pkt pn pnLen firstPlain key iv hp (length prefix) of
           Inl e \<Rightarrow> Inl e
         | Inr firstPacket \<Rightarrow>
            (let pn1 = u64 (pn + 1);
                 secondPNLen = (if packetNumberLen pn1 > pnLen then packetNumberLen pn1 else pnLen)
             in case encryptPaddedInitial pkt pn1 secondPNLen secondPlain key iv hp (length suffix) of
                  Inl e \<Rightarrow> Inl e
                | Inr secondPacket \<Rightarrow> Inr [prefix @ firstPacket, secondPacket @ suffix])))"

record quicInitialRewriter =
  rw_initialized :: bool
  rw_version :: nat
  rw_clientDCID :: bytes
  rw_firstClientPN :: nat
  rw_clientExpected :: nat
  rw_serverExpected :: nat

definition quicRewriter0 :: quicInitialRewriter where
  "quicRewriter0 = \<lparr>rw_initialized = False, rw_version = 0, rw_clientDCID = [], rw_firstClientPN = 0,
    rw_clientExpected = 0, rw_serverExpected = 0\<rparr>"

definition rewriterReset :: "quicInitialRewriter \<Rightarrow> quicInitialRewriter" where
  "rewriterReset rw = rw\<lparr>rw_initialized := False, rw_version := 0, rw_clientDCID := [],
    rw_firstClientPN := 0, rw_clientExpected := 0, rw_serverExpected := 0\<rparr>"

text \<open>The body of \<open>rewriteClient\<close> once the datagram's Initial packet is decrypted.\<close>

definition rewriteClientPacket ::
  "quicInitialRewriter \<Rightarrow> bytes \<Rightarrow> bytes \<Rightarrow> bytes \<Rightarrow> bytes \<Rightarrow> initialParse \<Rightarrow> bytes \<Rightarrow> nat \<Rightarrow> nat
    \<Rightarrow> bytes \<Rightarrow> bytes \<Rightarrow> bytes \<Rightarrow> bytes list \<times> quicInitialRewriter" where
  "rewriteClientPacket rw data prefix packet suffix pkt plaintext pn pnLen key iv hp =
    (if \<not> rw_initialized rw then
       (case fragmentClientInitial prefix packet suffix pkt plaintext pn pnLen key iv hp of
          Inl _ \<Rightarrow> ([data], rw)
        | Inr datagrams \<Rightarrow>
           (datagrams, rw\<lparr>rw_initialized := True, rw_version := pkt_version pkt, rw_clientDCID := pkt_dcid pkt,
              rw_firstClientPN := pn, rw_clientExpected := u64 (pn + 1), rw_serverExpected := 0\<rparr>))
     else if pkt_version pkt \<noteq> rw_version rw \<or> pkt_dcid pkt \<noteq> rw_clientDCID rw then ([data], rw)
     else if pn = rw_firstClientPN rw then
       (case fragmentClientInitial prefix packet suffix pkt plaintext pn pnLen key iv hp of
          Inr datagrams \<Rightarrow> (datagrams, rw)
        | Inl _ \<Rightarrow> ([data], rw))
     else if pn \<le> rw_firstClientPN rw then ([data], rw)
     else
       (let rewrittenPN = u64 (pn + 1);
            pnLen = (if packetNumberLen rewrittenPN > pnLen then packetNumberLen rewrittenPN else pnLen)
        in case encryptPaddedInitial pkt rewrittenPN pnLen plaintext key iv hp (length prefix + length suffix) of
             Inl _ \<Rightarrow> ([data], rw)
           | Inr rewrittenPacket \<Rightarrow>
              ([prefix @ rewrittenPacket @ suffix],
               (if pn \<ge> rw_clientExpected rw then rw\<lparr>rw_clientExpected := u64 (pn + 1)\<rparr> else rw))))"

definition rewriteClientLocked :: "quicInitialRewriter \<Rightarrow> bytes \<Rightarrow> bytes list \<times> quicInitialRewriter" where
  "rewriteClientLocked rw data =
    (case locateQUICInitial data of
       Inl _ \<Rightarrow> ([data], rw)
     | Inr located \<Rightarrow>
        (let (prefix, packet, suffix) = (case located of None \<Rightarrow> ([], [], []) | Some x \<Rightarrow> x) in
         case parseInitialPacket packet of Inl _ \<Rightarrow> ([data], rw)
         | Inr pkt \<Rightarrow>
            (case initialSecrets (pkt_version pkt) (pkt_dcid pkt) False of None \<Rightarrow> ([data], rw)
             | Some (key, iv, hp) \<Rightarrow>
                (let expected = (if rw_initialized rw then rw_clientExpected rw else 0) in
                 case decryptInitialWithExpected packet key iv hp expected of Inl _ \<Rightarrow> ([data], rw)
                 | Inr (plaintext, pn, pnLen) \<Rightarrow>
                    rewriteClientPacket rw data prefix packet suffix pkt plaintext pn pnLen key iv hp))))"

definition rewriteClient ::
  "quicInitialRewriter option \<Rightarrow> bytes \<Rightarrow> bytes list \<times> quicInitialRewriter option" where
  "rewriteClient rewriter data =
    (case rewriter of None \<Rightarrow> ([data], None)
     | Some rw \<Rightarrow> (case rewriteClientLocked rw data of (datagrams, rw) \<Rightarrow> (datagrams, Some rw)))"

subsection \<open>The server's packets\<close>

definition rewriteServerLocked :: "quicInitialRewriter \<Rightarrow> bytes \<Rightarrow> bytes \<times> quicInitialRewriter" where
  "rewriteServerLocked rw data =
    (case locateQUICInitial data of
       Inl _ \<Rightarrow> (data, rw)
     | Inr None \<Rightarrow> (data, rewriterReset rw)
     | Inr (Some (prefix, packet, suffix)) \<Rightarrow>
        (if \<not> rw_initialized rw then (data, rw)
         else
           (case parseInitialPacket packet of Inl _ \<Rightarrow> (data, rw)
            | Inr pkt \<Rightarrow>
               (if pkt_version pkt \<noteq> rw_version rw then (data, rw)
                else
                  (case initialSecrets (pkt_version pkt) (rw_clientDCID rw) True of None \<Rightarrow> (data, rw)
                   | Some (key, iv, hp) \<Rightarrow>
                      (case decryptInitialWithExpected packet key iv hp (rw_serverExpected rw) of Inl _ \<Rightarrow> (data, rw)
                       | Inr (plaintext, pn, pnLen) \<Rightarrow>
                          (case rewriteAckFrames plaintext (rw_firstClientPN rw) of Inl _ \<Rightarrow> (data, rw)
                           | Inr rewrittenPlaintext \<Rightarrow>
                              (let rw = (if pn \<ge> rw_serverExpected rw then rw\<lparr>rw_serverExpected := u64 (pn + 1)\<rparr> else rw) in
                               if plaintext = rewrittenPlaintext then (data, rw)
                               else
                                 (let targetPacketSize = pkt_packetLen pkt
                                        + (if length data < quicMinimumInitialDatagramSize
                                           then quicMinimumInitialDatagramSize - length data else 0)
                                  in case encryptInitialToPacketSize pkt pn pnLen rewrittenPlaintext key iv hp targetPacketSize of
                                       Inl _ \<Rightarrow> (data, rw)
                                     | Inr rewrittenPacket \<Rightarrow> (prefix @ rewrittenPacket @ suffix, rw))))))))))"

definition rewriteServer ::
  "quicInitialRewriter option \<Rightarrow> bytes \<Rightarrow> bytes \<times> quicInitialRewriter option" where
  "rewriteServer rewriter data =
    (case rewriter of None \<Rightarrow> (data, None)
     | Some rw \<Rightarrow> (case rewriteServerLocked rw data of (datagram, rw) \<Rightarrow> (datagram, Some rw)))"

subsection \<open>Writing a datagram upstream\<close>

text \<open>
  What \<open>writeQUICDatagram\<close> writes, in order, up to the first write the connection
  refuses: \<open>accepts\<close> says for each datagram whether \<open>conn.Write\<close> succeeds. The flag is
  whether the outbound has HINT_REVERSE.
\<close>

fun writeAll :: "(bytes \<Rightarrow> bool) \<Rightarrow> bytes list \<Rightarrow> bytes list \<times> bool" where
  "writeAll accepts [] = ([], True)"
| "writeAll accepts (d # ds) =
    (if accepts d then (case writeAll accepts ds of (ws, ok) \<Rightarrow> (d # ws, ok)) else ([], False))"

definition writeQUICDatagram ::
  "(bytes \<Rightarrow> bool) \<Rightarrow> bytes \<Rightarrow> bool \<Rightarrow> quicInitialRewriter option
    \<Rightarrow> (bytes list \<times> bool) \<times> quicInitialRewriter option" where
  "writeQUICDatagram accepts data hintReverse rewriter =
    (case rewriteClient rewriter data of
       (datagrams, rewriter) \<Rightarrow>
         (if hintReverse then writeAll accepts (rev datagrams) else writeAll accepts datagrams, rewriter))"

definition FragmentQUICInitial :: "bytes \<Rightarrow> bytes list" where
  "FragmentQUICInitial data = fst (rewriteClient (Some quicRewriter0) data)"

definition WriteQUICInitial :: "(bytes \<Rightarrow> bool) \<Rightarrow> bytes \<Rightarrow> bool \<Rightarrow> bytes list \<times> bool" where
  "WriteQUICInitial accepts data hintReverse =
    fst (writeQUICDatagram accepts data hintReverse (Some quicRewriter0))"

end
