(* ===== verification/Quic_Rewriter_Steps.thy ===== *)
theory Quic_Rewriter_Steps
  imports Quic_Rewriter
begin

text \<open>
  What the rewriter promises: padding always reaches the minimum datagram size, the
  packets it sends decrypt to the frames it means to send under the number it chose, and
  each of its steps on a client or a server datagram.
\<close>

subsection \<open>Sizes\<close>

text \<open>The size of an encrypted packet, and how padding moves it.\<close>

definition initialSize :: "initialParse \<Rightarrow> nat \<Rightarrow> nat \<Rightarrow> nat" where
  "initialSize pkt pnLen n =
    length (initialHeader (pkt_version pkt) (pkt_dcid pkt) (pkt_scid pkt) (pkt_token pkt) pnLen n) + pnLen + n + 16"

lemma initialSize_add: "initialSize pkt pnLen n + m \<le> initialSize pkt pnLen (n + m)"
  using length_writeVarint_mono [of "pnLen + n + 16" "pnLen + (n + m) + 16"]
  by (simp add: initialSize_def initialHeader_def)

lemma length_padded [simp, go_len]: "length (padded p n) = length p + n"
  by (simp add: padded_def)

lemma encryptInitial_size:
  assumes "1 \<le> n" "n \<le> 4" "length key = 16" "length hp = 16" "4 \<le> n + length plaintext"
  obtains p where "encryptInitialWithPNLen (pkt_version pkt) (pkt_dcid pkt) (pkt_scid pkt) (pkt_token pkt) pn n
      plaintext key iv hp = Inr p"
    "length p = initialSize pkt n (length plaintext)"
  using encryptInitialWithPNLen_ok [OF assms, of "pkt_version pkt" "pkt_dcid pkt" "pkt_scid pkt" "pkt_token pkt" pn iv]
  unfolding initialSize_def by blast

lemma encryptInitialWithPNLen_length:
  assumes "encryptInitialWithPNLen version dcid scid token pn n plaintext key iv hp = Inr p"
    and "1 \<le> n" "n \<le> 4" "length key = 16"
  shows "length p = length (initialHeader version dcid scid token n (length plaintext)) + n + length plaintext + 16"
  using assms
  by (auto simp: encryptInitialWithPNLen_def Let_def aes_NewCipher_16 applyHeaderProtection_def
      encodePacketNumber_def aes_gcm.length_seal split: if_splits sum.splits)

text \<open>Padding to the minimum size takes at most two attempts, and leaves nothing missing.\<close>

lemma encryptPaddedInitial_ok:
  assumes a: "1 \<le> n" "n \<le> 4" "length key = 16" "length hp = 16" "4 \<le> n + length plaintext"
  shows "\<exists>p k. encryptPaddedInitial pkt pn n plaintext key iv hp other = Inr p
    \<and> encryptInitialWithPNLen (pkt_version pkt) (pkt_dcid pkt) (pkt_scid pkt) (pkt_token pkt) pn n
        (padded plaintext k) key iv hp = Inr p
    \<and> quicMinimumInitialDatagramSize \<le> length p + other \<and> k \<le> quicMinimumInitialDatagramSize"
proof -
  let ?E = "\<lambda>k. encryptInitialWithPNLen (pkt_version pkt) (pkt_dcid pkt) (pkt_scid pkt) (pkt_token pkt) pn n
        (padded plaintext k) key iv hp"
  have E: "\<exists>p. ?E k = Inr p \<and> length p = initialSize pkt n (length plaintext + k)" for k
    using encryptInitial_size [OF a(1-4), of "padded plaintext k"] a(5) by (metis length_padded add.assoc trans_le_add1)
  from E [of 0] obtain p where p: "?E 0 = Inr p" "length p = initialSize pkt n (length plaintext)"
    by auto
  let ?m = "int quicMinimumInitialDatagramSize - int other - int (length p)"
  show ?thesis
  proof (cases "?m \<le> 0")
    case True
    with p show ?thesis
      by (auto simp: encryptPaddedInitial_def numeral_eq_Suc Let_def)
  next
    case False
    from E [of "nat ?m"] obtain q where q: "?E (nat ?m) = Inr q"
      "length q = initialSize pkt n (length plaintext + nat ?m)" by blast
    have "length p + nat ?m \<le> length q"
      using p(2) q(2) initialSize_add by simp
    with False have none: "int quicMinimumInitialDatagramSize - int other - int (length q) \<le> 0"
      by simp
    with p(1) q(1) False have "encryptPaddedInitial pkt pn n plaintext key iv hp other = Inr q"
      by (simp add: encryptPaddedInitial_def numeral_eq_Suc Let_def)
    moreover have "nat ?m \<le> quicMinimumInitialDatagramSize"
      by simp
    ultimately show ?thesis
      using q(1) none by auto
  qed
qed

text \<open>Whenever it answers, the answer is a packet of the plaintext with padding, of the size asked for.\<close>

lemma sizedLoop_sound:
  "sizedLoop attempts padding pkt pn n plaintext key iv hp target = Inr p \<Longrightarrow>
    \<exists>k. encryptInitialWithPNLen (pkt_version pkt) (pkt_dcid pkt) (pkt_scid pkt) (pkt_token pkt) pn n
        (padded plaintext k) key iv hp = Inr p \<and> length p = target"
  by (induction attempts arbitrary: padding) (auto simp: Let_def split: sum.splits if_splits)

lemma encryptInitialToPacketSize_sound:
  "encryptInitialToPacketSize pkt pn n plaintext key iv hp target = Inr p \<Longrightarrow>
    \<exists>k. encryptInitialWithPNLen (pkt_version pkt) (pkt_dcid pkt) (pkt_scid pkt) (pkt_token pkt) pn n
        (padded plaintext k) key iv hp = Inr p \<and> length p = target"
  unfolding encryptInitialToPacketSize_def by (rule sizedLoop_sound)

text \<open>
  It answers when the target is in reach without crossing a length class of the payload
  varint: one correction is then exact.
\<close>

lemma encryptInitialToPacketSize_complete:
  assumes a: "1 \<le> n" "n \<le> 4" "length key = 16" "length hp = 16" "4 \<le> n + length plaintext"
    and t: "initialSize pkt n (length plaintext) + k = target"
    and same: "initialSize pkt n (length plaintext + k) = target"
  shows "\<exists>p. encryptInitialToPacketSize pkt pn n plaintext key iv hp target = Inr p"
proof -
  let ?E = "\<lambda>k. encryptInitialWithPNLen (pkt_version pkt) (pkt_dcid pkt) (pkt_scid pkt) (pkt_token pkt) pn n
        (padded plaintext k) key iv hp"
  have E: "\<exists>p. ?E k = Inr p \<and> length p = initialSize pkt n (length plaintext + k)" for k
    using encryptInitial_size [OF a(1-4), of "padded plaintext k"] a(5) by (metis length_padded add.assoc trans_le_add1)
  from E [of 0] obtain p where p: "?E 0 = Inr p" "length p = initialSize pkt n (length plaintext)"
    by auto
  from E [of k] obtain q where q: "?E k = Inr q" "length q = target"
    using same by auto
  have adj: "int target - int (length p) = int k"
    using p(2) t by simp
  show ?thesis
  proof (cases "length p = target")
    case True
    with p show ?thesis
      by (auto simp: encryptInitialToPacketSize_def numeral_eq_Suc)
  next
    case False
    with p(1) q adj show ?thesis
      by (simp add: encryptInitialToPacketSize_def numeral_eq_Suc Let_def)
  qed
qed

lemma packetNumberLen_bounds: "1 \<le> packetNumberLen pn \<and> packetNumberLen pn \<le> 4"
  by (simp add: packetNumberLen_def)

text \<open>A packet number fits its own encoding.\<close>

lemma packetNumberLen_fits: "pn < 2 ^ 32 \<Longrightarrow> pn < 2 ^ (8 * packetNumberLen pn)"
  by (simp add: packetNumberLen_def)


subsection \<open>What the packets the rewriter sends carry\<close>

text \<open>
  \<open>carries\<close>: whatever follows the packet in the datagram, a receiver that expects a number
  within the window of the encoding decrypts the packet to the plaintext, with some
  padding, under that number.
\<close>

definition inWindow :: "nat \<Rightarrow> nat \<Rightarrow> nat \<Rightarrow> bool" where
  "inWindow pn n expected \<longleftrightarrow> expected < pn + 2 ^ (8 * n) div 2 \<and> pn \<le> expected + 2 ^ (8 * n) div 2
    \<and> expected \<le> 2 ^ 62"

definition carries :: "bytes \<Rightarrow> bytes \<times> bytes \<times> bytes \<Rightarrow> nat \<Rightarrow> bytes \<Rightarrow> bool" where
  "carries packet keys pn plaintext \<longleftrightarrow>
    (\<exists>k n. 1 \<le> n \<and> n \<le> 4 \<and> (case keys of (key, iv, hp) \<Rightarrow>
      \<forall>expected suffix. pn < 2 ^ 62 \<and> inWindow pn n expected \<longrightarrow>
        decryptInitialWithExpected (packet @ suffix) key iv hp expected = Inr (padded plaintext k, pn, n)))"

text \<open>The parsed header fits the encoder's preconditions.\<close>

definition headerFits :: "initialParse \<Rightarrow> bool" where
  "headerFits pkt \<longleftrightarrow> pkt_version pkt < 2 ^ 32 \<and> length (pkt_dcid pkt) < 256 \<and> length (pkt_scid pkt) < 256
    \<and> length (pkt_token pkt) < 2 ^ 62"

lemma headerFits_parse: "parseInitialPacket data = Inr pkt \<Longrightarrow> length data \<le> 2 ^ 61 \<Longrightarrow> headerFits pkt"
  using parseInitialPacket_fields [of data pkt] by (auto simp: headerFits_def)

lemma encrypted_carries:
  assumes "headerFits pkt" "1 \<le> n" "n \<le> 4" "length key = 16" "length plaintext + k < 2 ^ 61"
    and "encryptInitialWithPNLen (pkt_version pkt) (pkt_dcid pkt) (pkt_scid pkt) (pkt_token pkt) pn n
        (padded plaintext k) key iv hp = Inr p"
  shows "carries p (key, iv, hp) pn plaintext"
  unfolding carries_def inWindow_def prod.case
  by (intro exI [of _ k] exI [of _ n] conjI allI impI assms(2,3), elim conjE,
      rule decrypt_encrypt [OF _ _ _ _ _ assms(2,3,4) _ _ _ _ assms(6)])
    (use assms(1,5) in \<open>simp_all add: headerFits_def\<close>)

lemma encryptPaddedInitial_carries:
  assumes "headerFits pkt" "1 \<le> n" "n \<le> 4" "length key = 16" "length hp = 16" "4 \<le> n + length plaintext"
    and "length plaintext < 2 ^ 60"
  shows "\<exists>p. encryptPaddedInitial pkt pn n plaintext key iv hp other = Inr p \<and> carries p (key, iv, hp) pn plaintext
    \<and> quicMinimumInitialDatagramSize \<le> length p + other"
proof -
  from encryptPaddedInitial_ok [OF assms(2-6), of pkt pn iv other] obtain p k where
    p: "encryptPaddedInitial pkt pn n plaintext key iv hp other = Inr p"
    and e: "encryptInitialWithPNLen (pkt_version pkt) (pkt_dcid pkt) (pkt_scid pkt) (pkt_token pkt) pn n
        (padded plaintext k) key iv hp = Inr p"
    and b: "quicMinimumInitialDatagramSize \<le> length p + other" "k \<le> quicMinimumInitialDatagramSize" by blast
  have "length plaintext + k < 2 ^ 61"
    using b(2) assms(7) by (simp add: quicMinimumInitialDatagramSize_def)
  from encrypted_carries [OF assms(1-4) this e] p b(1) show ?thesis
    by blast
qed

lemma splitLoop_frames: "splitLoop d off first segs n = Some r \<Longrightarrow> \<exists>fs. frameList d off = Inr fs"
proof (induction d off arbitrary: first segs n rule: frameList.induct)
  case (1 d off)
  show ?case
  proof (cases "off < length d")
    case False
    then show ?thesis by (simp add: frameList.simps)
  next
    case True
    with "1.prems" obtain e where e: "frameEnd d off = Inr e"
      by (cases "frameEnd d off") (simp_all add: splitLoop.simps [of d off])
    with True "1.prems" have "\<exists>first segs n. splitLoop d e first segs n = Some r"
      by (auto simp: splitLoop.simps [of d off] Let_def split: if_splits sum.splits) blast+
    with "1.IH" [OF True e] obtain fs where "frameList d e = Inr fs" by blast
    with True e show ?thesis
      by (simp add: frameList.simps [of d off])
  qed
qed

lemma splitInitialCryptoFrames_frames:
  "splitInitialCryptoFrames d = Some r \<Longrightarrow> \<exists>fs. frameList d 0 = Inr fs"
  by (auto simp: splitInitialCryptoFrames_def split: option.splits dest: splitLoop_frames)

lemma length_concat_filter: "length (concat (filter P xss)) \<le> length (concat xss)"
  by (induction xss) auto

lemma splitInitialCryptoFrames_lengths:
  assumes sp: "splitInitialCryptoFrames d = Some (first, second)" and size: "length d \<le> quicUDPPacketSize"
  shows "3 \<le> length first \<and> 3 \<le> length second \<and> length first < 2 ^ 60 \<and> length second < 2 ^ 60"
proof -
  from splitInitialCryptoFrames_frames [OF sp] obtain fs where fs: "frameList d 0 = Inr fs" by blast
  have "length (concat fs) = length d"
    using frameList_stand [OF fs] by simp
  then have f: "length (concat (filter (\<lambda>f. hd f \<noteq> 0x00 \<and> hd f \<noteq> 0x06) fs)) \<le> quicUDPPacketSize"
    using length_concat_filter [of "\<lambda>f. hd f \<noteq> 0x00 \<and> hd f \<noteq> 0x06" fs] size by simp
  have b: "3 \<le> length (buildCryptoFrame o' x) \<and> length (buildCryptoFrame o' x) \<le> 17 + length x" for o' x
    using length_writeVarint_bounds(1,2) [of o'] length_writeVarint_bounds(1,2) [of "length x"]
    unfolding buildCryptoFrame_def length_append length_Cons list.size(3) by linarith
  from splitInitialCryptoFrames_stream [OF sp size fs] obtain stream k i n where
    "mergeInitialCryptoFrames d [] [] = (None, stream, replicate (length stream) True)"
    and st: "length stream \<le> quicUDPPacketSize" and "k \<le> length stream"
    and st':     "first = concat (filter (\<lambda>f. hd f \<noteq> 0x00 \<and> hd f \<noteq> 0x06) fs) @ buildCryptoFrame 0 (take k stream)"
    "second = buildCryptoFrame k (drop k stream)"
    and "sniHostNameRange stream = Some (i, n)" "i < k" "k < i + n" .
  have "length (take k stream) \<le> 65535" "length (drop k stream) \<le> 65535" "quicUDPPacketSize = 65535"
    using st by (simp_all add: quicUDPPacketSize_def)
  moreover have "(2 :: nat) ^ 60 = 1152921504606846976"
    by simp
  ultimately show ?thesis
    using f b [of 0 "take k stream"] b [of k "drop k stream"] unfolding st' length_append by linarith
qed

lemma fragmentClientInitial_spec:
  assumes fit: "headerFits pkt" and n: "1 \<le> n" "n \<le> 4" and keys: "length key = 16" "length hp = 16"
    and size: "length plaintext \<le> quicUDPPacketSize" and pn: "pn + 1 < 2 ^ 62"
  shows "case splitInitialCryptoFrames plaintext of
      None \<Rightarrow> (\<exists>e. fragmentClientInitial prefix packet suffix pkt plaintext pn n key iv hp = Inl e)
    | Some (first, second) \<Rightarrow>
        (\<exists>p q. fragmentClientInitial prefix packet suffix pkt plaintext pn n key iv hp = Inr [prefix @ p, q @ suffix]
          \<and> carries p (key, iv, hp) pn first \<and> carries q (key, iv, hp) (pn + 1) second
          \<and> quicMinimumInitialDatagramSize \<le> length (prefix @ p) \<and> quicMinimumInitialDatagramSize \<le> length (q @ suffix))"
proof (cases "splitInitialCryptoFrames plaintext")
  case None
  then show ?thesis by (simp add: fragmentClientInitial_def)
next
  case (Some r)
  obtain first second where r: "r = (first, second)" by (cases r)
  let ?n2 = "if packetNumberLen (pn + 1) > n then packetNumberLen (pn + 1) else n"
  have n2: "1 \<le> ?n2" "?n2 \<le> 4"
    using n packetNumberLen_bounds [of "pn + 1"] by auto
  have l: "3 \<le> length first" "3 \<le> length second" "length first < 2 ^ 60" "length second < 2 ^ 60"
    using splitInitialCryptoFrames_lengths [OF Some [unfolded r] size] by auto
  have l': "4 \<le> n + length first" "4 \<le> ?n2 + length second"
    using l n n2 by linarith+
  have u: "u64 (pn + 1) = pn + 1"
    using pn by simp
  from encryptPaddedInitial_carries [OF fit n keys l'(1) l(3), of pn iv "length prefix"]
    encryptPaddedInitial_carries [OF fit n2 keys l'(2) l(4), of "pn + 1" iv "length suffix"]
  show ?thesis
    unfolding Some r fragmentClientInitial_def u Let_def by (auto simp: add.commute)
qed


subsection \<open>The rewriter's steps\<close>

text \<open>The located packet and what surrounds it make up the datagram.\<close>

lemma locateLoop_parts:
  "locateLoop data off = Inr (Some (p, pk, s)) \<Longrightarrow>
    p @ pk @ s = data \<and> quicLongPacketEnd (pk @ s) = Inr (0, length pk)"
proof (induction data off rule: locateLoop.induct)
  case (1 data off)
  from "1.prems" obtain t e where off: "off < length data" "data ! off AND 0x80 \<noteq> 0"
    and e: "quicLongPacketEnd (drop off data) = Inr (t, e)" and t3: "t \<noteq> 3"
    by (auto simp: locateLoop.simps [of data off] Let_def split: if_splits sum.splits)
  show ?case
  proof (cases "t = 0")
    case False
    with off e t3 "1.prems" have "locateLoop data (e + off) = Inr (Some (p, pk, s))"
      by (simp add: locateLoop.simps [of data off] Let_def)
    with "1.IH" [OF off(1) off(2) e refl refl t3 False] show ?thesis by simp
  next
    case True
    with off e "1.prems" have "p = take off data" "pk = take e (drop off data)" "s = drop (e + off) data"
      by (auto simp: locateLoop.simps [of data off] Let_def)
    moreover from this have "pk @ s = drop off data"
      by (metis append_take_drop_id drop_drop)
    ultimately show ?thesis
      using e True quicLongPacketEnd_bounds [OF e] by auto
  qed
qed

lemma locateQUICInitial_parts:
  "locateQUICInitial data = Inr (Some (p, pk, s)) \<Longrightarrow>
    p @ pk @ s = data \<and> quicLongPacketEnd (pk @ s) = Inr (0, length pk)"
  unfolding locateQUICInitial_def by (rule locateLoop_parts)

text \<open>What the rewriter sends for the packet it decrypted.\<close>

definition rewrittenFor ::
  "quicInitialRewriter \<Rightarrow> bytes \<times> bytes \<times> bytes \<Rightarrow> bytes \<Rightarrow> bytes \<Rightarrow> bytes \<Rightarrow> nat \<Rightarrow> bytes list \<Rightarrow> bool" where
  "rewrittenFor rw keys prefix suffix plaintext pn ds \<longleftrightarrow>
    (pn = rw_firstClientPN rw \<and>
      (\<exists>first second p q. splitInitialCryptoFrames plaintext = Some (first, second)
        \<and> ds = [prefix @ p, q @ suffix] \<and> carries p keys pn first \<and> carries q keys (pn + 1) second))
    \<or> (rw_firstClientPN rw < pn \<and> (\<exists>p. ds = [prefix @ p @ suffix] \<and> carries p keys (pn + 1) plaintext))"

lemma rewriteClientPacket_spec:
  assumes r: "rewriteClientPacket rw data prefix packet suffix pkt plaintext pn n key iv hp = (ds, rw')"
    and fit: "headerFits pkt" and n: "1 \<le> n" "n \<le> 4" and keys: "length key = 16" "length hp = 16"
    and long: "4 \<le> n + length plaintext" and size: "length plaintext \<le> quicUDPPacketSize" and pn: "pn + 1 < 2 ^ 62"
  shows "ds = [data] \<and> rw' = rw
    \<or> rw_initialized rw' \<and> rw_version rw' = pkt_version pkt \<and> rw_clientDCID rw' = pkt_dcid pkt
      \<and> (rw_initialized rw \<longrightarrow> rw_firstClientPN rw' = rw_firstClientPN rw \<and> rw_serverExpected rw' = rw_serverExpected rw)
      \<and> rewrittenFor rw' (key, iv, hp) prefix suffix plaintext pn ds
      \<and> (\<forall>d \<in> set ds. quicMinimumInitialDatagramSize \<le> length d)"
proof -
  have small: "length plaintext < 2 ^ 60"
    using size by (simp add: quicUDPPacketSize_def)
  have u: "u64 (pn + 1) = pn + 1"
    using pn by simp
  note frag = fragmentClientInitial_spec [OF fit n keys size pn, of prefix packet suffix iv]
  consider "\<not> rw_initialized rw \<or> pn = rw_firstClientPN rw" | "rw_initialized rw" "pn \<noteq> rw_firstClientPN rw"
    by blast
  then show ?thesis
  proof cases
    case 1
    show ?thesis
    proof (cases "splitInitialCryptoFrames plaintext")
      case None
      with frag 1 r show ?thesis
        by (auto simp: rewriteClientPacket_def split: if_splits)
    next
      case (Some fs)
      obtain first second where fs: "fs = (first, second)" by (cases fs)
      from frag obtain p q where f: "fragmentClientInitial prefix packet suffix pkt plaintext pn n key iv hp
          = Inr [prefix @ p, q @ suffix]"
        and c: "carries p (key, iv, hp) pn first" "carries q (key, iv, hp) (pn + 1) second"
        and m: "quicMinimumInitialDatagramSize \<le> length (prefix @ p)" "quicMinimumInitialDatagramSize \<le> length (q @ suffix)"
        unfolding Some fs by auto
      have "rewrittenFor rw' (key, iv, hp) prefix suffix plaintext pn [prefix @ p, q @ suffix]"
        if "rw_firstClientPN rw' = pn" for rw' :: quicInitialRewriter
        using that Some c unfolding rewrittenFor_def fs by blast
      with r f 1 m show ?thesis
        by (auto simp: rewriteClientPacket_def u split: if_splits)
    qed
  next
    case 2
    let ?n = "if packetNumberLen (pn + 1) > n then packetNumberLen (pn + 1) else n"
    have n2: "1 \<le> ?n" "?n \<le> 4" "4 \<le> ?n + length plaintext"
      using n packetNumberLen_bounds [of "pn + 1"] long by auto
    from encryptPaddedInitial_carries [OF fit n2(1,2) keys n2(3) small, of "pn + 1" iv "length prefix + length suffix"]
    obtain p where p: "encryptPaddedInitial pkt (pn + 1) ?n plaintext key iv hp (length prefix + length suffix) = Inr p"
      "carries p (key, iv, hp) (pn + 1) plaintext"
      "quicMinimumInitialDatagramSize \<le> length p + (length prefix + length suffix)" by blast
    have sent: "rewrittenFor rw' (key, iv, hp) prefix suffix plaintext pn [prefix @ p @ suffix]"
      if "rw_firstClientPN rw' < pn" for rw' :: quicInitialRewriter
      using that p(2) unfolding rewrittenFor_def by blast
    have "rewriteClientPacket rw data prefix packet suffix pkt plaintext pn n key iv hp =
      (if pkt_version pkt \<noteq> rw_version rw \<or> pkt_dcid pkt \<noteq> rw_clientDCID rw \<or> pn \<le> rw_firstClientPN rw
       then ([data], rw)
       else ([prefix @ p @ suffix], if pn \<ge> rw_clientExpected rw then rw\<lparr>rw_clientExpected := pn + 1\<rparr> else rw))"
      using 2 p(1) unfolding rewriteClientPacket_def u Let_def by simp
    with r 2(1) p(3) sent show ?thesis
      by (auto simp add: not_le ac_simps split: if_splits)
  qed
qed


lemma initialSecrets_keys:
  "initialSecrets v d b = Some (key, iv, hp) \<Longrightarrow> length key = 16 \<and> length hp = 16"
  using initialSecrets_lengths [of v d b key iv hp] by simp

text \<open>A client datagram.\<close>

lemma rewriteClientLocked_spec:
  assumes r: "rewriteClientLocked rw data = (ds, rw')" and size: "length data \<le> quicUDPPacketSize"
    and new: "ds \<noteq> [data] \<or> rw' \<noteq> rw"
  shows "\<exists>prefix packet suffix pkt key iv hp plaintext pn n.
      prefix @ packet @ suffix = data \<and> parseInitialPacket packet = Inr pkt
    \<and> initialSecrets (pkt_version pkt) (pkt_dcid pkt) False = Some (key, iv, hp)
    \<and> decryptInitialWithExpected packet key iv hp (if rw_initialized rw then rw_clientExpected rw else 0)
        = Inr (plaintext, pn, n)
    \<and> (pn + 1 < 2 ^ 62 \<longrightarrow>
        rw_initialized rw' \<and> rw_version rw' = pkt_version pkt \<and> rw_clientDCID rw' = pkt_dcid pkt
      \<and> (rw_initialized rw \<longrightarrow> rw_firstClientPN rw' = rw_firstClientPN rw \<and> rw_serverExpected rw' = rw_serverExpected rw)
      \<and> rewrittenFor rw' (key, iv, hp) prefix suffix plaintext pn ds
      \<and> (\<forall>d \<in> set ds. quicMinimumInitialDatagramSize \<le> length d))"
proof -
  have nil: "parseInitialPacket [] = Inl ''not long header''"
    by (simp add: parseInitialPacket_def)
  from r new obtain prefix packet suffix pkt key iv hp plaintext pn n where
    l: "locateQUICInitial data = Inr (Some (prefix, packet, suffix))" and p: "parseInitialPacket packet = Inr pkt"
    and k: "initialSecrets (pkt_version pkt) (pkt_dcid pkt) False = Some (key, iv, hp)"
    and d: "decryptInitialWithExpected packet key iv hp (if rw_initialized rw then rw_clientExpected rw else 0)
        = Inr (plaintext, pn, n)"
    and w: "rewriteClientPacket rw data prefix packet suffix pkt plaintext pn n key iv hp = (ds, rw')"
    by (auto simp: rewriteClientLocked_def nil split: sum.splits option.splits prod.splits)
  have parts: "prefix @ packet @ suffix = data"
    using locateQUICInitial_parts [OF l] by simp
  then have lp: "length packet \<le> quicUDPPacketSize"
    using size by auto
  have keys: "length key = 16" "length hp = 16"
    using initialSecrets_keys [OF k] by auto
  from decryptInitial_fields [OF d keys(1)] p have n: "1 \<le> n" "n \<le> 4"
    and f: "length plaintext + n + 16 = pkt_payloadLen pkt" "20 \<le> pkt_payloadLen pkt" by auto
  have "pkt_payloadLen pkt \<le> length packet"
    using parseInitialPacket_fields [OF p] by auto
  with f n lp have long: "4 \<le> n + length plaintext" "length plaintext \<le> quicUDPPacketSize"
    by auto
  have fit: "headerFits pkt"
    using lp by (intro headerFits_parse [OF p]) (simp add: quicUDPPacketSize_def)
  from rewriteClientPacket_spec [OF w fit n keys long] new parts p k d show ?thesis
    by blast
qed

text \<open>A server datagram: what is sent on when it is not the datagram itself.\<close>

lemma rewriteServerLocked_spec:
  assumes r: "rewriteServerLocked rw data = (d, rw')" and size: "length data \<le> quicUDPPacketSize"
    and new: "d \<noteq> data"
  shows "\<exists>prefix packet suffix pkt key iv hp plaintext pn n out p.
      prefix @ packet @ suffix = data \<and> parseInitialPacket packet = Inr pkt
    \<and> initialSecrets (pkt_version pkt) (rw_clientDCID rw) True = Some (key, iv, hp)
    \<and> decryptInitialWithExpected packet key iv hp (rw_serverExpected rw) = Inr (plaintext, pn, n)
    \<and> rewriteAckFrames plaintext (rw_firstClientPN rw) = Inr out
    \<and> d = prefix @ p @ suffix \<and> carries p (key, iv, hp) pn out
    \<and> length p = pkt_packetLen pkt + (quicMinimumInitialDatagramSize - length data)"
proof -
  from r new obtain prefix packet suffix pkt key iv hp plaintext pn n out p where
    l: "locateQUICInitial data = Inr (Some (prefix, packet, suffix))" and p: "parseInitialPacket packet = Inr pkt"
    and k: "initialSecrets (pkt_version pkt) (rw_clientDCID rw) True = Some (key, iv, hp)"
    and dc: "decryptInitialWithExpected packet key iv hp (rw_serverExpected rw) = Inr (plaintext, pn, n)"
    and a: "rewriteAckFrames plaintext (rw_firstClientPN rw) = Inr out"
    and e: "encryptInitialToPacketSize pkt pn n out key iv hp (pkt_packetLen pkt
        + (if length data < quicMinimumInitialDatagramSize then quicMinimumInitialDatagramSize - length data else 0)) = Inr p"
    and out: "d = prefix @ p @ suffix"
    by (auto simp: rewriteServerLocked_def Let_def split: sum.splits option.splits prod.splits if_splits)
  have parts: "prefix @ packet @ suffix = data"
    using locateQUICInitial_parts [OF l] by simp
  then have lp: "length packet \<le> quicUDPPacketSize"
    using size by auto
  have keys: "length key = 16" "length hp = 16"
    using initialSecrets_keys [OF k] by auto
  from decryptInitial_fields [OF dc keys(1)] have n: "1 \<le> n" "n \<le> 4" by auto
  have fit: "headerFits pkt"
    using lp by (intro headerFits_parse [OF p]) (simp add: quicUDPPacketSize_def)
  from encryptInitialToPacketSize_sound [OF e] obtain i where
    i: "encryptInitialWithPNLen (pkt_version pkt) (pkt_dcid pkt) (pkt_scid pkt) (pkt_token pkt) pn n
        (padded out i) key iv hp = Inr p"
    and len: "length p = pkt_packetLen pkt
        + (if length data < quicMinimumInitialDatagramSize then quicMinimumInitialDatagramSize - length data else 0)"
    by blast
  have "pkt_packetLen pkt \<le> quicUDPPacketSize"
    using parseInitialPacket_fields [OF p] lp by auto
  then have "length p < 2 ^ 61"
    by (auto simp add: len quicUDPPacketSize_def quicMinimumInitialDatagramSize_def)
  moreover have "length (padded out i) \<le> length p"
    using encryptInitialWithPNLen_length [OF i n keys(1)] by simp
  ultimately have "carries p (key, iv, hp) pn out"
    by (intro encrypted_carries [OF fit n keys(1) _ i]) simp
  moreover have "length p = pkt_packetLen pkt + (quicMinimumInitialDatagramSize - length data)"
    using len by simp
  ultimately show ?thesis
    using parts p k dc a out by blast
qed

end
