(* ===== verification/Quic_Collector_Steps.thy ===== *)
theory Quic_Collector_Steps
  imports Quic_Collector "HOL-Library.Multiset"
begin

text \<open>
  What collecting promises: the collector's stream stays clean and bounded whatever
  packets arrive, an encrypted ClientHello is recognised, and the pending datagrams are
  accounted for and put in packet-number order.
\<close>

subsection \<open>The collector keeps its stream clean and bounded\<close>

definition collectorOk :: "quicInitialCollector \<Rightarrow> bool" where
  "collectorOk col \<longleftrightarrow> clean (col_stream col) (col_covered col) \<and> length (col_stream col) \<le> quicUDPPacketSize"

lemma mergeLoop_clean:
  "clean s c \<Longrightarrow> length s \<le> quicUDPPacketSize \<Longrightarrow> mergeLoop d off s c = (r, s', c') \<Longrightarrow>
    clean s' c' \<and> length s' \<le> quicUDPPacketSize \<and> length s \<le> length s'"
proof (induction "length d - off" arbitrary: off s c rule: less_induct)
  case less
  have IH: "clean s' c' \<and> length s' \<le> quicUDPPacketSize \<and> length s1 \<le> length s'"
    if "off < e" "off < length d" "clean s1 c1" "length s1 \<le> quicUDPPacketSize" "mergeLoop d e s1 c1 = (r, s', c')"
    for e s1 c1
    using that by (intro less.hyps) auto
  show ?case
  proof (cases "off < length d \<and> d ! off = 0x06")
    case False
    with less.prems show ?thesis
      by (cases "frameEnd d off")
        (auto simp: mergeLoop.simps [of d off] split: if_splits dest!: frameEnd_bounds dest: IH [rotated -1])
  next
    case off: True
    show ?thesis
    proof (cases "frameEnd d off")
      case (Inl e)
      with off less.prems show ?thesis by (simp add: mergeLoop.simps [of d off])
    next
      case (Inr e)
      from frameEnd_crypto [OF Inr] off obtain offset p1 len p2 where
        v: "varintAt d (off + 1) = Inr (offset, p1)" "varintAt d p1 = Inr (len, p2)"
        and b: "e = p2 + len" "p2 + len \<le> length d" "offset < 4611686018427387904" "len < 4611686018427387904"
        by blast
      note v' = v [simplified]
      have u: "u64 (offset + len) = offset + len"
        using b by simp
      let ?s = "extendTo (offset + len) 0 s" and ?c = "extendTo (offset + len) False c"
      show ?thesis
      proof (cases "offset + len > quicUDPPacketSize")
        case True
        with off Inr v' u less.prems show ?thesis
          by (simp add: mergeLoop.simps [of d off])
      next
        case False
        obtain r1 s1 c1 where m: "mergeBytes (take len (drop p2 d)) offset ?s ?c = (r1, s1, c1)"
          by (cases "mergeBytes (take len (drop p2 d)) offset ?s ?c")
        have len: "length s = length c"
          using less.prems(1) by (simp add: clean_def)
        have "clean s1 c1 \<and> length c1 = length ?c"
          using mergeBytes_spec [OF _ _ clean_extend [OF less.prems(1)] m] len b by auto
        then have ok: "clean s1 c1" "length s1 \<le> quicUDPPacketSize" "length s \<le> length s1"
          using False less.prems(2) len by (auto simp: clean_def)
        show ?thesis
        proof (cases r1)
          case (Some x)
          with off Inr v' u b m ok less.prems False show ?thesis
            by (simp add: mergeLoop.simps [of d off] Let_def)
        next
          case None
          have "mergeLoop d e s1 c1 = (r, s', c')"
            using off Inr v' u b m None less.prems(3) False by (simp add: mergeLoop.simps [of d off] Let_def)
          from IH [OF _ _ ok(1,2) this] frameEnd_bounds [OF Inr] off ok(3) show ?thesis
            by auto
        qed
      qed
    qed
  qed
qed


lemma merge_clean:
  "clean s c \<Longrightarrow> length s \<le> quicUDPPacketSize \<Longrightarrow> mergeInitialCryptoFrames d s c = (r, s', c') \<Longrightarrow>
    clean s' c' \<and> length s' \<le> quicUDPPacketSize"
  using mergeLoop_clean unfolding mergeInitialCryptoFrames_def by blast

lemma collectorOk_simps [simp]:
  "collectorOk quicCollector0" "collectorOk (collectorReset col)"
  "collectorOk (col\<lparr>col_version := v, col_dcid := d\<rparr>) = collectorOk col"
  "collectorOk (col\<lparr>col_expected := e\<rparr>) = collectorOk col"
  "collectorOk (col\<lparr>col_stream := s, col_covered := c\<rparr>) \<longleftrightarrow> clean s c \<and> length s \<le> quicUDPPacketSize"
  by (simp_all add: collectorOk_def quicCollector0_def collectorReset_def clean_Nil)

lemma collectorSwitch_ok [simp]: "collectorOk col \<Longrightarrow> collectorOk (collectorSwitch col pkt)"
  by (simp add: collectorSwitch_def)

lemma collectorNote_same [simp]:
  "col_stream (collectorNote col pkt pn) = col_stream col"
  "col_covered (collectorNote col pkt pn) = col_covered col"
  by (simp_all add: collectorNote_def Let_def)

lemma collectorPacket_ok:
  assumes ok: "collectorOk col" and p: "collectorPacket col packet = (r, col')"
  shows "collectorOk col'"
proof -
  have m: "clean s' c' \<and> length s' \<le> quicUDPPacketSize"
    if "mergeInitialCryptoFrames d (col_stream (collectorSwitch col pkt)) (col_covered (collectorSwitch col pkt)) = (x, s', c')"
    for d pkt x s' c'
    using merge_clean [OF _ _ that] collectorSwitch_ok [OF ok, of pkt] by (simp add: collectorOk_def)
  show ?thesis
    using p ok
    by (auto simp: collectorPacket_def Let_def split: sum.splits option.splits prod.splits dest!: m)
qed

lemma collectorLoop_ok:
  "collectorOk col \<Longrightarrow> collectorLoop col data off low found = (r, col') \<Longrightarrow> collectorOk col'"
proof (induction "length data - off" arbitrary: col off low found rule: less_induct)
  case less
  show ?case
  proof (cases "off < length data \<and> data ! off AND 0x80 \<noteq> 0")
    case False
    with less.prems show ?thesis
      by (simp add: collectorLoop.simps [of col data off] split: if_splits)
  next
    case True
    show ?thesis
    proof (cases "quicLongPacketEnd (drop off data)")
      case (Inl e)
      with True less.prems show ?thesis
        by (simp add: collectorLoop.simps [of col data off])
    next
      case (Inr te)
      obtain t e where te: "te = (t, e)" by (cases te)
      note b = quicLongPacketEnd_bounds [OF Inr [unfolded te]]
      have IH: "collectorLoop k data (off + e) l f = (r, col') \<Longrightarrow> collectorOk k \<Longrightarrow> collectorOk col'" for k l f
        using b True by (intro less.hyps) auto
      obtain r1 col1 where p: "collectorPacket col (take e (drop off data)) = (r1, col1)"
        by (cases "collectorPacket col (take e (drop off data))")
      have ok1: "collectorOk col1"
        by (rule collectorPacket_ok [OF less.prems(1) p])
      consider "t = 3" | "t = 0" "\<exists>e. r1 = Inl e" | pn where "t = 0" "r1 = Inr pn" | "t \<noteq> 3" "t \<noteq> 0"
        by (cases r1) auto
      then show ?thesis
        using less.prems True Inr te p ok1
        by cases (auto simp: collectorLoop.simps [of col data off] intro: IH)
    qed
  qed
qed

lemma collectorAdd_ok:
  assumes "collectorOk col" and "collectorAdd col data = (r, col')"
  shows "collectorOk col'"
  using assms
  by (auto simp: collectorAdd_def Let_def split: prod.splits sum.splits option.splits if_splits dest: collectorLoop_ok)

subsection \<open>Recognising an encrypted ClientHello\<close>

lemma quicLongPacketEnd_parse:
  assumes p: "parseInitialPacket data = Inr pkt" and ids: "length (pkt_dcid pkt) \<le> 20" "length (pkt_scid pkt) \<le> 20"
    and v: "pkt_version pkt \<noteq> 0"
  shows "quicLongPacketEnd data = Inr (0, pkt_packetLen pkt) \<and> data ! 0 AND 0x80 \<noteq> 0"
  using assms
  by (auto simp: parseInitialPacket_def quicLongPacketEnd_def Let_def not_less min_def split: if_splits sum.splits)


text \<open>The server name a stream yields.\<close>

definition streamSNI :: "bytes \<Rightarrow> gostr" where
  "streamSNI stream =
    (case sniHostNameRange stream of
       Some (st, n) \<Rightarrow> if clientHelloComplete stream then take n (drop st stream) else []
     | None \<Rightarrow> [])"

lemma collectorAdd_result:
  "collectorLoop col data 0 18446744073709551615 False = (Inr pn, col') \<Longrightarrow>
    collectorAdd col data = (Inr (streamSNI (collectorStream col'), pn), col')"
  by (auto simp: collectorAdd_def streamSNI_def Let_def split: option.split prod.split)

lemma quicVersionSalt_versions:
  "quicVersionSalt v = Some s \<Longrightarrow> v \<noteq> 0 \<and> v < 2 ^ 32"
  by (auto simp: quicVersionSalt_def quic_versions split: if_splits)

text \<open>
  A datagram that holds one Initial packet, encrypted under the client's secrets with
  frames that merge, is collected: the result is the server name of its stream.
\<close>

lemma collectorAdd_encrypted:
  assumes k: "quicInitialSecrets version dcid = Some (key, iv, hp)"
    and ids: "length dcid \<le> 20" "length scid \<le> 20" and tok: "length token < 2 ^ 62"
    and pl: "length plaintext < 2 ^ 61" and n: "1 \<le> n" "n \<le> 4" and pn: "pn \<le> 2 ^ (8 * n) div 2"
    and enc: "encryptInitialWithPNLen version dcid scid token pn n plaintext key iv hp = Inr packet"
    and m: "mergeInitialCryptoFrames plaintext [] [] = (None, stream, covered)"
  shows "collectorAdd quicCollector0 packet =
    (Inr (streamSNI (contiguousCryptoStream stream covered), pn),
     \<lparr>col_version = version, col_dcid = dcid, col_expected = pn + 1, col_stream = stream, col_covered = covered\<rparr>)"
proof -
  define h where "h = initialHeader version dcid scid token n (length plaintext)"
  have v: "version \<noteq> 0" "version < 2 ^ 32"
    using k quicVersionSalt_versions by (auto simp: quicInitialSecrets_def initialSecrets_def split: option.splits)
  have keys: "length key = 16"
    using k initialSecrets_lengths by (auto simp: quicInitialSecrets_def)
  have ids': "length dcid < 256" "length scid < 256"
    using ids by auto
  have "(2 :: nat) ^ (8 * n) div 2 \<le> 2 ^ 32 div 2"
    using n by (intro div_le_mono power_increasing) simp_all
  moreover have "(2 :: nat) ^ 1 \<le> 2 ^ (8 * n)"
    using n by (intro power_increasing) simp_all
  then have half: "0 < (2 :: nat) ^ (8 * n) div 2"
    by (simp add: div_greater_zero_iff)
  ultimately have pn': "pn < 2 ^ 62" "pn < 18446744073709551615"
    using pn by simp_all
  note ep = encrypted_packet [OF v(2) ids' tok pl n keys h_def refl refl enc]
  define pkt where "pkt = \<lparr>pkt_version = version, pkt_dcid = dcid, pkt_scid = scid, pkt_token = token,
        pkt_pnOffset = length h, pkt_payloadLen = n + length plaintext + 16, pkt_packetLen = length packet\<rparr>"
  have p: "parseInitialPacket packet = Inr pkt"
    using ep(2) [of "[]"] ep(3) by (simp add: pkt_def)
  have e: "quicLongPacketEnd packet = Inr (0, length packet)" and long: "packet ! 0 AND 0x80 \<noteq> 0"
    using quicLongPacketEnd_parse [OF p] ids v by (simp_all add: pkt_def)
  have ne: "packet \<noteq> []"
    using e quicLongPacketEnd_bounds by auto
  have d: "decryptInitialWithExpected packet key iv hp 0 = Inr (plaintext, pn, n)"
    using decrypt_encrypt [OF v(2) ids' tok pl n keys _ _ pn'(1) _ enc, of 0 "[]"] pn half by simp
  have cp: "collectorPacket quicCollector0 packet =
    (Inr pn, \<lparr>col_version = version, col_dcid = dcid, col_expected = pn + 1, col_stream = stream, col_covered = covered\<rparr>)"
    using k pn' m
    by (simp add: collectorPacket_def p pkt_def quicCollector0_def collectorSwitch_def collectorNote_def d)
  have "collectorLoop quicCollector0 packet 0 18446744073709551615 False =
    (Inr pn, \<lparr>col_version = version, col_dcid = dcid, col_expected = pn + 1, col_stream = stream, col_covered = covered\<rparr>)"
    using ne e long cp pn'
    by (subst collectorLoop.simps) (simp add: collectorLoop.simps [of _ packet "length packet"])
  from collectorAdd_result [OF this] show ?thesis
    by (simp add: collectorStream_def)
qed

subsection \<open>The pending datagrams\<close>

definition pendingOk :: "quicInitialPending \<Rightarrow> bool" where
  "pendingOk p \<longleftrightarrow> collectorOk (pend_collector p) \<and> pend_size p = sum_list (map (length \<circ> snd) (pend_packets p))"

lemma pendingOk_0 [simp]: "pendingOk quicPending0"
  by (simp add: pendingOk_def quicPending0_def)

lemma pendingAdd_ok:
  "pendingOk p \<Longrightarrow> pendingAdd p data now = (r, p') \<Longrightarrow> pendingOk p'"
  by (auto simp: pendingOk_def pendingAdd_def split: prod.splits sum.splits dest: collectorAdd_ok)

lemma pendingAdd_packets:
  "pendingAdd p data now = (Inr sni, p') \<Longrightarrow>
    \<exists>pn. pend_packets p' = pend_packets p @ [(pn, data)] \<and> pend_updated p' = Some now"
  by (auto simp: pendingAdd_def split: prod.splits sum.splits)

text \<open>The datagrams are the ones that were added, in packet-number order.\<close>

lemma pendingDatagrams_spec:
  "\<exists>ps. mset ps = mset (pend_packets p) \<and> sorted (map fst ps) \<and> pendingDatagrams p = map snd ps
    \<and> (\<forall>n. filter (\<lambda>x. fst x = n) ps = filter (\<lambda>x. fst x = n) (pend_packets p))"
  by (intro exI [of _ "sort_key fst (pend_packets p)"])
    (simp add: pendingDatagrams_def sort_key_stable filter_sort)

end
