(* ===== verification/Quic_Properties.thy ===== *)
theory Quic_Properties
  imports Quic_Rewriter_Steps Quic_Collector_Steps
begin

text \<open>
  The properties of the QUIC part (\<open>phantomtcp/quic.go\<close>), each with a witness where it has
  hypotheses.
\<close>

subsection \<open>Packets\<close>

lemma secrets_exist:
  "quicVersionSalt v = Some s \<Longrightarrow> \<exists>key iv hp. initialSecrets v dcid server = Some (key, iv, hp)"
  by (simp add: initialSecrets_def Let_def)

lemma version1_salt: "quicVersionSalt 1 = Some quicV1Salt"
  by (simp add: quicVersionSalt_def quic_versions)

text \<open>C13: An Initial packet encrypted under the keys derived for any supported version and
  connection id is decrypted, whatever follows it in the datagram, to the same plaintext
  and packet number, as long as the receiver's expected number lies in the window of the
  encoded packet number.\<close>

theorem packet_roundtrip:
  assumes keys: "initialSecrets version odcid server = Some (key, iv, hp)"
    and sizes: "length dcid < 256" "length scid < 256" "length token < 2 ^ 62" "length plaintext < 2 ^ 61"
    and n: "1 \<le> n" "n \<le> 4" "4 \<le> n + length plaintext"
    and pn: "pn < 2 ^ 62" "inWindow pn n expected"
  shows "\<exists>packet. encryptInitialWithPNLen version dcid scid token pn n plaintext key iv hp = Inr packet
    \<and> decryptInitialWithExpected (packet @ suffix) key iv hp expected = Inr (plaintext, pn, n)"
proof -
  have k: "length key = 16" "length hp = 16"
    using initialSecrets_keys [OF keys] by auto
  have v: "version < 2 ^ 32"
    using keys quicVersionSalt_versions by (auto simp: initialSecrets_def split: option.splits)
  from encryptInitialWithPNLen_ok [OF n(1,2) k n(3), of version dcid scid token pn iv] obtain packet where
    p: "encryptInitialWithPNLen version dcid scid token pn n plaintext key iv hp = Inr packet" by blast
  from decrypt_encrypt [OF v sizes n(1,2) k(1) _ _ _ _ p] pn p show ?thesis
    by (auto simp: inWindow_def)
qed

theorem packet_roundtrip_witness:
  "\<exists>key iv hp packet. initialSecrets 1 [1, 2, 3] False = Some (key, iv, hp)
    \<and> encryptInitialWithPNLen 1 [9] [] [] 300 2 [6, 0, 1, 5] key iv hp = Inr packet
    \<and> decryptInitialWithExpected (packet @ [1, 2]) key iv hp 290 = Inr ([6, 0, 1, 5], 300, 2)"
proof -
  obtain key iv hp where k: "initialSecrets 1 [1, 2, 3] False = Some (key, iv, hp)"
    using secrets_exist [OF version1_salt] by blast
  from packet_roundtrip [OF k, of "[9]" "[]" "[]" "[6, 0, 1, 5]" 2 300 290 "[1, 2]"] k show ?thesis
    by (simp add: inWindow_def)
qed

text \<open>A packet number is recovered from its truncated encoding exactly when the receiver's
  expectation is within half a window of it (the rule of RFC 9000, A.3).\<close>

theorem packet_number_recovered:
  assumes "1 \<le> k" "k \<le> 4" and "take k (drop off header) = encodePacketNumber pn k"
    and "inWindow pn k expected" and "pn < 2 ^ 62"
  shows "decodePacketNumber header off k expected = pn"
  using assms by (intro decodePacketNumber_encode) (auto simp: inWindow_def)

theorem packet_number_recovered_witness:
  "decodePacketNumber [7, 0x9b, 0x32] 1 2 0xa82f30ea = 0xa82f9b32"
proof (rule packet_number_recovered)
  show "take 2 (drop 1 [7, 0x9b, 0x32]) = encodePacketNumber 0xa82f9b32 2"
    by (simp add: encodePacketNumber_def be_bytes_2)
qed (simp_all add: inWindow_def)

text \<open>Every number below 2^62 is encoded as a varint that decodes to it, and takes the
  encoding's bytes and no others, whatever follows.\<close>

theorem varint_roundtrip:
  assumes "v < 2 ^ 62"
  shows "readVarint (writeVarint v @ rest) = Inr (v, length (writeVarint v))
    \<and> (length (writeVarint v) = (if v < 2 ^ 6 then 1 else if v < 2 ^ 14 then 2 else if v < 2 ^ 30 then 4 else 8))"
  using varint.dec_enc [of v rest] assms by (auto simp: length_writeVarint)

theorem varint_roundtrip_witness: "readVarint (writeVarint 15293 @ [7]) = Inr (15293, 2)"
  using varint_roundtrip [of 15293 "[7]"] by simp

subsection \<open>ACK frames\<close>

text \<open>An ACK frame that satisfies the invariant of its ranges (descending, with gaps) is
  printed without an error, and parses back to itself wherever it stands.\<close>

theorem ack_roundtrip:
  assumes "ackOk ack"
  shows "\<exists>body. appendAckFrame dst ack = Inr (dst @ ack_type ack # body)
    \<and> parseAckFrame (dst @ ack_type ack # body @ rest) (length dst + 1) (ack_type ack)
        = Inr (ack, length dst + 1 + length body)"
  using appendAckFrame_ok [OF assms, of dst] parseAckFrame_bytes [OF assms, of "dst @ [ack_type ack]" rest]
  by auto

definition sampleAck :: ackFrame where
  "sampleAck = \<lparr>ack_type = 0x03, ack_delay = 20,
     ack_ranges = [\<lparr>smallest = 10, largest = 12\<rparr>, \<lparr>smallest = 3, largest = 5\<rparr>, \<lparr>smallest = 0, largest = 1\<rparr>],
     ack_ecn = [1, 2, 3]\<rparr>"

lemma sampleAck_ok: "ackOk sampleAck"
  by (simp add: ackOk_def ackRangesOk_def sampleAck_def)

theorem ack_roundtrip_witness:
  "\<exists>body. appendAckFrame [] sampleAck = Inr (0x03 # body)
    \<and> parseAckFrame (0x03 # body @ [0]) 1 0x03 = Inr (sampleAck, 1 + length body)"
  using ack_roundtrip [OF sampleAck_ok, of "[]" "[0]"] by (simp add: sampleAck_def)

text \<open>Whatever parses as an ACK frame satisfies the invariant of its ranges, and
  \<open>remapAck\<close> keeps it.\<close>

theorem ack_invariant:
  assumes "parseAckFrame data off t = Inr (ack, e)" and "first < 2 ^ 62"
  shows "ackOk ack \<and> ackOk (remapAck ack first)"
  using parseAckFrame_ok [OF assms(1)] remapAck_ok [of first ack] assms(2) by auto

theorem ack_invariant_witness:
  "\<exists>data ack e. parseAckFrame data 1 0x03 = Inr (ack, e) \<and> ackOk (remapAck ack 4)"
  using parseAckFrame_bytes [OF sampleAck_ok, of "[0]" "[]"] ack_invariant [of "[0] @ ackBytes sampleAck @ []" 1 "ack_type sampleAck" sampleAck _ 4]
  by (auto simp: sampleAck_def)

text \<open>
  The numbers on the wire: the client's packet \<open>orig\<close> is sent as \<open>wire\<close>. The first packet
  is sent twice, under its own number and the next; the later ones are one higher.
\<close>

definition sentAs :: "nat \<Rightarrow> nat \<Rightarrow> nat \<Rightarrow> bool" where
  "sentAs first orig wire \<longleftrightarrow>
    (if orig < first then wire = orig
     else if orig = first then wire = first \<or> wire = first + 1
     else wire = orig + 1)"

text \<open>C23: Mapping an ACK of the server back acknowledges exactly the client's packets that
  were sent under one of the acknowledged numbers.\<close>

theorem ack_maps_back:
  assumes "ackOk ack" and "first < 2 ^ 62"
  shows "acked (ack_ranges (remapAck ack first)) = {orig. \<exists>wire \<in> acked (ack_ranges ack). sentAs first orig wire}"
proof -
  have "orig = mapAckPN wire first \<longleftrightarrow> sentAs first orig wire" for wire orig
    using assms(2) by (auto simp: mapAckPN_eq sentAs_def)
  moreover have "acked (ack_ranges (remapAck ack first)) = (\<lambda>p. mapAckPN p first) ` acked (ack_ranges ack)"
    using remapAck_ok [of first ack] assms by auto
  ultimately show ?thesis
    by (simp add: image_def)
qed

theorem ack_maps_back_witness:
  "acked (ack_ranges (remapAck sampleAck 4)) = {orig. \<exists>wire \<in> acked (ack_ranges sampleAck). sentAs 4 orig wire}"
  by (rule ack_maps_back [OF sampleAck_ok]) simp

text \<open>C24: Rewriting the ACK frames of a plaintext fails exactly when the plaintext does not
  parse into frames. Otherwise the result parses into as many frames: every ACK frame has
  its numbers mapped and all else unchanged, every other frame is the same bytes.\<close>

theorem rewriteAckFrames_property:
  assumes "first < 2 ^ 62"
  shows "(\<exists>e. rewriteAckFrames plaintext first = Inl e \<and> frameList plaintext 0 = Inl e)
    \<or> (\<exists>out fs gs. rewriteAckFrames plaintext first = Inr out \<and> frameList plaintext 0 = Inr fs
        \<and> frameList out 0 = Inr gs \<and> list_all2 (ackMapped first) fs gs)"
  using rewriteAckFrames_frames [of first plaintext] assms by (auto split: sum.splits)

theorem rewriteAckFrames_property_witness:
  "\<exists>e. rewriteAckFrames [0xff] 3 = Inl e \<and> frameList [0xff] 0 = Inl e"
proof -
  have "frameList [0xff] 0 = Inl ''unsupported frame''"
    by (simp add: frameList.simps frameEnd_def frameRest_def word_le_nat_alt)
  with rewriteAckFrames_property [of 3 "[0xff]"] show ?thesis by auto
qed

end
