(* ===== verification/Tls_Hello.thy ===== *)
theory Tls_Hello
  imports Go_Strings
begin

text \<open>
  The inspection of a connection's first bytes (\<open>phantomtcp/phantom.go\<close>): the Host
  header of a plain HTTP request, the fields of a TLS ClientHello record, the splitting
  of a record in three, and the redirect answer of \<open>HttpMove\<close>. A result \<open>None\<close> is a
  run-time panic.
\<close>

subsection \<open>HTTP and TLS headers\<close>

definition CRLF :: bytes where "CRLF = [13, 10]"

text \<open>The offset and length; both are 0 when there is no Host header.\<close>

definition GetHost :: "bytes \<Rightarrow> nat \<times> nat" where
  "GetHost b =
    (case indexOf (str ''Host: '') b of None \<Rightarrow> (0, 0)
     | Some i \<Rightarrow>
        (let offset = i + 6 in
         case indexOf CRLF (drop offset b) of None \<Rightarrow> (0, 0) | Some len \<Rightarrow> (offset, len)))"

definition u16at :: "bytes \<Rightarrow> nat \<Rightarrow> nat" where
  "u16at b i = be_nat (take 2 (drop i b))"

definition notTLS :: "bytes \<Rightarrow> bool" where
  "notTLS header = (header ! 0 \<noteq> 0x16 \<or> u16at header 1 div 8 \<noteq> 0x0300 div 8)"

definition GetHelloLength :: "bytes \<Rightarrow> nat" where
  "GetHelloLength header =
    (if 11 + 32 + 1 > length header then 0 else if notTLS header then 0 else u16at header 3)"

function sniLoop :: "bytes \<Rightarrow> nat \<Rightarrow> nat \<Rightarrow> bool \<Rightarrow> nat \<times> nat \<times> bool" where
  "sniLoop header offset extensionsEnd ech =
    (if offset < extensionsEnd then
       (if offset + 4 > length header then (0, 0, False)
        else
          (let extensionType = u16at header offset;
               extensionLength = u16at header (offset + 2);
               offset = offset + 4
           in if extensionType = 0 then
                (if offset + 5 > length header then (0, 0, ech)
                 else
                   (let serverNameLength = u16at header (offset + 3); offset = offset + 5 in
                    if offset + serverNameLength \<ge> length header then (0, 0, ech)
                    else (offset, serverNameLength, ech)))
              else sniLoop header (offset + extensionLength) extensionsEnd
                     (if extensionType = 65037 then True else ech)))
     else (0, 0, ech))"
  by pat_completeness auto
termination
  by (relation "measure (\<lambda>(_, off, e, _). e - off)") auto

declare sniLoop.simps [simp del]

definition GetSNI :: "bytes \<Rightarrow> nat \<times> nat \<times> bool" where
  "GetSNI header =
    (let headerLen = length header; offset = 11 + 32 in
     if offset + 1 > headerLen then (0, 0, False)
     else if notTLS header then (0, 0, False)
     else if int headerLen \<le> int (u16at header 3) - 5 then (0, 0, False)
     else
       (let offset = offset + (1 + unat (header ! offset)) in
        if offset + 2 > headerLen then (0, 0, False)
        else
          (let offset = offset + (2 + u16at header offset) in
           if offset \<ge> headerLen then (0, 0, False)
           else
             (let offset = offset + (1 + unat (header ! offset)) in
              if offset + 4 > headerLen then (0, 0, False)
              else
                (let extensionsLength = u16at header offset;
                     offset = offset + 2;
                     extensionsEnd = offset + extensionsLength
                 in if extensionsEnd > headerLen then (0, 0, False)
                    else sniLoop header offset extensionsEnd False)))))"

text \<open>
  The version loops. The list of supported versions is read without looking at the end
  of the header: an index out of range panics.
\<close>

fun supportedVersions :: "bytes \<Rightarrow> nat \<Rightarrow> nat \<Rightarrow> nat \<Rightarrow> nat option" where
  "supportedVersions header versionOffset 0 version = Some version"
| "supportedVersions header versionOffset (Suc k) version = do {
    supported \<leftarrow> rd16 header versionOffset;
    supportedVersions header (versionOffset + 2) k
      (if supported < 0x0FFF \<and> supported > version then supported else version) }"

function versionLoop :: "bytes \<Rightarrow> nat \<Rightarrow> nat \<Rightarrow> nat \<Rightarrow> nat option" where
  "versionLoop header offset extensionsEnd version =
    (if offset < extensionsEnd then
       (if offset + 4 > length header then Some version
        else
          (let extensionType = u16at header offset;
               extensionLength = u16at header (offset + 2);
               offset = offset + 4
           in if extensionType = 43 then do {
                n \<leftarrow> rd8 header offset;
                supportedVersions header (offset + 1) (n div 2) version }
              else versionLoop header (offset + extensionLength) extensionsEnd version))
     else Some version)"
  by pat_completeness auto
termination
  by (relation "measure (\<lambda>(_, off, e, _). e - off)") auto

declare versionLoop.simps [simp del]

definition GetTLSVersion :: "bytes \<Rightarrow> nat option" where
  "GetTLSVersion header =
    (let headerLen = length header; offset = 11 + 32 in
     if offset + 1 > headerLen then Some 0
     else if notTLS header then Some 0
     else
       (let version = u16at header 1 in
        if int headerLen \<le> int (u16at header 3) - 5 then Some version
        else if header ! 5 \<noteq> 1 then Some version
        else if be_nat (take 3 (drop 6 header)) > headerLen - 9 then Some version
        else
          (let version = u16at header 9 in
           if version div 8 \<noteq> 0x0300 div 8 then Some version
           else
             (let offset = offset + (1 + unat (header ! offset)) in
              if offset + 2 > headerLen then Some version
              else
                (let offset = offset + (2 + u16at header offset) in
                 if offset \<ge> headerLen then Some version
                 else
                   (let offset = offset + (1 + unat (header ! offset)) in
                    if offset + 4 > headerLen then Some version
                    else
                      (let extensionsEnd = offset + 2 + u16at header offset in
                       if extensionsEnd > headerLen then Some version
                       else versionLoop header (offset + 2) extensionsEnd version)))))))"

definition GetTLSVersionString :: "nat \<Rightarrow> gostr" where
  "GetTLSVersionString version =
    (if version = 0x300 then str ''SSL 3.0''
     else if version = 0x301 then str ''TLS 1.0''
     else if version = 0x302 then str ''TLS 1.1''
     else if version = 0x303 then str ''TLS 1.2''
     else if version = 0x304 then str ''TLS 1.3''
     else str ''unknow'')"

subsection \<open>Splitting a record\<close>

text \<open>
  The pieces are copied one after the other, each with \<open>copy(d[i:], s)\<close>. The lengths are converted to 16 bits, so a negative difference wraps.
\<close>

definition TLSFragment :: "bytes \<Rightarrow> nat \<Rightarrow> bytes option" where
  "TLSFragment header fragSize = do {
    let headerLen = length header;
    let first = fragSize div 2;
    let out = replicate (headerLen + 10) 0;
    vers \<leftarrow> slice header 0 3;
    out \<leftarrow> copyFrom out 0 vers;
    out \<leftarrow> put16 out 3 (u16 (first + 65536 - 5));
    part1 \<leftarrow> slice header 5 first;
    out \<leftarrow> copyFrom out 5 part1;
    out \<leftarrow> copyFrom out first vers;
    out \<leftarrow> put16 out (first + 3) (u16 (fragSize - first));
    part2 \<leftarrow> slice header first fragSize;
    out \<leftarrow> copyFrom out (first + 5) part2;
    out \<leftarrow> copyFrom out (fragSize + 5) vers;
    part3 \<leftarrow> slice header fragSize headerLen;
    out \<leftarrow> put16 out (fragSize + 8) (u16 (headerLen - fragSize));
    copyFrom out (fragSize + 10) part3 }"

subsection \<open>The redirect answer\<close>

text \<open>
  \<open>HttpMove\<close> writes into a buffer of 1460 bytes, of which it sends the first \<open>n\<close>. Once
  \<open>n\<close> runs past the buffer the next \<open>copy\<close> panics. The outer option is the panic, the
  inner one the result: \<open>None\<close> for false, or the bytes that are sent.
\<close>

definition put :: "bytes \<times> nat \<Rightarrow> bytes \<Rightarrow> (bytes \<times> nat) option" where
  "put dn s = (case dn of (d, n) \<Rightarrow> map_option (\<lambda>d. (d, n + length s)) (copyFrom d n s))"

definition HttpMoveTail :: "bytes \<times> nat \<Rightarrow> gostr \<Rightarrow> bytes option" where
  "HttpMoveTail dn host = do {
    dn \<leftarrow> put dn (CRLF @ str ''Cache-Control: private'');
    dn \<leftarrow> (if host = str ''h3'' then
             put dn (CRLF @ str ''Alt-Svc: h3='' @ [34] @ str '':443'' @ [34] @ str ''; ma=2592000,h3-29=''
               @ [34] @ str '':443'' @ [34] @ str ''; ma=2592000; persist=1'')
           else Some dn);
    (d, n) \<leftarrow> put dn (CRLF @ str ''Content-Length: 0'' @ CRLF @ CRLF);
    slice d 0 n }"

definition HttpMove :: "gostr \<Rightarrow> bytes \<Rightarrow> bytes option option" where
  "HttpMove host b =
    (let data = replicate 1460 (0 :: byte) in
     if host = [] then
       map_option Some (do { dn \<leftarrow> put (data, 0) (str ''HTTP/1.1 200 OK''); HttpMoveTail dn host })
     else if host = str ''https'' \<or> host = str ''h3'' then do {
       dn \<leftarrow> put (data, 0) (str ''HTTP/1.1 302 Found'' @ CRLF @ str ''Location: https://'');
       case indexOf (str ''Host: '') b of None \<Rightarrow> Some None
       | Some start \<Rightarrow>
          (case indexOf CRLF (drop (start + 6) b) of None \<Rightarrow> Some None
           | Some len \<Rightarrow> do {
               dn \<leftarrow> put dn (take len (drop (start + 6) b));
               case indexOf (str '' '') (drop 4 b) of None \<Rightarrow> Some None
               | Some e \<Rightarrow> do {
                   dn \<leftarrow> put dn (take e (drop 4 b));
                   map_option Some (HttpMoveTail dn host) } }) }
     else do {
       dn \<leftarrow> put (data, 0) (str ''HTTP/1.1 302 Found'' @ CRLF @ str ''Location: '');
       dn \<leftarrow> put dn host;
       if 4 \<ge> length b then Some None
       else
         (case indexOf (str '' '') (drop 4 b) of None \<Rightarrow> Some None
          | Some e \<Rightarrow> do {
              dn \<leftarrow> put dn (take e (drop 4 b));
              map_option Some (HttpMoveTail dn host) }) })"

end
