(* ===== verification/Hello_Names.thy ===== *)
theory Hello_Names
  imports Tls_Hello Quic_Stream
begin

text \<open>
  The ClientHello seen by the two parsers: where \<open>GetHost\<close> and \<open>GetSNI\<close> point, that
  \<open>GetSNI\<close> (of a TLS record) and \<open>sniHostNameRange\<close> (of a QUIC stream) find the name
  of every well-formed ClientHello, and the three records of \<open>TLSFragment\<close>.
\<close>

subsection \<open>Sequential writes into a zeroed buffer\<close>

lemma copy_at_fill:
  "length s \<le> m \<Longrightarrow> copy_at (a @ replicate m 0) (length a) s = (a @ s) @ replicate (m - length s) 0"
  by (simp add: copy_at_def)

lemma copyFrom_fill:
  "i = length a \<Longrightarrow> length s \<le> m \<Longrightarrow>
    copyFrom (a @ replicate m 0) i s = Some ((a @ s) @ replicate (m - length s) 0)"
  using copy_at_fill [of s m a] by (simp add: copyFrom_def)

lemma put16_fill:
  "i = length a \<Longrightarrow> 2 \<le> m \<Longrightarrow>
    put16 (a @ replicate m 0) i v = Some ((a @ be_bytes 2 v) @ replicate (m - 2) 0)"
  using copy_at_fill [of "be_bytes 2 v" m a] by (simp add: put16_def)

subsection \<open>The three records\<close>

definition tlsRecord :: "bytes \<Rightarrow> bytes \<Rightarrow> bytes" where
  "tlsRecord vers payload = vers @ be_bytes 2 (length payload) @ payload"

lemma TLSFragment_records:
  assumes fs: "10 \<le> fragSize" "fragSize \<le> length header" and small: "length header < 65536"
  defines "vers \<equiv> take 3 header" and "f \<equiv> fragSize div 2"
  shows "TLSFragment header fragSize =
    Some (tlsRecord vers (take (f - 5) (drop 5 header)) @ tlsRecord vers (take (fragSize - f) (drop f header))
      @ tlsRecord vers (drop fragSize header))"
proof -
  have f: "5 \<le> f" "f \<le> fragSize" "f < 65536"
    using fs small by (simp_all add: f_def)
  let ?p1 = "take (f - 5) (drop 5 header)" and ?p2 = "take (fragSize - f) (drop f header)" and ?p3 = "drop fragSize header"
  let ?L = "length header"
  have lens: "length vers = 3" "length ?p1 = f - 5" "length ?p2 = fragSize - f" "length ?p3 = ?L - fragSize"
    using fs f by (auto simp: vers_def)
  have sl: "slice header 0 3 = Some vers" "slice header 5 f = Some ?p1" "slice header f fragSize = Some ?p2"
    "slice header fragSize ?L = Some ?p3"
    using fs f by (simp_all add: vers_def)
  have u: "u16 (f + 65536 - 5) = f - 5" "u16 (fragSize - f) = fragSize - f" "u16 (?L - fragSize) = ?L - fragSize"
  proof -
    have "f + 65536 - 5 = (f - 5) + 65536"
      using f by simp
    moreover have "u16 ((f - 5) + 65536) = f - 5"
      using f by (simp only: u16_def mod_add_self2) simp
    ultimately show "u16 (f + 65536 - 5) = f - 5"
      by (simp only:)
  qed (use small fs f in simp_all)
  let ?a1 = "vers" and ?a2 = "vers @ be_bytes 2 (f - 5)"
  let ?a3 = "?a2 @ ?p1"
  let ?a4 = "?a3 @ vers"
  let ?a5 = "?a4 @ be_bytes 2 (fragSize - f)"
  let ?a6 = "?a5 @ ?p2"
  let ?a7 = "?a6 @ vers"
  let ?a8 = "?a7 @ be_bytes 2 (?L - fragSize)"
  have s1: "copyFrom (replicate (?L + 10) 0) 0 vers = Some (?a1 @ replicate (?L + 7) 0)"
    using copyFrom_fill [of 0 "[]" vers "?L + 10"] lens by simp
  have s2: "put16 (?a1 @ replicate (?L + 7) 0) 3 (f - 5) = Some (?a2 @ replicate (?L + 5) 0)"
    using put16_fill [of 3 ?a1 "?L + 7" "f - 5"] lens by simp
  have s3: "copyFrom (?a2 @ replicate (?L + 5) 0) 5 ?p1 = Some (?a3 @ replicate (?L + 10 - f) 0)"
    using copyFrom_fill [of 5 ?a2 ?p1 "?L + 5"] lens fs f by simp
  have s4: "copyFrom (?a3 @ replicate (?L + 10 - f) 0) f vers = Some (?a4 @ replicate (?L + 7 - f) 0)"
    using copyFrom_fill [of f ?a3 vers "?L + 10 - f"] lens fs f by simp
  have s5: "put16 (?a4 @ replicate (?L + 7 - f) 0) (f + 3) (fragSize - f) = Some (?a5 @ replicate (?L + 5 - f) 0)"
    using put16_fill [of "f + 3" ?a4 "?L + 7 - f" "fragSize - f"] lens fs f by simp
  have s6: "copyFrom (?a5 @ replicate (?L + 5 - f) 0) (f + 5) ?p2 = Some (?a6 @ replicate (?L + 5 - fragSize) 0)"
    using copyFrom_fill [of "f + 5" ?a5 ?p2 "?L + 5 - f"] lens fs f by simp
  have s7: "copyFrom (?a6 @ replicate (?L + 5 - fragSize) 0) (fragSize + 5) vers = Some (?a7 @ replicate (?L + 2 - fragSize) 0)"
    using copyFrom_fill [of "fragSize + 5" ?a6 vers "?L + 5 - fragSize"] lens fs f by simp
  have s8: "put16 (?a7 @ replicate (?L + 2 - fragSize) 0) (fragSize + 8) (?L - fragSize) = Some (?a8 @ replicate (?L - fragSize) 0)"
    using put16_fill [of "fragSize + 8" ?a7 "?L + 2 - fragSize" "?L - fragSize"] lens fs f by simp
  have s9: "copyFrom (?a8 @ replicate (?L - fragSize) 0) (fragSize + 10) ?p3 = Some (?a8 @ ?p3)"
    using copyFrom_fill [of "fragSize + 10" ?a8 ?p3 "?L - fragSize"] lens fs f by simp
  have "TLSFragment header fragSize = Some (?a8 @ ?p3)"
    unfolding TLSFragment_def Let_def f_def [symmetric] u
    by (simp only: sl s1 s2 s3 s4 s5 s6 s7 s8 s9 Option.bind.bind_lunit)
  then show ?thesis
    unfolding tlsRecord_def lens by (simp only: append_assoc)
qed

lemma TLSFragment_payload:
  assumes "f \<le> fragSize" "5 \<le> f" "fragSize \<le> length header"
  shows "take (f - 5) (drop 5 header) @ take (fragSize - f) (drop f header) @ drop fragSize header = drop 5 header"
  using assms by (metis append_take_drop_id drop_drop le_add_diff_inverse2 le_trans)

subsection \<open>Where the names are\<close>

text \<open>The Host value lies inside the request, between the header name and its line end.\<close>

lemma GetHost_spec:
  assumes "GetHost b = (off, len)" and "0 < off"
  shows "off + len + 2 \<le> length b \<and> take 6 (drop (off - 6) b) = str ''Host: '' \<and> take 2 (drop (off + len) b) = CRLF"
proof -
  from assms obtain i where i: "indexOf (str ''Host: '') b = Some i" and off: "off = i + 6"
    and l: "indexOf CRLF (drop off b) = Some len"
    by (auto simp: GetHost_def Let_def split: option.splits)
  from indexOf_Some [OF i] indexOf_Some [OF l] show ?thesis
    by (auto simp add: off CRLF_def add.commute numeral_eq_Suc)
qed

lemma sniLoop_inside:
  "sniLoop h off e ech = (st, n, x) \<Longrightarrow> 0 < st \<Longrightarrow> off < st \<and> st + n < length h"
proof (induction h off e ech rule: sniLoop.induct)
  case (1 h off e ech)
  from "1.prems" "1.IH" [OF _ _ refl refl refl] show ?case
    by (auto simp: sniLoop.simps [of h off e ech] Let_def split: if_splits)
qed

text \<open>The server name lies inside the header that was read, strictly before its end.\<close>

lemma GetSNI_inside:
  assumes "GetSNI header = (off, len, ech)" and "0 < off"
  shows "43 < off \<and> off + len < length header"
proof -
  from assms obtain o1 e where "sniLoop header o1 e False = (off, len, ech)" "43 \<le> o1"
    by (auto simp: GetSNI_def Let_def split: if_splits)
  with sniLoop_inside [of header o1 e False off len ech] assms(2) show ?thesis
    by auto
qed


subsection \<open>A ClientHello, and finding its name\<close>

fun helloExtensions :: "(nat \<times> bytes) list \<Rightarrow> bytes" where
  "helloExtensions [] = []"
| "helloExtensions ((t, d) # es) = be_bytes 2 t @ be_bytes 2 (length d) @ d @ helloExtensions es"

definition serverNameData :: "gostr \<Rightarrow> bytes" where
  "serverNameData name = be_bytes 2 (length name + 3) @ [0] @ be_bytes 2 (length name) @ name"

definition clientHelloStart :: "bytes \<Rightarrow> bytes \<Rightarrow> bytes \<Rightarrow> bytes \<Rightarrow> bytes \<Rightarrow> bytes" where
  "clientHelloStart vers random sid ciphers cmpr =
    vers @ random @ [of_nat (length sid)] @ sid @ be_bytes 2 (length ciphers) @ ciphers
    @ [of_nat (length cmpr)] @ cmpr"

definition clientHelloBody :: "bytes \<Rightarrow> bytes \<Rightarrow> bytes \<Rightarrow> bytes \<Rightarrow> bytes \<Rightarrow> (nat \<times> bytes) list \<Rightarrow> bytes" where
  "clientHelloBody vers random sid ciphers cmpr es =
    clientHelloStart vers random sid ciphers cmpr
    @ be_bytes 2 (length (helloExtensions es)) @ helloExtensions es"

definition clientHello :: "bytes \<Rightarrow> bytes" where
  "clientHello body = [1] @ be_bytes 3 (length body) @ body"

definition helloRecord :: "bytes \<Rightarrow> bytes" where
  "helloRecord hello = [0x16, 3, 1] @ be_bytes 2 (length hello) @ hello"

lemma u16at_be: "length a = i \<Longrightarrow> v < 65536 \<Longrightarrow> u16at (a @ be_bytes 2 v @ z) i = v"
  by (simp add: u16at_def be_nat_be_bytes del: be_bytes.simps)

lemma length_helloExtensions_Cons:
  "length (helloExtensions (e # es)) = 4 + length (snd e) + length (helloExtensions es)"
  by (cases e) simp

lemma helloExtensions_append: "helloExtensions (es @ fs) = helloExtensions es @ helloExtensions fs"
  by (induction es rule: helloExtensions.induct) simp_all

lemma extensions_at:
  assumes "t < 65536" "length d < 65536" "length a = off"
  shows "u16at (a @ helloExtensions ((t, d) # es) @ z) off = t"
    and "u16at (a @ helloExtensions ((t, d) # es) @ z) (off + 2) = length d"
  using u16at_be [of a off t "be_bytes 2 (length d) @ d @ helloExtensions es @ z"]
    u16at_be [of "a @ be_bytes 2 t" "off + 2" "length d" "d @ helloExtensions es @ z"] assms
  by (simp_all del: be_bytes.simps)

lemma serverName_at:
  assumes "length name + 3 < 65536" "length a = off"
  shows "u16at (a @ helloExtensions ((0, serverNameData name) # es) @ z) (off + 7) = length name"
  using u16at_be [of "a @ be_bytes 2 0 @ be_bytes 2 (length (serverNameData name)) @ be_bytes 2 (length name + 3) @ [0]"
      "off + 7" "length name" "name @ helloExtensions es @ z"] assms
  by (simp add: serverNameData_def del: be_bytes.simps)

text \<open>One step of either walk: past an extension, or at the name.\<close>

lemma sniLoop_skip:
  "off < e \<Longrightarrow> off + 4 \<le> length h \<Longrightarrow> u16at h off = t \<Longrightarrow> t \<noteq> 0 \<Longrightarrow> u16at h (off + 2) = n \<Longrightarrow>
    sniLoop h off e ech = sniLoop h (off + 4 + n) e (t = 65037 \<or> ech)"
  by (subst sniLoop.simps) (auto simp: Let_def)

lemma sniLoop_hit:
  "off < e \<Longrightarrow> u16at h off = 0 \<Longrightarrow> u16at h (off + 7) = n \<Longrightarrow> off + 9 + n < length h \<Longrightarrow>
    sniLoop h off e ech = (off + 9, n, ech)"
  by (subst sniLoop.simps) (auto simp: Let_def add.commute)

lemma sniLoop_cut:
  "off < e \<Longrightarrow> off + 9 \<le> length h \<Longrightarrow> u16at h off = 0 \<Longrightarrow> u16at h (off + 7) = n \<Longrightarrow> length h \<le> off + 9 + n \<Longrightarrow>
    sniLoop h off e ech = (0, 0, ech)"
  by (subst sniLoop.simps) (auto simp: Let_def add.commute)

lemma sniExtensions_skip:
  "off + 4 + n \<le> e \<Longrightarrow> u16at h off = t \<Longrightarrow> t \<noteq> 0 \<Longrightarrow> u16at h (off + 2) = n \<Longrightarrow>
    sniExtensions h off e = sniExtensions h (off + 4 + n) e"
  by (subst sniExtensions.simps) (auto simp: Let_def u16at_def)

lemma sniExtensions_hit:
  "off + 4 + k \<le> e \<Longrightarrow> u16at h off = 0 \<Longrightarrow> u16at h (off + 2) = k \<Longrightarrow> u16at h (off + 7) = n \<Longrightarrow>
    0 < n \<Longrightarrow> n + 5 \<le> k \<Longrightarrow> sniExtensions h off e = Some (off + 9, n)"
  by (subst sniExtensions.simps) (auto simp: Let_def u16at_def add.commute)

lemma length_serverNameData [simp]: "length (serverNameData name) = length name + 5"
  by (simp add: serverNameData_def)

text \<open>
  Both walks find the name behind any extensions of other types. The walk of the TLS
  code needs a byte after the name; without one it finds none.
\<close>

lemma walks_find:
  assumes "\<forall>(t, d) \<in> set pre. t \<noteq> 0 \<and> t < 65536 \<and> length d < 65536"
    and name: "length name + 5 < 65536" and "length a = off"
    and "h = a @ helloExtensions (pre @ (0, serverNameData name) # post) @ z"
    and "e = off + length (helloExtensions (pre @ (0, serverNameData name) # post))"
  shows "(e < length h \<or> post \<noteq> [] \<longrightarrow>
      sniLoop h off e ech = (off + length (helloExtensions pre) + 9, length name, ech \<or> (\<exists>(t, d) \<in> set pre. t = 65037)))
    \<and> (z = [] \<and> post = [] \<longrightarrow> sniLoop h off e ech = (0, 0, ech \<or> (\<exists>(t, d) \<in> set pre. t = 65037)))
    \<and> (name \<noteq> [] \<longrightarrow> sniExtensions h off e = Some (off + length (helloExtensions pre) + 9, length name))"
  using assms(1,3-)
proof (induction pre arbitrary: a off ech)
  case Nil
  have len: "e = off + 9 + length name + length (helloExtensions post)" "length h = e + length z"
    using Nil.prems by simp_all
  have u: "u16at h off = 0" "u16at h (off + 2) = length name + 5" "u16at h (off + 7) = length name"
    using extensions_at [of 0 "serverNameData name" a off post z] serverName_at [of name a off post z] Nil.prems name
    by simp_all
  have "post \<noteq> [] \<longrightarrow> 0 < length (helloExtensions post)"
    by (cases post) (simp_all add: length_helloExtensions_Cons del: helloExtensions.simps(2))
  then have more: "e < length h \<or> post \<noteq> [] \<longrightarrow> off + 9 + length name < length h"
    using len by auto
  have "z = [] \<and> post = [] \<longrightarrow> length h = off + 9 + length name"
    using len by auto
  then have none: "z = [] \<and> post = [] \<longrightarrow> sniLoop h off e ech = (0, 0, ech)"
    using sniLoop_cut [OF _ _ u(1,3), of e ech] len(1) by auto
  show ?case
    using sniLoop_hit [OF _ u(1,3), of e ech] more none sniExtensions_hit [OF _ u, of e] len(1) by simp
next
  case (Cons x pre)
  obtain t d where x: "x = (t, d)" by (cases x)
  let ?tail = "pre @ (0, serverNameData name) # post"
  from Cons.prems have td: "t \<noteq> 0" "t < 65536" "length d < 65536"
    and pre: "\<forall>(t, d) \<in> set pre. t \<noteq> 0 \<and> t < 65536 \<and> length d < 65536" by (auto simp: x)
  have h: "h = a @ helloExtensions ((t, d) # ?tail) @ z"
    using Cons.prems(3) by (simp add: x)
  have u: "u16at h off = t" "u16at h (off + 2) = length d"
    using extensions_at [OF td(2,3) Cons.prems(2), of ?tail z] by (simp_all only: h)
  let ?a = "a @ be_bytes 2 t @ be_bytes 2 (length d) @ d"
  have la: "length ?a = off + 4 + length d" and ha: "h = ?a @ helloExtensions ?tail @ z"
    and e: "e = off + 4 + length d + length (helloExtensions ?tail)"
    using Cons.prems(2-) by (simp_all add: x)
  have l: "off < e" "off + 4 \<le> length h" "off + 4 + length d \<le> e"
    using la ha e by auto
  from Cons.IH [OF pre la ha e, of "t = 65037 \<or> ech"]
    sniLoop_skip [OF l(1,2) u(1) td(1) u(2), of ech] sniExtensions_skip [OF l(3) u(1) td(1) u(2)]
  show ?case
    by (auto simp: x)
qed

subsection \<open>The whole ClientHello\<close>

definition helloFits :: "bytes \<Rightarrow> bytes \<Rightarrow> bytes \<Rightarrow> bytes \<Rightarrow> bytes \<Rightarrow> (nat \<times> bytes) list \<Rightarrow> bool" where
  "helloFits vers random sid ciphers cmpr es \<longleftrightarrow>
    length vers = 2 \<and> length random = 32 \<and> length sid < 256 \<and> length ciphers < 65536 \<and> length cmpr < 256
    \<and> length (helloExtensions es) < 65536"

text \<open>The fields of a ClientHello body that starts at offset \<open>i\<close> of a buffer.\<close>

lemma hello_fields:
  assumes fit: "helloFits vers random sid ciphers cmpr es" and i: "length a = i"
    and h: "h = a @ clientHelloBody vers random sid ciphers cmpr es @ z"
  defines "s \<equiv> i + 34" and "c \<equiv> i + 35 + length sid" and "k \<equiv> i + 37 + length sid + length ciphers"
    and "x \<equiv> i + 38 + length sid + length ciphers + length cmpr"
  shows "unat (h ! s) = length sid" and "be_nat (take 2 (drop c h)) = length ciphers"
    and "unat (h ! k) = length cmpr" and "be_nat (take 2 (drop x h)) = length (helloExtensions es)"
    and "x + 2 + length (helloExtensions es) + length z = length h"
    and "h = (a @ clientHelloStart vers random sid ciphers cmpr @ be_bytes 2 (length (helloExtensions es)))
            @ helloExtensions es @ z"
    and "length (a @ clientHelloStart vers random sid ciphers cmpr @ be_bytes 2 (length (helloExtensions es))) = x + 2"
proof -
  have lens: "length vers = 2" "length random = 32" "length sid < 256" "length ciphers < 65536" "length cmpr < 256"
    "length (helloExtensions es) < 65536"
    using fit by (auto simp: helloFits_def)
  let ?e = "helloExtensions es"
  have H: "h = a @ vers @ random @ of_nat (length sid) # sid @ be_bytes 2 (length ciphers) @ ciphers
      @ of_nat (length cmpr) # cmpr @ be_bytes 2 (length ?e) @ ?e @ z"
    by (simp add: h clientHelloBody_def clientHelloStart_def del: be_bytes.simps)
  have "h ! s = of_nat (length sid)"
    unfolding H s_def using nth_at [of "a @ vers @ random" "i + 34"] lens i by simp
  then show "unat (h ! s) = length sid"
    using lens by simp
  show "be_nat (take 2 (drop c h)) = length ciphers"
    using u16at_be [of "a @ vers @ random @ of_nat (length sid) # sid" c "length ciphers"] lens i
    by (simp add: H c_def u16at_def del: be_bytes.simps)
  have "h ! k = of_nat (length cmpr)"
    unfolding H k_def
    using nth_at [of "a @ vers @ random @ of_nat (length sid) # sid @ be_bytes 2 (length ciphers) @ ciphers"
      "i + 37 + length sid + length ciphers"] lens i by simp
  then show "unat (h ! k) = length cmpr"
    using lens by simp
  show "be_nat (take 2 (drop x h)) = length ?e"
    using u16at_be [of "a @ vers @ random @ of_nat (length sid) # sid @ be_bytes 2 (length ciphers) @ ciphers
      @ of_nat (length cmpr) # cmpr" x "length ?e"] lens i
    by (simp add: H x_def u16at_def del: be_bytes.simps)
  show "x + 2 + length ?e + length z = length h"
    using lens i by (simp add: H x_def)
  show "h = (a @ clientHelloStart vers random sid ciphers cmpr @ be_bytes 2 (length ?e)) @ ?e @ z"
    by (simp add: h clientHelloBody_def)
  show "length (a @ clientHelloStart vers random sid ciphers cmpr @ be_bytes 2 (length ?e)) = x + 2"
    using lens i by (simp add: x_def clientHelloStart_def)
qed


text \<open>The extensions before, at and after the server name.\<close>

definition namedExtensions :: "(nat \<times> bytes) list \<Rightarrow> gostr \<Rightarrow> (nat \<times> bytes) list \<Rightarrow> (nat \<times> bytes) list" where
  "namedExtensions pre name post = pre @ (0, serverNameData name) # post"

definition nameOffset :: "nat \<Rightarrow> bytes \<Rightarrow> bytes \<Rightarrow> bytes \<Rightarrow> (nat \<times> bytes) list \<Rightarrow> nat" where
  "nameOffset i sid ciphers cmpr pre =
    i + 49 + length sid + length ciphers + length cmpr + length (helloExtensions pre)"

lemma name_at:
  assumes fit: "helloFits vers random sid ciphers cmpr (namedExtensions pre name post)" and i: "length a = i"
    and h: "h = a @ clientHelloBody vers random sid ciphers cmpr (namedExtensions pre name post) @ z"
  shows "take (length name) (drop (nameOffset i sid ciphers cmpr pre) h) = name"
proof -
  let ?a = "a @ clientHelloStart vers random sid ciphers cmpr
    @ be_bytes 2 (length (helloExtensions (namedExtensions pre name post))) @ helloExtensions pre
    @ be_bytes 2 0 @ be_bytes 2 (length name + 5) @ be_bytes 2 (length name + 3) @ [0] @ be_bytes 2 (length name)"
  have "h = ?a @ name @ helloExtensions post @ z"
    by (simp add: h clientHelloBody_def namedExtensions_def helloExtensions_append serverNameData_def numeral_eq_Suc
        del: be_bytes.simps)
  moreover have "length ?a = nameOffset i sid ciphers cmpr pre"
    using fit i by (simp add: nameOffset_def clientHelloStart_def helloFits_def del: be_bytes.simps)
  ultimately show ?thesis
    using take_drop_append_middle by metis
qed

lemma preFits:
  assumes "length (helloExtensions (pre @ (0, serverNameData name) # post)) < 65536"
    and "\<forall>(t, d) \<in> set pre. t \<noteq> 0 \<and> t < 65536"
  shows "(\<forall>(t, d) \<in> set pre. t \<noteq> 0 \<and> t < 65536 \<and> length d < 65536) \<and> length name + 5 < 65536"
proof -
  have "length d \<le> length (helloExtensions pre)" if "(t, d) \<in> set pre" for t d
    using that by (induction pre rule: helloExtensions.induct) auto
  with assms show ?thesis
    by (fastforce simp: helloExtensions_append)
qed

lemma sniHostNameRange_finds:
  assumes fit: "helloFits vers random sid ciphers cmpr (namedExtensions pre name post)"
    and pre: "\<forall>(t, d) \<in> set pre. t \<noteq> 0 \<and> t < 65536" and name: "name \<noteq> []"
  shows "sniHostNameRange (clientHello (clientHelloBody vers random sid ciphers cmpr (namedExtensions pre name post)) @ z)
    = Some (nameOffset 4 sid ciphers cmpr pre, length name)"
proof -
  let ?es = "namedExtensions pre name post"
  let ?b = "clientHelloBody vers random sid ciphers cmpr ?es"
  define a where "a = 1 # be_bytes 3 (length ?b)"
  define h where "h = clientHello ?b @ z"
  have la: "length a = 4" and ha: "h = a @ ?b @ z"
    by (simp_all add: a_def h_def clientHello_def del: be_bytes.simps)
  note f = hello_fields [OF fit la ha]
  have h0: "h ! 0 = 1" "0 < length h"
    by (simp_all add: ha a_def del: be_bytes.simps)
  from fit have les: "length (helloExtensions ?es) < 65536"
    by (simp add: helloFits_def)
  note pf = preFits [OF les [unfolded namedExtensions_def] pre]
  define x where "x = 4 + 38 + length sid + length ciphers + length cmpr + 2"
  have ex: "sniExtensions h x (x + length (helloExtensions ?es)) = Some (nameOffset 4 sid ciphers cmpr pre, length name)"
    using walks_find [OF conjunct1 [OF pf] conjunct2 [OF pf] _ f(6) [unfolded namedExtensions_def], of x] f(7) name
    by (simp add: x_def nameOffset_def namedExtensions_def)
  show ?thesis
    using f(1-5) h0 ex
    by (simp add: sniHostNameRange_def Let_def x_def ac_simps flip: h_def)
qed

text \<open>A name that ends where the record ends, and the data with it, is not found.\<close>

lemma GetSNI_name:
  assumes fit: "helloFits vers random sid ciphers cmpr (namedExtensions pre name post)"
    and pre: "\<forall>(t, d) \<in> set pre. t \<noteq> 0 \<and> t < 65536"
    and hl: "hl = clientHello (clientHelloBody vers random sid ciphers cmpr (namedExtensions pre name post))"
    and lh: "length hl < 65536"
  shows "GetSNI (helloRecord hl @ z)
    = (if post \<noteq> [] \<or> z \<noteq> [] then (nameOffset 9 sid ciphers cmpr pre, length name, \<exists>(t, d) \<in> set pre. t = 65037)
       else (0, 0, \<exists>(t, d) \<in> set pre. t = 65037))"
proof -
  let ?es = "namedExtensions pre name post"
  let ?b = "clientHelloBody vers random sid ciphers cmpr ?es"
  let ?r = "if post \<noteq> [] \<or> z \<noteq> [] then (nameOffset 9 sid ciphers cmpr pre, length name, \<exists>(t, d) \<in> set pre. t = 65037)
       else (0, 0, \<exists>(t, d) \<in> set pre. t = 65037)"
  define a where "a = [0x16, 3, 1] @ be_bytes 2 (length hl) @ [1] @ be_bytes 3 (length ?b)"
  define h where "h = helloRecord hl @ z"
  have la: "length a = 9" and ha: "h = a @ ?b @ z"
    by (simp_all add: a_def h_def helloRecord_def hl clientHello_def del: be_bytes.simps)
  note f = hello_fields [OF fit la ha]
  have t: "\<not> notTLS h"
    by (simp add: notTLS_def u16at_def h_def helloRecord_def be_nat_two)
  have l3: "u16at h 3 = length hl" "length h = 5 + length hl + length z"
    using u16at_be [of "[0x16, 3, 1]" 3 "length hl" "hl @ z"] lh
    by (simp_all add: h_def helloRecord_def del: be_bytes.simps)
  from fit have les: "length (helloExtensions ?es) < 65536"
    by (simp add: helloFits_def)
  note pf = preFits [OF les [unfolded namedExtensions_def] pre]
  define x where "x = 9 + 38 + length sid + length ciphers + length cmpr + 2"
  have end': "x + length (helloExtensions ?es) < length h \<or> post \<noteq> []" if "post \<noteq> [] \<or> z \<noteq> []"
    using f(5) that by (cases z) (auto simp: x_def)
  have ex: "sniLoop h x (x + length (helloExtensions ?es)) False = ?r"
    using walks_find [OF conjunct1 [OF pf] conjunct2 [OF pf] _ f(6) [unfolded namedExtensions_def], of x _ False] f(7) end'
    by (auto simp add: x_def nameOffset_def namedExtensions_def add.assoc)
  have l: "\<not> int (length h) \<le> int (u16at h 3) - 5"
    using l3 by simp
  have "9 \<le> length (helloExtensions ?es)"
    by (simp add: namedExtensions_def helloExtensions_append del: be_bytes.simps)
  then show ?thesis
    using f(1-5) t l ex unfolding GetSNI_def Let_def h_def [symmetric]
    by (simp add: x_def u16at_def ac_simps)
qed

lemma GetSNI_finds:
  assumes fit: "helloFits vers random sid ciphers cmpr (namedExtensions pre name post)"
    and pre: "\<forall>(t, d) \<in> set pre. t \<noteq> 0 \<and> t < 65536"
    and more: "post \<noteq> [] \<or> z \<noteq> []"
    and hl: "hl = clientHello (clientHelloBody vers random sid ciphers cmpr (namedExtensions pre name post))"
    and lh: "length hl < 65536"
  shows "GetSNI (helloRecord hl @ z)
    = (nameOffset 9 sid ciphers cmpr pre, length name, \<exists>(t, d) \<in> set pre. t = 65037)"
  unfolding GetSNI_name [OF fit pre hl lh] using more by simp

end
