(* ===== verification/Quic_First_Flight.thy ===== *)
theory Quic_First_Flight
  imports Quic_Properties Hello_Names
begin

text \<open>
  The composition of the QUIC parts: the client's first packet, cut in two by the rewriter,
  is what a collector (of the proxy, or of the server) puts together again, in either order.
\<close>

subsection \<open>The Initial packets of a client\<close>

definition sealedInitial ::
  "nat \<Rightarrow> bytes \<Rightarrow> bytes \<Rightarrow> bytes \<Rightarrow> nat \<Rightarrow> nat \<Rightarrow> bytes \<Rightarrow> bytes \<times> bytes \<times> bytes \<Rightarrow> bytes \<Rightarrow> bool" where
  "sealedInitial version dcid scid token pn n plaintext keys packet \<longleftrightarrow>
    version \<noteq> 0 \<and> version < 2 ^ 32
    \<and> length dcid \<le> 20 \<and> length scid \<le> 20 \<and> length token < 2 ^ 62 \<and> length plaintext < 2 ^ 61
    \<and> 1 \<le> n \<and> n \<le> 4 \<and> pn < 2 ^ 62
    \<and> (case keys of (key, iv, hp) \<Rightarrow> length key = 16 \<and> length hp = 16
        \<and> encryptInitialWithPNLen version dcid scid token pn n plaintext key iv hp = Inr packet)"

definition clientInitial ::
  "nat \<Rightarrow> bytes \<Rightarrow> bytes \<Rightarrow> bytes \<Rightarrow> nat \<Rightarrow> nat \<Rightarrow> bytes \<Rightarrow> bytes \<Rightarrow> bool" where
  "clientInitial version dcid scid token pn n plaintext packet \<longleftrightarrow>
    (\<exists>keys. quicInitialSecrets version dcid = Some keys
      \<and> sealedInitial version dcid scid token pn n plaintext keys packet)"

lemma secrets_fit:
  "initialSecrets version dcid server = Some (key, iv, hp) \<Longrightarrow>
    version \<noteq> 0 \<and> version < 2 ^ 32 \<and> length key = 16 \<and> length hp = 16"
  using initialSecrets_keys [of version dcid server key iv hp] quicVersionSalt_versions
  by (auto simp: initialSecrets_def split: option.splits)

lemma sealedInitial_exists:
  assumes "initialSecrets version d server = Some (key, iv, hp)" and "length dcid \<le> 20" "length scid \<le> 20"
    and "length token < 2 ^ 62" "length plaintext < 2 ^ 61"
    and "1 \<le> n" "n \<le> 4" "pn < 2 ^ 62" "4 \<le> n + length plaintext"
  shows "\<exists>packet. sealedInitial version dcid scid token pn n plaintext (key, iv, hp) packet"
proof -
  note k = secrets_fit [OF assms(1)]
  from encryptInitialWithPNLen_ok [OF assms(6,7) _ _ assms(9), of key hp version dcid scid token pn iv] k
  show ?thesis
    using assms by (auto simp: sealedInitial_def)
qed

lemma clientInitial_exists:
  assumes "quicVersionSalt version = Some salt" and "length dcid \<le> 20" "length scid \<le> 20"
    and "length token < 2 ^ 62" "length plaintext < 2 ^ 61"
    and "1 \<le> n" "n \<le> 4" "pn < 2 ^ 62" "4 \<le> n + length plaintext"
  shows "\<exists>packet. clientInitial version dcid scid token pn n plaintext packet"
proof -
  obtain key iv hp where k: "initialSecrets version dcid False = Some (key, iv, hp)"
    using secrets_exist [OF assms(1)] by blast
  from sealedInitial_exists [OF k assms(2-9)] show ?thesis
    using k by (auto simp: clientInitial_def quicInitialSecrets_def)
qed

lemma sealedInitial_parts:
  assumes c: "sealedInitial version dcid scid token pn n plaintext (key, iv, hp) packet"
  obtains pkt where
    "parseInitialPacket packet = Inr pkt" "pkt_version pkt = version" "pkt_dcid pkt = dcid"
    "pkt_scid pkt = scid" "pkt_token pkt = token" "headerFits pkt" "pkt_packetLen pkt = length packet"
    "length packet = initialSize pkt n (length plaintext)"
    "quicLongPacketEnd packet = Inr (0, length packet)" "packet ! 0 AND 0x80 \<noteq> 0" "packet \<noteq> []"
    "\<And>expected. inWindow pn n expected \<Longrightarrow>
       decryptInitialWithExpected packet key iv hp expected = Inr (plaintext, pn, n)"
proof -
  from c have enc: "encryptInitialWithPNLen version dcid scid token pn n plaintext key iv hp = Inr packet"
    and keys: "length key = 16" "length hp = 16" and v: "version \<noteq> 0" "version < 2 ^ 32"
    and ids: "length dcid \<le> 20" "length scid \<le> 20" and tok: "length token < 2 ^ 62"
    and pl: "length plaintext < 2 ^ 61" and n: "1 \<le> n" "n \<le> 4" and pn: "pn < 2 ^ 62"
    by (auto simp: sealedInitial_def)
  have ids': "length dcid < 256" "length scid < 256"
    using ids by auto
  define h where "h = initialHeader version dcid scid token n (length plaintext)"
  note ep = encrypted_packet [OF v(2) ids' tok pl n keys(1) h_def refl refl enc]
  define pkt where "pkt = \<lparr>pkt_version = version, pkt_dcid = dcid, pkt_scid = scid, pkt_token = token,
        pkt_pnOffset = length h, pkt_payloadLen = n + length plaintext + 16, pkt_packetLen = length packet\<rparr>"
  have p: "parseInitialPacket packet = Inr pkt"
    using ep(2) [of "[]"] ep(3) by (simp add: pkt_def)
  have e: "quicLongPacketEnd packet = Inr (0, length packet)" and long: "packet ! 0 AND 0x80 \<noteq> 0"
    using quicLongPacketEnd_parse [OF p] ids v by (simp_all add: pkt_def)
  have ne: "packet \<noteq> []"
    using e quicLongPacketEnd_bounds by auto
  have d: "inWindow pn n expected \<Longrightarrow>
       decryptInitialWithExpected packet key iv hp expected = Inr (plaintext, pn, n)" for expected
    using decrypt_encrypt [OF v(2) ids' tok pl n keys(1) _ _ pn _ enc, of expected "[]"]
    by (simp add: inWindow_def)
  have fields: "pkt_version pkt = version" "pkt_dcid pkt = dcid" "pkt_scid pkt = scid" "pkt_token pkt = token"
    "headerFits pkt" "pkt_packetLen pkt = length packet"
    using v ids' tok by (simp_all add: headerFits_def pkt_def)
  have "length packet = initialSize pkt n (length plaintext)"
    using ep(3) by (simp add: initialSize_def fields(1-4) h_def)
  from that [OF p fields this e long ne d] show ?thesis .
qed

lemma clientInitial_parts:
  assumes "clientInitial version dcid scid token pn n plaintext packet"
  obtains key iv hp pkt where "quicInitialSecrets version dcid = Some (key, iv, hp)"
    "length key = 16" "length hp = 16" "version \<noteq> 0" "version < 2 ^ 32"
    "parseInitialPacket packet = Inr pkt" "pkt_version pkt = version" "pkt_dcid pkt = dcid"
    "pkt_scid pkt = scid" "pkt_token pkt = token" "headerFits pkt"
    "quicLongPacketEnd packet = Inr (0, length packet)" "packet ! 0 AND 0x80 \<noteq> 0" "packet \<noteq> []"
    "\<And>expected. inWindow pn n expected \<Longrightarrow>
       decryptInitialWithExpected packet key iv hp expected = Inr (plaintext, pn, n)"
proof -
  from assms obtain key iv hp where k: "quicInitialSecrets version dcid = Some (key, iv, hp)"
    and c: "sealedInitial version dcid scid token pn n plaintext (key, iv, hp) packet"
    by (auto simp: clientInitial_def)
  have s: "length key = 16" "length hp = 16" "version \<noteq> 0" "version < 2 ^ 32"
    using c by (simp_all add: sealedInitial_def)
  show ?thesis
    by (rule sealedInitial_parts [OF c]) (rule that [OF k s])
qed

text \<open>One packet in a datagram of its own, offered to a collector of the same connection.\<close>

definition sameConnection :: "quicInitialCollector \<Rightarrow> nat \<Rightarrow> bytes \<Rightarrow> bool" where
  "sameConnection col version dcid \<longleftrightarrow>
    col_version col = 0 \<or> col_version col = version \<and> col_dcid col = dcid"

lemma collectorAdd_client:
  assumes c: "clientInitial version dcid scid token pn n plaintext packet"
    and same: "sameConnection col version dcid" and win: "inWindow pn n (col_expected col)"
    and m: "mergeInitialCryptoFrames plaintext (col_stream col) (col_covered col) = (None, stream, covered)"
  shows "collectorAdd col packet =
    (Inr (streamSNI (contiguousCryptoStream stream covered), pn),
     \<lparr>col_version = version, col_dcid = dcid, col_expected = max (col_expected col) (pn + 1),
      col_stream = stream, col_covered = covered\<rparr>)"
proof -
  have pn: "pn < 2 ^ 62"
    using c by (auto simp: clientInitial_def sealedInitial_def)
  from clientInitial_parts [OF c] obtain key iv hp pkt where
    k: "quicInitialSecrets version dcid = Some (key, iv, hp)" and v: "version \<noteq> 0"
    and p: "parseInitialPacket packet = Inr pkt" and f: "pkt_version pkt = version" "pkt_dcid pkt = dcid"
    and e: "quicLongPacketEnd packet = Inr (0, length packet)" "packet ! 0 AND 0x80 \<noteq> 0" "packet \<noteq> []"
    and d: "decryptInitialWithExpected packet key iv hp (col_expected col) = Inr (plaintext, pn, n)"
    using win by metis
  let ?col = "\<lparr>col_version = version, col_dcid = dcid, col_expected = max (col_expected col) (pn + 1),
      col_stream = stream, col_covered = covered\<rparr>"
  have sw: "collectorSwitch col pkt = col"
    using same f by (auto simp: collectorSwitch_def sameConnection_def)
  have noted: "collectorNote col pkt pn = col\<lparr>col_version := version, col_dcid := dcid,
      col_expected := max (col_expected col) (pn + 1)\<rparr>"
    using same f pn by (auto simp: collectorNote_def sameConnection_def Let_def)
  have cp: "collectorPacket col packet = (Inr pn, ?col)"
    using k m by (simp add: collectorPacket_def p f sw noted d)
  have "collectorLoop col packet 0 18446744073709551615 False = (Inr pn, ?col)"
    using e cp pn
    by (subst collectorLoop.simps) (simp add: collectorLoop.simps [of _ packet "length packet"])
  from collectorAdd_result [OF this] show ?thesis
    by (simp add: collectorStream_def)
qed

subsection \<open>Cutting a ClientHello\<close>

lemma frameEnd_build:
  assumes "start + length data \<le> quicUDPPacketSize"
  shows "frameEnd (buildCryptoFrame start data @ z) 0 = Inr (length (buildCryptoFrame start data))"
    and "varintAt (buildCryptoFrame start data @ z) (Suc 0) = Inr (start, 1 + length (writeVarint start))"
    and "varintAt (buildCryptoFrame start data @ z) (1 + length (writeVarint start))
      = Inr (length data, 1 + length (writeVarint start) + length (writeVarint (length data)))"
proof -
  let ?d = "buildCryptoFrame start data @ z"
  have small: "start < 4611686018427387904" "length data < 4611686018427387904"
    using assms by (simp_all add: quicUDPPacketSize_def)
  show 1: "varintAt ?d (Suc 0) = Inr (start, 1 + length (writeVarint start))"
    using small varintAt_at [where a = "[0x06]" and z = "writeVarint (length data) @ data @ z" and v = start]
    by (simp add: buildCryptoFrame_def)
  show 2: "varintAt ?d (1 + length (writeVarint start)) =
      Inr (length data, 1 + length (writeVarint start) + length (writeVarint (length data)))"
    using small varintAt_at [where a = "[0x06] @ writeVarint start" and z = "data @ z" and v = "length data"]
    by (simp add: buildCryptoFrame_def)
  show "frameEnd ?d 0 = Inr (length (buildCryptoFrame start data))"
    using 1 2 by (simp add: frameEnd_def frameRest_def) (simp add: buildCryptoFrame_def)
qed

lemma splitLoop_build:
  assumes "start + length data \<le> quicUDPPacketSize"
  shows "splitLoop (buildCryptoFrame start data) 0 [] [] 0 = Some ([], [(start, data)], start + length data)"
proof -
  let ?d = "buildCryptoFrame start data"
  note f = frameEnd_build [OF assms, of "[]", simplified]
  have "take (length data) (drop (1 + length (writeVarint start) + length (writeVarint (length data))) ?d) = data"
    "?d \<noteq> []" "?d ! 0 = 0x06"
    "length ?d = 1 + length (writeVarint start) + length (writeVarint (length data)) + length data"
    by (simp_all add: buildCryptoFrame_def)
  moreover have "splitLoop ?d (length ?d) first segs m = Some (first, segs, m)" for first segs m
    by (simp add: splitLoop.simps)
  moreover have "\<not> 18446744073709551615 - length data < start"
    using assms by (simp add: quicUDPPacketSize_def)
  ultimately show ?thesis
    using f by (auto simp: splitLoop.simps [of ?d 0])
qed

lemma mergeBytes_fresh:
  assumes "length data = m"
  shows "mergeBytes data 0 (replicate m 0) (replicate m False) = (None, data, replicate m True)"
proof -
  obtain r s c where m: "mergeBytes data 0 (replicate m 0) (replicate m False) = (r, s, c)"
    by (cases "mergeBytes data 0 (replicate m 0) (replicate m False)")
  have "clean (replicate m 0) (replicate m False)"
    by (simp add: clean_def)
  from mergeBytes_spec [OF _ _ this m] assms have "r = None \<and> clean s c \<and> length c = m
    \<and> (r = None \<longrightarrow> received s c = segmentMap (0, data) \<and> s = data)"
    by (auto simp: received_fresh compat_def copy_at_def)
  then have M: "r = None" "clean s c" "length c = m" "received s c = segmentMap (0, data)" "s = data"
    by auto
  moreover have "received s c = received data (replicate m True)"
    unfolding M(4) using assms by (intro ext) (simp add: segmentMap.simps received_def)
  ultimately show ?thesis
    using clean_determined [of s c data "replicate m True"] m assms by (simp add: clean_def)
qed

lemma split_hello:
  assumes sni: "sniHostNameRange hello = Some (st, len)" and len: "1 < len"
    and size: "length hello \<le> quicUDPPacketSize"
  shows "splitInitialCryptoFrames (buildCryptoFrame 0 hello) =
    Some (buildCryptoFrame 0 (take (st + len div 2) hello), buildCryptoFrame (st + len div 2) (drop (st + len div 2) hello))"
proof -
  have b: "38 < st" "st + len \<le> length hello"
    using sniHostNameRange_bounds [OF sni] by auto
  have "length hello \<le> length (buildCryptoFrame 0 hello)"
    by (simp add: buildCryptoFrame_def)
  then show ?thesis
    using sni len size b splitLoop_build [of 0 hello] mergeBytes_fresh [of hello "length hello"]
    by (simp add: splitInitialCryptoFrames_def list_all_length Let_def)
qed

subsection \<open>The two datagrams\<close>

lemma encryptPaddedInitial_client:
  assumes f: "headerFits pkt" "length (pkt_dcid pkt) \<le> 20" "length (pkt_scid pkt) \<le> 20"
    and k: "quicInitialSecrets (pkt_version pkt) (pkt_dcid pkt) = Some (key, iv, hp)"
    and n: "1 \<le> n" "n \<le> 4" and pn: "pn < 2 ^ 62"
    and l: "4 \<le> n + length plaintext" "length plaintext \<le> 2 * quicUDPPacketSize"
  shows "\<exists>p k. encryptPaddedInitial pkt pn n plaintext key iv hp other = Inr p
    \<and> clientInitial (pkt_version pkt) (pkt_dcid pkt) (pkt_scid pkt) (pkt_token pkt) pn n (padded plaintext k) p
    \<and> quicMinimumInitialDatagramSize \<le> length p + other"
proof -
  have "length key = 16" "length hp = 16"
    using k initialSecrets_keys by (auto simp: quicInitialSecrets_def)
  from encryptPaddedInitial_ok [OF n this l(1), of pkt pn iv other] obtain p kk where
    "encryptPaddedInitial pkt pn n plaintext key iv hp other = Inr p"
    "encryptInitialWithPNLen (pkt_version pkt) (pkt_dcid pkt) (pkt_scid pkt) (pkt_token pkt) pn n
        (padded plaintext kk) key iv hp = Inr p"
    "quicMinimumInitialDatagramSize \<le> length p + other" "kk \<le> quicMinimumInitialDatagramSize"
    by blast
  moreover have "length (padded plaintext kk) < 2 ^ 61"
    using l(2) calculation(4) by (simp add: quicUDPPacketSize_def quicMinimumInitialDatagramSize_def)
  ultimately show ?thesis
    using f k n pn secrets_fit [of "pkt_version pkt" "pkt_dcid pkt" False key iv hp]
    by (auto simp: clientInitial_def sealedInitial_def headerFits_def quicInitialSecrets_def)
qed

lemma locate_alone:
  assumes "quicLongPacketEnd packet = Inr (0, length packet)" "packet ! 0 AND 0x80 \<noteq> 0" "packet \<noteq> []"
  shows "locateQUICInitial packet = Inr (Some ([], packet, []))"
  using assms by (simp add: locateQUICInitial_def locateLoop.simps [of packet 0])

text \<open>The merge of a padded piece of the stream, alone and after the other piece.\<close>

lemma merge_build:
  assumes "start + length data \<le> quicUDPPacketSize"
  shows "mergeInitialCryptoFrames (padded (buildCryptoFrame start data) i) s c = mergeSegments [(start, data)] s c"
  using mergeLoop_segments [of "padded (buildCryptoFrame start data) i" 0 s c]
    cryptoSegments_build [OF assms, of "[]" i]
  by (simp add: mergeInitialCryptoFrames_def padded_def)

lemma merge_first:
  assumes "k \<le> length s" "length s \<le> quicUDPPacketSize"
  shows "\<exists>c. mergeInitialCryptoFrames (padded (buildCryptoFrame 0 (take k s)) i) [] [] = (None, take k s, c)
    \<and> length c = k
    \<and> mergeInitialCryptoFrames (padded (buildCryptoFrame k (drop k s)) j) (take k s) c
      = (None, s, replicate (length s) True)"
proof -
  from mergeSegments_split [OF assms(1)] obtain c where
    1: "mergeSegments [(0, take k s)] [] [] = (None, take k s, c)"
    and 2: "mergeSegments [(k, drop k s)] (take k s) c = (None, s, replicate (length s) True)"
    by (elim exE conjE) (simp only:)
  from mergeSegments_spec [OF clean_Nil 1] have "clean (take k s) c"
    by blast
  then have "length c = k"
    using assms(1) by (simp add: clean_def)
  with 1 2 assms show ?thesis
    by (simp add: merge_build)
qed

lemma merge_second:
  assumes k: "0 < k" "k < length s" "length s \<le> quicUDPPacketSize"
  shows "\<exists>t d. mergeInitialCryptoFrames (padded (buildCryptoFrame k (drop k s)) j) [] [] = (None, t, d)
    \<and> contiguousCryptoStream t d = []
    \<and> mergeInitialCryptoFrames (padded (buildCryptoFrame 0 (take k s)) i) t d
      = (None, s, replicate (length s) True)"
proof -
  from k merge_first [of k s i j] obtain c where
    1: "mergeInitialCryptoFrames (padded (buildCryptoFrame 0 (take k s)) i) [] [] = (None, take k s, c)"
    and 2: "mergeInitialCryptoFrames (padded (buildCryptoFrame k (drop k s)) j) (take k s) c
      = (None, s, replicate (length s) True)"
    by auto
  from merge_commutes [OF clean_Nil 1 2] obtain t d where
    3: "mergeInitialCryptoFrames (padded (buildCryptoFrame k (drop k s)) j) [] [] = (None, t, d)"
    and 4: "mergeInitialCryptoFrames (padded (buildCryptoFrame 0 (take k s)) i) t d = (None, s, replicate (length s) True)"
    by auto
  have "mergeSegments [(k, drop k s)] [] [] = (None, t, d)"
    using 3 k by (simp add: merge_build)
  from mergeSegments_spec [OF clean_Nil this] have "received t d = segmentMap (k, drop k s)" "length d = length s"
    using k by simp_all
  then have "received t d 0 = None" "0 < length d"
    using k by (auto simp: segmentMap.simps)
  then have "\<not> d ! 0"
    by (auto simp: received_def split: if_splits)
  moreover have "0 < length d"
    using \<open>length d = length s\<close> k by auto
  ultimately have "takeWhile id d = []"
    by (cases d) simp_all
  with 3 4 show ?thesis
    by (simp add: contiguousCryptoStream_def)
qed

lemma contiguous_full: "contiguousCryptoStream s (replicate (length s) True) = s"
  by (simp add: contiguousCryptoStream_def takeWhile_eq_all_conv [THEN iffD2])

lemma contiguous_prefix: "length (contiguousCryptoStream s c) \<le> length c"
  by (simp add: contiguousCryptoStream_def length_takeWhile_le le_trans min.coboundedI2)

lemma incomplete_prefix:
  assumes "length hello = 4 + be_nat (take 3 (drop 1 hello))" "k < length hello" "length s \<le> k"
    and "s = take (length s) hello"
  shows "streamSNI s = []"
proof -
  have "\<not> clientHelloComplete s"
  proof (cases "length s < 4")
    case False
    then have "take 3 (drop 1 (take (length s) hello)) = take 3 (drop 1 hello)"
      by (simp add: drop_take min_def)
    then have "take 3 (drop 1 s) = take 3 (drop 1 hello)"
      by (simp only: assms(4) [symmetric])
    then have "length s < 4 + be_nat (take 3 (drop 1 s))"
      using assms(1-3) by (simp only:)
    then show ?thesis
      by (simp add: clientHelloComplete_def not_le)
  qed (simp add: clientHelloComplete_def)
  then show ?thesis
    by (simp add: streamSNI_def split: option.split)
qed

lemma contiguous_take: "contiguousCryptoStream s c = take (length (contiguousCryptoStream s c)) s"
  by (simp add: contiguousCryptoStream_def min_def)

lemma FragmentQUICInitial_hello:
  assumes c: "clientInitial version dcid scid token pn n (buildCryptoFrame 0 hello) packet"
    and win: "inWindow pn n 0" "pn + 1 < 2 ^ 62"
    and sni: "sniHostNameRange hello = Some (st, len)" "1 < len" and size: "length hello + 9 \<le> quicUDPPacketSize"
  defines "k \<equiv> st + len div 2"
  shows "\<exists>p q m i j. FragmentQUICInitial packet = [p, q]
    \<and> clientInitial version dcid scid token pn n (padded (buildCryptoFrame 0 (take k hello)) i) p
    \<and> clientInitial version dcid scid token (pn + 1) m (padded (buildCryptoFrame k (drop k hello)) j) q
    \<and> m = max n (packetNumberLen (pn + 1))
    \<and> quicMinimumInitialDatagramSize \<le> length p \<and> quicMinimumInitialDatagramSize \<le> length q"
proof -
  from clientInitial_parts [OF c] obtain key iv hp pkt where
    keys: "quicInitialSecrets version dcid = Some (key, iv, hp)"
    and p: "parseInitialPacket packet = Inr pkt" and f: "pkt_version pkt = version" "pkt_dcid pkt = dcid"
      "pkt_scid pkt = scid" "pkt_token pkt = token" "headerFits pkt"
    and e: "quicLongPacketEnd packet = Inr (0, length packet)" "packet ! 0 AND 0x80 \<noteq> 0" "packet \<noteq> []"
    and d: "decryptInitialWithExpected packet key iv hp 0 = Inr (buildCryptoFrame 0 hello, pn, n)"
    using win by metis
  have ids: "length dcid \<le> 20" "length scid \<le> 20" and n: "1 \<le> n" "n \<le> 4"
    using c by (auto simp: clientInitial_def sealedInitial_def)
  let ?m = "if packetNumberLen (pn + 1) > n then packetNumberLen (pn + 1) else n"
  have m: "1 \<le> ?m" "?m \<le> 4" "?m = max n (packetNumberLen (pn + 1))"
    using n packetNumberLen_bounds [of "pn + 1"] by auto
  have sp: "splitInitialCryptoFrames (buildCryptoFrame 0 hello) =
      Some (buildCryptoFrame 0 (take k hello), buildCryptoFrame k (drop k hello))"
    using split_hello [OF sni] size by (simp add: k_def)
  have lb: "length (buildCryptoFrame a x) = 1 + length (writeVarint a) + length (writeVarint (length x)) + length x"
    for a x by (simp add: buildCryptoFrame_def)
  have "length (buildCryptoFrame 0 hello) \<le> quicUDPPacketSize"
    using size by (simp add: lb length_writeVarint quicUDPPacketSize_def)
  from splitInitialCryptoFrames_lengths [OF sp this]
  have l: "3 \<le> length (buildCryptoFrame 0 (take k hello))" "3 \<le> length (buildCryptoFrame k (drop k hello))" by auto
  have up: "length (buildCryptoFrame a x) \<le> 17 + length x" for a x
    unfolding lb using length_writeVarint_bounds(2) [of a] length_writeVarint_bounds(2) [of "length x"] by linarith
  have l': "length (buildCryptoFrame 0 (take k hello)) \<le> 2 * quicUDPPacketSize"
    "length (buildCryptoFrame k (drop k hello)) \<le> 2 * quicUDPPacketSize"
    using size up [of 0 "take k hello"] up [of k "drop k hello"] by (simp_all add: quicUDPPacketSize_def)
  from encryptPaddedInitial_client [where pkt = pkt and n = n and pn = pn and key = key and iv = iv and hp = hp
      and plaintext = "buildCryptoFrame 0 (take k hello)" and other = 0] keys f ids n l l' win
  obtain q1 i where A: "encryptPaddedInitial pkt pn n (buildCryptoFrame 0 (take k hello)) key iv hp 0 = Inr q1"
    "clientInitial version dcid scid token pn n (padded (buildCryptoFrame 0 (take k hello)) i) q1"
    "quicMinimumInitialDatagramSize \<le> length q1" by auto
  from encryptPaddedInitial_client [where pkt = pkt and n = ?m and pn = "pn + 1" and key = key and iv = iv and hp = hp
      and plaintext = "buildCryptoFrame k (drop k hello)" and other = 0] keys f ids m l l' win
  obtain q2 j where B: "encryptPaddedInitial pkt (pn + 1) ?m (buildCryptoFrame k (drop k hello)) key iv hp 0 = Inr q2"
    "clientInitial version dcid scid token (pn + 1) ?m (padded (buildCryptoFrame k (drop k hello)) j) q2"
    "quicMinimumInitialDatagramSize \<le> length q2" by auto
  have u: "u64 (pn + 1) = pn + 1"
    using win by simp
  have "fragmentClientInitial [] packet [] pkt (buildCryptoFrame 0 hello) pn n key iv hp = Inr [q1, q2]"
    unfolding fragmentClientInitial_def sp u Let_def using A(1) B(1) by simp
  then have "FragmentQUICInitial packet = [q1, q2]"
    using keys f
    by (simp add: FragmentQUICInitial_def rewriteClient_def rewriteClientLocked_def locate_alone [OF e] p d
        rewriteClientPacket_def quicRewriter0_def quicInitialSecrets_def)
  then show ?thesis
    by (intro exI [of _ q1] exI [of _ q2] exI [of _ ?m] exI [of _ i] exI [of _ j] conjI A(2,3) B(2,3) m(3))
qed

lemma streamSNI_complete:
  assumes "sniHostNameRange hello = Some (st, len)" and "length hello = 4 + be_nat (take 3 (drop 1 hello))"
  shows "streamSNI hello = take len (drop st hello)"
proof -
  have "hello ! 0 = 0x01"
    using assms(1) by (auto simp: sniHostNameRange_def Let_def split: if_splits)
  moreover have "4 \<le> length hello" "4 + be_nat (take 3 (drop 1 hello)) \<le> length hello"
    using assms(2) by linarith+
  ultimately have "clientHelloComplete hello"
    by (simp add: clientHelloComplete_def)
  with assms(1) show ?thesis
    by (simp add: streamSNI_def)
qed

lemma half_window: "1 \<le> n \<Longrightarrow> n \<le> m \<Longrightarrow> m \<le> 4 \<Longrightarrow>
  128 \<le> (2 :: nat) ^ (8 * n) div 2 \<and> (2 :: nat) ^ (8 * n) div 2 \<le> 2 ^ (8 * m) div 2 \<and> (2 :: nat) ^ (8 * m) div 2 \<le> 2 ^ 32"
proof -
  assume a: "1 \<le> n" "n \<le> m" "m \<le> 4"
  have "(2 :: nat) ^ 8 div 2 \<le> 2 ^ (8 * n) div 2" "(2 :: nat) ^ (8 * n) div 2 \<le> 2 ^ (8 * m) div 2"
    "(2 :: nat) ^ (8 * m) div 2 \<le> 2 ^ 32 div 2"
    using a by (intro div_le_mono power_increasing; simp)+
  then show ?thesis by simp
qed

text \<open>C2: The client's first Initial packet, with its whole ClientHello in one CRYPTO frame, is
  sent as two datagrams of at least 1200 bytes. The first alone does not show the server
  name, nor does the second, but a collector that gets both, in either order, finds the
  very name of the ClientHello.\<close>

theorem first_flight:
  assumes c: "clientInitial version dcid scid token pn n (buildCryptoFrame 0 hello) packet"
    and pn: "pn + 1 \<le> 2 ^ (8 * n) div 2"
    and sni: "sniHostNameRange hello = Some (st, len)" "1 < len"
    and exact: "length hello = 4 + be_nat (take 3 (drop 1 hello))" and size: "length hello + 9 \<le> quicUDPPacketSize"
  shows "\<exists>p q c1 c2 d1 d2. FragmentQUICInitial packet = [p, q]
    \<and> quicMinimumInitialDatagramSize \<le> length p \<and> quicMinimumInitialDatagramSize \<le> length q
    \<and> collectorAdd quicCollector0 p = (Inr ([], pn), c1)
    \<and> collectorAdd c1 q = (Inr (take len (drop st hello), pn + 1), c2)
    \<and> collectorAdd quicCollector0 q = (Inr ([], pn + 1), d1)
    \<and> collectorAdd d1 p = (Inr (take len (drop st hello), pn), d2)"
proof -
  have n: "1 \<le> n" "n \<le> 4"
    using c by (auto simp: clientInitial_def sealedInitial_def)
  define m where "m = max n (packetNumberLen (pn + 1))"
  have m: "n \<le> m" "m \<le> 4"
    using n packetNumberLen_bounds [of "pn + 1"] by (simp_all add: m_def)
  note w = half_window [OF n(1) m]
  have win: "inWindow pn n 0" "inWindow (pn + 1) m 0" "inWindow (pn + 1) m (pn + 1)" "inWindow pn n (pn + 2)"
    and pn62: "pn + 1 < 2 ^ 62"
    using w pn by (simp_all add: inWindow_def)
  define k where "k = st + len div 2"
  have k: "0 < k" "k < length hello"
    using sniHostNameRange_bounds [OF sni(1)] sni(2) by (auto simp: k_def)
  have size': "length hello \<le> quicUDPPacketSize"
    using size by simp
  from FragmentQUICInitial_hello [OF c win(1) pn62 sni size, folded k_def m_def] obtain p q i j where
    frag: "FragmentQUICInitial packet = [p, q]"
      "quicMinimumInitialDatagramSize \<le> length p" "quicMinimumInitialDatagramSize \<le> length q"
    and p: "clientInitial version dcid scid token pn n (padded (buildCryptoFrame 0 (take k hello)) i) p"
    and q: "clientInitial version dcid scid token (pn + 1) m (padded (buildCryptoFrame k (drop k hello)) j) q"
    by auto
  from merge_first [OF less_imp_le [OF k(2)] size', of i j] obtain c where
    m1: "mergeInitialCryptoFrames (padded (buildCryptoFrame 0 (take k hello)) i) [] [] = (None, take k hello, c)"
    "mergeInitialCryptoFrames (padded (buildCryptoFrame k (drop k hello)) j) (take k hello) c
      = (None, hello, replicate (length hello) True)" and c: "length c = k"
    by auto
  from merge_second [OF k size', of j i] obtain t d where
    m2: "mergeInitialCryptoFrames (padded (buildCryptoFrame k (drop k hello)) j) [] [] = (None, t, d)"
    "contiguousCryptoStream t d = []"
    "mergeInitialCryptoFrames (padded (buildCryptoFrame 0 (take k hello)) i) t d
      = (None, hello, replicate (length hello) True)"
    by auto
  let ?s = "contiguousCryptoStream (take k hello) c"
  have s: "length ?s \<le> k"
    using contiguous_prefix c by metis
  have "?s = take (length ?s) hello"
    using contiguous_take [of "take k hello" c] s by (simp add: min_def)
  from incomplete_prefix [OF exact k(2) s this] have none1: "streamSNI ?s = []" .
  have none2: "streamSNI [] = []"
    by (simp add: streamSNI_def clientHelloComplete_def split: option.split)
  note whole = streamSNI_complete [OF sni(1) exact]
  note ok = frag win m1 m2 none1 none2 whole contiguous_full
  let ?c = "\<lambda>e s c. \<lparr>col_version = version, col_dcid = dcid, col_expected = e, col_stream = s, col_covered = c\<rparr>"
  have "collectorAdd quicCollector0 p = (Inr ([], pn), ?c (pn + 1) (take k hello) c)"
    using collectorAdd_client [OF p, of quicCollector0] ok by (simp add: quicCollector0_def sameConnection_def)
  moreover have "collectorAdd (?c (pn + 1) (take k hello) c) q
    = (Inr (take len (drop st hello), pn + 1), ?c (pn + 2) hello (replicate (length hello) True))"
    using collectorAdd_client [OF q, of "?c (pn + 1) (take k hello) c"] ok by (simp add: sameConnection_def)
  moreover have "collectorAdd quicCollector0 q = (Inr ([], pn + 1), ?c (pn + 2) t d)"
    using collectorAdd_client [OF q, of quicCollector0] ok by (simp add: quicCollector0_def sameConnection_def)
  moreover have "collectorAdd (?c (pn + 2) t d) p
    = (Inr (take len (drop st hello), pn), ?c (pn + 2) hello (replicate (length hello) True))"
    using collectorAdd_client [OF p, of "?c (pn + 2) t d"] ok by (simp add: sameConnection_def)
  ultimately show ?thesis
    using frag by blast
qed

definition sampleHello :: bytes where
  "sampleHello = clientHello (clientHelloBody [3, 3] (replicate 32 7) [] [0x13, 1] [0]
    (namedExtensions [] (str ''go.dev'') [(16, [0, 1, 2])]))"

lemma sampleHello_name: "sniHostNameRange sampleHello = Some (56, 6)"
proof -
  have "helloFits [3, 3] (replicate 32 7) [] [0x13, 1] [0] (namedExtensions [] (str ''go.dev'') [(16, [0, 1, 2])])"
    by (simp add: helloFits_def namedExtensions_def serverNameData_def)
  from sniHostNameRange_finds [OF this _ str_nonempty, of "[]"] show ?thesis
    by (simp add: sampleHello_def nameOffset_def)
qed

lemma sampleHello_length:
  "length sampleHello = 69" "be_nat (take 3 (drop 1 sampleHello)) = 65" "take 6 (drop 56 sampleHello) = str ''go.dev''"
  by (simp_all add: sampleHello_def namedExtensions_def serverNameData_def clientHello_def
      clientHelloBody_def clientHelloStart_def be_nat_be_bytes)

theorem first_flight_witness:
  "\<exists>packet p q c1 c2. clientInitial 1 [1, 2, 3, 4] [5] [] 0 1 (buildCryptoFrame 0 sampleHello) packet
    \<and> FragmentQUICInitial packet = [p, q] \<and> collectorAdd quicCollector0 q = (Inr ([], 1), c1)
    \<and> collectorAdd c1 p = (Inr (str ''go.dev'', 0), c2)"
proof -
  obtain packet where c: "clientInitial 1 [1, 2, 3, 4] [5] [] 0 1 (buildCryptoFrame 0 sampleHello) packet"
    using clientInitial_exists [OF version1_salt, of "[1, 2, 3, 4]" "[5]" "[]" "buildCryptoFrame 0 sampleHello" 1 0]
      sampleHello_length by (auto simp: buildCryptoFrame_def length_writeVarint)
  from first_flight [OF c _ sampleHello_name] sampleHello_length c show ?thesis
    by (auto simp: quicUDPPacketSize_def)
qed
end
