(* ===== verification/Quic_Flow.thy ===== *)
theory Quic_Flow
  imports Quic_First_Flight
begin

text \<open>
  The properties of the stream of Initial packets: reassembly, the rewriter in both
  directions, the pending datagrams and the classification of gQUIC packets.
\<close>

subsection \<open>Reassembly\<close>

text \<open>C25: Merging a packet succeeds exactly when its frames parse, its CRYPTO frames lie within
  the stream limit and agree with the bytes received and with each other; the bytes
  received afterwards are those received before with the frames' bytes added.\<close>

theorem merge_refines:
  assumes cl: "clean stream covered" and m: "mergeInitialCryptoFrames plaintext stream covered = (r, stream', covered')"
  shows "(r = None \<longleftrightarrow> (\<exists>ss. cryptoSegments plaintext 0 = Some ss
        \<and> agree (insert (received stream covered) (segmentMap ` set ss))))
    \<and> (r = None \<longrightarrow> received stream' covered'
        = foldl (++) (received stream covered) (map segmentMap (the (cryptoSegments plaintext 0))))"
proof (cases "cryptoSegments plaintext 0")
  case None
  then show ?thesis
    using mergeLoop_segments [of plaintext 0 stream covered] m by (auto simp: mergeInitialCryptoFrames_def)
next
  case (Some ss)
  then have "mergeSegments ss stream covered = (r, stream', covered')"
    using mergeLoop_segments [of plaintext 0 stream covered] m by (simp add: mergeInitialCryptoFrames_def)
  from mergeSegments_spec [OF cl this] Some show ?thesis by simp
qed

theorem merge_refines_witness:
  "\<exists>stream covered. mergeInitialCryptoFrames (buildCryptoFrame 0 [1, 2]) [] [] = (None, stream, covered)
    \<and> received stream covered = Map.empty ++ segmentMap (0, [1, 2])"
proof -
  obtain r s c where m: "mergeInitialCryptoFrames (buildCryptoFrame 0 [1, 2]) [] [] = (r, s, c)"
    by (cases "mergeInitialCryptoFrames (buildCryptoFrame 0 [1, 2]) [] []")
  have "cryptoSegments (buildCryptoFrame 0 [1, 2]) 0 = Some [(0, [1, 2])]"
    using cryptoSegments_build [of 0 "[1, 2]" "[]" 0] by (simp add: quicUDPPacketSize_def)
  with merge_refines [OF clean_Nil m] m show ?thesis
    by (auto simp: agree_def compat_def)
qed

text \<open>The order in which two packets are merged does not matter: when both merge in one order,
  they merge in the other order to the same stream and the same coverage.\<close>

theorem merge_order:
  assumes "clean s c" and "mergeInitialCryptoFrames p s c = (None, s1, c1)"
    and "mergeInitialCryptoFrames q s1 c1 = (None, s2, c2)"
  shows "\<exists>t1 d1. mergeInitialCryptoFrames q s c = (None, t1, d1) \<and>
    mergeInitialCryptoFrames p t1 d1 = (None, s2, c2)"
  using assms by (rule merge_commutes)

theorem merge_order_witness:
  "\<exists>t1 d1. mergeInitialCryptoFrames (buildCryptoFrame 2 [3]) [] [] = (None, t1, d1)
    \<and> mergeInitialCryptoFrames (buildCryptoFrame 0 [1, 2]) t1 d1 = (None, [1, 2, 3], [True, True, True])"
proof -
  from merge_first [of 2 "[1, 2, 3]" 0 0] obtain c where
    "mergeInitialCryptoFrames (buildCryptoFrame 0 [1, 2]) [] [] = (None, [1, 2], c)"
    "mergeInitialCryptoFrames (buildCryptoFrame 2 [3]) [1, 2] c = (None, [1, 2, 3], [True, True, True])"
    by (auto simp: padded_def quicUDPPacketSize_def)
  from merge_order [OF clean_Nil this] show ?thesis .
qed

subsection \<open>The rewriter\<close>

text \<open>C26: Whenever the rewriter changes a client's datagram or its own state, it has decrypted the
  datagram's Initial packet; it sends, from the same surroundings, either the two halves
  of the first packet under its number and the next, or the same frames under the number
  plus one, each as a packet the server decrypts, in datagrams of at least 1200 bytes.
  What it recorded of the connection stays.\<close>

theorem rewriteClient_sends:
  assumes "rewriteClientLocked rw data = (ds, rw')" and "length data \<le> quicUDPPacketSize"
    and "ds \<noteq> [data] \<or> rw' \<noteq> rw"
  shows "\<exists>prefix packet suffix pkt key iv hp plaintext pn n.
      prefix @ packet @ suffix = data \<and> parseInitialPacket packet = Inr pkt
    \<and> initialSecrets (pkt_version pkt) (pkt_dcid pkt) False = Some (key, iv, hp)
    \<and> decryptInitialWithExpected packet key iv hp (if rw_initialized rw then rw_clientExpected rw else 0)
        = Inr (plaintext, pn, n)
    \<and> (pn + 1 < 2 ^ 62 \<longrightarrow>
        rw_initialized rw' \<and> rw_version rw' = pkt_version pkt \<and> rw_clientDCID rw' = pkt_dcid pkt
      \<and> (rw_initialized rw \<longrightarrow> rw_firstClientPN rw' = rw_firstClientPN rw \<and> rw_serverExpected rw' = rw_serverExpected rw)
      \<and> rewrittenFor rw' (key, iv, hp) prefix suffix plaintext pn ds
      \<and> (\<forall>d \<in> set ds. quicMinimumInitialDatagramSize \<le> length d))"
  using assms by (rule rewriteClientLocked_spec)

lemma sampleFlight:
  "\<exists>data. clientInitial 1 [1, 2, 3, 4] [5] [] 0 1 (buildCryptoFrame 0 sampleHello) data
    \<and> length data \<le> quicUDPPacketSize \<and> length (FragmentQUICInitial data) = 2"
proof -
  obtain data where c: "clientInitial 1 [1, 2, 3, 4] [5] [] 0 1 (buildCryptoFrame 0 sampleHello) data"
    using clientInitial_exists [OF version1_salt, of "[1, 2, 3, 4]" "[5]" "[]" "buildCryptoFrame 0 sampleHello" 1 0]
      sampleHello_length by (auto simp: buildCryptoFrame_def length_writeVarint)
  then obtain key iv hp where
    e: "sealedInitial 1 [1, 2, 3, 4] [5] [] 0 1 (buildCryptoFrame 0 sampleHello) (key, iv, hp) data"
    by (auto simp: clientInitial_def)
  have two: "length (FragmentQUICInitial data) = 2"
    using FragmentQUICInitial_hello [OF c _ _ sampleHello_name] sampleHello_length
    by (auto simp: inWindow_def quicUDPPacketSize_def)
  obtain pkt where f: "pkt_version pkt = 1" "pkt_dcid pkt = [1, 2, 3, 4]" "pkt_scid pkt = [5]" "pkt_token pkt = []"
    and l: "length data = initialSize pkt 1 (length (buildCryptoFrame 0 sampleHello))"
    by (rule sealedInitial_parts [OF e]) blast
  have "length data \<le> quicUDPPacketSize"
    using sampleHello_length
    by (simp add: l initialSize_def f initialHeader_def buildCryptoFrame_def length_writeVarint
        quicUDPPacketSize_def Let_def)
  with c two show ?thesis by blast
qed

theorem rewriteClient_sends_witness:
  "\<exists>data ds rw'. rewriteClientLocked quicRewriter0 data = (ds, rw') \<and> length ds = 2
    \<and> (\<exists>packet pkt key iv hp plaintext pn n. parseInitialPacket packet = Inr pkt
        \<and> decryptInitialWithExpected packet key iv hp 0 = Inr (plaintext, pn, n))"
proof -
  obtain data where size: "length data \<le> quicUDPPacketSize" and two: "length (FragmentQUICInitial data) = 2"
    using sampleFlight by blast
  obtain ds rw' where r: "rewriteClientLocked quicRewriter0 data = (ds, rw')"
    by (cases "rewriteClientLocked quicRewriter0 data")
  have ds: "length ds = 2" "ds \<noteq> [data]"
    using two r by (auto simp: FragmentQUICInitial_def rewriteClient_def)
  from rewriteClient_sends [OF r size] ds(2) obtain packet pkt key iv hp plaintext pn n where
    "parseInitialPacket packet = Inr pkt" "decryptInitialWithExpected packet key iv hp 0 = Inr (plaintext, pn, n)"
    by (auto simp: quicRewriter0_def)
  with r ds(1) show ?thesis
    by (intro exI conjI)
qed

text \<open>The server's acknowledgements, mapped back.\<close>

lemma rewriteServer_answer:
  assumes rw: "rw_initialized rw" "rw_version rw = version"
    and keys: "initialSecrets version (rw_clientDCID rw) True = Some (key, iv, hp)"
    and c: "sealedInitial version dcid scid token pn n plaintext (key, iv, hp) packet"
    and win: "inWindow pn n (rw_serverExpected rw)"
    and ack: "rewriteAckFrames plaintext (rw_firstClientPN rw) = Inr out" "out \<noteq> plaintext"
    and size: "length out \<le> length plaintext" "4 \<le> n + length out" "quicMinimumInitialDatagramSize \<le> length packet"
    and same: "length (writeVarint (n + length out + 16)) = length (writeVarint (n + length plaintext + 16))"
  shows "\<exists>d. rewriteServerLocked rw packet = (d, rw\<lparr>rw_serverExpected := max (rw_serverExpected rw) (pn + 1)\<rparr>)
    \<and> length d = length packet
    \<and> decryptInitialWithExpected d key iv hp (rw_serverExpected rw)
        = Inr (padded out (length plaintext - length out), pn, n)"
proof -
  from sealedInitial_parts [OF c] obtain pkt where
    p: "parseInitialPacket packet = Inr pkt" and f: "pkt_version pkt = version" "pkt_dcid pkt = dcid"
      "pkt_scid pkt = scid" "pkt_token pkt = token" "headerFits pkt" "pkt_packetLen pkt = length packet"
    and l: "length packet = initialSize pkt n (length plaintext)"
    and e: "quicLongPacketEnd packet = Inr (0, length packet)" "packet ! 0 AND 0x80 \<noteq> 0" "packet \<noteq> []"
    and d: "decryptInitialWithExpected packet key iv hp (rw_serverExpected rw) = Inr (plaintext, pn, n)"
    using win by metis
  from c have s: "1 \<le> n" "n \<le> 4" "length key = 16" "length hp = 16" "pn < 2 ^ 62" "length plaintext < 2 ^ 61"
    by (auto simp: sealedInitial_def)
  let ?k = "length plaintext - length out"
  have i: "initialSize pkt n (length out) + ?k = length packet" "initialSize pkt n (length out + ?k) = length packet"
    using size(1) same by (simp_all add: l initialSize_def initialHeader_def Let_def add.assoc add.left_commute)
  from encryptInitialToPacketSize_complete [OF s(1-4) size(2) i] obtain q where
    q: "encryptInitialToPacketSize pkt pn n out key iv hp (length packet) = Inr q" by blast
  from encryptInitialToPacketSize_sound [OF q] obtain j where
    j: "encryptInitialWithPNLen version dcid scid token pn n (padded out j) key iv hp = Inr q" "length q = length packet"
    by (auto simp: f)
  have "initialSize pkt n (length out + j) = initialSize pkt n (length out + ?k)"
    using encryptInitialWithPNLen_length [OF j(1) s(1-3)] j(2) i(2) by (simp add: initialSize_def f)
  then have jk: "j = ?k"
    using initialSize_add [of pkt n "length out + j" "?k - j"] initialSize_add [of pkt n "length out + ?k" "j - ?k"]
    by (cases "j < ?k") auto
  have "sealedInitial version dcid scid token pn n (padded out ?k) (key, iv, hp) q"
    using c j(1) size(1) by (simp add: sealedInitial_def jk)
  from sealedInitial_parts [OF this] win
  have dq: "decryptInitialWithExpected q key iv hp (rw_serverExpected rw) = Inr (padded out ?k, pn, n)"
    by metis
  have "rewriteServerLocked rw packet = (q, rw\<lparr>rw_serverExpected := max (rw_serverExpected rw) (pn + 1)\<rparr>)"
    using rw keys ack size(3) s(5) q
    by (auto simp: rewriteServerLocked_def locate_alone [OF e] p f d Let_def max_def)
  with dq j(2) show ?thesis by blast
qed

definition sampleRewriter :: quicInitialRewriter where
  "sampleRewriter = quicRewriter0\<lparr>rw_initialized := True, rw_version := 1, rw_clientDCID := [1, 2, 3, 4],
    rw_clientExpected := 1\<rparr>"

lemma sampleAck_rewrite: "rewriteAckFrames [2, 1, 0, 0, 1] 0 = Inr [2, 0, 0, 0, 0]"
  by (simp add: rewriteAckFrames_def rewriteAckLoop.simps parseAckFrame_def varintAt_def readVarint_def Let_def
     remapAck_def remapRange_def mapAckPN_def appendAckFrame_def writeVarint_def)

lemma sampleServer:
  obtains key iv hp packet q where "sealedInitial 1 [5] [6] (replicate 1200 0) 3 1 [2, 1, 0, 0, 1] (key, iv, hp) packet"
    "quicMinimumInitialDatagramSize \<le> length packet" "length packet \<le> quicUDPPacketSize"
    "initialSecrets 1 [1, 2, 3, 4] True = Some (key, iv, hp)" "inWindow 3 1 0"
    "decryptInitialWithExpected packet key iv hp 0 = Inr ([2, 1, 0, 0, 1], 3, 1)"
    "rewriteServerLocked sampleRewriter packet = (q, sampleRewriter\<lparr>rw_serverExpected := 4\<rparr>)"
    "decryptInitialWithExpected q key iv hp 0 = Inr ([2, 0, 0, 0, 0], 3, 1)"
proof -
  obtain key iv hp where k: "initialSecrets 1 [1, 2, 3, 4] True = Some (key, iv, hp)"
    using secrets_exist [OF version1_salt] by blast
  from sealedInitial_exists [OF k, of "[5]" "[6]" "replicate 1200 0" "[2, 1, 0, 0, 1]" 1 3] obtain packet where
    c: "sealedInitial 1 [5] [6] (replicate 1200 0) 3 1 [2, 1, 0, 0, 1] (key, iv, hp) packet"
    by auto
  obtain pkt where f: "pkt_version pkt = 1" "pkt_dcid pkt = [5]" "pkt_scid pkt = [6]" "pkt_token pkt = replicate 1200 0"
    and l: "length packet = initialSize pkt 1 (length [2, 1, 0, 0, 1 :: byte])"
    and d: "\<And>expected. inWindow 3 1 expected \<Longrightarrow>
       decryptInitialWithExpected packet key iv hp expected = Inr ([2, 1, 0, 0, 1], 3, 1)"
    by (rule sealedInitial_parts [OF c]) blast
  have "length packet = 1234"
    by (simp add: l initialSize_def f initialHeader_def length_writeVarint Let_def)
  then have size: "quicMinimumInitialDatagramSize \<le> length packet" "length packet \<le> quicUDPPacketSize"
    by (simp_all only: quicMinimumInitialDatagramSize_def quicUDPPacketSize_def)
  have w: "inWindow 3 1 0"
    by (simp add: inWindow_def)
  from rewriteServer_answer [of sampleRewriter, OF _ _ _ c _ _ _ _ _ size(1)] k w sampleAck_rewrite obtain q where
    "rewriteServerLocked sampleRewriter packet = (q, sampleRewriter\<lparr>rw_serverExpected := 4\<rparr>)"
    "decryptInitialWithExpected q key iv hp 0 = Inr ([2, 0, 0, 0, 0], 3, 1)"
    by (auto simp: sampleRewriter_def quicRewriter0_def padded_def)
  with that [OF c size k w d [OF w]] show ?thesis .
qed



text \<open>The rewriter changes nothing of a server's datagram but the packet it decrypted: what it
  sends instead decrypts to the rewritten frames and is as long, or as much longer as the
  datagram was short of 1200 bytes.\<close>

theorem rewriteServer_sends:
  assumes "rewriteServerLocked rw data = (d, rw')" and "length data \<le> quicUDPPacketSize"
    and "d \<noteq> data"
  shows "\<exists>prefix packet suffix pkt key iv hp plaintext pn n out p.
      prefix @ packet @ suffix = data \<and> parseInitialPacket packet = Inr pkt
    \<and> initialSecrets (pkt_version pkt) (rw_clientDCID rw) True = Some (key, iv, hp)
    \<and> decryptInitialWithExpected packet key iv hp (rw_serverExpected rw) = Inr (plaintext, pn, n)
    \<and> rewriteAckFrames plaintext (rw_firstClientPN rw) = Inr out
    \<and> d = prefix @ p @ suffix \<and> carries p (key, iv, hp) pn out
    \<and> length p = pkt_packetLen pkt + (quicMinimumInitialDatagramSize - length data)"
  using assms by (rule rewriteServerLocked_spec)

theorem rewriteServer_sends_witness:
  "\<exists>data d rw' packet pkt. rewriteServerLocked sampleRewriter data = (d, rw') \<and> d \<noteq> data
    \<and> parseInitialPacket packet = Inr pkt"
proof -
  obtain key iv hp packet q where l: "length packet \<le> quicUDPPacketSize"
    and r: "rewriteServerLocked sampleRewriter packet = (q, sampleRewriter\<lparr>rw_serverExpected := 4\<rparr>)"
    and d: "decryptInitialWithExpected packet key iv hp 0 = Inr ([2, 1, 0, 0, 1], 3, 1)"
      "decryptInitialWithExpected q key iv hp 0 = Inr ([2, 0, 0, 0, 0], 3, 1)"
    by (rule sampleServer)
  from d have ne: "q \<noteq> packet"
    by auto
  from rewriteServer_sends [OF r l ne] obtain p pkt where "parseInitialPacket p = Inr pkt"
    by (elim exE conjE)
  with r ne show ?thesis
    by (intro exI conjI)
qed

subsection \<open>The pending datagrams\<close>

text \<open>The pending state of a client keeps its invariant under every datagram: the reassembly
  buffer is clean and within the stream limit, and the size is the sum of the datagrams'
  lengths. An accepted datagram is appended unchanged, a refused one leaves the datagrams.\<close>

theorem pending_invariant:
  assumes "pendingOk p" and "pendingAdd p data now = (r, p')"
  shows "pendingOk p' \<and> (case r of
      Inl _ \<Rightarrow> pend_packets p' = pend_packets p \<and> pend_size p' = pend_size p
    | Inr _ \<Rightarrow> (\<exists>pn. pend_packets p' = pend_packets p @ [(pn, data)]) \<and> pend_updated p' = Some now)"
proof -
  have "pend_packets p' = pend_packets p \<and> pend_size p' = pend_size p" if "r = Inl e" for e
    using assms(2) that by (auto simp: pendingAdd_def split: prod.splits sum.splits)
  then show ?thesis
    using pendingAdd_ok [OF assms] pendingAdd_packets [of p data now _ p'] assms(2) by (auto split: sum.split)
qed

theorem pending_invariant_witness:
  "\<exists>e p'. pendingAdd quicPending0 [0x40] 7 = (Inl e, p') \<and> pendingOk p' \<and> pend_packets p' = []"
proof -
  have "pendingOk quicPending0"
    by (simp add: pendingOk_def collectorOk_def quicPending0_def quicCollector0_def clean_def)
  moreover have "fst (pendingAdd quicPending0 [0x40] 7) = Inl ''QUIC Initial not found''"
    by (simp add: pendingAdd_def quicPending0_def collectorAdd_def collectorLoop.simps)
  ultimately show ?thesis
    using pending_invariant [of quicPending0 "[0x40]" 7]
    by (cases "pendingAdd quicPending0 [0x40] 7") (auto simp: quicPending0_def)
qed

text \<open>The datagrams are passed on in the order of their packet numbers; all of them, each once,
  and those of the same number in the order in which they came.\<close>

theorem pending_order:
  "\<exists>ps. mset ps = mset (pend_packets p) \<and> sorted (map fst ps) \<and> pendingDatagrams p = map snd ps
    \<and> (\<forall>n. filter (\<lambda>x. fst x = n) ps = filter (\<lambda>x. fst x = n) (pend_packets p))"
  by (rule pendingDatagrams_spec)

subsection \<open>gQUIC\<close>

text \<open>The little-endian end of the \<open>i\<close>-th tag's value.\<close>

definition tagEnd :: "bytes \<Rightarrow> nat \<Rightarrow> nat \<Rightarrow> nat" where
  "tagEnd b baseOffset i = be_nat (rev (take 2 (drop (baseOffset + i * 8 + 4) b)))"

lemma gquicTags_ascending:
  assumes "\<forall>j. i \<le> j \<and> j + 1 < i + k \<longrightarrow> tagEnd b base j \<le> tagEnd b base (j + 1)"
    and "0 < k \<longrightarrow> sni \<le> tagEnd b base i"
  shows "gquicTags b base d i k sni \<noteq> None"
  using assms
proof (induction k arbitrary: i sni)
  case (Suc k)
  have "gquicTags b base d (i + 1) k (tagEnd b base i) \<noteq> None"
    using Suc.prems(1) by (intro Suc.IH) auto
  moreover have "sni \<le> tagEnd b base i"
    using Suc.prems(2) by simp
  ultimately show ?case
    by (auto simp: Let_def slice_def simp flip: tagEnd_def)
qed simp

text \<open>Reading the server name of a gQUIC CHLO does not panic when the ends of its tags ascend.\<close>

theorem gquic_safe:
  assumes "\<forall>j. j + 1 < be_nat (rev (take 2 (drop tagNumOffset b))) \<longrightarrow> tagEnd b base j \<le> tagEnd b base (j + 1)"
  shows "getGQUICCHLOSNI b base tagNumOffset \<noteq> None"
  using gquicTags_ascending [of 0 _ b base 0] assms by (auto simp: getGQUICCHLOSNI_def Let_def)

definition gquicHello :: "byte \<Rightarrow> byte \<Rightarrow> bytes" where
  "gquicHello e1 e2 = [2, 0, 0, 0] @ [0x50, 0x41, 0x44, 0, e1, 0, 0, 0] @ [0x53, 0x4e, 0x49, 0, e2, 0, 0, 0]
    @ replicate 10 0x61"

lemma str_SNI: "str ''SNI'' = [0x53, 0x4e, 0x49]"
  by (simp add: str_def)

theorem gquic_safe_witness: "getGQUICCHLOSNI (gquicHello 2 5) 4 0 \<noteq> None"
proof (rule gquic_safe, intro allI impI)
  fix j assume "j + 1 < be_nat (rev (take 2 (drop 0 (gquicHello 2 5))))"
  then have "j = 0"
    by (simp add: gquicHello_def be_nat_def)
  then show "tagEnd (gquicHello 2 5) 4 j \<le> tagEnd (gquicHello 2 5) 4 (j + 1)"
    by (simp add: tagEnd_def gquicHello_def be_nat_def)
qed

text \<open>With descending ends it does: the slice bounds of line 563 are out of order and the call
  panics.\<close>

theorem gquic_panics: "getGQUICCHLOSNI (gquicHello 5 2) 4 0 = None"
proof -
  have "gquicTags (gquicHello 5 2) 4 20 0 (Suc (Suc 0)) 0 = None"
    by (simp add: gquicHello_def be_nat_def Let_def slice_def str_SNI)
  moreover have "be_nat (rev (take 2 (drop 0 (gquicHello 5 2)))) = Suc (Suc 0)" "length (gquicHello 5 2) = 30"
    by (simp_all add: gquicHello_def be_nat_def)
  ultimately show ?thesis
    by (simp add: getGQUICCHLOSNI_def)
qed

end
