(* ===== verification/Go_Machine.thy ===== *)
theory Go_Machine
  imports Main
begin

text \<open>
  The interface of the components that run as state machines: an initial state, a step
  relation, and an invariant that steps keep, which then holds in every reachable state.
\<close>

locale machine =
  fixes init :: 's
    and step :: "'s \<Rightarrow> 's \<Rightarrow> bool"
    and inv :: "'s \<Rightarrow> bool"
  assumes inv_init: "inv init"
    and inv_step: "inv s \<Longrightarrow> step s s' \<Longrightarrow> inv s'"
begin

lemma reachable_inv: "step\<^sup>*\<^sup>* init s \<Longrightarrow> inv s"
  by (induction rule: rtranclp_induct) (auto intro: inv_init inv_step)

lemma runs_inv: "inv s \<Longrightarrow> step\<^sup>*\<^sup>* s s' \<Longrightarrow> inv s'"
  by (rotate_tac, induction rule: rtranclp_induct) (auto intro: inv_step)

end

end
