(* ===== verification/Go_Maps.thy ===== *)
theory Go_Maps
  imports Go_Base "HOL-Library.AList"
begin

text \<open>
  A Go map that is updated and counted is an association list with distinct keys. Its keys
  and values, and how lookup, insertion and deletion change them.
\<close>

definition keys :: "('k \<times> 'v) list \<Rightarrow> 'k set" where
  "keys xs = fst ` set xs"

named_theorems alist_simps \<open>association lists as maps\<close>

lemma map_of_fst: "map_of xs k = Some v \<Longrightarrow> k \<in> keys xs" "map_of xs k = None \<longleftrightarrow> k \<notin> keys xs"
  by (force simp: keys_def dest: map_of_SomeD, simp add: map_of_eq_None_iff keys_def)

lemma update_facts [alist_simps]:
  "keys (AList.update k v xs) = insert k (keys xs)"
  "distinct (map fst xs) \<Longrightarrow> distinct (map fst (AList.update k v xs))"
  "map_of (AList.update k v xs) k' = (if k' = k then Some v else map_of xs k')"
  by (simp_all add: keys_def AList.dom_update AList.distinct_update AList.update_conv')

lemma delete_keys [alist_simps]: "keys (AList.delete k xs) = keys xs - {k}"
  by (auto simp: keys_def AList.delete_eq)

lemma delete_facts [alist_simps]:
  "distinct (map fst xs) \<Longrightarrow> distinct (map fst (AList.delete k xs))"
  "map_of (AList.delete k xs) k' = (if k' = k then None else map_of xs k')"
  by (simp_all add: AList.distinct_delete AList.delete_conv')

lemma map_entry_facts [alist_simps]:
  "keys (AList.map_entry k f xs) = keys xs"
  "distinct (map fst (AList.map_entry k f xs)) = distinct (map fst xs)"
  "k' \<noteq> k \<Longrightarrow> map_of (AList.map_entry k f xs) k' = map_of xs k'"
  by (induction xs) (auto simp: keys_def)

lemma set_update: "set (AList.update k v xs) \<subseteq> insert (k, v) (set xs)"
  by (induction xs) auto

lemma set_delete: "set (AList.delete k xs) \<subseteq> set xs"
  by (auto simp: AList.delete_eq)

lemma length_update: "length (AList.update k v xs) = (if k \<in> keys xs then length xs else Suc (length xs))"
  by (induction xs) (auto simp: keys_def)

definition vals :: "('k \<times> 'v) list \<Rightarrow> 'v set" where
  "vals xs = snd ` set xs"

lemma vals_Nil [simp]: "vals [] = {}"
  by (simp add: vals_def)

lemma keys_Nil [simp]: "keys [] = {}"
  by (simp add: keys_def)

lemma vals_map_of: "map_of xs k = Some v \<Longrightarrow> v \<in> vals xs"
  by (force simp: vals_def dest: map_of_SomeD)

lemma vals_update: "x \<in> vals (AList.update k v xs) \<Longrightarrow> x = v \<or> x \<in> vals xs"
  using set_update [of k v xs] by (fastforce simp: vals_def)

lemma vals_delete: "x \<in> vals (AList.delete k xs) \<Longrightarrow> x \<in> vals xs"
  using set_delete [of k xs] by (auto simp: vals_def)

lemma vals_map_entry: "x \<in> vals (AList.map_entry k f xs) \<Longrightarrow> x \<in> vals xs \<or> (\<exists>y \<in> vals xs. x = f y)"
  by (induction xs) (auto simp: vals_def split: if_splits)

lemma length_map_entry [simp]: "length (AList.map_entry k f xs) = length xs"
  by (induction xs) auto

lemma length_delete: "length (AList.delete k xs) \<le> length xs"
  by (rule AList.length_delete_le)

lemma map_of_filter_distinct:
  "distinct (map fst xs) \<Longrightarrow>
    map_of (filter P xs) k = (case map_of xs k of Some v \<Rightarrow> if P (k, v) then Some v else None | None \<Rightarrow> None)"
  by (induction xs) (auto simp del: map_of_eq_Some_iff simp: map_of_eq_None_iff [symmetric] split: option.splits)

end
