(* ===== verification/Quic_Proxy.thy ===== *)
theory Quic_Proxy
  imports Go_Machine Go_Maps Quic_Rewriter Quic_Collector_Steps Profile_Lookup
begin

text \<open>
  The QUIC proxy (\<open>QUICProxy\<close> and the functions of its sessions, \<open>phantomtcp/quic.go\<close>):
  datagrams of a client wait until its ClientHello is complete and names the outbound;
  then they go upstream, and the session carries the rest. The maps \<open>connMap\<close> and
  \<open>pendingMap\<close> are association lists. A connection is a number; dialling, the random
  length of the zero datagram and which writes a connection accepts are parameters. Each
  turn of the loop and each read of a session is one step, as between two acquisitions of
  the lock only the loop itself touches a client's entries.
\<close>

unbundle bit_operations_syntax

record quicProxySession =
  qs_conn :: nat
  qs_outbound :: outbound
  qs_rewriter :: "quicInitialRewriter option"

record quicProxyState =
  qp_connMap :: "(gostr \<times> quicProxySession) list"
  qp_pendingMap :: "(gostr \<times> quicInitialPending) list"

definition quicProxyState0 :: quicProxyState where
  "quicProxyState0 = \<lparr>qp_connMap = [], qp_pendingMap = []\<rparr>"

text \<open>What a step does to the outside, in order.\<close>

datatype proxyEffect =
    Upstream nat bytes
  | Downstream gostr bytes
  | CloseConn nat

text \<open>
  \<open>pe_profile = None\<close> is the nil \<open>DefaultProfile\<close>; \<open>pe_dial\<close> is \<open>DialUDPProxy\<close> with its host
  and port, \<open>None\<close> its error; \<open>pe_random\<close> is the result of \<open>rand.Intn(1024)\<close>.
\<close>

record proxyEnv =
  pe_profile :: "phantomProfile option"
  pe_default :: "outbound option"
  pe_depth :: int
  pe_dial :: "outbound \<Rightarrow> gostr \<Rightarrow> nat \<Rightarrow> nat option"
  pe_random :: nat
  pe_accepts :: "nat \<Rightarrow> bytes \<Rightarrow> bool"

subsection \<open>Writing to a session\<close>

definition quicProxyWriteUpstream ::
  "proxyEnv \<Rightarrow> 'a quicProxySession_scheme \<Rightarrow> bytes \<Rightarrow> proxyEffect list \<times> bool \<times> 'a quicProxySession_scheme" where
  "quicProxyWriteUpstream env session payload =
    (case qs_rewriter session of
       Some rw \<Rightarrow>
         (let ((written, ok), rewriter) =
            writeQUICDatagram (pe_accepts env (qs_conn session)) payload
              (ob_Hint (qs_outbound session) AND HINT_REVERSE \<noteq> 0) (Some rw)
          in (map (Upstream (qs_conn session)) written, ok, session\<lparr>qs_rewriter := rewriter\<rparr>))
     | None \<Rightarrow>
         (if pe_accepts env (qs_conn session) payload then ([Upstream (qs_conn session) payload], True, session)
          else ([], False, session)))"

fun quicProxyFlushInitial ::
  "proxyEnv \<Rightarrow> 'a quicProxySession_scheme \<Rightarrow> bytes list \<Rightarrow> proxyEffect list \<times> bool \<times> 'a quicProxySession_scheme" where
  "quicProxyFlushInitial env session [] = ([], True, session)"
| "quicProxyFlushInitial env session (d # ds) =
    (case quicProxyWriteUpstream env session d of
       (out, False, session) \<Rightarrow> (out, False, session)
     | (out, True, session) \<Rightarrow>
        (case quicProxyFlushInitial env session ds of (out', ok, session) \<Rightarrow> (out @ out', ok, session)))"

subsection \<open>Sessions\<close>

text \<open>One read of \<open>quicProxyRunSession\<close>; \<open>None\<close> is a failed read.\<close>

definition quicProxyReply ::
  "gostr \<Rightarrow> quicProxySession \<Rightarrow> bytes option \<Rightarrow> quicProxyState \<Rightarrow> quicProxyState \<times> proxyEffect list" where
  "quicProxyReply key session reply st =
    (case reply of
       None \<Rightarrow> (st\<lparr>qp_connMap := AList.delete key (qp_connMap st)\<rparr>, [CloseConn (qs_conn session)])
     | Some d \<Rightarrow>
        (let (d, rewriter) = rewriteServer (qs_rewriter session) (take quicUDPPacketSize d)
         in (st\<lparr>qp_connMap := AList.map_entry key (\<lambda>s. s\<lparr>qs_rewriter := rewriter\<rparr>) (qp_connMap st)\<rparr>,
             [Downstream key d])))"

text \<open>The end of the loop's turn, once the server name is known.\<close>

definition quicProxyConnect ::
  "proxyEnv \<Rightarrow> gostr \<Rightarrow> gostr \<Rightarrow> bytes list \<Rightarrow> quicProxyState \<Rightarrow> quicProxyState \<times> proxyEffect list" where
  "quicProxyConnect env key sni datagrams st =
    (case pe_profile env of None \<Rightarrow> (st, [])
     | Some profile \<Rightarrow>
        (case fst (GetOutbound profile (pe_default env) (pe_depth env) sni) of None \<Rightarrow> (st, [])
         | Some ob \<Rightarrow>
            (if ob_Hint ob AND HINT_UDP = 0 then (st, [])
             else
               (case pe_dial env ob sni 443 of None \<Rightarrow> (st, [])
                | Some conn \<Rightarrow>
                   (let zero = replicate (8 + pe_random env) 0;
                        session = \<lparr>qs_conn = conn, qs_outbound = ob,
                          qs_rewriter = (if ob_Hint ob AND HINT_HTTP3 \<noteq> 0 then Some quicRewriter0 else None)\<rparr>
                    in if ob_Hint ob AND HINT_ZERO \<noteq> 0 \<and> \<not> pe_accepts env conn zero then (st, [CloseConn conn])
                       else
                         (let first = (if ob_Hint ob AND HINT_ZERO \<noteq> 0 then [Upstream conn zero] else []);
                              (out, ok, session) = quicProxyFlushInitial env session datagrams
                          in if ok then (st\<lparr>qp_connMap := AList.update key session (qp_connMap st)\<rparr>, first @ out)
                             else (st\<lparr>qp_connMap := AList.delete key (qp_connMap st)\<rparr>, first @ out @ [CloseConn conn])))))))"

subsection \<open>The loop\<close>

text \<open>
  The entry a datagram is added to: the client's own, or a new one, for which the expired
  entries of all clients are removed when the table is full. \<open>None\<close> is the refusal.
\<close>

definition newEntry ::
  "int \<Rightarrow> gostr \<Rightarrow> (gostr \<times> quicInitialPending) list
    \<Rightarrow> quicInitialPending option \<times> (gostr \<times> quicInitialPending) list" where
  "newEntry now key pendingMap =
    (let pendingMap = (if length pendingMap \<ge> quicPendingLimit
                       then filter (\<lambda>(k, p). \<not> pendingExpired p now) pendingMap else pendingMap)
     in if length pendingMap \<ge> quicPendingLimit then (None, pendingMap)
        else (Some quicPending0, AList.update key quicPending0 pendingMap))"

definition quicProxyEntry ::
  "int \<Rightarrow> gostr \<Rightarrow> (gostr \<times> quicInitialPending) list
    \<Rightarrow> quicInitialPending option \<times> (gostr \<times> quicInitialPending) list" where
  "quicProxyEntry now key pendingMap =
    (case map_of pendingMap key of
       Some p \<Rightarrow> if pendingExpired p now then newEntry now key pendingMap else (Some p, pendingMap)
     | None \<Rightarrow> newEntry now key pendingMap)"

text \<open>One datagram of a client.\<close>

definition QUICProxy ::
  "proxyEnv \<Rightarrow> int \<Rightarrow> gostr \<Rightarrow> bytes \<Rightarrow> quicProxyState \<Rightarrow> quicProxyState \<times> proxyEffect list" where
  "QUICProxy env now key datagram st =
    (let data = take quicUDPPacketSize datagram in
     case map_of (qp_connMap st) key of
       Some session \<Rightarrow>
         (let (out, ok, session) = quicProxyWriteUpstream env session data
          in (st\<lparr>qp_connMap := AList.update key session (qp_connMap st)\<rparr>, out))
     | None \<Rightarrow>
         (case quicProxyEntry now key (qp_pendingMap st) of
            (None, pendingMap) \<Rightarrow> (st\<lparr>qp_pendingMap := pendingMap\<rparr>, [])
          | (Some p, pendingMap) \<Rightarrow>
             (case pendingAdd p data now of
                (Inl _, p) \<Rightarrow> (st\<lparr>qp_pendingMap := AList.delete key pendingMap\<rparr>, [])
              | (Inr sni, p) \<Rightarrow>
                 (if pendingOverLimit p then (st\<lparr>qp_pendingMap := AList.delete key pendingMap\<rparr>, [])
                  else if sni = [] then (st\<lparr>qp_pendingMap := AList.update key p pendingMap\<rparr>, [])
                  else
                    quicProxyConnect env key sni (pendingDatagrams p)
                      (st\<lparr>qp_pendingMap := AList.delete key pendingMap\<rparr>)))))"

subsection \<open>Tables of pending clients\<close>

text \<open>
  What the tables of pending datagrams of the proxies have in common: a step relation with
  an invariant under which the number of entries and the size of each are bounded. Then
  so is what all of them hold together.
\<close>

locale pendingTable = machine init step inv
  for init :: 's and step :: "'s \<Rightarrow> 's \<Rightarrow> bool" and inv :: "'s \<Rightarrow> bool" +
  fixes pendings :: "'s \<Rightarrow> quicInitialPending list"
  assumes inv_entries: "inv s \<Longrightarrow> length (pendings s) \<le> quicPendingLimit"
    and inv_size: "inv s \<Longrightarrow> p \<in> set (pendings s) \<Longrightarrow> pend_size p \<le> quicPendingBytes"
begin

lemma entries_size: "(\<And>p. p \<in> set ps \<Longrightarrow> pend_size p \<le> b) \<Longrightarrow> sum_list (map pend_size ps) \<le> length ps * b"
  by (induction ps) (auto intro: add_mono)

lemma reachable_bytes:
  assumes "step\<^sup>*\<^sup>* init s"
  shows "sum_list (map pend_size (pendings s)) \<le> quicPendingLimit * quicPendingBytes"
proof -
  have "inv s"
    using assms by (rule reachable_inv)
  then have "sum_list (map pend_size (pendings s)) \<le> length (pendings s) * quicPendingBytes"
    by (intro entries_size) (rule inv_size)
  also have "\<dots> \<le> quicPendingLimit * quicPendingBytes"
    using inv_entries [OF \<open>inv s\<close>] by (rule mult_le_mono1)
  finally show ?thesis .
qed

end

subsection \<open>The proxy as a step relation\<close>

inductive proxyStep :: "quicProxyState \<Rightarrow> quicProxyState \<Rightarrow> bool" where
  datagram: "QUICProxy env now key data st = (st', out) \<Longrightarrow> proxyStep st st'"
| reply: "map_of (qp_connMap st) key = Some session \<Longrightarrow> quicProxyReply key session r st = (st', out) \<Longrightarrow> proxyStep st st'"

text \<open>An entry between two datagrams.\<close>

definition entryOk :: "quicInitialPending \<Rightarrow> bool" where
  "entryOk p \<longleftrightarrow> pendingOk p \<and> pend_size p \<le> quicPendingBytes"

definition proxyOk :: "quicProxyState \<Rightarrow> bool" where
  "proxyOk st \<longleftrightarrow> distinct (map fst (qp_connMap st)) \<and> distinct (map fst (qp_pendingMap st))
    \<and> keys (qp_connMap st) \<inter> keys (qp_pendingMap st) = {}
    \<and> length (qp_pendingMap st) \<le> quicPendingLimit \<and> (\<forall>p \<in> snd ` set (qp_pendingMap st). entryOk p)"

subsection \<open>The invariant\<close>

lemma newEntry_ok:
  assumes "distinct (map fst ps)" "length ps \<le> quicPendingLimit" "\<forall>p \<in> snd ` set ps. entryOk p"
    and "newEntry now key ps = (e, ps')"
  shows "distinct (map fst ps') \<and> length ps' \<le> quicPendingLimit \<and> (\<forall>p \<in> snd ` set ps'. entryOk p)
    \<and> keys ps' \<subseteq> insert key (keys ps) \<and> (e = None \<or> e = Some quicPending0)"
proof -
  let ?ps = "if length ps \<ge> quicPendingLimit then filter (\<lambda>(k, p). \<not> pendingExpired p now) ps else ps"
  have ps: "distinct (map fst ?ps)" "length ?ps \<le> quicPendingLimit" "set ?ps \<subseteq> set ps" "keys ?ps \<subseteq> keys ps"
    using assms(1,2) order_trans [OF length_filter_le [of "\<lambda>(k, p). \<not> pendingExpired p now" ps] assms(2)]
    by (auto simp: keys_def intro: distinct_map_filter)
  have new: "entryOk quicPending0"
    by (simp add: entryOk_def quicPending0_def) (simp add: pendingOk_def collectorOk_def quicCollector0_def clean_def)
  show ?thesis
  proof (cases "length ?ps \<ge> quicPendingLimit")
    case True
    then have "e = None" "ps' = ?ps"
      using assms(4) by (simp_all add: newEntry_def Let_def)
    moreover have "\<forall>p \<in> snd ` set ?ps. entryOk p"
      using ps(3) assms(3) by fast
    ultimately show ?thesis
      using ps by blast
  next
    case False
    then have e: "e = Some quicPending0" "ps' = AList.update key quicPending0 ?ps"
      using assms(4) by (simp_all add: newEntry_def Let_def)
    have "\<forall>p \<in> snd ` set ps'. entryOk p"
      using set_update [of key quicPending0 ?ps] ps(3) assms(3) new unfolding e by fastforce
    moreover have "keys ps' \<subseteq> insert key (keys ps)"
      using ps(4) by (auto simp: e alist_simps)
    ultimately show ?thesis
      using e ps False by (simp add: alist_simps length_update)
  qed
qed

lemma newEntry_key: "newEntry now key ps = (Some p, ps') \<Longrightarrow> p = quicPending0 \<and> pendingOk p \<and> key \<in> keys ps'"
  by (auto simp: newEntry_def Let_def alist_simps split: if_splits)

lemma quicProxyEntry_ok:
  assumes "distinct (map fst ps)" "length ps \<le> quicPendingLimit" "\<forall>p \<in> snd ` set ps. entryOk p"
    and "quicProxyEntry now key ps = (e, ps')"
  shows "distinct (map fst ps') \<and> length ps' \<le> quicPendingLimit \<and> (\<forall>p \<in> snd ` set ps'. entryOk p)
    \<and> keys ps' \<subseteq> insert key (keys ps) \<and> (\<forall>p. e = Some p \<longrightarrow> pendingOk p \<and> key \<in> keys ps')"
proof (cases "map_of ps key")
  case (Some p)
  then have "entryOk p" "key \<in> keys ps"
    using assms(3) map_of_SomeD [OF Some] by (force, simp add: map_of_fst(1))
  with Some show ?thesis
    using assms newEntry_ok [OF assms(1-3), of now key]
    by (auto simp: quicProxyEntry_def entryOk_def split: if_splits dest: newEntry_key)
next
  case None
  with assms show ?thesis
    using newEntry_ok [OF assms(1-3), of now key]
    by (auto simp: quicProxyEntry_def dest: newEntry_key)
qed

text \<open>Removing or replacing the client's entry.\<close>

definition tableOk :: "(gostr \<times> quicInitialPending) list \<Rightarrow> bool" where
  "tableOk ps \<longleftrightarrow> distinct (map fst ps) \<and> length ps \<le> quicPendingLimit \<and> (\<forall>p \<in> snd ` set ps. entryOk p)"

lemma tableOk_delete: "tableOk ps \<Longrightarrow> tableOk (AList.delete k ps)"
  using set_delete [of k ps] order_trans [OF AList.length_delete_le [of k ps]]
  by (auto simp: tableOk_def alist_simps)

lemma tableOk_update: "tableOk ps \<Longrightarrow> k \<in> keys ps \<Longrightarrow> entryOk p \<Longrightarrow> tableOk (AList.update k p ps)"
  using set_update [of k p ps] by (auto simp: tableOk_def alist_simps length_update)

lemma proxyOk_table:
  "proxyOk st \<longleftrightarrow> distinct (map fst (qp_connMap st)) \<and> keys (qp_connMap st) \<inter> keys (qp_pendingMap st) = {}
    \<and> tableOk (qp_pendingMap st)"
  by (auto simp: proxyOk_def tableOk_def)

lemma quicProxyConnect_state:
  assumes "quicProxyConnect env key sni ds st = (st', out)"
  shows "qp_pendingMap st' = qp_pendingMap st
    \<and> (qp_connMap st' = qp_connMap st \<or> qp_connMap st' = AList.delete key (qp_connMap st)
       \<or> (\<exists>s. qp_connMap st' = AList.update key s (qp_connMap st)))"
  using assms by (auto simp: quicProxyConnect_def Let_def split: option.splits if_splits prod.splits)

lemma proxyOk_connect:
  assumes "proxyOk st" "key \<notin> keys (qp_pendingMap st)" and "quicProxyConnect env key sni ds st = (st', out)"
  shows "proxyOk st'"
  using assms(1,2) quicProxyConnect_state [OF assms(3)] by (auto simp: proxyOk_table alist_simps)

lemma QUICProxy_ok:
  assumes ok: "proxyOk st" and step: "QUICProxy env now key data st = (st', out)"
  shows "proxyOk st'"
proof (cases "map_of (qp_connMap st) key")
  case (Some session)
  have "key \<in> keys (qp_connMap st)"
    using Some by (rule map_of_fst(1))
  then show ?thesis
    using ok step Some by (auto simp: QUICProxy_def Let_def proxyOk_table alist_simps split: prod.splits)
next
  case None
  then have key: "key \<notin> keys (qp_connMap st)"
    by (simp add: map_of_fst(2))
  obtain e ps where entry: "quicProxyEntry now key (qp_pendingMap st) = (e, ps)"
    by (cases "quicProxyEntry now key (qp_pendingMap st)")
  have table: "tableOk ps" "keys ps \<subseteq> insert key (keys (qp_pendingMap st))"
    "\<forall>p. e = Some p \<longrightarrow> pendingOk p \<and> key \<in> keys ps"
    using ok quicProxyEntry_ok [OF _ _ _ entry] by (auto simp: proxyOk_def tableOk_def)
  have apart: "keys (qp_connMap st) \<inter> keys ps = {}"
    using table(2) key ok by (auto simp: proxyOk_def)
  have deleted: "proxyOk (st\<lparr>qp_pendingMap := AList.delete key ps\<rparr>)"
    using ok apart table(1) by (auto simp: proxyOk_table tableOk_delete alist_simps)
  show ?thesis
  proof (cases e)
    case None
    then show ?thesis
      using step entry \<open>map_of (qp_connMap st) key = None\<close> ok apart table(1)
      by (auto simp: QUICProxy_def Let_def proxyOk_table)
  next
    case (Some p)
    obtain r p' where add: "pendingAdd p (take quicUDPPacketSize data) now = (r, p')"
      by (cases "pendingAdd p (take quicUDPPacketSize data) now")
    have p': "pendingOk p'"
      using pendingAdd_ok [OF _ add] table(3) Some by simp
    have updated: "proxyOk (st\<lparr>qp_pendingMap := AList.update key p' ps\<rparr>)" if "\<not> pendingOverLimit p'"
      using ok apart key table Some p' that
      by (auto simp: proxyOk_table alist_simps entryOk_def pendingOverLimit_def intro!: tableOk_update)
    have connected: "proxyOk st'"
      if "quicProxyConnect env key sni ds (st\<lparr>qp_pendingMap := AList.delete key ps\<rparr>) = (st', out)" for sni ds
      using that by (intro proxyOk_connect [OF deleted]) (simp_all add: alist_simps)
    show ?thesis
      using step entry None Some add deleted updated connected
      by (auto simp: QUICProxy_def Let_def alist_simps split: sum.splits if_splits)
  qed
qed

lemma quicProxyReply_ok: "proxyOk st \<Longrightarrow> quicProxyReply key session r st = (st', out) \<Longrightarrow> proxyOk st'"
  by (auto simp: quicProxyReply_def proxyOk_table alist_simps split: option.splits prod.splits)

lemma proxyStep_ok: "proxyOk st \<Longrightarrow> proxyStep st st' \<Longrightarrow> proxyOk st'"
  by (erule proxyStep.cases) (auto intro: QUICProxy_ok quicProxyReply_ok)

interpretation quicProxy: pendingTable quicProxyState0 proxyStep proxyOk "\<lambda>st. map snd (qp_pendingMap st)"
proof
  show "proxyOk quicProxyState0"
    by (simp add: proxyOk_def quicProxyState0_def keys_def)
  show "proxyOk s'" if "proxyOk s" "proxyStep s s'" for s s'
    using that by (rule proxyStep_ok)
qed (auto simp: proxyOk_def entryOk_def)

subsection \<open>Clients do not disturb each other\<close>

text \<open>An entry is kept, unless it has expired and the table was full.\<close>

definition keptEntry :: "int \<Rightarrow> (gostr \<times> quicInitialPending) list \<Rightarrow> (gostr \<times> quicInitialPending) list \<Rightarrow> gostr \<Rightarrow> bool" where
  "keptEntry now ps ps' k \<longleftrightarrow> map_of ps' k = map_of ps k
    \<or> map_of ps' k = None \<and> length ps \<ge> quicPendingLimit \<and> (\<exists>p. map_of ps k = Some p \<and> pendingExpired p now)"

lemma newEntry_kept:
  "distinct (map fst ps) \<Longrightarrow> k \<noteq> key \<Longrightarrow> newEntry now key ps = (e, ps') \<Longrightarrow> keptEntry now ps ps' k"
  by (auto simp: newEntry_def Let_def keptEntry_def alist_simps map_of_filter_distinct
      simp del: map_of_eq_Some_iff split: if_splits option.splits)

lemma keptEntry_refl: "keptEntry now ps ps k"
  by (simp add: keptEntry_def)

lemma quicProxyEntry_kept:
  "distinct (map fst ps) \<Longrightarrow> k \<noteq> key \<Longrightarrow> quicProxyEntry now key ps = (e, ps') \<Longrightarrow> keptEntry now ps ps' k"
  by (auto simp: quicProxyEntry_def keptEntry_refl split: option.splits if_splits dest: newEntry_kept)

lemma QUICProxy_others:
  assumes "distinct (map fst (qp_pendingMap st))" "k \<noteq> key" and "QUICProxy env now key data st = (st', out)"
  shows "map_of (qp_connMap st') k = map_of (qp_connMap st) k \<and> keptEntry now (qp_pendingMap st) (qp_pendingMap st') k"
proof -
  obtain e ps where entry: "quicProxyEntry now key (qp_pendingMap st) = (e, ps)"
    by (cases "quicProxyEntry now key (qp_pendingMap st)")
  have kept: "keptEntry now (qp_pendingMap st) ps k"
    using quicProxyEntry_kept [OF assms(1,2) entry] .
  have connect: "map_of (qp_connMap st') k = map_of (qp_connMap st) k \<and> keptEntry now (qp_pendingMap st) (qp_pendingMap st') k"
    if "quicProxyConnect env key sni ds (st\<lparr>qp_pendingMap := AList.delete key ps\<rparr>) = (st', out)" for sni ds
    using quicProxyConnect_state [OF that] kept assms(2) by (auto simp: alist_simps keptEntry_def)
  show ?thesis
    using assms(2,3) entry kept keptEntry_refl connect
    by (auto simp: QUICProxy_def Let_def alist_simps split: option.splits sum.splits if_splits prod.splits)
       (simp_all add: keptEntry_def alist_simps)
qed

text \<open>What a turn writes goes to the client's own session, or to a connection dialled for it.\<close>

definition effectOn :: "nat set \<Rightarrow> proxyEffect \<Rightarrow> bool" where
  "effectOn conns e = (case e of Upstream c d \<Rightarrow> c \<in> conns | Downstream k d \<Rightarrow> False | CloseConn c \<Rightarrow> c \<in> conns)"

lemma writeUpstream_effects:
  "quicProxyWriteUpstream env session d = (out, ok, session') \<Longrightarrow>
    qs_conn session' = qs_conn session \<and> (\<forall>e \<in> set out. effectOn {qs_conn session} e)"
  by (auto simp: quicProxyWriteUpstream_def effectOn_def split: option.splits prod.splits if_splits)

lemma flushInitial_effects:
  "quicProxyFlushInitial env session ds = (out, ok, session') \<Longrightarrow>
    qs_conn session' = qs_conn session \<and> (\<forall>e \<in> set out. effectOn {qs_conn session} e)"
proof (induction env session ds arbitrary: out ok session' rule: quicProxyFlushInitial.induct)
  case (2 env session d ds)
  obtain w wok s where w: "quicProxyWriteUpstream env session d = (w, wok, s)"
    by (cases "quicProxyWriteUpstream env session d") auto
  show ?case
    using 2 w writeUpstream_effects [OF w] by (auto split: bool.splits prod.splits)
qed simp

lemma quicProxyConnect_effects:
  assumes "quicProxyConnect env key sni ds st = (st', out)" and "e \<in> set out"
  shows "effectOn {c. \<exists>ob name. pe_dial env ob name 443 = Some c} e"
proof -
  obtain ob conn where dial: "pe_dial env ob sni 443 = Some conn"
    using assms by (auto simp: quicProxyConnect_def split: option.splits if_splits)
  have on: "effectOn {conn} e \<Longrightarrow> pe_dial env ob sni 443 = Some conn \<Longrightarrow> effectOn {c. \<exists>ob name. pe_dial env ob name 443 = Some c} e"
    for conn ob
    by (auto simp: effectOn_def split: proxyEffect.splits)
  show ?thesis
    using assms
    by (auto simp: quicProxyConnect_def Let_def split: option.splits if_splits prod.splits
        dest!: flushInitial_effects intro!: on) (auto simp: effectOn_def)
qed

lemma QUICProxy_effects:
  assumes "QUICProxy env now key data st = (st', out)" and "e \<in> set out"
  shows "effectOn (case map_of (qp_connMap st) key of Some s \<Rightarrow> {qs_conn s}
    | None \<Rightarrow> {c. \<exists>ob name. pe_dial env ob name 443 = Some c}) e"
  using assms
  by (auto simp: QUICProxy_def Let_def split: option.splits prod.splits sum.splits if_splits
      dest: writeUpstream_effects quicProxyConnect_effects)

subsection \<open>Properties\<close>

definition sampleProxyEnv :: proxyEnv where
  "sampleProxyEnv = \<lparr>pe_profile = None, pe_default = None, pe_depth = 2, pe_dial = (\<lambda>_ _ _. None), pe_random = 0, pe_accepts = (\<lambda>_ _. True)\<rparr>"

lemma sample_turn: "QUICProxy sampleProxyEnv 5 [97] [0x40] quicProxyState0 = (quicProxyState0, [])"
  by (simp add: QUICProxy_def quicProxyState0_def quicProxyEntry_def newEntry_def quicPendingLimit_def quicUDPPacketSize_def
      pendingAdd_def quicPending0_def collectorAdd_def collectorLoop.simps)

text \<open>C17: Whatever datagrams and replies arrive, the proxy's tables stay bounded: each client has
  at most one session or one list of waiting datagrams, never both; at most 1024 clients wait,
  each with at most 256 KiB, so all that waits is at most 256 MiB.\<close>

theorem proxy_bounded:
  assumes "proxyStep\<^sup>*\<^sup>* quicProxyState0 st"
  shows "proxyOk st \<and> sum_list (map pend_size (map snd (qp_pendingMap st))) \<le> 1024 * 262144"
  using quicProxy.reachable_inv [OF assms] quicProxy.reachable_bytes [OF assms]
  by (simp add: quicPendingLimit_def quicPendingBytes_def)

theorem proxy_bounded_witness:
  "\<exists>st. proxyStep quicProxyState0 st \<and> proxyOk st \<and> sum_list (map pend_size (map snd (qp_pendingMap st))) \<le> 1024 * 262144"
proof -
  have step: "proxyStep quicProxyState0 quicProxyState0"
    using sample_turn by (rule proxyStep.datagram)
  then have "proxyStep\<^sup>*\<^sup>* quicProxyState0 quicProxyState0"
    by (rule r_into_rtranclp)
  from proxy_bounded [OF this] step show ?thesis by blast
qed

text \<open>A client's datagram does not touch the other clients: their sessions stay as they are,
  and so do their waiting datagrams, except that those which have expired may go when the
  table is full. What is written goes to the client's own session, and when it has none to a
  connection dialled in this turn.\<close>

theorem proxy_isolated:
  assumes "proxyStep\<^sup>*\<^sup>* quicProxyState0 st" and "QUICProxy env now key data st = (st', out)"
  shows "(\<forall>k. k \<noteq> key \<longrightarrow> map_of (qp_connMap st') k = map_of (qp_connMap st) k
      \<and> keptEntry now (qp_pendingMap st) (qp_pendingMap st') k)
    \<and> (\<forall>e \<in> set out. effectOn (case map_of (qp_connMap st) key of Some s \<Rightarrow> {qs_conn s}
        | None \<Rightarrow> {c. \<exists>ob name. pe_dial env ob name 443 = Some c}) e)"
proof -
  have "distinct (map fst (qp_pendingMap st))"
    using quicProxy.reachable_inv [OF assms(1)] by (simp add: proxyOk_def)
  then show ?thesis
    using QUICProxy_others [OF _ _ assms(2)] QUICProxy_effects [OF assms(2)] by blast
qed

theorem proxy_isolated_witness:
  "\<exists>st' out. QUICProxy sampleProxyEnv 5 [97] [0x40] quicProxyState0 = (st', out)
    \<and> map_of (qp_connMap st') [98] = map_of (qp_connMap quicProxyState0) [98]
    \<and> keptEntry 5 (qp_pendingMap quicProxyState0) (qp_pendingMap st') [98]"
proof -
  have "([98] :: gostr) \<noteq> [97]"
    by simp
  with proxy_isolated [OF rtranclp.rtrancl_refl sample_turn] sample_turn show ?thesis
    by blast
qed

end
