(* ===== verification/Socks_Conn.thy ===== *)
theory Socks_Conn
  imports Dns_Lookup
begin

text \<open>
  A TCP connection as the handlers of \<open>phantomtcp/socks.go\<close> see it: the segments that will
  arrive on it, what has been written, and how many more writes it takes before it breaks.
  Reading beyond the last segment fails. A handler is a computation over this state that
  returns a value or the error it stops with.
\<close>

record tcpConn =
  tc_in :: "bytes list"
  tc_out :: "bytes list"
  tc_left :: nat

type_synonym 'a io = "tcpConn \<Rightarrow> (error + 'a) \<times> tcpConn"

definition ioReturn :: "'a \<Rightarrow> 'a io" where
  "ioReturn v conn = (Inr v, conn)"

definition ioError :: "error \<Rightarrow> 'a io" where
  "ioError e conn = (Inl e, conn)"

definition ioBind :: "'a io \<Rightarrow> ('a \<Rightarrow> 'b io) \<Rightarrow> 'b io" where
  "ioBind m f conn = (case m conn of (Inl e, conn) \<Rightarrow> (Inl e, conn) | (Inr v, conn) \<Rightarrow> f v conn)"

text \<open>With a handler for the error.\<close>

definition ioCatch :: "'a io \<Rightarrow> (error \<Rightarrow> 'b io) \<Rightarrow> ('a \<Rightarrow> 'b io) \<Rightarrow> 'b io" where
  "ioCatch m h f conn = (case m conn of (Inl e, conn) \<Rightarrow> h e conn | (Inr v, conn) \<Rightarrow> f v conn)"

definition connWrite :: "bytes \<Rightarrow> unit io" where
  "connWrite d conn =
    (case tc_left conn of 0 \<Rightarrow> (Inl ''write'', conn)
     | Suc k \<Rightarrow> (Inr (), conn\<lparr>tc_out := tc_out conn @ [d], tc_left := k\<rparr>))"

text \<open>A write whose error the code ignores.\<close>

definition connWriteIgnore :: "bytes \<Rightarrow> unit io" where
  "connWriteIgnore d conn = (Inr (), snd (connWrite d conn))"

text \<open>One \<open>Read\<close> into a buffer of \<open>m\<close> bytes.\<close>

definition connReadSome :: "nat \<Rightarrow> bytes io" where
  "connReadSome m conn =
    (case connRead m (tc_in conn) of None \<Rightarrow> (Inl ''EOF'', conn)
     | Some (d, rest) \<Rightarrow> (Inr d, conn\<lparr>tc_in := rest\<rparr>))"

text \<open>\<open>ReadFull\<close> and \<open>io.ReadFull\<close>: exactly \<open>n\<close> bytes, or an error when the segments end.\<close>

fun readSegments :: "nat \<Rightarrow> bytes list \<Rightarrow> (bytes \<times> bytes list) option" where
  "readSegments 0 segs = Some ([], segs)"
| "readSegments (Suc n) [] = None"
| "readSegments (Suc n) (c # cs) =
    (if length c \<le> Suc n then
       (case readSegments (Suc n - length c) cs of None \<Rightarrow> None | Some (d, segs) \<Rightarrow> Some (c @ d, segs))
     else Some (take (Suc n) c, drop (Suc n) c # cs))"

definition ReadFull :: "nat \<Rightarrow> bytes io" where
  "ReadFull n conn =
    (case readSegments n (tc_in conn) of None \<Rightarrow> (Inl ''EOF'', conn\<lparr>tc_in := []\<rparr>)
     | Some (d, rest) \<Rightarrow> (Inr d, conn\<lparr>tc_in := rest\<rparr>))"

subsection \<open>What is read does not depend on the segments\<close>

lemma readSegments_Some:
  "readSegments n segs = Some (d, rest) \<Longrightarrow> concat segs = d @ concat rest \<and> length d = n"
proof (induction n segs arbitrary: d rest rule: readSegments.induct)
  case (3 n c cs)
  show ?case
  proof (cases "length c \<le> Suc n")
    case True
    then obtain e where "readSegments (Suc n - length c) cs = Some (e, rest)" "d = c @ e"
      using 3(2) by (auto split: option.splits)
    with 3(1) [OF True] True show ?thesis by fastforce
  next
    case False
    with 3(2) have "d = take (Suc n) c" "rest = drop (Suc n) c # cs"
      by simp_all
    with False show ?thesis by (simp flip: append_assoc)
  qed
qed simp_all

lemma readSegments_None: "readSegments n segs = None \<longleftrightarrow> length (concat segs) < n"
proof (induction n segs rule: readSegments.induct)
  case (3 n c cs)
  then show ?case by (cases "length c \<le> Suc n") (auto split: option.splits)
qed simp_all

text \<open>
  A handler that takes the bytes \<open>d\<close> off the connection, however they are cut, writes
  \<open>out\<close>, as long as the connection takes that many writes, and returns \<open>v\<close>.
\<close>

definition talks :: "'a io \<Rightarrow> bytes \<Rightarrow> bytes list \<Rightarrow> 'a \<Rightarrow> bool" where
  "talks m d out v \<longleftrightarrow> (\<forall>(conn :: tcpConn) s. concat (tc_in conn) = d @ s \<longrightarrow> length out \<le> tc_left conn \<longrightarrow>
    (\<exists>rest. m conn = (Inr v, conn\<lparr>tc_in := rest, tc_out := tc_out conn @ out, tc_left := tc_left conn - length out\<rparr>)
      \<and> concat rest = s))"

abbreviation reads :: "'a io \<Rightarrow> bytes \<Rightarrow> 'a \<Rightarrow> bool" where
  "reads m d v \<equiv> talks m d [] v"

lemma talksE:
  assumes "talks m d out v" and "concat (tc_in conn) = d @ s" and "length out \<le> tc_left conn"
  obtains rest where "concat rest = s"
    "m conn = (Inr v, conn\<lparr>tc_in := rest, tc_out := tc_out conn @ out, tc_left := tc_left conn - length out\<rparr>)"
  using assms by (auto simp: talks_def)

lemma talks_return [intro]: "talks (ioReturn v) [] [] v"
  by (auto simp: talks_def ioReturn_def intro!: exI [of _ "tc_in _"])

lemma talks_write [intro]: "talks (connWrite d) [] [d] ()"
  by (auto simp: talks_def connWrite_def split: nat.splits intro!: exI [of _ "tc_in _"])

lemma talks_ReadFull [intro]: "length d = n \<Longrightarrow> talks (ReadFull n) d [] d"
  unfolding talks_def
proof (intro allI impI)
  fix conn :: tcpConn and s
  assume d: "length d = n" "concat (tc_in conn) = d @ s"
  then have "readSegments n (tc_in conn) \<noteq> None"
    by (simp add: readSegments_None)
  then obtain d' rest where r: "readSegments n (tc_in conn) = Some (d', rest)"
    by auto
  with readSegments_Some [OF r] d have "d' = d" "concat rest = s"
    by auto
  with r show "\<exists>rest. ReadFull n conn =
      (Inr d, conn\<lparr>tc_in := rest, tc_out := tc_out conn @ [], tc_left := tc_left conn - length ([] :: bytes list)\<rparr>) \<and> concat rest = s"
    by (auto simp: ReadFull_def)
qed

lemma talks_catch:
  assumes "talks m d out v" and "talks (f v) e out' w"
  shows "talks (ioCatch m h f) (d @ e) (out @ out') w"
  unfolding talks_def
proof (intro allI impI)
  fix conn :: tcpConn and s
  assume c: "concat (tc_in conn) = (d @ e) @ s" "length (out @ out') \<le> tc_left conn"
  obtain r1 where r1: "concat r1 = e @ s"
    "m conn = (Inr v, conn\<lparr>tc_in := r1, tc_out := tc_out conn @ out, tc_left := tc_left conn - length out\<rparr>)"
    by (rule talksE [OF assms(1), of conn "e @ s"]) (use c in auto)
  let ?c = "conn\<lparr>tc_in := r1, tc_out := tc_out conn @ out, tc_left := tc_left conn - length out\<rparr>"
  obtain r2 where "concat r2 = s"
    "f v ?c = (Inr w, ?c\<lparr>tc_in := r2, tc_out := tc_out ?c @ out', tc_left := tc_left ?c - length out'\<rparr>)"
    by (rule talksE [OF assms(2), of ?c s]) (use c r1 in auto)
  with r1(2) show "\<exists>rest. ioCatch m h f conn =
      (Inr w, conn\<lparr>tc_in := rest, tc_out := tc_out conn @ out @ out', tc_left := tc_left conn - length (out @ out')\<rparr>) \<and> concat rest = s"
    by (auto simp: ioCatch_def)
qed

lemma ioBind_catch: "ioBind m f = ioCatch m ioError f"
  by (rule ext) (simp add: ioBind_def ioCatch_def ioError_def [abs_def])

lemma talks_bind: "talks m d out v \<Longrightarrow> talks (f v) e out' w \<Longrightarrow> talks (ioBind m f) (d @ e) (out @ out') w"
  unfolding ioBind_catch by (rule talks_catch)

lemma talks_ReadFull_bind: "length d = n \<Longrightarrow> talks (f d) e out w \<Longrightarrow> talks (ioBind (ReadFull n) f) (d @ e) out w"
  using talks_bind [OF talks_ReadFull, of d n f e out w] by simp

lemma talks_write_bind: "talks (f ()) e out w \<Longrightarrow> talks (ioBind (connWrite d) f) e (d # out) w"
  using talks_bind [OF talks_write, of f e out w d] by simp

lemma talks_ReadFull_return: "length d = n \<Longrightarrow> f d = ioReturn w \<Longrightarrow> talks (ioBind (ReadFull n) f) d [] w"
  using talks_ReadFull_bind [of d n f "[]" "[]" w] by auto

subsection \<open>The interface of a framed protocol\<close>

text \<open>
  What is written for a value, and a handler that reads one value off the bytes. A sequence
  of frames is then read back as it was written, whatever way TCP cuts it.
\<close>

fun ioMany :: "nat \<Rightarrow> 'a io \<Rightarrow> 'a list io" where
  "ioMany 0 m = ioReturn []"
| "ioMany (Suc n) m = ioBind m (\<lambda>v. ioBind (ioMany n m) (\<lambda>vs. ioReturn (v # vs)))"

locale framed =
  fixes frame :: "'a \<Rightarrow> bytes"
    and receive :: "'b io"
    and seen :: "'a \<Rightarrow> 'b"
    and ok :: "'a \<Rightarrow> bool"
  assumes receive_frame: "ok v \<Longrightarrow> reads receive (frame v) (seen v)"
begin

lemma receive_frames:
  "\<forall>v \<in> set vs. ok v \<Longrightarrow> reads (ioMany (length vs) receive) (concat (map frame vs)) (map seen vs)"
proof (induction vs)
  case (Cons v vs)
  have "reads (ioBind (ioMany (length vs) receive) (\<lambda>ws. ioReturn (seen v # ws)))
      (concat (map frame vs) @ []) (map seen (v # vs))"
    using talks_bind [OF Cons.IH, of "\<lambda>ws. ioReturn (seen v # ws)" "[]" "[]"] Cons.prems by auto
  then show ?case
    using talks_bind [OF receive_frame [of v], of "\<lambda>v. ioBind (ioMany (length vs) receive) (\<lambda>vs. ioReturn (v # vs))"]
      Cons.prems by fastforce
qed auto

end

end
