(* ===== verification/Socks_Wire.thy ===== *)
theory Socks_Wire
  imports Socks_Conn
begin

text \<open>
  The messages of SOCKS (\<open>phantomtcp/socks.go\<close>, \<open>phantomtcp/udp.go\<close>): the replies of the
  server, its greeting and request, the client's side of both, and the headers of relayed
  datagrams. An address that is not a TCP address is \<open>None\<close>.
\<close>

record tcpAddr =
  ta_IP :: bytes
  ta_Port :: nat

definition socks5RepSucceeded :: byte where "socks5RepSucceeded = 0x00"
definition socks5RepGeneralFailure :: byte where "socks5RepGeneralFailure = 0x01"
definition socks5RepNotAllowed :: byte where "socks5RepNotAllowed = 0x02"
definition socks5RepHostUnreachable :: byte where "socks5RepHostUnreachable = 0x04"
definition socks5RepConnectionRefused :: byte where "socks5RepConnectionRefused = 0x05"
definition socks5RepCommandNotSupported :: byte where "socks5RepCommandNotSupported = 0x07"
definition socks5RepAddrTypeNotSupported :: byte where "socks5RepAddrTypeNotSupported = 0x08"

lemmas socks5_reps = socks5RepSucceeded_def socks5RepGeneralFailure_def socks5RepNotAllowed_def
  socks5RepHostUnreachable_def socks5RepConnectionRefused_def socks5RepCommandNotSupported_def
  socks5RepAddrTypeNotSupported_def

definition IPv4zero :: bytes where
  "IPv4zero = To16 [0, 0, 0, 0]"

unbundle bit_operations_syntax

subsection \<open>Replies\<close>

definition socks5AddrReply :: "byte \<Rightarrow> tcpAddr \<Rightarrow> bytes" where
  "socks5AddrReply rep addr =
    (if To4 (ta_IP addr) \<noteq> [] then [5, rep, 0, 1] @ To4 (ta_IP addr) @ be_bytes 2 (ta_Port addr)
     else [5, rep, 0, 4] @ copy_at (replicate 16 0) 0 (To16 (ta_IP addr)) @ be_bytes 2 (ta_Port addr))"

definition socks5ConnectReply :: bytes where
  "socks5ConnectReply = socks5AddrReply socks5RepSucceeded \<lparr>ta_IP = IPv4zero, ta_Port = 0\<rparr>"

definition socks5UDPAssociateReply :: "tcpAddr option \<Rightarrow> bytes" where
  "socks5UDPAssociateReply local =
    (case local of None \<Rightarrow> socks5AddrReply socks5RepGeneralFailure \<lparr>ta_IP = [], ta_Port = 0\<rparr>
     | Some la \<Rightarrow> socks5AddrReply socks5RepSucceeded la)"

text \<open>The empty reply is none: BIND answers later.\<close>

definition socks5HandshakeReply :: "byte \<Rightarrow> tcpAddr option \<Rightarrow> bytes" where
  "socks5HandshakeReply cmd local =
    (if cmd = 1 \<or> cmd = 5 then socks5ConnectReply
     else if cmd = 3 then socks5UDPAssociateReply local
     else if cmd = 2 then []
     else socks5AddrReply socks5RepCommandNotSupported
       (case local of Some la \<Rightarrow> la | None \<Rightarrow> \<lparr>ta_IP = [], ta_Port = 0\<rparr>))"

subsection \<open>Addresses of BIND\<close>

definition isUnspecifiedIP :: "bytes \<Rightarrow> bool" where
  "isUnspecifiedIP ip \<longleftrightarrow> ip = [] \<or> To4 ip = [0, 0, 0, 0] \<or> ip = replicate 16 0"

text \<open>The errors that \<open>net.Listen\<close> wraps.\<close>

datatype bindError = EADDRINUSE | EADDRNOTAVAIL | EACCES | EPERM | OpError "bindError option" | OtherError

fun bindErrorIs :: "bindError \<Rightarrow> bindError \<Rightarrow> bool" where
  "bindErrorIs (OpError (Some e)) target = bindErrorIs e target"
| "bindErrorIs e target = (e = target)"

fun socks5BindRep :: "bindError option \<Rightarrow> byte" where
  "socks5BindRep None = socks5RepSucceeded"
| "socks5BindRep (Some err) =
    (if bindErrorIs err EADDRINUSE then socks5RepConnectionRefused
     else if bindErrorIs err EADDRNOTAVAIL then socks5RepHostUnreachable
     else if bindErrorIs err EACCES \<or> bindErrorIs err EPERM then socks5RepNotAllowed
     else (case err of OpError (Some e) \<Rightarrow> socks5BindRep (Some e) | _ \<Rightarrow> socks5RepGeneralFailure))"

definition bindListenNetwork :: "tcpAddr \<Rightarrow> bytes \<Rightarrow> gostr" where
  "bindListenNetwork la reqAddr =
    (if \<not> isUnspecifiedIP reqAddr then (if To4 reqAddr \<noteq> [] then str ''tcp'' else str ''tcp6'')
     else if To4 (ta_IP la) \<noteq> [] then str ''tcp'' else str ''tcp6'')"

definition JoinHostPort :: "gostr \<Rightarrow> gostr \<Rightarrow> gostr" where
  "JoinHostPort host port =
    (if 58 \<in> set host then str ''['' @ host @ str '']:'' @ port else host @ str '':'' @ port)"

definition bindListenAddr :: "bytes \<Rightarrow> nat \<Rightarrow> gostr" where
  "bindListenAddr reqAddr reqPort =
    (if isUnspecifiedIP reqAddr then
       (if reqPort = 0 then str '':0'' else str '':'' @ decString reqPort)
     else if reqPort = 0 then JoinHostPort (IPString reqAddr) (str ''0'')
     else JoinHostPort (IPString reqAddr) (decString reqPort))"

definition bindReplyAddr :: "tcpAddr \<Rightarrow> bytes \<Rightarrow> tcpAddr \<Rightarrow> tcpAddr" where
  "bindReplyAddr la reqAddr bound =
    (if isUnspecifiedIP reqAddr then \<lparr>ta_IP = ta_IP la, ta_Port = ta_Port bound\<rparr> else bound)"

subsection \<open>The client\<close>

definition socks5BindRequest :: "bytes \<Rightarrow> int \<Rightarrow> bytes" where
  "socks5BindRequest bindIP bindPort =
    (let port = be_bytes 2 (nat (bindPort mod 65536)) in
     if bindIP \<noteq> [] \<and> \<not> isUnspecifiedIP bindIP \<and> To4 bindIP = [] then
       [0x05, 0x02, 0x00, 0x04] @ copy_at (replicate 16 0) 0 (To16 bindIP) @ port
     else
       [0x05, 0x02, 0x00, 0x01] @
       (if bindIP \<noteq> [] \<and> \<not> isUnspecifiedIP bindIP then To4 bindIP else [0, 0, 0, 0]) @ port)"

definition socks5Negotiate :: "gostr \<Rightarrow> gostr \<Rightarrow> unit io" where
  "socks5Negotiate user password =
    (if user = [] then
       ioBind (connWrite [0x05, 0x01, 0x00]) (\<lambda>_.
       ioBind (ReadFull 2) (\<lambda>b.
         if b ! 0 \<noteq> 0x05 \<or> b ! 1 \<noteq> 0x00 then ioError ''invalid proxy'' else ioReturn ()))
     else
       ioBind (connWrite [0x05, 0x02, 0x00, 0x02]) (\<lambda>_.
       ioBind (ReadFull 2) (\<lambda>b.
         if b ! 0 \<noteq> 0x05 then ioError ''invalid proxy''
         else if b ! 1 = 0x00 then ioReturn ()
         else if b ! 1 = 0x02 then
           ioBind (connWrite ([0x01, of_nat (length user)] @ user @ [of_nat (length password)] @ password)) (\<lambda>_.
           ioBind (ReadFull 2) (\<lambda>b.
             if b ! 0 \<noteq> 0x01 \<or> b ! 1 \<noteq> 0x00 then ioError ''invalid proxy'' else ioReturn ()))
         else ioError ''invalid proxy'')))"

text \<open>The reply code and the address; the code that comes with an error is not used.\<close>

definition socks5ReadAddrReply :: "(byte \<times> tcpAddr) io" where
  "socks5ReadAddrReply =
    ioBind (ReadFull 4) (\<lambda>b.
      if b ! 0 \<noteq> 0x05 then ioError ''invalid proxy''
      else if b ! 3 = 0x01 then
        ioBind (ReadFull 6) (\<lambda>a.
          ioReturn (b ! 1, \<lparr>ta_IP = take 4 a, ta_Port = be_nat (drop 4 a)\<rparr>))
      else if b ! 3 = 0x03 then
        ioBind (ReadFull 1) (\<lambda>l.
        ioBind (ReadFull (unat (l ! 0) + 2)) (\<lambda>a.
          ioReturn (b ! 1, \<lparr>ta_IP = ParseIP (take (unat (l ! 0)) a), ta_Port = be_nat (drop (unat (l ! 0)) a)\<rparr>)))
      else if b ! 3 = 0x04 then
        ioBind (ReadFull 18) (\<lambda>a.
          ioReturn (b ! 1, \<lparr>ta_IP = take 16 a, ta_Port = be_nat (drop 16 a)\<rparr>))
      else ioError ''invalid proxy'')"

record SocksListenConfig =
  sl_ProxyHost :: gostr
  sl_ProxyPort :: int
  sl_User :: gostr
  sl_Password :: gostr
  sl_BindIP :: bytes
  sl_BindPort :: int

text \<open>
  \<open>dial\<close> is the dialler of the system: the connection and its remote address. The address
  that the proxy bound comes with the connection on which the inbound one is announced.
\<close>

definition bindExchange :: "SocksListenConfig \<Rightarrow> tcpAddr io" where
  "bindExchange cfg =
    ioBind (socks5Negotiate (sl_User cfg) (sl_Password cfg)) (\<lambda>_.
    ioBind (connWrite (socks5BindRequest (sl_BindIP cfg) (sl_BindPort cfg))) (\<lambda>_.
    ioBind socks5ReadAddrReply (\<lambda>r.
      if fst r \<noteq> socks5RepSucceeded then ioError ''socks bind failed'' else ioReturn (snd r))))"

definition DialTCPBind ::
  "(gostr \<Rightarrow> (tcpConn \<times> tcpAddr option) option) \<Rightarrow> SocksListenConfig option \<Rightarrow> error + tcpConn \<times> tcpAddr" where
  "DialTCPBind dial config =
    (case config of None \<Rightarrow> Inl ''missing socks listen config''
     | Some cfg \<Rightarrow>
        (if sl_ProxyHost cfg = [] then Inl ''missing proxy host''
         else if sl_ProxyPort cfg \<le> 0 then Inl ''invalid proxy port''
         else
           (case dial (JoinHostPort (sl_ProxyHost cfg) (decString (nat (sl_ProxyPort cfg)))) of None \<Rightarrow> Inl ''dial''
            | Some (conn, remote) \<Rightarrow>
               (case bindExchange cfg conn of
                  (Inl e, conn) \<Rightarrow> Inl e
                | (Inr bnd, conn) \<Rightarrow>
                   Inr (conn, if isUnspecifiedIP (ta_IP bnd) then
                       (case remote of Some ra \<Rightarrow> bnd\<lparr>ta_IP := ta_IP ra\<rparr> | None \<Rightarrow> bnd) else bnd)))))"

definition SocksBindWaitInbound :: "tcpAddr io" where
  "SocksBindWaitInbound =
    ioBind socks5ReadAddrReply (\<lambda>r.
      if fst r \<noteq> socks5RepSucceeded then ioError ''socks bind inbound failed'' else ioReturn (snd r))"

subsection \<open>The server's handshake\<close>

definition socks5ServerNegotiate :: "unit io" where
  "socks5ServerNegotiate =
    ioBind (ReadFull 1) (\<lambda>nmethods.
      if unat (nmethods ! 0) = 0 then
        ioBind (connWriteIgnore [0x05, 0xff]) (\<lambda>_. ioError ''socks5 greeting has no methods'')
      else
        ioBind (ReadFull (unat (nmethods ! 0))) (\<lambda>methods.
          if 0x00 \<in> set methods then connWrite [0x05, 0x00]
          else ioBind (connWrite [0x05, 0xff]) (\<lambda>_. ioError ''no acceptable socks5 authentication method'')))"

record socks5Request =
  rq_cmd :: byte
  rq_host :: gostr
  rq_addr :: bytes
  rq_port :: nat

definition errSocks5AddrTypeNotSupported :: error where
  "errSocks5AddrTypeNotSupported = ''socks5 address type not supported''"

definition socks5ReadRequest :: "socks5Request io" where
  "socks5ReadRequest =
    ioBind (ReadFull 4) (\<lambda>header.
      if header ! 0 \<noteq> 0x05 then ioError ''invalid socks5 request version''
      else if header ! 2 \<noteq> 0x00 then ioError ''invalid socks5 request reserved field''
      else if header ! 3 = 0x01 then
        ioBind (ReadFull 6) (\<lambda>body.
          ioReturn \<lparr>rq_cmd = header ! 1, rq_host = [], rq_addr = take 4 body, rq_port = be_nat (drop 4 body)\<rparr>)
      else if header ! 3 = 0x03 then
        ioBind (ReadFull 1) (\<lambda>len.
          if len ! 0 = 0 then ioError ''empty socks5 domain''
          else
            ioBind (ReadFull (unat (len ! 0) + 2)) (\<lambda>body.
              ioReturn \<lparr>rq_cmd = header ! 1, rq_host = take (length body - 2) body, rq_addr = [],
                rq_port = be_nat (drop (length body - 2) body)\<rparr>))
      else if header ! 3 = 0x04 then
        ioBind (ReadFull 18) (\<lambda>body.
          ioReturn \<lparr>rq_cmd = header ! 1, rq_host = [], rq_addr = take 16 body, rq_port = be_nat (drop 16 body)\<rparr>)
      else ioError errSocks5AddrTypeNotSupported)"

text \<open>
  What \<open>SocksProxy\<close> does with the connection once the reply is written. The deadline calls
  before and after the handshake succeed.
\<close>

datatype socksAction =
    InterceptDNS
  | TcpRedirect gostr bytes nat
  | Bind gostr bytes nat
  | HoldAssociation
  | UdpRedirect
  | NoCommand

definition socksCommand :: "byte \<Rightarrow> gostr \<Rightarrow> bytes \<Rightarrow> nat \<Rightarrow> socksAction" where
  "socksCommand cmd host addr port =
    (if cmd = 1 then (if port = 53 then InterceptDNS else TcpRedirect host addr port)
     else if cmd = 2 then Bind host addr port
     else if cmd = 3 then HoldAssociation
     else if cmd = 5 then UdpRedirect
     else NoCommand)"

definition socks5Handshake :: "tcpAddr option \<Rightarrow> socksAction io" where
  "socks5Handshake local =
    ioBind socks5ServerNegotiate (\<lambda>_.
    ioCatch socks5ReadRequest
      (\<lambda>e. if e = errSocks5AddrTypeNotSupported then
             ioBind (connWriteIgnore (socks5AddrReply socks5RepAddrTypeNotSupported \<lparr>ta_IP = IPv4zero, ta_Port = 0\<rparr>)) (\<lambda>_.
             ioError e)
           else ioError e)
      (\<lambda>rq. let reply = socks5HandshakeReply (rq_cmd rq) local;
               action = socksCommand (rq_cmd rq) (rq_host rq) (rq_addr rq) (rq_port rq)
           in if reply = [] then ioReturn action
              else ioBind (connWrite reply) (\<lambda>_. ioReturn action)))"

text \<open>
  SOCKS4 and SOCKS4a: one \<open>Read\<close> of up to 1499 bytes after the first; \<open>b\<close> is what has been
  read. A user name without its zero byte ends before the address.
\<close>

definition socks4Handshake :: "byte \<Rightarrow> socksAction io" where
  "socks4Handshake first =
    ioBind (connReadSome 1499) (\<lambda>d.
      (let b = first # d; n = length b; refused = [0, 91, 0, 0, 0, 0, 0, 0] in
       if n < 3 then ioError ''short''
       else if first \<noteq> 0x04 then ioError ''unknown''
       else if n > 8 \<and> b ! 1 = 1 then
         (let userEnd = (case indexByte 0 (drop 8 b) of Some i \<Rightarrow> 8 + i | None \<Rightarrow> 7);
              port = be_nat (take 2 (drop 2 b));
              reply = [0, 90] @ take 6 (drop 2 b)
          in if (b ! 4) OR (b ! 5) OR (b ! 6) = 0 then
               (case indexByte 0 (drop (userEnd + 1) b) of
                  Some (Suc k) \<Rightarrow>
                    ioBind (connWrite reply) (\<lambda>_. ioReturn (socksCommand 1 (take (Suc k) (drop (userEnd + 1) b)) [] port))
                | _ \<Rightarrow> ioBind (connWriteIgnore refused) (\<lambda>_. ioError ''refused''))
             else ioBind (connWrite reply) (\<lambda>_. ioReturn (socksCommand 1 [] (take 4 (drop 4 b)) port)))
       else ioBind (connWriteIgnore refused) (\<lambda>_. ioError ''refused'')))"

definition SocksProxy :: "tcpAddr option \<Rightarrow> socksAction io" where
  "SocksProxy local =
    ioBind (ReadFull 1) (\<lambda>b. if b ! 0 = 0x05 then socks5Handshake local else socks4Handshake (b ! 0))"

subsection \<open>What is written is read\<close>

text \<open>The address as the other side sees it: four bytes if it is an IPv4 address.\<close>

definition wireIP :: "bytes \<Rightarrow> bytes" where
  "wireIP ip = (if To4 ip \<noteq> [] then To4 ip else ip)"

definition ipOk :: "bytes \<Rightarrow> bool" where
  "ipOk ip \<longleftrightarrow> length ip = 4 \<or> length ip = 16"

lemma wireIP_cases:
  assumes "ipOk ip"
  shows "To4 ip \<noteq> [] \<and> length (To4 ip) = 4 \<and> wireIP ip = To4 ip
    \<or> To4 ip = [] \<and> length ip = 16 \<and> wireIP ip = ip \<and> copy_at (replicate 16 0) 0 (To16 ip) = ip"
  using assms length_To4 [of ip] by (auto simp: ipOk_def wireIP_def To16_def copy_at_def To4_def)

lemma reads_addr_body:
  "length a = n \<Longrightarrow> p < 65536 \<Longrightarrow>
    reads (ioBind (ReadFull (n + 2)) (\<lambda>b. ioReturn (f (take n b) (be_nat (drop n b))))) (a @ be_bytes 2 p) (f a p)"
  by (rule talks_ReadFull_return) (simp_all add: be_nat_be_bytes)

lemma reads_addrReply:
  assumes "ipOk (ta_IP addr)" and "ta_Port addr < 65536"
  shows "reads socks5ReadAddrReply (socks5AddrReply rep addr) (rep, \<lparr>ta_IP = wireIP (ta_IP addr), ta_Port = ta_Port addr\<rparr>)"
proof -
  let ?v = "\<lambda>a p. (rep, \<lparr>ta_IP = a, ta_Port = p\<rparr>)"
  from wireIP_cases [OF assms(1)] show ?thesis
  proof (elim disjE conjE)
    assume ip: "To4 (ta_IP addr) \<noteq> []" "length (To4 (ta_IP addr)) = 4" "wireIP (ta_IP addr) = To4 (ta_IP addr)"
    then have eq: "socks5AddrReply rep addr = [5, rep, 0, 1] @ (To4 (ta_IP addr) @ be_bytes 2 (ta_Port addr))"
      by (simp add: socks5AddrReply_def)
    show ?thesis
      unfolding eq socks5ReadAddrReply_def
      by (rule talks_ReadFull_bind) (use reads_addr_body [OF ip(2) assms(2), of ?v] ip in simp_all)
  next
    assume ip: "To4 (ta_IP addr) = []" "length (ta_IP addr) = 16" "wireIP (ta_IP addr) = ta_IP addr"
      "copy_at (replicate 16 0) 0 (To16 (ta_IP addr)) = ta_IP addr"
    then have eq: "socks5AddrReply rep addr = [5, rep, 0, 4] @ (ta_IP addr @ be_bytes 2 (ta_Port addr))"
      by (simp add: socks5AddrReply_def)
    show ?thesis
      unfolding eq socks5ReadAddrReply_def
      by (rule talks_ReadFull_bind) (use reads_addr_body [OF ip(2) assms(2), of ?v] ip in simp_all)
  qed
qed

text \<open>The address of a BIND request on the wire.\<close>

definition bindWireIP :: "bytes \<Rightarrow> bytes" where
  "bindWireIP ip = (if isUnspecifiedIP ip then [0, 0, 0, 0] else wireIP ip)"

lemma reads_bindRequest:
  assumes "ip = [] \<or> ipOk ip"
  shows "reads socks5ReadRequest (socks5BindRequest ip port)
    \<lparr>rq_cmd = 2, rq_host = [], rq_addr = bindWireIP ip, rq_port = nat (port mod 65536)\<rparr>"
proof -
  let ?p = "nat (port mod 65536)" and ?v = "\<lambda>a p. \<lparr>rq_cmd = 2, rq_host = [], rq_addr = a, rq_port = p\<rparr>"
  have p: "?p < 65536"
    by (simp add: nat_less_iff)
  have "socks5BindRequest ip port = [5, 2, 0, 1] @ (bindWireIP ip @ be_bytes 2 ?p) \<and> length (bindWireIP ip) = 4
    \<or> socks5BindRequest ip port = [5, 2, 0, 4] @ (bindWireIP ip @ be_bytes 2 ?p) \<and> length (bindWireIP ip) = 16"
    using assms wireIP_cases [of ip]
    by (auto simp: socks5BindRequest_def bindWireIP_def isUnspecifiedIP_def Let_def)
  then show ?thesis
  proof (elim disjE conjE)
    assume eq: "socks5BindRequest ip port = [5, 2, 0, 1] @ (bindWireIP ip @ be_bytes 2 ?p)" and len: "length (bindWireIP ip) = 4"
    show ?thesis
      unfolding eq socks5ReadRequest_def
      by (rule talks_ReadFull_bind) (use reads_addr_body [OF len p, of ?v] in simp_all)
  next
    assume eq: "socks5BindRequest ip port = [5, 2, 0, 4] @ (bindWireIP ip @ be_bytes 2 ?p)" and len: "length (bindWireIP ip) = 16"
    show ?thesis
      unfolding eq socks5ReadRequest_def
      by (rule talks_ReadFull_bind) (use reads_addr_body [OF len p, of ?v] in simp_all)
  qed
qed

lemma talks_serverNegotiate: "talks socks5ServerNegotiate [1, 0] [[5, 0]] ()"
proof -
  have "talks (ioBind (ReadFull 1) (\<lambda>methods. if 0 \<in> set methods then connWrite [5, 0]
      else ioBind (connWrite [5, 255]) (\<lambda>_. ioError ''no acceptable socks5 authentication method''))) ([0] @ []) [[5, 0]] ()"
    by (rule talks_ReadFull_bind) auto
  then have "talks socks5ServerNegotiate ([1] @ [0]) [[5, 0]] ()"
    unfolding socks5ServerNegotiate_def by (intro talks_ReadFull_bind) simp_all
  then show ?thesis by simp
qed

lemma talks_SocksProxy_bind:
  assumes "ip = [] \<or> ipOk ip"
  shows "talks (SocksProxy local) ([5, 1, 0] @ socks5BindRequest ip port) [[5, 0]]
    (Bind [] (bindWireIP ip) (nat (port mod 65536)))"
proof -
  have "talks (socks5Handshake local) ([1, 0] @ (socks5BindRequest ip port @ [])) ([[5, 0]] @ ([] @ []))
    (Bind [] (bindWireIP ip) (nat (port mod 65536)))"
    unfolding socks5Handshake_def
    by (rule talks_bind [OF talks_serverNegotiate], rule talks_catch [OF reads_bindRequest [OF assms]])
       (auto simp: socks5HandshakeReply_def socksCommand_def Let_def)
  then have "talks (SocksProxy local) ([5] @ ([1, 0] @ socks5BindRequest ip port)) [[5, 0]]
    (Bind [] (bindWireIP ip) (nat (port mod 65536)))"
    unfolding SocksProxy_def by (intro talks_ReadFull_bind) simp_all
  then show ?thesis by simp
qed

lemma talks_negotiate: "talks (socks5Negotiate [] password) [5, 0] [[5, 1, 0]] ()"
proof -
  have "talks (ioBind (ReadFull 2) (\<lambda>b. if b ! 0 \<noteq> 5 \<or> b ! 1 \<noteq> 0 then ioError ''invalid proxy'' else ioReturn ())) [5, 0] [] ()"
    by (rule talks_ReadFull_return) simp_all
  then show ?thesis
    by (simp add: socks5Negotiate_def talks_write_bind)
qed

lemma talks_bindExchange:
  assumes "sl_User cfg = []" and "ipOk (ta_IP bound)" and "ta_Port bound < 65536"
  shows "talks (bindExchange cfg) ([5, 0] @ socks5AddrReply socks5RepSucceeded bound)
    [[5, 1, 0], socks5BindRequest (sl_BindIP cfg) (sl_BindPort cfg)]
    \<lparr>ta_IP = wireIP (ta_IP bound), ta_Port = ta_Port bound\<rparr>"
proof -
  let ?addr = "\<lparr>ta_IP = wireIP (ta_IP bound), ta_Port = ta_Port bound\<rparr>"
  have "talks (ioBind socks5ReadAddrReply (\<lambda>r. if fst r \<noteq> socks5RepSucceeded then ioError ''socks bind failed'' else ioReturn (snd r)))
      (socks5AddrReply socks5RepSucceeded bound @ []) ([] @ []) ?addr"
    by (rule talks_bind [OF reads_addrReply [OF assms(2,3)]]) auto
  then have "talks (ioBind (connWrite (socks5BindRequest (sl_BindIP cfg) (sl_BindPort cfg))) (\<lambda>_.
      ioBind socks5ReadAddrReply (\<lambda>r. if fst r \<noteq> socks5RepSucceeded then ioError ''socks bind failed'' else ioReturn (snd r))))
      (socks5AddrReply socks5RepSucceeded bound) [socks5BindRequest (sl_BindIP cfg) (sl_BindPort cfg)] ?addr"
    by (intro talks_write_bind) simp
  then have "talks (bindExchange cfg) ([5, 0] @ socks5AddrReply socks5RepSucceeded bound)
      ([[5, 1, 0]] @ [socks5BindRequest (sl_BindIP cfg) (sl_BindPort cfg)]) ?addr"
    unfolding bindExchange_def assms(1) by (rule talks_bind [OF talks_negotiate])
  then show ?thesis by simp
qed

subsection \<open>Properties\<close>

text \<open>C31: The program's SOCKS5 client and server understand each other's BIND: however TCP
  cuts the bytes, what \<open>DialTCPBind\<close> writes makes \<open>SocksProxy\<close> bind the configured address
  and port and answer the greeting, and from that answer and the server's first reply the
  client takes the bound address, with the proxy's own address when it is unspecified.\<close>

theorem bind_agrees:
  assumes "sl_ProxyHost cfg \<noteq> []" "sl_ProxyPort cfg > 0" "sl_User cfg = []"
    and "sl_BindIP cfg = [] \<or> ipOk (sl_BindIP cfg)" "ipOk (ta_IP bound)" "ta_Port bound < 65536"
    and "dial (JoinHostPort (sl_ProxyHost cfg) (decString (nat (sl_ProxyPort cfg)))) = Some (client, remote)"
    and "tc_out client = []" "tc_left client \<ge> 2"
    and "concat (tc_in client) = [5, 0] @ socks5AddrReply socks5RepSucceeded bound @ s"
  shows "\<exists>client'. DialTCPBind dial (Some cfg) = Inr (client',
        if isUnspecifiedIP (wireIP (ta_IP bound)) \<and> remote \<noteq> None
        then \<lparr>ta_IP = ta_IP (the remote), ta_Port = ta_Port bound\<rparr>
        else \<lparr>ta_IP = wireIP (ta_IP bound), ta_Port = ta_Port bound\<rparr>)
    \<and> concat (tc_in client') = s
    \<and> (\<forall>server s' local. concat (tc_in server) = concat (tc_out client') @ s' \<longrightarrow> 0 < tc_left server \<longrightarrow>
        (\<exists>server'. SocksProxy local server
            = (Inr (Bind [] (bindWireIP (sl_BindIP cfg)) (nat (sl_BindPort cfg mod 65536))), server')
          \<and> tc_out server' = tc_out server @ [[5, 0]] \<and> concat (tc_in server') = s'))"
proof -
  obtain rest where rest: "concat rest = s"
    "bindExchange cfg client = (Inr \<lparr>ta_IP = wireIP (ta_IP bound), ta_Port = ta_Port bound\<rparr>,
      client\<lparr>tc_in := rest, tc_out := [[5, 1, 0], socks5BindRequest (sl_BindIP cfg) (sl_BindPort cfg)], tc_left := tc_left client - 2\<rparr>)"
    by (rule talksE [OF talks_bindExchange [OF assms(3,5,6)], of client s])
      (use assms(8-10) in \<open>auto simp: numeral_2_eq_2\<close>)
  moreover have "\<exists>server'. SocksProxy local server
        = (Inr (Bind [] (bindWireIP (sl_BindIP cfg)) (nat (sl_BindPort cfg mod 65536))), server')
      \<and> tc_out server' = tc_out server @ [[5, 0]] \<and> concat (tc_in server') = s'"
    if "concat (tc_in server) = [5, 1, 0] @ socks5BindRequest (sl_BindIP cfg) (sl_BindPort cfg) @ s'" "0 < tc_left server"
    for server s' local
    by (rule talksE [OF talks_SocksProxy_bind [OF assms(4), of local "sl_BindPort cfg"], of server s']) (use that in auto)
  ultimately show ?thesis
    using assms(1,2,7) by (auto simp: DialTCPBind_def split: option.split)
qed

definition sampleBind :: SocksListenConfig where
  "sampleBind = \<lparr>sl_ProxyHost = str ''h'', sl_ProxyPort = 1080, sl_User = [], sl_Password = [],
    sl_BindIP = [10, 0, 0, 1], sl_BindPort = 80\<rparr>"

definition sampleClient :: tcpConn where
  "sampleClient = \<lparr>tc_in = [[5], [0, 5], [0, 0, 1, 10, 0, 0, 1, 0, 80]], tc_out = [], tc_left = 2\<rparr>"

theorem bind_agrees_witness:
  "\<exists>client'. DialTCPBind (\<lambda>_. Some (sampleClient, None)) (Some sampleBind) = Inr (client', \<lparr>ta_IP = [10, 0, 0, 1], ta_Port = 80\<rparr>)
    \<and> concat (tc_in client') = []"
proof -
  let ?b = "\<lparr>ta_IP = [10, 0, 0, 1], ta_Port = 80\<rparr> :: tcpAddr"
  have host: "sl_ProxyHost sampleBind \<noteq> []" "sl_ProxyPort sampleBind > 0" "sl_User sampleBind = []"
    "sl_BindIP sampleBind = [] \<or> ipOk (sl_BindIP sampleBind)" "ipOk (ta_IP ?b)" "ta_Port ?b < 65536"
    by (simp_all add: sampleBind_def str_def ipOk_def)
  have conn: "tc_out sampleClient = []" "tc_left sampleClient \<ge> 2"
    "concat (tc_in sampleClient) = [5, 0] @ socks5AddrReply socks5RepSucceeded ?b @ []"
    by (simp_all add: sampleClient_def socks5AddrReply_def socks5_reps To4_def be_bytes_2)
  have ip: "\<not> isUnspecifiedIP (wireIP (ta_IP ?b))" "wireIP (ta_IP ?b) = ta_IP ?b"
    by (auto simp: isUnspecifiedIP_def wireIP_def To4_def dest: arg_cong [of _ _ length])
  show ?thesis
    using bind_agrees [where dial = "\<lambda>_. Some (sampleClient, None)" and remote = None, OF host refl conn] ip by auto
qed

end
