(* ===== verification/Socks_Uot.thy ===== *)
theory Socks_Uot
  imports Socks_Wire Quic_Proxy Dns_Service
begin

text \<open>
  UDP in TCP (\<open>udp_redirect\<close> and the functions of \<open>uotConn\<close>, \<open>phantomtcp/socks.go\<close>): a SOCKS
  client sends its datagrams as frames over the connection, each with the target's address.
  Sessions and waiting datagrams are as in \<open>Quic_Proxy\<close>; a turn of the loop and a read of a
  session are one step each.
\<close>

unbundle bit_operations_syntax

subsection \<open>Frames\<close>

definition readUoTFrame :: "nat \<Rightarrow> (bytes \<times> bytes) io" where
  "readUoTFrame bufLen =
    ioBind (ReadFull 3) (\<lambda>b.
      (let msglen = be_nat (take 2 b); hdrlen = unat (b ! 2) in
       if msglen > quicUDPPacketSize \<or> hdrlen < 5 \<or> hdrlen > bufLen then ioError ''unexpected EOF''
       else
         ioBind (ReadFull (hdrlen - 3)) (\<lambda>h.
         ioBind (ReadFull msglen) (\<lambda>payload.
           ioReturn (b @ h, payload)))))"

text \<open>\<open>None\<close>: the header has no room for the length.\<close>

definition writeUoTFrame :: "bytes \<Rightarrow> bytes \<Rightarrow> bytes option" where
  "writeUoTFrame header payload = put16 (header @ payload) 0 (u16 (length payload))"

subsection \<open>The target of a datagram\<close>

text \<open>The address, the domain and the port of a header.\<close>

definition uotAddress :: "bytes \<Rightarrow> (bytes \<times> gostr \<times> nat) option" where
  "uotAddress header =
    (if length header < 5 then None
     else
       (let hdrlen = unat (header ! 2) in
        if hdrlen > length header then None
        else if header ! 3 = 0x01 then
          (if hdrlen < 10 then None
           else Some (take 4 (drop 4 header), [], be_nat (take 2 (drop 8 header))))
        else if header ! 3 = 0x03 then
          (let addrLen = unat (header ! 4) in
           if hdrlen < 7 + addrLen then None
           else Some ([], take addrLen (drop 5 header), be_nat (take 2 (drop (5 + addrLen) header))))
        else if header ! 3 = 0x04 then
          (if hdrlen < 22 then None
           else Some (take 16 (drop 4 header), [], be_nat (take 2 (drop 20 header))))
        else None))"

text \<open>A fake address stands for the name it was given for; \<open>None\<close> is a panic.\<close>

definition GetSocksUDPTarget :: "dnsEnv \<Rightarrow> dnsState \<Rightarrow> bytes \<Rightarrow> gostr \<Rightarrow> (gostr \<times> outbound option) option" where
  "GetSocksUDPTarget env dns ip host =
    (let profile = net_Profile (env_Net env); default = net_Default (env_Net env) in
     case (if host = [] \<and> ip \<noteq> [] then parseFakeIPIndex ip else Some (0, False)) of
       None \<Rightarrow> None
     | Some (index, fake) \<Rightarrow>
        (if fake \<and> length (dns_Nose dns) \<le> index then Some ([], None)
         else
           Option.bind (if fake then GetDNSLie dns index else Some (host, None)) (\<lambda>(host, outbound).
           Option.bind
             (if outbound \<noteq> None then Some outbound
              else if host \<noteq> [] then Some (fst (GetOutbound profile default (env_Depth env) host))
              else if ip \<noteq> [] then GetOutboundByIP profile default ip
              else Some None) (\<lambda>outbound.
             if host = [] then (if ip = [] then Some ([], None) else Some (IPString ip, outbound))
             else Some (host, outbound)))))"

definition parseUoTTarget :: "dnsEnv \<Rightarrow> dnsState \<Rightarrow> bytes \<Rightarrow> (gostr \<times> nat \<times> outbound option) option" where
  "parseUoTTarget env dns header =
    (case uotAddress header of None \<Rightarrow> Some ([], 0, None)
     | Some (addr, domain, port) \<Rightarrow>
        (case GetSocksUDPTarget env dns addr domain of None \<Rightarrow> None
         | Some (host, None) \<Rightarrow> Some ([], 0, None)
         | Some (host, Some outbound) \<Rightarrow> Some (host, port, Some outbound)))"

definition uotSessionKey :: "gostr \<Rightarrow> nat \<Rightarrow> gostr" where
  "uotSessionKey host port = joinBytes (str '','') [host, decString port]"

subsection \<open>Sessions\<close>

record uotSession = quicProxySession +
  us_header :: bytes

record uotPending =
  up_initial :: quicInitialPending
  up_header :: bytes
  up_dialHost :: gostr
  up_port :: nat
  up_outbound :: outbound

record uotConn =
  uc_sessions :: "(gostr \<times> uotSession) list"
  uc_pending :: "(gostr \<times> uotPending) list"

definition uotConn0 :: uotConn where
  "uotConn0 = \<lparr>uc_sessions = [], uc_pending = []\<rparr>"

definition uotWriteUpstream :: "proxyEnv \<Rightarrow> uotSession \<Rightarrow> bytes \<Rightarrow> proxyEffect list \<times> bool \<times> uotSession" where
  "uotWriteUpstream env session payload = quicProxyWriteUpstream env session payload"

definition uotFlushInitial :: "proxyEnv \<Rightarrow> uotSession \<Rightarrow> bytes list \<Rightarrow> proxyEffect list \<times> bool \<times> uotSession" where
  "uotFlushInitial env session datagrams = quicProxyFlushInitial env session datagrams"

text \<open>
  The result of a handler: the state, what it did, and whether it returned without error.
\<close>

definition uotStartSession ::
  "proxyEnv \<Rightarrow> gostr \<Rightarrow> bytes \<Rightarrow> gostr \<Rightarrow> nat \<Rightarrow> outbound \<Rightarrow> bytes list \<Rightarrow> uotConn \<Rightarrow> uotConn \<times> proxyEffect list \<times> bool" where
  "uotStartSession env key header host port outbound datagrams st =
    (if datagrams = [] then (st, [], True)
     else if map_of (uc_sessions st) key \<noteq> None then (st, [], True)
     else if length (uc_sessions st) + length (uc_pending st) \<ge> quicPendingLimit then (st, [], True)
     else
       (case pe_dial env outbound host port of None \<Rightarrow> (st, [], False)
        | Some conn \<Rightarrow>
           (let zero = replicate (8 + pe_random env) 0; zeroed = (ob_Hint outbound AND HINT_ZERO \<noteq> 0)
            in if zeroed \<and> \<not> pe_accepts env conn zero then (st, [CloseConn conn], False)
               else
                 (let session = \<lparr>qs_conn = conn, qs_outbound = outbound,
                        qs_rewriter = (if ob_Hint outbound AND HINT_HTTP3 \<noteq> 0 then Some quicRewriter0 else None),
                        us_header = header\<rparr>;
                      (out, ok, session) = uotFlushInitial env session datagrams;
                      out = (if zeroed then [Upstream conn zero] else []) @ out
                  in if ok then (st\<lparr>uc_sessions := AList.update key session (uc_sessions st)\<rparr>, out, True)
                     else (st\<lparr>uc_sessions := AList.delete key (uc_sessions st)\<rparr>, out @ [CloseConn conn], False)))))"

definition uotContinuePending ::
  "proxyEnv \<Rightarrow> int \<Rightarrow> gostr \<Rightarrow> bytes \<Rightarrow> bytes \<Rightarrow> uotConn \<Rightarrow> uotConn \<times> proxyEffect list \<times> bool" where
  "uotContinuePending env now key header payload st =
    (case map_of (uc_pending st) key of None \<Rightarrow> (st, [], True)
     | Some p \<Rightarrow>
        (let without = st\<lparr>uc_pending := AList.delete key (uc_pending st)\<rparr>;
             start = (\<lambda>datagrams. uotStartSession env key header (up_dialHost p) (up_port p) (up_outbound p) datagrams without)
         in if pendingExpired (up_initial p) now then (without, [], True)
            else if \<not> isQUICInitialDatagram payload then start (pendingDatagrams (up_initial p) @ [payload])
            else
              (case pendingAccumulate (up_initial p) payload now of
                 (Inl e, i) \<Rightarrow> (without, [], True)
               | (Inr None, i) \<Rightarrow> (st\<lparr>uc_pending := AList.update key (p\<lparr>up_initial := i\<rparr>) (uc_pending st)\<rparr>, [], True)
               | (Inr (Some datagrams), i) \<Rightarrow> start datagrams)))"

definition uotHandleFrame ::
  "proxyEnv \<Rightarrow> dnsEnv \<Rightarrow> dnsState \<Rightarrow> int \<Rightarrow> bytes \<Rightarrow> bytes \<Rightarrow> uotConn \<Rightarrow> (uotConn \<times> proxyEffect list \<times> bool) option" where
  "uotHandleFrame env dnsenv dns now header payload st =
    (case parseUoTTarget dnsenv dns header of None \<Rightarrow> None
     | Some (host, port, None) \<Rightarrow> Some (st, [], True)
     | Some (host, port, Some outbound) \<Rightarrow>
        (let key = uotSessionKey host port in
         if ob_Hint outbound AND (HINT_UDP OR HINT_HTTP3) = 0 then Some (st, [], True)
         else
           (case map_of (uc_sessions st) key of
              Some session \<Rightarrow>
                (let (out, ok, session) = uotWriteUpstream env (session\<lparr>us_header := header\<rparr>) payload
                 in Some (st\<lparr>uc_sessions := AList.update key session (uc_sessions st)\<rparr>, out, ok))
            | None \<Rightarrow>
               (case map_of (uc_pending st) key of
                  Some p \<Rightarrow> Some (uotContinuePending env now key header payload st)
                | None \<Rightarrow>
                   (if ob_Hint outbound AND HINT_HTTP3 \<noteq> 0 \<and> isQUICInitialDatagram payload then
                      (if length (uc_sessions st) + length (uc_pending st) \<ge> quicPendingLimit then Some (st, [], True)
                       else
                         (let pending = \<lparr>up_initial = quicPending0, up_header = header, up_dialHost = host,
                                up_port = port, up_outbound = outbound\<rparr>
                          in Some (uotContinuePending env now key header payload
                               (st\<lparr>uc_pending := AList.update key pending (uc_pending st)\<rparr>))))
                    else Some (uotStartSession env key header host port outbound [payload] st))))))"

text \<open>
  One turn of \<open>runSession\<close>: \<open>None\<close> is a failed read, \<open>accepted\<close> says whether the client's
  connection takes the frame. The session that ends removes its own entry only.
\<close>

definition uotEnd :: "gostr \<Rightarrow> uotSession \<Rightarrow> uotConn \<Rightarrow> uotConn" where
  "uotEnd key session st =
    (case map_of (uc_sessions st) key of None \<Rightarrow> st
     | Some cur \<Rightarrow>
        if qs_conn cur = qs_conn session then st\<lparr>uc_sessions := AList.delete key (uc_sessions st)\<rparr> else st)"

definition uotRunSession ::
  "gostr \<Rightarrow> uotSession \<Rightarrow> bytes option \<Rightarrow> bool \<Rightarrow> uotConn \<Rightarrow> (uotConn \<times> proxyEffect list) option" where
  "uotRunSession key session r accepted st =
    (case r of None \<Rightarrow> Some (uotEnd key session st, [CloseConn (qs_conn session)])
     | Some d \<Rightarrow>
        (let reply = take quicUDPPacketSize d;
             (reply, rewriter) =
               (if qs_rewriter session \<noteq> None then rewriteServer (qs_rewriter session) reply else (reply, None));
             st = st\<lparr>uc_sessions := AList.map_entry key (\<lambda>s. s\<lparr>qs_rewriter := rewriter\<rparr>) (uc_sessions st)\<rparr>
         in map_option (\<lambda>frame.
              if accepted then (st, [Downstream [] frame])
              else (uotEnd key session st, [CloseConn (qs_conn session)]))
            (writeUoTFrame (us_header session) reply)))"

text \<open>One turn of the loop of \<open>udp_redirect\<close>, which ends with the first error.\<close>

definition udp_redirect ::
  "proxyEnv \<Rightarrow> dnsEnv \<Rightarrow> dnsState \<Rightarrow> int \<Rightarrow> tcpConn \<Rightarrow> uotConn \<Rightarrow> (tcpConn \<times> uotConn \<times> proxyEffect list \<times> bool) option" where
  "udp_redirect env dnsenv dns now conn st =
    (case readUoTFrame (quicUDPPacketSize + 256) conn of
       (Inl e, conn) \<Rightarrow> Some (conn, st, [], False)
     | (Inr (header, payload), conn) \<Rightarrow>
        map_option (\<lambda>(st, out, ok). (conn, st, out, ok)) (uotHandleFrame env dnsenv dns now header payload st))"

inductive uotStep :: "uotConn \<Rightarrow> uotConn \<Rightarrow> bool" where
  frame: "udp_redirect env dnsenv dns now conn st = Some (conn', st', out, ok) \<Longrightarrow> uotStep st st'"
| reply: "map_of (uc_sessions st) key = Some session \<Longrightarrow> uotRunSession key session r accepted st = Some (st', out)
    \<Longrightarrow> uotStep st st'"

subsection \<open>The invariant\<close>

definition uotHeaderOk :: "bytes \<Rightarrow> bool" where
  "uotHeaderOk h \<longleftrightarrow> 5 \<le> length h \<and> unat (h ! 2) = length h"

definition uotOk :: "uotConn \<Rightarrow> bool" where
  "uotOk st \<longleftrightarrow> distinct (map fst (uc_sessions st)) \<and> distinct (map fst (uc_pending st))
    \<and> keys (uc_sessions st) \<inter> keys (uc_pending st) = {}
    \<and> length (uc_sessions st) + length (uc_pending st) \<le> quicPendingLimit
    \<and> (\<forall>p \<in> vals (uc_pending st). entryOk (up_initial p))
    \<and> (\<forall>s \<in> vals (uc_sessions st). uotHeaderOk (us_header s))"

lemma write_more:
  "quicProxyWriteUpstream env session d = (out, ok, session') \<Longrightarrow> quicProxySession.more session' = quicProxySession.more session"
  by (auto simp: quicProxyWriteUpstream_def split: option.splits prod.splits if_splits)

lemma flush_more:
  "quicProxyFlushInitial env session ds = (out, ok, session') \<Longrightarrow> quicProxySession.more session' = quicProxySession.more session"
proof (induction env session ds arbitrary: out ok session' rule: quicProxyFlushInitial.induct)
  case (2 env session d ds)
  obtain w wok s where w: "quicProxyWriteUpstream env session d = (w, wok, s)"
    by (cases "quicProxyWriteUpstream env session d") auto
  show ?case
    using 2 w write_more [OF w] by (auto split: bool.splits prod.splits)
qed simp

lemma us_header_more: "quicProxySession.more s' = quicProxySession.more (s :: uotSession) \<Longrightarrow> us_header s' = us_header s"
  by (cases s; cases s') simp

lemma uotOk_delete:
  assumes "uotOk st"
  shows "uotOk (st\<lparr>uc_sessions := AList.delete key (uc_sessions st)\<rparr>)"
    and "uotOk (st\<lparr>uc_pending := AList.delete key (uc_pending st)\<rparr>)"
  using assms length_delete [of key "uc_sessions st"] length_delete [of key "uc_pending st"]
  by (auto simp: uotOk_def alist_simps dest: vals_delete)

lemma uotOk_session:
  assumes "uotOk st" "uotHeaderOk (us_header s)"
    and "key \<in> keys (uc_sessions st)
      \<or> key \<notin> keys (uc_pending st) \<and> length (uc_sessions st) + length (uc_pending st) < quicPendingLimit"
  shows "uotOk (st\<lparr>uc_sessions := AList.update key s (uc_sessions st)\<rparr>)"
  using assms by (auto simp: uotOk_def alist_simps length_update dest!: vals_update)

lemma uotOk_pending:
  assumes "uotOk st" "entryOk (up_initial p)"
    and "key \<in> keys (uc_pending st)
      \<or> key \<notin> keys (uc_sessions st) \<and> length (uc_sessions st) + length (uc_pending st) < quicPendingLimit"
  shows "uotOk (st\<lparr>uc_pending := AList.update key p (uc_pending st)\<rparr>)"
  using assms by (auto simp: uotOk_def alist_simps length_update dest!: vals_update)

lemma uotStartSession_ok:
  assumes "uotOk st" "key \<notin> keys (uc_pending st)" "uotHeaderOk header"
    and "uotStartSession env key header host port outbound ds st = (st', out, ok)"
  shows "uotOk st'"
proof (cases "st' = st")
  case True
  with assms(1) show ?thesis by simp
next
  case False
  obtain conn where dial: "pe_dial env outbound host port = Some conn"
    and room: "map_of (uc_sessions st) key = None" "length (uc_sessions st) + length (uc_pending st) < quicPendingLimit"
    using assms(4) False by (auto simp: uotStartSession_def split: if_splits option.splits)
  define s where "s = \<lparr>qs_conn = conn, qs_outbound = outbound,
    qs_rewriter = (if ob_Hint outbound AND HINT_HTTP3 \<noteq> 0 then Some quicRewriter0 else None), us_header = header\<rparr>"
  obtain fo fok s' where f: "quicProxyFlushInitial env s ds = (fo, fok, s')"
    by (cases "quicProxyFlushInitial env s ds") auto
  have "us_header s' = header"
    using us_header_more [OF flush_more [OF f]] by (simp add: s_def)
  moreover have "st' = st\<lparr>uc_sessions := AList.update key s' (uc_sessions st)\<rparr>
    \<or> st' = st\<lparr>uc_sessions := AList.delete key (uc_sessions st)\<rparr>"
    using assms(4) False dial room f
    by (auto simp: uotStartSession_def uotFlushInitial_def Let_def s_def split: if_splits prod.splits)
  ultimately show ?thesis
    using assms(1-3) room uotOk_session [of st s' key] uotOk_delete(1) [of st key] by auto
qed

lemma entryOk_0 [simp]: "entryOk quicPending0"
  by (simp add: entryOk_def) (simp add: quicPending0_def)

lemma pendingAccumulate_ok:
  "entryOk p \<Longrightarrow> pendingAccumulate p d now = (Inr None, p') \<Longrightarrow> entryOk p'"
  by (auto simp: pendingAccumulate_def entryOk_def pendingOverLimit_def split: prod.splits sum.splits if_splits
      dest: pendingAdd_ok)

lemma uotContinuePending_ok:
  assumes "uotOk st" "uotHeaderOk header"
    and "uotContinuePending env now key header payload st = (st', out, ok)"
  shows "uotOk st'"
proof (cases "map_of (uc_pending st) key")
  case None
  with assms show ?thesis by (auto simp: uotContinuePending_def)
next
  case (Some p)
  have p: "key \<in> keys (uc_pending st)" "entryOk (up_initial p)"
    using map_of_fst(1) [OF Some] assms(1) vals_map_of [OF Some] by (auto simp: uotOk_def)
  have start: "uotOk st'" if "uotStartSession env key header h n ob ds (st\<lparr>uc_pending := AList.delete key (uc_pending st)\<rparr>) = (st', out, ok)"
    for h n ob ds
    by (rule uotStartSession_ok [OF uotOk_delete(2) [OF assms(1)] _ assms(2) that]) (simp add: alist_simps)
  show ?thesis
    using assms(3) Some start uotOk_delete(2) [OF assms(1), of key] uotOk_pending [OF assms(1)] p
    by (auto simp: uotContinuePending_def Let_def split: if_splits prod.splits sum.splits option.splits
        dest: pendingAccumulate_ok)
qed

lemma uotHandleFrame_ok:
  assumes "uotOk st" "uotHeaderOk header"
    and "uotHandleFrame env dnsenv dns now header payload st = Some (st', out, ok)"
  shows "uotOk st'"
proof -
  obtain host port t where target: "parseUoTTarget dnsenv dns header = Some (host, port, t)"
    using assms(3) by (auto simp: uotHandleFrame_def split: option.splits)
  let ?key = "uotSessionKey host port"
  show ?thesis
  proof (cases "map_of (uc_sessions st) ?key")
    case (Some s)
    obtain wo wok s' where w: "quicProxyWriteUpstream env (s\<lparr>us_header := header\<rparr>) payload = (wo, wok, s')"
      by (cases "quicProxyWriteUpstream env (s\<lparr>us_header := header\<rparr>) payload") auto
    have "us_header s' = header"
      using us_header_more [OF write_more [OF w]] by simp
    then have "uotOk (st\<lparr>uc_sessions := AList.update ?key s' (uc_sessions st)\<rparr>)"
      using assms(1,2) map_of_fst(1) [OF Some] by (intro uotOk_session) auto
    then show ?thesis
      using assms(1,3) target Some w
      by (auto simp: uotHandleFrame_def uotWriteUpstream_def Let_def split: option.splits if_splits)
  next
    case None
    have new: "uotOk (st\<lparr>uc_pending := AList.update ?key p (uc_pending st)\<rparr>)"
      if "up_initial p = quicPending0" "length (uc_sessions st) + length (uc_pending st) < quicPendingLimit" for p
      using assms(1) None that
      by (intro uotOk_pending) (auto simp: map_of_fst(2))
    have continue: "uotOk st'" if "uotOk st1" "uotContinuePending env now ?key header payload st1 = (st', out, ok)" for st1
      using uotContinuePending_ok [OF that(1) assms(2) that(2)] .
    have start: "uotOk st'"
      if "map_of (uc_pending st) ?key = None" "uotStartSession env ?key header host port ob ds st = (st', out, ok)" for ob ds
      using uotStartSession_ok [OF assms(1) _ assms(2) that(2)] that(1) by (simp add: map_of_fst(2))
    have fresh: "uotOk st'"
      if "\<not> quicPendingLimit \<le> length (uc_sessions st) + length (uc_pending st)"
        "uotContinuePending env now ?key header payload (st\<lparr>uc_pending := AList.update ?key
          \<lparr>up_initial = quicPending0, up_header = header, up_dialHost = host, up_port = port, up_outbound = ob\<rparr>
          (uc_pending st)\<rparr>) = (st', out, ok)" for ob
      by (rule continue [OF new that(2)]) (use that(1) in simp_all)
    show ?thesis
      using assms(1,3) target None
      by (auto simp: uotHandleFrame_def Let_def split: option.splits if_splits intro: start continue fresh)
  qed
qed

lemma readUoTFrame_header:
  assumes "readUoTFrame k conn = (Inr (header, payload), conn')"
  shows "uotHeaderOk header"
proof -
  obtain b h conn1 conn2 where b: "ReadFull 3 conn = (Inr b, conn1)" and hdr: "\<not> unat (b ! 2) < 5"
    and h: "ReadFull (unat (b ! 2) - 3) conn1 = (Inr h, conn2)" and eq: "header = b @ h"
    using assms by (auto simp: readUoTFrame_def ioBind_def ioReturn_def ioError_def Let_def split: prod.splits sum.splits if_splits)
  have "length b = 3" "length h = unat (b ! 2) - 3"
    using b h by (auto simp: ReadFull_def dest: readSegments_Some split: option.splits)
  with hdr eq show ?thesis
    by (simp add: uotHeaderOk_def nth_append)
qed

lemma uotEnd_ok: "uotOk st \<Longrightarrow> uotOk (uotEnd key session st)"
  by (auto simp: uotEnd_def intro: uotOk_delete(1) split: option.splits)

lemma uotRunSession_ok:
  assumes "uotOk st" and "uotRunSession key session r accepted st = Some (st', out)"
  shows "uotOk st'"
proof -
  have "uotOk (st\<lparr>uc_sessions := AList.map_entry key (\<lambda>s. s\<lparr>qs_rewriter := rewriter\<rparr>) (uc_sessions st)\<rparr>)" for rewriter
    using assms(1) by (auto simp: uotOk_def alist_simps dest!: vals_map_entry)
  with assms show ?thesis
    by (auto simp: uotRunSession_def Let_def intro: uotEnd_ok split: option.splits prod.splits if_splits)
qed

lemma uotStep_ok: "uotOk st \<Longrightarrow> uotStep st st' \<Longrightarrow> uotOk st'"
proof (erule uotStep.cases)
  fix env dnsenv dns now conn st1 conn' st1' out ok
  assume "uotOk st" "st = st1" "st' = st1'" "udp_redirect env dnsenv dns now conn st1 = Some (conn', st1', out, ok)"
  then show ?thesis
    by (auto simp: udp_redirect_def split: prod.splits sum.splits
        intro: uotHandleFrame_ok readUoTFrame_header)
qed (auto intro: uotRunSession_ok)

interpretation uot: pendingTable uotConn0 uotStep uotOk "\<lambda>st. map (up_initial \<circ> snd) (uc_pending st)"
proof
  show "uotOk uotConn0"
    by (simp add: uotOk_def uotConn0_def)
  show "uotOk s'" if "uotOk s" "uotStep s s'" for s s'
    using that by (rule uotStep_ok)
qed (auto simp: uotOk_def entryOk_def vals_def)

subsection \<open>Frames are read as they are written\<close>

definition frameOk :: "bytes \<times> bytes \<Rightarrow> bool" where
  "frameOk f \<longleftrightarrow> uotHeaderOk (fst f) \<and> length (snd f) \<le> quicUDPPacketSize"

definition frameSeen :: "bytes \<times> bytes \<Rightarrow> bytes \<times> bytes" where
  "frameSeen f = (be_bytes 2 (length (snd f)) @ drop 2 (fst f), snd f)"

lemma writeUoTFrame_some:
  "frameOk (h, p) \<Longrightarrow> writeUoTFrame h p = Some (be_bytes 2 (length p) @ drop 2 h @ p)"
  by (simp add: writeUoTFrame_def frameOk_def uotHeaderOk_def quicUDPPacketSize_def flip: numeral_2_eq_2)

lemma reads_uotFrame:
  assumes "frameOk f" and "255 \<le> k"
  shows "reads (readUoTFrame k) (the (writeUoTFrame (fst f) (snd f))) (frameSeen f)"
proof -
  obtain h p where f: "f = (h, p)"
    by (cases f)
  let ?l = "be_bytes 2 (length p)"
  have h: "5 \<le> length h" "unat (h ! 2) = length h" "length p < 65536"
    using assms(1) by (auto simp: f frameOk_def uotHeaderOk_def quicUDPPacketSize_def)
  then have h2: "drop 2 h = h ! 2 # drop 3 h"
    using Cons_nth_drop_Suc [of 2 h] by (simp add: numeral_3_eq_3)
  have "reads (ioBind (ReadFull (length p)) (\<lambda>payload. ioReturn ((?l @ [h ! 2]) @ drop 3 h, payload))) p
      ((?l @ [h ! 2]) @ drop 3 h, p)"
    by (rule talks_ReadFull_return) simp_all
  then have "reads (ioBind (ReadFull (length h - 3)) (\<lambda>h'. ioBind (ReadFull (length p)) (\<lambda>payload. ioReturn ((?l @ [h ! 2]) @ h', payload))))
      (drop 3 h @ p) ((?l @ [h ! 2]) @ drop 3 h, p)"
    by (intro talks_ReadFull_bind) simp_all
  then have "reads (readUoTFrame k) ((?l @ [h ! 2]) @ (drop 3 h @ p)) ((?l @ [h ! 2]) @ drop 3 h, p)"
    unfolding readUoTFrame_def
    by (intro talks_ReadFull_bind)
       (use h assms(2) unat_byte_less [of "h ! 2"] in \<open>simp_all add: nth_append be_nat_be_bytes quicUDPPacketSize_def Let_def\<close>)
  then show ?thesis
    using writeUoTFrame_some [of h p] assms(1) by (simp add: f frameSeen_def h2)
qed

interpretation uotFrames: framed "\<lambda>f. the (writeUoTFrame (fst f) (snd f))" "readUoTFrame (quicUDPPacketSize + 256)" frameSeen frameOk
  by unfold_locales (rule reads_uotFrame, assumption, simp)

subsection \<open>Properties\<close>

definition sampleOutbound :: "hint \<Rightarrow> outbound" where
  "sampleOutbound h = Outbound [] [] h 1500 0 0 DIRECT [] [] 0 None"

definition sampleNet :: "outbound \<Rightarrow> dnsNet" where
  "sampleNet ob = \<lparr>net_Resolve = (\<lambda>_. None), net_Outbound = (\<lambda>_ _ _ _. None), net_TCP = (\<lambda>_ _. None),
    net_TLS = (\<lambda>_ _. None), net_TFO = (\<lambda>_ _. None), net_UDP = (\<lambda>_ _. None), net_HTTPS = (\<lambda>_ _ _ _. None),
    net_Profile = \<lparr>DomainMap = (\<lambda>_. Some (Some ob)), IPv4Ranges = [], IPv6Ranges = []\<rparr>, net_Default = None\<rparr>"

definition sampleDnsEnv :: "outbound \<Rightarrow> dnsEnv" where
  "sampleDnsEnv ob = \<lparr>env_Net = sampleNet ob, env_URL = (\<lambda>_. None), env_Now = 0, env_MinTTL = 60, env_Depth = 2, env_IPv4First = True\<rparr>"

definition openProxyEnv :: proxyEnv where
  "openProxyEnv = sampleProxyEnv\<lparr>pe_dial := (\<lambda>_ _ _. Some 7)\<rparr>"

definition sampleUotHeader :: bytes where
  "sampleUotHeader = [0, 1, 9, 3, 2, 97, 98, 0, 80]"

definition sampleUotSession :: uotSession where
  "sampleUotSession = \<lparr>qs_conn = 7, qs_outbound = sampleOutbound HINT_UDP, qs_rewriter = None, us_header = sampleUotHeader\<rparr>"

definition sampleUotConn :: uotConn where
  "sampleUotConn = \<lparr>uc_sessions = [(uotSessionKey [97, 98] 80, sampleUotSession)], uc_pending = []\<rparr>"

definition sampleUotStream :: tcpConn where
  "sampleUotStream = \<lparr>tc_in = [[0, 1, 9, 3], [2, 97, 98, 0, 80, 5]], tc_out = [], tc_left = 0\<rparr>"

lemma sample_frame_read:
  "\<exists>conn. readUoTFrame (quicUDPPacketSize + 256) sampleUotStream = (Inr (sampleUotHeader, [5]), conn)"
proof -
  have ok: "frameOk (sampleUotHeader, [5])"
    by (simp add: frameOk_def uotHeaderOk_def sampleUotHeader_def quicUDPPacketSize_def)
  have "concat (tc_in sampleUotStream) = the (writeUoTFrame sampleUotHeader [5]) @ []"
    unfolding writeUoTFrame_some [OF ok] by (simp add: sampleUotHeader_def be_bytes_2 sampleUotStream_def)
  then obtain rest where "readUoTFrame (quicUDPPacketSize + 256) sampleUotStream
      = (Inr (frameSeen (sampleUotHeader, [5])), sampleUotStream\<lparr>tc_in := rest, tc_out := tc_out sampleUotStream @ [],
          tc_left := tc_left sampleUotStream - length ([] :: bytes list)\<rparr>)"
    using talksE [OF reads_uotFrame [OF ok, of "quicUDPPacketSize + 256"], of sampleUotStream "[]"] by auto
  then show ?thesis
    by (simp add: frameSeen_def sampleUotHeader_def be_bytes_2)
qed

lemma sample_uot_step: "uotStep uotConn0 sampleUotConn"
proof -
  have "parseUoTTarget (sampleDnsEnv (sampleOutbound HINT_UDP)) dnsState0 sampleUotHeader
      = Some ([97, 98], 80, Some (sampleOutbound HINT_UDP))"
    by (simp add: parseUoTTarget_def uotAddress_def sampleUotHeader_def GetSocksUDPTarget_def sampleDnsEnv_def sampleNet_def
        GetOutbound_def be_nat_two)
  then have "uotHandleFrame openProxyEnv (sampleDnsEnv (sampleOutbound HINT_UDP)) dnsState0 0 sampleUotHeader [5] uotConn0
      = Some (sampleUotConn, [Upstream 7 [5]], True)"
    by (simp add: uotHandleFrame_def uotConn0_def uotStartSession_def uotFlushInitial_def quicProxyWriteUpstream_def
        openProxyEnv_def sampleProxyEnv_def sampleOutbound_def hint_defs quicPendingLimit_def sampleUotConn_def sampleUotSession_def)
  then obtain conn where "udp_redirect openProxyEnv (sampleDnsEnv (sampleOutbound HINT_UDP)) dnsState0 0 sampleUotStream uotConn0
    = Some (conn, sampleUotConn, [Upstream 7 [5]], True)"
    using sample_frame_read by (auto simp: udp_redirect_def)
  then show ?thesis by (rule uotStep.frame)
qed

text \<open>C32: However the client's frames and the servers' replies come, what one UDP-in-TCP
  connection holds stays bounded: a target has a session or a list of waiting datagrams, not
  both, there are at most 1024 targets, each list is valid and holds at most 256 KiB, and all of them at most 256 MiB.\<close>

theorem uot_bounded:
  assumes "uotStep\<^sup>*\<^sup>* uotConn0 st"
  shows "keys (uc_sessions st) \<inter> keys (uc_pending st) = {}
    \<and> distinct (map fst (uc_sessions st)) \<and> distinct (map fst (uc_pending st))
    \<and> length (uc_sessions st) + length (uc_pending st) \<le> 1024
    \<and> (\<forall>p \<in> vals (uc_pending st). pendingOk (up_initial p) \<and> pend_size (up_initial p) \<le> 262144)
    \<and> sum_list (map pend_size (map (up_initial \<circ> snd) (uc_pending st))) \<le> 1024 * 262144"
  using uot.reachable_inv [OF assms] uot.reachable_bytes [OF assms]
  by (simp add: uotOk_def entryOk_def quicPendingLimit_def quicPendingBytes_def)

theorem uot_bounded_witness:
  "keys (uc_sessions sampleUotConn) \<inter> keys (uc_pending sampleUotConn) = {}
    \<and> length (uc_sessions sampleUotConn) = 1 \<and> length (uc_pending sampleUotConn) \<le> 1024"
  using uot_bounded [OF r_into_rtranclp [of uotStep, OF sample_uot_step]] by (auto simp: sampleUotConn_def)

text \<open>The replies of a session never fail to be framed, and a client that reads frames the
  way the program does gets them all back in order, each with the header of the session's
  target, whatever way TCP cuts the connection's bytes.\<close>

theorem uot_replies:
  assumes "uotStep\<^sup>*\<^sup>* uotConn0 st" and "map_of (uc_sessions st) key = Some session"
    and "\<forall>r \<in> set replies. length r \<le> 65535"
  shows "(\<forall>r \<in> set replies. writeUoTFrame (us_header session) r \<noteq> None)
    \<and> reads (ioMany (length replies) (readUoTFrame (quicUDPPacketSize + 256)))
        (concat (map (\<lambda>r. the (writeUoTFrame (us_header session) r)) replies))
        (map (\<lambda>r. (be_bytes 2 (length r) @ drop 2 (us_header session), r)) replies)"
proof -
  have header: "uotHeaderOk (us_header session)"
    using uot.reachable_inv [OF assms(1)] vals_map_of [OF assms(2)] by (auto simp: uotOk_def)
  then have ok: "\<forall>f \<in> set (map (Pair (us_header session)) replies). frameOk f"
    using assms(3) by (auto simp: frameOk_def quicUDPPacketSize_def)
  then have "\<forall>r \<in> set replies. writeUoTFrame (us_header session) r \<noteq> None"
    using writeUoTFrame_some by auto
  with uotFrames.receive_frames [OF ok] show ?thesis
    by (simp add: frameSeen_def comp_def)
qed

theorem uot_replies_witness:
  "writeUoTFrame (us_header sampleUotSession) [1, 2] \<noteq> None
    \<and> writeUoTFrame (us_header sampleUotSession) [3] \<noteq> None"
proof -
  have "map_of (uc_sessions sampleUotConn) (uotSessionKey [97, 98] 80) = Some sampleUotSession"
    by (simp add: sampleUotConn_def)
  from uot_replies [OF r_into_rtranclp [of uotStep, OF sample_uot_step] this, of "[[1, 2], [3]]"] show ?thesis
    by simp
qed

end
