(* ===== verification/Socks_Udp.thy ===== *)
theory Socks_Udp
  imports Socks_Uot
begin

text \<open>
  SOCKS over UDP: the headers of relayed datagrams and the client's connection
  (\<open>phantomtcp/udp.go\<close>), the relay \<open>SocksUDPProxy\<close> with its sessions, and the DNS queries
  that are answered by the program itself (\<open>phantomtcp/socks.go\<close>). A datagram of the relay,
  a read of a session and the end of a DNS answer are one step each.
\<close>

unbundle bit_operations_syntax

subsection \<open>Headers and the client's connection\<close>

definition newSocksUDPConn :: "gostr \<Rightarrow> nat \<Rightarrow> bytes" where
  "newSocksUDPConn host port =
    (let ip = ParseIP host; portBytes = be_bytes 2 port in
     if To4 ip \<noteq> [] then [0, 0, 0, 0x01] @ To4 ip @ portBytes
     else if ip \<noteq> [] then [0, 0, 0, 0x04] @ To16 ip @ portBytes
     else [0, 0, 0, 0x03, of_nat (length host)] @ host @ portBytes)"

definition SocksUDPHeaderLen :: "bytes \<Rightarrow> nat" where
  "SocksUDPHeaderLen data =
    (if length data < 4 \<or> data ! 0 \<noteq> 0 \<or> data ! 1 \<noteq> 0 then 0
     else
       (let hdrlen =
          (if data ! 3 = 0x01 then 10
           else if data ! 3 = 0x03 then (if length data < 5 then 0 else 7 + unat (data ! 4))
           else if data ! 3 = 0x04 then 22
           else 0)
        in if length data < hdrlen then 0 else hdrlen))"

text \<open>The datagram that \<open>Write\<close> sends, and \<open>Read\<close> over the datagrams that arrive.\<close>

definition socksUDPConnWrite :: "bytes \<Rightarrow> bytes \<Rightarrow> bytes" where
  "socksUDPConnWrite header b = header @ b"

fun socksUDPConnRead :: "nat \<Rightarrow> bytes list \<Rightarrow> (bytes \<times> bytes list) option" where
  "socksUDPConnRead m [] = None"
| "socksUDPConnRead m (d # ds) =
    (let data = take 2048 d; hdrlen = SocksUDPHeaderLen data in
     if hdrlen = 0 \<or> data ! 2 \<noteq> 0 \<or> length data \<le> hdrlen then socksUDPConnRead m ds
     else Some (take m (drop hdrlen data), ds))"

subsection \<open>DNS over SOCKS\<close>

text \<open>
  The answer, or \<open>None\<close> inside when the request is not answered. \<open>NSRequest\<close> clears the
  additional count in the copy of the request that the failure is built from.
\<close>

definition processSocksDNSRequest :: "dnsEnv \<Rightarrow> bytes \<Rightarrow> dnsState \<Rightarrow> (dnsState \<times> bytes option) option" where
  "processSocksDNSRequest env request st =
    (if length request < 12 then Some (st, None)
     else
       (case GetQName request of
          (qname, _, _) \<Rightarrow>
            (if qname = [] then Some (st, None)
             else
               (case NSRequest env request True st of None \<Rightarrow> None
                | Some (st, _, response) \<Rightarrow>
                   (if response = [] then
                      map_option (\<lambda>response. (st, Some response)) (BuildServfail (request[10 := 0, 11 := 0]))
                    else Some (st, Some response))))))"

definition socks5InterceptDNS :: "dnsEnv \<Rightarrow> bytes \<Rightarrow> bytes \<Rightarrow> dnsState \<Rightarrow> (dnsState \<times> bytes option) option" where
  "socks5InterceptDNS env header request st =
    (if header = [] then Some (st, None)
     else
       (case processSocksDNSRequest env request st of None \<Rightarrow> None
        | Some (st, None) \<Rightarrow> Some (st, None)
        | Some (st, Some response) \<Rightarrow> Some (st, Some (header @ response))))"

text \<open>
  A write of the frame may take part of it only; \<open>takes\<close> says how many bytes each write
  takes, 0 being \<open>io.ErrShortWrite\<close> and the end of the list an error. The result is what has
  been written and whether it was all.
\<close>

fun writeAllOf :: "nat list \<Rightarrow> bytes \<Rightarrow> bytes \<times> bool" where
  "writeAllOf takes [] = ([], True)"
| "writeAllOf [] (b # frame) = ([], False)"
| "writeAllOf (0 # takes) (b # frame) = ([], False)"
| "writeAllOf (Suc n # takes) (b # frame) =
    (case writeAllOf takes (drop (Suc n) (b # frame)) of (out, ok) \<Rightarrow> (take (Suc n) (b # frame) @ out, ok))"

definition writeSocksDNSFrame :: "nat list \<Rightarrow> bytes \<Rightarrow> bytes \<times> bool" where
  "writeSocksDNSFrame takes response =
    writeAllOf takes (be_bytes 2 (u16 (length response)) @ response)"

text \<open>One request of \<open>socksInterceptDNSTCP\<close>: the frame to write, or the end of the loop.\<close>

definition socksDNSMaxMessageSize :: nat where
  "socksDNSMaxMessageSize = 65535"

definition readSocksDNSFrame :: "bytes io" where
  "readSocksDNSFrame = ioBind (ReadFull 2) (\<lambda>len. ReadFull (be_nat len))"

definition socksInterceptDNSTCP :: "dnsEnv \<Rightarrow> nat list \<Rightarrow> tcpConn \<Rightarrow> dnsState \<Rightarrow> (dnsState \<times> tcpConn \<times> bytes \<times> bool) option" where
  "socksInterceptDNSTCP env takes conn st =
    (case readSocksDNSFrame conn of
       (Inl e, conn) \<Rightarrow> Some (st, conn, [], False)
     | (Inr request, conn) \<Rightarrow>
        (case processSocksDNSRequest env request st of None \<Rightarrow> None
         | Some (st, None) \<Rightarrow> Some (st, conn, [], False)
         | Some (st, Some response) \<Rightarrow>
            (if length response > socksDNSMaxMessageSize then Some (st, conn, [], False)
             else (case writeSocksDNSFrame takes response of (out, ok) \<Rightarrow> Some (st, conn, out, ok)))))"

subsection \<open>Sessions of the relay\<close>

type_synonym socksUDPSession = uotSession

record socksUDPPending =
  sp_initial :: quicInitialPending
  sp_srcAddr :: gostr
  sp_header :: bytes
  sp_host :: gostr
  sp_port :: nat
  sp_outbound :: outbound

text \<open>The two maps, and how many DNS answers are under way (\<open>dnsSem\<close>).\<close>

record socksUDPState =
  su_ConnMap :: "(gostr \<times> socksUDPSession) list"
  su_pendingMap :: "(gostr \<times> socksUDPPending) list"
  su_dns :: nat

definition socksUDPState0 :: socksUDPState where
  "socksUDPState0 = \<lparr>su_ConnMap = [], su_pendingMap = [], su_dns = 0\<rparr>"

definition socksDNSConcurrency :: nat where
  "socksDNSConcurrency = 128"

definition socksUDPWriteUpstream :: "proxyEnv \<Rightarrow> socksUDPSession \<Rightarrow> bytes \<Rightarrow> proxyEffect list \<times> bool \<times> socksUDPSession" where
  "socksUDPWriteUpstream env session payload = quicProxyWriteUpstream env session payload"

definition socksUDPFlushInitial :: "proxyEnv \<Rightarrow> socksUDPSession \<Rightarrow> bytes list \<Rightarrow> proxyEffect list \<times> bool \<times> socksUDPSession" where
  "socksUDPFlushInitial env session datagrams = quicProxyFlushInitial env session datagrams"

text \<open>
  One read of \<open>socksUDPRunSession\<close>. A failed read deletes whatever session the key has. The
  datagram is read behind the header in a buffer of 65791 bytes; \<open>None\<close>: the rewritten reply
  does not fit in it.
\<close>

definition socksUDPRunSession ::
  "gostr \<Rightarrow> gostr \<Rightarrow> socksUDPSession \<Rightarrow> bytes option \<Rightarrow> socksUDPState \<Rightarrow> (socksUDPState \<times> proxyEffect list) option" where
  "socksUDPRunSession srcAddr key session r st =
    (case r of None \<Rightarrow> Some (st\<lparr>su_ConnMap := AList.delete key (su_ConnMap st)\<rparr>, [CloseConn (qs_conn session)])
     | Some d \<Rightarrow>
        (let bufLen = quicUDPPacketSize + 256; hdrlen = length (us_header session);
             reply = take (bufLen - hdrlen) d;
             (reply, rewriter) =
               (if qs_rewriter session \<noteq> None then rewriteServer (qs_rewriter session) reply else (reply, None));
             st = st\<lparr>su_ConnMap := AList.map_entry key (\<lambda>s. s\<lparr>qs_rewriter := rewriter\<rparr>) (su_ConnMap st)\<rparr>
         in if hdrlen + length reply \<le> bufLen then Some (st, [Downstream srcAddr (us_header session @ reply)]) else None))"

definition socksUDPStartSession ::
  "proxyEnv \<Rightarrow> gostr \<Rightarrow> bytes \<Rightarrow> gostr \<Rightarrow> nat \<Rightarrow> outbound \<Rightarrow> bytes list \<Rightarrow> socksUDPState \<Rightarrow> socksUDPState \<times> proxyEffect list" where
  "socksUDPStartSession env key header host port outbound datagrams st =
    (if datagrams = [] then (st, [])
     else if map_of (su_ConnMap st) key \<noteq> None then (st, [])
     else
       (case pe_dial env outbound host port of None \<Rightarrow> (st, [])
        | Some conn \<Rightarrow>
           (let zero = replicate (8 + pe_random env) 0; zeroed = (ob_Hint outbound AND HINT_ZERO \<noteq> 0)
            in if zeroed \<and> \<not> pe_accepts env conn zero then (st, [CloseConn conn])
               else
                 (let session = \<lparr>qs_conn = conn, qs_outbound = outbound,
                        qs_rewriter = (if ob_Hint outbound AND HINT_HTTP3 \<noteq> 0 then Some quicRewriter0 else None),
                        us_header = header\<rparr>;
                      (out, ok, session) = socksUDPFlushInitial env session datagrams;
                      out = (if zeroed then [Upstream conn zero] else []) @ out
                  in if ok then (st\<lparr>su_ConnMap := AList.update key session (su_ConnMap st)\<rparr>, out)
                     else (st\<lparr>su_ConnMap := AList.delete key (su_ConnMap st)\<rparr>, out @ [CloseConn conn])))))"

definition socksUDPContinuePending ::
  "proxyEnv \<Rightarrow> int \<Rightarrow> gostr \<Rightarrow> bytes \<Rightarrow> socksUDPState \<Rightarrow> socksUDPState \<times> proxyEffect list" where
  "socksUDPContinuePending env now key payload st =
    (case map_of (su_pendingMap st) key of None \<Rightarrow> (st, [])
     | Some p \<Rightarrow>
        (let without = st\<lparr>su_pendingMap := AList.delete key (su_pendingMap st)\<rparr>;
             start = (\<lambda>datagrams. socksUDPStartSession env key (sp_header p) (sp_host p) (sp_port p) (sp_outbound p) datagrams without)
         in if pendingExpired (sp_initial p) now then (without, [])
            else if \<not> isQUICInitialDatagram payload then start (pendingDatagrams (sp_initial p) @ [payload])
            else
              (case pendingAccumulate (sp_initial p) payload now of
                 (Inl e, i) \<Rightarrow> (without, [])
               | (Inr None, i) \<Rightarrow> (st\<lparr>su_pendingMap := AList.update key (p\<lparr>sp_initial := i\<rparr>) (su_pendingMap st)\<rparr>, [])
               | (Inr (Some datagrams), i) \<Rightarrow> start datagrams)))"

subsection \<open>The relay\<close>

text \<open>
  The target of a datagram: the address, the domain, the port, and the length of the header.
  A header in the form of SOCKS4 is not sent back. \<open>None\<close>: the datagram is dropped.
\<close>

definition socksUDPTarget :: "bytes \<Rightarrow> (bytes \<times> gostr \<times> nat \<times> bytes \<times> nat) option" where
  "socksUDPTarget data =
    (if length data > 8 \<and> data ! 0 = 4 then
       (if data ! 1 \<noteq> 1 then None
        else Some (take 4 (drop 4 data), [], be_nat (take 2 (drop 2 data)), [], 8))
     else
       (let hdrlen = SocksUDPHeaderLen data in
        if hdrlen = 0 \<or> data ! 2 \<noteq> 0 \<or> length data \<le> hdrlen then None
        else if data ! 3 = 0x01 then
          Some (take 4 (drop 4 data), [], be_nat (take 2 (drop 8 data)), take hdrlen data, hdrlen)
        else if data ! 3 = 0x03 then
          (let addrLen = unat (data ! 4) in
           Some ([], take addrLen (drop 5 data), be_nat (take 2 (drop (5 + addrLen) data)), take hdrlen data, hdrlen))
        else Some (take 16 (drop 4 data), [], be_nat (take 2 (drop 20 data)), take hdrlen data, hdrlen)))"

text \<open>
  One turn of the loop. A DNS query goes to \<open>socks5InterceptDNS\<close> when fewer than 128 are
  under way: the header and the payload it is started with are the last component.
\<close>

definition SocksUDPProxy ::
  "proxyEnv \<Rightarrow> dnsEnv \<Rightarrow> dnsState \<Rightarrow> int \<Rightarrow> gostr \<Rightarrow> bytes \<Rightarrow> socksUDPState
    \<Rightarrow> (socksUDPState \<times> proxyEffect list \<times> (bytes \<times> bytes) option) option" where
  "SocksUDPProxy env dnsenv dns now srcAddr datagram st =
    (let data = take (quicUDPPacketSize + 256) datagram in
     case socksUDPTarget data of None \<Rightarrow> Some (st, [], None)
     | Some (addr, domain, port, header, hdrlen) \<Rightarrow>
        (case GetSocksUDPTarget dnsenv dns addr domain of None \<Rightarrow> None
         | Some (host, None) \<Rightarrow> Some (st, [], None)
         | Some (host, Some outbound) \<Rightarrow>
            (let key = joinBytes (str '','') [srcAddr, host, decString port]; payload = drop hdrlen data;
                 finish = (\<lambda>(st, out). Some (st, out, None))
             in if port = 53 \<and> header \<noteq> [] then
                  (if su_dns st < socksDNSConcurrency then
                     Some (st\<lparr>su_dns := su_dns st + 1\<rparr>, [], Some (header, payload))
                   else Some (st, [], None))
                else
                  (case map_of (su_ConnMap st) key of
                     Some session \<Rightarrow>
                       (let (out, ok, session) = socksUDPWriteUpstream env session payload
                        in Some (st\<lparr>su_ConnMap := AList.update key session (su_ConnMap st)\<rparr>, out, None))
                   | None \<Rightarrow>
                      (if map_of (su_pendingMap st) key \<noteq> None then finish (socksUDPContinuePending env now key payload st)
                       else if ob_Hint outbound AND (HINT_UDP OR HINT_HTTP3) = 0 then Some (st, [], None)
                       else if ob_Hint outbound AND HINT_HTTP3 \<noteq> 0 \<and> isQUICInitialDatagram payload then
                         (if length (su_ConnMap st) + length (su_pendingMap st) \<ge> quicPendingLimit then Some (st, [], None)
                          else
                            (let pending = \<lparr>sp_initial = quicPending0, sp_srcAddr = srcAddr, sp_header = header,
                                   sp_host = host, sp_port = port, sp_outbound = outbound\<rparr>
                             in finish (socksUDPContinuePending env now key payload
                                  (st\<lparr>su_pendingMap := AList.update key pending (su_pendingMap st)\<rparr>))))
                       else finish (socksUDPStartSession env key header host port outbound [payload] st))))))"

inductive relayStep :: "socksUDPState \<Rightarrow> socksUDPState \<Rightarrow> bool" where
  datagram: "SocksUDPProxy env dnsenv dns now srcAddr d st = Some (st', out, dnsJob) \<Longrightarrow> relayStep st st'"
| reply: "map_of (su_ConnMap st) key = Some session \<Longrightarrow> socksUDPRunSession srcAddr key session r st = Some (st', out)
    \<Longrightarrow> relayStep st st'"
| stale: "socksUDPRunSession srcAddr key session None st = Some (st', out) \<Longrightarrow> relayStep st st'"
| answered: "0 < su_dns st \<Longrightarrow> relayStep st (st\<lparr>su_dns := su_dns st - 1\<rparr>)"

subsection \<open>The invariant\<close>

definition relayOk :: "socksUDPState \<Rightarrow> bool" where
  "relayOk st \<longleftrightarrow> distinct (map fst (su_ConnMap st)) \<and> distinct (map fst (su_pendingMap st))
    \<and> keys (su_ConnMap st) \<inter> keys (su_pendingMap st) = {}
    \<and> length (su_pendingMap st) \<le> quicPendingLimit
    \<and> (\<forall>p \<in> vals (su_pendingMap st). entryOk (sp_initial p))
    \<and> su_dns st \<le> socksDNSConcurrency"

lemma relayOk_delete:
  assumes "relayOk st"
  shows "relayOk (st\<lparr>su_ConnMap := AList.delete key (su_ConnMap st)\<rparr>)"
    and "relayOk (st\<lparr>su_pendingMap := AList.delete key (su_pendingMap st)\<rparr>)"
  using assms length_delete [of key "su_pendingMap st"]
  by (auto simp: relayOk_def alist_simps dest: vals_delete)

lemma relayOk_session:
  "relayOk st \<Longrightarrow> key \<notin> keys (su_pendingMap st) \<Longrightarrow> relayOk (st\<lparr>su_ConnMap := AList.update key s (su_ConnMap st)\<rparr>)"
  by (auto simp: relayOk_def alist_simps)

lemma relayOk_session_key:
  "relayOk st \<Longrightarrow> key \<in> keys (su_ConnMap st) \<Longrightarrow> relayOk (st\<lparr>su_ConnMap := AList.update key s (su_ConnMap st)\<rparr>)"
  by (auto simp: relayOk_def alist_simps)

lemma relayOk_pending:
  assumes "relayOk st" "entryOk (sp_initial p)"
    and "key \<in> keys (su_pendingMap st)
      \<or> key \<notin> keys (su_ConnMap st) \<and> length (su_pendingMap st) < quicPendingLimit"
  shows "relayOk (st\<lparr>su_pendingMap := AList.update key p (su_pendingMap st)\<rparr>)"
  using assms by (auto simp: relayOk_def alist_simps length_update dest!: vals_update)

lemma socksUDPStartSession_ok:
  assumes "relayOk st" "key \<notin> keys (su_pendingMap st)"
    and "socksUDPStartSession env key header host port outbound ds st = (st', out)"
  shows "relayOk st'"
  using assms relayOk_session [OF assms(1,2)] relayOk_delete(1) [OF assms(1), of key]
  by (auto simp: socksUDPStartSession_def Let_def split: if_splits option.splits prod.splits)

lemma socksUDPContinuePending_ok:
  assumes "relayOk st" and "socksUDPContinuePending env now key payload st = (st', out)"
  shows "relayOk st'"
proof (cases "map_of (su_pendingMap st) key")
  case None
  with assms show ?thesis by (auto simp: socksUDPContinuePending_def)
next
  case (Some p)
  have p: "key \<in> keys (su_pendingMap st)" "entryOk (sp_initial p)"
    using map_of_fst(1) [OF Some] assms(1) vals_map_of [OF Some] by (auto simp: relayOk_def)
  have start: "relayOk st'"
    if "socksUDPStartSession env key hd h n ob ds (st\<lparr>su_pendingMap := AList.delete key (su_pendingMap st)\<rparr>) = (st', out)"
    for hd h n ob ds
    by (rule socksUDPStartSession_ok [OF relayOk_delete(2) [OF assms(1)] _ that]) (simp add: alist_simps)
  show ?thesis
    using assms(2) Some start relayOk_delete(2) [OF assms(1), of key] relayOk_pending [OF assms(1)] p
    by (auto simp: socksUDPContinuePending_def Let_def split: if_splits prod.splits sum.splits option.splits
        dest: pendingAccumulate_ok)
qed

lemma SocksUDPProxy_ok:
  assumes ok: "relayOk st" and step: "SocksUDPProxy env dnsenv dns now srcAddr d st = Some (st', out, dnsJob)"
  shows "relayOk st'"
proof (cases "st' = st")
  case True
  with ok show ?thesis by simp
next
  case False
  obtain addr domain port header hdrlen host outbound where
    t: "socksUDPTarget (take (quicUDPPacketSize + 256) d) = Some (addr, domain, port, header, hdrlen)"
      "GetSocksUDPTarget dnsenv dns addr domain = Some (host, Some outbound)"
    using step False by (auto simp: SocksUDPProxy_def Let_def split: option.splits)
  let ?key = "joinBytes (str '','') [srcAddr, host, decString port]"
  have dns: "relayOk (st\<lparr>su_dns := Suc (su_dns st)\<rparr>)" if "su_dns st < socksDNSConcurrency"
    using ok that by (simp add: relayOk_def)
  have fresh: "relayOk (st\<lparr>su_pendingMap := AList.update ?key p (su_pendingMap st)\<rparr>)"
    if "map_of (su_ConnMap st) ?key = None" "sp_initial p = quicPending0"
      "\<not> quicPendingLimit \<le> length (su_ConnMap st) + length (su_pendingMap st)" for p
    by (rule relayOk_pending [OF ok]) (use that in \<open>simp_all add: map_of_fst(2)\<close>)
  show ?thesis
  proof (cases "port = 53 \<and> header \<noteq> [] \<or> map_of (su_ConnMap st) ?key \<noteq> None")
    case True
    then show ?thesis
      using step False t dns relayOk_session_key [OF ok map_of_fst(1)]
      by (auto simp: SocksUDPProxy_def Let_def simp del: joinBytes.simps split: option.splits prod.splits if_splits)
  next
    case new: False
    have continue: "relayOk st'"
      if "socksUDPContinuePending env now ?key (drop hdrlen (take (quicUDPPacketSize + 256) d)) st1 = (st', out)" "relayOk st1" for st1
      using socksUDPContinuePending_ok that by blast
    have start: "relayOk st'"
      if "map_of (su_pendingMap st) ?key = None" "socksUDPStartSession env ?key header host port outbound ds st = (st', out)" for ds
      using socksUDPStartSession_ok [OF ok _ that(2)] that(1) by (simp add: map_of_fst(2))
    show ?thesis
      using step t new continue [OF _ ok] continue [OF _ fresh] start False
      by (auto simp: SocksUDPProxy_def Let_def simp del: joinBytes.simps split: option.splits prod.splits if_splits)
  qed
qed

lemma relayOk_dns: "relayOk st \<Longrightarrow> relayOk (st\<lparr>su_dns := su_dns st - 1\<rparr>)"
  by (auto simp: relayOk_def)

lemma relayStep_ok: "relayOk st \<Longrightarrow> relayStep st st' \<Longrightarrow> relayOk st'"
proof (erule relayStep.cases)
  fix st1 key session srcAddr r st1' out
  assume "relayOk st" "st = st1" "st' = st1'" "socksUDPRunSession srcAddr key session r st1 = Some (st1', out)"
  then show ?thesis
    by (auto simp: socksUDPRunSession_def Let_def relayOk_def alist_simps split: option.splits prod.splits if_splits)
next
  fix st1 key session srcAddr st1' out
  assume "relayOk st" "st = st1" "st' = st1'" "socksUDPRunSession srcAddr key session None st1 = Some (st1', out)"
  then show ?thesis
    by (auto simp: socksUDPRunSession_def intro: relayOk_delete(1))
qed (auto intro: SocksUDPProxy_ok relayOk_dns simp del: One_nat_def)

interpretation relay: pendingTable socksUDPState0 relayStep relayOk "\<lambda>st. map (sp_initial \<circ> snd) (su_pendingMap st)"
proof
  show "relayOk socksUDPState0"
    by (simp add: relayOk_def socksUDPState0_def)
  show "relayOk s'" if "relayOk s" "relayStep s s'" for s s'
    using that by (rule relayStep_ok)
qed (auto simp: relayOk_def entryOk_def vals_def)

subsection \<open>Client and relay\<close>

text \<open>The address and the domain that a host becomes in a header.\<close>

definition hostAddress :: "gostr \<Rightarrow> bytes \<times> gostr" where
  "hostAddress host = (if ParseIP host = [] then ([], host) else (wireIP (ParseIP host), []))"

lemma ParseIP_ok: "ParseIP host \<noteq> [] \<Longrightarrow> ipOk (ParseIP host)"
  using ParseIP_length [of host] by (auto simp: ipOk_def)

lemma header_parts:
  assumes "length host \<le> 255"
  shows "(\<exists>a. newSocksUDPConn host port = [0, 0, 0, 1] @ a @ be_bytes 2 port \<and> length a = 4 \<and> hostAddress host = (a, []))
    \<or> (\<exists>a. newSocksUDPConn host port = [0, 0, 0, 4] @ a @ be_bytes 2 port \<and> length a = 16 \<and> hostAddress host = (a, []))
    \<or> newSocksUDPConn host port = [0, 0, 0, 3, of_nat (length host)] @ host @ be_bytes 2 port \<and> hostAddress host = ([], host)"
proof (cases "ParseIP host = []")
  case True
  then show ?thesis by (simp add: newSocksUDPConn_def hostAddress_def To4_def)
next
  case False
  note ip = ParseIP_ok [OF False]
  then show ?thesis
    using False wireIP_cases [OF ip]
    by (auto simp: newSocksUDPConn_def hostAddress_def Let_def To16_def)
qed

lemma SocksUDPHeaderLen_new:
  assumes "length host \<le> 255"
  shows "SocksUDPHeaderLen (newSocksUDPConn host port @ b) = length (newSocksUDPConn host port)
    \<and> 0 < length (newSocksUDPConn host port) \<and> (newSocksUDPConn host port @ b) ! 2 = 0
    \<and> hd (newSocksUDPConn host port @ b) = 0"
  using header_parts [OF assms, of port]
proof (elim disjE exE conjE)
  assume "newSocksUDPConn host port = [0, 0, 0, 3, of_nat (length host)] @ host @ be_bytes 2 port"
  moreover have "unat (of_nat (length host) :: byte) = length host"
    using assms by (simp only: unat_of_nat_byte) simp
  ultimately show ?thesis
    by (simp add: SocksUDPHeaderLen_def Let_def)
qed (simp_all add: SocksUDPHeaderLen_def Let_def)

lemma socksUDPTarget_new:
  assumes "length host \<le> 255" "port < 65536" "b \<noteq> []"
  shows "socksUDPTarget (newSocksUDPConn host port @ b)
    = Some (fst (hostAddress host), snd (hostAddress host), port, newSocksUDPConn host port, length (newSocksUDPConn host port))"
proof -
  note len = SocksUDPHeaderLen_new [OF assms(1), of port b]
  have port: "be_nat (be_bytes 2 port) = port"
    using assms(2) by (simp add: be_nat_be_bytes)
  let ?h = "newSocksUDPConn host port"
  have "\<not> ((?h @ b) ! 0 = 4)"
    using len by (cases "?h @ b") auto
  then have target: "socksUDPTarget (?h @ b) =
     (if (?h @ b) ! 3 = 0x01 then
        Some (take 4 (drop 4 (?h @ b)), [], be_nat (take 2 (drop 8 (?h @ b))), ?h, length ?h)
      else if (?h @ b) ! 3 = 0x03 then
        Some ([], take (unat ((?h @ b) ! 4)) (drop 5 (?h @ b)), be_nat (take 2 (drop (5 + unat ((?h @ b) ! 4)) (?h @ b))), ?h, length ?h)
      else Some (take 16 (drop 4 (?h @ b)), [], be_nat (take 2 (drop 20 (?h @ b))), ?h, length ?h))"
    using len assms(3) by (simp add: socksUDPTarget_def Let_def)
  have "unat (of_nat (length host) :: byte) = length host"
    using assms(1) by (simp only: unat_of_nat_byte) simp
  moreover have "drop (5 + length host) (v # w # x # y # z # host @ r) = r" for v w x y z :: byte and r
    by (simp add: eval_nat_numeral)
  ultimately show ?thesis
    unfolding target using header_parts [OF assms(1), of port] port
    by (elim disjE exE conjE) simp_all
qed

subsection \<open>Properties\<close>

text \<open>C20: What the program sends through a SOCKS5 UDP association, its own relay understands: the
  host and port of the association, the payload unchanged, and the header to answer with; and
  what the relay sends back behind that header, the association reads as the reply, cut to
  the reader's buffer.\<close>

theorem udp_header_roundtrip:
  assumes "length host \<le> 255" "port < 65536" "b \<noteq> []" "reply \<noteq> []"
    and "length (newSocksUDPConn host port) + length reply \<le> 2048"
  shows "\<exists>header. socksUDPTarget (socksUDPConnWrite (newSocksUDPConn host port) b)
      = Some (fst (hostAddress host), snd (hostAddress host), port, header, length header)
    \<and> drop (length header) (socksUDPConnWrite (newSocksUDPConn host port) b) = b
    \<and> socksUDPConnRead m ((header @ reply) # ds) = Some (take m reply, ds)"
proof (intro exI conjI)
  let ?h = "newSocksUDPConn host port"
  show "socksUDPTarget (socksUDPConnWrite ?h b) = Some (fst (hostAddress host), snd (hostAddress host), port, ?h, length ?h)"
    unfolding socksUDPConnWrite_def by (rule socksUDPTarget_new [OF assms(1-3)])
  have "take 2048 (?h @ reply) = ?h @ reply"
    using assms(5) by simp
  then show "socksUDPConnRead m ((?h @ reply) # ds) = Some (take m reply, ds)"
    using SocksUDPHeaderLen_new [OF assms(1), of port reply] assms(4)
    by (simp add: Let_def)
qed (simp add: socksUDPConnWrite_def)

theorem udp_header_roundtrip_witness:
  "\<exists>header. socksUDPTarget (socksUDPConnWrite (newSocksUDPConn [97, 46, 98] 443) [1, 2])
      = Some (fst (hostAddress [97, 46, 98]), snd (hostAddress [97, 46, 98]), 443, header, length header)
    \<and> socksUDPConnRead 1500 [header @ [9]] = Some ([9], [])"
proof -
  have "length (newSocksUDPConn [97, 46, 98] 443) \<le> 22"
    using header_parts [of "[97, 46, 98]" 443] by auto
  then show ?thesis
    using udp_header_roundtrip [of "[97, 46, 98]" 443 "[1, 2]" "[9]" 1500 "[]"] by auto
qed

text \<open>
  The relay's tables: as for UDP in TCP, but a target whose first datagram is no QUIC Initial
  gets its session whatever their number.
\<close>

theorem relay_bounded:
  assumes "relayStep\<^sup>*\<^sup>* socksUDPState0 st"
  shows "keys (su_ConnMap st) \<inter> keys (su_pendingMap st) = {} \<and> length (su_pendingMap st) \<le> 1024
    \<and> sum_list (map pend_size (map (sp_initial \<circ> snd) (su_pendingMap st))) \<le> 1024 * 262144 \<and> su_dns st \<le> 128"
  using relay.reachable_inv [OF assms] relay.reachable_bytes [OF assms]
  by (simp add: relayOk_def quicPendingLimit_def quicPendingBytes_def socksDNSConcurrency_def)

text \<open>
  Waiting datagrams are dropped only by a later datagram of the same client and target: once
  1024 targets wait or are connected, a new one is refused, however long ago they expired.
\<close>

theorem expired_never_evicted:
  assumes "length (uc_sessions st) + length (uc_pending st) \<ge> quicPendingLimit"
    and "parseUoTTarget dnsenv dns header = Some (host, port, Some outbound)"
    and "map_of (uc_sessions st) (uotSessionKey host port) = None" "map_of (uc_pending st) (uotSessionKey host port) = None"
  shows "uotHandleFrame env dnsenv dns now header payload st = Some (st, [], True)"
  using assms by (simp add: uotHandleFrame_def uotStartSession_def Let_def)

text \<open>
  The reader of a session whose first writes failed still ends later, and then takes the
  key's new session out of the map without closing it; the one of UDP in TCP does not.
\<close>

theorem stale_reader_deletes:
  assumes "map_of (su_ConnMap st) key = Some new" "qs_conn new \<noteq> qs_conn old"
  shows "\<exists>st' out. socksUDPRunSession srcAddr key old None st = Some (st', out) \<and> map_of (su_ConnMap st') key = None
    \<and> CloseConn (qs_conn new) \<notin> set out"
  using assms by (auto simp: socksUDPRunSession_def alist_simps)

theorem stale_reader_harmless:
  assumes "map_of (uc_sessions st) key = Some new" "qs_conn new \<noteq> qs_conn old"
  shows "uotRunSession key old None accepted st = Some (st, [CloseConn (qs_conn old)])"
  using assms by (simp add: uotRunSession_def uotEnd_def)

end
