(* ===== verification/Socks_Bind.thy ===== *)
theory Socks_Bind
  imports Go_Machine Socks_Wire
begin

text \<open>
  The queue of BIND listeners (\<open>phantomtcp/socks.go\<close>): clients that want the same port wait
  for each other. Queues and waiters are pointers into two heaps; a thread is at a program
  point, and a step is one critical section (\<open>bindPortQueuesMu\<close> or the queue's \<open>mu\<close>), one
  operation on a channel, or one turn of the goroutine that watches the client's connection.
  Whether \<open>net.Listen\<close> succeeds is left open, and so is when a client goes away.
\<close>

datatype watchPc = Watching | WatchCheck | WatchDelete | WatchFinish | WatchStopped

record bindWaiter =
  bw_owner :: nat
  bw_queue :: nat
  bw_notify :: bool
  bw_done :: bool
  bw_popped :: bool
  bw_watch :: watchPc

record bindPortQueue =
  bq_key :: gostr
  bq_listening :: bool
  bq_waiters :: "nat list"

text \<open>
  Where a thread stands: in \<open>acquireBindListener\<close> (the head of the loop, with a queue in
  hand, in the select, woken, canceled), holding the listener, in \<open>releaseBindListener\<close>,
  and in the functions they end with, \<open>forwardBindSlot\<close> and \<open>maybeDeleteBindQueue\<close>.
\<close>

datatype bindPc =
    Idle
  | AcquireTop gostr
  | AcquireGot gostr nat
  | Waiting gostr nat nat
  | Woken gostr nat
  | Canceled nat nat
  | Holding gostr
  | ReleaseTop gostr
  | ReleaseGot nat
  | Forward nat
  | Notify nat
  | MaybeDelete nat
  | DeleteLocked nat

record bindState =
  bs_Queues :: "gostr \<Rightarrow> nat option"
  bs_heap :: "bindPortQueue list"
  bs_waiters :: "bindWaiter list"
  bs_pc :: "nat \<Rightarrow> bindPc"

definition bindState0 :: bindState where
  "bindState0 = \<lparr>bs_Queues = Map.empty, bs_heap = [], bs_waiters = [], bs_pc = (\<lambda>_. Idle)\<rparr>"

definition onQueue :: "nat \<Rightarrow> (bindPortQueue \<Rightarrow> bindPortQueue) \<Rightarrow> bindState \<Rightarrow> bindState" where
  "onQueue q f st = st\<lparr>bs_heap := (bs_heap st)[q := f (bs_heap st ! q)]\<rparr>"

definition onWaiter :: "nat \<Rightarrow> (bindWaiter \<Rightarrow> bindWaiter) \<Rightarrow> bindState \<Rightarrow> bindState" where
  "onWaiter w f st = st\<lparr>bs_waiters := (bs_waiters st)[w := f (bs_waiters st ! w)]\<rparr>"

definition goto :: "nat \<Rightarrow> bindPc \<Rightarrow> bindState \<Rightarrow> bindState" where
  "goto t pc st = st\<lparr>bs_pc := (bs_pc st)(t := pc)\<rparr>"

definition bindPortKey :: "gostr \<Rightarrow> gostr \<Rightarrow> gostr" where
  "bindPortKey network addr = network @ [0] @ addr"

definition getBindPortQueue :: "gostr \<Rightarrow> bindState \<Rightarrow> nat \<times> bindState" where
  "getBindPortQueue key st =
    (case bs_Queues st key of Some q \<Rightarrow> (q, st)
     | None \<Rightarrow>
        (let q = length (bs_heap st) in
         (q, st\<lparr>bs_Queues := (bs_Queues st)(key \<mapsto> q),
                bs_heap := bs_heap st @ [\<lparr>bq_key = key, bq_listening = False, bq_waiters = []\<rparr>]\<rparr>)))"

definition bindQueueEmpty :: "nat \<Rightarrow> bindState \<Rightarrow> bool" where
  "bindQueueEmpty q st \<longleftrightarrow> \<not> bq_listening (bs_heap st ! q) \<and> bq_waiters (bs_heap st ! q) = []"

text \<open>The second half of \<open>maybeDeleteBindQueue\<close>, under both locks.\<close>

definition maybeDeleteBindQueue :: "nat \<Rightarrow> bindState \<Rightarrow> bindState" where
  "maybeDeleteBindQueue q st =
    (let key = bq_key (bs_heap st ! q) in
     if bs_Queues st key = Some q \<and> bindQueueEmpty q st then st\<lparr>bs_Queues := (bs_Queues st)(key := None)\<rparr> else st)"

definition removeWaiter :: "nat \<Rightarrow> bindState \<Rightarrow> bindState" where
  "removeWaiter w st =
    onQueue (bw_queue (bs_waiters st ! w)) (\<lambda>q. q\<lparr>bq_waiters := remove1 w (bq_waiters q)\<rparr>) st"

text \<open>What \<open>acquireBindListener\<close> does under the queue's lock; \<open>listens\<close>: \<open>net.Listen\<close> succeeds.\<close>

definition acquireBindListener :: "nat \<Rightarrow> gostr \<Rightarrow> nat \<Rightarrow> bool \<Rightarrow> bindState \<Rightarrow> bindState" where
  "acquireBindListener t key q listens st =
    (if \<not> bq_listening (bs_heap st ! q) then
       (if listens then goto t (Holding key) (onQueue q (\<lambda>q. q\<lparr>bq_listening := True\<rparr>) st)
        else goto t (Forward q) st)
     else
       (let w = length (bs_waiters st);
            waiter = \<lparr>bw_owner = t, bw_queue = q, bw_notify = False, bw_done = False, bw_popped = False, bw_watch = Watching\<rparr>
        in goto t (Waiting key q w)
             (onQueue q (\<lambda>q. q\<lparr>bq_waiters := bq_waiters q @ [w]\<rparr>) (st\<lparr>bs_waiters := bs_waiters st @ [waiter]\<rparr>))))"

definition forwardBindSlot :: "nat \<Rightarrow> nat \<Rightarrow> bindState \<Rightarrow> bindState" where
  "forwardBindSlot t q st =
    (case bq_waiters (bs_heap st ! q) of
       w # ws \<Rightarrow>
         (if \<not> bq_listening (bs_heap st ! q) then
            goto t (Notify w) (onWaiter w (\<lambda>w. w\<lparr>bw_popped := True\<rparr>) (onQueue q (\<lambda>q. q\<lparr>bq_waiters := ws\<rparr>) st))
          else goto t (MaybeDelete q) st)
     | [] \<Rightarrow> goto t (MaybeDelete q) st)"

definition releaseBindListener :: "nat \<Rightarrow> nat \<Rightarrow> bindState \<Rightarrow> bindState" where
  "releaseBindListener t q st = goto t (Forward q) (onQueue q (\<lambda>q. q\<lparr>bq_listening := False\<rparr>) st)"

text \<open>One turn of \<open>watchBindControl\<close>; \<open>gone\<close>: the client closed its connection or sent data.\<close>

definition watchBindControl :: "nat \<Rightarrow> bool \<Rightarrow> bindState \<Rightarrow> bindState" where
  "watchBindControl w gone st =
    (let waiter = bs_waiters st ! w in
     case bw_watch waiter of
       Watching \<Rightarrow>
         (if bw_done waiter then onWaiter w (\<lambda>w. w\<lparr>bw_watch := WatchStopped\<rparr>) st
          else if gone then onWaiter w (\<lambda>w. w\<lparr>bw_watch := WatchCheck\<rparr>) (removeWaiter w st)
          else st)
     | WatchCheck \<Rightarrow>
         onWaiter w (\<lambda>w'. w'\<lparr>bw_watch := if bindQueueEmpty (bw_queue waiter) st then WatchDelete else WatchFinish\<rparr>) st
     | WatchDelete \<Rightarrow> onWaiter w (\<lambda>w. w\<lparr>bw_watch := WatchFinish\<rparr>) (maybeDeleteBindQueue (bw_queue waiter) st)
     | WatchFinish \<Rightarrow> onWaiter w (\<lambda>w. w\<lparr>bw_done := True, bw_watch := WatchStopped\<rparr>) st
     | WatchStopped \<Rightarrow> st)"

text \<open>
  What a client of BIND is told. \<open>acquire\<close> is the result of \<open>acquireBindListener\<close> (the error,
  none when the wait was canceled, or the address that listens), \<open>accept\<close> that of
  \<open>Accept\<close> (none for an error) with the peer's address. Whatever happens after the listener
  is acquired, it is closed and released. The result is the peer to relay to.
\<close>

definition socks5Bind ::
  "tcpAddr option \<Rightarrow> gostr \<Rightarrow> bytes \<Rightarrow> nat \<Rightarrow> (gostr \<Rightarrow> gostr \<Rightarrow> bindError option + tcpAddr) \<Rightarrow> tcpAddr option option
    \<Rightarrow> tcpAddr option io" where
  "socks5Bind local host reqAddr reqPort acquire accepted =
    (let refuse = (\<lambda>rep addr. ioBind (connWriteIgnore (socks5AddrReply rep addr)) (\<lambda>_. ioReturn None)) in
     case local of None \<Rightarrow> refuse socks5RepGeneralFailure \<lparr>ta_IP = [], ta_Port = 0\<rparr>
     | Some la \<Rightarrow>
        (if host \<noteq> [] then refuse socks5RepAddrTypeNotSupported la
         else
           (case acquire (bindListenNetwork la reqAddr) (bindListenAddr reqAddr reqPort) of
              Inl None \<Rightarrow> ioReturn None
            | Inl (Some err) \<Rightarrow> refuse (socks5BindRep (Some err)) la
            | Inr bound \<Rightarrow>
                ioCatch (connWrite (socks5AddrReply socks5RepSucceeded (bindReplyAddr la reqAddr bound))) (\<lambda>_. ioReturn None) (\<lambda>_.
                  case accepted of None \<Rightarrow> ioReturn None
                  | Some None \<Rightarrow> refuse socks5RepGeneralFailure la
                  | Some (Some peer) \<Rightarrow>
                      ioCatch (connWrite (socks5AddrReply socks5RepSucceeded peer)) (\<lambda>_. ioReturn None) (\<lambda>_. ioReturn (Some peer))))))"

subsection \<open>Steps\<close>

inductive bindStep :: "bindState \<Rightarrow> bindState \<Rightarrow> bool" where
  start: "bs_pc st t = Idle \<Longrightarrow> bindStep st (goto t (AcquireTop key) st)"
| acquireGet: "bs_pc st t = AcquireTop key \<Longrightarrow> getBindPortQueue key st = (q, st') \<Longrightarrow>
    bindStep st (goto t (AcquireGot key q) st')"
| acquireLock: "bs_pc st t = AcquireGot key q \<Longrightarrow> bindStep st (acquireBindListener t key q listens st)"
| notified: "bs_pc st t = Waiting key q w \<Longrightarrow> bw_notify (bs_waiters st ! w) \<Longrightarrow>
    bindStep st (goto t (Woken key w) (onWaiter w (\<lambda>w. w\<lparr>bw_notify := False, bw_done := True\<rparr>) st))"
| canceled: "bs_pc st t = Waiting key q w \<Longrightarrow> bw_done (bs_waiters st ! w) \<Longrightarrow> bindStep st (goto t (Canceled q w) st)"
| givenUp: "bs_pc st t = Canceled q w \<Longrightarrow> \<not> bw_popped (bs_waiters st ! w) \<Longrightarrow> bindStep st (goto t Idle st)"
| passedOn: "bs_pc st t = Canceled q w \<Longrightarrow> bw_popped (bs_waiters st ! w) \<Longrightarrow> bw_notify (bs_waiters st ! w) \<Longrightarrow>
    bindStep st (goto t (Forward q) (onWaiter w (\<lambda>w. w\<lparr>bw_notify := False\<rparr>) st))"
| again: "bs_pc st t = Woken key w \<Longrightarrow> bw_watch (bs_waiters st ! w) = WatchStopped \<Longrightarrow>
    bindStep st (goto t (AcquireTop key) st)"
| release: "bs_pc st t = Holding key \<Longrightarrow> bindStep st (goto t (ReleaseTop key) st)"
| releaseGet: "bs_pc st t = ReleaseTop key \<Longrightarrow> getBindPortQueue key st = (q, st') \<Longrightarrow>
    bindStep st (goto t (ReleaseGot q) st')"
| releaseLock: "bs_pc st t = ReleaseGot q \<Longrightarrow> bindStep st (releaseBindListener t q st)"
| forward: "bs_pc st t = Forward q \<Longrightarrow> bindStep st (forwardBindSlot t q st)"
| notify: "bs_pc st t = Notify w \<Longrightarrow> \<not> bw_notify (bs_waiters st ! w) \<Longrightarrow>
    bindStep st (goto t Idle (onWaiter w (\<lambda>w. w\<lparr>bw_notify := True\<rparr>) st))"
| deleteCheck: "bs_pc st t = MaybeDelete q \<Longrightarrow>
    bindStep st (goto t (if bindQueueEmpty q st then DeleteLocked q else Idle) st)"
| delete: "bs_pc st t = DeleteLocked q \<Longrightarrow> bindStep st (goto t Idle (maybeDeleteBindQueue q st))"
| watch: "w < length (bs_waiters st) \<Longrightarrow> bindStep st (watchBindControl w gone st)"

inductive_cases bindStepE: "bindStep st st'"

lemmas bind_ops = onQueue_def onWaiter_def goto_def removeWaiter_def maybeDeleteBindQueue_def acquireBindListener_def
  forwardBindSlot_def releaseBindListener_def watchBindControl_def

subsection \<open>Nobody is forgotten\<close>

text \<open>The threads that will see to the waiters of queue \<open>q\<close>, which the map has under \<open>key\<close>.\<close>

fun serves :: "bindState \<Rightarrow> gostr \<Rightarrow> nat \<Rightarrow> bindPc \<Rightarrow> bool" where
  "serves st key q (AcquireTop k) \<longleftrightarrow> k = key"
| "serves st key q (AcquireGot k p) \<longleftrightarrow> p = q"
| "serves st key q (Woken k w) \<longleftrightarrow> k = key"
| "serves st key q (Waiting k p w) \<longleftrightarrow> p = q \<and> bw_popped (bs_waiters st ! w)"
| "serves st key q (Canceled p w) \<longleftrightarrow> p = q \<and> bw_popped (bs_waiters st ! w)"
| "serves st key q (Forward p) \<longleftrightarrow> p = q"
| "serves st key q pc \<longleftrightarrow> False"

fun holds :: "gostr \<Rightarrow> nat \<Rightarrow> bindPc \<Rightarrow> bool" where
  "holds key q (Holding k) \<longleftrightarrow> k = key"
| "holds key q (ReleaseTop k) \<longleftrightarrow> k = key"
| "holds key q (ReleaseGot p) \<longleftrightarrow> p = q"
| "holds key q pc \<longleftrightarrow> False"

text \<open>Program points name valid queues and waiters, and a waiter only its owner's point.\<close>

fun pcOk :: "bindState \<Rightarrow> nat \<Rightarrow> bindPc \<Rightarrow> bool" where
  "pcOk st t (AcquireGot k q) \<longleftrightarrow> q < length (bs_heap st) \<and> bq_key (bs_heap st ! q) = k"
| "pcOk st t (Waiting k q w) \<longleftrightarrow> q < length (bs_heap st) \<and> bq_key (bs_heap st ! q) = k
    \<and> w < length (bs_waiters st) \<and> bw_owner (bs_waiters st ! w) = t"
| "pcOk st t (Canceled q w) \<longleftrightarrow> q < length (bs_heap st) \<and> w < length (bs_waiters st) \<and> bw_owner (bs_waiters st ! w) = t"
| "pcOk st t (Woken k w) \<longleftrightarrow> w < length (bs_waiters st) \<and> bw_owner (bs_waiters st ! w) = t"
| "pcOk st t (ReleaseGot q) \<longleftrightarrow> q < length (bs_heap st)"
| "pcOk st t (Forward q) \<longleftrightarrow> q < length (bs_heap st)"
| "pcOk st t (Notify w) \<longleftrightarrow> w < length (bs_waiters st) \<and> bw_popped (bs_waiters st ! w)"
| "pcOk st t (MaybeDelete q) \<longleftrightarrow> q < length (bs_heap st)"
| "pcOk st t (DeleteLocked q) \<longleftrightarrow> q < length (bs_heap st)"
| "pcOk st t pc \<longleftrightarrow> True"

definition queueOk :: "bindState \<Rightarrow> nat \<Rightarrow> bool" where
  "queueOk st q \<longleftrightarrow> distinct (bq_waiters (bs_heap st ! q))
    \<and> (\<forall>w \<in> set (bq_waiters (bs_heap st ! q)). w < length (bs_waiters st) \<and> bw_queue (bs_waiters st ! w) = q
        \<and> \<not> bw_popped (bs_waiters st ! w) \<and> \<not> bw_done (bs_waiters st ! w) \<and> \<not> bw_notify (bs_waiters st ! w)
        \<and> bw_watch (bs_waiters st ! w) = Watching
        \<and> bs_pc st (bw_owner (bs_waiters st ! w)) = Waiting (bq_key (bs_heap st ! q)) q w)"

definition bindOk :: "bindState \<Rightarrow> bool" where
  "bindOk st \<longleftrightarrow>
    (\<forall>key q. bs_Queues st key = Some q \<longrightarrow> q < length (bs_heap st) \<and> bq_key (bs_heap st ! q) = key
      \<and> (bq_listening (bs_heap st ! q) \<longrightarrow> (\<exists>t. holds key q (bs_pc st t)))
      \<and> (\<not> bq_listening (bs_heap st ! q) \<and> bq_waiters (bs_heap st ! q) \<noteq> [] \<longrightarrow> (\<exists>t. serves st key q (bs_pc st t))))
    \<and> (\<forall>q < length (bs_heap st). queueOk st q) \<and> (\<forall>t. pcOk st t (bs_pc st t))
    \<and> (\<forall>w < length (bs_waiters st). bw_queue (bs_waiters st ! w) < length (bs_heap st))"

lemma bindOkI:
  assumes "\<And>key q. bs_Queues st key = Some q \<Longrightarrow> q < length (bs_heap st) \<and> bq_key (bs_heap st ! q) = key"
    and "\<And>key q. bs_Queues st key = Some q \<Longrightarrow> bq_listening (bs_heap st ! q) \<Longrightarrow> \<exists>t. holds key q (bs_pc st t)"
    and "\<And>key q. bs_Queues st key = Some q \<Longrightarrow> \<not> bq_listening (bs_heap st ! q) \<Longrightarrow> bq_waiters (bs_heap st ! q) \<noteq> []
      \<Longrightarrow> \<exists>t. serves st key q (bs_pc st t)"
    and "\<And>q. q < length (bs_heap st) \<Longrightarrow> queueOk st q" "\<And>t. pcOk st t (bs_pc st t)"
    and "\<And>w. w < length (bs_waiters st) \<Longrightarrow> bw_queue (bs_waiters st ! w) < length (bs_heap st)"
  shows "bindOk st"
  using assms by (auto simp: bindOk_def)

lemma bindOkD:
  assumes "bindOk st"
  shows "bs_Queues st key = Some q \<Longrightarrow> q < length (bs_heap st) \<and> bq_key (bs_heap st ! q) = key"
    and "bs_Queues st key = Some q \<Longrightarrow> bq_listening (bs_heap st ! q) \<Longrightarrow> \<exists>t. holds key q (bs_pc st t)"
    and "bs_Queues st key = Some q \<Longrightarrow> \<not> bq_listening (bs_heap st ! q) \<Longrightarrow> bq_waiters (bs_heap st ! q) \<noteq> []
      \<Longrightarrow> \<exists>t. serves st key q (bs_pc st t)"
    and "q < length (bs_heap st) \<Longrightarrow> queueOk st q" "pcOk st t (bs_pc st t)"
    and "w < length (bs_waiters st) \<Longrightarrow> bw_queue (bs_waiters st ! w) < length (bs_heap st)"
  using assms by (auto simp: bindOk_def)

text \<open>A thread that moves keeps what it stood for, or somebody else does.\<close>

lemma queueMoved: "\<exists>t'. P (f t') \<Longrightarrow> (P (f t) \<Longrightarrow> P x) \<Longrightarrow> \<exists>t'. P ((f(t := x)) t')"
  by (metis fun_upd_apply)

definition quiet :: "nat \<Rightarrow> (bindWaiter \<Rightarrow> bindWaiter) \<Rightarrow> bindState \<Rightarrow> bool" where
  "quiet w f st \<longleftrightarrow> f = id \<or> (\<forall>x. bw_owner (f x) = bw_owner x \<and> bw_queue (f x) = bw_queue x \<and> bw_popped (f x) = bw_popped x)
    \<and> (\<forall>q < length (bs_heap st). w \<notin> set (bq_waiters (bs_heap st ! q)))"

lemma onWaiter_nth: "bs_waiters (onWaiter w f st) ! v = (if v = w \<and> w < length (bs_waiters st) then f (bs_waiters st ! w) else bs_waiters st ! v)"
  by (cases "v = w") (auto simp: onWaiter_def not_less list_update_beyond)

lemma onWaiter_same [simp]:
  "bs_heap (onWaiter w f st) = bs_heap st" "bs_Queues (onWaiter w f st) = bs_Queues st" "bs_pc (onWaiter w f st) = bs_pc st"
  "length (bs_waiters (onWaiter w f st)) = length (bs_waiters st)"
  by (simp_all add: onWaiter_def)

lemma goto_same [simp]:
  "bs_heap (goto t pc st) = bs_heap st" "bs_Queues (goto t pc st) = bs_Queues st" "bs_waiters (goto t pc st) = bs_waiters st"
  "bs_pc (goto t pc st) = (bs_pc st)(t := pc)"
  by (simp_all add: goto_def)

lemma quiet_fields:
  assumes "quiet w f st"
  shows "bw_owner (bs_waiters (onWaiter w f st) ! v) = bw_owner (bs_waiters st ! v)"
    and "bw_queue (bs_waiters (onWaiter w f st) ! v) = bw_queue (bs_waiters st ! v)"
    and "bw_popped (bs_waiters (onWaiter w f st) ! v) = bw_popped (bs_waiters st ! v)"
    and "q < length (bs_heap st) \<Longrightarrow> v \<in> set (bq_waiters (bs_heap st ! q)) \<Longrightarrow> bs_waiters (onWaiter w f st) ! v = bs_waiters st ! v"
  using assms by (auto simp: quiet_def onWaiter_nth)

lemma serves_cong:
  "(\<And>v. bw_popped (bs_waiters st' ! v) = bw_popped (bs_waiters st ! v)) \<Longrightarrow> serves st' key q pc = serves st key q pc"
  by (cases pc) simp_all

lemma pcOk_cong:
  assumes "\<And>v. bw_owner (bs_waiters st' ! v) = bw_owner (bs_waiters st ! v)"
    "\<And>v. bw_popped (bs_waiters st' ! v) = bw_popped (bs_waiters st ! v)" "length (bs_waiters st') = length (bs_waiters st)"
    "\<And>q. bq_key (bs_heap st' ! q) = bq_key (bs_heap st ! q)" "length (bs_heap st') = length (bs_heap st)"
  shows "pcOk st' t pc = pcOk st t pc"
  using assms by (cases pc) simp_all

lemma quiet_ok:
  assumes ok: "bindOk st" and f: "quiet w f st" and pc: "pcOk st t pc"
    and serves: "\<And>key q. bs_Queues st key = Some q \<Longrightarrow> serves st key q (bs_pc st t) \<Longrightarrow> serves st key q pc"
    and holds: "\<And>key q. bs_Queues st key = Some q \<Longrightarrow> holds key q (bs_pc st t) \<Longrightarrow> holds key q pc"
    and own: "pc = bs_pc st t \<or> (\<forall>key q v. bs_pc st t = Waiting key q v \<longrightarrow> v \<notin> set (bq_waiters (bs_heap st ! q)))"
  shows "bindOk (goto t pc (onWaiter w f st))"
proof (rule bindOkI)
  let ?st = "goto t pc (onWaiter w f st)"
  note fields = quiet_fields [OF f]
  fix key q
  assume m: "bs_Queues ?st key = Some q"
  then show "q < length (bs_heap ?st) \<and> bq_key (bs_heap ?st ! q) = key"
    using bindOkD(1) [OF ok] by simp
  show "\<exists>t. holds key q (bs_pc ?st t)" if "bq_listening (bs_heap ?st ! q)"
    using queueMoved [of "holds key q", OF bindOkD(2) [OF ok, of key q] holds [of key q]] that m by simp
  have eq: "serves ?st k p x = serves st k p x" for k p x
    by (rule serves_cong) (simp add: fields)
  show "\<exists>t. serves ?st key q (bs_pc ?st t)" if "\<not> bq_listening (bs_heap ?st ! q)" "bq_waiters (bs_heap ?st ! q) \<noteq> []"
    unfolding eq using queueMoved [of "serves st key q", OF bindOkD(3) [OF ok, of key q] serves [of key q]] that m by simp
next
  let ?st = "goto t pc (onWaiter w f st)"
  note fields = quiet_fields [OF f]
  show "queueOk ?st q" if "q < length (bs_heap ?st)" for q
    using bindOkD(4) [OF ok, of q] that own fields
    unfolding queueOk_def by (auto split: if_splits)
  have eq: "pcOk ?st t' x = pcOk st t' x" for t' x
    by (rule pcOk_cong) (simp_all add: fields)
  show "pcOk ?st t' (bs_pc ?st t')" for t'
    unfolding eq using pc bindOkD(5) [OF ok, of t'] by simp
  show "bw_queue (bs_waiters ?st ! w) < length (bs_heap ?st)" if "w < length (bs_waiters ?st)" for w
    using bindOkD(6) [OF ok, of w] that fields by simp
qed

lemma goto_ok:
  assumes "bindOk st" "pcOk st t pc"
    and "\<And>key q. bs_Queues st key = Some q \<Longrightarrow> serves st key q (bs_pc st t) \<Longrightarrow> serves st key q pc"
    and "\<And>key q. bs_Queues st key = Some q \<Longrightarrow> holds key q (bs_pc st t) \<Longrightarrow> holds key q pc"
    and "\<And>key q v. bs_pc st t = Waiting key q v \<Longrightarrow> v \<notin> set (bq_waiters (bs_heap st ! q))"
  shows "bindOk (goto t pc st)"
  using quiet_ok [OF assms(1), of 0 id t pc] assms(2-5) by (auto simp: quiet_def onWaiter_def)

lemma flags_ok: "bindOk st \<Longrightarrow> quiet w f st \<Longrightarrow> bindOk (onWaiter w f st)"
  using quiet_ok [of st w f 0 "bs_pc st 0"] by (simp add: bindOkD(5) goto_def onWaiter_def)

subsection \<open>Every step keeps the invariant\<close>

lemma delete_ok: "bindOk st \<Longrightarrow> bindOk (maybeDeleteBindQueue q st)"
proof (rule bindOkI)
  assume ok: "bindOk st"
  have serves: "serves (maybeDeleteBindQueue q st) k p x = serves st k p x" for k p x
    by (rule serves_cong) (simp add: maybeDeleteBindQueue_def Let_def)
  have pcs: "pcOk (maybeDeleteBindQueue q st) t x = pcOk st t x" for t x
    by (rule pcOk_cong) (simp_all add: maybeDeleteBindQueue_def Let_def)
  note defs = maybeDeleteBindQueue_def Let_def
  fix key p t v
  show "p < length (bs_heap (maybeDeleteBindQueue q st)) \<and> bq_key (bs_heap (maybeDeleteBindQueue q st) ! p) = key"
    if "bs_Queues (maybeDeleteBindQueue q st) key = Some p"
    using that bindOkD(1) [OF ok, of key p] by (auto simp: defs split: if_splits)
  show "\<exists>t. holds key p (bs_pc (maybeDeleteBindQueue q st) t)"
    if "bs_Queues (maybeDeleteBindQueue q st) key = Some p" "bq_listening (bs_heap (maybeDeleteBindQueue q st) ! p)"
    using that bindOkD(2) [OF ok, of key p] by (auto simp: defs split: if_splits)
  show "\<exists>t. serves (maybeDeleteBindQueue q st) key p (bs_pc (maybeDeleteBindQueue q st) t)"
    if "bs_Queues (maybeDeleteBindQueue q st) key = Some p" "\<not> bq_listening (bs_heap (maybeDeleteBindQueue q st) ! p)"
      "bq_waiters (bs_heap (maybeDeleteBindQueue q st) ! p) \<noteq> []"
    unfolding serves using that bindOkD(3) [OF ok, of key p] by (auto simp: defs split: if_splits)
  show "queueOk (maybeDeleteBindQueue q st) p" if "p < length (bs_heap (maybeDeleteBindQueue q st))"
    using that bindOkD(4) [OF ok, of p] by (auto simp: defs queueOk_def)
  show "pcOk (maybeDeleteBindQueue q st) t (bs_pc (maybeDeleteBindQueue q st) t)"
    unfolding pcs using bindOkD(5) [OF ok, of t] by (simp add: defs)
  show "bw_queue (bs_waiters (maybeDeleteBindQueue q st) ! v) < length (bs_heap (maybeDeleteBindQueue q st))"
    if "v < length (bs_waiters (maybeDeleteBindQueue q st))"
    using that bindOkD(6) [OF ok, of v] by (auto simp: defs split: if_splits)
qed

text \<open>The queue's fields after a change that keeps its key.\<close>

lemma onQueue_same [simp]:
  "bs_waiters (onQueue q f st) = bs_waiters st" "bs_Queues (onQueue q f st) = bs_Queues st" "bs_pc (onQueue q f st) = bs_pc st"
  "length (bs_heap (onQueue q f st)) = length (bs_heap st)"
  by (simp_all add: onQueue_def)

lemma onQueue_nth: "q < length (bs_heap st) \<Longrightarrow> bs_heap (onQueue q f st) ! p = (if p = q then f (bs_heap st ! q) else bs_heap st ! p)"
  by (simp add: onQueue_def nth_list_update)

lemma remove_ok:
  assumes ok: "bindOk st" and w: "w < length (bs_waiters st)"
  shows "bindOk (removeWaiter w st)"
proof -
  define q where "q = bw_queue (bs_waiters st ! w)"
  let ?f = "\<lambda>q. q\<lparr>bq_waiters := remove1 w (bq_waiters q)\<rparr>"
  let ?st = "onQueue q ?f st"
  have q: "q < length (bs_heap st)"
    using bindOkD(6) [OF ok w] by (simp add: q_def)
  note nth = onQueue_nth [OF q, of ?f]
  have serves: "serves ?st k p x = serves st k p x" for k p x
    by (rule serves_cong) simp
  have pcs: "pcOk ?st t x = pcOk st t x" for t x
    by (rule pcOk_cong) (simp_all add: nth)
  have "bindOk ?st"
  proof (rule bindOkI)
    fix key p t v
    show "p < length (bs_heap ?st) \<and> bq_key (bs_heap ?st ! p) = key" if "bs_Queues ?st key = Some p"
      using that bindOkD(1) [OF ok, of key p] by (auto simp: nth)
    show "\<exists>t. holds key p (bs_pc ?st t)" if "bs_Queues ?st key = Some p" "bq_listening (bs_heap ?st ! p)"
      using that bindOkD(2) [OF ok, of key p] by (simp add: nth split: if_splits)
    show "\<exists>t. serves ?st key p (bs_pc ?st t)"
      if "bs_Queues ?st key = Some p" "\<not> bq_listening (bs_heap ?st ! p)" "bq_waiters (bs_heap ?st ! p) \<noteq> []"
    proof -
      have "bq_waiters (bs_heap st ! p) \<noteq> []"
        using that(3) by (auto simp: nth split: if_splits)
      then show ?thesis
        unfolding serves using that bindOkD(3) [OF ok, of key p] by (auto simp: nth split: if_splits)
    qed
    show "queueOk ?st p" if "p < length (bs_heap ?st)"
      using that bindOkD(4) [OF ok, of p] by (auto simp: nth queueOk_def dest: notin_set_remove1 split: if_splits)
    show "pcOk ?st t (bs_pc ?st t)"
      unfolding pcs using bindOkD(5) [OF ok, of t] by simp
    show "bw_queue (bs_waiters ?st ! v) < length (bs_heap ?st)" if "v < length (bs_waiters ?st)"
      using that bindOkD(6) [OF ok, of v] by simp
  qed
  then show ?thesis by (simp add: removeWaiter_def q_def)
qed

lemma removed:
  assumes "bindOk st" "w < length (bs_waiters st)" "q < length (bs_heap st)"
  shows "w \<notin> set (bq_waiters (bs_heap (removeWaiter w st) ! q))"
proof -
  have "bw_queue (bs_waiters st ! w) < length (bs_heap st)"
    using bindOkD(6) [OF assms(1,2)] .
  then show ?thesis
    using bindOkD(4) [OF assms(1,3)] by (auto simp: removeWaiter_def onQueue_nth queueOk_def)
qed

lemma get_ok:
  assumes ok: "bindOk st" and get: "getBindPortQueue key st = (q, st')"
  shows "bindOk st' \<and> bs_Queues st' key = Some q \<and> bs_pc st' = bs_pc st \<and> q < length (bs_heap st') \<and> bq_key (bs_heap st' ! q) = key"
proof (cases "bs_Queues st key")
  case (Some p)
  with get ok show ?thesis
    by (auto simp: getBindPortQueue_def dest: bindOkD(1))
next
  case None
  define new where "new = \<lparr>bq_key = key, bq_listening = False, bq_waiters = []\<rparr>"
  have q: "q = length (bs_heap st)" and st': "st' = st\<lparr>bs_Queues := (bs_Queues st)(key \<mapsto> q), bs_heap := bs_heap st @ [new]\<rparr>"
    using get None by (auto simp: getBindPortQueue_def Let_def new_def)
  have nth: "bs_heap st' ! p = (if p < q then bs_heap st ! p else bs_heap st' ! p)" for p
    by (simp add: st' q nth_append)
  have newq: "bs_heap st' ! q = new"
    by (simp add: st' q)
  have "bindOk st'"
  proof (rule bindOkI)
    fix k p t v
    have old: "bs_Queues st k = Some p \<and> p < q" if "bs_Queues st' k = Some p" "k \<noteq> key"
      using that bindOkD(1) [OF ok, of k p] by (simp add: st' q)
    have new: "p = q" if "bs_Queues st' k = Some p" "k = key"
      using that by (simp add: st')
    show "p < length (bs_heap st') \<and> bq_key (bs_heap st' ! p) = k" if "bs_Queues st' k = Some p"
      using that old new newq bindOkD(1) [OF ok, of k p] by (cases "k = key") (auto simp: st' q nth_append new_def)
    show "\<exists>t. holds k p (bs_pc st' t)" if "bs_Queues st' k = Some p" "bq_listening (bs_heap st' ! p)"
      using that old new newq bindOkD(2) [OF ok, of k p] by (cases "k = key") (auto simp: st' q nth_append new_def)
    have "serves st' k' p' x = serves st k' p' x" for k' p' x
      by (rule serves_cong) (simp add: st')
    then show "\<exists>t. serves st' k p (bs_pc st' t)"
      if "bs_Queues st' k = Some p" "\<not> bq_listening (bs_heap st' ! p)" "bq_waiters (bs_heap st' ! p) \<noteq> []"
      using that old new newq bindOkD(3) [OF ok, of k p] by (cases "k = key") (auto simp: st' q nth_append new_def)
    show "queueOk st' p" if "p < length (bs_heap st')"
    proof (cases "p = q")
      case True
      then show ?thesis by (simp add: queueOk_def newq new_def)
    next
      case False
      with that have "p < length (bs_heap st)"
        by (simp add: st' q)
      with bindOkD(4) [OF ok, of p] show ?thesis
        by (auto simp: queueOk_def st' nth_append)
    qed
    show "pcOk st' t (bs_pc st' t)"
      using bindOkD(5) [OF ok, of t] by (cases "bs_pc st t") (auto simp: st' nth_append)
    show "bw_queue (bs_waiters st' ! v) < length (bs_heap st')" if "v < length (bs_waiters st')"
      using that bindOkD(6) [OF ok, of v] by (simp add: st')
  qed
  then show ?thesis
    using newq by (simp add: st' q new_def)
qed

text \<open>Setting a queue's flag, for a thread that answers for it afterwards.\<close>

lemma listening_ok:
  assumes ok: "bindOk st" and q: "q < length (bs_heap st)" and pc: "pcOk st t pc"
    and stands: "\<And>key. bs_Queues st key = Some q \<Longrightarrow> if flag then holds key q pc else serves st key q pc"
    and serves: "\<And>key p. bs_Queues st key = Some p \<Longrightarrow> p \<noteq> q \<Longrightarrow> \<not> serves st key p (bs_pc st t)"
    and holds: "\<And>key p. bs_Queues st key = Some p \<Longrightarrow> p \<noteq> q \<Longrightarrow> \<not> holds key p (bs_pc st t)"
    and own: "\<And>key p v. bs_pc st t \<noteq> Waiting key p v"
  shows "bindOk (goto t pc (onQueue q (\<lambda>q. q\<lparr>bq_listening := flag\<rparr>) st))"
proof -
  let ?f = "\<lambda>q. q\<lparr>bq_listening := flag\<rparr>"
  let ?st = "goto t pc (onQueue q ?f st)"
  note nth = onQueue_nth [OF q, of ?f]
  have eq: "serves ?st k p x = serves st k p x" for k p x
    by (rule serves_cong) simp
  have pcs: "pcOk ?st t' x = pcOk st t' x" for t' x
    by (rule pcOk_cong) (simp_all add: nth)
  show "bindOk ?st"
  proof (rule bindOkI)
    fix key p v t'
    show "p < length (bs_heap ?st) \<and> bq_key (bs_heap ?st ! p) = key" if "bs_Queues ?st key = Some p"
      using that bindOkD(1) [OF ok, of key p] by (auto simp: nth)
    show "\<exists>t. holds key p (bs_pc ?st t)" if m: "bs_Queues ?st key = Some p" and l: "bq_listening (bs_heap ?st ! p)"
    proof (cases "p = q")
      case True
      with m l stands [of key] show ?thesis by (auto simp: nth intro!: exI [of _ t])
    next
      case False
      with m l bindOkD(2) [OF ok, of key p] obtain t' where "holds key p (bs_pc st t')"
        by (auto simp: nth)
      with holds [of key p] m False show ?thesis by (auto intro!: exI [of _ t'])
    qed
    show "\<exists>t. serves ?st key p (bs_pc ?st t)"
      if m: "bs_Queues ?st key = Some p" and l: "\<not> bq_listening (bs_heap ?st ! p)" "bq_waiters (bs_heap ?st ! p) \<noteq> []"
      unfolding eq
    proof (cases "p = q")
      case True
      with m l stands [of key] show "\<exists>t. serves st key p (bs_pc ?st t)" by (auto simp: nth intro!: exI [of _ t])
    next
      case False
      with m l bindOkD(3) [OF ok, of key p] obtain t' where "serves st key p (bs_pc st t')"
        by (auto simp: nth)
      with serves [of key p] m False show "\<exists>t. serves st key p (bs_pc ?st t)" by (auto intro!: exI [of _ t'])
    qed
    show "queueOk ?st p" if "p < length (bs_heap ?st)"
      using that bindOkD(4) [OF ok, of p] own by (auto simp: queueOk_def nth split: if_splits)
    show "pcOk ?st t' (bs_pc ?st t')"
      unfolding pcs using pc bindOkD(5) [OF ok, of t'] by simp
    show "bw_queue (bs_waiters ?st ! v) < length (bs_heap ?st)" if "v < length (bs_waiters ?st)"
      using that bindOkD(6) [OF ok, of v] by simp
  qed
qed

lemma release_ok:
  assumes "bindOk st" "bs_pc st t = ReleaseGot q"
  shows "bindOk (releaseBindListener t q st)"
  unfolding releaseBindListener_def using bindOkD(5) [OF assms(1), of t] assms
  by (intro listening_ok) auto

text \<open>A new waiter behind a listening queue.\<close>

lemma wait_ok:
  assumes ok: "bindOk st" and pc: "bs_pc st t = AcquireGot key q" and l: "bq_listening (bs_heap st ! q)"
  shows "bindOk (acquireBindListener t key q listens st)"
proof -
  have q: "q < length (bs_heap st)" "bq_key (bs_heap st ! q) = key"
    using bindOkD(5) [OF ok, of t] pc by auto
  define w where "w = length (bs_waiters st)"
  define waiter where "waiter = \<lparr>bw_owner = t, bw_queue = q, bw_notify = False, bw_done = False, bw_popped = False, bw_watch = Watching\<rparr>"
  define st1 where "st1 = st\<lparr>bs_waiters := bs_waiters st @ [waiter]\<rparr>"
  let ?f = "\<lambda>q. q\<lparr>bq_waiters := bq_waiters q @ [w]\<rparr>"
  let ?st = "goto t (Waiting key q w) (onQueue q ?f st1)"
  have st: "acquireBindListener t key q listens st = ?st"
    using l by (simp add: acquireBindListener_def st1_def w_def waiter_def Let_def)
  have st1: "bs_heap st1 = bs_heap st" "bs_Queues st1 = bs_Queues st" "bs_pc st1 = bs_pc st"
    "v < w \<Longrightarrow> bs_waiters st1 ! v = bs_waiters st ! v" "bs_waiters st1 ! w = waiter" "length (bs_waiters st1) = Suc w" for v
    by (simp_all add: st1_def w_def nth_append)
  have nth: "bs_heap (onQueue q ?f st1) ! p = (if p = q then ?f (bs_heap st ! q) else bs_heap st ! p)" for p
    using onQueue_nth [of q st1 ?f p] q(1) st1(1) by simp
  have lw: "length (bs_waiters st) = w"
    by (simp add: w_def)
  have eq: "serves ?st k p x = serves st k p x" if "pcOk st t' x" for k p x t'
    using that by (cases x) (auto simp: st1 lw)
  have pcs: "pcOk st t' x \<Longrightarrow> pcOk ?st t' x" for t' x
    by (cases x) (auto simp: st1 nth lw less_Suc_eq)
  show ?thesis
    unfolding st
  proof (rule bindOkI)
    fix k p v t'
    show "p < length (bs_heap ?st) \<and> bq_key (bs_heap ?st ! p) = k" if "bs_Queues ?st k = Some p"
      using that bindOkD(1) [OF ok, of k p] by (auto simp: nth st1)
    show "\<exists>t. holds k p (bs_pc ?st t)" if h: "bs_Queues ?st k = Some p" "bq_listening (bs_heap ?st ! p)"
    proof -
      obtain t1 where "holds k p (bs_pc st t1)"
        using bindOkD(2) [OF ok, of k p] h by (auto simp: nth st1 split: if_splits)
      with pc show ?thesis by (cases "t1 = t") (auto intro!: exI [of _ t1] simp: st1)
    qed
    show "\<exists>t. serves ?st k p (bs_pc ?st t)"
      if m: "bs_Queues ?st k = Some p" and n: "\<not> bq_listening (bs_heap ?st ! p)" "bq_waiters (bs_heap ?st ! p) \<noteq> []"
    proof -
      have "p \<noteq> q"
        using n l by (auto simp: nth)
      moreover obtain t' where "serves st k p (bs_pc st t')"
        using bindOkD(3) [OF ok, of k p] m n \<open>p \<noteq> q\<close> by (auto simp: nth st1)
      ultimately have "t' \<noteq> t \<and> serves ?st k p (bs_pc st t')"
        using pc eq [OF bindOkD(5) [OF ok], of k p t'] by auto
      then show ?thesis by (auto simp: st1 intro!: exI [of _ t'])
    qed
    show "queueOk ?st p" if "p < length (bs_heap ?st)"
    proof -
      have "queueOk st p"
        using that bindOkD(4) [OF ok, of p] by (simp add: st1)
      then show ?thesis
        using pc q(2) by (auto simp: queueOk_def nth st1 lw waiter_def split: if_splits)
    qed
    show "pcOk ?st t' (bs_pc ?st t')"
      using pcs [OF bindOkD(5) [OF ok, of t']] q by (auto simp: st1 nth waiter_def)
    show "bw_queue (bs_waiters ?st ! v) < length (bs_heap ?st)" if "v < length (bs_waiters ?st)"
      using that bindOkD(6) [OF ok, of v] q(1) by (cases "v = w") (auto simp: st1 lw waiter_def)
  qed
qed

text \<open>The first waiter is handed the slot.\<close>

lemma pop_ok:
  assumes ok: "bindOk st" and pc: "bs_pc st t = Forward q"
    and ws: "bq_waiters (bs_heap st ! q) = w # ws" and l: "\<not> bq_listening (bs_heap st ! q)"
  shows "bindOk (forwardBindSlot t q st)"
proof -
  have q: "q < length (bs_heap st)"
    using bindOkD(5) [OF ok, of t] pc by simp
  have qok: "queueOk st q"
    using bindOkD(4) [OF ok q] .
  define o1 where "o1 = bw_owner (bs_waiters st ! w)"
  have w: "w < length (bs_waiters st)" "w \<notin> set ws" "distinct ws" "bw_queue (bs_waiters st ! w) = q"
    "bs_pc st o1 = Waiting (bq_key (bs_heap st ! q)) q w"
    using qok by (auto simp: queueOk_def ws o1_def)
  let ?f = "\<lambda>w. w\<lparr>bw_popped := True\<rparr>" and ?g = "\<lambda>q. q\<lparr>bq_waiters := ws\<rparr>"
  let ?st = "goto t (Notify w) (onWaiter w ?f (onQueue q ?g st))"
  have st: "forwardBindSlot t q st = ?st"
    using l by (simp add: forwardBindSlot_def ws)
  have nth: "bs_heap (onQueue q ?g st) ! p = (if p = q then ?g (bs_heap st ! q) else bs_heap st ! p)" for p
    using onQueue_nth [OF q, of ?g p] by simp
  have wnth: "bs_waiters (onWaiter w ?f (onQueue q ?g st)) ! v = (if v = w then ?f (bs_waiters st ! w) else bs_waiters st ! v)" for v
    using w(1) by (simp add: onWaiter_nth)
  have eq: "serves st k p x \<Longrightarrow> serves ?st k p x" for k p x
    by (cases x) (auto simp: wnth)
  have pcs: "pcOk st t' x \<Longrightarrow> pcOk ?st t' x" for t' x
    by (cases x) (auto simp: nth wnth)
  show ?thesis
    unfolding st
  proof (rule bindOkI)
    fix k p v t'
    show "p < length (bs_heap ?st) \<and> bq_key (bs_heap ?st ! p) = k" if "bs_Queues ?st k = Some p"
      using that bindOkD(1) [OF ok, of k p] by (auto simp: nth)
    show "\<exists>t. holds k p (bs_pc ?st t)" if h: "bs_Queues ?st k = Some p" "bq_listening (bs_heap ?st ! p)"
    proof -
      obtain t1 where "holds k p (bs_pc st t1)"
        using bindOkD(2) [OF ok, of k p] h by (auto simp: nth split: if_splits)
      with pc show ?thesis by (cases "t1 = t") (auto intro!: exI [of _ t1] simp: nth)
    qed
    show "\<exists>t. serves ?st k p (bs_pc ?st t)"
      if m: "bs_Queues ?st k = Some p" and n: "\<not> bq_listening (bs_heap ?st ! p)" "bq_waiters (bs_heap ?st ! p) \<noteq> []"
    proof (cases "p = q")
      case True
      have "serves ?st k q (bs_pc st o1)" "o1 \<noteq> t"
        using w(5) pc by (auto simp: wnth)
      with True show ?thesis by (auto intro!: exI [of _ o1])
    next
      case False
      then obtain t' where "serves st k p (bs_pc st t')"
        using bindOkD(3) [OF ok, of k p] m n by (auto simp: nth)
      moreover from this have "t' \<noteq> t"
        using pc False by auto
      ultimately show ?thesis
        using eq [of k p "bs_pc st t'"] by (auto intro!: exI [of _ t'])
    qed
    show "queueOk ?st p" if "p < length (bs_heap ?st)"
    proof -
      have "queueOk st p"
        using that bindOkD(4) [OF ok, of p] by simp
      show ?thesis
      proof (cases "p = q")
        case True
        have "\<forall>v \<in> set ws. v < length (bs_waiters st) \<and> bw_queue (bs_waiters st ! v) = q
            \<and> \<not> bw_popped (bs_waiters st ! v) \<and> \<not> bw_done (bs_waiters st ! v) \<and> \<not> bw_notify (bs_waiters st ! v)
            \<and> bw_watch (bs_waiters st ! v) = Watching
            \<and> bs_pc st (bw_owner (bs_waiters st ! v)) = Waiting (bq_key (bs_heap st ! q)) q v"
          using qok by (simp add: queueOk_def ws)
        with True w(2,3) pc show ?thesis
          by (auto simp: queueOk_def nth wnth)
      next
        case False
        with \<open>queueOk st p\<close> have "w \<notin> set (bq_waiters (bs_heap st ! p))"
          using w(4) by (auto simp: queueOk_def)
        with False \<open>queueOk st p\<close> pc show ?thesis
          by (auto simp: queueOk_def nth wnth)
      qed
    qed
    show "pcOk ?st t' (bs_pc ?st t')"
      using pcs [OF bindOkD(5) [OF ok, of t']] w(1) by (auto simp: wnth)
    show "bw_queue (bs_waiters ?st ! v) < length (bs_heap ?st)" if "v < length (bs_waiters ?st)"
      using that bindOkD(6) [OF ok, of v] by (auto simp: wnth w(4) q)
  qed
qed

lemma forward_ok:
  assumes "bindOk st" "bs_pc st t = Forward q"
  shows "bindOk (forwardBindSlot t q st)"
proof (cases "bq_listening (bs_heap st ! q) \<or> bq_waiters (bs_heap st ! q) = []")
  case True
  have key: "bs_Queues st k = Some q \<Longrightarrow> \<not> (\<not> bq_listening (bs_heap st ! q) \<and> bq_waiters (bs_heap st ! q) \<noteq> [])" for k
    using True by auto
  have "forwardBindSlot t q st = goto t (MaybeDelete q) st"
    using True by (auto simp: forwardBindSlot_def split: list.split)
  moreover have "bindOk (goto t (MaybeDelete q) st)"
  proof (rule bindOkI)
    fix k p v t'
    show "\<exists>t2. serves (goto t (MaybeDelete q) st) k p (bs_pc (goto t (MaybeDelete q) st) t2)"
      if h: "bs_Queues (goto t (MaybeDelete q) st) k = Some p" "\<not> bq_listening (bs_heap (goto t (MaybeDelete q) st) ! p)"
        "bq_waiters (bs_heap (goto t (MaybeDelete q) st) ! p) \<noteq> []"
    proof -
      have "p \<noteq> q"
        using h True by auto
      moreover have eq: "serves (goto t (MaybeDelete q) st) k p x = serves st k p x" for x
        by (rule serves_cong) simp
      moreover obtain t1 where "serves st k p (bs_pc st t1)"
        using bindOkD(3) [OF assms(1), of k p] h by auto
      moreover have "t1 \<noteq> t"
        using calculation assms(2) by auto
      ultimately show ?thesis
        by (intro exI [of _ t1]) simp
    qed
    show "\<exists>t2. holds k p (bs_pc (goto t (MaybeDelete q) st) t2)"
      if h: "bs_Queues (goto t (MaybeDelete q) st) k = Some p" "bq_listening (bs_heap (goto t (MaybeDelete q) st) ! p)"
    proof -
      obtain t1 where "holds k p (bs_pc st t1)"
        using bindOkD(2) [OF assms(1), of k p] h by auto
      with assms(2) show ?thesis by (cases "t1 = t") (auto intro!: exI [of _ t1])
    qed
    show "queueOk (goto t (MaybeDelete q) st) p" if "p < length (bs_heap (goto t (MaybeDelete q) st))"
      using that bindOkD(4) [OF assms(1), of p] assms(2) by (auto simp: queueOk_def)
    have pcs: "pcOk (goto t (MaybeDelete q) st) t' x = pcOk st t' x" for x
      by (rule pcOk_cong) simp_all
    show "pcOk (goto t (MaybeDelete q) st) t' (bs_pc (goto t (MaybeDelete q) st) t')"
      unfolding pcs using bindOkD(5) [OF assms(1), of t'] bindOkD(5) [OF assms(1), of t] assms(2) by auto
  qed (use bindOkD(1,6) [OF assms(1)] in auto)
  ultimately show ?thesis by simp
next
  case False
  then show ?thesis
    using pop_ok [OF assms] by (cases "bq_waiters (bs_heap st ! q)") auto
qed

lemma quiet_flags:
  assumes "bindOk st" "w < length (bs_waiters st)"
    and "bw_popped (bs_waiters st ! w) \<or> bw_done (bs_waiters st ! w) \<or> bw_notify (bs_waiters st ! w)
      \<or> bw_watch (bs_waiters st ! w) \<noteq> Watching"
    and "\<And>x. bw_owner (f x) = bw_owner x \<and> bw_queue (f x) = bw_queue x \<and> bw_popped (f x) = bw_popped x"
  shows "quiet w f st"
  using assms(3,4) bindOkD(4) [OF assms(1)] by (auto simp: quiet_def queueOk_def)

lemma not_queued:
  assumes "bindOk st" "q < length (bs_heap st)"
    and "bw_popped (bs_waiters st ! w) \<or> bw_done (bs_waiters st ! w) \<or> bw_notify (bs_waiters st ! w)"
  shows "w \<notin> set (bq_waiters (bs_heap st ! q))"
  using bindOkD(4) [OF assms(1,2)] assms(3) by (auto simp: queueOk_def)

lemma watch_ok:
  assumes ok: "bindOk st" and w: "w < length (bs_waiters st)"
  shows "bindOk (watchBindControl w gone st)"
proof -
  have flags: "bindOk (onWaiter w f st)"
    if "bw_done (bs_waiters st ! w) \<or> bw_watch (bs_waiters st ! w) \<noteq> Watching"
      "\<And>x. bw_owner (f x) = bw_owner x \<and> bw_queue (f x) = bw_queue x \<and> bw_popped (f x) = bw_popped x" for f
    using flags_ok [OF ok] quiet_flags [OF ok w _ that(2)] that(1) by auto
  have "bindOk (onWaiter w (\<lambda>w. w\<lparr>bw_watch := WatchCheck\<rparr>) (removeWaiter w st))"
  proof (rule flags_ok [OF remove_ok [OF ok w]])
    have "\<forall>q < length (bs_heap st). w \<notin> set (bq_waiters (bs_heap (removeWaiter w st) ! q))"
      using removed [OF ok w] by simp
    then show "quiet w (\<lambda>w. w\<lparr>bw_watch := WatchCheck\<rparr>) (removeWaiter w st)"
      by (simp add: quiet_def removeWaiter_def)
  qed
  moreover have "bindOk (onWaiter w (\<lambda>w. w\<lparr>bw_watch := WatchFinish\<rparr>) (maybeDeleteBindQueue q st))"
    if "bw_watch (bs_waiters st ! w) = WatchDelete" for q
  proof -
    have "onWaiter w f (maybeDeleteBindQueue q st) = maybeDeleteBindQueue q (onWaiter w f st)" for f
      by (simp add: onWaiter_def maybeDeleteBindQueue_def bindQueueEmpty_def Let_def)
    then show ?thesis
      using delete_ok [OF flags] that by simp
  qed
  ultimately show ?thesis
    using ok flags by (auto simp: watchBindControl_def Let_def split: watchPc.split)
qed

lemma acquire_ok:
  assumes ok: "bindOk st" and pc: "bs_pc st t = AcquireGot key q"
  shows "bindOk (acquireBindListener t key q listens st)"
proof (cases "bq_listening (bs_heap st ! q)")
  case True
  with wait_ok [OF assms] show ?thesis by simp
next
  case False
  have q: "q < length (bs_heap st)" "bq_key (bs_heap st ! q) = key"
    using bindOkD(5) [OF ok, of t] pc by auto
  show ?thesis
  proof (cases listens)
    case True
    have "bindOk (goto t (Holding key) (onQueue q (\<lambda>q. q\<lparr>bq_listening := True\<rparr>) st))"
      by (rule listening_ok [OF ok q(1)]) (use pc q(2) bindOkD(1) [OF ok] in auto)
    with False True show ?thesis by (simp add: acquireBindListener_def)
  next
    case nope: False
    have "bindOk (goto t (Forward q) st)"
      by (rule goto_ok [OF ok]) (use pc q in auto)
    with False nope show ?thesis by (simp add: acquireBindListener_def)
  qed
qed

text \<open>What a waiter does when it is woken or gives up.\<close>

lemma notified_ok:
  assumes ok: "bindOk st" and step: "bs_pc st t = Waiting key q w" "bw_notify (bs_waiters st ! w)"
  shows "bindOk (goto t (Woken key w) (onWaiter w (\<lambda>w. w\<lparr>bw_notify := False, bw_done := True\<rparr>) st))"
proof -
  have pc: "q < length (bs_heap st)" "bq_key (bs_heap st ! q) = key" "w < length (bs_waiters st)" "bw_owner (bs_waiters st ! w) = t"
    using bindOkD(5) [OF ok, of t] step(1) by auto
  show ?thesis
    by (rule quiet_ok [OF ok quiet_flags [OF ok pc(3)]])
       (use step pc bindOkD(1) [OF ok] not_queued [OF ok pc(1), of w] in auto)
qed

lemma canceled_ok:
  assumes ok: "bindOk st" and step: "bs_pc st t = Waiting key q w" "bw_done (bs_waiters st ! w)"
  shows "bindOk (goto t (Canceled q w) st)"
proof -
  have pc: "q < length (bs_heap st)" "w < length (bs_waiters st)" "bw_owner (bs_waiters st ! w) = t"
    using bindOkD(5) [OF ok, of t] step(1) by auto
  show ?thesis
    by (rule goto_ok [OF ok]) (use step pc not_queued [OF ok pc(1), of w] in auto)
qed

lemma passedOn_ok:
  assumes ok: "bindOk st" and step: "bs_pc st t = Canceled q w" "bw_popped (bs_waiters st ! w)"
  shows "bindOk (goto t (Forward q) (onWaiter w (\<lambda>w. w\<lparr>bw_notify := False\<rparr>) st))"
proof -
  have pc: "q < length (bs_heap st)" "w < length (bs_waiters st)" "bw_owner (bs_waiters st ! w) = t"
    using bindOkD(5) [OF ok, of t] step(1) by auto
  show ?thesis
    by (rule quiet_ok [OF ok quiet_flags [OF ok pc(2)]]) (use step pc in auto)
qed

lemma notify_ok:
  assumes ok: "bindOk st" and step: "bs_pc st t = Notify w"
  shows "bindOk (goto t Idle (onWaiter w (\<lambda>w. w\<lparr>bw_notify := True\<rparr>) st))"
proof -
  have pc: "w < length (bs_waiters st)" "bw_popped (bs_waiters st ! w)"
    using bindOkD(5) [OF ok, of t] step by auto
  show ?thesis
    by (rule quiet_ok [OF ok quiet_flags [OF ok pc(1)]]) (use step pc in auto)
qed

lemma gotos_ok:
  assumes ok: "bindOk st"
  shows "bs_pc st t = Idle \<Longrightarrow> bindOk (goto t (AcquireTop key) st)"
    and "bs_pc st t = Canceled q w \<Longrightarrow> \<not> bw_popped (bs_waiters st ! w) \<Longrightarrow> bindOk (goto t Idle st)"
    and "bs_pc st t = Woken key w \<Longrightarrow> bindOk (goto t (AcquireTop key) st)"
    and "bs_pc st t = Holding key \<Longrightarrow> bindOk (goto t (ReleaseTop key) st)"
    and "bs_pc st t = MaybeDelete q \<Longrightarrow> bindOk (goto t (if bindQueueEmpty q st then DeleteLocked q else Idle) st)"
    and "bs_pc st t = DeleteLocked q \<Longrightarrow> bindOk (goto t Idle st)"
  by (rule goto_ok [OF ok]; use bindOkD(5) [OF ok, of t] in auto)+

lemma gets_ok:
  assumes ok: "bindOk st" and get: "getBindPortQueue key st = (q, st')"
  shows "bs_pc st t = AcquireTop key \<Longrightarrow> bindOk (goto t (AcquireGot key q) st')"
    and "bs_pc st t = ReleaseTop key \<Longrightarrow> bindOk (goto t (ReleaseGot q) st')"
  using get_ok [OF ok get] by (auto intro!: goto_ok)

lemma deleted_ok: "bindOk st \<Longrightarrow> bs_pc st t = DeleteLocked q \<Longrightarrow> bindOk (goto t Idle (maybeDeleteBindQueue q st))"
  using gotos_ok(6) [OF delete_ok [of st q], of t q] by (simp add: maybeDeleteBindQueue_def Let_def)

lemmas bind_steps_ok = gotos_ok gets_ok acquire_ok notified_ok canceled_ok passedOn_ok release_ok forward_ok notify_ok
  deleted_ok watch_ok

lemma bindStep_ok: "bindOk st \<Longrightarrow> bindStep st st' \<Longrightarrow> bindOk st'"
  by (erule bindStep.cases) (auto simp del: fun_upd_apply simp: bind_steps_ok)

subsection \<open>Wake-ups arrive\<close>

text \<open>
  A waiter that has been handed the slot finds the message in its channel or somebody about
  to send it, one thread only, and the channel, which has room for one message, is then
  empty.
\<close>

definition waitsFor :: "nat \<Rightarrow> bindPc \<Rightarrow> bool" where
  "waitsFor w pc \<longleftrightarrow> (\<exists>key q. pc = Waiting key q w) \<or> (\<exists>q. pc = Canceled q w)"

definition tokensOk :: "bindState \<Rightarrow> bool" where
  "tokensOk st \<longleftrightarrow>
    (\<forall>t t' w. bs_pc st t = Notify w \<longrightarrow> bs_pc st t' = Notify w \<longrightarrow> t = t')
    \<and> (\<forall>t w. bs_pc st t = Notify w \<longrightarrow> \<not> bw_notify (bs_waiters st ! w))
    \<and> (\<forall>w < length (bs_waiters st). bw_notify (bs_waiters st ! w) \<longrightarrow> bw_popped (bs_waiters st ! w))
    \<and> (\<forall>w < length (bs_waiters st). bw_popped (bs_waiters st ! w) \<longrightarrow> waitsFor w (bs_pc st (bw_owner (bs_waiters st ! w)))
        \<longrightarrow> bw_notify (bs_waiters st ! w) \<or> (\<exists>t. bs_pc st t = Notify w))"

lemma waitsFor_simps [simp]:
  "waitsFor w (Waiting key q v) \<longleftrightarrow> v = w" "waitsFor w (Canceled q v) \<longleftrightarrow> v = w"
  "\<not> waitsFor w Idle" "\<not> waitsFor w (AcquireTop key)" "\<not> waitsFor w (AcquireGot key q)" "\<not> waitsFor w (Woken key v)"
  "\<not> waitsFor w (Holding key)" "\<not> waitsFor w (ReleaseTop key)" "\<not> waitsFor w (ReleaseGot q)" "\<not> waitsFor w (Forward q)"
  "\<not> waitsFor w (Notify v)" "\<not> waitsFor w (MaybeDelete q)" "\<not> waitsFor w (DeleteLocked q)"
  by (auto simp: waitsFor_def)

text \<open>A thread that does not send and does not start to wait.\<close>

lemma tokens_goto:
  assumes tok: "tokensOk st" and eq: "bs_waiters st' = bs_waiters st" "bs_pc st' = (bs_pc st)(t := pc)"
    and pc: "\<forall>w. bs_pc st t \<noteq> Notify w" "\<forall>w. pc \<noteq> Notify w" "\<And>w. waitsFor w pc \<Longrightarrow> waitsFor w (bs_pc st t)"
  shows "tokensOk st'"
  unfolding tokensOk_def eq
proof (intro conjI allI impI)
  fix w
  assume w: "w < length (bs_waiters st)" "bw_popped (bs_waiters st ! w)"
    "waitsFor w (((bs_pc st)(t := pc)) (bw_owner (bs_waiters st ! w)))"
  then have "waitsFor w (bs_pc st (bw_owner (bs_waiters st ! w)))"
    using pc(3) by (auto split: if_splits)
  with tok w have "bw_notify (bs_waiters st ! w) \<or> (\<exists>t. bs_pc st t = Notify w)"
    by (auto simp: tokensOk_def)
  then show "bw_notify (bs_waiters st ! w) \<or> (\<exists>t'. ((bs_pc st)(t := pc)) t' = Notify w)"
    using pc(1) by auto
qed (use tok pc in \<open>auto simp: tokensOk_def split: if_splits\<close>)

lemma maybeDelete_same [simp]:
  "bs_waiters (maybeDeleteBindQueue q st) = bs_waiters st" "bs_pc (maybeDeleteBindQueue q st) = bs_pc st"
  by (simp_all add: maybeDeleteBindQueue_def Let_def)

lemma get_same: "getBindPortQueue key st = (q, st') \<Longrightarrow> bs_waiters st' = bs_waiters st \<and> bs_pc st' = bs_pc st"
  by (auto simp: getBindPortQueue_def Let_def split: option.splits)

lemma tokensD:
  assumes "tokensOk st"
  shows "bs_pc st t = Notify w \<Longrightarrow> bs_pc st t' = Notify w \<Longrightarrow> t = t'"
    and "bs_pc st t = Notify w \<Longrightarrow> \<not> bw_notify (bs_waiters st ! w)"
    and "w < length (bs_waiters st) \<Longrightarrow> bw_notify (bs_waiters st ! w) \<Longrightarrow> bw_popped (bs_waiters st ! w)"
    and "w < length (bs_waiters st) \<Longrightarrow> bw_popped (bs_waiters st ! w)
      \<Longrightarrow> waitsFor w (bs_pc st (bw_owner (bs_waiters st ! w))) \<Longrightarrow> bw_notify (bs_waiters st ! w) \<or> (\<exists>t. bs_pc st t = Notify w)"
  using assms by (auto simp: tokensOk_def)

lemma tokens_flags:
  assumes tok: "tokensOk st" and pc: "bs_pc st' = bs_pc st" and len: "length (bs_waiters st') = length (bs_waiters st)"
    and f: "\<And>v. bw_owner (bs_waiters st' ! v) = bw_owner (bs_waiters st ! v)
      \<and> bw_popped (bs_waiters st' ! v) = bw_popped (bs_waiters st ! v) \<and> bw_notify (bs_waiters st' ! v) = bw_notify (bs_waiters st ! v)"
  shows "tokensOk st'"
  unfolding tokensOk_def pc len using tok f by (auto simp: tokensOk_def)

lemma tokens_watch: "tokensOk st \<Longrightarrow> tokensOk (watchBindControl w gone st)"
  by (erule tokens_flags) (simp_all add: watchBindControl_def removeWaiter_def onWaiter_nth Let_def split: watchPc.split)

lemma tokensI:
  assumes "\<And>t t' w. bs_pc st t = Notify w \<Longrightarrow> bs_pc st t' = Notify w \<Longrightarrow> t = t'"
    and "\<And>t w. bs_pc st t = Notify w \<Longrightarrow> \<not> bw_notify (bs_waiters st ! w)"
    and "\<And>w. w < length (bs_waiters st) \<Longrightarrow> bw_notify (bs_waiters st ! w) \<Longrightarrow> bw_popped (bs_waiters st ! w)"
    and "\<And>w. w < length (bs_waiters st) \<Longrightarrow> bw_popped (bs_waiters st ! w)
      \<Longrightarrow> waitsFor w (bs_pc st (bw_owner (bs_waiters st ! w))) \<Longrightarrow> bw_notify (bs_waiters st ! w) \<or> (\<exists>t. bs_pc st t = Notify w)"
  shows "tokensOk st"
  using assms unfolding tokensOk_def by blast

lemma sender_moves: "(\<exists>t'. f t' = Notify w) \<Longrightarrow> f t \<noteq> Notify w \<Longrightarrow> \<exists>t'. (f(t := pc)) t' = Notify w"
  by (metis fun_upd_apply)

text \<open>The owner takes the message and waits no longer.\<close>

lemma tokens_taken:
  assumes ok: "bindOk st" and tok: "tokensOk st" and t: "waitsFor w (bs_pc st t)"
    and pc: "\<forall>v. pc \<noteq> Notify v" "\<forall>v. \<not> waitsFor v pc"
    and f: "\<And>x. bw_owner (f x) = bw_owner x \<and> bw_popped (f x) = bw_popped x \<and> \<not> bw_notify (f x)"
  shows "tokensOk (goto t pc (onWaiter w f st))"
proof (rule tokensI)
  have w: "w < length (bs_waiters st)" "bw_owner (bs_waiters st ! w) = t"
    using bindOkD(5) [OF ok, of t] t by (auto simp: waitsFor_def)
  have t': "bs_pc st t \<noteq> Notify v" for v
    using t by auto
  fix t1 t2 v
  show "t1 = t2" if "bs_pc (goto t pc (onWaiter w f st)) t1 = Notify v" "bs_pc (goto t pc (onWaiter w f st)) t2 = Notify v"
    using that pc(1) tokensD(1) [OF tok, of t1 v t2] by (auto split: if_splits)
  show "\<not> bw_notify (bs_waiters (goto t pc (onWaiter w f st)) ! v)" if "bs_pc (goto t pc (onWaiter w f st)) t1 = Notify v"
    using that pc(1) tokensD(2) [OF tok, of t1 v] f by (auto simp: onWaiter_nth split: if_splits)
  assume v: "v < length (bs_waiters (goto t pc (onWaiter w f st)))"
  show "bw_popped (bs_waiters (goto t pc (onWaiter w f st)) ! v)" if "bw_notify (bs_waiters (goto t pc (onWaiter w f st)) ! v)"
    using that tokensD(3) [OF tok, of v] v f by (auto simp: onWaiter_nth split: if_splits)
  show "bw_notify (bs_waiters (goto t pc (onWaiter w f st)) ! v) \<or> (\<exists>t'. bs_pc (goto t pc (onWaiter w f st)) t' = Notify v)"
    if p: "bw_popped (bs_waiters (goto t pc (onWaiter w f st)) ! v)"
      "waitsFor v (bs_pc (goto t pc (onWaiter w f st)) (bw_owner (bs_waiters (goto t pc (onWaiter w f st)) ! v)))"
  proof -
    have "v \<noteq> w" "bw_popped (bs_waiters st ! v)" "waitsFor v (bs_pc st (bw_owner (bs_waiters st ! v)))"
      using p pc(2) f w by (auto simp: onWaiter_nth split: if_splits)
    then show ?thesis
      using tokensD(4) [OF tok, of v] v sender_moves [of "bs_pc st" v t pc] t'
      by (auto simp: onWaiter_nth simp del: fun_upd_apply)
  qed
qed

lemma tokens_sent:
  assumes ok: "bindOk st" and tok: "tokensOk st" and t: "bs_pc st t = Notify w"
  shows "tokensOk (goto t Idle (onWaiter w (\<lambda>w. w\<lparr>bw_notify := True\<rparr>) st))" (is "tokensOk (goto t Idle (onWaiter w ?f st))")
proof (rule tokensI)
  have w: "w < length (bs_waiters st)" "bw_popped (bs_waiters st ! w)"
    using bindOkD(5) [OF ok, of t] t by auto
  fix t1 t2 v
  show "t1 = t2" if "bs_pc (goto t Idle (onWaiter w ?f st)) t1 = Notify v" "bs_pc (goto t Idle (onWaiter w ?f st)) t2 = Notify v"
    using that tokensD(1) [OF tok, of t1 v t2] by (auto split: if_splits)
  show "\<not> bw_notify (bs_waiters (goto t Idle (onWaiter w ?f st)) ! v)" if "bs_pc (goto t Idle (onWaiter w ?f st)) t1 = Notify v"
  proof -
    have t1: "t1 \<noteq> t" "bs_pc st t1 = Notify v"
      using that by (auto split: if_splits)
    then have "v \<noteq> w"
      using tokensD(1) [OF tok t] by blast
    with t1 tokensD(2) [OF tok, of t1 v] show ?thesis
      by (simp add: onWaiter_nth)
  qed
  assume v: "v < length (bs_waiters (goto t Idle (onWaiter w ?f st)))"
  show "bw_popped (bs_waiters (goto t Idle (onWaiter w ?f st)) ! v)" if "bw_notify (bs_waiters (goto t Idle (onWaiter w ?f st)) ! v)"
    using that tokensD(3) [OF tok, of v] v w by (auto simp: onWaiter_nth split: if_splits)
  show "bw_notify (bs_waiters (goto t Idle (onWaiter w ?f st)) ! v) \<or> (\<exists>t'. bs_pc (goto t Idle (onWaiter w ?f st)) t' = Notify v)"
    if p: "bw_popped (bs_waiters (goto t Idle (onWaiter w ?f st)) ! v)"
      "waitsFor v (bs_pc (goto t Idle (onWaiter w ?f st)) (bw_owner (bs_waiters (goto t Idle (onWaiter w ?f st)) ! v)))"
  proof (cases "v = w")
    case True
    with w show ?thesis by (simp add: onWaiter_nth)
  next
    case False
    then have "bw_popped (bs_waiters st ! v)" "waitsFor v (bs_pc st (bw_owner (bs_waiters st ! v)))"
      using p by (auto simp: onWaiter_nth split: if_splits)
    then show ?thesis
      using tokensD(4) [OF tok, of v] v sender_moves [of "bs_pc st" v t Idle] t False
      by (auto simp: onWaiter_nth simp del: fun_upd_apply)
  qed
qed

lemma tokens_waiting:
  assumes ok: "bindOk st" and tok: "tokensOk st" and t: "bs_pc st t = AcquireGot key q"
    and new: "bs_waiters st' = bs_waiters st @ [waiter]" "bw_owner waiter = t" "\<not> bw_notify waiter" "\<not> bw_popped waiter"
    and pc: "bs_pc st' = (bs_pc st)(t := Waiting key q (length (bs_waiters st)))"
  shows "tokensOk st'"
proof (rule tokensI)
  have sent: "bs_pc st t' = Notify v \<Longrightarrow> v < length (bs_waiters st)" for t' v
    using bindOkD(5) [OF ok, of t'] by auto
  have old: "bs_pc st' t' = Notify v \<longleftrightarrow> bs_pc st t' = Notify v" for t' v
    using t by (simp add: pc)
  fix t1 t2 v
  show "t1 = t2" if "bs_pc st' t1 = Notify v" "bs_pc st' t2 = Notify v"
    using that tokensD(1) [OF tok, of t1 v t2] by (simp add: old)
  show "\<not> bw_notify (bs_waiters st' ! v)" if "bs_pc st' t1 = Notify v"
    using that tokensD(2) [OF tok, of t1 v] sent [of t1 v] by (simp add: old new nth_append)
  assume v: "v < length (bs_waiters st')"
  show "bw_popped (bs_waiters st' ! v)" if "bw_notify (bs_waiters st' ! v)"
    using that tokensD(3) [OF tok, of v] v new by (auto simp: nth_append less_Suc_eq split: if_splits)
  show "bw_notify (bs_waiters st' ! v) \<or> (\<exists>t'. bs_pc st' t' = Notify v)"
    if "bw_popped (bs_waiters st' ! v)" "waitsFor v (bs_pc st' (bw_owner (bs_waiters st' ! v)))"
    unfolding old using that tokensD(4) [OF tok, of v] v new by (auto simp: pc nth_append less_Suc_eq split: if_splits)
qed

lemma tokens_pop:
  assumes ok: "bindOk st" and tok: "tokensOk st" and t: "bs_pc st t = Forward q"
    and ws: "bq_waiters (bs_heap st ! q) = w # ws"
    and st': "bs_waiters st' = bs_waiters (onWaiter w (\<lambda>w. w\<lparr>bw_popped := True\<rparr>) st)" "bs_pc st' = (bs_pc st)(t := Notify w)"
  shows "tokensOk st'"
proof (rule tokensI)
  have q: "q < length (bs_heap st)"
    using bindOkD(5) [OF ok, of t] t by simp
  have w: "w < length (bs_waiters st)" "\<not> bw_popped (bs_waiters st ! w)" "\<not> bw_notify (bs_waiters st ! w)"
    using bindOkD(4) [OF ok q] by (auto simp: queueOk_def ws)
  have other: "bs_pc st t' \<noteq> Notify w" for t'
    using bindOkD(5) [OF ok, of t'] w(2) by auto
  have nth: "bs_waiters st' ! v = (if v = w then (bs_waiters st ! w)\<lparr>bw_popped := True\<rparr> else bs_waiters st ! v)" for v
    using w(1) by (simp add: st' onWaiter_nth)
  have len: "length (bs_waiters st') = length (bs_waiters st)"
    by (simp add: st')
  fix t1 t2 v
  show "t1 = t2" if "bs_pc st' t1 = Notify v" "bs_pc st' t2 = Notify v"
    using that tokensD(1) [OF tok, of t1 v t2] other by (auto simp: st' split: if_splits)
  show "\<not> bw_notify (bs_waiters st' ! v)" if "bs_pc st' t1 = Notify v"
    using that tokensD(2) [OF tok, of t1 v] w(3) by (auto simp: st'(2) nth split: if_splits)
  assume v: "v < length (bs_waiters st')"
  show "bw_popped (bs_waiters st' ! v)" if "bw_notify (bs_waiters st' ! v)"
    using that tokensD(3) [OF tok, of v] v by (auto simp: nth len split: if_splits)
  show "bw_notify (bs_waiters st' ! v) \<or> (\<exists>t'. bs_pc st' t' = Notify v)"
    if p: "bw_popped (bs_waiters st' ! v)" "waitsFor v (bs_pc st' (bw_owner (bs_waiters st' ! v)))"
  proof (cases "v = w")
    case True
    then show ?thesis by (auto simp: st'(2))
  next
    case False
    then have "bw_popped (bs_waiters st ! v)" "waitsFor v (bs_pc st (bw_owner (bs_waiters st ! v)))"
      using p by (auto simp: nth st'(2) split: if_splits)
    then show ?thesis
      using tokensD(4) [OF tok, of v] v sender_moves [of "bs_pc st" v t "Notify w"] t False
      by (auto simp: nth len st'(2) simp del: fun_upd_apply)
  qed
qed

lemma tokens_forward:
  assumes ok: "bindOk st" and tok: "tokensOk st" and t: "bs_pc st t = Forward q"
  shows "tokensOk (forwardBindSlot t q st)"
proof (cases "bq_listening (bs_heap st ! q) \<or> bq_waiters (bs_heap st ! q) = []")
  case True
  then have eq: "forwardBindSlot t q st = goto t (MaybeDelete q) st"
    by (auto simp: forwardBindSlot_def split: list.split)
  show ?thesis
    unfolding eq by (rule tokens_goto [OF tok, of _ t "MaybeDelete q"]) (use t in simp_all)
next
  case False
  then obtain w ws where ws: "bq_waiters (bs_heap st ! q) = w # ws"
    by (cases "bq_waiters (bs_heap st ! q)") auto
  show ?thesis
    by (rule tokens_pop [OF assms ws]) (use False ws in \<open>simp_all add: forwardBindSlot_def onWaiter_def\<close>)
qed

lemma tokens_acquire:
  assumes ok: "bindOk st" and tok: "tokensOk st" and t: "bs_pc st t = AcquireGot key q"
  shows "tokensOk (acquireBindListener t key q listens st)"
proof (cases "bq_listening (bs_heap st ! q)")
  case True
  show ?thesis
    by (rule tokens_waiting [OF assms, of _ "\<lparr>bw_owner = t, bw_queue = q, bw_notify = False, bw_done = False,
          bw_popped = False, bw_watch = Watching\<rparr>"]) (use True in \<open>simp_all add: acquireBindListener_def Let_def\<close>)
next
  case False
  then show ?thesis
    by (intro tokens_goto [OF tok, of _ t "if listens then Holding key else Forward q"])
       (use t in \<open>simp_all add: acquireBindListener_def split: if_splits\<close>)
qed

lemma tokens_get:
  assumes "tokensOk st" "getBindPortQueue key st = (q, st')" "\<forall>w. bs_pc st t \<noteq> Notify w"
    and "\<forall>w. pc \<noteq> Notify w" "\<forall>w. \<not> waitsFor w pc"
  shows "tokensOk (goto t pc st')"
  by (rule tokens_goto [OF assms(1), of _ t pc]) (use get_same [OF assms(2)] assms(3-5) in auto)

lemma bindStep_tokens: "bindOk st \<Longrightarrow> tokensOk st \<Longrightarrow> bindStep st st' \<Longrightarrow> tokensOk st'"
  by (erule bindStep.cases)
     (auto simp: releaseBindListener_def simp del: fun_upd_apply split: if_splits
        intro: tokens_goto tokens_get tokens_acquire tokens_forward tokens_sent tokens_watch tokens_taken)

interpretation bindQueues: machine bindState0 bindStep "\<lambda>st. bindOk st \<and> tokensOk st"
proof
  show "bindOk bindState0 \<and> tokensOk bindState0"
    by (simp add: bindOk_def tokensOk_def bindState0_def)
qed (auto intro: bindStep_ok bindStep_tokens)

subsection \<open>Properties\<close>

text \<open>
  The clients that can still take the slot of queue \<open>q\<close>: on their way to its lock or about to
  hand it on, or handed it and not yet run.
\<close>

definition attends :: "bindState \<Rightarrow> gostr \<Rightarrow> nat \<Rightarrow> nat \<Rightarrow> bool" where
  "attends st key q t \<longleftrightarrow> (if bq_listening (bs_heap st ! q) then holds key q (bs_pc st t) else serves st key q (bs_pc st t))"

lemma attended:
  "bindOk st \<Longrightarrow> bs_Queues st key = Some q \<Longrightarrow> bq_waiters (bs_heap st ! q) \<noteq> [] \<Longrightarrow> \<exists>t. attends st key q t"
  using bindOkD(2,3) [of st key q] by (cases "bq_listening (bs_heap st ! q)") (simp_all add: attends_def)

text \<open>C7: No waiter behind a registered port is forgotten: whatever the order in which clients
  come, leave, listen and release, when clients wait for a port that the map has, some
  thread holds its listener or is about to take or hand on the slot; and a waiter that has
  been handed the slot has the message, or exactly one thread is about to send it, into a
  channel that is empty.\<close>

theorem bind_attended:
  assumes "bindStep\<^sup>*\<^sup>* bindState0 st"
  shows "(\<forall>key q. bs_Queues st key = Some q \<longrightarrow> bq_waiters (bs_heap st ! q) \<noteq> [] \<longrightarrow> (\<exists>t. attends st key q t))
    \<and> (\<forall>t key q w. bs_pc st t = Waiting key q w \<longrightarrow> bw_popped (bs_waiters st ! w) \<longrightarrow>
        bw_notify (bs_waiters st ! w) \<or> (\<exists>!t'. bs_pc st t' = Notify w))
    \<and> (\<forall>t w. bs_pc st t = Notify w \<longrightarrow> \<not> bw_notify (bs_waiters st ! w))"
proof -
  have ok: "bindOk st" and tok: "tokensOk st"
    using bindQueues.reachable_inv [OF assms] by auto
  have "bw_notify (bs_waiters st ! w) \<or> (\<exists>!t'. bs_pc st t' = Notify w)"
    if "bs_pc st t = Waiting key q w" "bw_popped (bs_waiters st ! w)" for t key q w
  proof -
    have "w < length (bs_waiters st)" "waitsFor w (bs_pc st (bw_owner (bs_waiters st ! w)))"
      using bindOkD(5) [OF ok, of t] that(1) by auto
    then show ?thesis
      using tokensD(4) [OF tok _ that(2)] tokensD(1) [OF tok] by blast
  qed
  then show ?thesis
    using attended [OF ok] tokensD(2) [OF tok] by blast
qed

subsection \<open>Runs of three clients\<close>

definition three :: "(gostr \<Rightarrow> nat option) \<Rightarrow> bindPortQueue list \<Rightarrow> bindWaiter list \<Rightarrow> bindPc \<Rightarrow> bindPc \<Rightarrow> bindPc \<Rightarrow> bindState" where
  "three m h ws p0 p1 p2 = \<lparr>bs_Queues = m, bs_heap = h, bs_waiters = ws,
    bs_pc = (\<lambda>t. if t = 0 then p0 else if t = 1 then p1 else if t = 2 then p2 else Idle)\<rparr>"

lemma three_fields [simp]:
  "bs_Queues (three m h ws p0 p1 p2) = m" "bs_heap (three m h ws p0 p1 p2) = h" "bs_waiters (three m h ws p0 p1 p2) = ws"
  "bs_pc (three m h ws p0 p1 p2) 0 = p0" "bs_pc (three m h ws p0 p1 p2) (Suc 0) = p1" "bs_pc (three m h ws p0 p1 p2) 2 = p2"
  by (simp_all add: three_def)

lemma three_ops [simp]:
  "goto 0 x (three m h ws p0 p1 p2) = three m h ws x p1 p2"
  "goto (Suc 0) x (three m h ws p0 p1 p2) = three m h ws p0 x p2"
  "goto 2 x (three m h ws p0 p1 p2) = three m h ws p0 p1 x"
  "onQueue q f (three m h ws p0 p1 p2) = three m (h[q := f (h ! q)]) ws p0 p1 p2"
  "onWaiter v g (three m h ws p0 p1 p2) = three m h (ws[v := g (ws ! v)]) p0 p1 p2"
  "three m h ws p0 p1 p2\<lparr>bs_waiters := ws'\<rparr> = three m h ws' p0 p1 p2"
  "getBindPortQueue key (three m h ws p0 p1 p2) = (case m key of Some q \<Rightarrow> (q, three m h ws p0 p1 p2)
    | None \<Rightarrow> (length h, three (m(key \<mapsto> length h)) (h @ [\<lparr>bq_key = key, bq_listening = False, bq_waiters = []\<rparr>]) ws p0 p1 p2))"
  "maybeDeleteBindQueue q (three m h ws p0 p1 p2) = (if m (bq_key (h ! q)) = Some q \<and> bindQueueEmpty q (three m h ws p0 p1 p2)
    then three (m(bq_key (h ! q) := None)) h ws p0 p1 p2 else three m h ws p0 p1 p2)"
  by (auto simp: three_def goto_def onQueue_def onWaiter_def getBindPortQueue_def maybeDeleteBindQueue_def Let_def fun_eq_iff
      split: option.split)

lemma bindMore: "bindStep\<^sup>*\<^sup>* s0 s \<Longrightarrow> bindStep s s1 \<Longrightarrow> s1 = s2 \<Longrightarrow> bindStep\<^sup>*\<^sup>* s0 s2"
  by auto

lemmas bind_run = acquireBindListener_def forwardBindSlot_def releaseBindListener_def bindQueueEmpty_def Let_def

text \<open>Client 0 holds the listener.\<close>

lemma run_holding: "bindStep\<^sup>*\<^sup>* bindState0 (three [key \<mapsto> 0] [\<lparr>bq_key = key, bq_listening = True, bq_waiters = []\<rparr>] [] (Holding key) Idle Idle)"
proof -
  have "bindState0 = three Map.empty [] [] Idle Idle Idle"
    by (auto simp: bindState0_def three_def)
  then have "bindStep\<^sup>*\<^sup>* bindState0 (three Map.empty [] [] Idle Idle Idle)"
    by simp
  then have "bindStep\<^sup>*\<^sup>* bindState0 (three Map.empty [] [] (AcquireTop key) Idle Idle)"
    by (rule bindMore [OF _ bindStep.start [of _ 0 key]]) simp_all
  then have "bindStep\<^sup>*\<^sup>* bindState0 (three [key \<mapsto> 0] [\<lparr>bq_key = key, bq_listening = False, bq_waiters = []\<rparr>] [] (AcquireGot key 0) Idle Idle)"
    by (rule bindMore [OF _ bindStep.acquireGet [of _ 0 key]], simp+)
  then show ?thesis
    by (rule bindMore [OF _ bindStep.acquireLock [of _ 0 key 0 True]]) (simp_all add: bind_run)
qed

text \<open>Client 1 waits behind client 0, which releases and hands it the slot.\<close>

lemma run_handed:
  "\<exists>st. bindStep\<^sup>*\<^sup>* bindState0 st \<and> bs_pc st 0 = Notify 0 \<and> bs_pc st 1 = Waiting key 0 0 \<and> bw_popped (bs_waiters st ! 0)"
proof -
  let ?q = "\<lambda>l ws. \<lparr>bq_key = key, bq_listening = l, bq_waiters = ws\<rparr>"
  let ?w = "\<lambda>p. \<lparr>bw_owner = 1, bw_queue = 0, bw_notify = False, bw_done = False, bw_popped = p, bw_watch = Watching\<rparr>"
  have "bindStep\<^sup>*\<^sup>* bindState0 (three [key \<mapsto> 0] [?q True []] [] (Holding key) (AcquireTop key) Idle)"
    by (rule bindMore [OF run_holding [of key] bindStep.start [of _ 1 key]], simp+)
  then have "bindStep\<^sup>*\<^sup>* bindState0 (three [key \<mapsto> 0] [?q True []] [] (Holding key) (AcquireGot key 0) Idle)"
    by (rule bindMore [OF _ bindStep.acquireGet [of _ 1 key]], simp+)
  then have "bindStep\<^sup>*\<^sup>* bindState0 (three [key \<mapsto> 0] [?q True [0]] [?w False] (Holding key) (Waiting key 0 0) Idle)"
    by (rule bindMore [OF _ bindStep.acquireLock [of _ 1 key 0 True]], simp, simp add: bind_run)
  then have "bindStep\<^sup>*\<^sup>* bindState0 (three [key \<mapsto> 0] [?q True [0]] [?w False] (ReleaseTop key) (Waiting key 0 0) Idle)"
    by (rule bindMore [OF _ bindStep.release [of _ 0 key]], simp+)
  then have "bindStep\<^sup>*\<^sup>* bindState0 (three [key \<mapsto> 0] [?q True [0]] [?w False] (ReleaseGot 0) (Waiting key 0 0) Idle)"
    by (rule bindMore [OF _ bindStep.releaseGet [of _ 0 key]], simp+)
  then have "bindStep\<^sup>*\<^sup>* bindState0 (three [key \<mapsto> 0] [?q False [0]] [?w False] (Forward 0) (Waiting key 0 0) Idle)"
    by (rule bindMore [OF _ bindStep.releaseLock [of _ 0 0]], simp, simp add: bind_run)
  then have "bindStep\<^sup>*\<^sup>* bindState0 (three [key \<mapsto> 0] [?q False []] [?w True] (Notify 0) (Waiting key 0 0) Idle)"
    by (rule bindMore [OF _ bindStep.forward [of _ 0 0]], simp, simp add: bind_run)
  then show ?thesis
    by (intro exI conjI) (assumption, simp_all)
qed

theorem bind_attended_witness:
  "\<exists>st. bindStep\<^sup>*\<^sup>* bindState0 st \<and> bs_pc st 1 = Waiting [] 0 0 \<and> bw_popped (bs_waiters st ! 0)
    \<and> (bw_notify (bs_waiters st ! 0) \<or> (\<exists>!t'. bs_pc st t' = Notify 0))"
proof -
  obtain st where st: "bindStep\<^sup>*\<^sup>* bindState0 st" "bs_pc st 1 = Waiting [] 0 0" "bw_popped (bs_waiters st ! 0)"
    using run_handed [of "[]"] by blast
  have "bw_notify (bs_waiters st ! 0) \<or> (\<exists>!t'. bs_pc st t' = Notify 0)"
    using bind_attended [OF st(1)] st(2,3) by metis
  with st show ?thesis by blast
qed

text \<open>
  The registered queue is the catch. A client that has taken the queue from the map but not
  its lock may find that the last owner has removed it in between. It then listens through a
  queue that nobody else finds: its release frees the slot of another queue, and whoever
  waits behind it is never woken, although the port is free and nobody else is at work.
\<close>

theorem orphan_queue_starves:
  "\<exists>st. bindStep\<^sup>*\<^sup>* bindState0 st \<and> bs_pc st 2 = Waiting key 0 0 \<and> (\<forall>t. t \<noteq> 2 \<longrightarrow> bs_pc st t = Idle)
    \<and> bs_Queues st = Map.empty \<and> bq_waiters (bs_heap st ! 0) = [0] \<and> bq_listening (bs_heap st ! 0)
    \<and> bw_watch (bs_waiters st ! 0) = Watching"
proof -
  let ?q = "\<lambda>l ws. \<lparr>bq_key = key, bq_listening = l, bq_waiters = ws\<rparr>"
  let ?w = "\<lparr>bw_owner = 2, bw_queue = 0, bw_notify = False, bw_done = False, bw_popped = False, bw_watch = Watching\<rparr>"
  have "bindStep\<^sup>*\<^sup>* bindState0 (three [key \<mapsto> 0] [?q True []] [] (ReleaseTop key) Idle Idle)"
    by (rule bindMore [OF run_holding [of key] bindStep.release [of _ 0 key]], simp+)
  then have "bindStep\<^sup>*\<^sup>* bindState0 (three [key \<mapsto> 0] [?q True []] [] (ReleaseGot 0) Idle Idle)"
    by (rule bindMore [OF _ bindStep.releaseGet [of _ 0 key]], simp+)
  then have "bindStep\<^sup>*\<^sup>* bindState0 (three [key \<mapsto> 0] [?q False []] [] (Forward 0) Idle Idle)"
    by (rule bindMore [OF _ bindStep.releaseLock [of _ 0 0]], simp, simp add: bind_run)
  then have "bindStep\<^sup>*\<^sup>* bindState0 (three [key \<mapsto> 0] [?q False []] [] (MaybeDelete 0) Idle Idle)"
    by (rule bindMore [OF _ bindStep.forward [of _ 0 0]], simp, simp add: bind_run)
  then have "bindStep\<^sup>*\<^sup>* bindState0 (three [key \<mapsto> 0] [?q False []] [] (DeleteLocked 0) Idle Idle)"
    by (rule bindMore [OF _ bindStep.deleteCheck [of _ 0 0]], simp, simp add: bind_run)
  then have "bindStep\<^sup>*\<^sup>* bindState0 (three [key \<mapsto> 0] [?q False []] [] (DeleteLocked 0) (AcquireTop key) Idle)"
    by (rule bindMore [OF _ bindStep.start [of _ 1 key]], simp+)
  then have "bindStep\<^sup>*\<^sup>* bindState0 (three [key \<mapsto> 0] [?q False []] [] (DeleteLocked 0) (AcquireGot key 0) Idle)"
    by (rule bindMore [OF _ bindStep.acquireGet [of _ 1 key]], simp+)
  then have "bindStep\<^sup>*\<^sup>* bindState0 (three [key \<mapsto> 0] [?q False []] [] (DeleteLocked 0) (AcquireGot key 0) (AcquireTop key))"
    by (rule bindMore [OF _ bindStep.start [of _ 2 key]], simp+)
  then have "bindStep\<^sup>*\<^sup>* bindState0 (three [key \<mapsto> 0] [?q False []] [] (DeleteLocked 0) (AcquireGot key 0) (AcquireGot key 0))"
    by (rule bindMore [OF _ bindStep.acquireGet [of _ 2 key]], simp+)
  then have "bindStep\<^sup>*\<^sup>* bindState0 (three Map.empty [?q False []] [] Idle (AcquireGot key 0) (AcquireGot key 0))"
    by (rule bindMore [OF _ bindStep.delete [of _ 0 0]], simp, simp add: bind_run)
  then have "bindStep\<^sup>*\<^sup>* bindState0 (three Map.empty [?q True []] [] Idle (Holding key) (AcquireGot key 0))"
    by (rule bindMore [OF _ bindStep.acquireLock [of _ 1 key 0 True]], simp, simp add: bind_run)
  then have "bindStep\<^sup>*\<^sup>* bindState0 (three Map.empty [?q True [0]] [?w] Idle (Holding key) (Waiting key 0 0))"
    by (rule bindMore [OF _ bindStep.acquireLock [of _ 2 key 0 True]], simp, simp add: bind_run)
  then have "bindStep\<^sup>*\<^sup>* bindState0 (three Map.empty [?q True [0]] [?w] Idle (ReleaseTop key) (Waiting key 0 0))"
    by (rule bindMore [OF _ bindStep.release [of _ 1 key]], simp+)
  then have "bindStep\<^sup>*\<^sup>* bindState0 (three [key \<mapsto> 1] [?q True [0], ?q False []] [?w] Idle (ReleaseGot 1) (Waiting key 0 0))"
    by (rule bindMore [OF _ bindStep.releaseGet [of _ 1 key]], simp+)
  then have "bindStep\<^sup>*\<^sup>* bindState0 (three [key \<mapsto> 1] [?q True [0], ?q False []] [?w] Idle (Forward 1) (Waiting key 0 0))"
    by (rule bindMore [OF _ bindStep.releaseLock [of _ 1 1]], simp, simp add: bind_run)
  then have "bindStep\<^sup>*\<^sup>* bindState0 (three [key \<mapsto> 1] [?q True [0], ?q False []] [?w] Idle (MaybeDelete 1) (Waiting key 0 0))"
    by (rule bindMore [OF _ bindStep.forward [of _ 1 1]], simp, simp add: bind_run)
  then have "bindStep\<^sup>*\<^sup>* bindState0 (three [key \<mapsto> 1] [?q True [0], ?q False []] [?w] Idle (DeleteLocked 1) (Waiting key 0 0))"
    by (rule bindMore [OF _ bindStep.deleteCheck [of _ 1 1]], simp, simp add: bind_run)
  then have "bindStep\<^sup>*\<^sup>* bindState0 (three Map.empty [?q True [0], ?q False []] [?w] Idle Idle (Waiting key 0 0))"
    by (rule bindMore [OF _ bindStep.delete [of _ 1 1]], simp, simp add: bind_run)
  then show ?thesis
    by (intro exI conjI) (assumption, simp_all add: three_def)
qed

end
