(* ===== verification/Hello_Properties.thy ===== *)
theory Hello_Properties
  imports Hello_Names Quic_Reassembly
begin

text \<open>
  The properties of the hello inspection (\<open>phantomtcp/phantom.go\<close>): the names the parsers
  find, the records of \<open>TLSFragment\<close> and the answer of \<open>HttpMove\<close>.
\<close>

subsection \<open>The names\<close>

text \<open>C27: In every well-formed ClientHello with a server name, the parser of QUIC streams finds the
  name that was put in. The parser of TLS records finds the same name, and tells whether an
  encrypted hello comes before it, unless nothing follows the name, neither another extension
  nor data behind the record: such a name it does not find.\<close>

theorem parsers_agree:
  assumes fit: "helloFits vers random sid ciphers cmpr (namedExtensions pre name post)"
    and pre: "\<forall>(t, d) \<in> set pre. t \<noteq> 0 \<and> t < 65536" and name: "name \<noteq> []"
    and hello: "hello = clientHello (clientHelloBody vers random sid ciphers cmpr (namedExtensions pre name post))"
    and size: "length hello < 65536"
  shows "\<exists>i j. sniHostNameRange hello = Some (i, length name) \<and> take (length name) (drop i hello) = name
    \<and> take (length name) (drop j (helloRecord hello @ z)) = name
    \<and> GetSNI (helloRecord hello @ z) =
        (if post = [] \<and> z = [] then (0, 0, \<exists>(t, d) \<in> set pre. t = 65037) else (j, length name, \<exists>(t, d) \<in> set pre. t = 65037))"
proof -
  have 1: "sniHostNameRange hello = Some (nameOffset 4 sid ciphers cmpr pre, length name)"
    using sniHostNameRange_finds [OF fit pre name, of "[]"] by (simp add: hello)
  have 2: "take (length name) (drop (nameOffset 4 sid ciphers cmpr pre) hello) = name"
    using name_at [OF fit, of "1 # be_bytes 3 (length (clientHelloBody vers random sid ciphers cmpr (namedExtensions pre name post)))" 4 hello "[]"]
    by (simp add: hello clientHello_def)
  have 3: "GetSNI (helloRecord hello @ z) = (if post = [] \<and> z = [] then (0, 0, \<exists>(t, d) \<in> set pre. t = 65037)
      else (nameOffset 9 sid ciphers cmpr pre, length name, \<exists>(t, d) \<in> set pre. t = 65037))"
    unfolding GetSNI_name [OF fit pre hello size] by simp
  have 4: "take (length name) (drop (nameOffset 9 sid ciphers cmpr pre) (helloRecord hello @ z)) = name"
    using name_at [OF fit, of "[0x16, 3, 1] @ be_bytes 2 (length hello) @ 1 # be_bytes 3 (length (clientHelloBody vers random sid ciphers cmpr (namedExtensions pre name post)))" 9 "helloRecord hello @ z" z]
    by (simp add: hello clientHello_def helloRecord_def)
  from 1 2 3 4 show ?thesis by blast
qed

theorem parsers_agree_witness:
  "\<exists>hello i j ech. sniHostNameRange hello = Some (i, 4) \<and> take 4 (drop i hello) = str ''a.io''
    \<and> GetSNI (helloRecord hello @ [0]) = (j, 4, ech) \<and> GetSNI (helloRecord hello) = (0, 0, ech)"
proof -
  define hello where "hello = clientHello (clientHelloBody [3, 3] (replicate 32 7) [] [0x13, 1] [0]
    (namedExtensions [(65037, [1])] (str ''a.io'') []))"
  have fit: "helloFits [3, 3] (replicate 32 7) [] [0x13, 1] [0] (namedExtensions [(65037, [1])] (str ''a.io'') [])"
    by (simp add: helloFits_def namedExtensions_def serverNameData_def)
  have l: "length hello < 65536"
    by (simp add: hello_def namedExtensions_def serverNameData_def clientHello_def clientHelloBody_def clientHelloStart_def)
  have name: "str ''a.io'' \<noteq> []" "length (str ''a.io'') = 4"
    by (simp_all add: str_def)
  obtain i j where "sniHostNameRange hello = Some (i, 4)" "take 4 (drop i hello) = str ''a.io''" "GetSNI (helloRecord hello @ [0]) = (j, 4, True)"
    using parsers_agree [OF fit _ name(1) hello_def l, of "[0]", unfolded name(2)] by auto
  moreover have "GetSNI (helloRecord hello) = (0, 0, True)"
    using parsers_agree [OF fit _ name(1) hello_def l, of "[]"] by auto
  ultimately show ?thesis
    by blast
qed

lemma sniLoop_zero: "sniLoop h off e x = (0, m, ech) \<Longrightarrow> m = 0"
proof (induction h off e x rule: sniLoop.induct)
  case (1 h off e x)
  show ?case
  proof (rule ccontr)
    assume "m \<noteq> 0"
    with "1.prems" "1.IH" [OF _ _ refl refl refl] show False
      by (subst (asm) sniLoop.simps) (auto simp: Let_def split: if_splits)
  qed
qed

lemma GetSNI_zero: "GetSNI b = (0, m, ech) \<Longrightarrow> m = 0"
  by (auto simp: GetSNI_def Let_def split: if_splits dest: sniLoop_zero)

text \<open>The ranges that \<open>GetHost\<close>, \<open>GetSNI\<close> and \<open>sniHostNameRange\<close> report lie inside the data
  they were given, so that cutting the name out cannot panic.\<close>

theorem names_inside:
  "(GetHost b = (i, n) \<longrightarrow> i + n \<le> length b) \<and> (GetSNI b = (j, m, ech) \<longrightarrow> j + m \<le> length b)
    \<and> (sniHostNameRange b = Some (k, l) \<longrightarrow> k + l \<le> length b)"
proof -
  have "i + n \<le> length b" if "GetHost b = (i, n)"
    using that GetHost_spec [of b i n] by (cases "i = 0") (auto simp: GetHost_def Let_def split: option.splits)
  moreover have "j + m \<le> length b" if "GetSNI b = (j, m, ech)"
  proof (cases "0 < j")
    case True
    with GetSNI_inside [OF that] show ?thesis by simp
  next
    case False
    with GetSNI_zero [of b m ech] that show ?thesis by simp
  qed
  moreover have "k + l \<le> length b" if "sniHostNameRange b = Some (k, l)"
    using sniHostNameRange_bounds [OF that] by simp
  ultimately show ?thesis by blast
qed

theorem names_inside_witness: "GetHost (str ''Host: '' @ [97] @ CRLF) = (6, 1) \<and> (6 :: nat) + 1 \<le> 9"
proof -
  have "GetHost (str ''Host: '' @ [97] @ CRLF) = (6, 1)"
    by (simp add: GetHost_def str_def CRLF_def hasPrefix_def)
  with names_inside [of "str ''Host: '' @ [97] @ CRLF" 6 1] show ?thesis
    by (simp add: CRLF_def)
qed

subsection \<open>Fragments\<close>

text \<open>C28: A record of fewer than 65536 bytes that \<open>TLSFragment\<close> cuts, at a place from its tenth byte to
  its end, is sent as three TLS records of the same type and version. Their payloads, put together, are the payload of
  the record; the first ends at half the place of the cut, and the second at the cut.\<close>

theorem fragments_reassemble:
  assumes "10 \<le> fragSize" "fragSize \<le> length header" and "length header < 65536"
  shows "\<exists>p1 p2 p3. TLSFragment header fragSize
      = Some (tlsRecord (take 3 header) p1 @ tlsRecord (take 3 header) p2 @ tlsRecord (take 3 header) p3)
    \<and> p1 @ p2 @ p3 = drop 5 header \<and> length p1 + 5 = fragSize div 2 \<and> length (p1 @ p2) + 5 = fragSize"
proof -
  let ?f = "fragSize div 2"
  have f: "5 \<le> ?f" "?f \<le> fragSize"
    using assms(1) by linarith+
  show ?thesis
    using TLSFragment_records [OF assms] TLSFragment_payload [OF f(2,1) assms(2)] f assms
    by (intro exI [of _ "take (?f - 5) (drop 5 header)"] exI [of _ "take (fragSize - ?f) (drop ?f header)"]
        exI [of _ "drop fragSize header"]) simp
qed

theorem fragments_reassemble_witness:
  "\<exists>p1 p2 p3. TLSFragment (replicate 30 1) 20
      = Some (tlsRecord [1, 1, 1] p1 @ tlsRecord [1, 1, 1] p2 @ tlsRecord [1, 1, 1] p3) \<and> length p1 + 5 = 10"
proof -
  have "take 3 (replicate 30 1) = [1, 1, 1 :: byte]"
    by (simp add: numeral_eq_Suc)
  with fragments_reassemble [of 20 "replicate 30 1"] show ?thesis
    by (auto simp del: take_replicate)
qed

subsection \<open>The redirect answer\<close>

text \<open>The buffer after the bytes \<open>s\<close> were put, as many of them as fit.\<close>

definition moveBuffer :: "bytes \<Rightarrow> bytes \<times> nat" where
  "moveBuffer s = (take 1460 (s @ replicate 1460 0), length s)"

lemma put_moveBuffer: "put (moveBuffer s) t = (if length s \<le> 1460 then Some (moveBuffer (s @ t)) else None)"
proof (cases "length s \<le> 1460")
  case True
  let ?d = "take 1460 (s @ replicate 1460 0)"
  have "copy_at ?d (length s) t = take 1460 ((s @ t) @ replicate 1460 0)"
  proof (rule nth_equalityI)
    show "length (copy_at ?d (length s) t) = length (take 1460 ((s @ t) @ replicate 1460 0))"
      using True by (simp add: copy_at_def)
    show "copy_at ?d (length s) t ! i = take 1460 ((s @ t) @ replicate 1460 0) ! i"
      if "i < length (copy_at ?d (length s) t)" for i
      using that True by (auto simp: copy_at_def nth_append)
  qed
  with True show ?thesis
    by (simp add: put_def moveBuffer_def copyFrom_def)
qed (simp add: put_def moveBuffer_def copyFrom_def)

lemma slice_moveBuffer:
  "(case moveBuffer s of (d, n) \<Rightarrow> slice d 0 n) = (if length s \<le> 1460 then Some s else None)"
  by (simp add: moveBuffer_def slice_def)

definition moveTail :: "gostr \<Rightarrow> bytes" where
  "moveTail host = CRLF @ str ''Cache-Control: private''
    @ (if host = str ''h3'' then CRLF @ str ''Alt-Svc: h3='' @ [34] @ str '':443'' @ [34] @ str ''; ma=2592000,h3-29=''
               @ [34] @ str '':443'' @ [34] @ str ''; ma=2592000; persist=1'' else [])
    @ CRLF @ str ''Content-Length: 0'' @ CRLF @ CRLF"

lemma HttpMoveTail_answer:
  "HttpMoveTail (moveBuffer s) host = (if length (s @ moveTail host) \<le> 1460 then Some (s @ moveTail host) else None)"
  by (auto simp: HttpMoveTail_def put_moveBuffer slice_moveBuffer moveTail_def)

lemma moveBuffer_start: "(replicate 1460 0, 0) = moveBuffer []"
  by (simp add: moveBuffer_def)

text \<open>The redirect to another host consists of the status line, the host and the path of the
  request, and the fixed headers. It is sent when it fits the 1460-byte buffer, and the
  call panics exactly when it does not.\<close>

theorem HttpMove_redirects:
  assumes "host \<notin> {[], str ''https'', str ''h3''}" and "4 < length b" and "indexOf (str '' '') (drop 4 b) = Some e"
  defines "answer \<equiv> str ''HTTP/1.1 302 Found'' @ CRLF @ str ''Location: '' @ host @ take e (drop 4 b) @ moveTail host"
  shows "HttpMove host b = (if length answer \<le> 1460 then Some (Some answer) else None)"
proof -
  let ?s1 = "str ''HTTP/1.1 302 Found'' @ CRLF @ str ''Location: ''"
  let ?s3 = "?s1 @ host @ take e (drop 4 b)"
  have a: "answer = ?s3 @ moveTail host"
    by (simp add: answer_def)
  have "HttpMove host b =
    do { dn \<leftarrow> put (moveBuffer []) ?s1; dn \<leftarrow> put dn host; dn \<leftarrow> put dn (take e (drop 4 b)); map_option Some (HttpMoveTail dn host) }"
    using assms(1-3) by (simp add: HttpMove_def moveBuffer_start Let_def)
  also have "\<dots> = (if length (?s3 @ moveTail host) \<le> 1460 then Some (Some (?s3 @ moveTail host)) else None)"
    using HttpMoveTail_answer [of ?s3 host] by (auto simp: put_moveBuffer)
  finally show ?thesis
    by (simp only: a)
qed

theorem HttpMove_redirects_witness:
  "(\<exists>answer. HttpMove [97] [71, 69, 84, 32, 47, 32] = Some (Some answer))
    \<and> HttpMove (replicate 1500 97) [71, 69, 84, 32, 47, 32] = None"
proof -
  have e: "indexOf (str '' '') (drop 4 [71, 69, 84, 32, 47, 32]) = Some 1"
    by (simp add: str_def hasPrefix_def)
  have h: "h \<notin> {[], str ''https'', str ''h3''}" if "h = [97] \<or> length h = 1500" for h
    using that by (auto simp: str_def)
  have "HttpMove (replicate 1500 97) [71, 69, 84, 32, 47, 32] = None"
    by (subst HttpMove_redirects [OF h _ e]) simp_all
  moreover have "moveTail [97] = CRLF @ str ''Cache-Control: private'' @ CRLF @ str ''Content-Length: 0'' @ CRLF @ CRLF"
    by (simp add: moveTail_def str_def)
  then have "HttpMove [97] [71, 69, 84, 32, 47, 32] \<noteq> None \<and> HttpMove [97] [71, 69, 84, 32, 47, 32] \<noteq> Some None"
    by (subst HttpMove_redirects [OF h _ e], simp_all add: CRLF_def)+
  ultimately show ?thesis
    by (cases "HttpMove [97] [71, 69, 84, 32, 47, 32]") auto
qed

end
