(* ===== verification/Profile_Properties.thy ===== *)
theory Profile_Properties
  imports Profile_Lookup
begin

text \<open>
  The properties of the outbounds and of their lookup by name and by address.
\<close>

subsection \<open>The outbounds\<close>

text \<open>An outbound and its fallbacks, in the order in which they are tried.\<close>

fun fallbacks :: "outbound \<Rightarrow> outbound list" where
  "fallbacks (Outbound dev dns h mtu ttl maxttl p a auth t None) =
    [Outbound dev dns h mtu ttl maxttl p a auth t None]"
| "fallbacks (Outbound dev dns h mtu ttl maxttl p a auth t (Some f)) =
    Outbound dev dns h mtu ttl maxttl p a auth t (Some f) # fallbacks f"

definition hasFamily :: "hint \<Rightarrow> bool" where
  "hasFamily h \<longleftrightarrow> h AND HINT_IPV4 \<noteq> 0 \<or> h AND HINT_IPV6 \<noteq> 0"

definition outboundsOk :: "outboundsState \<Rightarrow> bool" where
  "outboundsOk st \<longleftrightarrow> distinct (obs_devices st)
    \<and> (\<forall>n ob. obs_Map st n = Some ob \<longrightarrow> (\<forall>f \<in> set (fallbacks ob). hasFamily (ob_Hint f)))"

lemma hasFamily_or: "hasFamily (h OR HINT_IPV4)"
proof -
  have "(h OR HINT_IPV4) AND HINT_IPV4 = HINT_IPV4"
    by (auto simp: bit_eq_iff bit_simps)
  then show ?thesis
    by (simp add: hasFamily_def HINT_IPV4_def)
qed

lemma fallbacks_unfold: "fallbacks ob = ob # (case ob_Fallback ob of None \<Rightarrow> [] | Some f \<Rightarrow> fallbacks f)"
  by (cases ob rule: fallbacks.cases) simp_all

lemma createOutbound_shape:
  "\<exists>ob ds. createOutbound dev loc config st = st\<lparr>obs_Map := (obs_Map st)(cfg_Name config \<mapsto> ob), obs_devices := ds\<rparr>
    \<and> hasFamily (ob_Hint ob) \<and> (ob_Fallback ob = None \<or> ob_Fallback ob = obs_Map st (cfg_Fallback config))
    \<and> (distinct (obs_devices st) \<longrightarrow> distinct ds)"
proof -
  let ?h = "hintBits (splitByte 44 (cfg_Hint config)) HINT_NONE"
  have family: "hasFamily (if ?h AND HINT_IPV4 = 0 \<and> ?h AND HINT_IPV6 = 0 then x OR HINT_IPV4 else
      (if c \<and> ?h AND HINT_IPV4 = 0 \<and> ?h AND HINT_IPV6 = 0 then y else ?h))" for x y c
    by (simp add: hasFamily_or) (simp add: hasFamily_def)
  show ?thesis
    unfolding createOutbound_def Let_def
    by (intro exI conjI, rule refl, unfold outbound.sel, rule family) auto
qed

lemma createOutbound_ok: "outboundsOk st \<Longrightarrow> outboundsOk (createOutbound dev loc config st)"
proof -
  assume ok: "outboundsOk st"
  obtain ob ds where st: "createOutbound dev loc config st =
      st\<lparr>obs_Map := (obs_Map st)(cfg_Name config \<mapsto> ob), obs_devices := ds\<rparr>"
    and ob: "hasFamily (ob_Hint ob)" "ob_Fallback ob = None \<or> ob_Fallback ob = obs_Map st (cfg_Fallback config)"
    and ds: "distinct (obs_devices st) \<longrightarrow> distinct ds"
    using createOutbound_shape by blast
  have "hasFamily (ob_Hint f)" if "f \<in> set (fallbacks ob)" for f
    using that ob ok fallbacks_unfold [of ob] by (auto simp: outboundsOk_def split: option.splits dest!: sym [of "Some _"])
  with ok ds show ?thesis
    by (auto simp: outboundsOk_def st)
qed

lemma fold_createOutbound_ok: "outboundsOk st \<Longrightarrow> outboundsOk (fold (createOutbound dev loc) configs st)"
  by (induction configs arbitrary: st) (simp_all add: createOutbound_ok)

text \<open>However the outbounds are configured, each of them and each of its fallbacks is allowed at
  least one address family, no device is monitored twice, and the fallbacks of an outbound
  end.\<close>

theorem outbounds_usable:
  assumes "CreateOutbounds dev loc configs previous = (st, def)"
  shows "distinct (obs_devices st)
    \<and> (\<forall>n ob. obs_Map st n = Some ob \<longrightarrow> (\<forall>f \<in> set (fallbacks ob). hasFamily (ob_Hint f)))"
proof -
  have "outboundsOk \<lparr>obs_Map = Map.empty, obs_devices = []\<rparr>"
    by (simp add: outboundsOk_def)
  from fold_createOutbound_ok [OF this, of dev loc configs] assms show ?thesis
    by (auto simp: CreateOutbounds_def Let_def outboundsOk_def)
qed

definition sampleConfig :: "gostr \<Rightarrow> gostr \<Rightarrow> gostr \<Rightarrow> outboundConfig" where
  "sampleConfig name hints fallback = \<lparr>cfg_Name = name, cfg_Device = [], cfg_DNS = [], cfg_Hint = hints, cfg_MTU = 1500,
    cfg_TTL = 0, cfg_MaxTTL = 0, cfg_Protocol = [], cfg_Address = [], cfg_PublicKey = [], cfg_PrivateKey = [],
    cfg_Timeout = 0, cfg_Fallback = fallback\<rparr>"

theorem outbounds_usable_witness:
  "\<exists>st def ob. CreateOutbounds [101] (\<lambda>_ _. False) [sampleConfig [97] [] [], sampleConfig [98] [] [97]] None = (st, def)
    \<and> obs_Map st [98] = Some ob \<and> length (fallbacks ob) = 2 \<and> (\<forall>f \<in> set (fallbacks ob). hasFamily (ob_Hint f))"
proof -
  obtain st def where c: "CreateOutbounds [101] (\<lambda>_ _. False) [sampleConfig [97] [] [], sampleConfig [98] [] [97]] None = (st, def)"
    by (cases "CreateOutbounds [101] (\<lambda>_ _. False) [sampleConfig [97] [] [], sampleConfig [98] [] [97]] None")
  then obtain ob where "obs_Map st [98] = Some ob" "length (fallbacks ob) = 2"
    by (auto simp: CreateOutbounds_def createOutbound_def sampleConfig_def Let_def HINT_NONE_def)
  with c outbounds_usable [OF c] show ?thesis by blast
qed

subsection \<open>Lookups\<close>

text \<open>The outbound of a name is that of the first entry among the name itself and its parent
  domains, the longest first, as far as the configured depth goes; the offset says which
  part of the name matched. Without an entry it is the default outbound.\<close>

theorem outbound_of_name:
  "GetOutbound profile defaultOutbound subdomainDepth name =
    (case filter (\<lambda>(parent, _). DomainMap profile parent \<noteq> None)
        ((name, 0) # take (nat subdomainDepth) (parents name)) of
       [] \<Rightarrow> (defaultOutbound, 0)
     | (parent, i) # _ \<Rightarrow> (the (DomainMap profile parent), i))"
  by (rule GetOutbound_first)

text \<open>The binary search over the address ranges, when they are disjoint and ascending, gives the
  outbound of the range that contains the address, and the default outbound for an address
  in none of them. It does not panic on an address of either family.\<close>

theorem outbound_of_address:
  assumes "rangesOk (IPv4Ranges profile)" and "rangesOk (IPv6Ranges profile)" and "length ip = 4 \<or> length ip = 16"
  shows "GetOutboundByIP profile defaultOutbound ip = Some
    (let (ranges, key) = (if To4 ip \<noteq> [] then (IPv4Ranges profile, be_nat (To4 ip)) else (IPv6Ranges profile, be_nat (take 8 ip)))
     in case find (\<lambda>r. rng_Start r \<le> key \<and> key < rng_End r) ranges of
          Some r \<Rightarrow> rng_Interface r | None \<Rightarrow> defaultOutbound)"
proof -
  have "To4 ip \<noteq> []" if "length ip = 4"
    using that by (auto simp: To4_def)
  then show ?thesis
    using assms by (auto simp: GetOutboundByIP_def rangeOf_spec Let_def split: option.split)
qed

definition sampleProfile :: phantomProfile where
  "sampleProfile = \<lparr>DomainMap = Map.empty,
    IPv4Ranges = [\<lparr>rng_Start = 167772160, rng_End = 184549376, rng_Interface = None\<rparr>], IPv6Ranges = []\<rparr>"

theorem outbound_of_address_witness:
  "\<forall>ob. GetOutboundByIP sampleProfile (Some ob) [10, 1, 2, 3] = Some None"
proof
  show "GetOutboundByIP sampleProfile (Some ob) [10, 1, 2, 3] = Some None" for ob
    using outbound_of_address [of sampleProfile "[10, 1, 2, 3]" "Some ob"]
    by (simp add: sampleProfile_def rangesOk_def To4_def be_nat_def)
qed

end
