(* ===== verification/Dns_Service_Properties.thy ===== *)
theory Dns_Service_Properties
  imports Dns_Invariant
begin

text \<open>
  The properties of the name service: the state stays valid, a fake address always leads
  back to its name, what the cache answers, how failures are answered, and how the
  lookups read their connections.
\<close>

subsection \<open>The state over time\<close>

inductive dnsStep :: "dnsState \<Rightarrow> dnsState \<Rightarrow> bool" where
  request: "NSRequest env request cache st = Some (st', index, response) \<Longrightarrow> dnsStep st st'"
| lookup: "NSLookup env ob name qtype st = Some (st', index, addresses) \<Longrightarrow> dnsStep st st'"

lemma dnsStep_ok: "dnsStep st st' \<Longrightarrow> dnsOk st \<Longrightarrow> okStep st st'"
  by (induction rule: dnsStep.induct) (auto dest: NSRequest_ok NSLookup_ok)

lemma dnsSteps_ok: "dnsStep\<^sup>*\<^sup>* st st' \<Longrightarrow> dnsOk st \<Longrightarrow> okStep st st'"
proof (induction rule: rtranclp_induct)
  case base
  then show ?case by (rule okStep_refl)
next
  case (step st1 st2)
  then have "okStep st st1" by simp
  moreover from this have "dnsOk st1" by (simp add: okStep_def)
  ultimately show ?case
    using dnsStep_ok [OF step.hyps(2)] okStep_trans by blast
qed

lemma dnsState0_ok: "dnsOk dnsState0"
  by (auto simp: dnsOk_def dnsState0_def)

lemma extends_lies: "extends st st' \<Longrightarrow> GetDNSLie st i = Some lie \<Longrightarrow> GetDNSLie st' i = Some lie"
  by (auto simp: extends_def GetDNSLie_def nth_append split: if_splits)

text \<open>C16: Whatever requests and lookups the service has handled since its start, whatever the
  servers answered: every cache entry points to a record, every record to addresses that
  exist, and the fake address of every record belongs to a name with an outbound.\<close>

theorem service_valid:
  assumes "dnsStep\<^sup>*\<^sup>* dnsState0 st"
  shows "dnsOk st \<and> (\<forall>name p. LoadDNSCache st name = Some p \<longrightarrow> (\<exists>lie. GetDNSLie st (rec_Index (recordsOf st p)) = Some lie))"
proof -
  have ok: "dnsOk st"
    using dnsSteps_ok [OF assms dnsState0_ok] by (simp add: okStep_def)
  moreover have "\<exists>lie. GetDNSLie st (rec_Index (recordsOf st p)) = Some lie" if "LoadDNSCache st name = Some p" for name p
    using recordsOf_ok [OF ok LoadDNSCache_valid [OF ok that]] by (simp add: GetDNSLie_def)
  ultimately show ?thesis by blast
qed

text \<open>C11: A fake address that the service has handed out keeps its meaning: whatever the
  service handles later, the address still leads to the same name and outbound.\<close>

theorem fake_address_kept:
  assumes "dnsStep\<^sup>*\<^sup>* dnsState0 st" and "GetDNSLie st i = Some lie" and "dnsStep\<^sup>*\<^sup>* st st'"
  shows "GetDNSLie st' i = Some lie"
proof -
  have "dnsOk st"
    using dnsSteps_ok [OF assms(1) dnsState0_ok] by (simp add: okStep_def)
  then have "extends st st'"
    using dnsSteps_ok [OF assms(3)] by (simp add: okStep_def)
  then show ?thesis
    using extends_lies assms(2) by blast
qed

subsection \<open>Requests for a name\<close>

lemma query_trimmed:
  "take (length (queryMessage ident name qtype)) ((queryMessage ident name qtype)[10 := 0, 11 := 0]) = queryMessage ident name qtype"
  using query_shape [of ident name qtype] by auto

lemma hostName_nonempty: "hostName name \<Longrightarrow> name \<noteq> []"
  by (auto simp: hostName_def)

lemma NSRequest_query:
  assumes "hostName name" and "qtype < 65536"
  shows "NSRequest env (queryMessage ident name qtype) cache st =
    (let (st, p, found) = requestRecords env cache name st
     in (case answerFromCache env qtype p st of
           Inl ttl \<Rightarrow> respond env (rec_Index (recordsOf st p)) (queryMessage ident name qtype) qtype ttl p st
         | Inr st \<Rightarrow> requestOutbound env found (queryMessage ident name qtype) name qtype p st))"
  using hostName_nonempty [OF assms(1)]
  unfolding NSRequest_def GetQName_query [OF assms] Let_def prod.case query_trimmed by simp

lemma NSRequest_fake:
  assumes "hostName name" and "LoadDNSCache st name = Some p"
    and "0 < rec_Index (recordsOf st p)" and "rec_IPv4Hint (recordsOf st p) = None"
  shows "NSRequest env (queryMessage ident name 1) True st =
    Some (st, rec_Index (recordsOf st p), responseMessage ident name 1 1 (fakeAnswer (rec_Index (recordsOf st p))))"
proof -
  have "length (queryMessage ident name 1) \<le> 496"
    using length_PackQName [OF assms(1)] assms(1) by (simp add: queryMessage_def requestHeader_def hostName_def)
  then show ?thesis
    using assms BuildResponse_fake [OF assms(3), of ident name]
    by (simp add: NSRequest_query requestRecords_def answerFromCache_def respond_def)
qed

lemma requestRecords_fresh:
  assumes "name \<noteq> []" and "LoadDNSCache st name = None"
    and "GetOutbound (net_Profile (env_Net env)) (net_Default (env_Net env)) (env_Depth env) name = (Some ob, offset)"
    and "offset = 0 \<or> LoadDNSCache st (drop offset name) = None"
  shows "requestRecords env True name st =
    (StoreDNSCache (fst (newRecords st)) name (length (dns_Records st)), length (dns_Records st), Some ob)"
proof -
  obtain st1 p where n: "newRecords st = (st1, p)" and p: "p = length (dns_Records st)"
    and cache: "LoadDNSCache st1 = LoadDNSCache st" and r: "recordsOf st1 p = dnsRecords0"
    by (auto simp: newRecords_def LoadDNSCache_def recordsOf_def fun_eq_iff)
  let ?st = "StoreDNSCache st1 name p"
  have same: "setRecords p (recordsOf ?st p) ?st = ?st"
    by (simp add: setRecords_def recordsOf_def StoreDNSCache_def)
  have d: "LoadDNSCache ?st (drop offset name) = (if offset = 0 then Some p else None)"
  proof (cases "offset = 0")
    case False
    then have "length (drop offset name) < length name"
      using assms(1) by simp
    then have "drop offset name \<noteq> name"
      by (metis less_irrefl)
    with False show ?thesis
      using assms(4) cache by (simp add: dnsCache.load_store)
  qed simp
  have "requestRecords env True name st =
      (case LoadDNSCache ?st (drop offset name) of Some q \<Rightarrow> (setRecords p (recordsOf ?st q) ?st, p, Some ob)
       | None \<Rightarrow> (?st, p, Some ob))"
    using assms(2,3) n by (simp add: requestRecords_def Let_def)
  then show ?thesis
    using same by (simp add: d n flip: p)
qed

lemma be_bytes_16: "be_bytes 4 16 = [0, 0, 0, 16]"
  by code_simp

lemma fakeAnswer_bytes: "fakeAnswer i = answerBytes 16 ([255, 0] @ be_bytes 2 i)"
  by (simp add: fakeAnswer_def answerBytes_def To4_def VirtualAddrPrefix_def be_bytes_16)

lemma parseFakeIP: "i < 65536 \<Longrightarrow> parseFakeIPIndex ([255, 0] @ be_bytes 2 i) = Some (i, True)"
  by (simp add: parseFakeIPIndex_def VirtualAddrPrefix_def be_nat_be_bytes)

lemma GetAnswers_fake:
  assumes "hostName name" and "\<forall>l \<in> set (splitByte 46 name). length l \<le> 62"
  shows "GetAnswers 0 now (responseMessage ident name 1 1 (fakeAnswer i)) serverOptions0 ([], dnsRecords0) =
    Some (answerRecords (now + 16) 1 [[255, 0] @ be_bytes 2 i])"
proof -
  let ?ip = "[255, 0] @ be_bytes 2 i"
  have ip: "To4 ?ip = ?ip"
    by (simp add: To4_def)
  have "GetAnswers 0 now (responseMessage ident name 1 (length [?ip]) (concat (map (answerBytes 16) [?ip])))
      serverOptions0 ([], dnsRecords0) = Some (fold (takeIP (int (max 0 16) + now)) [?ip] ([], dnsRecords0))"
    using assms ip by (intro GetAnswers_response) (auto simp: goodIP_def plainOptions_def serverOptions0_def)
  moreover have "fold (takeIP (int (max 0 16) + now)) [?ip] ([], dnsRecords0) = answerRecords (now + 16) 1 [?ip]"
    using ip takeIPs_new [of "[?ip]" 1] by (simp add: familyOf_def add.commute)
  ultimately show ?thesis
    by (simp add: fakeAnswer_bytes)
qed

lemma NSRequest_new_fake:
  assumes "dnsOk st" and "hostName name" and "\<forall>l \<in> set (splitByte 46 name). length l \<le> 62"
    and "LoadDNSCache st name = None"
    and "GetOutbound (net_Profile (env_Net env)) (net_Default (env_Net env)) (env_Depth env) name = (Some ob, offset)"
    and "offset = 0 \<or> LoadDNSCache st (drop offset name) = None"
    and "ob_Hint ob AND HINT_FAKEIP \<noteq> 0" and "length (dns_Nose st) < 65536"
  shows "\<exists>st' i response ip.
    NSRequest env (queryMessage ident name 1) True st = Some (st', i, response)
    \<and> GetAnswers 0 (env_Now env) response serverOptions0 ([], dnsRecords0) = Some (answerRecords (env_Now env + 16) 1 [ip])
    \<and> parseFakeIPIndex ip = Some (i, True) \<and> GetDNSLie st' i = Some (name, Some ob)
    \<and> (\<forall>env' ident'. NSRequest env' (queryMessage ident' name 1) True st' = Some (st', i, responseMessage ident' name 1 1 (fakeAnswer i)))"
proof -
  define p where "p = length (dns_Records st)"
  define i where "i = length (dns_Nose st)"
  define st1 where "st1 = StoreDNSCache (fst (newRecords st)) name p"
  define st2 where "st2 = setRecords p ((recordsOf st1 p)\<lparr>rec_ALPN := ob_Hint ob AND HINT_DNS\<rparr>) st1"
  define st3 where "st3 = addLie name ob (rec_ALPN (recordsOf st2 p)) p st2"
  have i: "0 < i" "i < 65536"
    using assms(1,8) by (auto simp: i_def dnsOk_def)
  have r1: "recordsOf st1 p = dnsRecords0"
    by (simp add: st1_def p_def recordsOf_def StoreDNSCache_def newRecords_def)
  have r2: "recordsOf st2 p = dnsRecords0\<lparr>rec_ALPN := ob_Hint ob AND HINT_DNS\<rparr>" "dns_Nose st2 = dns_Nose st"
    "LoadDNSCache st2 name = Some p" "p < length (dns_Records st2)"
    using r1 by (simp_all add: st2_def st1_def p_def recordsOf_def setRecords_def StoreDNSCache_def newRecords_def LoadDNSCache_def)
  have r3: "rec_Index (recordsOf st3 p) = i" "rec_IPv4Hint (recordsOf st3 p) = None" "LoadDNSCache st3 name = Some p"
    "GetDNSLie st3 i = Some (name, Some ob)"
    using r2 i by (simp_all add: st3_def addLie_def AddDNSLie_def recordsOf_def setRecords_def i_def LoadDNSCache_def
        GetDNSLie_def dnsRecords0_def)
  have i2: "rec_Index (recordsOf st2 p) = 0"
    by (simp add: r2 dnsRecords0_def)
  have q: "length (queryMessage ident name 1) \<le> 496"
    using length_PackQName [OF assms(2)] assms(2) by (simp add: queryMessage_def requestHeader_def hostName_def)
  have "requestRecords env True name st = (st1, p, Some ob)"
    unfolding st1_def p_def using hostName_nonempty [OF assms(2)] assms(4,5,6) by (rule requestRecords_fresh)
  moreover have "answerFromCache env 1 p st1 = Inr st1"
    by (simp add: answerFromCache_def r1 dnsRecords0_def)
  moreover have "requestOutbound env (Some ob) (queryMessage ident name 1) name 1 p st1 =
      respond env i (queryMessage ident name 1) 1 600 p st3"
    using assms(7) i2 r3(1) by (simp add: requestOutbound_def Let_def st2_def [symmetric] st3_def [symmetric])
  moreover have "respond env i (queryMessage ident name 1) 1 600 p st3 = Some (st3, i, responseMessage ident name 1 1 (fakeAnswer i))"
    using BuildResponse_fake [of "recordsOf st3 p" ident name] i q r3(1) by (simp add: respond_def)
  ultimately have "NSRequest env (queryMessage ident name 1) True st = Some (st3, i, responseMessage ident name 1 1 (fakeAnswer i))"
    using assms(2) by (simp add: NSRequest_query)
  then show ?thesis
    using GetAnswers_fake [OF assms(2,3)] parseFakeIP [OF i(2)] r3 i NSRequest_fake [OF assms(2) r3(3)] by auto
qed


definition fakeOutbound :: outbound where
  "fakeOutbound = Outbound [] [] HINT_FAKEIP 0 0 0 DIRECT [] [] 65535 None"

definition silentNet :: dnsNet where
  "silentNet = \<lparr>net_Resolve = Map.empty, net_Outbound = (\<lambda>_ _ _ _. None), net_TCP = (\<lambda>_ _. None), net_TLS = (\<lambda>_ _. None),
    net_TFO = (\<lambda>_ _. None), net_UDP = (\<lambda>_ _. None), net_HTTPS = (\<lambda>_ _ _ _. None),
    net_Profile = \<lparr>DomainMap = Map.empty, IPv4Ranges = [], IPv6Ranges = []\<rparr>, net_Default = Some fakeOutbound\<rparr>"

definition silentEnv :: dnsEnv where
  "silentEnv = \<lparr>env_Net = silentNet, env_URL = Map.empty, env_Now = 1000, env_MinTTL = 0, env_Depth = 2, env_IPv4First = True\<rparr>"


text \<open>A run of the service with one such request.\<close>

lemma fake_run:
  "\<exists>st i. dnsStep\<^sup>*\<^sup>* dnsState0 st \<and> GetDNSLie st i = Some (str ''a.bc'', Some fakeOutbound)"
proof -
  have "hostName (str ''a.bc'')" "\<forall>l \<in> set (splitByte 46 (str ''a.bc'')). length l \<le> 62"
    by (simp_all add: hostName_def ascii_def str_def)
  moreover have "GetOutbound (net_Profile (env_Net silentEnv)) (net_Default (env_Net silentEnv)) (env_Depth silentEnv) (str ''a.bc'')
      = (Some fakeOutbound, 0)"
    by (simp add: silentEnv_def silentNet_def GetOutbound_first)
  ultimately obtain st i response where r: "NSRequest silentEnv (queryMessage 7 (str ''a.bc'') 1) True dnsState0 = Some (st, i, response)"
    and l: "GetDNSLie st i = Some (str ''a.bc'', Some fakeOutbound)"
    using NSRequest_new_fake [OF dnsState0_ok, of "str ''a.bc''" silentEnv fakeOutbound 0 7]
    by (auto simp: dnsState0_def LoadDNSCache_def fakeOutbound_def HINT_FAKEIP_def)
  then show ?thesis
    using l dnsStep.request [OF r] by blast
qed

theorem service_valid_witness:
  "\<exists>st. dnsStep\<^sup>*\<^sup>* dnsState0 st \<and> 1 < length (dns_Nose st) \<and> dnsOk st
    \<and> (\<forall>name p. LoadDNSCache st name = Some p \<longrightarrow> (\<exists>lie. GetDNSLie st (rec_Index (recordsOf st p)) = Some lie))"
proof -
  obtain st i where run: "dnsStep\<^sup>*\<^sup>* dnsState0 st" and lie: "GetDNSLie st i = Some (str ''a.bc'', Some fakeOutbound)"
    using fake_run by blast
  have "extends dnsState0 st"
    using dnsSteps_ok [OF run dnsState0_ok] by (simp add: okStep_def)
  then have "GetDNSLie st 0 = Some (str ''phantom.socks'', None)"
    by (rule extends_lies) (simp add: dnsState0_def GetDNSLie_def)
  with lie have "i < length (dns_Nose st) \<and> i \<noteq> 0"
    by (cases i) (auto simp: GetDNSLie_def str_def fakeOutbound_def split: if_splits)
  then show ?thesis
    using run service_valid [OF run] by auto
qed

theorem fake_address_kept_witness:
  "\<exists>st i. dnsStep\<^sup>*\<^sup>* dnsState0 st \<and> GetDNSLie st 0 = Some (str ''phantom.socks'', None)
    \<and> GetDNSLie st i = Some (str ''a.bc'', Some fakeOutbound)"
proof -
  obtain st i where run: "dnsStep\<^sup>*\<^sup>* dnsState0 st" and lie: "GetDNSLie st i = Some (str ''a.bc'', Some fakeOutbound)"
    using fake_run by blast
  have "GetDNSLie st 0 = Some (str ''phantom.socks'', None)"
    by (rule fake_address_kept [OF rtranclp.rtrancl_refl _ run]) (simp add: dnsState0_def GetDNSLie_def)
  with run lie show ?thesis by blast
qed

subsection \<open>Bad requests, cached answers\<close>

lemma GetQName_fails: "GetQName buf = (name, qtype, 0) \<Longrightarrow> name = []"
  by (auto simp: GetQName_def Let_def split: if_splits option.splits prod.splits)

text \<open>A request of fewer than 19 bytes holds no question; the service answers it with
  SERVFAIL, the request with its flags replaced, and changes nothing. With fewer than 4 bytes
  there is no place for the flags: the service panics.\<close>

theorem short_request_servfail:
  assumes "length request < 19"
  shows "NSRequest env request cache st =
    (if length request < 4 then None else Some (st, 0, request[2 := 0x81, 3 := 0x82]))"
proof -
  obtain name qtype e where q: "GetQName request = (name, qtype, e)"
    by (cases "GetQName request") auto
  have "name = []"
    using assms q GetQName_fails GetQName_bounds_aux [OF q] by (cases "e = 0"; cases name) auto
  then show ?thesis
    by (simp add: NSRequest_def q BuildServfail_def set8_def)
qed

theorem short_request_servfail_witness:
  "NSRequest silentEnv [1, 2, 3] True dnsState0 = None
   \<and> NSRequest silentEnv [1, 2, 3, 4, 5] True dnsState0 = Some (dnsState0, 0, [1, 2, 0x81, 0x82, 5])"
  using short_request_servfail [of "[1, 2, 3]" silentEnv True dnsState0]
    short_request_servfail [of "[1, 2, 3, 4, 5]" silentEnv True dnsState0]
  by simp

text \<open>While the cached addresses of a name have not expired, a request for them is
  answered from the cache: the answer has exactly these addresses, it does not depend on the
  network, the profile or the servers, and the state stays as it is.\<close>

theorem cached_answer:
  assumes "hostName name" and "LoadDNSCache st name = Some p"
    and "qtype = 1 \<and> rec_IPv4Hint (recordsOf st p) = Some a \<or> qtype = 28 \<and> rec_IPv6Hint (recordsOf st p) = Some a"
    and "rec_Index (recordsOf st p) = 0" and "fresh (env_Now env) (dns_Addresses st ! a)"
    and "dns_Addresses st ! a = \<lparr>ra_TTL = t, ra_Addresses = ips\<rparr>"
    and "ips \<noteq> []" "length ips < 65536" "\<forall>ip \<in> set ips. familyOf qtype ip"
  shows "NSRequest env (queryMessage ident name qtype) True st =
    Some (st, 0, responseMessage ident name qtype (length ips) (concat (map (answerBytes (answerTTL (env_Now env) 60 t)) ips)))"
proof -
  have ips: "\<forall>ip \<in> set ips. goodIP ip"
    using assms(9) by (auto simp: familyOf_def goodIP_def)
  have "PackAnswers (env_Now env) qtype 60 (dns_Addresses st) (recordsOf st p) =
      Some (length ips, concat (map (answerBytes (answerTTL (env_Now env) 60 t)) ips))"
    using assms(3,6) packA_answers [OF ips] by (auto simp: PackAnswers_def)
  then have "BuildResponse (env_Now env) (queryMessage ident name qtype) qtype 60 (dns_Addresses st) (recordsOf st p) =
      Some (responseMessage ident name qtype (length ips) (concat (map (answerBytes (answerTTL (env_Now env) 60 t)) ips)))"
    using assms(4,7,8) by (intro BuildResponse_query) auto
  then show ?thesis
    using assms(1-5) by (auto simp: NSRequest_query requestRecords_def answerFromCache_def respond_def)
qed

definition cachedIPs :: "bytes list" where
  "cachedIPs = [[1, 2, 3, 4]]"

definition cachedState :: dnsState where
  "cachedState = \<lparr>dns_Addresses = [\<lparr>ra_TTL = 1300, ra_Addresses = cachedIPs\<rparr>],
    dns_Records = [dnsRecords0\<lparr>rec_IPv4Hint := Some 0\<rparr>], dns_Cache = [str ''a.bc'' \<mapsto> 0], dns_Nose = [(str ''phantom.socks'', None)]\<rparr>"

theorem cached_answer_witness:
  "NSRequest silentEnv (queryMessage 7 (str ''a.bc'') 1) True cachedState =
    Some (cachedState, 0, responseMessage 7 (str ''a.bc'') 1 (length cachedIPs)
      (concat (map (answerBytes (answerTTL (env_Now silentEnv) 60 1300)) cachedIPs)))"
proof (rule cached_answer [where p = 0 and a = 0])
  show "hostName (str ''a.bc'')"
    by (simp add: hostName_def ascii_def str_def)
qed (simp_all add: cachedState_def LoadDNSCache_def recordsOf_def dnsRecords0_def fresh_def silentEnv_def familyOf_def To4_def cachedIPs_def)

subsection \<open>Connections to a server\<close>

lemma recvLoop_rest:
  "length got + length (concat conn) = len \<Longrightarrow> len \<le> 1024 \<Longrightarrow> [] \<notin> set conn \<Longrightarrow> 0 < n \<Longrightarrow>
    recvLoop len got n conn = Inr (drop 2 (got @ concat conn))"
proof (induction conn arbitrary: got n)
  case Nil
  then show ?case by (subst recvLoop.simps) simp
next
  case (Cons c conn)
  then have "recvLoop len got n (c # conn) = recvLoop len (got @ c) (length c) conn"
    by (subst recvLoop.simps) (auto simp: connRead_def)
  also have "\<dots> = Inr (drop 2 ((got @ c) @ concat conn))"
    using Cons.prems by (intro Cons.IH) auto
  finally show ?case by simp
qed

lemma tcpReceive_framed:
  assumes "concat (d # conn) = be_bytes 2 (length r) @ r" and "[] \<notin> set conn" and "2 \<le> length d" and "length r \<le> 1022"
  shows "tcpReceive (d # conn) = Inr r"
proof -
  have len: "length d + length (concat conn) = length r + 2"
    using arg_cong [OF assms(1), of length] by simp
  have "take 2 (concat (d # conn)) = be_bytes 2 (length r)"
    unfolding assms(1) by simp
  then have "take 2 d = be_bytes 2 (length r)"
    using assms(3) by simp
  then have "be_nat (take 2 d) + 2 = length r + 2"
    using assms(4) by (simp add: be_nat_be_bytes)
  then have "tcpReceive (d # conn) = recvLoop (length r + 2) d (length d) conn"
    using len assms(3,4) by (simp add: tcpReceive_def connRead_def)
  also have "\<dots> = Inr (drop 2 (concat (d # conn)))"
    using recvLoop_rest [OF len _ assms(2), of "length d"] assms(3,4) by (cases "d = []") auto
  finally show ?thesis
    unfolding assms(1) by simp
qed

text \<open>A lookup over a connection sends the request behind its length, and whatever pieces
  the server's answer arrives in, of which the first holds at least the length, returns
  exactly the answer. A request of more than 1022 bytes does not fit the buffer: a panic.\<close>

theorem stream_lookup:
  assumes "length request \<le> 1022 \<Longrightarrow> dial (be_bytes 2 (length request) @ request) = Some (d # conn)"
    and "concat (d # conn) = be_bytes 2 (length r) @ r" and "[] \<notin> set conn" and "2 \<le> length d" and "length r \<le> 1022"
  shows "exchange dial request = (if length request \<le> 1022 then Some (Inr r) else None)"
proof (cases "length request \<le> 1022")
  case True
  then have "tcpFrame request = Some (be_bytes 2 (length request) @ request)"
    by (simp add: tcpFrame_def copyFrom_def copy_at_def)
  then show ?thesis
    using True assms(1) tcpReceive_framed [OF assms(2-5)] by (simp add: exchange_def)
next
  case False
  then show ?thesis
    by (simp add: exchange_def tcpFrame_def copyFrom_def slice_def)
qed

theorem stream_lookup_witness: "exchange (\<lambda>_. Some [[0, 3, 7], [8], [9]]) [1, 2] = (if length [1::byte, 2] \<le> 1022 then Some (Inr [7, 8, 9]) else None)"
  by (rule stream_lookup [of "[1, 2]" _ "[0, 3, 7]" "[[8], [9]]" "[7, 8, 9]"]) (simp_all add: be_bytes_2)

lemma udpLoop_reply:
  "udpLoop additional delay buf ds = Inr reply \<Longrightarrow> length buf = 1024 \<Longrightarrow>
    \<exists>early elapsed d late. ds = early @ (elapsed, d) # late \<and> delay * 1000000 \<le> elapsed \<and> reply = take 1024 d
      \<and> (\<not> additional \<longrightarrow> (\<forall>x \<in> set early. fst x < delay * 1000000))"
proof (induction additional delay buf ds rule: udpLoop.induct)
  case (2 additional delay buf elapsed d ds)
  let ?buf = "copy_at buf 0 d"
  have len: "length ?buf = 1024"
    using "2.prems"(2) by simp
  have t: "take (length d) ?buf = take 1024 d"
    using "2.prems"(2) by (cases "length d \<le> 1024") (simp_all add: copy_at_def)
  show ?case
  proof (cases "elapsed < delay * 1000000 \<or> additional \<and> ?buf ! 11 = 0")
    case True
    then have "udpLoop additional delay ?buf ds = Inr reply"
      using "2.prems"(1) by (auto simp: Let_def split: if_splits)
    then obtain early e x late where "ds = early @ (e, x) # late" "delay * 1000000 \<le> e" "reply = take 1024 x"
      "\<not> additional \<longrightarrow> (\<forall>x \<in> set early. fst x < delay * 1000000)"
      using "2.IH" [OF refl] True len by blast
    then show ?thesis
      using True by (intro exI [of _ "(elapsed, d) # early"]) auto
  next
    case False
    then show ?thesis
      using "2.prems"(1) t by (intro exI [of _ "[]"]) (auto simp: Let_def)
  qed
qed simp

text \<open>A lookup over UDP only returns a reply that came no earlier than the configured delay
  after the request, up to 1024 bytes of it; and without additional records in the request it
  returns the first such reply, every one before it having come too early.\<close>

theorem early_replies_dropped:
  assumes "UDPlookup net request address delay = Some (Inr reply)"
  shows "\<exists>early elapsed d late. net_UDP net address request = Some (early @ (elapsed, d) # late)
    \<and> delay * 1000000 \<le> elapsed \<and> reply = take 1024 d
    \<and> (request ! 11 = 0 \<longrightarrow> (\<forall>x \<in> set early. fst x < delay * 1000000))"
proof -
  obtain ds where ds: "net_UDP net address request = Some ds"
    and loop: "udpLoop (request ! 11 \<noteq> 0) delay (replicate 1024 0) ds = Inr reply"
    using assms by (auto simp: UDPlookup_def split: option.splits if_splits)
  from udpLoop_reply [OF loop] show ?thesis
    by (simp add: ds)
qed

theorem early_replies_dropped_witness:
  "\<exists>early elapsed d late. net_UDP (silentNet\<lparr>net_UDP := \<lambda>_ _. Some [(1, [5]), (9000000, [6, 7])]\<rparr>) [] (replicate 12 0) = Some (early @ (elapsed, d) # late)
    \<and> 5 * 1000000 \<le> elapsed \<and> [6, 7] = take 1024 d
    \<and> ((replicate 12 0 :: bytes) ! 11 = 0 \<longrightarrow> (\<forall>x \<in> set early. fst x < 5 * 1000000))"
  by (rule early_replies_dropped [where delay = 5]) (simp add: UDPlookup_def copy_at_def silentNet_def)

end
