(* ===== verification/Tcp_Wire.thy ===== *)
theory Tcp_Wire
  imports Dns_Service Socks_Wire
begin

text \<open>
  An outgoing TCP connection, as the code that dials one sees it (\<open>phantomtcp/tcp.go\<close>,
  \<open>phantomtcp/tcp_linux.go\<close>, \<open>phantomtcp/raw.go\<close>): what it does to the socket, in order, the
  packets it sends beside it, and the addresses it connects from and to. A computation ends
  with a value, an error or a panic.
\<close>

unbundle bit_operations_syntax

subsection \<open>Computations on a connection\<close>

text \<open>
  What is done to the socket: options, writes, writes whose last byte is urgent
  (\<open>MSG_OOB\<close>), and pages spliced in with fake contents that are overwritten with the real
  ones before the kernel sends them again; and packets that go beside it. What follows
  \<open>StartTLS\<close> is written to a TLS connection on top of it, what follows \<open>BelowTLS\<close> to the
  plain one again.
\<close>

record tcpPacket =
  pk_Seq :: nat
  pk_Ack :: nat
  pk_ACK :: bool
  pk_Options :: "(nat \<times> bytes) list"
  pk_Checksum :: bool
  pk_TTL :: "nat option"
  pk_Payload :: bytes

datatype tcpSend =
    SetTOS int
  | SetTTL int
  | Write bytes
  | Urgent bytes
  | Spliced bytes bytes
  | Packet tcpPacket
  | StartTLS
  | BelowTLS

text \<open>The \<open>ConnectionInfo\<close> of the raw socket builds: the TCP header for the packets beside.\<close>

record connectionInfo =
  ci_Seq :: nat
  ci_Ack :: nat
  ci_Window :: nat
  ci_Options :: "(nat \<times> bytes) list"

record wire =
  wr_conn :: tcpConn
  wr_log :: "tcpSend list"
  wr_syn :: "connectionInfo option"

datatype 'a outcome = Ok 'a | Err error | Panic

type_synonym 'a wio = "wire \<Rightarrow> 'a outcome \<times> wire"

definition wReturn :: "'a \<Rightarrow> 'a wio" where
  "wReturn v w = (Ok v, w)"

definition wError :: "error \<Rightarrow> 'a wio" where
  "wError e w = (Err e, w)"

definition wPanic :: "'a wio" where
  "wPanic w = (Panic, w)"

definition wBind :: "'a wio \<Rightarrow> ('a \<Rightarrow> 'b wio) \<Rightarrow> 'b wio" where
  "wBind m f w = (case m w of (Ok v, w) \<Rightarrow> f v w | (Err e, w) \<Rightarrow> (Err e, w) | (Panic, w) \<Rightarrow> (Panic, w))"

text \<open>With a handler for the error.\<close>

definition wCatch :: "'a wio \<Rightarrow> (error \<Rightarrow> 'b wio) \<Rightarrow> ('a \<Rightarrow> 'b wio) \<Rightarrow> 'b wio" where
  "wCatch m h f w = (case m w of (Ok v, w) \<Rightarrow> f v w | (Err e, w) \<Rightarrow> h e w | (Panic, w) \<Rightarrow> (Panic, w))"

text \<open>A value that a slice expression or an index may not have.\<close>

definition wTake :: "'a option \<Rightarrow> 'a wio" where
  "wTake x = (case x of Some v \<Rightarrow> wReturn v | None \<Rightarrow> wPanic)"

text \<open>The socket takes so many more operations before it breaks.\<close>

definition wOp :: "tcpSend \<Rightarrow> unit wio" where
  "wOp s w =
    (case tc_left (wr_conn w) of 0 \<Rightarrow> (Err ''write'', w)
     | Suc k \<Rightarrow> (Ok (), w\<lparr>wr_conn := (wr_conn w)\<lparr>tc_left := k\<rparr>, wr_log := wr_log w @ [s]\<rparr>))"

definition wWrite :: "bytes \<Rightarrow> unit wio" where
  "wWrite d = wOp (Write d)"

definition wRead :: "nat \<Rightarrow> bytes wio" where
  "wRead m w =
    (case connRead m (tc_in (wr_conn w)) of None \<Rightarrow> (Err ''EOF'', w)
     | Some (d, rest) \<Rightarrow> (Ok d, w\<lparr>wr_conn := (wr_conn w)\<lparr>tc_in := rest\<rparr>\<rparr>))"

text \<open>A handler of the plain connection.\<close>

definition onConn :: "'a io \<Rightarrow> 'a wio" where
  "onConn m w =
    (let (r, conn) = m ((wr_conn w)\<lparr>tc_out := []\<rparr>);
         w' = w\<lparr>wr_conn := conn\<lparr>tc_out := tc_out (wr_conn w)\<rparr>, wr_log := wr_log w @ map Write (tc_out conn)\<rparr>
     in (case r of Inr v \<Rightarrow> Ok v | Inl e \<Rightarrow> Err e, w'))"

subsection \<open>Sending with options\<close>

text \<open>
  \<open>SendWithOption\<close>: options of value 0 are left alone. Of two urgent bytes the error of the
  first is lost in the code; here a broken socket stays broken, so the second fails as well.
\<close>

definition wWhen :: "bool \<Rightarrow> unit wio \<Rightarrow> unit wio" where
  "wWhen b m = (if b then m else wReturn ())"

definition SendWithOption :: "bytes \<Rightarrow> bytes option \<Rightarrow> int \<Rightarrow> int \<Rightarrow> unit wio" where
  "SendWithOption payload oob tos ttl =
    wBind (wWhen (tos \<noteq> 0) (wOp (SetTOS tos))) (\<lambda>_.
    wBind (wWhen (ttl \<noteq> 0) (wOp (SetTTL ttl))) (\<lambda>_.
    wBind (case oob of
        None \<Rightarrow> wWrite payload
      | Some [] \<Rightarrow> wPanic
      | Some (c # cs) \<Rightarrow>
          wBind (wOp (Urgent (payload @ [c]))) (\<lambda>_. wWhen (cs \<noteq> []) (wOp (Urgent (take 1 cs))))) (\<lambda>_.
    wBind (wWhen (tos \<noteq> 0) (wOp (SetTOS 0))) (\<lambda>_.
    wWhen (ttl \<noteq> 0) (wOp (SetTTL 64))))))"

text \<open>
  \<open>SendWithFakePayload\<close>, when pipe, mapping and splicing succeed; the length of the fake
  payload is the length of both.
\<close>

definition SendWithFakePayload :: "outbound \<Rightarrow> bytes \<Rightarrow> bytes \<Rightarrow> unit wio" where
  "SendWithFakePayload ob fakepayload realpayload =
    wBind (wWhen (ob_Hint ob AND HINT_TTL \<noteq> 0) (wOp (SetTTL (int (ob_TTL ob))))) (\<lambda>_.
    wBind (wTake (slice realpayload 0 (length fakepayload))) (\<lambda>r.
    wBind (wOp (Spliced fakepayload r)) (\<lambda>_.
    wWhen (ob_Hint ob AND HINT_TTL \<noteq> 0) (wOp (SetTTL 64)))))"

subsection \<open>Packets beside the connection\<close>

text \<open>
  \<open>ModifyAndSendPacket\<close> of \<open>raw.go\<close>: a segment with the header of the connection and faults
  that make the peer drop it. The user build has no such packets: nothing is sent.
\<close>

definition fakePacket :: "connectionInfo \<Rightarrow> bytes \<Rightarrow> hint \<Rightarrow> nat \<Rightarrow> tcpPacket" where
  "fakePacket info payload h ttl =
    \<lparr>pk_Seq = (if h AND HINT_WSEQ \<noteq> 0 then nat ((int (ci_Seq info) - 1) mod 4294967296) else ci_Seq info),
     pk_Ack = (if h AND HINT_NACK \<noteq> 0 then 0 else if h AND HINT_WACK \<noteq> 0 then u32 (ci_Ack info + ci_Window info) else ci_Ack info),
     pk_ACK = (h AND HINT_NACK = 0),
     pk_Options = (if h AND HINT_WMD5 \<noteq> 0 then [(19, replicate 16 0)] else if h AND HINT_WTIME \<noteq> 0 then ci_Options info else []),
     pk_Checksum = (h AND HINT_WCSUM = 0),
     pk_TTL = (if h AND HINT_TTL \<noteq> 0 then Some ttl else None),
     pk_Payload = (if h AND HINT_WSEQ \<noteq> 0 then 0xFF # payload else payload)\<rparr>"

fun wTimes :: "nat \<Rightarrow> unit wio \<Rightarrow> unit wio" where
  "wTimes 0 m = wReturn ()"
| "wTimes (Suc k) m = wBind m (\<lambda>_. wTimes k m)"

definition ModifyAndSendPacket :: "bytes \<Rightarrow> hint \<Rightarrow> nat \<Rightarrow> nat \<Rightarrow> unit wio" where
  "ModifyAndSendPacket payload h ttl count w =
    (case wr_syn w of None \<Rightarrow> (Panic, w)
     | Some info \<Rightarrow> wTimes count (wOp (Packet (fakePacket info payload h ttl))) w)"

definition AddTCPSeq :: "nat \<Rightarrow> unit wio" where
  "AddTCPSeq n w = (Ok (), w\<lparr>wr_syn := map_option (\<lambda>i. i\<lparr>ci_Seq := u32 (ci_Seq i + n)\<rparr>) (wr_syn w)\<rparr>)"

subsection \<open>Addresses\<close>

text \<open>
  \<open>GetLocalTCPAddr\<close>: \<open>None\<close> is no interface of that name, and the list the addresses of its
  networks. Of IPv6 the first global one, or else the last that is not link-local.
\<close>

definition isLinkLocalUnicast :: "bytes \<Rightarrow> bool" where
  "isLinkLocalUnicast ip =
    (if To4 ip \<noteq> [] then take 2 (To4 ip) = [169, 254]
     else length ip = 16 \<and> ip ! 0 = 0xfe \<and> (ip ! 1) AND 0xc0 = 0x80)"

fun localIPv6 :: "bytes list \<Rightarrow> bytes option \<Rightarrow> bytes option" where
  "localIPv6 [] found = found"
| "localIPv6 (ip # ips) found =
    (if length ip = 16 \<and> ip ! 0 \<noteq> 0 \<and> \<not> isLinkLocalUnicast ip then
       (if (ip ! 0) AND 0x30 = 0x20 then Some ip else localIPv6 ips (Some ip))
     else localIPv6 ips found)"

definition GetLocalTCPAddr :: "(gostr \<Rightarrow> bytes list option) \<Rightarrow> gostr \<Rightarrow> bool \<Rightarrow> error + bytes option" where
  "GetLocalTCPAddr interfaces name ipv6 =
    (if name = [] then Inr None
     else
       (case interfaces name of None \<Rightarrow> Inl ''no such interface''
        | Some ips \<Rightarrow>
            Inr (if ipv6 then localIPv6 ips None else map_option To4 (find (\<lambda>ip. To4 ip \<noteq> []) ips))))"

text \<open>\<open>net.SplitHostPort\<close>: host and port, without the brackets of an IPv6 address.\<close>

definition SplitHostPort :: "gostr \<Rightarrow> (gostr \<times> gostr) option" where
  "SplitHostPort hostport =
    (case lastIndexByte 58 hostport of None \<Rightarrow> None
     | Some i \<Rightarrow>
        (if hasHostPort hostport then
           Some (if hasPrefix hostport [91] then take (i - 2) (drop 1 hostport) else take i hostport, drop (i + 1) hostport)
         else None))"

definition hostAndPort :: "gostr \<Rightarrow> (gostr \<times> int) option" where
  "hostAndPort address =
    (case SplitHostPort address of None \<Rightarrow> None | Some (host, port) \<Rightarrow> map_option (Pair host) (Atoi port))"

text \<open>\<open>None\<close> is a panic; the nil outbound resolves nothing but addresses.\<close>

definition GetRemoteAddresses ::
  "dnsEnv \<Rightarrow> outbound \<Rightarrow> gostr \<Rightarrow> int \<Rightarrow> dnsState \<Rightarrow> (dnsState \<times> (error + (bytes \<times> int) list)) option" where
  "GetRemoteAddresses env ob host port st =
    (case ob_Protocol ob of
       DIRECT \<Rightarrow> ResolveTCPAddrs env ob host port st
     | REDIRECT \<Rightarrow>
         (if ob_Address ob = [] then ResolveTCPAddrs env ob host port st
          else
            (case hostAndPort (ob_Address ob) of None \<Rightarrow> Some (st, Inl ''address'')
             | Some (h, p) \<Rightarrow> ResolveTCPAddrs env ob h p st))
     | NAT64 \<Rightarrow>
         map_option (\<lambda>(st, r). (st, case r of Inl e \<Rightarrow> Inl e
             | Inr addrs \<Rightarrow> Inr (map (\<lambda>(ip, _). (ParseIP (ob_Address ob @ IPString ip), port)) addrs)))
           (ResolveTCPAddrs env ob host port st)
     | _ \<Rightarrow>
         (case hostAndPort (ob_Address ob) of None \<Rightarrow> Some (st, Inl ''address'')
          | Some (h, p) \<Rightarrow>
             (case fst (GetOutbound (net_Profile (env_Net env)) (net_Default (env_Net env)) (env_Depth env) h) of
                None \<Rightarrow> if ParseIP h \<noteq> [] then Some (st, Inr [(ParseIP h, p)]) else None
              | Some ob' \<Rightarrow> ResolveTCPAddrs env ob' h p st)))"

end
