(* ===== verification/Tcp_Handshake.thy ===== *)
theory Tcp_Handshake
  imports Tcp_Wire
begin

text \<open>
  The handshake with an upstream proxy (\<open>ProxyHandshake\<close> of \<open>phantomtcp/proxy.go\<close>), for
  HTTP, HTTPS, SOCKS4 and SOCKS5 proxies.
\<close>

unbundle bit_operations_syntax

text \<open>
  The random choice below a bound; what \<open>NSLookup\<close> gives for the host, where the nil list,
  \<open>None\<close>, is not the empty one; and the TLS client on a connection, whose segments are then
  those of the plain text.
\<close>

record handshakeEnv =
  he_Random :: "nat \<Rightarrow> nat"
  he_Lookup :: "gostr \<Rightarrow> bytes list option"
  he_TLS :: "tcpConn \<Rightarrow> tcpConn"

definition wTLS :: "handshakeEnv \<Rightarrow> unit wio" where
  "wTLS env w = (Ok (), w\<lparr>wr_conn := he_TLS env (wr_conn w), wr_log := wr_log w @ [StartTLS]\<rparr>)"

definition invalidProxy :: error where
  "invalidProxy = ''invalid proxy''"

text \<open>The connection that the code returns beside the error is nil for these.\<close>

definition handshakeNil :: "outbound \<Rightarrow> error \<Rightarrow> bool" where
  "handshakeNil ob e \<longleftrightarrow> ob_Protocol ob = SOCKS5 \<and> e = invalidProxy"

definition uint16Bytes :: "int \<Rightarrow> bytes" where
  "uint16Bytes port = be_bytes 2 (nat (port mod 65536))"

definition connectRequest :: "outbound \<Rightarrow> gostr \<Rightarrow> int \<Rightarrow> bytes" where
  "connectRequest ob host port =
    str ''CONNECT '' @ JoinHostPort host (intString port) @ str '' HTTP/1.1'' @ [13, 10] @
    (if ob_Authorization ob \<noteq> [] then str ''Authorization: Basic '' @ ob_Authorization ob @ [13, 10] else []) @ [13, 10]"

definition connectResponse :: "unit wio" where
  "connectResponse =
    wCatch (wRead 128) (\<lambda>_. wError ''failed to connect to proxy'') (\<lambda>response.
      if hasPrefix response (str ''HTTP/1.1 200 '') then wReturn () else wError ''failed to connect to proxy'')"

text \<open>The number of bytes that the sequence number of the packets beside moves on.\<close>

definition httpHandshake :: "outbound \<Rightarrow> bool \<Rightarrow> gostr \<Rightarrow> int \<Rightarrow> nat wio" where
  "httpHandshake ob syn host port =
    (let request = connectRequest ob host port; h = ob_Hint ob AND HINT_MODIFY;
         first = (if h AND HINT_TCPFRAG \<noteq> 0 then 4 else if h AND HINT_REVERSE \<noteq> 0 then 10 else 0)
     in if syn then
          wBind (wWhen (first > 0) (wWrite (take first request))) (\<lambda>_.
          wBind (ModifyAndSendPacket (replicate (length request) 0) h (ob_TTL ob) 2) (\<lambda>_.
          wBind (wWrite (drop first request)) (\<lambda>_.
          wBind connectResponse (\<lambda>_. wReturn (length request)))))
        else
          wBind (wWrite request) (\<lambda>_. wBind connectResponse (\<lambda>_. wReturn 0)))"

text \<open>The packet of zeros that the other proxies are sent first.\<close>

definition zeroPacket :: "outbound \<Rightarrow> bool \<Rightarrow> unit wio" where
  "zeroPacket ob syn = wWhen syn (ModifyAndSendPacket (replicate 264 0) (ob_Hint ob AND HINT_MODIFY) (ob_TTL ob) 2)"

definition httpsHandshake :: "handshakeEnv \<Rightarrow> outbound \<Rightarrow> bool \<Rightarrow> gostr \<Rightarrow> int \<Rightarrow> nat wio" where
  "httpsHandshake env ob syn host port =
    wBind (zeroPacket ob syn) (\<lambda>_.
    wBind (wTLS env) (\<lambda>_.
    wBind (wWrite (connectRequest ob host port)) (\<lambda>_.
    wBind connectResponse (\<lambda>_. wReturn 0))))"

text \<open>The request is built in 264 bytes.\<close>

definition socks4Request :: "gostr \<Rightarrow> int \<Rightarrow> bytes option" where
  "socks4Request host port =
    (if To4 (ParseIP host) \<noteq> [] then Some ([0x04, 0x01] @ uint16Bytes port @ To4 (ParseIP host) @ [0])
     else if 9 + length host < 264 then Some ([0x04, 0x01] @ uint16Bytes port @ [0, 0, 0, 1, 0] @ host @ [0])
     else None)"

definition socks4Client :: "outbound \<Rightarrow> bool \<Rightarrow> gostr \<Rightarrow> int \<Rightarrow> nat wio" where
  "socks4Client ob syn host port =
    wBind (zeroPacket ob syn) (\<lambda>_.
    wBind (wTake (socks4Request host port)) (\<lambda>request.
    wBind (wWrite request) (\<lambda>_.
    wBind (wRead 8) (\<lambda>b.
      if length b < 8 \<or> b ! 0 \<noteq> 0 \<or> b ! 1 \<noteq> 90 then wError invalidProxy else wReturn (length request)))))"

definition socks5AddrRequest :: "bytes \<Rightarrow> int \<Rightarrow> bytes option" where
  "socks5AddrRequest ip port =
    (if To4 ip \<noteq> [] then Some ([0x05, 0x01, 0x00, 0x01] @ To4 ip @ uint16Bytes port)
     else map_option (\<lambda>a. [0x05, 0x01, 0x00, 0x04] @ a @ uint16Bytes port) (slice ip 0 16))"

definition socks5HostRequest :: "gostr \<Rightarrow> int \<Rightarrow> bytes option" where
  "socks5HostRequest host port =
    (if 5 + length host + 2 \<le> 264 then
       Some ([0x05, 0x01, 0x00, 0x03, of_nat (length host)] @ host @ uint16Bytes port)
     else None)"

text \<open>
  With a DNS server of its own the outbound resolves the host, and picks one of the
  addresses: of an empty list that is not nil there is none to pick. No request is sent for
  an empty host. The greeting has 3 bytes, but the sequence number moves on by 5.
\<close>

definition socks5Request' :: "handshakeEnv \<Rightarrow> outbound \<Rightarrow> gostr \<Rightarrow> int \<Rightarrow> bytes option" where
  "socks5Request' env ob host port =
    (case (if ob_DNS ob \<noteq> [] then he_Lookup env host else None) of
       Some ips \<Rightarrow> (if ips = [] then None else socks5AddrRequest (ips ! he_Random env (length ips)) port)
     | None \<Rightarrow> (if host \<noteq> [] then socks5HostRequest host port else Some []))"

definition socks5Client :: "handshakeEnv \<Rightarrow> outbound \<Rightarrow> bool \<Rightarrow> gostr \<Rightarrow> int \<Rightarrow> nat wio" where
  "socks5Client env ob syn host port =
    wBind (zeroPacket ob syn) (\<lambda>_.
    wCatch (onConn (socks5Negotiate [] [])) (\<lambda>_. wError invalidProxy) (\<lambda>_.
    wBind (wTake (socks5Request' env ob host port)) (\<lambda>request.
    wBind (wWhen (request \<noteq> []) (wWrite request)) (\<lambda>_.
    wBind (wRead 264) (\<lambda>b.
      if length b < 2 \<or> b ! 0 \<noteq> 0x05 \<or> b ! 1 \<noteq> 0x00 then wError invalidProxy
      else wReturn (5 + length request))))))"

definition ProxyHandshake :: "handshakeEnv \<Rightarrow> outbound \<Rightarrow> bool \<Rightarrow> gostr \<Rightarrow> int \<Rightarrow> unit wio" where
  "ProxyHandshake env ob syn host port =
    wBind (case ob_Protocol ob of
        HTTP \<Rightarrow> httpHandshake ob syn host port
      | HTTPS \<Rightarrow> httpsHandshake env ob syn host port
      | SOCKS4 \<Rightarrow> socks4Client ob syn host port
      | SOCKS5 \<Rightarrow> socks5Client env ob syn host port
      | _ \<Rightarrow> wReturn 0) (\<lambda>n.
    wWhen syn (AddTCPSeq n))"

subsection \<open>The server understands the client\<close>

lemma wBind_Ok [simp]: "m w = (Ok v, w') \<Longrightarrow> wBind m f w = f v w'"
  by (simp add: wBind_def)

lemma wCatch_Ok [simp]: "m w = (Ok v, w') \<Longrightarrow> wCatch m h f w = f v w'"
  by (simp add: wCatch_def)

lemma uint16Bytes: "0 \<le> port \<Longrightarrow> port < 65536 \<Longrightarrow> uint16Bytes port = be_bytes 2 (nat port)"
  by (simp add: uint16Bytes_def)

text \<open>What the proxy is asked for: the host, or one of the addresses of the outbound's own lookup.\<close>

definition handshakeTarget :: "handshakeEnv \<Rightarrow> outbound \<Rightarrow> gostr \<Rightarrow> gostr \<times> bytes" where
  "handshakeTarget env ob host =
    (case (if ob_DNS ob \<noteq> [] then he_Lookup env host else None) of
       Some ips \<Rightarrow> ([], wireIP (ips ! he_Random env (length ips))) | None \<Rightarrow> (host, []))"

lemma reads_connectRequest:
  assumes "host \<noteq> [] \<or> ob_DNS ob \<noteq> [] \<and> he_Lookup env host \<noteq> None" and "length host \<le> 255" and "0 \<le> port" "port < 65536"
    and "\<forall>ips. he_Lookup env host = Some ips \<longrightarrow> ips \<noteq> [] \<and> (\<forall>ip \<in> set ips. ipOk ip)"
    and "\<And>n. 0 < n \<Longrightarrow> he_Random env n < n"
  obtains request where "socks5Request' env ob host port = Some request" "request \<noteq> []"
    "reads socks5ReadRequest request \<lparr>rq_cmd = 1, rq_host = fst (handshakeTarget env ob host),
      rq_addr = snd (handshakeTarget env ob host), rq_port = nat port\<rparr>"
proof -
  let ?p = "nat port" and ?v = "\<lambda>h a p. \<lparr>rq_cmd = 1, rq_host = h, rq_addr = a, rq_port = p\<rparr>"
  have p: "?p < 65536" "uint16Bytes port = be_bytes 2 ?p"
    using assms(3,4) by (auto simp: uint16Bytes)
  show ?thesis
  proof (cases "if ob_DNS ob \<noteq> [] then he_Lookup env host else None")
    case None
    with assms(1) have host: "host \<noteq> []"
      by (auto split: if_splits)
    have len: "unat (of_nat (length host) :: byte) = length host" "(of_nat (length host) :: byte) \<noteq> 0"
      using assms(2) host by (auto simp: unat_of_nat_byte unat_eq_0 [symmetric])
    have "reads (ioBind (ReadFull (length host + 2)) (\<lambda>body. ioReturn (?v (take (length body - 2) body) [] (be_nat (drop (length body - 2) body)))))
        (host @ be_bytes 2 ?p) (?v host [] ?p)"
      by (rule talks_ReadFull_return) (use p in \<open>simp_all add: be_nat_be_bytes\<close>)
    then have inner: "reads (ioBind (ReadFull 1) (\<lambda>l. if l ! 0 = 0 then ioError ''empty socks5 domain''
        else ioBind (ReadFull (unat (l ! 0) + 2)) (\<lambda>body. ioReturn (?v (take (length body - 2) body) [] (be_nat (drop (length body - 2) body))))))
        ([of_nat (length host)] @ (host @ be_bytes 2 ?p)) (?v host [] ?p)"
      by (intro talks_ReadFull_bind) (use len in simp_all)
    have "reads socks5ReadRequest ([5, 1, 0, 3] @ ([of_nat (length host)] @ (host @ be_bytes 2 ?p))) (?v host [] ?p)"
      unfolding socks5ReadRequest_def
      by (rule talks_ReadFull_bind) (use inner in \<open>simp_all cong: if_cong\<close>)
    with None host show ?thesis
      using assms(2) p by (intro that) (auto simp: socks5Request'_def socks5HostRequest_def handshakeTarget_def)
  next
    case (Some ips)
    let ?ip = "ips ! he_Random env (length ips)"
    have ip: "ipOk ?ip" and ne: "ips \<noteq> []"
      using assms(5,6) Some by (auto split: if_splits)
    from wireIP_cases [OF ip] show ?thesis
    proof (elim disjE conjE)
      assume a: "To4 ?ip \<noteq> []" "length (To4 ?ip) = 4" "wireIP ?ip = To4 ?ip"
      have "reads socks5ReadRequest ([5, 1, 0, 1] @ (To4 ?ip @ be_bytes 2 ?p)) (?v [] (To4 ?ip) ?p)"
        unfolding socks5ReadRequest_def
        by (rule talks_ReadFull_bind) (use reads_addr_body [OF a(2) p(1), of "?v []"] in simp_all)
      with Some ne a show ?thesis
        using p by (intro that) (auto simp: socks5Request'_def socks5AddrRequest_def handshakeTarget_def)
    next
      assume a: "To4 ?ip = []" "length ?ip = 16" "wireIP ?ip = ?ip"
      have "reads socks5ReadRequest ([5, 1, 0, 4] @ (?ip @ be_bytes 2 ?p)) (?v [] ?ip ?p)"
        unfolding socks5ReadRequest_def
        by (rule talks_ReadFull_bind) (use reads_addr_body [OF a(2) p(1), of "?v []"] in simp_all)
      with Some ne a show ?thesis
        using p by (intro that) (auto simp: socks5Request'_def socks5AddrRequest_def handshakeTarget_def slice_def)
    qed
  qed
qed

lemma talks_SocksProxy_connect:
  assumes "reads socks5ReadRequest request \<lparr>rq_cmd = 1, rq_host = host, rq_addr = addr, rq_port = port\<rparr>"
  shows "talks (SocksProxy local) ([5, 1, 0] @ request) [[5, 0], socks5ConnectReply] (socksCommand 1 host addr port)"
proof -
  have "talks (socks5Handshake local) ([1, 0] @ (request @ [])) ([[5, 0]] @ ([] @ [socks5ConnectReply])) (socksCommand 1 host addr port)"
    unfolding socks5Handshake_def
    by (rule talks_bind [OF talks_serverNegotiate], rule talks_catch [OF assms])
       (auto simp: socks5HandshakeReply_def socks5ConnectReply_def socks5AddrReply_def Let_def intro: talks_write_bind)
  then have "talks (SocksProxy local) ([5] @ ([1, 0] @ request)) [[5, 0], socks5ConnectReply] (socksCommand 1 host addr port)"
    unfolding SocksProxy_def by (intro talks_ReadFull_bind) simp_all
  then show ?thesis by simp
qed

lemma onConn_negotiate:
  assumes "tc_in (wr_conn w) = [5, 0] # segs" and "tc_left (wr_conn w) = Suc k"
  shows "onConn (socks5Negotiate [] []) w =
    (Ok (), w\<lparr>wr_conn := (wr_conn w)\<lparr>tc_in := segs, tc_left := k\<rparr>, wr_log := wr_log w @ [Write [5, 1, 0]]\<rparr>)"
  using assms
  by (simp add: onConn_def socks5Negotiate_def ioBind_def connWrite_def ReadFull_def ioReturn_def numeral_2_eq_2)

lemma wRead_segment:
  "tc_in (wr_conn w) = d # segs \<Longrightarrow> length d \<le> m \<Longrightarrow> wRead m w = (Ok d, w\<lparr>wr_conn := (wr_conn w)\<lparr>tc_in := segs\<rparr>\<rparr>)"
  by (simp add: wRead_def connRead_def)

lemma wOp_left:
  "tc_left (wr_conn w) = Suc k \<Longrightarrow> wOp s w = (Ok (), w\<lparr>wr_conn := (wr_conn w)\<lparr>tc_left := k\<rparr>, wr_log := wr_log w @ [s]\<rparr>)"
  by (simp add: wOp_def)

text \<open>C36: The SOCKS5 client and server of the program understand each other: with the
  server's two replies, each in a segment, the handshake succeeds and leaves what comes after
  them, and what it has written makes \<open>SocksProxy\<close> give just these replies and connect to the
  host and port, or to one of the addresses that the outbound's own DNS server knows for it.\<close>

theorem handshake_agrees:
  assumes "ob_Protocol ob = SOCKS5"
    and "host \<noteq> [] \<or> ob_DNS ob \<noteq> [] \<and> he_Lookup env host \<noteq> None" and "length host \<le> 255" and "0 \<le> port" "port < 65536"
    and "\<forall>ips. he_Lookup env host = Some ips \<longrightarrow> ips \<noteq> [] \<and> (\<forall>ip \<in> set ips. ipOk ip)"
    and "\<And>n. 0 < n \<Longrightarrow> he_Random env n < n"
    and "tc_in (wr_conn w) = [5, 0] # socks5ConnectReply # segs" and "2 \<le> tc_left (wr_conn w)"
  shows "\<exists>w' ds. ProxyHandshake env ob False host port w = (Ok (), w') \<and> tc_in (wr_conn w') = segs
    \<and> wr_log w' = wr_log w @ map Write ds
    \<and> (\<forall>local. talks (SocksProxy local) (concat ds) [[5, 0], socks5ConnectReply]
        (socksCommand 1 (fst (handshakeTarget env ob host)) (snd (handshakeTarget env ob host)) (nat port)))"
proof -
  obtain request where r: "socks5Request' env ob host port = Some request" "request \<noteq> []"
    "reads socks5ReadRequest request \<lparr>rq_cmd = 1, rq_host = fst (handshakeTarget env ob host),
      rq_addr = snd (handshakeTarget env ob host), rq_port = nat port\<rparr>"
    by (rule reads_connectRequest [OF assms(2-7)])
  obtain k where k: "tc_left (wr_conn w) = Suc (Suc k)"
    using assms(9) by (cases "tc_left (wr_conn w)") (auto simp: le_Suc_ex Suc_le_eq gr0_conv_Suc)
  have reply: "length socks5ConnectReply = 10" "socks5ConnectReply ! 0 = 5" "socks5ConnectReply ! 1 = 0"
    by (simp_all add: socks5ConnectReply_def socks5AddrReply_def IPv4zero_def To16_def To4_def v4InV6Prefix_def socks5_reps)
  obtain w' where "ProxyHandshake env ob False host port w = (Ok (), w')" "tc_in (wr_conn w') = segs"
    "wr_log w' = wr_log w @ map Write [[5, 1, 0], request]"
    using assms(1,8) k r(1,2) reply
    by (simp add: ProxyHandshake_def socks5Client_def zeroPacket_def wWhen_def wReturn_def wTake_def wWrite_def
        wOp_left wBind_def wCatch_def onConn_negotiate wRead_segment)
  with talks_SocksProxy_connect [OF r(3)] show ?thesis
    by (intro exI [of _ w'] exI [of _ "[[5, 1, 0], request]"]) simp
qed

definition socksUpstream :: outbound where
  "socksUpstream = Outbound [] [] HINT_IPV4 0 0 0 SOCKS5 (str ''10.0.0.1:1080'') [] 65535 None"

definition sampleHandshakeEnv :: handshakeEnv where
  "sampleHandshakeEnv = \<lparr>he_Random = (\<lambda>_. 0), he_Lookup = (\<lambda>_. None), he_TLS = id\<rparr>"

definition sampleWire :: wire where
  "sampleWire = \<lparr>wr_conn = \<lparr>tc_in = [[5, 0], socks5ConnectReply], tc_out = [], tc_left = 2\<rparr>, wr_log = [], wr_syn = None\<rparr>"

theorem handshake_agrees_witness:
  "\<exists>w' ds. ProxyHandshake sampleHandshakeEnv socksUpstream False [97, 46, 98] 443 sampleWire = (Ok (), w')
    \<and> tc_in (wr_conn w') = [] \<and> talks (SocksProxy None) (concat ds) [[5, 0], socks5ConnectReply] (TcpRedirect [97, 46, 98] [] 443)"
proof -
  have "handshakeTarget sampleHandshakeEnv socksUpstream [97, 46, 98] = ([97, 46, 98], [])"
    by (simp add: handshakeTarget_def socksUpstream_def)
  with handshake_agrees [of socksUpstream "[97, 46, 98]" sampleHandshakeEnv 443 sampleWire "[]"] show ?thesis
    by (fastforce simp: socksUpstream_def sampleHandshakeEnv_def sampleWire_def socksCommand_def)
qed

end
