(* ===== verification/Tcp_Dial.thy ===== *)
theory Tcp_Dial
  imports Tcp_Handshake
begin

text \<open>
  Dialling through an outbound in the build without raw packets (\<open>dial\<close> of
  \<open>phantomtcp/tcp_user.go\<close>, \<open>GetFakePayload\<close> of \<open>phantomtcp/tcp.go\<close>): the first bytes of
  the client, with the place of the server's name in them, are sent in the way the hints of
  the outbound ask for.
\<close>

unbundle bit_operations_syntax

subsection \<open>The network\<close>

record dialRequest =
  dr_Local :: "bytes option"
  dr_Remote :: "bytes \<times> int"
  dr_TTL :: nat
  dr_MSS :: nat
  dr_TFO :: bool
  dr_KeepAlive :: bool
  dr_Timeout :: nat
  dr_Payload :: bytes

text \<open>\<open>IsNormalError\<close> tells the errors after which the next address is tried.\<close>

datatype dialError = NormalError | HardError

text \<open>
  The addresses of an interface, what the attempts to dial give, the state of the socket
  after them (\<open>GetTCPState\<close>, \<open>None\<close> its error), the random numbers and bytes, whether an
  attempt takes longer than a millisecond, and the passive mode.
\<close>

record dialEnv =
  de_Interfaces :: "gostr \<Rightarrow> bytes list option"
  de_Dial :: "nat \<Rightarrow> dialRequest \<Rightarrow> dialError + wire"
  de_State :: "nat \<Rightarrow> nat option"
  de_Random :: "nat \<Rightarrow> nat"
  de_Int :: "nat \<Rightarrow> int"
  de_Bytes :: "nat \<Rightarrow> bytes"
  de_Delayed :: "nat \<Rightarrow> bool"
  de_Handshake :: handshakeEnv
  de_Passive :: bool

definition runWire :: "'a wio \<Rightarrow> wire \<Rightarrow> wire outcome" where
  "runWire m w = (case m w of (Ok _, w') \<Rightarrow> Ok w' | (Err e, _) \<Rightarrow> Err e | (Panic, _) \<Rightarrow> Panic)"

subsection \<open>The fake payload\<close>

text \<open>
  \<open>GetFakePayload\<close>: random bytes, or the first bytes with the letters of the name replaced;
  then the cut is in the middle of the dots instead of the name. \<open>None\<close> is a panic.
\<close>

definition domainBytes :: gostr where
  "domainBytes = str ''abcdefghijklmnopqrstuvwxyz0123456789-''"

definition dotsIn :: "bytes \<Rightarrow> nat \<Rightarrow> nat \<Rightarrow> nat list" where
  "dotsIn header offset len = filter (\<lambda>i. header ! i = 46) [offset..<offset + len]"

definition dotCut :: "bytes \<Rightarrow> nat \<Rightarrow> nat \<Rightarrow> nat" where
  "dotCut header offset len =
    (let dots = dotsIn header offset len;
         min_dot = Min (insert (offset + len) (set dots));
         max_dot = Max (insert offset (set dots))
     in ((if min_dot = max_dot then offset else min_dot) + max_dot) div 2)"

definition fakeName :: "(nat \<Rightarrow> nat) \<Rightarrow> bytes \<Rightarrow> nat \<Rightarrow> nat \<Rightarrow> bytes" where
  "fakeName random header offset len =
    map (\<lambda>i. if offset \<le> i \<and> i < offset + len \<and> header ! i \<noteq> 46 then domainBytes ! (random i mod length domainBytes)
      else header ! i) [0..<length header]"

definition GetFakePayload :: "dialEnv \<Rightarrow> hint \<Rightarrow> bytes \<Rightarrow> nat \<Rightarrow> nat \<Rightarrow> (bytes \<times> nat) option" where
  "GetFakePayload env h header offset len =
    (let len = (if offset = 0 then length header else len);
         random = (offset = 0 \<or> h AND HINT_RAND \<noteq> 0)
     in if random then Some (take (length header) (de_Bytes env (length header) @ header), offset + len div 2)
        else if offset + len > length header then None
        else Some (fakeName (de_Random env) header offset len, dotCut header offset len))"

subsection \<open>Connecting\<close>

definition localAddr :: "dialEnv \<Rightarrow> gostr \<Rightarrow> bytes \<Rightarrow> error + bytes option" where
  "localAddr env device remote =
    (if device \<noteq> [] then GetLocalTCPAddr (de_Interfaces env) device (To4 remote = []) else Inr None)"

definition userRequest :: "outbound \<Rightarrow> bytes option \<Rightarrow> bytes \<times> int \<Rightarrow> nat \<Rightarrow> dialRequest" where
  "userRequest ob laddr raddr mss =
    \<lparr>dr_Local = laddr, dr_Remote = raddr, dr_TTL = 0, dr_MSS = mss, dr_TFO = (ob_Hint ob AND HINT_TFO \<noteq> 0),
     dr_KeepAlive = (ob_Hint ob AND HINT_KEEPALIVE \<noteq> 0), dr_Timeout = ob_Timeout ob, dr_Payload = []\<rparr>"

text \<open>
  The loop over the addresses, which starts at a random one; the last attempt's number, local
  and remote address come with the connection.
\<close>

fun dialLoop :: "dialEnv \<Rightarrow> outbound \<Rightarrow> nat \<Rightarrow> (bytes \<times> int) list \<Rightarrow> error + nat \<times> dialRequest \<times> wire" where
  "dialLoop env ob i [] = Inl ''dial''"
| "dialLoop env ob i (raddr # raddrs) =
    (case localAddr env (ob_Device ob) (fst raddr) of Inl e \<Rightarrow> Inl e
     | Inr laddr \<Rightarrow>
        (let req = userRequest ob laddr raddr (ob_MTU ob) in
         case de_Dial env i req of
           Inr w \<Rightarrow> Inr (i, req, w)
         | Inl HardError \<Rightarrow> Inl ''dial''
         | Inl NormalError \<Rightarrow> (if raddrs = [] then Inl ''dial'' else dialLoop env ob (i + 1) raddrs)))"

definition rotate_list :: "nat \<Rightarrow> 'a list \<Rightarrow> 'a list" where
  "rotate_list n xs = drop (n mod length xs) xs @ take (n mod length xs) xs"

subsection \<open>Sending the first bytes\<close>

text \<open>An error that the next send replaces.\<close>

definition wThen :: "unit wio \<Rightarrow> 'a wio \<Rightarrow> 'a wio" where
  "wThen m n = wCatch m (\<lambda>_. n) (\<lambda>_. n)"

definition part :: "bytes \<Rightarrow> nat \<Rightarrow> nat \<Rightarrow> (bytes \<Rightarrow> 'a wio) \<Rightarrow> 'a wio" where
  "part b i j f = wBind (wTake (slice b i j)) f"

definition sendOOB :: "outbound \<Rightarrow> hint \<Rightarrow> bytes \<Rightarrow> nat \<Rightarrow> nat \<Rightarrow> unit wio" where
  "sendOOB ob h header offset len =
    (if h AND HINT_TTL \<noteq> 0 then
       part header 0 offset (\<lambda>b. part header offset (offset + 2) (\<lambda>oob.
       wThen (SendWithOption b (Some oob) 0 (int (ob_TTL ob)))
         (part header (offset + 2) (offset + len div 2) (\<lambda>b.
          wBind (SendWithOption b (Some [0]) 0 64) (\<lambda>_.
          part header (offset + len div 2) (length header) wWrite)))))
     else if h AND HINT_TCPFRAG \<noteq> 0 then
       part header offset (offset + 1) (\<lambda>c. part header 0 1 (\<lambda>b.
       wThen (wWrite b)
         (part header 1 offset (\<lambda>b.
          wBind (SendWithOption b (Some (c @ [0])) 0 0) (\<lambda>_.
          part header (offset + 1) (length header) wWrite)))))
     else
       part header 1 2 (\<lambda>c. part header 0 1 (\<lambda>b.
       wBind (SendWithOption b (Some (c @ [0])) 0 0) (\<lambda>_.
       part header 2 (length header) wWrite))))"

definition sendTTL :: "dialEnv \<Rightarrow> outbound \<Rightarrow> bytes \<Rightarrow> nat \<Rightarrow> nat \<Rightarrow> unit wio" where
  "sendTTL env ob header offset len =
    wBind (wTake (GetFakePayload env (ob_Hint ob) header offset len)) (\<lambda>(fakepayload, cut).
    (let n = min (length fakepayload) cut in
     part fakepayload 0 n (\<lambda>f. part header 0 n (\<lambda>r.
     wBind (SendWithFakePayload ob f r) (\<lambda>_.
     wWhen (n < length header) (wWrite (drop n header)))))))"

definition sendFrag :: "dialEnv \<Rightarrow> bytes \<Rightarrow> nat \<Rightarrow> nat \<Rightarrow> unit wio" where
  "sendFrag env header offset len =
    (let cut = offset + len div 2 in
     wBind (if cut > 4 then
         part header 0 1 (\<lambda>b. wBind (SendWithOption b None (de_Int env 0) 0) (\<lambda>_.
         part header 1 4 (\<lambda>b. SendWithOption b None (de_Int env 1) 0)))
       else wReturn ()) (\<lambda>_.
     part header (if cut > 4 then 4 else 0) cut (\<lambda>b.
     wBind (SendWithOption b None (de_Int env 2) 0) (\<lambda>_.
     part header cut (length header) (\<lambda>b. SendWithOption b None (de_Int env 3) 0)))))"

definition sendTFO :: "hint \<Rightarrow> bytes \<Rightarrow> nat \<Rightarrow> nat \<Rightarrow> unit wio" where
  "sendTFO h header offset len =
    (let n = min 1220 (if h AND HINT_TCPFRAG \<noteq> 0 then offset + len div 2 else length header) in
     part header 0 n (\<lambda>b.
     wBind (wWrite b) (\<lambda>_.
     wWhen (n < length header) (wWrite (drop n header)))))"

text \<open>
  A Fast Open socket that is connected at once has no cookie: the connection is closed and
  dialled again, with the next state. The error of that dial is lost, and its nil connection
  is asked for its state: a panic.
\<close>

definition fastOpen :: "dialEnv \<Rightarrow> outbound \<Rightarrow> nat \<Rightarrow> dialRequest \<Rightarrow> wire \<Rightarrow> wire outcome" where
  "fastOpen env ob i req w =
    (case de_State env i of None \<Rightarrow> Err ''state''
     | Some state \<Rightarrow>
        (if state = 1 then
           (case de_Dial env (i + 1) (req\<lparr>dr_MSS := 0\<rparr>) of
              Inl _ \<Rightarrow> Panic
            | Inr w \<Rightarrow>
                (case de_State env (i + 1) of None \<Rightarrow> Err ''state''
                 | Some state \<Rightarrow> if state = 1 then Err ''fastopen connect failed'' else Ok w))
         else Ok w))"

text \<open>The header as it is sent: with another version in the TLS record for \<open>tls1.3\<close>.\<close>

definition userHint :: "outbound \<Rightarrow> nat \<Rightarrow> hint" where
  "userHint ob len = (if len = 0 then 0 else ob_Hint ob)"

definition userHeader :: "outbound \<Rightarrow> bytes \<Rightarrow> nat \<Rightarrow> bytes option" where
  "userHeader ob header len = (if userHint ob len AND HINT_TLS1_3 \<noteq> 0 then set8 header 2 0x4 else Some header)"

definition dialUser ::
  "dialEnv \<Rightarrow> outbound \<Rightarrow> gostr \<Rightarrow> int \<Rightarrow> bytes \<Rightarrow> nat \<Rightarrow> nat \<Rightarrow> (bytes \<times> int) list \<Rightarrow> wire outcome" where
  "dialUser env ob host port header offset len raddrs =
    (let h = userHint ob len in
     if raddrs = [] then Panic
     else
       (case dialLoop env ob 0 (rotate_list (de_Random env (length raddrs)) raddrs) of Inl e \<Rightarrow> Err e
        | Inr (i, req, w) \<Rightarrow>
           (case userHeader ob header len of None \<Rightarrow> Panic
            | Some header \<Rightarrow>
               (if ob_Hint ob AND HINT_TFO \<noteq> 0 then
                  (case fastOpen env ob i req w of Ok w \<Rightarrow> runWire (sendTFO h header offset len) w | r \<Rightarrow> r)
                else if h AND HINT_OOB \<noteq> 0 then runWire (sendOOB ob h header offset len) w
                else if h AND HINT_TTL \<noteq> 0 then runWire (sendTTL env ob header offset len) w
                else if h AND HINT_TCPFRAG \<noteq> 0 then runWire (sendFrag env header offset len) w
                else
                  runWire (wBind (ProxyHandshake (de_Handshake env) ob False host port) (\<lambda>_. wWrite header)) w))))"

subsection \<open>What the server reads\<close>

text \<open>
  A server that does not read urgent data gets everything but the byte that is marked urgent:
  of several urgent bytes the last one, since a new mark replaces the one before it. Fake
  pages do not get there: they are sent with a short life, and again with the real contents.
\<close>

fun isUrgent :: "tcpSend \<Rightarrow> bool" where
  "isUrgent (Urgent d) = True"
| "isUrgent _ = False"

fun serverReads :: "tcpSend list \<Rightarrow> bytes" where
  "serverReads [] = []"
| "serverReads (Write d # s) = d @ serverReads s"
| "serverReads (Urgent d # s) = (if list_ex isUrgent s then d else butlast d) @ serverReads s"
| "serverReads (Spliced f r # s) = r @ serverReads s"
| "serverReads (_ # s) = serverReads s"

subsection \<open>What a computation sends\<close>

text \<open>It succeeds on a socket that takes enough, and does just these operations.\<close>

definition sends :: "unit wio \<Rightarrow> tcpSend list \<Rightarrow> bool" where
  "sends m ss \<longleftrightarrow> (\<forall>w. length ss \<le> tc_left (wr_conn w) \<longrightarrow>
    m w = (Ok (), w\<lparr>wr_conn := (wr_conn w)\<lparr>tc_left := tc_left (wr_conn w) - length ss\<rparr>, wr_log := wr_log w @ ss\<rparr>))"

named_theorems sending \<open>what the sending operations send\<close>

lemma sends_return [sending]: "sends (wReturn ()) []"
  by (simp add: sends_def wReturn_def)

lemma sends_op [sending]: "sends (wOp s) [s]"
  by (auto simp: sends_def wOp_def split: nat.split)

lemma sends_write [sending]: "sends (wWrite d) [Write d]"
  by (simp add: wWrite_def sending)

lemma sends_bind: "sends m ss \<Longrightarrow> sends (f ()) ss' \<Longrightarrow> sends (wBind m f) (ss @ ss')"
  by (auto simp: sends_def wBind_def diff_diff_left)

lemma sends_then: "sends m ss \<Longrightarrow> sends n ss' \<Longrightarrow> sends (wThen m n) (ss @ ss')"
  by (auto simp: sends_def wThen_def wCatch_def diff_diff_left)

lemma sends_when [sending]: "sends m ss \<Longrightarrow> sends (wWhen b m) (if b then ss else [])"
  by (simp add: wWhen_def sending)

lemma wTake_Some [simp]: "wBind (wTake (Some v)) f = f v"
  by (rule ext) (simp add: wTake_def wReturn_def wBind_def)

lemma sends_part: "i \<le> j \<Longrightarrow> j \<le> length b \<Longrightarrow> sends (f (take (j - i) (drop i b))) ss \<Longrightarrow> sends (part b i j f) ss"
  by (simp add: part_def slice_def)

lemma sends_part_rest: "i \<le> length b \<Longrightarrow> sends (f (drop i b)) ss \<Longrightarrow> sends (part b i (length b) f) ss"
  by (rule sends_part) simp_all

text \<open>The options around a send do not matter to the server.\<close>

definition withOptions :: "int \<Rightarrow> int \<Rightarrow> tcpSend list \<Rightarrow> tcpSend list" where
  "withOptions tos ttl ss = (if tos \<noteq> 0 then [SetTOS tos] else []) @ (if ttl \<noteq> 0 then [SetTTL ttl] else []) @ ss @
    (if tos \<noteq> 0 then [SetTOS 0] else []) @ (if ttl \<noteq> 0 then [SetTTL 64] else [])"

lemma withOptions_length: "length (withOptions tos ttl ss) \<le> length ss + 4"
  by (simp add: withOptions_def)

lemma sends_option_plain [sending]: "sends (SendWithOption d None tos ttl) (withOptions tos ttl [Write d])"
  unfolding SendWithOption_def withOptions_def option.case
  by (intro sends_bind sending)

lemma sends_option_one [sending]: "sends (SendWithOption d (Some [c]) tos ttl) (withOptions tos ttl [Urgent (d @ [c])])"
proof -
  have "sends (wBind (wOp (Urgent (d @ [c]))) (\<lambda>_. wWhen ([] \<noteq> []) (wOp (Urgent (take 1 []))))) ([Urgent (d @ [c])] @ [])"
    by (intro sends_bind sending) (simp add: wWhen_def sending)
  then show ?thesis
    unfolding SendWithOption_def withOptions_def option.case list.case
    by (intro sends_bind sending) simp_all
qed

lemma sends_option_two [sending]:
  "sends (SendWithOption d (Some [c, c']) tos ttl) (withOptions tos ttl [Urgent (d @ [c]), Urgent [c']])"
proof -
  have "sends (wBind (wOp (Urgent (d @ [c]))) (\<lambda>_. wWhen ([c'] \<noteq> []) (wOp (Urgent (take 1 [c']))))) ([Urgent (d @ [c])] @ [Urgent [c']])"
    by (intro sends_bind sending) (simp add: wWhen_def sending)
  then show ?thesis
    unfolding SendWithOption_def withOptions_def option.case list.case
    by (intro sends_bind sending) simp_all
qed

fun carriesData :: "tcpSend \<Rightarrow> bool" where
  "carriesData (SetTOS t) = False"
| "carriesData (SetTTL t) = False"
| "carriesData s = True"

lemma serverReads_data: "serverReads ss = serverReads (filter carriesData ss)"
proof -
  have u: "list_ex isUrgent ss = list_ex isUrgent (filter carriesData ss)" for ss
    by (induction ss rule: serverReads.induct) auto
  show ?thesis
    by (induction ss rule: serverReads.induct) (use u in \<open>auto\<close>)
qed

lemma filter_options [simp]: "filter carriesData (withOptions tos ttl ss) = filter carriesData ss"
  by (simp add: withOptions_def)

lemma serverReadsI: "filter carriesData ss = ds \<Longrightarrow> serverReads ds = b \<Longrightarrow> serverReads ss = b"
  using serverReads_data [of ss] by simp

subsection \<open>The first bytes arrive\<close>

text \<open>The place of a name of at least four letters, not at the beginning.\<close>

definition nameInside :: "bytes \<Rightarrow> nat \<Rightarrow> nat \<Rightarrow> bool" where
  "nameInside b offset len \<longleftrightarrow> 1 \<le> offset \<and> 4 \<le> len \<and> offset + len \<le> length b"

definition delivers :: "unit wio \<Rightarrow> bytes \<Rightarrow> bool" where
  "delivers m b \<longleftrightarrow> (\<exists>ss. sends m ss \<and> length ss \<le> 20 \<and> serverReads ss = b)"

lemma delivers_Nil: "delivers (wReturn ()) []"
  unfolding delivers_def by (intro exI [of _ "[]"]) (simp add: sending)

lemma name_split:
  assumes "nameInside b offset len"
  obtains x p c c' m r where "b = (x # p) @ c # c' # m @ r" "length (x # p) = offset" "length m = len div 2 - 2"
proof -
  have n: "1 \<le> offset" "offset + len \<le> length b" "4 \<le> len"
    using assms by (auto simp: nameInside_def)
  obtain x p where p: "take offset b = x # p"
    using n by (cases "take offset b") auto
  obtain c c' d where d: "drop offset b = c # c' # d"
    using n by (cases "drop offset b"; cases "tl (drop offset b)") (auto dest: arg_cong [of _ _ length])
  have "b = (x # p) @ c # c' # take (len div 2 - 2) d @ drop (len div 2 - 2) d"
    using append_take_drop_id [of offset b] unfolding p d by simp
  moreover have "length (x # p) = offset"
    using arg_cong [OF p, of length] n by simp
  moreover have "length (take (len div 2 - 2) d) = len div 2 - 2"
    using arg_cong [OF d, of length] n by simp
  ultimately show ?thesis
    using that by blast
qed

lemma sendOOB_delivers:
  assumes "nameInside b offset len"
  shows "delivers (sendOOB ob h b offset len) b"
proof -
  obtain x p c c' m r where b: "b = (x # p) @ c # c' # m @ r" "length (x # p) = offset" "length m = len div 2 - 2"
    by (rule name_split [OF assms])
  have len: "len div 2 = length m + 2"
    using assms b(3) by (auto simp: nameInside_def)
  have off: "offset = Suc (length p)"
    using b(2) by simp
  let ?ttl = "withOptions 0 (int (ob_TTL ob)) [Urgent ((x # p) @ [c]), Urgent [c']] @ withOptions 0 64 [Urgent (m @ [0])] @ [Write r]"
  let ?frag = "[Write [x]] @ withOptions 0 0 [Urgent (p @ [c]), Urgent [0]] @ [Write (c' # m @ r)]"
  have ttl: "sends (sendOOB ob h b offset len) ?ttl" if "h AND HINT_TTL \<noteq> 0"
    unfolding sendOOB_def if_P [OF that] b(1) len off
    by (intro sends_part sends_then sends_bind) (use sends_option_two [of "x # p" c c'] in \<open>simp_all add: sending\<close>)
  have frag: "sends (sendOOB ob h b offset len) ?frag" if "h AND HINT_TTL = 0" "h AND HINT_TCPFRAG \<noteq> 0"
    unfolding sendOOB_def if_not_P [OF not_not [THEN iffD2, OF that(1)]] if_P [OF that(2)] b(1) len off
    by (intro sends_part sends_then sends_bind) (simp_all add: sending)
  obtain y d where xy: "b = x # y # d"
    by (cases "p @ c # c' # m @ r") (use b(1) in auto)
  let ?plain = "withOptions 0 0 [Urgent [x, y], Urgent [0]] @ [Write d]"
  have plain: "sends (sendOOB ob h b offset len) ?plain" if "h AND HINT_TTL = 0" "h AND HINT_TCPFRAG = 0"
    unfolding sendOOB_def if_not_P [OF not_not [THEN iffD2, OF that(1)]] if_not_P [OF not_not [THEN iffD2, OF that(2)]] xy
    by (intro sends_part sends_then sends_bind) (use sends_option_two [of "[x]" y 0] in \<open>simp_all add: sending\<close>)
  have "serverReads ?ttl = b" "serverReads ?frag = b"
    by (rule serverReadsI, simp, simp add: b(1))+
  moreover have "serverReads ?plain = b"
    by (rule serverReadsI, simp, simp add: xy)
  moreover have "length ?ttl \<le> 20" "length ?frag \<le> 20" "length ?plain \<le> 20"
    by (simp_all add: withOptions_def)
  ultimately show ?thesis
    unfolding delivers_def using ttl frag plain by metis
qed

lemma sendFrag_delivers:
  assumes "nameInside b offset len"
  shows "delivers (sendFrag env b offset len) b"
proof -
  let ?cut = "offset + len div 2" and ?o = "\<lambda>i. withOptions (de_Int env i) 0"
  have n: "?cut \<le> length b" "4 \<le> length b"
    using assms by (auto simp: nameInside_def)
  let ?first = "?o 0 [Write (take 1 b)] @ ?o 1 [Write (take 3 (drop 1 b))]"
  let ?rest = "\<lambda>i. ?o 2 [Write (take (?cut - i) (drop i b))] @ ?o 3 [Write (drop ?cut b)]"
  have first: "sends (part b 0 1 (\<lambda>b'. wBind (SendWithOption b' None (de_Int env 0) 0) (\<lambda>_. part b 1 4 (\<lambda>b'. SendWithOption b' None (de_Int env 1) 0)))) ?first"
    by (intro sends_part sends_bind) (use n in \<open>simp_all add: sending\<close>)
  have rest: "sends (part b i ?cut (\<lambda>b'. wBind (SendWithOption b' None (de_Int env 2) 0) (\<lambda>_.
      part b ?cut (length b) (\<lambda>b'. SendWithOption b' None (de_Int env 3) 0)))) (?rest i)" if "i \<le> ?cut" for i
    by (intro sends_part sends_bind) (use n that in \<open>simp_all add: sending\<close>)
  have long: "sends (sendFrag env b offset len) (?first @ ?rest 4)" if "?cut > 4"
    unfolding sendFrag_def Let_def if_P [OF that] by (rule sends_bind [OF first rest]) (use that in simp)
  have short: "sends (sendFrag env b offset len) ([] @ ?rest 0)" if "\<not> ?cut > 4"
    unfolding sendFrag_def Let_def if_not_P [OF that] by (rule sends_bind [OF sends_return rest]) simp
  have eq: "take 1 b @ take 3 (drop 1 b) @ take (?cut - 4) (drop 4 b) @ drop ?cut b = b" if "?cut > 4"
  proof -
    have "take 1 b @ take 3 (drop 1 b) = take 4 b"
      using take_add [of 1 3 b] by simp
    moreover have "take 4 b @ take (?cut - 4) (drop 4 b) = take ?cut b"
      using take_add [of 4 "?cut - 4" b] that by simp
    ultimately show ?thesis
      by (metis append_assoc append_take_drop_id)
  qed
  have "serverReads (?first @ ?rest 4) = take 1 b @ take 3 (drop 1 b) @ take (?cut - 4) (drop 4 b) @ drop ?cut b"
    by (rule serverReadsI, simp, simp)
  then have "serverReads (?first @ ?rest 4) = b" if "?cut > 4"
    by (simp only: eq [OF that])
  moreover have "serverReads ([] @ ?rest 0) = b"
    by (rule serverReadsI, simp, simp)
  moreover have "length (?first @ ?rest 4) \<le> 20" "length ([] @ ?rest 0) \<le> 20"
    by (simp_all add: withOptions_def)
  ultimately show ?thesis
    unfolding delivers_def using long short by (cases "?cut > 4") blast+
qed

lemma GetFakePayload_length: "GetFakePayload env h b offset len = Some (f, k) \<Longrightarrow> length f = length b"
  by (auto simp: GetFakePayload_def fakeName_def Let_def split: if_splits)

lemma GetFakePayload_inside: "nameInside b offset len \<Longrightarrow> GetFakePayload env h b offset len \<noteq> None"
  by (auto simp: GetFakePayload_def nameInside_def Let_def)

lemma sends_fake:
  assumes "length f \<le> length r"
  shows "sends (SendWithFakePayload ob f r) ((if ob_Hint ob AND HINT_TTL \<noteq> 0 then [SetTTL (int (ob_TTL ob))] else []) @
    [Spliced f (take (length f) r)] @ (if ob_Hint ob AND HINT_TTL \<noteq> 0 then [SetTTL 64] else []))"
proof -
  have "slice r 0 (length f) = Some (take (length f) r)"
    using assms by (simp add: slice_def)
  then show ?thesis
    unfolding SendWithFakePayload_def by (simp only: wTake_Some) (intro sends_bind sending)
qed

lemma sendTTL_delivers:
  assumes "nameInside b offset len"
  shows "delivers (sendTTL env ob b offset len) b"
proof -
  obtain f k where g: "GetFakePayload env (ob_Hint ob) b offset len = Some (f, k)" "length f = length b"
    using GetFakePayload_inside [OF assms] GetFakePayload_length by (metis not_Some_eq surj_pair)
  let ?n = "min (length f) k" and ?t = "\<lambda>t. if ob_Hint ob AND HINT_TTL \<noteq> 0 then [SetTTL t] else []"
  let ?ss = "?t (int (ob_TTL ob)) @ [Spliced (take ?n f) (take ?n b)] @ ?t 64"
  have fake: "sends (SendWithFakePayload ob (take ?n f) (take ?n b)) ?ss"
    using sends_fake [of "take ?n f" "take ?n b" ob] g(2) by (simp add: min.absorb1 min.commute)
  have "sends (part f 0 ?n (\<lambda>f'. part b 0 ?n (\<lambda>r. wBind (SendWithFakePayload ob f' r)
      (\<lambda>_. wWhen (?n < length b) (wWrite (drop ?n b)))))) (?ss @ (if ?n < length b then [Write (drop ?n b)] else []))"
    by (intro sends_part sends_bind sends_when sends_write) (use g(2) fake in simp_all)
  then have "sends (sendTTL env ob b offset len) (?ss @ (if ?n < length b then [Write (drop ?n b)] else []))"
    unfolding sendTTL_def g(1) wTake_Some split Let_def .
  moreover have "serverReads (?ss @ (if ?n < length b then [Write (drop ?n b)] else [])) = b"
    by (rule serverReadsI [OF refl]) (use g(2) in auto)
  ultimately show ?thesis
    unfolding delivers_def by (intro exI conjI) auto
qed

lemma sendTFO_delivers:
  assumes "h = 0 \<or> nameInside b offset len"
  shows "delivers (sendTFO h b offset len) b"
proof -
  let ?n = "min 1220 (if h AND HINT_TCPFRAG \<noteq> 0 then offset + len div 2 else length b)"
  let ?ss = "[Write (take ?n b)] @ (if ?n < length b then [Write (drop ?n b)] else [])"
  have n: "?n \<le> length b"
    using assms by (auto simp: nameInside_def)
  have "sends (part b 0 ?n (\<lambda>b'. wBind (wWrite b') (\<lambda>_. wWhen (?n < length b) (wWrite (drop ?n b))))) ?ss"
    by (intro sends_part sends_bind sends_when sends_write) (use n sends_write [of "take ?n b"] in simp_all)
  then have "sends (sendTFO h b offset len) ?ss"
    unfolding sendTFO_def Let_def .
  moreover have "serverReads ?ss = b"
    using n by (cases "?n < length b") simp_all
  ultimately show ?thesis
    unfolding delivers_def by (intro exI conjI) auto
qed

lemma delivers_write: "delivers (wWrite b) b"
  unfolding delivers_def by (intro exI [of _ "[Write b]"]) (simp add: sending)

lemma delivers_run:
  assumes "delivers m b" "wr_log w = []" "20 \<le> tc_left (wr_conn w)"
  shows "\<exists>w'. runWire m w = Ok w' \<and> serverReads (wr_log w') = b \<and> tc_in (wr_conn w') = tc_in (wr_conn w) \<and> wr_syn w' = wr_syn w"
  using assms by (auto simp: delivers_def sends_def runWire_def)

definition asksNothing :: "outbound \<Rightarrow> bool" where
  "asksNothing ob \<longleftrightarrow> (case ob_Protocol ob of HTTP \<Rightarrow> False | HTTPS \<Rightarrow> False | SOCKS4 \<Rightarrow> False | SOCKS5 \<Rightarrow> False | _ \<Rightarrow> True)"

lemma ProxyHandshake_direct: "asksNothing ob \<Longrightarrow> ProxyHandshake env ob False host port = wReturn ()"
  by (cases "ob_Protocol ob") (auto simp: asksNothing_def ProxyHandshake_def wBind_def wReturn_def wWhen_def)

lemma userHeader_length: "userHeader ob b len = Some b' \<Longrightarrow> length b' = length b"
  by (auto simp: userHeader_def set8_def split: if_splits)

lemma userHeader_inside: "len = 0 \<or> nameInside b offset len \<Longrightarrow> \<exists>b'. userHeader ob b len = Some b'"
  by (auto simp: userHeader_def userHint_def set8_def nameInside_def)

lemma dialUser_sends:
  assumes "raddrs \<noteq> []" and "dialLoop env ob 0 (rotate_list (de_Random env (length raddrs)) raddrs) = Inr (i, req, w)"
    and "wr_log w = []" "20 \<le> tc_left (wr_conn w)" and "asksNothing ob"
    and "len = 0 \<or> nameInside header offset len"
    and "ob_Hint ob AND HINT_TFO \<noteq> 0 \<Longrightarrow> \<exists>s. de_State env i = Some s \<and> s \<noteq> 1"
  shows "\<exists>w'. dialUser env ob host port header offset len raddrs = Ok w'
    \<and> Some (serverReads (wr_log w')) = userHeader ob header len
    \<and> tc_in (wr_conn w') = tc_in (wr_conn w) \<and> wr_syn w' = wr_syn w"
proof -
  obtain b where b: "userHeader ob header len = Some b"
    using userHeader_inside [OF assms(6)] by blast
  have inside: "nameInside b offset len" if "len \<noteq> 0"
    using that assms(6) userHeader_length [OF b] by (simp add: nameInside_def)
  have h: "userHint ob len = 0 \<or> nameInside b offset len"
    using inside by (auto simp: userHint_def)
  note sent = sendTFO_delivers [OF h, THEN delivers_run [OF _ assms(3,4)]]
    sendOOB_delivers [THEN delivers_run [OF _ assms(3,4)]] sendTTL_delivers [THEN delivers_run [OF _ assms(3,4)]]
    sendFrag_delivers [THEN delivers_run [OF _ assms(3,4)]]
  have plain: "\<exists>w'. runWire (wBind (ProxyHandshake (de_Handshake env) ob False host port) (\<lambda>_. wWrite b)) w = Ok w'
      \<and> serverReads (wr_log w') = b \<and> tc_in (wr_conn w') = tc_in (wr_conn w) \<and> wr_syn w' = wr_syn w"
    using delivers_run [OF delivers_write [of b] assms(3,4)]
    by (simp add: ProxyHandshake_direct [OF assms(5)] wBind_def wReturn_def runWire_def)
  have "fastOpen env ob i req w = Ok w" if "ob_Hint ob AND HINT_TFO \<noteq> 0"
    using assms(7) [OF that] by (auto simp: fastOpen_def)
  then have "\<exists>w'. dialUser env ob host port header offset len raddrs = Ok w'
      \<and> serverReads (wr_log w') = b \<and> tc_in (wr_conn w') = tc_in (wr_conn w) \<and> wr_syn w' = wr_syn w"
    using assms(1,2) b sent plain h by (auto simp: dialUser_def Let_def)
  with b show ?thesis
    by auto
qed

text \<open>C9: The first bytes of a client arrive as they are, whatever the hints of the outbound do to
  them: urgent bytes, fake pages, fragments of a record, Fast Open. Only \<open>tls1.3\<close> changes one.
\<close>
theorem dialUser_delivers:
  assumes "raddrs \<noteq> []" and "dialLoop env ob 0 (rotate_list (de_Random env (length raddrs)) raddrs) = Inr (i, req, w)"
    and "wr_log w = []" "20 \<le> tc_left (wr_conn w)" and "asksNothing ob"
    and "len = 0 \<or> nameInside header offset len"
    and "ob_Hint ob AND HINT_TFO \<noteq> 0 \<Longrightarrow> \<exists>s. de_State env i = Some s \<and> s \<noteq> 1"
  shows "\<exists>w'. dialUser env ob host port header offset len raddrs = Ok w'
    \<and> Some (serverReads (wr_log w')) = userHeader ob header len"
  using dialUser_sends [OF assms] by blast

definition fragOutbound :: outbound where
  "fragOutbound = Outbound [] [] (HINT_IPV4 OR HINT_OOB OR HINT_TTL) 0 8 0 DIRECT [] [] 65535 None"

definition sampleDial :: dialEnv where
  "sampleDial = \<lparr>de_Interfaces = (\<lambda>_. None),
     de_Dial = (\<lambda>i req. if dr_Remote req = ([10, 0, 0, 1], 443) then Inl NormalError
       else Inr \<lparr>wr_conn = \<lparr>tc_in = [], tc_out = [], tc_left = 40\<rparr>, wr_log = [], wr_syn = None\<rparr>),
     de_State = (\<lambda>_. Some 2), de_Random = (\<lambda>_. 0), de_Int = (\<lambda>_. 7), de_Bytes = (\<lambda>_. []), de_Delayed = (\<lambda>_. False),
     de_Handshake = sampleHandshakeEnv, de_Passive = False\<rparr>"

theorem dialUser_delivers_witness:
  "\<exists>w'. dialUser sampleDial fragOutbound [97, 46, 98] 443 [22, 3, 1, 0, 7, 97, 97, 46, 98, 98, 0] 5 5 [([10, 0, 0, 1], 443), ([10, 0, 0, 2], 443)] = Ok w'
    \<and> Some (serverReads (wr_log w')) = userHeader fragOutbound [22, 3, 1, 0, 7, 97, 97, 46, 98, 98, 0] 5"
  by (rule dialUser_delivers)
    (auto simp: sampleDial_def fragOutbound_def rotate_list_def localAddr_def userRequest_def asksNothing_def nameInside_def)

end
