(* ===== verification/Tcp_Root.thy ===== *)
theory Tcp_Root
  imports Tcp_Dial
begin

text \<open>
  Dialling through an outbound in the builds that send packets of their own (\<open>dial\<close> of
  \<open>phantomtcp/tcp_root.go\<close>): fake segments that the server drops but a watcher on the way
  does not, before and between the real ones; with \<open>reverse\<close> the second half of the real data
  goes in packets of its own, ahead of the first.
\<close>

unbundle bit_operations_syntax

subsection \<open>The connections waited for\<close>

text \<open>\<open>AddConn\<close> and \<open>DelConn\<close>: how many connections to an address wait for their SYN packet.\<close>

record synInfo =
  syn_Number :: nat
  syn_Hint :: hint

definition AddConn :: "gostr \<Rightarrow> hint \<Rightarrow> (gostr \<rightharpoonup> synInfo) \<Rightarrow> (gostr \<rightharpoonup> synInfo)" where
  "AddConn a h m =
    (case m a of Some info \<Rightarrow> m(a \<mapsto> \<lparr>syn_Number = u32 (syn_Number info + 1), syn_Hint = h\<rparr>)
     | None \<Rightarrow> m(a \<mapsto> \<lparr>syn_Number = 1, syn_Hint = h\<rparr>))"

definition DelConn :: "gostr \<Rightarrow> (gostr \<rightharpoonup> synInfo) \<Rightarrow> (gostr \<rightharpoonup> synInfo)" where
  "DelConn a m =
    (case m a of Some info \<Rightarrow>
        (if syn_Number info > 1 then m(a \<mapsto> info\<lparr>syn_Number := syn_Number info - 1\<rparr>) else m(a := None))
     | None \<Rightarrow> m)"

subsection \<open>Outbounds without fakes\<close>

text \<open>An error that the code looks at later.\<close>

definition wTry :: "unit wio \<Rightarrow> (error option \<Rightarrow> 'a wio) \<Rightarrow> 'a wio" where
  "wTry m f = wCatch m (\<lambda>e. f (Some e)) (\<lambda>_. f None)"

definition wCheck :: "error option \<Rightarrow> unit wio" where
  "wCheck e = (case e of Some e \<Rightarrow> wError e | None \<Rightarrow> wReturn ())"

definition nearFrag :: "hint \<Rightarrow> bytes \<Rightarrow> (error option \<Rightarrow> nat \<Rightarrow> unit wio) \<Rightarrow> unit wio" where
  "nearFrag h b f =
    (if h AND HINT_TCPFRAG \<noteq> 0 then
       part b 0 1 (\<lambda>x. wTry (wWrite x) (\<lambda>e.
       if e \<noteq> None then f e 0
       else if h AND HINT_OOB \<noteq> 0 then
         part b 1 3 (\<lambda>x. part b 3 4 (\<lambda>oob. wTry (SendWithOption x (Some oob) 0 0) (\<lambda>e. f e 4)))
       else part b 1 4 (\<lambda>x. wTry (wWrite x) (\<lambda>e. f e 4))))
     else f None 0)"

definition sendNear :: "hint \<Rightarrow> bytes \<Rightarrow> nat \<Rightarrow> nat \<Rightarrow> unit wio" where
  "sendNear h b offset len =
    (let rest = (\<lambda>e seg. wBind (wCheck e) (\<lambda>_. part b seg (length b) wWrite));
         mid = offset + len div 2
     in if mid > 4 then
          nearFrag h b (\<lambda>e seg.
          if h AND HINT_OOB \<noteq> 0 then
            part b seg mid (\<lambda>x. wTry (SendWithOption x (Some [0]) 0 0) (\<lambda>e. rest e mid))
          else rest e seg)
        else rest None 0)"

text \<open>
  The data is not sent on the connection that the handshake made but on the one below it: under
  the TLS of an HTTPS proxy. A nil header is not sent; an empty one would send nothing.
\<close>

definition wBelow :: "outbound \<Rightarrow> unit wio" where
  "wBelow ob w = (Ok (), if ob_Protocol ob = HTTPS then w\<lparr>wr_log := wr_log w @ [BelowTLS]\<rparr> else w)"

definition nearRequest :: "outbound \<Rightarrow> bytes option \<Rightarrow> bytes \<times> int \<Rightarrow> dialRequest" where
  "nearRequest ob laddr raddr =
    \<lparr>dr_Local = laddr, dr_Remote = raddr, dr_TTL = 0, dr_MSS = 0, dr_TFO = (ob_Hint ob AND HINT_TFO \<noteq> 0),
     dr_KeepAlive = (ob_Hint ob AND HINT_KEEPALIVE \<noteq> 0), dr_Timeout = 1000, dr_Payload = []\<rparr>"

definition nearConnect :: "dialEnv \<Rightarrow> outbound \<Rightarrow> dialRequest \<Rightarrow> wire outcome" where
  "nearConnect env ob req =
    (case de_Dial env 0 req of Inl _ \<Rightarrow> Err ''dial''
     | Inr w \<Rightarrow>
        (if ob_Hint ob AND HINT_TFO \<noteq> 0 \<and> de_Delayed env 0 then
           (if de_Delayed env 1 then Err ''tcp fastopen failed''
            else (case de_Dial env 1 req of Inl _ \<Rightarrow> Err ''dial'' | Inr w \<Rightarrow> Ok w))
         else Ok w))"

definition dialNear :: "dialEnv \<Rightarrow> outbound \<Rightarrow> gostr \<Rightarrow> int \<Rightarrow> bytes \<Rightarrow> nat \<Rightarrow> nat \<Rightarrow> bytes \<times> int \<Rightarrow> wire outcome" where
  "dialNear env ob host port b offset len raddr =
    (case localAddr env (ob_Device ob) (fst raddr) of Inl e \<Rightarrow> Err e
     | Inr laddr \<Rightarrow>
        (case nearConnect env ob (nearRequest ob laddr raddr) of
           Ok w \<Rightarrow>
             runWire (wBind (ProxyHandshake (de_Handshake env) ob False host port) (\<lambda>_.
               wWhen (b \<noteq> []) (wBind (wBelow ob) (\<lambda>_. sendNear (ob_Hint ob) b offset len)))) w
         | r \<Rightarrow> r))"

subsection \<open>The passive mode\<close>

text \<open>
  \<open>SendWithOption\<close> wants a TCP connection and panics at a TLS one; its error is not reported.
  A nil connection that is to be closed panics.
\<close>

definition sendPassive :: "outbound \<Rightarrow> bytes \<Rightarrow> nat \<Rightarrow> nat \<Rightarrow> unit wio" where
  "sendPassive ob b offset len =
    (if len > 0 then
       (let mid = offset + len div 2;
            tos = (if ob_Hint ob AND HINT_TTL \<noteq> 0 then int (ob_TTL ob) * 4 else 4)
        in part b 0 mid (\<lambda>x.
           if ob_Protocol ob = HTTPS then wPanic
           else wTry (SendWithOption x None tos 1) (\<lambda>e.
             if e = None then part b mid (length b) wWrite else wReturn ())))
     else wWrite b)"

definition handshakeThen :: "dialEnv \<Rightarrow> outbound \<Rightarrow> bool \<Rightarrow> gostr \<Rightarrow> int \<Rightarrow> unit wio \<Rightarrow> unit wio" where
  "handshakeThen env ob syn host port m =
    wCatch (ProxyHandshake (de_Handshake env) ob syn host port)
      (\<lambda>e. if handshakeNil ob e then wPanic else wError e) (\<lambda>_. m)"

definition passiveRequest :: "bytes option \<Rightarrow> bytes \<times> int \<Rightarrow> dialRequest" where
  "passiveRequest laddr raddr =
    \<lparr>dr_Local = laddr, dr_Remote = raddr, dr_TTL = 0, dr_MSS = 0, dr_TFO = False, dr_KeepAlive = False,
     dr_Timeout = 0, dr_Payload = []\<rparr>"

definition dialPassive :: "dialEnv \<Rightarrow> outbound \<Rightarrow> gostr \<Rightarrow> int \<Rightarrow> bytes \<Rightarrow> nat \<Rightarrow> nat \<Rightarrow> bytes \<times> int \<Rightarrow> wire outcome" where
  "dialPassive env ob host port b offset len raddr =
    (case localAddr env (ob_Device ob) (fst raddr) of Inl e \<Rightarrow> Err e
     | Inr laddr \<Rightarrow>
        (case de_Dial env 0 (passiveRequest laddr raddr) of Inl _ \<Rightarrow> Err ''dial''
         | Inr w \<Rightarrow>
             runWire (handshakeThen env ob False host port (wWhen (b \<noteq> []) (sendPassive ob b offset len))) w))"

subsection \<open>Fakes\<close>

text \<open>
  \<open>send_magic_packet\<close>: a payload in segments of 1220 bytes; the sequence number of the
  connection is put back afterwards.
\<close>

function magicLoop :: "bytes \<Rightarrow> hint \<Rightarrow> nat \<Rightarrow> nat \<Rightarrow> unit wio" where
  "magicLoop payload h ttl count =
    (if length payload > 1220 then
       wBind (ModifyAndSendPacket (take 1220 payload) h ttl count) (\<lambda>_.
       wBind (AddTCPSeq 1220) (\<lambda>_. magicLoop (drop 1220 payload) h ttl count))
     else ModifyAndSendPacket payload h ttl count)"
  by pat_completeness auto
termination
  by (relation "measure (\<lambda>(payload, _). length payload)") auto

declare magicLoop.simps [simp del]

definition sendMagic :: "bytes \<Rightarrow> hint \<Rightarrow> nat \<Rightarrow> nat \<Rightarrow> unit wio" where
  "sendMagic payload h ttl count w =
    wBind (magicLoop payload h ttl count)
      (\<lambda>_ w'. (Ok (), w'\<lparr>wr_syn := map_option (\<lambda>i. i\<lparr>ci_Seq := (case wr_syn w of Some i \<Rightarrow> ci_Seq i | None \<Rightarrow> 0)\<rparr>) (wr_syn w')\<rparr>)) w"

text \<open>The fake payload and the place where the real one is cut; without a name all of it is random.\<close>

definition fakeHint :: "outbound \<Rightarrow> nat \<Rightarrow> hint" where
  "fakeHint ob offset = (if offset = 0 then ob_Hint ob OR HINT_RAND else ob_Hint ob)"

definition fakeData :: "dialEnv \<Rightarrow> hint \<Rightarrow> bytes \<Rightarrow> nat \<Rightarrow> nat \<Rightarrow> (bytes \<times> nat) option" where
  "fakeData env h b offset len =
    (if h AND HINT_TFO \<noteq> 0 then
       (if h AND HINT_TCPFRAG \<noteq> 0 \<and> offset + len div 2 > length b then None else Some (b, offset + len div 2))
     else if h AND HINT_RAND \<noteq> 0 then Some (take (length b) (de_Bytes env (length b) @ b), offset + len div 2)
     else if offset + len > length b then None
     else Some (fakeName (de_Random env) b offset len, dotCut b offset len))"

definition tfoPayload :: "hint \<Rightarrow> bytes \<Rightarrow> nat \<Rightarrow> bytes" where
  "tfoPayload h b mid = (if h AND HINT_TFO = 0 then [] else if h AND HINT_TCPFRAG \<noteq> 0 then take mid b else b)"

definition fakeRequest :: "outbound \<Rightarrow> bytes option \<Rightarrow> bytes \<times> int \<Rightarrow> bytes \<Rightarrow> dialRequest" where
  "fakeRequest ob laddr raddr payload =
    \<lparr>dr_Local = laddr, dr_Remote = raddr, dr_TTL = ob_MaxTTL ob, dr_MSS = ob_MTU ob, dr_TFO = (ob_Hint ob AND HINT_TFO \<noteq> 0),
     dr_KeepAlive = (ob_Hint ob AND HINT_KEEPALIVE \<noteq> 0), dr_Timeout = ob_Timeout ob, dr_Payload = payload\<rparr>"

text \<open>The addresses in order; a connection whose SYN packet was not seen is no use.\<close>

fun fakeLoop :: "dialEnv \<Rightarrow> outbound \<Rightarrow> bytes \<Rightarrow> nat \<Rightarrow> (bytes \<times> int) list \<Rightarrow> error + wire" where
  "fakeLoop env ob payload i [] = Inl ''connection does not exist''"
| "fakeLoop env ob payload i (raddr # raddrs) =
    (case localAddr env (ob_Device ob) (fst raddr) of Inl _ \<Rightarrow> Inl ''invalid device''
     | Inr laddr \<Rightarrow>
        (case de_Dial env i (fakeRequest ob laddr raddr payload) of
           Inr w \<Rightarrow> (if wr_syn w = None then Inl ''connection does not exist'' else Inr w)
         | Inl HardError \<Rightarrow> Inl ''dial''
         | Inl NormalError \<Rightarrow> fakeLoop env ob payload (i + 1) raddrs))"

definition sendHalves :: "outbound \<Rightarrow> hint \<Rightarrow> bytes \<Rightarrow> bytes \<Rightarrow> nat \<Rightarrow> nat \<Rightarrow> unit wio" where
  "sendHalves ob h b fake mid seg =
    (if h AND HINT_REVERSE \<noteq> 0 then
       wBind (AddTCPSeq mid) (\<lambda>_.
       part b mid (length b) (\<lambda>x. wBind (sendMagic x HINT_NONE 64 1) (\<lambda>_.
       part b seg mid (\<lambda>x. wBind (wWrite x) (\<lambda>_.
       part fake mid (length fake) (\<lambda>x. wBind (wWrite x) (\<lambda>_.
       AddTCPSeq (length b - mid))))))))
     else
       part b seg mid (\<lambda>x. wBind (wWrite x) (\<lambda>_.
       wBind (sendMagic fake h (ob_TTL ob) 1) (\<lambda>_.
       part b mid (length b) (\<lambda>x. wBind (wWrite x) (\<lambda>_.
       AddTCPSeq (length b)))))))"

definition sendFakes :: "dialEnv \<Rightarrow> outbound \<Rightarrow> hint \<Rightarrow> bytes \<Rightarrow> bytes \<Rightarrow> nat \<Rightarrow> unit wio" where
  "sendFakes env ob h b fake mid =
    (let frag = (h AND HINT_TCPFRAG \<noteq> 0 \<and> mid > 4) in
     wBind (sendMagic fake h (ob_TTL ob) 1) (\<lambda>_.
     wBind (wWhen frag (part b 0 1 (\<lambda>x. wBind (wWrite x) (\<lambda>_. part b 1 4 wWrite)))) (\<lambda>_.
     wBind (sendHalves ob h b fake mid (if frag then 4 else 0)) (\<lambda>_.
     wWhen (h AND HINT_SAT \<noteq> 0)
       (sendMagic (take (length fake) (de_Bytes env (length fake + 1) @ fake)) h (ob_TTL ob) 2)))))"

definition sendAfterSyn :: "hint \<Rightarrow> bytes \<Rightarrow> nat \<Rightarrow> unit wio" where
  "sendAfterSyn h b mid =
    wBind (wWhen (h AND HINT_TCPFRAG \<noteq> 0) (part b mid (length b) wWrite)) (\<lambda>_. AddTCPSeq (length b))"

definition dialFake :: "dialEnv \<Rightarrow> outbound \<Rightarrow> gostr \<Rightarrow> int \<Rightarrow> bytes \<Rightarrow> nat \<Rightarrow> nat \<Rightarrow> (bytes \<times> int) list \<Rightarrow> wire outcome" where
  "dialFake env ob host port b offset len raddrs =
    (let h = fakeHint ob offset in
     case fakeData env h b offset (if offset = 0 then length b else len) of None \<Rightarrow> Panic
     | Some (fake, mid) \<Rightarrow>
        (case fakeLoop env ob (tfoPayload h b mid) 0 raddrs of Inl e \<Rightarrow> Err e
         | Inr w \<Rightarrow>
             runWire (wBind (AddTCPSeq 1) (\<lambda>_.
               handshakeThen env ob True host port
                 (if ob_Protocol ob = HTTPS then wThen (wWrite b) (wReturn ())
                  else if h AND HINT_TFO \<noteq> 0 then sendAfterSyn h b mid
                  else sendFakes env ob h b fake mid))) w))"

definition dialRoot :: "dialEnv \<Rightarrow> outbound \<Rightarrow> gostr \<Rightarrow> int \<Rightarrow> bytes \<Rightarrow> nat \<Rightarrow> nat \<Rightarrow> (bytes \<times> int) list \<Rightarrow> wire outcome" where
  "dialRoot env ob host port b offset len raddrs =
    (let raddr = raddrs ! (de_Random env (length raddrs) mod length raddrs) in
     if ob_Hint ob AND HINT_FAKE = 0 then
       (if raddrs = [] then Panic else dialNear env ob host port b offset len raddr)
     else if de_Passive env then
       (if raddrs = [] then Panic else dialPassive env ob host port b offset len raddr)
     else dialFake env ob host port b offset len raddrs)"

end
