(* ===== verification/Tcp_Redirect.thy ===== *)
theory Tcp_Redirect
  imports Tcp_Root Tls_Hello
begin

text \<open>
  What becomes of a client's TCP connection (\<open>tcp_redirect\<close>, \<open>GetHeader\<close>, \<open>SNIProxy\<close> and
  \<open>RedirectTCP\<close> of \<open>phantomtcp/proxy.go\<close>, \<open>TProxyTCP\<close> of \<open>phantomtcp/tcp_linux.go\<close>): the
  outbound its address, name or TLS hello leads to, the attempts to dial it, and the relay,
  the redirection or the end that comes of them.
\<close>

unbundle bit_operations_syntax

subsection \<open>The first bytes\<close>

text \<open>\<open>GetHeader\<close>: one read, or for a TLS hello as many as its record is long.\<close>

function headerLoop :: "nat \<Rightarrow> bytes \<Rightarrow> tcpConn \<Rightarrow> bytes \<times> error option \<times> tcpConn" where
  "headerLoop headerLen got conn =
    (if headerLen > length got then
       (case connRead (headerLen - length got) (tc_in conn) of None \<Rightarrow> (got, Some ''EOF'', conn)
        | Some (d, rest) \<Rightarrow>
            (if d = [] then (got, None, conn\<lparr>tc_in := rest\<rparr>)
             else headerLoop headerLen (got @ d) (conn\<lparr>tc_in := rest\<rparr>)))
     else (got, None, conn))"
  by pat_completeness auto
termination
  by (relation "measure (\<lambda>(headerLen, got, _). headerLen - length got)")
    (auto simp: length_greater_0_conv [symmetric] simp del: length_greater_0_conv)

declare headerLoop.simps [simp del]

definition GetHeader :: "tcpConn \<Rightarrow> bytes option \<times> error option \<times> tcpConn" where
  "GetHeader conn =
    (case connRead 1460 (tc_in conn) of None \<Rightarrow> (None, Some ''EOF'', conn)
     | Some (d, rest) \<Rightarrow>
        (let conn = conn\<lparr>tc_in := rest\<rparr> in
         if d = [] then (None, None, conn)
         else if d ! 0 = 0x16 then
           (let (h, e, conn) = headerLoop (GetHelloLength d + 5) d conn in (Some h, e, conn))
         else (Some d, None, conn)))"

subsection \<open>The environment\<close>

text \<open>
  \<open>re_Dial\<close> is \<open>dial\<close> of the build, given the number of the attempt: it may use the name
  service and change the header, which it shares with the caller. \<open>re_TLS\<close> is \<open>tls.Dial\<close> with a
  server name, \<open>re_Direct\<close> is \<open>net.Dial\<close>.
\<close>

type_synonym dialer =
  "nat \<Rightarrow> outbound \<Rightarrow> gostr \<Rightarrow> int \<Rightarrow> bytes \<Rightarrow> nat \<Rightarrow> nat \<Rightarrow> dnsState \<Rightarrow> dnsState \<times> bytes \<times> wire outcome"

record redirectEnv =
  re_Dns :: dnsEnv
  re_Dial :: dialer
  re_TLS :: "gostr \<Rightarrow> gostr \<Rightarrow> wire option"
  re_Direct :: "gostr \<Rightarrow> wire option"
  re_Pick :: "nat \<Rightarrow> nat"

text \<open>The client, the name service, and the outbounds dialled so far.\<close>

record redirectState =
  rs_Client :: tcpConn
  rs_Dns :: dnsState
  rs_Attempts :: "outbound list"

datatype redirectEnd = Closed | Crashed | Relayed wire | Kept wire

definition clientWrite :: "bytes \<Rightarrow> redirectState \<Rightarrow> bool \<times> redirectState" where
  "clientWrite d st = (case connWrite d (rs_Client st) of (r, client) \<Rightarrow> (isl r, st\<lparr>rs_Client := client\<rparr>))"

definition writeTo :: "bytes \<Rightarrow> wire \<Rightarrow> wire option" where
  "writeTo d w = (case wWrite d w of (Ok _, w) \<Rightarrow> Some w | _ \<Rightarrow> None)"

definition outboundOf :: "redirectEnv \<Rightarrow> gostr \<Rightarrow> outbound option" where
  "outboundOf env name =
    fst (GetOutbound (net_Profile (env_Net (re_Dns env))) (net_Default (env_Net (re_Dns env))) (env_Depth (re_Dns env)) name)"

subsection \<open>The outbound\<close>

text \<open>
  Of the address or the name: a fake address stands for the name and the outbound it was made
  for. With the outbound come the name to dial and the address that is left.
\<close>

definition redirectFake :: "dnsState \<Rightarrow> bytes \<Rightarrow> gostr \<Rightarrow> (gostr \<times> outbound option \<times> bytes) outcome" where
  "redirectFake st ip domain =
    (if domain \<noteq> [] then Ok (domain, None, ip)
     else
       (case parseFakeIPIndex ip of None \<Rightarrow> Panic
        | Some (index, ok) \<Rightarrow>
            (if ok then
               (case GetDNSLie st index of None \<Rightarrow> Err ''out of range'' | Some (name, ob) \<Rightarrow> Ok (name, ob, []))
             else Ok ([], None, ip))))"

definition redirectTarget :: "redirectEnv \<Rightarrow> dnsState \<Rightarrow> bytes \<Rightarrow> gostr \<Rightarrow> (gostr \<times> outbound option \<times> bytes) outcome" where
  "redirectTarget env st ip domain =
    (case redirectFake st ip domain of
       Ok (domain, None, ip) \<Rightarrow>
         (if domain = [] then
            (case GetOutboundByIP (net_Profile (env_Net (re_Dns env))) (net_Default (env_Net (re_Dns env))) ip of None \<Rightarrow> Panic
             | Some None \<Rightarrow> Ok ([], None, ip)
             | Some (Some ob) \<Rightarrow> Ok (IPString ip, Some ob, ip))
          else Ok (domain, outboundOf env domain, ip))
     | r \<Rightarrow> r)"

text \<open>
  Of the TLS hello: without an address, the name in it counts, unless the hello is encrypted.
  \<open>tls1.3\<close> refuses older hellos, and \<open>tls-frag\<close> cuts the record in two inside the name.
\<close>

definition helloOutbound :: "redirectEnv \<Rightarrow> outbound \<Rightarrow> gostr \<Rightarrow> bytes \<Rightarrow> gostr \<Rightarrow> bool \<Rightarrow> (outbound \<times> gostr) option" where
  "helloOutbound env ob domain ip sni ech =
    (if domain \<noteq> sni \<and> \<not> ech \<and> ip = [] then map_option (\<lambda>ob. (ob, sni)) (outboundOf env sni) else Some (ob, domain))"

definition redirectHello ::
  "redirectEnv \<Rightarrow> outbound \<Rightarrow> gostr \<Rightarrow> bytes \<Rightarrow> bytes \<Rightarrow> (outbound \<times> gostr \<times> bytes \<times> nat \<times> nat) outcome" where
  "redirectHello env ob domain ip header =
    (let (offset, len, ech) = GetSNI header in
     if len = 0 then Ok (ob, domain, header, offset, len)
     else
       (case helloOutbound env ob domain ip (take len (drop offset header)) ech of None \<Rightarrow> Err ''no outbound''
        | Some (ob, domain) \<Rightarrow>
            (case (if ob_Hint ob AND HINT_TLS1_3 \<noteq> 0 then GetTLSVersion header else Some 0x304) of None \<Rightarrow> Panic
             | Some version \<Rightarrow>
                (if version < 0x304 then Err ''version''
                 else if ob_Hint ob AND HINT_TLSFRAG \<noteq> 0 then
                   (case TLSFragment header (offset + len div 2) of None \<Rightarrow> Panic
                    | Some header \<Rightarrow> Ok (ob, domain, header, offset + 2, len))
                 else Ok (ob, domain, header, offset, len)))))"

subsection \<open>Dialling for a TLS hello\<close>

fun fallbackChain :: "outbound \<Rightarrow> outbound list" where
  "fallbackChain (Outbound device dns h mtu ttl maxttl protocol address auth timeout fallback) =
    Outbound device dns h mtu ttl maxttl protocol address auth timeout fallback #
    (case fallback of None \<Rightarrow> [] | Some ob \<Rightarrow> fallbackChain ob)"

lemma fallbackChain_Some: "ob_Fallback ob = Some f \<Longrightarrow> fallbackChain ob = ob # fallbackChain f"
  by (cases ob) simp

lemma fallbackChain_None: "ob_Fallback ob = None \<Longrightarrow> fallbackChain ob = [ob]"
  by (cases ob) simp

text \<open>
  The server's first bytes are awaited. With \<open>oob\<close>, an error or an alert in their place is
  tried again, five times in all; any other error is for the fallback. The header stays as the
  last attempt left it.
\<close>

definition hasAlert :: "bytes option \<Rightarrow> bool" where
  "hasAlert hello = (case hello of None \<Rightarrow> True | Some d \<Rightarrow> length d > 5 \<and> d ! 0 = 0x15)"

function connectLoop ::
  "redirectEnv \<Rightarrow> outbound \<Rightarrow> nat \<Rightarrow> gostr \<Rightarrow> int \<Rightarrow> bytes \<Rightarrow> nat \<Rightarrow> nat \<Rightarrow> redirectState \<Rightarrow> redirectEnd \<times> redirectState" where
  "connectLoop env ob retry domain port header offset len st =
    (let (dns, header, r) = re_Dial env (length (rs_Attempts st)) ob domain port header offset len (rs_Dns st);
         st = st\<lparr>rs_Dns := dns, rs_Attempts := rs_Attempts st @ [ob]\<rparr>;
         hello = (case r of Ok w \<Rightarrow> connRead 4096 (tc_in (wr_conn w)) | _ \<Rightarrow> None);
         dialled = (case r of Ok w \<Rightarrow> Some w | _ \<Rightarrow> None)
     in if r = Panic then (Crashed, st)
        else if dialled \<noteq> None \<and> ob_Hint ob AND HINT_OOB \<noteq> 0 \<and> retry > 0 \<and> hasAlert (map_option fst hello) then
          connectLoop env ob (retry - 1) domain port header offset len st
        else
          (case (dialled, hello) of
             (Some w, Some (d, rest)) \<Rightarrow>
               (case clientWrite d st of (failed, st) \<Rightarrow>
                  (if failed then Closed else Relayed (w\<lparr>wr_conn := (wr_conn w)\<lparr>tc_in := rest\<rparr>\<rparr>), st))
           | _ \<Rightarrow>
               (case ob_Fallback ob of None \<Rightarrow> (Closed, st)
                | Some f \<Rightarrow> connectLoop env f retry domain port header offset len st)))"
  by pat_completeness auto
termination
  by (relation "measure (\<lambda>(env, ob, retry, _). length (fallbackChain ob) + retry)")
    (auto simp: fallbackChain_Some split: option.splits)

declare connectLoop.simps [simp del]

subsection \<open>Anything but a TLS hello\<close>

text \<open>\<open>DialStrip\<close>: TLS towards the server for a client without, with or without its name.\<close>

definition DialStrip :: "redirectEnv \<Rightarrow> outbound \<Rightarrow> gostr \<Rightarrow> gostr \<Rightarrow> dnsState \<Rightarrow> dnsState \<times> wire outcome" where
  "DialStrip env ob host fronting st =
    (case ResolveTCPAddr (re_Dns env) (re_Pick env) ob host 443 st of None \<Rightarrow> (st, Panic)
     | Some (st, Inl e) \<Rightarrow> (st, Err e)
     | Some (st, Inr (ip, port)) \<Rightarrow>
         (st, case re_TLS env (JoinHostPort (IPString ip) (intString port)) fronting of None \<Rightarrow> Err ''dial'' | Some w \<Rightarrow> Ok w))"

definition stripEnd :: "redirectEnv \<Rightarrow> outbound \<Rightarrow> gostr \<Rightarrow> bytes \<Rightarrow> redirectState \<Rightarrow> redirectEnd \<times> redirectState" where
  "stripEnd env ob domain header st =
    (case DialStrip env ob domain (if ob_Hint ob AND HINT_FRONTING \<noteq> 0 then [] else domain) (rs_Dns st) of (dns, r) \<Rightarrow>
       (case r of Panic \<Rightarrow> Crashed | Err _ \<Rightarrow> Closed
        | Ok w \<Rightarrow> (case writeTo header w of None \<Rightarrow> Closed | Some w \<Rightarrow> Relayed w), st\<lparr>rs_Dns := dns\<rparr>))"

definition moveEnd :: "gostr \<Rightarrow> bytes \<Rightarrow> redirectState \<Rightarrow> redirectEnd \<times> redirectState" where
  "moveEnd host header st =
    (case HttpMove host header of None \<Rightarrow> (Crashed, st)
     | Some None \<Rightarrow> (Closed, st)
     | Some (Some b) \<Rightarrow> (Closed, snd (clientWrite b st)))"

text \<open>One fallback only; a connection that packets of the program go beside is kept apart.\<close>

definition plainDial :: "redirectEnv \<Rightarrow> outbound \<Rightarrow> gostr \<Rightarrow> int \<Rightarrow> bytes \<Rightarrow> redirectState \<Rightarrow> wire outcome \<times> bytes \<times> redirectState" where
  "plainDial env ob domain port header st =
    (case re_Dial env (length (rs_Attempts st)) ob domain port header 0 0 (rs_Dns st) of (dns, header, r) \<Rightarrow>
       (r, header, st\<lparr>rs_Dns := dns, rs_Attempts := rs_Attempts st @ [ob]\<rparr>))"

definition plainEnd :: "redirectEnv \<Rightarrow> outbound \<Rightarrow> gostr \<Rightarrow> int \<Rightarrow> bytes \<Rightarrow> redirectState \<Rightarrow> redirectEnd \<times> redirectState" where
  "plainEnd env ob domain port header st =
    (case plainDial env ob domain port header st of
       (Panic, _, st) \<Rightarrow> (Crashed, st)
     | (Ok w, _, st) \<Rightarrow> (if wr_syn w \<noteq> None then Kept w else Relayed w, st)
     | (Err _, header, st) \<Rightarrow>
        (case ob_Fallback ob of None \<Rightarrow> (Closed, st)
         | Some f \<Rightarrow>
            (case plainDial env f domain port header st of
               (Panic, _, st) \<Rightarrow> (Crashed, st) | (Err _, _, st) \<Rightarrow> (Closed, st) | (Ok w, _, st) \<Rightarrow> (Relayed w, st))))"

definition redirectPlain :: "redirectEnv \<Rightarrow> outbound \<Rightarrow> gostr \<Rightarrow> int \<Rightarrow> bytes \<Rightarrow> redirectState \<Rightarrow> redirectEnd \<times> redirectState" where
  "redirectPlain env ob domain port header st =
    (if ob_Hint ob AND HINT_HTTP3 \<noteq> 0 then moveEnd (str ''h3'') header st
     else if ob_Hint ob AND HINT_HTTPS \<noteq> 0 then moveEnd (str ''https'') header st
     else if ob_Hint ob AND HINT_MOVE \<noteq> 0 then moveEnd (ob_Address ob) header st
     else if ob_Hint ob AND HINT_STRIP \<noteq> 0 then stripEnd env ob domain header st
     else plainEnd env ob domain port header st)"

text \<open>An outbound without protocol and hints is passed by; a failed write is not noticed.\<close>

definition redirectDirect :: "redirectEnv \<Rightarrow> gostr \<Rightarrow> bytes \<Rightarrow> int \<Rightarrow> bytes option \<Rightarrow> redirectState \<Rightarrow> redirectEnd \<times> redirectState" where
  "redirectDirect env domain ip port header st =
    (case re_Direct env (if ip \<noteq> [] then JoinHostPort (IPString ip) (intString port) else domain @ [58] @ intString port) of
       None \<Rightarrow> (Closed, st)
     | Some w \<Rightarrow> (Relayed (case header of None \<Rightarrow> w | Some h \<Rightarrow> snd (wWrite h w)), st))"

subsection \<open>The whole\<close>

definition redirectHeader :: "redirectEnv \<Rightarrow> outbound \<Rightarrow> gostr \<Rightarrow> bytes \<Rightarrow> int \<Rightarrow> bytes option \<Rightarrow> redirectState \<Rightarrow> redirectEnd \<times> redirectState" where
  "redirectHeader env ob domain ip port header st =
    (case header of
       Some [] \<Rightarrow> (Crashed, st)
     | Some (c # h) \<Rightarrow>
        (if c = 0x16 then
           (case redirectHello env ob domain ip (c # h) of
              Panic \<Rightarrow> (Crashed, st)
            | Err _ \<Rightarrow> (Closed, st)
            | Ok (ob, domain, header, offset, len) \<Rightarrow> connectLoop env ob 5 domain port header offset len st)
         else redirectPlain env ob domain port (c # h) st)
     | None \<Rightarrow> redirectPlain env ob domain port [] st)"

definition tcp_redirect :: "redirectEnv \<Rightarrow> bytes \<Rightarrow> int \<Rightarrow> gostr \<Rightarrow> bytes option \<Rightarrow> redirectState \<Rightarrow> redirectEnd \<times> redirectState" where
  "tcp_redirect env ip port domain header st =
    (case redirectTarget env (rs_Dns st) ip domain of
       Panic \<Rightarrow> (Crashed, st)
     | Err _ \<Rightarrow> (Closed, st)
     | Ok (domain, Some ob, ip) \<Rightarrow>
        (if ob_Protocol ob = DIRECT \<and> ob_Hint ob = 0 then redirectDirect env domain ip port header st
         else if ob_Hint ob AND HINT_NOTCP \<noteq> 0 then (Closed, st)
         else if header = None then
           (case GetHeader (rs_Client st) of (header, e, client) \<Rightarrow>
              (if e \<noteq> None then (Closed, st\<lparr>rs_Client := client\<rparr>)
               else redirectHeader env ob domain ip port header (st\<lparr>rs_Client := client\<rparr>)))
         else redirectHeader env ob domain ip port header st)
     | Ok (domain, None, ip) \<Rightarrow> redirectDirect env domain ip port header st)"

subsection \<open>Those that call it\<close>

text \<open>
  \<open>SNIProxy\<close>: the name of the TLS hello, or the \<open>Host\<close> of an HTTP request; an address is
  refused. There is no host in a header that could not be read.
\<close>

definition sniTarget :: "bytes option \<Rightarrow> (gostr \<times> int) option" where
  "sniTarget header =
    (let h = (case header of None \<Rightarrow> [] | Some h \<Rightarrow> h) in
     if h \<noteq> [] \<and> h ! 0 = 0x16 then
       (case GetSNI h of (offset, len, _) \<Rightarrow> if len = 0 then None else Some (take len (drop offset h), 443))
     else
       (case GetHost h of (offset, len) \<Rightarrow>
          (if len = 0 then None
           else
             (let host = take len (drop offset h) in
              case (case indexByte 58 host of None \<Rightarrow> Some (host, 80)
                    | Some i \<Rightarrow> map_option (Pair (take i host)) (Atoi (drop (i + 1) host))) of
                None \<Rightarrow> None
              | Some (host, port) \<Rightarrow> if ParseIP host \<noteq> [] then None else Some (host, port)))))"

definition SNIProxy :: "redirectEnv \<Rightarrow> redirectState \<Rightarrow> redirectEnd \<times> redirectState" where
  "SNIProxy env st =
    (case GetHeader (rs_Client st) of (header, _, client) \<Rightarrow>
       (case sniTarget header of None \<Rightarrow> (Closed, st\<lparr>rs_Client := client\<rparr>)
        | Some (host, port) \<Rightarrow> tcp_redirect env [] port host header (st\<lparr>rs_Client := client\<rparr>)))"

text \<open>
  \<open>RedirectTCP\<close>: \<open>GetOriginalDST\<close> gives no address for a client that connects to the proxy
  itself, and the code panics at it.
\<close>

definition RedirectTCP :: "redirectEnv \<Rightarrow> (bytes \<times> int) option \<Rightarrow> gostr \<Rightarrow> redirectState \<Rightarrow> redirectEnd \<times> redirectState" where
  "RedirectTCP env dst local st =
    (case dst of None \<Rightarrow> (Crashed, st)
     | Some (ip, port) \<Rightarrow>
        (let ip = (if To4 ip \<noteq> [] then To4 ip else ip) in
         if ip = [] then (Crashed, st)
         else if ip ! 0 = VirtualAddrPrefix \<or> JoinHostPort (IPString ip) (intString port) \<noteq> local
           then tcp_redirect env ip port [] None st
         else (Closed, st)))"

definition TProxyTCP :: "redirectEnv \<Rightarrow> bytes \<times> int \<Rightarrow> bytes \<Rightarrow> redirectState \<Rightarrow> redirectEnd \<times> redirectState" where
  "TProxyTCP env addr rip st =
    (if To16 (fst addr) = To16 rip then (Closed, st)
     else tcp_redirect env (if To4 (fst addr) \<noteq> [] then To4 (fst addr) else fst addr) (snd addr) [] None st)"

text \<open>\<open>dial\<close> of the user build, with the name service; every attempt has its own network.\<close>

definition userDialer :: "dnsEnv \<Rightarrow> (nat \<Rightarrow> dialEnv) \<Rightarrow> dialer" where
  "userDialer dns env n ob host port header offset len st =
    (case GetRemoteAddresses dns ob host port st of None \<Rightarrow> (st, header, Panic)
     | Some (st, Inl e) \<Rightarrow> (st, header, Err e)
     | Some (st, Inr raddrs) \<Rightarrow>
         (let connected = (raddrs \<noteq> [] \<and> \<not> isl (dialLoop (env n) ob 0 (rotate_list (de_Random (env n) (length raddrs)) raddrs)));
              sent = (if connected then userHeader ob header len else None)
          in (st, case sent of None \<Rightarrow> header | Some h \<Rightarrow> h, dialUser (env n) ob host port header offset len raddrs)))"

definition rootDialer :: "dnsEnv \<Rightarrow> (nat \<Rightarrow> dialEnv) \<Rightarrow> dialer" where
  "rootDialer dns env n ob host port header offset len st =
    (case GetRemoteAddresses dns ob host port st of None \<Rightarrow> (st, header, Panic)
     | Some (st, Inl e) \<Rightarrow> (st, header, Err e)
     | Some (st, Inr raddrs) \<Rightarrow> (st, header, dialRoot (env n) ob host port header offset len raddrs))"

end
