(* ===== verification/Tcp_Redirect_Properties.thy ===== *)
theory Tcp_Redirect_Properties
  imports Tcp_Redirect Hello_Names Socks_Uot "HOL-Library.Sublist"
begin

text \<open>
  The way of a client through \<open>tcp_redirect\<close>: a TLS client that connects to a fake address
  reaches the server of the name behind it, with as much of its hello as \<open>GetHeader\<close> waits for,
  which depends on the first segment; and the attempts to dial follow the chain of fallbacks, with at most five more.
\<close>

unbundle bit_operations_syntax

subsection \<open>The hello arrives in pieces\<close>

lemma connRead_piece:
  assumes "cs \<noteq> []" "[] \<notin> set cs" "0 < m"
  shows "\<exists>d rest. connRead m cs = Some (d, rest) \<and> d \<noteq> [] \<and> length d \<le> m \<and> concat cs = d @ concat rest \<and> [] \<notin> set rest"
  using assms by (cases cs) (auto simp: connRead_def min_def)

lemma headerLoop_reads:
  assumes "[] \<notin> set (tc_in conn)" "n \<le> length got + length (concat (tc_in conn))"
  shows "\<exists>rest. headerLoop n got conn = (got @ take (n - length got) (concat (tc_in conn)), None, conn\<lparr>tc_in := rest\<rparr>)
    \<and> concat rest = drop (n - length got) (concat (tc_in conn))"
  using assms
proof (induction "n - length got" arbitrary: got conn rule: less_induct)
  case less
  show ?case
  proof (cases "length got < n")
    case False
    then show ?thesis
      by (subst headerLoop.simps) (auto intro!: exI [of _ "tc_in conn"])
  next
    case True
    then have "tc_in conn \<noteq> []"
      using less.prems(2) by auto
    with True less.prems(1) obtain d rest where d: "connRead (n - length got) (tc_in conn) = Some (d, rest)" "d \<noteq> []"
      "length d \<le> n - length got" "concat (tc_in conn) = d @ concat rest" "[] \<notin> set rest"
      using connRead_piece [of "tc_in conn" "n - length got"] by auto
    have "\<exists>r. headerLoop n (got @ d) (conn\<lparr>tc_in := rest\<rparr>) = (got @ d @ take (n - length (got @ d)) (concat rest), None, conn\<lparr>tc_in := r\<rparr>)
        \<and> concat r = drop (n - length (got @ d)) (concat rest)"
      using less.hyps [of "got @ d" "conn\<lparr>tc_in := rest\<rparr>"] less.prems(2) True d by (simp add: diff_less_mono2)
    then show ?thesis
      using True d by (subst headerLoop.simps) (auto simp: take_append drop_append)
  qed
qed

text \<open>How much of a hello's record \<open>GetHeader\<close> waits for: from the first 44 bytes, all of it.\<close>

definition headerSize :: "bytes \<Rightarrow> bytes \<Rightarrow> nat" where
  "headerSize d record = (if 44 \<le> length d then length record else max 5 (length d))"

lemma GetHelloLength_record:
  assumes "d @ s = helloRecord hl" "length hl < 65536"
  shows "GetHelloLength d = (if 44 \<le> length d then length hl else 0)"
proof (cases "44 \<le> length d")
  case True
  have five: "take 5 d = [0x16, 3, 1] @ be_bytes 2 (length hl)"
    using arg_cong [OF assms(1), of "take 5"] True by (simp add: helloRecord_def del: be_bytes.simps)
  have nth: "d ! 0 = 0x16"
    using arg_cong [OF five, of "\<lambda>x. x ! 0"] True by simp
  have sub: "take 2 (drop i d) = take 2 (drop i (take 5 d))" if "i + 2 \<le> 5" for i
    using that by (simp add: drop_take min_def)
  have "u16at d 3 = length hl"
    unfolding u16at_def by (subst sub) (simp_all add: five assms(2) be_nat_be_bytes del: be_bytes.simps)
  moreover have "u16at d 1 = 769"
    unfolding u16at_def by (subst sub) (simp_all add: five be_nat_two)
  ultimately show ?thesis
    using True nth by (simp add: GetHelloLength_def notTLS_def)
qed (simp add: GetHelloLength_def)

lemma take_drop_append: "take n d @ drop n d @ s = d @ s"
  by (metis append.assoc append_take_drop_id)

lemma take_beyond:
  "take (max n (length a)) (a @ s) = a @ take (n - length a) s" "drop (max n (length a)) (a @ s) = drop (n - length a) s"
  by (auto simp: max_def)

lemma helloRecord_take: "0 < n \<Longrightarrow> \<exists>r. take n (helloRecord hl) = 0x16 # r"
  by (cases n) (auto simp: helloRecord_def)

lemma GetHeader_pieces:
  assumes "concat (d # segs) = helloRecord hl" "[] \<notin> set (d # segs)" "length hl < 65536" "tc_in conn = d # segs"
  shows "\<exists>rest. GetHeader conn = (Some (take (headerSize d (helloRecord hl)) (helloRecord hl)), None, conn\<lparr>tc_in := rest\<rparr>)
    \<and> concat rest = drop (headerSize d (helloRecord hl)) (helloRecord hl)"
proof -
  let ?r = "helloRecord hl"
  obtain rest where c: "connRead 1460 (d # segs) = Some (take 1460 d, rest)" "take 1460 d @ concat rest = ?r" "[] \<notin> set rest"
    using assms(1,2) take_drop_append [of 1460 d "concat segs"] by (cases "length d \<le> 1460") (auto simp: connRead_def)
  let ?d = "take 1460 d" and ?n = "if 44 \<le> length d then length ?r else 5"
  have size: "length ?r = length hl + 5" "length d \<le> length ?r"
    using arg_cong [OF assms(1), of length] by (auto simp: helloRecord_def)
  have n: "GetHelloLength ?d + 5 = ?n"
    using GetHelloLength_record [OF c(2) assms(3)] size(1) by auto
  have "?n \<le> length ?d + length (concat rest)"
    using arg_cong [OF c(2), of length] size(1) by auto
  then obtain r where r: "headerLoop ?n ?d (conn\<lparr>tc_in := rest\<rparr>) = (?d @ take (?n - length ?d) (concat rest), None, conn\<lparr>tc_in := r\<rparr>)"
    "concat r = drop (?n - length ?d) (concat rest)"
    using headerLoop_reads [of "conn\<lparr>tc_in := rest\<rparr>" ?n ?d] c(3) by auto
  have max: "max ?n (length ?d) = headerSize d ?r"
    using size by (auto simp: headerSize_def min_def)
  have "take (max ?n (length ?d)) ?r = ?d @ take (?n - length ?d) (concat rest)" "drop (max ?n (length ?d)) ?r = drop (?n - length ?d) (concat rest)"
    using take_beyond [of ?n ?d "concat rest"] unfolding c(2) by simp_all
  moreover have "?d ! 0 = 0x16" "?d \<noteq> []"
    using arg_cong [OF assms(1), of "\<lambda>x. x ! 0"] assms(2) by (auto simp: helloRecord_def nth_append)
  ultimately show ?thesis
    using r n c(1) assms(4) unfolding max by (auto simp: GetHeader_def)
qed

subsection \<open>A client of a fake address\<close>

lemma connectLoop_first:
  assumes "re_Dial env (length (rs_Attempts st)) ob domain port header offset len (rs_Dns st) = (dns, header', Ok w)"
    and "connRead 4096 (tc_in (wr_conn w)) = Some (hello, rest)" "\<not> hasAlert (Some hello)" "0 < tc_left (rs_Client st)"
  shows "\<exists>st'. connectLoop env ob retry domain port header offset len st = (Relayed (w\<lparr>wr_conn := (wr_conn w)\<lparr>tc_in := rest\<rparr>\<rparr>), st')
    \<and> tc_out (rs_Client st') = tc_out (rs_Client st) @ [hello] \<and> tc_in (rs_Client st') = tc_in (rs_Client st)
    \<and> rs_Attempts st' = rs_Attempts st @ [ob] \<and> rs_Dns st' = dns"
  using assms by (subst connectLoop.simps)
    (auto simp: Let_def clientWrite_def connWrite_def split: nat.split)

lemma userDialer_ok:
  assumes "GetRemoteAddresses dns ob host port st = Some (st', Inr raddrs)" "raddrs \<noteq> []"
    and "dialLoop (net n) ob 0 (rotate_list (de_Random (net n) (length raddrs)) raddrs) = Inr (i, req, w)"
    and "wr_log w = []" "20 \<le> tc_left (wr_conn w)" "asksNothing ob" "len = 0 \<or> nameInside header offset len"
    and "ob_Hint ob AND HINT_TFO = 0" "ob_Hint ob AND HINT_TLS1_3 = 0"
  shows "\<exists>w'. userDialer dns net n ob host port header offset len st = (st', header, Ok w')
    \<and> serverReads (wr_log w') = header \<and> tc_in (wr_conn w') = tc_in (wr_conn w)"
proof -
  have h: "userHeader ob header len = Some header"
    using assms(9) by (simp add: userHeader_def userHint_def)
  obtain w' where "dialUser (net n) ob host port header offset len raddrs = Ok w'" "serverReads (wr_log w') = header"
    "tc_in (wr_conn w') = tc_in (wr_conn w)"
    using dialUser_sends [OF assms(2-6) assms(7), of host port] assms(8) h by auto
  with h show ?thesis
    using assms(1-3) by (auto simp: userDialer_def)
qed

lemma dialLoop_dials:
  "dialLoop env ob i raddrs = Inr (j, req, w) \<Longrightarrow> dr_Remote req \<in> set raddrs \<and> de_Dial env j req = Inr w"
  by (induction raddrs arbitrary: i)
    (auto simp: Let_def userRequest_def split: sum.splits dialError.splits if_splits)

lemma set_rotate_list: "set (rotate_list n xs) = set xs"
  by (simp add: rotate_list_def) (metis append_take_drop_id set_append sup_commute)

text \<open>
  The name in as much of a hello as \<open>GetHeader\<close> gives: it is found in the whole record, unless
  nothing follows it, and never in fewer than 44 bytes.
\<close>

lemma GetSNI_header:
  assumes fit: "helloFits vers random sid ciphers cmpr (namedExtensions pre name post)"
    and pre: "\<forall>(t, d) \<in> set pre. t \<noteq> 0 \<and> t < 65536" and "4 \<le> length name"
    and hl: "hl = clientHello (clientHelloBody vers random sid ciphers cmpr (namedExtensions pre name post))"
    and size: "length hl < 65536" and h: "h = take (headerSize d (helloRecord hl)) (helloRecord hl)"
  shows "\<exists>offset len ech. GetSNI h = (offset, len, ech) \<and> (len = 0 \<or> nameInside h offset len \<and> take len (drop offset h) = name)"
proof (cases "44 \<le> length d")
  case True
  let ?offset = "nameOffset 9 sid ciphers cmpr pre"
  have whole: "h = helloRecord hl"
    using True h by (simp add: headerSize_def)
  have name: "take (length name) (drop ?offset h) = name"
    by (rule name_at [OF fit, where z = "[]" and a = "[0x16, 3, 1] @ be_bytes 2 (length hl) @ [1] @
          be_bytes 3 (length (clientHelloBody vers random sid ciphers cmpr (namedExtensions pre name post)))"])
      (simp_all add: whole helloRecord_def hl clientHello_def del: be_bytes.simps)
  have sni: "GetSNI h = (if post \<noteq> [] then (?offset, length name, \<exists>(t, d) \<in> set pre. t = 65037) else (0, 0, \<exists>(t, d) \<in> set pre. t = 65037))"
    using GetSNI_name [OF fit pre hl size, of "[]"] by (simp add: whole)
  show ?thesis
  proof (cases "post = []")
    case False
    then have "nameInside h ?offset (length name)"
      using sni GetSNI_inside [of h ?offset "length name"] assms(3) by (auto simp: nameInside_def nameOffset_def)
    with False sni name show ?thesis
      by auto
  qed (use sni in simp)
next
  case False
  then have "length h < 44"
    using h by (simp add: headerSize_def)
  then have "GetSNI h = (0, 0, False)"
    by (simp add: GetSNI_def)
  then show ?thesis
    by blast
qed

text \<open>C1: A client that was given a fake address for a name, and sends a TLS hello for that name in
  whatever pieces, is connected through the outbound of the name, in one attempt, to one of the
  addresses the outbound resolves the name to, and gets the server's answer. When the first piece
  has 44 bytes, the server reads just the hello, however the rest comes, and whether or not the
  name is found in it. Of a hello with a shorter first piece the server is sent only that piece
  (or the first 5 bytes), and the rest stays unread until the server has answered it. The
  outbound speaks no proxy protocol, and its hints may be any but \<open>no-tcp\<close>, \<open>tls1.3\<close>,
  \<open>tls-frag\<close> and \<open>tfo\<close>; the name has at least four letters.
\<close>
theorem redirect_delivers:
  assumes "parseFakeIPIndex ip = Some (index, True)" "GetDNSLie (rs_Dns st) index = Some (name, Some ob)"
    and "helloFits vers random sid ciphers cmpr (namedExtensions pre name post)" "\<forall>(t, d) \<in> set pre. t \<noteq> 0 \<and> t < 65536" "4 \<le> length name"
    and "hl = clientHello (clientHelloBody vers random sid ciphers cmpr (namedExtensions pre name post))" "length hl < 65536"
    and "tc_in (rs_Client st) = d # segs" "concat (d # segs) = helloRecord hl" "[] \<notin> set (d # segs)"
    and "0 < tc_left (rs_Client st)"
    and "asksNothing ob" "ob_Hint ob \<noteq> 0" "ob_Hint ob AND (HINT_NOTCP OR HINT_TLS1_3 OR HINT_TLSFRAG OR HINT_TFO) = 0"
    and "re_Dial env = userDialer dns net" "net' = net (length (rs_Attempts st))"
    and "GetRemoteAddresses dns ob name port (rs_Dns st) = Some (dns', Inr raddrs)" "raddrs \<noteq> []"
    and "dialLoop net' ob 0 (rotate_list (de_Random net' (length raddrs)) raddrs) = Inr (i, req, w)"
    and "wr_log w = []" "20 \<le> tc_left (wr_conn w)"
    and "connRead 4096 (tc_in (wr_conn w)) = Some (reply, rest)" "\<not> hasAlert (Some reply)"
  shows "\<exists>w' st'. tcp_redirect env ip port [] None st = (Relayed w', st')
    \<and> rs_Attempts st' = rs_Attempts st @ [ob] \<and> dr_Remote req \<in> set raddrs \<and> de_Dial net' i req = Inr w
    \<and> serverReads (wr_log w') = take (headerSize d (helloRecord hl)) (helloRecord hl)
    \<and> concat (tc_in (rs_Client st')) = drop (headerSize d (helloRecord hl)) (helloRecord hl)
    \<and> tc_in (wr_conn w') = rest \<and> tc_out (rs_Client st') = tc_out (rs_Client st) @ [reply]"
proof -
  define h where "h = take (headerSize d (helloRecord hl)) (helloRecord hl)"
  have hints: "ob_Hint ob AND HINT_NOTCP = 0" "ob_Hint ob AND HINT_TLS1_3 = 0" "ob_Hint ob AND HINT_TLSFRAG = 0" "ob_Hint ob AND HINT_TFO = 0"
    using assms(14) by (simp_all add: bit.conj_disj_distrib or_eq_0_iff)
  obtain offset len ech where sni: "GetSNI h = (offset, len, ech)" "len = 0 \<or> nameInside h offset len \<and> take len (drop offset h) = name"
    using GetSNI_header [OF assms(3-7) h_def] by blast
  obtain left where left: "GetHeader (rs_Client st) = (Some h, None, (rs_Client st)\<lparr>tc_in := left\<rparr>)"
    "concat left = drop (headerSize d (helloRecord hl)) (helloRecord hl)"
    using GetHeader_pieces [OF assms(9,10,7,8)] by (auto simp: h_def)
  let ?st = "st\<lparr>rs_Client := (rs_Client st)\<lparr>tc_in := left\<rparr>\<rparr>"
  have hello: "redirectHello env ob name [] h = Ok (ob, name, h, offset, len)"
    using sni hints by (auto simp: redirectHello_def helloOutbound_def)
  obtain w' where dial: "re_Dial env (length (rs_Attempts ?st)) ob name port h offset len (rs_Dns ?st) = (dns', h, Ok w')"
    "serverReads (wr_log w') = h" "tc_in (wr_conn w') = tc_in (wr_conn w)"
    using userDialer_ok [of dns ob name port "rs_Dns st" dns' raddrs net "length (rs_Attempts st)" i req w len h offset]
      assms(12,15-21) sni(2) hints by auto
  have "0 < headerSize d (helloRecord hl)"
    by (auto simp: headerSize_def helloRecord_def max_def)
  then obtain r where r: "h = 0x16 # r"
    using helloRecord_take unfolding h_def by blast
  have target: "redirectTarget env (rs_Dns st) ip [] = Ok (name, Some ob, [])"
    using assms(1,2) by (simp add: redirectTarget_def redirectFake_def)
  have run: "tcp_redirect env ip port [] None st = connectLoop env ob 5 name port h offset len ?st"
    using target left(1) hello hints assms(13) by (simp add: tcp_redirect_def redirectHeader_def r)
  have first: "connRead 4096 (tc_in (wr_conn w')) = Some (reply, rest)" "0 < tc_left (rs_Client ?st)"
    using assms(11,22) dial(3) by simp_all
  have "dr_Remote req \<in> set raddrs" "de_Dial net' i req = Inr w"
    using dialLoop_dials [OF assms(19)] by (simp_all add: set_rotate_list)
  with run connectLoop_first [OF dial(1) first(1) assms(23) first(2), of 5] dial(2) left(2) show ?thesis
    by (auto simp: h_def)
qed

definition redirectHello0 :: bytes where
  "redirectHello0 = clientHello (clientHelloBody [3, 3] (replicate 32 7) [] [0x13, 1] [0]
    (namedExtensions [] (str ''go.dev'') [(16, [0, 1, 2])]))"

definition redirectOutbound :: outbound where
  "redirectOutbound = Outbound [] [] HINT_TCPFRAG 0 0 0 REDIRECT (str ''10.0.0.2:443'') [] 65535 None"

definition redirectEnv0 :: redirectEnv where
  "redirectEnv0 = \<lparr>re_Dns = sampleDnsEnv redirectOutbound, re_Dial = userDialer (sampleDnsEnv redirectOutbound) (\<lambda>_. sampleDial\<lparr>de_Dial := (\<lambda>_ _.
       Inr \<lparr>wr_conn = \<lparr>tc_in = [[22, 3, 3], [1]], tc_out = [], tc_left = 20\<rparr>, wr_log = [], wr_syn = None\<rparr>)\<rparr>),
     re_TLS = (\<lambda>_ _. None), re_Direct = (\<lambda>_. None), re_Pick = (\<lambda>_. 0)\<rparr>"

definition redirectState0 :: redirectState where
  "redirectState0 = \<lparr>rs_Client = \<lparr>tc_in = [take 50 (helloRecord redirectHello0), drop 50 (helloRecord redirectHello0)], tc_out = [], tc_left = 1\<rparr>,
     rs_Dns = dnsState0\<lparr>dns_Nose := [(str ''phantom.socks'', None), (str ''go.dev'', Some redirectOutbound)]\<rparr>, rs_Attempts = []\<rparr>"

lemma redirectHello0_length: "length redirectHello0 = 69" "length (helloRecord redirectHello0) = 74"
  by (simp_all add: redirectHello0_def helloRecord_def namedExtensions_def serverNameData_def clientHello_def
      clientHelloBody_def clientHelloStart_def)

theorem redirect_delivers_witness:
  "\<exists>w' st'. tcp_redirect redirectEnv0 [VirtualAddrPrefix, 0, 0, 1] 443 [] None redirectState0 = (Relayed w', st')
    \<and> rs_Attempts st' = [redirectOutbound] \<and> serverReads (wr_log w') = helloRecord redirectHello0
    \<and> concat (tc_in (rs_Client st')) = [] \<and> tc_in (wr_conn w') = [[1]] \<and> tc_out (rs_Client st') = [[22, 3, 3]]"
proof -
  have fake: "parseFakeIPIndex [VirtualAddrPrefix, 0, 0, 1] = Some (1, True)"
    by (simp add: parseFakeIPIndex_def VirtualAddrPrefix_def be_nat_two)
  have lie: "GetDNSLie (rs_Dns redirectState0) 1 = Some (str ''go.dev'', Some redirectOutbound)"
    by (simp add: GetDNSLie_def redirectState0_def)
  have fit: "helloFits [3, 3] (replicate 32 7) [] [0x13, 1] [0] (namedExtensions [] (str ''go.dev'') [(16, [0, 1, 2])])"
    by (simp add: helloFits_def namedExtensions_def serverNameData_def)
  have addr: "GetRemoteAddresses (sampleDnsEnv redirectOutbound) redirectOutbound (str ''go.dev'') 443 st = Some (st, Inr [([0, 0, 0, 0, 0, 0, 0, 0, 0, 0, 255, 255, 10, 0, 0, 2], 443)])" for st
  proof -
    have "hostAndPort (str ''10.0.0.2:443'') = Some (str ''10.0.0.2'', 443)"
      by (simp add: hostAndPort_def SplitHostPort_def hasHostPort_def str_def Atoi_def hasPrefix_def lastIndexByte_def isDigit_def decimal_def)
    moreover have "str ''10.0.0.2:443'' \<noteq> []"
      by (simp add: str_def)
    moreover have "ParseIP (str ''10.0.0.2'') = [0, 0, 0, 0, 0, 0, 0, 0, 0, 0, 255, 255, 10, 0, 0, 2]"
      by (simp add: str_def ParseIP_def ParseAddr_def isDigit_def To16_def v4InV6Prefix_def)
        (simp add: numeral_eq_Suc)
    ultimately show ?thesis
      by (simp add: GetRemoteAddresses_def redirectOutbound_def ResolveTCPAddrs_def)
  qed
  have segs: "tc_in (rs_Client redirectState0) = [take 50 (helloRecord redirectHello0), drop 50 (helloRecord redirectHello0)]"
    by (simp add: redirectState0_def)
  have pieces: "concat [take 50 (helloRecord redirectHello0), drop 50 (helloRecord redirectHello0)] = helloRecord redirectHello0"
    by simp
  have dial: "dialLoop (sampleDial\<lparr>de_Dial := (\<lambda>_ _. Inr \<lparr>wr_conn = \<lparr>tc_in = [[22, 3, 3], [1]], tc_out = [], tc_left = 20\<rparr>, wr_log = [], wr_syn = None\<rparr>)\<rparr>)
      redirectOutbound 0 (rotate_list n [a]) = Inr (0, userRequest redirectOutbound None a 0,
        \<lparr>wr_conn = \<lparr>tc_in = [[22, 3, 3], [1]], tc_out = [], tc_left = 20\<rparr>, wr_log = [], wr_syn = None\<rparr>)" for n a
    by (simp add: rotate_list_def sampleDial_def localAddr_def redirectOutbound_def)
  have size: "headerSize (take 50 (helloRecord redirectHello0)) (helloRecord redirectHello0) = length (helloRecord redirectHello0)"
    by (simp add: headerSize_def redirectHello0_length)
  have "helloRecord redirectHello0 \<noteq> []"
    by (simp add: helloRecord_def)
  then show ?thesis
    using redirect_delivers [OF fake lie fit _ _ redirectHello0_def _ segs pieces _ _ _ _ _ _ refl addr _ dial, of redirectEnv0 "[22, 3, 3]"]
      redirectHello0_length size
    by (simp add: redirectState0_def redirectEnv0_def asksNothing_def redirectOutbound_def hasAlert_def hint_defs connRead_def) blast
qed

subsection \<open>How often it dials\<close>

text \<open>The outbounds in the order of the chain, each as often in a row as it is retried.\<close>

definition followsChain :: "outbound list \<Rightarrow> outbound \<Rightarrow> nat \<Rightarrow> bool" where
  "followsChain as ob retry \<longleftrightarrow> length as \<le> length (fallbackChain ob) + retry
    \<and> (\<exists>n. remdups_adj as = take (Suc n) (fallbackChain ob))"

lemma fallbackChain_Cons: "\<exists>obs. fallbackChain ob = ob # obs"
  by (cases ob) simp

lemma fallback_size: "ob_Fallback ob = Some f \<Longrightarrow> f \<noteq> ob"
  by (metis fallbackChain_Some length_Cons n_not_Suc_n)

lemma followsChain_one: "followsChain [ob] ob retry"
proof -
  obtain obs where "fallbackChain ob = ob # obs"
    using fallbackChain_Cons by blast
  then show ?thesis
    unfolding followsChain_def by (intro conjI exI [of _ 0]) simp_all
qed

lemma followsChain_hd: "followsChain as ob retry \<Longrightarrow> \<exists>as'. as = ob # as'"
  using fallbackChain_Cons [of ob] by (cases as) (auto simp: followsChain_def dest: arg_cong [of _ _ hd])

lemma followsChain_again: "followsChain as ob (retry - 1) \<Longrightarrow> 0 < retry \<Longrightarrow> followsChain (ob # as) ob retry"
  using followsChain_hd [of as ob "retry - 1"] by (auto simp: followsChain_def)

lemma followsChain_next:
  assumes "followsChain as f retry" "ob_Fallback ob = Some f"
  shows "followsChain (ob # as) ob retry"
proof -
  obtain as' where "as = f # as'"
    using followsChain_hd [OF assms(1)] by blast
  then show ?thesis
    using assms(1) fallback_size [OF assms(2)] fallbackChain_Some [OF assms(2)]
    by (auto simp: followsChain_def take_Suc_Cons intro: exI [of _ "Suc n" for n])
qed

lemma connectLoop_step:
  obtains (stop) "rs_Attempts (snd (connectLoop env ob retry domain port header offset len st)) = rs_Attempts st @ [ob]"
    | (again) header' dns where "0 < retry"
        "connectLoop env ob retry domain port header offset len st =
         connectLoop env ob (retry - 1) domain port header' offset len (st\<lparr>rs_Dns := dns, rs_Attempts := rs_Attempts st @ [ob]\<rparr>)"
    | (fallback) f header' dns where "ob_Fallback ob = Some f"
        "connectLoop env ob retry domain port header offset len st =
         connectLoop env f retry domain port header' offset len (st\<lparr>rs_Dns := dns, rs_Attempts := rs_Attempts st @ [ob]\<rparr>)"
proof -
  obtain dns header' r where d: "re_Dial env (length (rs_Attempts st)) ob domain port header offset len (rs_Dns st) = (dns, header', r)"
    by (cases "re_Dial env (length (rs_Attempts st)) ob domain port header offset len (rs_Dns st)")
  note loop = connectLoop.simps [of env ob retry domain port header offset len st]
  show ?thesis
  proof (cases r)
    case (Ok w)
    show ?thesis
    proof (cases "ob_Hint ob AND HINT_OOB \<noteq> 0 \<and> retry > 0 \<and> hasAlert (map_option fst (connRead 4096 (tc_in (wr_conn w))))")
      case True
      show ?thesis
        by (rule again [of header' dns]) (use True loop d Ok in \<open>auto simp: Let_def\<close>)
    next
      case False
      show ?thesis
        by (cases "connRead 4096 (tc_in (wr_conn w))"; cases "ob_Fallback ob")
          (use False loop d Ok in \<open>auto simp: Let_def clientWrite_def connWrite_def split: nat.splits intro: stop fallback\<close>)
    qed
  qed (cases "ob_Fallback ob"; use loop d in \<open>auto simp: Let_def intro: stop fallback\<close>)+
qed

lemma connectLoop_chain:
  "\<exists>as. rs_Attempts (snd (connectLoop env ob retry domain port header offset len st)) = rs_Attempts st @ as \<and> followsChain as ob retry"
proof (induction "length (fallbackChain ob) + retry" arbitrary: ob retry header st rule: less_induct)
  case less
  show ?case
  proof (rule connectLoop_step [of env ob retry domain port header offset len st], goal_cases)
    case 1
    then show ?case
      using followsChain_one by blast
  next
    case (2 header' dns)
    then show ?case
      using less [of ob "retry - 1" header' "st\<lparr>rs_Dns := dns, rs_Attempts := rs_Attempts st @ [ob]\<rparr>"] followsChain_again by fastforce
  next
    case (3 f header' dns)
    then show ?case
      using less [of f retry header' "st\<lparr>rs_Dns := dns, rs_Attempts := rs_Attempts st @ [ob]\<rparr>"] fallbackChain_Some [OF 3(1)]
        followsChain_next [OF _ 3(1)] by fastforce
  qed
qed

text \<open>C35: For a TLS hello the outbounds of the fallback chain are dialled in their order, from the
  chosen one on, and each failure costs one of five retries or one outbound of the chain: the
  dialling ends, after at most as many attempts as the chain is long and five more.
\<close>
theorem connect_bounded:
  "\<exists>as. rs_Attempts (snd (connectLoop env ob 5 domain port header offset len st)) = rs_Attempts st @ as
    \<and> length as \<le> length (fallbackChain ob) + 5 \<and> (\<exists>n. remdups_adj as = take (Suc n) (fallbackChain ob))"
  using connectLoop_chain [of env ob 5 domain port header offset len st] by (auto simp: followsChain_def)

end
