(* ===== verification/Tcp_Root_Properties.thy ===== *)
theory Tcp_Root_Properties
  imports Tcp_Root
begin

text \<open>
  What a server makes of the segments that reach it: the real ones of the connection and those
  of the program's own, of which it drops the fakes. The first byte to arrive at a place of the
  stream counts.
\<close>

unbundle bit_operations_syntax

subsection \<open>The stream of the server\<close>

type_synonym stream = "nat \<rightharpoonup> byte"

definition fill :: "stream \<Rightarrow> nat \<Rightarrow> bytes \<Rightarrow> stream" where
  "fill m p d = (\<lambda>i. if p \<le> i \<and> i < p + length d then Some (d ! (i - p)) else None) ++ m"

fun arrives :: "(tcpPacket \<Rightarrow> bool) \<Rightarrow> nat \<Rightarrow> nat \<Rightarrow> stream \<Rightarrow> tcpSend list \<Rightarrow> stream" where
  "arrives drops base pos m [] = m"
| "arrives drops base pos m (Write d # s) = arrives drops base (pos + length d) (fill m pos d) s"
| "arrives drops base pos m (Packet p # s) =
    arrives drops base pos (if drops p then m else fill m (nat ((int (pk_Seq p) - int base) mod 4294967296)) (pk_Payload p)) s"
| "arrives drops base pos m (_ # s) = arrives drops base pos m s"

definition streamOf :: "bytes \<Rightarrow> stream" where
  "streamOf b = (\<lambda>i. if i < length b then Some (b ! i) else None)"

text \<open>The places of \<open>b\<close> that have arrived.\<close>

definition seen :: "bytes \<Rightarrow> nat set \<Rightarrow> stream" where
  "seen b S = (\<lambda>i. if i \<in> S then Some (b ! i) else None)"

lemma seen_all: "S = {..<length b} \<Longrightarrow> seen b S = streamOf b"
  by (auto simp: seen_def streamOf_def)

lemma fill_seen: "p + k \<le> length b \<Longrightarrow> fill (seen b S) p (take k (drop p b)) = seen b (S \<union> {p..<p + k})"
  by (rule ext) (auto simp: fill_def seen_def map_add_def)

lemma fill_covered: "{p..<p + length d} \<subseteq> S \<Longrightarrow> fill (seen b S) p d = seen b S"
  by (rule ext) (auto simp: fill_def seen_def map_add_def subset_iff)

lemma arrives_append:
  "arrives drops base pos m (s @ s') = arrives drops base (pos + length (concat (map (\<lambda>x. case x of Write d \<Rightarrow> d | _ \<Rightarrow> []) s)))
    (arrives drops base pos m s) s'"
  by (induction s arbitrary: pos m) (auto split: tcpSend.split simp: add.assoc)

subsection \<open>What the computations send\<close>

text \<open>With the header of the connection before and after.\<close>

definition sendsAs :: "connectionInfo \<Rightarrow> unit wio \<Rightarrow> tcpSend list \<Rightarrow> connectionInfo \<Rightarrow> bool" where
  "sendsAs info m ss info' \<longleftrightarrow> (\<forall>w. wr_syn w = Some info \<and> length ss \<le> tc_left (wr_conn w) \<longrightarrow>
    m w = (Ok (), w\<lparr>wr_conn := (wr_conn w)\<lparr>tc_left := tc_left (wr_conn w) - length ss\<rparr>, wr_log := wr_log w @ ss, wr_syn := Some info'\<rparr>))"

lemma sendsAs_sends: "sends m ss \<Longrightarrow> sendsAs info m ss info"
  unfolding sends_def sendsAs_def
proof (intro allI impI)
  fix w :: wire
  assume a: "\<forall>w. length ss \<le> tc_left (wr_conn w) \<longrightarrow>
      m w = (Ok (), w\<lparr>wr_conn := (wr_conn w)\<lparr>tc_left := tc_left (wr_conn w) - length ss\<rparr>, wr_log := wr_log w @ ss\<rparr>)"
    "wr_syn w = Some info \<and> length ss \<le> tc_left (wr_conn w)"
  then show "m w = (Ok (), w\<lparr>wr_conn := (wr_conn w)\<lparr>tc_left := tc_left (wr_conn w) - length ss\<rparr>, wr_log := wr_log w @ ss, wr_syn := Some info\<rparr>)"
    by (cases w) simp
qed

lemma sendsAs_bind: "sendsAs i m ss i' \<Longrightarrow> sendsAs i' (f ()) ss' i'' \<Longrightarrow> sendsAs i (wBind m f) (ss @ ss') i''"
  by (auto simp: sendsAs_def wBind_def diff_diff_left)

lemma sendsAs_write: "sendsAs i (wWrite d) [Write d] i"
  by (rule sendsAs_sends [OF sends_write])

lemma sendsAs_part: "j \<le> k \<Longrightarrow> k \<le> length b \<Longrightarrow> sendsAs i (f (take (k - j) (drop j b))) ss i' \<Longrightarrow> sendsAs i (part b j k f) ss i'"
  by (simp add: part_def slice_def)

lemma sendsAs_part_rest: "j \<le> length b \<Longrightarrow> sendsAs i (f (drop j b)) ss i' \<Longrightarrow> sendsAs i (part b j (length b) f) ss i'"
  by (rule sendsAs_part) simp_all

lemma sendsAs_when: "(c \<Longrightarrow> sendsAs i m ss i) \<Longrightarrow> sendsAs i (wWhen c m) (if c then ss else []) i"
  using sendsAs_sends [OF sends_return, of i] by (simp add: wWhen_def)

definition moved :: "nat \<Rightarrow> connectionInfo \<Rightarrow> connectionInfo" where
  "moved n i = i\<lparr>ci_Seq := u32 (ci_Seq i + n)\<rparr>"

lemma sendsAs_AddTCPSeq: "sendsAs i (AddTCPSeq n) [] (moved n i)"
  by (simp add: sendsAs_def AddTCPSeq_def moved_def)

lemma moved_moved: "moved n (moved k i) = moved (k + n) i"
  by (simp add: moved_def u32_def mod_add_left_eq add.assoc)

lemma sends_times: "sends m [s] \<Longrightarrow> sends (wTimes count m) (replicate count s)"
proof (induction count)
  case (Suc count)
  then show ?case
    using sends_bind [of m "[s]" "\<lambda>_. wTimes count m" "replicate count s"] by simp
qed (simp add: sending)

lemma sendsAs_Modify:
  "sendsAs i (ModifyAndSendPacket d h ttl count) (replicate count (Packet (fakePacket i d h ttl))) i"
proof -
  have "sendsAs i (wTimes count (wOp (Packet (fakePacket i d h ttl)))) (replicate count (Packet (fakePacket i d h ttl))) i"
    by (intro sendsAs_sends sends_times sending)
  then show ?thesis
    by (simp add: sendsAs_def ModifyAndSendPacket_def)
qed

text \<open>The packets of a payload in segments, each numbered behind the one before.\<close>

function magicPackets :: "connectionInfo \<Rightarrow> bytes \<Rightarrow> hint \<Rightarrow> nat \<Rightarrow> nat \<Rightarrow> tcpSend list" where
  "magicPackets i d h ttl count =
    (if length d > 1220 then
       replicate count (Packet (fakePacket i (take 1220 d) h ttl)) @ magicPackets (moved 1220 i) (drop 1220 d) h ttl count
     else replicate count (Packet (fakePacket i d h ttl)))"
  by pat_completeness auto
termination
  by (relation "measure (\<lambda>(i, d, _). length d)") auto

declare magicPackets.simps [simp del]

lemma sendsAs_magicLoop: "\<exists>n. sendsAs i (magicLoop d h ttl count) (magicPackets i d h ttl count) (i\<lparr>ci_Seq := n\<rparr>)"
proof (induction i d h ttl count rule: magicPackets.induct)
  case (1 i d h ttl count)
  show ?case
  proof (cases "length d > 1220")
    case True
    then obtain n where n: "sendsAs (moved 1220 i) (magicLoop (drop 1220 d) h ttl count) (magicPackets (moved 1220 i) (drop 1220 d) h ttl count)
        ((moved 1220 i)\<lparr>ci_Seq := n\<rparr>)"
      using 1 by blast
    have "sendsAs i (magicLoop d h ttl count)
        (replicate count (Packet (fakePacket i (take 1220 d) h ttl)) @ [] @ magicPackets (moved 1220 i) (drop 1220 d) h ttl count)
        ((moved 1220 i)\<lparr>ci_Seq := n\<rparr>)"
      unfolding magicLoop.simps [of d] if_P [OF True]
      by (rule sendsAs_bind [OF sendsAs_Modify sendsAs_bind [OF sendsAs_AddTCPSeq n]])
    moreover have "(moved 1220 i)\<lparr>ci_Seq := n\<rparr> = i\<lparr>ci_Seq := n\<rparr>"
      by (simp add: moved_def)
    ultimately show ?thesis
      using True by (auto simp: magicPackets.simps [of i d])
  next
    case False
    then have "sendsAs i (magicLoop d h ttl count) (magicPackets i d h ttl count) (i\<lparr>ci_Seq := ci_Seq i\<rparr>)"
      using sendsAs_Modify by (simp add: magicLoop.simps [of d] magicPackets.simps [of i d])
    then show ?thesis ..
  qed
qed

lemma sendsAs_sendMagic: "sendsAs i (sendMagic d h ttl count) (magicPackets i d h ttl count) i"
proof -
  obtain n where "sendsAs i (magicLoop d h ttl count) (magicPackets i d h ttl count) (i\<lparr>ci_Seq := n\<rparr>)"
    using sendsAs_magicLoop by blast
  then show ?thesis
    unfolding sendsAs_def sendMagic_def by (auto simp: wBind_def)
qed

lemma magicPackets_length: "length (magicPackets i d h ttl count) \<le> count * (length d + 1)"
proof (induction i d h ttl count rule: magicPackets.induct)
  case (1 i d h ttl count)
  then show ?case
  proof (cases "length d > 1220")
    case True
    with 1 have "length (magicPackets i d h ttl count) \<le> count + count * (length d - 1220 + 1)"
      by (simp add: magicPackets.simps [of i d])
    also have "\<dots> = count * (length d - 1220 + 2)"
      by (simp add: algebra_simps)
    also have "\<dots> \<le> count * (length d + 1)"
      using True by (intro mult_le_mono) auto
    finally show ?thesis .
  qed (simp add: magicPackets.simps [of i d])
qed

subsection \<open>What arrives\<close>

lemma arrives_replicate: "drops p \<Longrightarrow> arrives drops base pos m (replicate n (Packet p) @ s) = arrives drops base pos m s"
  by (induction n) simp_all

lemma arrives_dropped:
  assumes "\<And>i d. drops (fakePacket i d h ttl)"
  shows "arrives drops base pos m (magicPackets i d h ttl count @ s) = arrives drops base pos m s"
  using assms
proof (induction i d h ttl count rule: magicPackets.induct)
  case (1 i d h ttl count)
  then show ?case
    using arrives_replicate [of drops] by (simp add: magicPackets.simps [of i d])
qed

lemma fakePacket_none [simp]: "pk_Seq (fakePacket i d 0 ttl) = ci_Seq i" "pk_Payload (fakePacket i d 0 ttl) = d"
  by (simp_all add: fakePacket_def)

lemma place: "base < 4294967296 \<Longrightarrow> k < 4294967296 \<Longrightarrow> nat ((int (u32 (base + k)) - int base) mod 4294967296) = k"
  by (simp add: u32_def zmod_int mod_diff_left_eq)

lemma moved_place: "ci_Seq i = u32 (base + k) \<Longrightarrow> ci_Seq (moved n i) = u32 (base + (k + n))"
  by (simp add: moved_def u32_def mod_add_left_eq add.assoc)

lemma arrives_real:
  assumes "\<And>i d. \<not> drops (fakePacket i d 0 64)" "base < 4294967296" "length b < 4294967296"
    and "k \<le> length b" "ci_Seq i = u32 (base + k)"
  shows "arrives drops base pos (seen b S) (magicPackets i (drop k b) 0 64 1 @ s) = arrives drops base pos (seen b (S \<union> {k..<length b})) s"
  using assms(4,5)
proof (induction "length b - k" arbitrary: k i S rule: less_induct)
  case less
  have at: "nat ((int (ci_Seq i) - int base) mod 4294967296) = k"
    using place [of base k] less.prems assms(2,3) by simp
  show ?case
  proof (cases "length (drop k b) > 1220")
    case True
    have sub: "k \<le> k + 1220" "k + 1220 \<le> length b"
      using True by auto
    have "arrives drops base pos (seen b S) (magicPackets i (drop k b) 0 64 1 @ s)
        = arrives drops base pos (fill (seen b S) k (take 1220 (drop k b))) (magicPackets (moved 1220 i) (drop (k + 1220) b) 0 64 1 @ s)"
      using True by (simp add: magicPackets.simps [of i "drop k b"] assms(1) at add.commute)
    also have "\<dots> = arrives drops base pos (seen b (S \<union> {k..<k + 1220})) (magicPackets (moved 1220 i) (drop (k + 1220) b) 0 64 1 @ s)"
      by (simp only: fill_seen [OF sub(2)])
    also have "\<dots> = arrives drops base pos (seen b (S \<union> {k..<k + 1220} \<union> {k + 1220..<length b})) s"
      by (rule less.hyps) (use sub moved_place [OF less.prems(2)] in auto)
    also have "S \<union> {k..<k + 1220} \<union> {k + 1220..<length b} = S \<union> {k..<length b}"
      using ivl_disj_un_two(3) [OF sub] by auto
    finally show ?thesis .
  next
    case False
    have "arrives drops base pos (seen b S) (magicPackets i (drop k b) 0 64 1 @ s) = arrives drops base pos (fill (seen b S) k (drop k b)) s"
      using False by (simp add: magicPackets.simps [of i "drop k b"] assms(1) at)
    also have "fill (seen b S) k (drop k b) = seen b (S \<union> {k..<length b})"
      using fill_seen [of k "length b - k" b S] less.prems(1) by simp
    finally show ?thesis .
  qed
qed

subsection \<open>The first bytes arrive\<close>

lemma sendsAs_catch: "sendsAs i m ss i' \<Longrightarrow> sendsAs i' (f ()) ss' i'' \<Longrightarrow> sendsAs i (wCatch m h f) (ss @ ss') i''"
  by (auto simp: sendsAs_def wCatch_def diff_diff_left)

lemma handshakeThen_direct:
  assumes "asksNothing ob" "sendsAs (moved 0 i) m ss i'"
  shows "sendsAs i (handshakeThen env ob True host port m) ss i'"
proof -
  have "ProxyHandshake (de_Handshake env) ob True host port = AddTCPSeq 0"
    using assms(1) by (cases "ob_Protocol ob") (auto simp: asksNothing_def ProxyHandshake_def wBind_def wReturn_def wWhen_def)
  then show ?thesis
    using sendsAs_catch [OF sendsAs_AddTCPSeq assms(2), where h = "\<lambda>e. if handshakeNil ob e then wPanic else wError e"]
    by (simp add: handshakeThen_def)
qed

text \<open>The sends of the fake mode: fakes, the first bytes, the halves, and more fakes.\<close>

definition fakePart :: "connectionInfo \<Rightarrow> bytes \<Rightarrow> hint \<Rightarrow> nat \<Rightarrow> tcpSend list" where
  "fakePart i d h ttl = magicPackets i d h ttl 1"

definition fragPart :: "bool \<Rightarrow> bytes \<Rightarrow> tcpSend list" where
  "fragPart frag b = (if frag then [Write (take 1 b), Write (take 3 (drop 1 b))] else [])"

definition halves :: "connectionInfo \<Rightarrow> outbound \<Rightarrow> hint \<Rightarrow> bytes \<Rightarrow> bytes \<Rightarrow> nat \<Rightarrow> nat \<Rightarrow> tcpSend list" where
  "halves i ob h b fk mid seg =
    (if h AND HINT_REVERSE \<noteq> 0
     then magicPackets (moved mid i) (drop mid b) 0 64 1 @ [Write (take (mid - seg) (drop seg b)), Write (drop mid fk)]
     else [Write (take (mid - seg) (drop seg b))] @ fakePart i fk h (ob_TTL ob) @ [Write (drop mid b)])"

lemma sends_halves:
  assumes "mid \<le> length b" "seg \<le> mid" "length fk = length b"
  shows "\<exists>i'. sendsAs i (sendHalves ob h b fk mid seg) (halves i ob h b fk mid seg) i'"
proof (cases "h AND HINT_REVERSE \<noteq> 0")
  case True
  have "sendsAs i (sendHalves ob h b fk mid seg) ([] @ magicPackets (moved mid i) (drop mid b) HINT_NONE 64 1
      @ [Write (take (mid - seg) (drop seg b))] @ [Write (drop mid fk)] @ []) (moved (length b - mid) (moved mid i))"
    unfolding sendHalves_def if_P [OF True]
    by (intro sendsAs_bind [OF sendsAs_AddTCPSeq] sendsAs_part_rest sendsAs_part sendsAs_bind [OF sendsAs_sendMagic]
        sendsAs_bind [OF sendsAs_write] sendsAs_AddTCPSeq) (use assms in simp_all)
  then show ?thesis
    using True by (auto simp: halves_def HINT_NONE_def)
next
  case False
  have "sendsAs i (sendHalves ob h b fk mid seg) ([Write (take (mid - seg) (drop seg b))] @ fakePart i fk h (ob_TTL ob)
      @ [Write (drop mid b)] @ []) (moved (length b) i)"
    unfolding sendHalves_def if_not_P [OF False] fakePart_def
    by (intro sendsAs_bind [OF sendsAs_AddTCPSeq] sendsAs_part_rest sendsAs_part sendsAs_bind [OF sendsAs_sendMagic]
        sendsAs_bind [OF sendsAs_write] sendsAs_AddTCPSeq) (use assms in simp_all)
  then show ?thesis
    using False by (auto simp: halves_def)
qed

lemma sends_fragPart:
  assumes "frag \<Longrightarrow> 4 \<le> length b"
  shows "sendsAs i (wWhen frag (part b 0 1 (\<lambda>x. wBind (wWrite x) (\<lambda>_. part b 1 4 wWrite)))) (fragPart frag b) i"
  unfolding fragPart_def
proof (rule sendsAs_when)
  assume "frag"
  then have four: "sendsAs i (part b 1 4 wWrite) [Write (take 3 (drop 1 b))] i"
    using assms by (intro sendsAs_part) (simp_all add: sendsAs_write)
  show "sendsAs i (part b 0 1 (\<lambda>x. wBind (wWrite x) (\<lambda>_. part b 1 4 wWrite))) [Write (take 1 b), Write (take 3 (drop 1 b))] i"
    using sendsAs_bind [OF sendsAs_write four, of "take 1 b"] assms [OF \<open>frag\<close>] by (intro sendsAs_part) simp_all
qed

lemma sends_fakes:
  assumes "mid \<le> length b" "length fk = length b" and frag: "frag \<longleftrightarrow> h AND HINT_TCPFRAG \<noteq> 0 \<and> mid > 4"
  shows "\<exists>i' fk'. length fk' = length b \<and> sendsAs i (sendFakes env ob h b fk mid)
    (fakePart i fk h (ob_TTL ob) @ fragPart frag b @ halves i ob h b fk mid (if frag then 4 else 0)
      @ (if h AND HINT_SAT \<noteq> 0 then magicPackets i' fk' h (ob_TTL ob) 2 else [])) i'"
proof -
  let ?fk = "take (length fk) (de_Bytes env (length fk + 1) @ fk)"
  obtain i' where i': "sendsAs i (sendHalves ob h b fk mid (if frag then 4 else 0)) (halves i ob h b fk mid (if frag then 4 else 0)) i'"
    using sends_halves [of mid b "if frag then 4 else 0" fk i ob h] assms(1,2) frag [THEN iffD1] by fastforce
  have sat: "sendsAs i' (wWhen (h AND HINT_SAT \<noteq> 0) (sendMagic ?fk h (ob_TTL ob) 2))
      (if h AND HINT_SAT \<noteq> 0 then magicPackets i' ?fk h (ob_TTL ob) 2 else []) i'"
    by (rule sendsAs_when [OF sendsAs_sendMagic])
  have len: "length ?fk = length b" "frag \<Longrightarrow> 4 \<le> length b"
    using assms by auto
  show ?thesis
    unfolding sendFakes_def Let_def fakePart_def frag [symmetric]
    by (intro exI conjI, rule len(1), rule sendsAs_bind [OF sendsAs_sendMagic sendsAs_bind [OF sends_fragPart [OF len(2)] sendsAs_bind [OF i' sat]]])
qed

lemma length_halves: "mid \<le> length b \<Longrightarrow> length fk = length b \<Longrightarrow> length (halves i ob h b fk mid seg) \<le> length b + 3"
  using magicPackets_length [of "moved mid i" "drop mid b" 0 64 1] magicPackets_length [of i fk h "ob_TTL ob" 1]
  by (auto simp: halves_def fakePart_def)

lemma arrives_halves:
  assumes "\<And>i d. drops (fakePacket i d h (ob_TTL ob))" "\<And>i d. \<not> drops (fakePacket i d 0 64)"
    and "base < 4294967296" "length b < 4294967296" "ci_Seq i = base" "mid \<le> length b" "seg \<le> mid" "length fk = length b"
  shows "arrives drops base seg (seen b {..<seg}) (halves i ob h b fk mid seg @ s) = arrives drops base (length b) (streamOf b) s"
proof -
  have at: "ci_Seq (moved mid i) = u32 (base + mid)"
    using assms(5) by (simp add: moved_def)
  have mid: "fill (seen b S) seg (take (mid - seg) (drop seg b)) = seen b (S \<union> {seg..<mid})" for S
    using fill_seen [of seg "mid - seg" b S] assms(6,7) by simp
  have rest: "fill (seen b S) mid (drop mid b) = seen b (S \<union> {mid..<length b})" for S
    using fill_seen [of mid "length b - mid" b S] assms(6) by simp
  have all: "seen b ({..<seg} \<union> {mid..<length b} \<union> {seg..<mid}) = streamOf b" "seen b ({..<seg} \<union> {seg..<mid} \<union> {mid..<length b}) = streamOf b"
    using assms(6,7) by (auto intro!: seen_all)
  have covered: "fill (streamOf b) mid (drop mid fk) = streamOf b"
    using fill_covered [of mid "drop mid fk" "{..<length b}" b] assms(6,8) seen_all [OF refl, of b]
    by (simp add: subset_iff)
  show ?thesis
    using assms(6,7,8) arrives_real [of drops base b mid, OF assms(2-4) assms(6) at] arrives_dropped [of drops, OF assms(1)]
    by (simp add: halves_def fakePart_def mid rest all covered)
qed

lemma dotCut_inside: "dotCut b offset len \<le> offset + len"
proof -
  have "Max (insert offset (set (dotsIn b offset len))) \<le> offset + len"
    by (auto simp: dotsIn_def)
  moreover have "Min (insert (offset + len) (set (dotsIn b offset len))) \<le> offset + len"
    by (rule Min_le) simp_all
  moreover have "(x + y) div 2 \<le> z" if "x \<le> z" "y \<le> z" for x y z :: nat
    using that by linarith
  ultimately show ?thesis
    unfolding dotCut_def Let_def by simp
qed

lemma fakeData_inside:
  assumes "h AND HINT_TFO = 0" "offset + len \<le> length b"
  obtains fk mid where "fakeData env h b offset len = Some (fk, mid)" "length fk = length b" "mid \<le> length b"
proof (cases "h AND HINT_RAND \<noteq> 0")
  case True
  then show ?thesis
    using assms by (intro that [of "take (length b) (de_Bytes env (length b) @ b)" "offset + len div 2"]) (auto simp: fakeData_def)
next
  case False
  have "dotCut b offset len \<le> length b"
    using dotCut_inside [of b offset len] assms(2) by linarith
  with False show ?thesis
    using assms by (intro that [of "fakeName (de_Random env) b offset len" "dotCut b offset len"]) (auto simp: fakeData_def fakeName_def)
qed

lemma fakeHint_TFO: "fakeHint ob offset AND HINT_TFO = ob_Hint ob AND HINT_TFO"
  by (auto simp: fakeHint_def bit.conj_disj_distrib2 HINT_TFO_def HINT_RAND_def)

lemma arrives_first:
  assumes "\<And>i d. drops (fakePacket i d h ttl)" "frag \<Longrightarrow> 4 \<le> length b"
  shows "arrives drops base 0 Map.empty (fakePart i fk h ttl @ fragPart frag b @ s)
    = arrives drops base (if frag then 4 else 0) (seen b {..<(if frag then 4 else 0)}) s"
proof -
  have empty: "Map.empty = seen b {}"
    by (simp add: seen_def)
  have "fill (seen b {}) 0 (take 1 b) = seen b {0..<1}" "fill (seen b {0..<1}) 1 (take 3 (drop 1 b)) = seen b ({0..<1} \<union> {1..<4})" if frag
    using fill_seen [of 0 1 b "{}"] fill_seen [of 1 3 b "{0..<1}"] assms(2) [OF that] by simp_all
  moreover have "{0..<1} \<union> {1..<4} = {..<4::nat}"
    by auto
  ultimately show ?thesis
    using arrives_dropped [of drops, OF assms(1)] assms(2) by (auto simp: fakePart_def fragPart_def empty)
qed

lemma runWire_sendsAs:
  assumes "sendsAs info m ss info'" "wr_syn w = Some info" "wr_log w = []" "length ss \<le> tc_left (wr_conn w)"
  shows "\<exists>w'. runWire m w = Ok w' \<and> wr_log w' = ss"
  using assms by (auto simp: sendsAs_def runWire_def)

text \<open>C5: With fakes that the server drops, the server gets just the first bytes of the client,
  although two fakes are sent over them, and with \<open>reverse\<close> the fake second half even on the
  connection itself, over a real one that went ahead of the first half.
\<close>
theorem dialRoot_delivers:
  assumes "ob_Hint ob AND HINT_FAKE \<noteq> 0" "\<not> de_Passive env" "ob_Hint ob AND HINT_TFO = 0" "asksNothing ob"
    and "fakeLoop env ob [] 0 raddrs = Inr w" "wr_syn w = Some info" "wr_log w = []" "4 * length b + 8 \<le> tc_left (wr_conn w)"
    and "offset + len \<le> length b" "length b < 4294967296"
    and "\<And>i d. drops (fakePacket i d (fakeHint ob offset) (ob_TTL ob))" "\<And>i d. \<not> drops (fakePacket i d 0 64)"
  shows "\<exists>w'. dialRoot env ob host port b offset len raddrs = Ok w'
    \<and> arrives drops (u32 (ci_Seq info + 1)) 0 Map.empty (wr_log w') = streamOf b"
proof -
  let ?h = "fakeHint ob offset" and ?len = "if offset = 0 then length b else len" and ?i = "moved 0 (moved 1 info)"
  have tfo: "?h AND HINT_TFO = 0"
    using assms(3) by (simp add: fakeHint_TFO)
  obtain fk mid where fk: "fakeData env ?h b offset ?len = Some (fk, mid)" "length fk = length b" "mid \<le> length b"
    by (rule fakeData_inside [OF tfo, of offset ?len b env]) (use assms(9) in auto)
  define frag where "frag \<longleftrightarrow> ?h AND HINT_TCPFRAG \<noteq> 0 \<and> mid > 4"
  obtain i' fk' where f: "length fk' = length b" "sendsAs ?i (sendFakes env ob ?h b fk mid)
    (fakePart ?i fk ?h (ob_TTL ob) @ fragPart frag b @ halves ?i ob ?h b fk mid (if frag then 4 else 0)
      @ (if ?h AND HINT_SAT \<noteq> 0 then magicPackets i' fk' ?h (ob_TTL ob) 2 else [])) i'" (is "sendsAs _ _ ?ss _")
    using sends_fakes [OF fk(3,2) frag_def] by blast
  have len: "length ?ss \<le> tc_left (wr_conn w)"
    using assms(8) f(1) fk(2) length_halves [OF fk(3,2), of ?i ob ?h "if frag then 4 else 0"]
      magicPackets_length [of ?i fk ?h "ob_TTL ob" 1] magicPackets_length [of i' fk' ?h "ob_TTL ob" 2]
    by (auto simp: fakePart_def fragPart_def)
  have run: "sendsAs info (wBind (AddTCPSeq 1) (\<lambda>_. handshakeThen env ob True host port (sendFakes env ob ?h b fk mid))) ([] @ ?ss) i'"
    by (rule sendsAs_bind [OF sendsAs_AddTCPSeq handshakeThen_direct [OF assms(4) f(2)]])
  then obtain w' where w': "runWire (wBind (AddTCPSeq 1) (\<lambda>_. handshakeThen env ob True host port (sendFakes env ob ?h b fk mid))) w = Ok w'"
      "wr_log w' = ?ss"
    using runWire_sendsAs [OF run assms(6,7)] len by auto
  have base: "ci_Seq ?i = u32 (ci_Seq info + 1)" "u32 (ci_Seq info + 1) < 4294967296"
    by (simp_all add: moved_def u32_def)
  have seg: "(if frag then 4 else 0) \<le> mid" "frag \<Longrightarrow> 4 \<le> length b"
    using fk(3) by (auto simp: frag_def)
  have "arrives drops (u32 (ci_Seq info + 1)) 0 Map.empty ?ss = streamOf b"
    using arrives_first [of drops, OF assms(11) seg(2)] arrives_halves [of drops, OF assms(11,12) base(2) assms(10) base(1) fk(3) seg(1) fk(2)]
      arrives_dropped [of drops, OF assms(11), where s = "[]"] by simp
  then show ?thesis
    using assms(1,2,3,4,5) fk(1) tfo w' by (auto simp: dialRoot_def dialFake_def tfoPayload_def asksNothing_def Let_def split: protocol.splits)
qed

definition fakeOutbound :: outbound where
  "fakeOutbound = Outbound [] [] (HINT_IPV4 OR HINT_TTL OR HINT_REVERSE) 0 8 0 DIRECT [] [] 65535 None"

definition sampleRoot :: dialEnv where
  "sampleRoot = sampleDial\<lparr>de_Dial := (\<lambda>_ _. Inr \<lparr>wr_conn = \<lparr>tc_in = [], tc_out = [], tc_left = 60\<rparr>, wr_log = [],
     wr_syn = Some \<lparr>ci_Seq = 4294967295, ci_Ack = 9, ci_Window = 100, ci_Options = []\<rparr>\<rparr>)\<rparr>"

theorem dialRoot_delivers_witness:
  "\<exists>w'. dialRoot sampleRoot fakeOutbound [97, 46, 98] 443 [22, 3, 1, 0, 7, 97, 97, 46, 98, 98, 0] 5 5 [([10, 0, 0, 2], 443)] = Ok w'
    \<and> arrives (\<lambda>p. pk_TTL p \<noteq> None) 0 0 Map.empty (wr_log w') = streamOf [22, 3, 1, 0, 7, 97, 97, 46, 98, 98, 0]"
proof -
  let ?w = "\<lparr>wr_conn = \<lparr>tc_in = [], tc_out = [], tc_left = 60\<rparr>, wr_log = [],
     wr_syn = Some \<lparr>ci_Seq = 4294967295, ci_Ack = 9, ci_Window = 100, ci_Options = []\<rparr>\<rparr>"
  have loop: "fakeLoop sampleRoot fakeOutbound [] 0 [([10, 0, 0, 2], 443)] = Inr ?w"
    by (simp add: sampleRoot_def fakeOutbound_def localAddr_def)
  have "u32 (4294967295 + 1) = 0"
    by (simp add: u32_def)
  with dialRoot_delivers [OF _ _ _ _ loop refl [THEN trans], of "\<lparr>ci_Seq = 4294967295, ci_Ack = 9, ci_Window = 100, ci_Options = []\<rparr>"
      "[22, 3, 1, 0, 7, 97, 97, 46, 98, 98, 0]" 5 5 "\<lambda>p. pk_TTL p \<noteq> None" "[97, 46, 98]" 443]
  show ?thesis
    by (simp add: sampleRoot_def sampleDial_def fakeOutbound_def hint_defs asksNothing_def fakeHint_def fakePacket_def)
qed

end
