(* ===== verification/Udp_TProxy.thy ===== *)
theory Udp_TProxy
  imports Quic_Proxy Dns_Service Socks_Wire
begin

text \<open>
  The transparent UDP proxy (\<open>phantomtcp/udp_linux.go\<close>): a loop that reads datagrams hands each
  to the session of its two addresses, or to the datagrams that wait for a QUIC hello, and every
  session runs on its own. The locks of the code make its critical sections the steps here: the
  loop looks up, then adds to a queue or to what is pending; a session takes a packet, then
  gives back its size, then writes it.
\<close>

unbundle bit_operations_syntax

subsection \<open>Addresses\<close>

record udpAddr =
  ua_IP :: bytes
  ua_Port :: int
  ua_Zone :: gostr

type_synonym addrPort = "bytes \<times> gostr \<times> nat"

text \<open>\<open>udpAddrPort\<close>: IPv4 in four bytes, and a zone for IPv6 only; \<open>[]\<close> is the invalid address.\<close>

definition udpAddrPort :: "udpAddr \<Rightarrow> addrPort" where
  "udpAddrPort addr =
    (let ip = (if length (ua_IP addr) = 4 \<or> length (ua_IP addr) = 16 then
                 (if To4 (ua_IP addr) \<noteq> [] then To4 (ua_IP addr) else ua_IP addr) else [])
     in (ip, if length ip = 16 then ua_Zone addr else [], nat (ua_Port addr mod 65536)))"

type_synonym tproxyUDPSessionKey = "addrPort \<times> addrPort"

text \<open>
  \<open>udpSockaddr\<close>: the address family, the address, the port and the zone of a socket; a zone is
  a number or the name of an interface.
\<close>

datatype sockaddr = SockaddrInet4 bytes int | SockaddrInet6 bytes int nat

definition udpSockaddr :: "(gostr \<Rightarrow> nat option) \<Rightarrow> udpAddr \<Rightarrow> error + sockaddr" where
  "udpSockaddr interfaces addr =
    (if ua_IP addr = [] then Inl ''missing UDP address''
     else if ua_Port addr < 0 \<or> ua_Port addr > 65535 then Inl ''invalid UDP port''
     else if To4 (ua_IP addr) \<noteq> [] then Inr (SockaddrInet4 (To4 (ua_IP addr)) (ua_Port addr))
     else if To16 (ua_IP addr) = [] then Inl ''invalid UDP IP address''
     else if ua_Zone addr = [] then Inr (SockaddrInet6 (To16 (ua_IP addr)) (ua_Port addr) 0)
     else
       (case ParseUint (ua_Zone addr) 32 of
          Some zone \<Rightarrow> Inr (SockaddrInet6 (To16 (ua_IP addr)) (ua_Port addr) zone)
        | None \<Rightarrow>
           (case interfaces (ua_Zone addr) of
              None \<Rightarrow> Inl ''resolve IPv6 zone''
            | Some i \<Rightarrow> Inr (SockaddrInet6 (To16 (ua_IP addr)) (ua_Port addr) (u32 i)))))"

text \<open>\<open>zoneName\<close> and \<open>parseOrigDst\<close>: the original destination in the first message that has one.\<close>

definition zoneName :: "(nat \<Rightarrow> gostr option) \<Rightarrow> nat \<Rightarrow> gostr" where
  "zoneName interfaces zone =
    (if zone = 0 then [] else (case interfaces zone of Some name \<Rightarrow> name | None \<Rightarrow> intString (int zone)))"

fun parseOrigDst :: "(nat \<Rightarrow> gostr option) \<Rightarrow> sockaddr option list \<Rightarrow> error + udpAddr" where
  "parseOrigDst interfaces [] = Inl ''no original destination''"
| "parseOrigDst interfaces (None # msgs) = parseOrigDst interfaces msgs"
| "parseOrigDst interfaces (Some (SockaddrInet4 ip port) # msgs) = Inr \<lparr>ua_IP = ip, ua_Port = port, ua_Zone = []\<rparr>"
| "parseOrigDst interfaces (Some (SockaddrInet6 ip port zone) # msgs) =
    Inr \<lparr>ua_IP = ip, ua_Port = port, ua_Zone = zoneName interfaces zone\<rparr>"

subsection \<open>State\<close>

definition tproxyUDPMaxSessions :: nat where "tproxyUDPMaxSessions = 1024"
definition tproxyUDPMaxPending :: nat where "tproxyUDPMaxPending = 32"
definition tproxyUDPMaxPendingSize :: nat where "tproxyUDPMaxPendingSize = 256 * 1024"
definition tproxyUDPMaxDialWorkers :: nat where "tproxyUDPMaxDialWorkers = 64"

text \<open>
  Where the run of a session is: it waits for a place among those that dial, dials, writes the
  first datagrams, empties the queue, serves; and in its deferred \<open>remove\<close> it returns, is
  closed but still listed, and is gone. The replies are read by a run of their own.
\<close>

datatype runPc = Setup "bytes list" | Dialing "bytes list" | Initials "bytes list" | Flushing | Serving
  | Returning | Removing | Gone

datatype relayPc = RelayOff | RelayOn | RelayDone

text \<open>
  A session: the connection, outbound and rewriter of a QUIC session; the packet it has taken
  from its queue, and whether that still counts in its size. The last three fields are history:
  the datagrams it started with, those it accepted later, and those it wrote.
\<close>

record tproxyUDPSession = quicProxySession +
  ts_key :: tproxyUDPSessionKey
  ts_src :: udpAddr
  ts_dst :: udpAddr
  ts_host :: gostr
  ts_upstream :: "bytes list"
  ts_relayError :: bool
  ts_closed :: bool
  ts_queuedSize :: nat
  ts_pc :: runPc
  ts_taken :: "(bytes \<times> bool) option"
  ts_relay :: relayPc
  ts_initials :: "bytes list"
  ts_accepted :: "bytes list"
  ts_written :: "bytes list"

record tproxyPendingSession =
  tp_id :: nat
  tp_src :: udpAddr
  tp_dst :: udpAddr
  tp_initial :: quicInitialPending

text \<open>Between two critical sections the loop holds a session or a pending entry.\<close>

datatype loopPc = Reading | Enqueueing nat bytes | Continuing tproxyUDPSessionKey nat bytes int

text \<open>Sessions live in a heap and are known by their place in it.\<close>

record tproxyState =
  tu_heap :: "tproxyUDPSession list"
  tu_sessions :: "(tproxyUDPSessionKey \<times> nat) list"
  tu_pending :: "(tproxyUDPSessionKey \<times> tproxyPendingSession) list"
  tu_dialSem :: nat
  tu_next :: nat
  tu_loop :: loopPc

definition tproxyState0 :: tproxyState where
  "tproxyState0 = \<lparr>tu_heap = [], tu_sessions = [], tu_pending = [], tu_dialSem = 0, tu_next = 0, tu_loop = Reading\<rparr>"

text \<open>The fake addresses; whether the local socket is opened and the deadline is set.\<close>

record tproxyEnv = proxyEnv +
  te_nose :: "(gostr \<times> outbound option) list"
  te_local :: bool
  te_deadline :: bool

subsection \<open>The loop\<close>

text \<open>\<open>None\<close> is a panic, for an address of another length; the kernel gives none.\<close>

definition getTProxyUDPTarget :: "tproxyEnv \<Rightarrow> udpAddr \<Rightarrow> (gostr \<times> outbound option) option" where
  "getTProxyUDPTarget env dst =
    (let ip4 = To4 (ua_IP dst) in
     if ip4 \<noteq> [] \<and> hd ip4 = VirtualAddrPrefix then
       (let index = be_nat (take 2 (drop 2 ip4)) in
        Some (if index < length (te_nose env) then te_nose env ! index else ([], None)))
     else
       (case pe_profile env of None \<Rightarrow> Some (IPString (ua_IP dst), None)
        | Some profile \<Rightarrow> map_option (Pair (IPString (ua_IP dst))) (GetOutboundByIP profile (pe_default env) (ua_IP dst))))"

definition tproxyUDPAllowed :: "outbound option \<Rightarrow> bytes \<Rightarrow> bool" where
  "tproxyUDPAllowed ob data =
    (case ob of None \<Rightarrow> False
     | Some ob \<Rightarrow> ob_Hint ob AND HINT_UDP \<noteq> 0 \<or> ob_Hint ob AND HINT_HTTP3 \<noteq> 0 \<and> isQUICInitialDatagram data)"

definition newSession :: "tproxyUDPSessionKey \<Rightarrow> udpAddr \<Rightarrow> udpAddr \<Rightarrow> gostr \<Rightarrow> outbound \<Rightarrow> bytes list \<Rightarrow> tproxyUDPSession" where
  "newSession key src dst host ob datagrams =
    \<lparr>qs_conn = 0, qs_outbound = ob, qs_rewriter = (if ob_Hint ob AND HINT_HTTP3 \<noteq> 0 then Some quicRewriter0 else None),
     ts_key = key, ts_src = src, ts_dst = dst, ts_host = host, ts_upstream = [], ts_relayError = False, ts_closed = False,
     ts_queuedSize = 0, ts_pc = Setup datagrams, ts_taken = None, ts_relay = RelayOff,
     ts_initials = datagrams, ts_accepted = [], ts_written = []\<rparr>"

definition startSession ::
  "tproxyUDPSessionKey \<Rightarrow> udpAddr \<Rightarrow> udpAddr \<Rightarrow> gostr \<Rightarrow> outbound \<Rightarrow> bytes list \<Rightarrow> tproxyState \<Rightarrow> tproxyState" where
  "startSession key src dst host ob datagrams st =
    (if datagrams = [] \<or> map_of (tu_sessions st) key \<noteq> None \<or> length (tu_sessions st) \<ge> tproxyUDPMaxSessions then st
     else st\<lparr>tu_heap := tu_heap st @ [newSession key src dst host ob datagrams],
             tu_sessions := AList.update key (length (tu_heap st)) (tu_sessions st)\<rparr>)"

text \<open>The first critical section of \<open>dispatch\<close>.\<close>

definition dispatch :: "tproxyEnv \<Rightarrow> int \<Rightarrow> udpAddr \<Rightarrow> udpAddr \<Rightarrow> bytes \<Rightarrow> tproxyState \<Rightarrow> tproxyState option" where
  "dispatch env now src dst data st =
    (let key = (udpAddrPort src, udpAddrPort dst) in
     case map_of (tu_sessions st) key of
       Some i \<Rightarrow> Some (st\<lparr>tu_loop := Enqueueing i data\<rparr>)
     | None \<Rightarrow>
        (case map_of (tu_pending st) key of
           Some p \<Rightarrow> Some (st\<lparr>tu_loop := Continuing key (tp_id p) data now\<rparr>)
         | None \<Rightarrow>
            (if length (tu_sessions st) + length (tu_pending st) \<ge> tproxyUDPMaxSessions then Some st
             else
               (case getTProxyUDPTarget env dst of None \<Rightarrow> None
                | Some (host, None) \<Rightarrow> Some st
                | Some (host, Some ob) \<Rightarrow>
                   (if \<not> tproxyUDPAllowed (Some ob) data then Some st
                    else if ob_Hint ob AND HINT_HTTP3 \<noteq> 0 \<and> isQUICInitialDatagram data then
                      Some (st\<lparr>tu_pending := AList.update key \<lparr>tp_id = tu_next st, tp_src = src, tp_dst = dst, tp_initial = quicPending0\<rparr> (tu_pending st),
                               tu_next := tu_next st + 1, tu_loop := Continuing key (tu_next st) data now\<rparr>)
                    else Some (startSession key src dst host ob [data] st))))))"

text \<open>\<open>enqueue\<close>: a closed or full session drops the datagram.\<close>

definition enqueue :: "bytes \<Rightarrow> tproxyUDPSession \<Rightarrow> tproxyUDPSession" where
  "enqueue data session =
    (if ts_closed session then session
     else if ts_queuedSize session + length data > tproxyUDPMaxPendingSize then session
     else if length (ts_upstream session) \<ge> tproxyUDPMaxPending then session
     else session\<lparr>ts_upstream := ts_upstream session @ [data], ts_queuedSize := ts_queuedSize session + length data,
                  ts_accepted := ts_accepted session @ [data]\<rparr>)"

definition setSession :: "nat \<Rightarrow> tproxyUDPSession \<Rightarrow> tproxyState \<Rightarrow> tproxyState" where
  "setSession i session st = st\<lparr>tu_heap := (tu_heap st)[i := session]\<rparr>"

text \<open>\<open>continuePending\<close>, for an entry that may have been replaced meanwhile.\<close>

definition continuePending ::
  "tproxyEnv \<Rightarrow> tproxyUDPSessionKey \<Rightarrow> nat \<Rightarrow> bytes \<Rightarrow> int \<Rightarrow> tproxyState \<Rightarrow> tproxyState option" where
  "continuePending env key i data now st =
    (let st = st\<lparr>tu_loop := Reading\<rparr>;
         deleted = st\<lparr>tu_pending := AList.delete key (tu_pending st)\<rparr>
     in case map_of (tu_pending st) key of None \<Rightarrow> Some st
        | Some p \<Rightarrow>
           (if tp_id p \<noteq> i then Some st
            else if pendingExpired (tp_initial p) now then Some deleted
            else
              (case pendingAdd (tp_initial p) data now of
                 (Inl _, _) \<Rightarrow> Some deleted
               | (Inr sni, q) \<Rightarrow>
                  (if pendingOverLimit q then Some deleted
                   else if sni = [] then Some (st\<lparr>tu_pending := AList.update key (p\<lparr>tp_initial := q\<rparr>) (tu_pending st)\<rparr>)
                   else
                     (case getTProxyUDPTarget env (tp_dst p) of None \<Rightarrow> None
                      | Some (host, None) \<Rightarrow> Some deleted
                      | Some (host, Some ob) \<Rightarrow>
                          Some (startSession key (tp_src p) (tp_dst p) host ob (pendingDatagrams q) deleted))))))"

subsection \<open>The run of a session\<close>

definition returning :: "tproxyUDPSession \<Rightarrow> tproxyUDPSession" where
  "returning session = session\<lparr>ts_pc := Returning, ts_taken := None\<rparr>"

definition runWrite :: "tproxyEnv \<Rightarrow> bytes \<Rightarrow> tproxyUDPSession \<Rightarrow> proxyEffect list \<times> bool \<times> tproxyUDPSession" where
  "runWrite env d session =
    (case quicProxyWriteUpstream (proxyEnv.truncate env) session d of (out, ok, session) \<Rightarrow>
       (out, ok, session\<lparr>ts_written := ts_written session @ [d]\<rparr>))"

text \<open>The result of dialling, with the local socket first; with \<open>zero\<close> a packet of zeros goes first.\<close>

definition runDial :: "tproxyEnv \<Rightarrow> bytes list \<Rightarrow> tproxyUDPSession \<Rightarrow> proxyEffect list \<times> tproxyUDPSession" where
  "runDial env datagrams session =
    (if \<not> te_local env then ([], returning session)
     else
       (case pe_dial env (qs_outbound session) (ts_host session) (nat (ua_Port (ts_dst session))) of
          None \<Rightarrow> ([], returning session)
        | Some conn \<Rightarrow>
           (let session = session\<lparr>qs_conn := conn, ts_pc := Initials datagrams\<rparr>; zero = replicate (8 + pe_random env) 0 in
            if ob_Hint (qs_outbound session) AND HINT_ZERO = 0 then ([], session)
            else if pe_accepts env conn zero then ([Upstream conn zero], session)
            else ([], returning session))))"

definition runInitial :: "tproxyEnv \<Rightarrow> bytes \<Rightarrow> bytes list \<Rightarrow> tproxyUDPSession \<Rightarrow> proxyEffect list \<times> tproxyUDPSession" where
  "runInitial env d ds session =
    (case runWrite env d session of (out, ok, session) \<Rightarrow> (out, if ok then session\<lparr>ts_pc := Initials ds\<rparr> else returning session))"

text \<open>A packet of the queue: taken, no longer counted, and written.\<close>

definition runTake :: "tproxyUDPSession \<Rightarrow> tproxyUDPSession" where
  "runTake session = session\<lparr>ts_taken := Some (hd (ts_upstream session), True), ts_upstream := tl (ts_upstream session)\<rparr>"

definition runCount :: "bytes \<Rightarrow> tproxyUDPSession \<Rightarrow> tproxyUDPSession" where
  "runCount d session = session\<lparr>ts_taken := Some (d, False), ts_queuedSize := ts_queuedSize session - length d\<rparr>"

definition runPacket :: "tproxyEnv \<Rightarrow> bytes \<Rightarrow> tproxyUDPSession \<Rightarrow> proxyEffect list \<times> tproxyUDPSession" where
  "runPacket env d session =
    (case runWrite env d session of (out, ok, session) \<Rightarrow>
       (out, if ok \<and> te_deadline env then session\<lparr>ts_taken := None\<rparr> else returning session))"

text \<open>The queue was empty: from now on replies are read.\<close>

definition runServe :: "tproxyEnv \<Rightarrow> tproxyUDPSession \<Rightarrow> tproxyUDPSession" where
  "runServe env session =
    (if te_deadline env then session\<lparr>ts_pc := Serving, ts_relay := RelayOn\<rparr> else returning session)"

text \<open>\<open>remove\<close>: the session is closed, and then its own entry deleted.\<close>

definition removeClose :: "tproxyUDPSession \<Rightarrow> tproxyUDPSession" where
  "removeClose session = (if ts_closed session then session\<lparr>ts_pc := Gone\<rparr> else session\<lparr>ts_closed := True, ts_pc := Removing\<rparr>)"

definition removeEntry :: "nat \<Rightarrow> tproxyUDPSession \<Rightarrow> tproxyState \<Rightarrow> tproxyState" where
  "removeEntry i session st =
    (setSession i (session\<lparr>ts_pc := Gone\<rparr>) st)\<lparr>tu_sessions :=
      (if map_of (tu_sessions st) (ts_key session) = Some i then AList.delete (ts_key session) (tu_sessions st) else tu_sessions st)\<rparr>"

text \<open>
  One turn of \<open>relayReplies\<close>, \<open>None\<close> a failed read; an error is left for the run, or for nobody
  when the session is closed.
\<close>

definition relayReplies :: "tproxyEnv \<Rightarrow> bool \<Rightarrow> bytes option \<Rightarrow> tproxyUDPSession \<Rightarrow> proxyEffect list \<times> tproxyUDPSession" where
  "relayReplies env sent reply session =
    (let failed = session\<lparr>ts_relay := RelayDone, ts_relayError := (if ts_closed session then ts_relayError session else True)\<rparr> in
     case reply of None \<Rightarrow> ([], failed)
     | Some d \<Rightarrow>
        (let (d, rewriter) = rewriteServer (qs_rewriter session) (take quicUDPPacketSize d);
             out = (if sent then [Downstream (JoinHostPort (IPString (ua_IP (ts_src session))) (intString (ua_Port (ts_src session)))) d] else [])
         in (out, if sent \<and> te_deadline env then session\<lparr>qs_rewriter := rewriter\<rparr> else failed\<lparr>qs_rewriter := rewriter\<rparr>)))"

end
