(* ===== verification/Udp_TProxy_Properties.thy ===== *)
theory Udp_TProxy_Properties
  imports Udp_TProxy "HOL-Library.Sublist"
begin

text \<open>
  The transparent UDP proxy as a step relation, the loop and the runs of all sessions
  interleaved; its bounds, and that a session writes the datagrams it accepted in their order.
\<close>

unbundle bit_operations_syntax

subsection \<open>Steps\<close>

inductive tproxyStep :: "tproxyState \<Rightarrow> tproxyState \<Rightarrow> bool" where
  dispatch: "tu_loop st = Reading \<Longrightarrow> dispatch env now src dst data st = Some st' \<Longrightarrow> tproxyStep st st'"
| enqueue: "tu_loop st = Enqueueing i data \<Longrightarrow>
    tproxyStep st ((setSession i (enqueue data (tu_heap st ! i)) st)\<lparr>tu_loop := Reading\<rparr>)"
| pending: "tu_loop st = Continuing key n data now \<Longrightarrow> continuePending env key n data now st = Some st' \<Longrightarrow> tproxyStep st st'"
| acquire: "i < length (tu_heap st) \<Longrightarrow> ts_pc (tu_heap st ! i) = Setup ds \<Longrightarrow> tu_dialSem st < tproxyUDPMaxDialWorkers \<Longrightarrow>
    tproxyStep st ((setSession i ((tu_heap st ! i)\<lparr>ts_pc := Dialing ds\<rparr>) st)\<lparr>tu_dialSem := tu_dialSem st + 1\<rparr>)"
| timeout: "i < length (tu_heap st) \<Longrightarrow> ts_pc (tu_heap st ! i) = Setup ds \<Longrightarrow>
    tproxyStep st (setSession i (returning (tu_heap st ! i)) st)"
| dial: "i < length (tu_heap st) \<Longrightarrow> ts_pc (tu_heap st ! i) = Dialing ds \<Longrightarrow> runDial env ds (tu_heap st ! i) = (out, s) \<Longrightarrow>
    tproxyStep st ((setSession i s st)\<lparr>tu_dialSem := tu_dialSem st - 1\<rparr>)"
| initial: "i < length (tu_heap st) \<Longrightarrow> ts_pc (tu_heap st ! i) = Initials (d # ds) \<Longrightarrow> runInitial env d ds (tu_heap st ! i) = (out, s) \<Longrightarrow>
    tproxyStep st (setSession i s st)"
| flush: "i < length (tu_heap st) \<Longrightarrow> ts_pc (tu_heap st ! i) = Initials [] \<Longrightarrow>
    tproxyStep st (setSession i ((tu_heap st ! i)\<lparr>ts_pc := Flushing\<rparr>) st)"
| take: "i < length (tu_heap st) \<Longrightarrow> ts_pc (tu_heap st ! i) \<in> {Flushing, Serving} \<Longrightarrow> ts_taken (tu_heap st ! i) = None \<Longrightarrow>
    ts_upstream (tu_heap st ! i) \<noteq> [] \<Longrightarrow> tproxyStep st (setSession i (runTake (tu_heap st ! i)) st)"
| count: "i < length (tu_heap st) \<Longrightarrow> ts_taken (tu_heap st ! i) = Some (d, True) \<Longrightarrow>
    tproxyStep st (setSession i (runCount d (tu_heap st ! i)) st)"
| packet: "i < length (tu_heap st) \<Longrightarrow> ts_taken (tu_heap st ! i) = Some (d, False) \<Longrightarrow> runPacket env d (tu_heap st ! i) = (out, s) \<Longrightarrow>
    tproxyStep st (setSession i s st)"
| serve: "i < length (tu_heap st) \<Longrightarrow> ts_pc (tu_heap st ! i) = Flushing \<Longrightarrow> ts_taken (tu_heap st ! i) = None \<Longrightarrow>
    ts_upstream (tu_heap st ! i) = [] \<Longrightarrow> tproxyStep st (setSession i (runServe env (tu_heap st ! i)) st)"
| relayError: "i < length (tu_heap st) \<Longrightarrow> ts_pc (tu_heap st ! i) = Serving \<Longrightarrow> ts_taken (tu_heap st ! i) = None \<Longrightarrow>
    ts_relayError (tu_heap st ! i) \<Longrightarrow> tproxyStep st (setSession i (returning (tu_heap st ! i)) st)"
| close: "i < length (tu_heap st) \<Longrightarrow> ts_pc (tu_heap st ! i) = Returning \<Longrightarrow>
    tproxyStep st (setSession i (removeClose (tu_heap st ! i)) st)"
| remove: "i < length (tu_heap st) \<Longrightarrow> ts_pc (tu_heap st ! i) = Removing \<Longrightarrow>
    tproxyStep st (removeEntry i (tu_heap st ! i) st)"
| reply: "i < length (tu_heap st) \<Longrightarrow> ts_relay (tu_heap st ! i) = RelayOn \<Longrightarrow> relayReplies env sent r (tu_heap st ! i) = (out, s) \<Longrightarrow>
    tproxyStep st (setSession i s st)"

subsection \<open>The invariant of a session\<close>

text \<open>The first datagrams that are still to be written, and the packet in the hand of the run.\<close>

definition pcRest :: "runPc \<Rightarrow> bytes list" where
  "pcRest pc = (case pc of Setup ds \<Rightarrow> ds | Dialing ds \<Rightarrow> ds | Initials ds \<Rightarrow> ds | _ \<Rightarrow> [])"

definition inHand :: "tproxyUDPSession \<Rightarrow> bytes list" where
  "inHand s = (case ts_taken s of Some (d, _) \<Rightarrow> [d] | None \<Rightarrow> [])"

definition counted :: "tproxyUDPSession \<Rightarrow> nat" where
  "counted s = (case ts_taken s of Some (d, True) \<Rightarrow> length d | _ \<Rightarrow> 0)"

definition leavingPc :: "runPc \<Rightarrow> bool" where
  "leavingPc pc \<longleftrightarrow> pc \<in> {Returning, Removing, Gone}"

definition tproxyQueueOk :: "tproxyUDPSession \<Rightarrow> bool" where
  "tproxyQueueOk s \<longleftrightarrow> length (ts_upstream s) \<le> tproxyUDPMaxPending \<and> ts_queuedSize s \<le> tproxyUDPMaxPendingSize
    \<and> (leavingPc (ts_pc s) \<or> ts_queuedSize s = sum_list (map length (ts_upstream s)) + counted s)"

definition orderOk :: "tproxyUDPSession \<Rightarrow> bool" where
  "orderOk s \<longleftrightarrow> prefix (ts_written s) (ts_initials s @ ts_accepted s)
    \<and> (leavingPc (ts_pc s) \<or> ts_written s @ pcRest (ts_pc s) @ inHand s @ ts_upstream s = ts_initials s @ ts_accepted s)"

definition sessionOk :: "tproxyUDPSession \<Rightarrow> bool" where
  "sessionOk s \<longleftrightarrow> tproxyQueueOk s \<and> orderOk s \<and> (ts_closed s \<longleftrightarrow> ts_pc s \<in> {Removing, Gone})
    \<and> (ts_taken s \<noteq> None \<longrightarrow> ts_pc s \<in> {Flushing, Serving})"

lemmas session_simps = sessionOk_def tproxyQueueOk_def orderOk_def leavingPc_def pcRest_def inHand_def counted_def

lemma newSession_ok: "sessionOk (newSession key src dst host ob ds)"
  by (simp add: session_simps newSession_def)

lemma prefix_more: "prefix w (i @ a) \<Longrightarrow> prefix w (i @ a @ b)"
  by (metis append.assoc prefix_prefix)

lemma enqueue_ok: "sessionOk s \<Longrightarrow> sessionOk (enqueue d s)"
  by (auto simp: session_simps enqueue_def intro: prefix_more split: option.splits)

lemma returning_ok:
  assumes "sessionOk s" "\<not> leavingPc (ts_pc s)"
  shows "sessionOk (returning s)"
  using assms by (auto simp: session_simps returning_def)

lemma tproxy_acquire_ok: "sessionOk s \<Longrightarrow> ts_pc s = Setup ds \<Longrightarrow> sessionOk (s\<lparr>ts_pc := Dialing ds\<rparr>)"
  by (auto simp: session_simps)

lemma quicWrite_rest:
  "quicProxyWriteUpstream env s d = (out, ok, s') \<Longrightarrow> tproxyUDPSession.more s' = tproxyUDPSession.more s
    \<and> ts_key s' = ts_key s \<and> ts_upstream s' = ts_upstream s \<and> ts_closed s' = ts_closed s \<and> ts_queuedSize s' = ts_queuedSize s
    \<and> ts_pc s' = ts_pc s \<and> ts_taken s' = ts_taken s \<and> ts_initials s' = ts_initials s \<and> ts_accepted s' = ts_accepted s
    \<and> ts_written s' = ts_written s" for s :: tproxyUDPSession
  by (auto simp: quicProxyWriteUpstream_def split: option.splits prod.splits if_splits)

lemma runWrite_rest:
  "runWrite env d s = (out, ok, s') \<Longrightarrow> ts_key s' = ts_key s \<and> ts_upstream s' = ts_upstream s \<and> ts_closed s' = ts_closed s
    \<and> ts_queuedSize s' = ts_queuedSize s \<and> ts_pc s' = ts_pc s \<and> ts_taken s' = ts_taken s \<and> ts_initials s' = ts_initials s
    \<and> ts_accepted s' = ts_accepted s \<and> ts_written s' = ts_written s @ [d]"
  by (auto simp: runWrite_def split: prod.splits dest: quicWrite_rest)

lemma prefix_middle: "w @ d # r = i @ a \<Longrightarrow> prefix (w @ [d]) (i @ a)"
  by (metis append.assoc append_Cons append_Nil prefixI)

text \<open>For a session that is not leaving, and for one that is.\<close>

lemma aliveD:
  assumes "sessionOk s" "\<not> leavingPc (ts_pc s)"
  shows "length (ts_upstream s) \<le> tproxyUDPMaxPending" "ts_queuedSize s \<le> tproxyUDPMaxPendingSize"
    "ts_queuedSize s = sum_list (map length (ts_upstream s)) + counted s"
    "ts_written s @ pcRest (ts_pc s) @ inHand s @ ts_upstream s = ts_initials s @ ts_accepted s" "\<not> ts_closed s"
  using assms by (auto simp: sessionOk_def tproxyQueueOk_def orderOk_def leavingPc_def)

lemma aliveI:
  assumes "\<not> leavingPc (ts_pc s)" "length (ts_upstream s) \<le> tproxyUDPMaxPending" "ts_queuedSize s \<le> tproxyUDPMaxPendingSize"
    "ts_queuedSize s = sum_list (map length (ts_upstream s)) + counted s"
    "ts_written s @ pcRest (ts_pc s) @ inHand s @ ts_upstream s = ts_initials s @ ts_accepted s" "\<not> ts_closed s"
    "ts_taken s = None \<or> ts_pc s \<in> {Flushing, Serving}"
  shows "sessionOk s"
  using assms prefixI [OF assms(5) [symmetric]] by (auto simp: sessionOk_def tproxyQueueOk_def orderOk_def leavingPc_def)

lemma leavingI:
  assumes "length (ts_upstream s) \<le> tproxyUDPMaxPending" "ts_queuedSize s \<le> tproxyUDPMaxPendingSize"
    "prefix (ts_written s) (ts_initials s @ ts_accepted s)" "\<not> ts_closed s"
  shows "sessionOk (returning s)"
  using assms by (simp add: sessionOk_def tproxyQueueOk_def orderOk_def leavingPc_def returning_def)

lemma runInitial_ok:
  assumes "sessionOk s" "ts_pc s = Initials (d # ds)" "runInitial env d ds s = (out, s')"
  shows "sessionOk s'"
proof -
  obtain o1 ok s1 where w: "runWrite env d s = (o1, ok, s1)"
    by (cases "runWrite env d s") auto
  note r = runWrite_rest [OF w]
  have t: "ts_taken s = None"
    using assms(1,2) by (cases "ts_taken s") (auto simp: sessionOk_def)
  have alive: "\<not> leavingPc (ts_pc s)"
    by (simp add: leavingPc_def assms(2))
  note a = aliveD [OF assms(1) alive]
  have eq: "ts_written s @ d # (ds @ ts_upstream s) = ts_initials s @ ts_accepted s"
    using a(4) t by (simp add: pcRest_def inHand_def assms(2))
  show ?thesis
  proof (cases ok)
    case True
    then have "s' = s1\<lparr>ts_pc := Initials ds\<rparr>"
      using assms(3) w by (simp add: runInitial_def)
    then show ?thesis
      using r a t eq by (intro aliveI) (simp_all add: leavingPc_def pcRest_def inHand_def counted_def)
  next
    case False
    then have s': "s' = returning s1"
      using assms(3) w by (simp add: runInitial_def)
    show ?thesis
      unfolding s' by (rule leavingI) (use r a prefix_middle [OF eq] in simp_all)
  qed
qed

lemma runDial_ok:
  "sessionOk s \<Longrightarrow> ts_pc s = Dialing ds \<Longrightarrow> runDial env ds s = (out, s') \<Longrightarrow> sessionOk s'"
  by (auto simp: runDial_def session_simps returning_def Let_def split: if_splits option.splits)

lemma runTake_ok:
  "sessionOk s \<Longrightarrow> ts_pc s \<in> {Flushing, Serving} \<Longrightarrow> ts_taken s = None \<Longrightarrow> ts_upstream s \<noteq> [] \<Longrightarrow> sessionOk (runTake s)"
  by (cases "ts_upstream s") (auto simp: session_simps runTake_def)

lemma runCount_ok: "sessionOk s \<Longrightarrow> ts_taken s = Some (d, True) \<Longrightarrow> sessionOk (runCount d s)"
  by (auto simp: session_simps runCount_def)

lemma runPacket_ok:
  assumes "sessionOk s" "ts_taken s = Some (d, False)" "runPacket env d s = (out, s')"
  shows "sessionOk s'"
proof -
  obtain o1 ok s1 where w: "runWrite env d s = (o1, ok, s1)"
    by (cases "runWrite env d s") auto
  note r = runWrite_rest [OF w]
  have pc: "ts_pc s \<in> {Flushing, Serving}"
    using assms(1,2) by (simp add: sessionOk_def)
  then have alive: "\<not> leavingPc (ts_pc s)" and rest: "pcRest (ts_pc s) = []"
    by (auto simp: leavingPc_def pcRest_def)
  note a = aliveD [OF assms(1) alive]
  have eq: "ts_written s @ d # ts_upstream s = ts_initials s @ ts_accepted s"
    using a(4) by (simp add: rest inHand_def assms(2))
  show ?thesis
  proof (cases "ok \<and> te_deadline env")
    case True
    then have "s' = s1\<lparr>ts_taken := None\<rparr>"
      using assms(3) w by (simp add: runPacket_def)
    then show ?thesis
      using r a alive rest eq assms(2) by (intro aliveI) (simp_all add: inHand_def counted_def)
  next
    case False
    then have s': "s' = returning s1"
      using assms(3) w by (auto simp: runPacket_def)
    show ?thesis
      unfolding s' by (rule leavingI) (use r a prefix_middle [OF eq] in simp_all)
  qed
qed

lemma runServe_ok: "sessionOk s \<Longrightarrow> ts_pc s = Flushing \<Longrightarrow> ts_taken s = None \<Longrightarrow> sessionOk (runServe env s)"
  by (auto simp: session_simps runServe_def returning_def)

lemma flush_ok: "sessionOk s \<Longrightarrow> ts_pc s = Initials [] \<Longrightarrow> sessionOk (s\<lparr>ts_pc := Flushing\<rparr>)"
  by (auto simp: session_simps)

lemma removeClose_ok: "sessionOk s \<Longrightarrow> ts_pc s = Returning \<Longrightarrow> sessionOk (removeClose s)"
  by (auto simp: session_simps removeClose_def)

lemma gone_ok: "sessionOk s \<Longrightarrow> ts_pc s = Removing \<Longrightarrow> sessionOk (s\<lparr>ts_pc := Gone\<rparr>)"
  by (auto simp: session_simps)

lemma relayReplies_rest:
  "relayReplies env sent r s = (out, s') \<Longrightarrow> ts_key s' = ts_key s \<and> ts_upstream s' = ts_upstream s \<and> ts_closed s' = ts_closed s
    \<and> ts_queuedSize s' = ts_queuedSize s \<and> ts_pc s' = ts_pc s \<and> ts_taken s' = ts_taken s \<and> ts_initials s' = ts_initials s
    \<and> ts_accepted s' = ts_accepted s \<and> ts_written s' = ts_written s"
  by (auto simp: relayReplies_def Let_def split: option.splits prod.splits if_splits)

lemma relayReplies_ok: "sessionOk s \<Longrightarrow> relayReplies env sent r s = (out, s') \<Longrightarrow> sessionOk s'"
  by (drule relayReplies_rest) (simp add: session_simps)

subsection \<open>The invariant of the proxy\<close>

definition isDialing :: "tproxyUDPSession \<Rightarrow> bool" where
  "isDialing s \<longleftrightarrow> (case ts_pc s of Dialing _ \<Rightarrow> True | _ \<Rightarrow> False)"

text \<open>A session is listed, under its key, until it is gone.\<close>

definition listedOk :: "tproxyState \<Rightarrow> bool" where
  "listedOk st \<longleftrightarrow> (\<forall>i < length (tu_heap st).
      ts_pc (tu_heap st ! i) \<noteq> Gone \<longleftrightarrow> map_of (tu_sessions st) (ts_key (tu_heap st ! i)) = Some i)
    \<and> (\<forall>key i. map_of (tu_sessions st) key = Some i \<longrightarrow> i < length (tu_heap st) \<and> ts_key (tu_heap st ! i) = key)"

definition tablesOk :: "tproxyState \<Rightarrow> bool" where
  "tablesOk st \<longleftrightarrow> distinct (map fst (tu_sessions st)) \<and> distinct (map fst (tu_pending st))
    \<and> keys (tu_sessions st) \<inter> keys (tu_pending st) = {}
    \<and> length (tu_sessions st) + length (tu_pending st) \<le> tproxyUDPMaxSessions
    \<and> (\<forall>p \<in> vals (tu_pending st). entryOk (tp_initial p))"

definition tproxyOk :: "tproxyState \<Rightarrow> bool" where
  "tproxyOk st \<longleftrightarrow> tablesOk st \<and> listedOk st \<and> (\<forall>s \<in> set (tu_heap st). sessionOk s)
    \<and> tu_dialSem st = length (filter isDialing (tu_heap st)) \<and> tu_dialSem st \<le> tproxyUDPMaxDialWorkers
    \<and> (\<forall>i d. tu_loop st = Enqueueing i d \<longrightarrow> i < length (tu_heap st))"

lemma filter_update:
  "i < length xs \<Longrightarrow> length (filter P (xs[i := x])) + (if P (xs ! i) then 1 else 0) = length (filter P xs) + (if P x then 1 else 0)"
proof (induction xs arbitrary: i)
  case (Cons y ys)
  show ?case
  proof (cases i)
    case (Suc j)
    then show ?thesis
      using Cons.IH [of j] Cons.prems by (simp split: if_splits)
  qed simp
qed simp

text \<open>A step of one session, that keeps its key and does not make it go.\<close>

lemma set_listed:
  assumes "listedOk st" "i < length (tu_heap st)" "ts_key s = ts_key (tu_heap st ! i)" "ts_pc s = Gone \<longleftrightarrow> ts_pc (tu_heap st ! i) = Gone"
  shows "listedOk (setSession i s st)"
  using assms by (auto simp: listedOk_def setSession_def nth_list_update)

lemma tablesOk_set [simp]: "tablesOk (setSession i s st) = tablesOk st"
  by (simp add: tablesOk_def setSession_def)

lemma tproxyOk_set:
  assumes "tproxyOk st" "i < length (tu_heap st)" "sessionOk s" "ts_key s = ts_key (tu_heap st ! i)"
    and "ts_pc s = Gone \<longleftrightarrow> ts_pc (tu_heap st ! i) = Gone"
    and "n + (if isDialing (tu_heap st ! i) then 1 else 0) = tu_dialSem st + (if isDialing s then 1 else 0)" "n \<le> tproxyUDPMaxDialWorkers"
  shows "tproxyOk ((setSession i s st)\<lparr>tu_dialSem := n\<rparr>)"
proof -
  have "n = length (filter isDialing ((tu_heap st)[i := s]))"
    using filter_update [OF assms(2), of isDialing s] assms(1,6) by (simp add: tproxyOk_def)
  moreover have "\<forall>x \<in> set ((tu_heap st)[i := s]). sessionOk x"
    using assms(1,3) set_update_subset_insert [of "tu_heap st" i s] by (auto simp: tproxyOk_def)
  moreover have "listedOk (setSession i s st)"
    using set_listed assms(1,2,4,5) by (simp add: tproxyOk_def)
  moreover have "listedOk (st\<lparr>tu_dialSem := n\<rparr>) = listedOk st" "tablesOk (st\<lparr>tu_dialSem := n\<rparr>) = tablesOk st" for st
    by (simp_all add: listedOk_def tablesOk_def)
  ultimately show ?thesis
    using assms(1,2,7) by (auto simp: tproxyOk_def) (simp_all add: setSession_def)
qed

lemma tproxyOk_session:
  assumes "tproxyOk st" "i < length (tu_heap st)" "sessionOk s" "ts_key s = ts_key (tu_heap st ! i)"
    and "ts_pc s = Gone \<longleftrightarrow> ts_pc (tu_heap st ! i) = Gone" "isDialing s = isDialing (tu_heap st ! i)"
  shows "tproxyOk (setSession i s st)"
proof -
  have "(setSession i s st)\<lparr>tu_dialSem := tu_dialSem st\<rparr> = setSession i s st"
    by (simp add: setSession_def)
  then show ?thesis
    using tproxyOk_set [OF assms(1-5), of "tu_dialSem st"] assms(6) assms(1) [unfolded tproxyOk_def] by auto
qed

text \<open>A new session takes the place of a pending entry, or of none.\<close>

lemma startSession_ok:
  assumes "tproxyOk st" "key \<notin> keys (tu_pending st)"
    and "length (tu_sessions st) + length (tu_pending st) < tproxyUDPMaxSessions" "tu_loop st = Reading"
  shows "tproxyOk (startSession key src dst host ob ds st)"
proof (cases "ds = [] \<or> map_of (tu_sessions st) key \<noteq> None \<or> length (tu_sessions st) \<ge> tproxyUDPMaxSessions")
  case True
  then show ?thesis
    using assms(1) by (simp add: startSession_def)
next
  case False
  let ?s = "newSession key src dst host ob ds"
  let ?st = "st\<lparr>tu_heap := tu_heap st @ [?s], tu_sessions := AList.update key (length (tu_heap st)) (tu_sessions st)\<rparr>"
  have new: "ts_pc ?s \<noteq> Gone" "ts_key ?s = key" "\<not> isDialing ?s" "sessionOk ?s"
    by (simp_all add: newSession_def isDialing_def newSession_ok [unfolded newSession_def])
  have none: "map_of (tu_sessions st) key = None"
    using False by simp
  then have fresh: "key \<notin> keys (tu_sessions st)"
    by (simp add: map_of_fst(2))
  have old: "\<forall>i < length (tu_heap st). ts_pc (tu_heap st ! i) \<noteq> Gone \<longleftrightarrow> map_of (tu_sessions st) (ts_key (tu_heap st ! i)) = Some i"
      "\<forall>k i. map_of (tu_sessions st) k = Some i \<longrightarrow> i < length (tu_heap st) \<and> ts_key (tu_heap st ! i) = k"
    using assms(1) by (auto simp: tproxyOk_def listedOk_def)
  have "listedOk ?st"
    unfolding listedOk_def using old none new(1,2) by (auto simp: nth_append less_Suc_eq alist_simps)
  moreover have "tablesOk ?st"
    using assms(1-3) fresh by (auto simp: tproxyOk_def tablesOk_def alist_simps length_update)
  ultimately have "tproxyOk ?st"
    using assms(1,4) new(3,4) by (auto simp: tproxyOk_def)
  then show ?thesis
    using False by (simp add: startSession_def)
qed

lemma tproxyOk_loop: "tproxyOk st \<Longrightarrow> \<forall>i d. l = Enqueueing i d \<longrightarrow> i < length (tu_heap st) \<Longrightarrow> tproxyOk (st\<lparr>tu_loop := l\<rparr>)"
  by (auto simp: tproxyOk_def tablesOk_def listedOk_def)

lemma tproxyOk_pending:
  assumes "tproxyOk st" "keys ps \<subseteq> insert key (keys (tu_pending st))" "key \<notin> keys (tu_sessions st)" "distinct (map fst ps)"
    and "length (tu_sessions st) + length ps \<le> tproxyUDPMaxSessions" "\<forall>p \<in> vals ps. entryOk (tp_initial p)"
  shows "tproxyOk (st\<lparr>tu_pending := ps\<rparr>)"
  using assms by (auto simp: tproxyOk_def tablesOk_def listedOk_def)

lemma listedD: "tproxyOk st \<Longrightarrow> map_of (tu_sessions st) key = Some i \<Longrightarrow> i < length (tu_heap st) \<and> ts_key (tu_heap st ! i) = key"
  unfolding tproxyOk_def listedOk_def by blast

lemma entryOk_new: "entryOk quicPending0"
  by (simp add: entryOk_def quicPending0_def) (simp add: pendingOk_def collectorOk_def quicCollector0_def clean_def)

lemma updated_entries:
  "tproxyOk st \<Longrightarrow> entryOk (tp_initial q) \<Longrightarrow> \<forall>x \<in> vals (AList.update key q (tu_pending st)). entryOk (tp_initial x)"
  using vals_update [of _ key q "tu_pending st"] by (fastforce simp: tproxyOk_def tablesOk_def)

lemma dispatch_ok:
  assumes ok: "tproxyOk st" and loop: "tu_loop st = Reading" and step: "dispatch env now src dst data st = Some st'"
  shows "tproxyOk st'"
proof -
  let ?key = "(udpAddrPort src, udpAddrPort dst)" and ?p = "\<lparr>tp_id = tu_next st, tp_src = src, tp_dst = dst, tp_initial = quicPending0\<rparr>"
  show ?thesis
  proof (cases "map_of (tu_sessions st) ?key")
    case (Some i)
    then have "i < length (tu_heap st)"
      using listedD [OF ok] by blast
    then show ?thesis
      using ok step Some by (auto simp: dispatch_def intro!: tproxyOk_loop)
  next
    case None
    then have free: "?key \<notin> keys (tu_sessions st)"
      using map_of_fst(2) by metis
    show ?thesis
    proof (cases "map_of (tu_pending st) ?key")
      case (Some p)
      then show ?thesis
        using ok step None by (auto simp: dispatch_def intro!: tproxyOk_loop)
    next
      case none: None
      then have free': "?key \<notin> keys (tu_pending st)"
        using map_of_fst(2) by metis
      let ?st = "st\<lparr>tu_pending := AList.update ?key ?p (tu_pending st)\<rparr>"
      have pend: "tproxyOk ?st" if "length (tu_sessions st) + length (tu_pending st) < tproxyUDPMaxSessions"
        using ok free free' that updated_entries [OF ok, of ?p ?key]
        by (intro tproxyOk_pending) (auto simp: tproxyOk_def tablesOk_def alist_simps length_update entryOk_new)
      have start: "tproxyOk (startSession ?key src dst host ob [data] st)"
        if "length (tu_sessions st) + length (tu_pending st) < tproxyUDPMaxSessions" for host ob
        using startSession_ok [OF ok free' that loop] .
      show ?thesis
      proof (cases "length (tu_sessions st) + length (tu_pending st) \<ge> tproxyUDPMaxSessions")
        case True
        then show ?thesis
          using ok step None none by (simp add: dispatch_def)
      next
        case False
        let ?new = "st\<lparr>tu_pending := AList.update ?key ?p (tu_pending st), tu_next := tu_next st + 1, tu_loop := Continuing ?key (tu_next st) data now\<rparr>"
        have "tproxyOk ?new"
          using pend False by (auto simp: tproxyOk_def tablesOk_def listedOk_def)
        moreover have "st' = st \<or> st' = ?new \<or> (\<exists>host ob. st' = startSession ?key src dst host ob [data] st)"
          using step None none False by (auto simp: dispatch_def Let_def split: option.splits if_splits prod.splits)
        ultimately show ?thesis
          using ok start False by auto
      qed
    qed
  qed
qed

lemma continuePending_ok:
  assumes ok: "tproxyOk st" and step: "continuePending env key n data now st = Some st'"
  shows "tproxyOk st'"
proof -
  let ?st = "st\<lparr>tu_loop := Reading\<rparr>"
  have ok': "tproxyOk ?st"
    using ok by (intro tproxyOk_loop) simp_all
  show ?thesis
  proof (cases "map_of (tu_pending st) key")
    case None
    then show ?thesis
      using ok' step by (simp add: continuePending_def Let_def)
  next
    case (Some p)
    have key: "key \<in> keys (tu_pending st)" "entryOk (tp_initial p)"
      using map_of_fst(1) [OF Some] vals_map_of [OF Some] ok by (auto simp: tproxyOk_def tablesOk_def)
    then have free: "key \<notin> keys (tu_sessions st)"
      using ok by (auto simp: tproxyOk_def tablesOk_def)
    let ?del = "?st\<lparr>tu_pending := AList.delete key (tu_pending st)\<rparr>"
    have less: "length (AList.delete key (tu_pending st)) < length (tu_pending st)"
      using key(1) by (force simp: AList.delete_eq keys_def intro: length_filter_less)
    have del: "tproxyOk ?del"
      using ok' free ok less vals_delete [of _ key "tu_pending st"]
      by (intro tproxyOk_pending [where key = key]) (auto simp: tproxyOk_def tablesOk_def alist_simps)
    have start: "tproxyOk (startSession key src dst host ob ds ?del)" for src dst host ob ds
      using ok less by (intro startSession_ok [OF del]) (auto simp: tproxyOk_def tablesOk_def alist_simps)
    obtain r q where add: "pendingAdd (tp_initial p) data now = (r, q)"
      by (cases "pendingAdd (tp_initial p) data now")
    have upd: "tproxyOk (?st\<lparr>tu_pending := AList.update key (p\<lparr>tp_initial := q\<rparr>) (tu_pending st)\<rparr>)" if "\<not> pendingOverLimit q"
    proof -
      have "entryOk q"
        using pendingAdd_ok [OF _ add] key(2) that by (simp add: entryOk_def pendingOverLimit_def)
      then have "\<forall>x \<in> vals (AList.update key (p\<lparr>tp_initial := q\<rparr>) (tu_pending st)). entryOk (tp_initial x)"
        using updated_entries [OF ok, of "p\<lparr>tp_initial := q\<rparr>" key] by simp
      then show ?thesis
        using ok' ok free key(1)
        by (intro tproxyOk_pending [where key = key]) (auto simp: tproxyOk_def tablesOk_def alist_simps length_update)
    qed
    show ?thesis
      using step Some add by (auto simp: continuePending_def Let_def ok' del start upd split: sum.splits option.splits if_splits prod.splits)
  qed
qed

lemma removeEntry_ok:
  assumes ok: "tproxyOk st" and i: "i < length (tu_heap st)" and pc: "ts_pc (tu_heap st ! i) = Removing"
  shows "tproxyOk (removeEntry i (tu_heap st ! i) st)"
proof -
  let ?s = "tu_heap st ! i"
  let ?gone = "?s\<lparr>ts_pc := Gone\<rparr>"
  have listed: "\<forall>i < length (tu_heap st). ts_pc (tu_heap st ! i) \<noteq> Gone \<longleftrightarrow> map_of (tu_sessions st) (ts_key (tu_heap st ! i)) = Some i"
      "\<forall>k i. map_of (tu_sessions st) k = Some i \<longrightarrow> i < length (tu_heap st) \<and> ts_key (tu_heap st ! i) = k"
    using ok by (simp_all add: tproxyOk_def listedOk_def)
  moreover have "ts_pc ?s \<noteq> Gone"
    using pc by simp
  ultimately have own: "map_of (tu_sessions st) (ts_key ?s) = Some i"
    using i by blast
  let ?st = "st\<lparr>tu_heap := (tu_heap st)[i := ?gone], tu_sessions := AList.delete (ts_key ?s) (tu_sessions st)\<rparr>"
  have st: "removeEntry i ?s st = ?st"
    using own by (simp add: removeEntry_def setSession_def)
  have "listedOk ?st"
    unfolding listedOk_def using listed own i by (auto simp: nth_list_update alist_simps)
  moreover have "tablesOk ?st"
    using ok length_delete [of "ts_key ?s" "tu_sessions st"] by (auto simp: tproxyOk_def tablesOk_def alist_simps)
  moreover have "sessionOk ?gone"
    using ok i pc by (intro gone_ok) (auto simp: tproxyOk_def)
  then have "\<forall>x \<in> set ((tu_heap st)[i := ?gone]). sessionOk x"
    using ok set_update_subset_insert [of "tu_heap st" i ?gone] by (auto simp: tproxyOk_def)
  moreover have "length (filter isDialing ((tu_heap st)[i := ?gone])) = length (filter isDialing (tu_heap st))"
    using filter_update [OF i, of isDialing ?gone] pc by (simp add: isDialing_def)
  ultimately show ?thesis
    unfolding st using ok by (auto simp: tproxyOk_def)
qed

lemma isDialing_simps: "ts_pc s = Dialing ds \<Longrightarrow> isDialing s" "(\<And>ds. ts_pc s \<noteq> Dialing ds) \<Longrightarrow> \<not> isDialing s"
  by (auto simp: isDialing_def split: runPc.splits)

lemma runInitial_rest:
  "runInitial env d ds s = (out, s') \<Longrightarrow> ts_key s' = ts_key s \<and> (ts_pc s' = Initials ds \<or> ts_pc s' = Returning)"
  by (auto simp: runInitial_def returning_def split: prod.splits if_splits dest: runWrite_rest)

lemma runPacket_rest:
  "runPacket env d s = (out, s') \<Longrightarrow> ts_key s' = ts_key s \<and> (ts_pc s' = ts_pc s \<or> ts_pc s' = Returning)"
  by (auto simp: runPacket_def returning_def split: prod.splits if_splits dest: runWrite_rest)

lemma runDial_rest:
  "runDial env ds s = (out, s') \<Longrightarrow> ts_key s' = ts_key s \<and> (ts_pc s' = Initials ds \<or> ts_pc s' = Returning)"
  by (auto simp: runDial_def returning_def Let_def split: option.splits if_splits)

lemma sessionOk_at: "tproxyOk st \<Longrightarrow> i < length (tu_heap st) \<Longrightarrow> sessionOk (tu_heap st ! i)"
  by (auto simp: tproxyOk_def)

lemma dialing_bounds:
  assumes "tproxyOk st" "i < length (tu_heap st)" "isDialing (tu_heap st ! i)"
  shows "0 < tu_dialSem st"
  using assms by (auto simp: tproxyOk_def filter_empty_conv)

lemma enqueue_rest: "ts_key (enqueue d s) = ts_key s \<and> ts_pc (enqueue d s) = ts_pc s"
  by (simp add: enqueue_def)

lemma enqueue_step:
  assumes "tproxyOk st" "tu_loop st = Enqueueing i data"
  shows "tproxyOk ((setSession i (enqueue data (tu_heap st ! i)) st)\<lparr>tu_loop := Reading\<rparr>)"
proof -
  have i: "i < length (tu_heap st)"
    using assms by (simp add: tproxyOk_def)
  have "tproxyOk (setSession i (enqueue data (tu_heap st ! i)) st)"
    using enqueue_ok [OF sessionOk_at [OF assms(1) i]] enqueue_rest
    by (intro tproxyOk_session [OF assms(1) i]) (simp_all add: isDialing_def)
  then show ?thesis
    by (intro tproxyOk_loop) simp_all
qed

lemma tproxyStep_ok:
  assumes ok: "tproxyOk st" and step: "tproxyStep st st'"
  shows "tproxyOk st'"
  using step
proof cases
  case (dispatch env now src dst data)
  then show ?thesis
    using dispatch_ok [OF ok] by blast
next
  case (enqueue i data)
  then show ?thesis
    using enqueue_step [OF ok] by simp
next
  case (pending key n data now env)
  then show ?thesis
    using continuePending_ok [OF ok] by blast
next
  case (acquire i ds)
  then show ?thesis
    using tproxy_acquire_ok [OF sessionOk_at [OF ok]]
    by (simp, intro tproxyOk_set [OF ok]) (simp_all add: isDialing_def)
next
  case (timeout i ds)
  then show ?thesis
    using returning_ok [OF sessionOk_at [OF ok]]
    by (simp, intro tproxyOk_session [OF ok]) (simp_all add: isDialing_def returning_def leavingPc_def)
next
  case (dial i ds env out s)
  then have "0 < tu_dialSem st" "tu_dialSem st \<le> tproxyUDPMaxDialWorkers"
    using dialing_bounds [OF ok] ok by (auto simp: isDialing_def tproxyOk_def)
  then show ?thesis
    using dial runDial_ok [OF sessionOk_at [OF ok] _ dial(4)] runDial_rest [OF dial(4)]
    by (simp, intro tproxyOk_set [OF ok]) (auto simp: isDialing_def)
next
  case (initial i d ds env out s)
  then show ?thesis
    using runInitial_ok [OF sessionOk_at [OF ok] _ initial(4)] runInitial_rest [OF initial(4)]
    by (simp, intro tproxyOk_session [OF ok]) (auto simp: isDialing_def)
next
  case (flush i)
  then show ?thesis
    using flush_ok [OF sessionOk_at [OF ok]] by (simp, intro tproxyOk_session [OF ok]) (simp_all add: isDialing_def)
next
  case (take i)
  then show ?thesis
    using runTake_ok [OF sessionOk_at [OF ok]] by (simp, intro tproxyOk_session [OF ok]) (auto simp: isDialing_def runTake_def)
next
  case (count i d)
  then show ?thesis
    using runCount_ok [OF sessionOk_at [OF ok]] sessionOk_at [OF ok]
    by (simp, intro tproxyOk_session [OF ok]) (auto simp: isDialing_def runCount_def sessionOk_def)
next
  case (packet i d env out s)
  then have "ts_pc (tu_heap st ! i) \<in> {Flushing, Serving}"
    using sessionOk_at [OF ok] by (auto simp: sessionOk_def)
  then show ?thesis
    using packet runPacket_ok [OF sessionOk_at [OF ok] _ packet(4)] runPacket_rest [OF packet(4)]
    by (simp, intro tproxyOk_session [OF ok]) (auto simp: isDialing_def)
next
  case (serve i env)
  then show ?thesis
    using runServe_ok [OF sessionOk_at [OF ok]]
    by (simp, intro tproxyOk_session [OF ok]) (simp_all add: isDialing_def runServe_def returning_def)
next
  case (relayError i)
  then show ?thesis
    using returning_ok [OF sessionOk_at [OF ok]]
    by (simp, intro tproxyOk_session [OF ok]) (simp_all add: isDialing_def returning_def leavingPc_def)
next
  case (close i)
  then have "\<not> ts_closed (tu_heap st ! i)"
    using sessionOk_at [OF ok] by (auto simp: sessionOk_def)
  then show ?thesis
    using close removeClose_ok [OF sessionOk_at [OF ok close(2)] close(3)]
    by (simp, intro tproxyOk_session [OF ok]) (simp_all add: isDialing_def removeClose_def)
next
  case (remove i)
  then show ?thesis
    using removeEntry_ok [OF ok] by simp
next
  case (reply i env sent r out s)
  then show ?thesis
    using relayReplies_ok [OF sessionOk_at [OF ok] reply(4)] relayReplies_rest [OF reply(4)]
    by (simp, intro tproxyOk_session [OF ok]) (auto simp: isDialing_def)
qed

interpretation tproxy: machine tproxyState0 tproxyStep tproxyOk
proof
  show "tproxyOk tproxyState0"
    by (simp add: tproxyOk_def tablesOk_def listedOk_def tproxyState0_def)
qed (rule tproxyStep_ok)

subsection \<open>Properties\<close>

text \<open>C6: Whatever arrives and however the runs interleave, there are never more than 1024 sessions
  and waiting clients, no two live sessions for the same addresses, at most 64 sessions that
  dial, and at most 32 datagrams and 256 KiB in the queue of a session, whose size is counted
  right while it runs.
\<close>
theorem tproxy_bounded:
  assumes "tproxyStep\<^sup>*\<^sup>* tproxyState0 st"
  shows "length (tu_sessions st) + length (tu_pending st) \<le> tproxyUDPMaxSessions
    \<and> length (filter isDialing (tu_heap st)) \<le> tproxyUDPMaxDialWorkers
    \<and> (\<forall>i j. i < length (tu_heap st) \<and> j < length (tu_heap st) \<and> ts_pc (tu_heap st ! i) \<noteq> Gone \<and> ts_pc (tu_heap st ! j) \<noteq> Gone
        \<and> ts_key (tu_heap st ! i) = ts_key (tu_heap st ! j) \<longrightarrow> i = j)
    \<and> (\<forall>s \<in> set (tu_heap st). tproxyQueueOk s)"
proof -
  have ok: "tproxyOk st"
    using assms by (rule tproxy.reachable_inv)
  then have "listedOk st"
    by (simp add: tproxyOk_def)
  then have "i = j" if "i < length (tu_heap st)" "j < length (tu_heap st)" "ts_pc (tu_heap st ! i) \<noteq> Gone" "ts_pc (tu_heap st ! j) \<noteq> Gone"
      "ts_key (tu_heap st ! i) = ts_key (tu_heap st ! j)" for i j
    using that unfolding listedOk_def by (metis option.inject)
  then show ?thesis
    using ok by (auto simp: tproxyOk_def tablesOk_def sessionOk_def)
qed

text \<open>C12: A session writes upstream the datagrams it was started with and then the ones it accepted,
  in their order, each at most once, with none left out before the last one written.
\<close>
theorem tproxy_order:
  assumes "tproxyStep\<^sup>*\<^sup>* tproxyState0 st" "s \<in> set (tu_heap st)"
  shows "prefix (ts_written s) (ts_initials s @ ts_accepted s)"
  using tproxy.reachable_inv [OF assms(1)] assms(2) by (auto simp: tproxyOk_def sessionOk_def orderOk_def)

definition tproxyOutbound :: outbound where
  "tproxyOutbound = Outbound [] [] HINT_UDP 0 0 0 DIRECT [] [] 0 None"

definition tproxyEnv0 :: tproxyEnv where
  "tproxyEnv0 = \<lparr>pe_profile = None, pe_default = None, pe_depth = 2, pe_dial = (\<lambda>_ _ _. Some 7), pe_random = 0, pe_accepts = (\<lambda>_ _. True),
     te_nose = [([97], Some tproxyOutbound)], te_local = True, te_deadline = True\<rparr>"

definition tproxyClient :: udpAddr where
  "tproxyClient = \<lparr>ua_IP = [10, 0, 0, 9], ua_Port = 4000, ua_Zone = []\<rparr>"

definition tproxyServer :: udpAddr where
  "tproxyServer = \<lparr>ua_IP = [255, 0, 0, 0], ua_Port = 443, ua_Zone = []\<rparr>"

definition tproxySession0 :: tproxyUDPSession where
  "tproxySession0 = newSession (udpAddrPort tproxyClient, udpAddrPort tproxyServer) tproxyClient tproxyServer [97] tproxyOutbound [[1]]"

definition tproxyState1 :: "tproxyUDPSession \<Rightarrow> tproxyState" where
  "tproxyState1 s = \<lparr>tu_heap = [s], tu_sessions = [(ts_key tproxySession0, 0)], tu_pending = [],
     tu_dialSem = (if isDialing s then 1 else 0), tu_next = 0, tu_loop = Reading\<rparr>"

lemma tproxy_started: "tproxyStep tproxyState0 (tproxyState1 tproxySession0)"
  by (rule tproxyStep.dispatch [where env = tproxyEnv0 and src = tproxyClient and dst = tproxyServer and data = "[1]" and now = 0])
    (simp_all add: tproxyState0_def tproxyState1_def dispatch_def getTProxyUDPTarget_def tproxyServer_def tproxyEnv0_def VirtualAddrPrefix_def
      To4_def be_nat_two tproxyUDPMaxSessions_def tproxyUDPAllowed_def tproxyOutbound_def hint_defs startSession_def tproxySession0_def newSession_def isDialing_def Let_def)

theorem tproxy_bounded_witness:
  "length (tu_sessions (tproxyState1 tproxySession0)) + length (tu_pending (tproxyState1 tproxySession0)) \<le> tproxyUDPMaxSessions
    \<and> tu_sessions (tproxyState1 tproxySession0) \<noteq> []"
  using tproxy_bounded [OF r_into_rtranclp [of tproxyStep, OF tproxy_started]] by (simp add: tproxyState1_def)

lemma tproxy_run:
  "tproxyStep\<^sup>*\<^sup>* tproxyState0 (tproxyState1 (tproxySession0\<lparr>qs_conn := 7, ts_pc := Initials [], ts_written := [[1]]\<rparr>))"
proof -
  let ?dialing = "tproxySession0\<lparr>ts_pc := Dialing [[1]]\<rparr>" and ?first = "tproxySession0\<lparr>qs_conn := 7, ts_pc := Initials [[1]]\<rparr>"
  have "tproxyStep (tproxyState1 tproxySession0) (tproxyState1 ?dialing)"
    using tproxyStep.acquire [of 0 "tproxyState1 tproxySession0" "[[1]]"]
    by (simp add: tproxyState1_def tproxySession0_def newSession_def tproxyUDPMaxDialWorkers_def setSession_def isDialing_def)
  moreover have "tproxyStep (tproxyState1 ?dialing) (tproxyState1 ?first)"
    using tproxyStep.dial [of 0 "tproxyState1 ?dialing" "[[1]]" tproxyEnv0 "[]" ?first]
    by (simp add: tproxyState1_def tproxySession0_def newSession_def runDial_def tproxyEnv0_def tproxyOutbound_def hint_defs setSession_def isDialing_def)
  moreover have "tproxyStep (tproxyState1 ?first) (tproxyState1 (tproxySession0\<lparr>qs_conn := 7, ts_pc := Initials [], ts_written := [[1]]\<rparr>))"
    using tproxyStep.initial [of 0 "tproxyState1 ?first" "[1]" "[]" tproxyEnv0 "[Upstream 7 [1]]" "?first\<lparr>ts_pc := Initials [], ts_written := [[1]]\<rparr>"]
    by (simp add: tproxyState1_def tproxySession0_def newSession_def runInitial_def runWrite_def quicProxyWriteUpstream_def tproxyEnv0_def
        proxyEnv.truncate_def tproxyOutbound_def hint_defs setSession_def isDialing_def)
  ultimately show ?thesis
    by (iprover intro: converse_rtranclp_into_rtranclp rtranclp.rtrancl_refl tproxy_started)
qed

theorem tproxy_order_witness:
  "prefix (ts_written (tproxySession0\<lparr>ts_written := [[1]]\<rparr>)) (ts_initials tproxySession0 @ ts_accepted tproxySession0)"
  using tproxy_order [OF tproxy_run, of "tproxySession0\<lparr>qs_conn := 7, ts_pc := Initials [], ts_written := [[1]]\<rparr>"]
  by (simp add: tproxyState1_def)

subsection \<open>Socket addresses\<close>

fun sockaddrOk :: "sockaddr \<Rightarrow> bool" where
  "sockaddrOk (SockaddrInet4 ip port) \<longleftrightarrow> length ip = 4 \<and> 0 \<le> port \<and> port < 65536"
| "sockaddrOk (SockaddrInet6 ip port zone) \<longleftrightarrow>
    length ip = 16 \<and> To4 ip = [] \<and> 0 \<le> port \<and> port < 65536 \<and> zone < 2 ^ 32"

definition tproxyMapped :: udpAddr where
  "tproxyMapped = \<lparr>ua_IP = v4InV6Prefix @ [10, 0, 0, 1], ua_Port = 53, ua_Zone = []\<rparr>"

lemma udpSockaddr_cases:
  assumes "udpSockaddr interfaces addr = Inr sa"
  shows "0 \<le> ua_Port addr \<and> ua_Port addr < 65536 \<and>
    (To4 (ua_IP addr) \<noteq> [] \<and> sa = SockaddrInet4 (To4 (ua_IP addr)) (ua_Port addr)
     \<or> To4 (ua_IP addr) = [] \<and> length (ua_IP addr) = 16
       \<and> (\<exists>zone < 2 ^ 32. sa = SockaddrInet6 (ua_IP addr) (ua_Port addr) zone \<and> (ua_Zone addr = [] \<longrightarrow> zone = 0)))"
  using assms by (auto simp: udpSockaddr_def To16_def To4_def ParseUint_def u32_def split: if_splits option.splits)

text \<open>C38: A socket address is well formed: 4 bytes for every IPv4 address, also a mapped one, or
  16 for the others, a port of 16 bits and a zone of 32. As an original destination it gives
  the address and port again under which sessions are kept, with its zone when it has none.
\<close>

theorem sockaddr_typed:
  assumes "udpSockaddr interfaces addr = Inr sa"
  shows "sockaddrOk sa \<and> (\<exists>dst. parseOrigDst names [Some sa] = Inr dst
    \<and> fst (udpAddrPort dst) = fst (udpAddrPort addr) \<and> snd (snd (udpAddrPort dst)) = snd (snd (udpAddrPort addr))
    \<and> (ua_Zone addr = [] \<longrightarrow> udpAddrPort dst = udpAddrPort addr))"
proof (cases "To4 (ua_IP addr) = []")
  case True
  then obtain zone where "sa = SockaddrInet6 (ua_IP addr) (ua_Port addr) zone" "zone < 2 ^ 32" "length (ua_IP addr) = 16"
    "0 \<le> ua_Port addr" "ua_Port addr < 65536" "ua_Zone addr = [] \<longrightarrow> zone = 0"
    using udpSockaddr_cases [OF assms] by auto
  with True show ?thesis
    by (simp add: udpAddrPort_def zoneName_def)
next
  case False
  then have ip: "length (To4 (ua_IP addr)) = 4" "To4 (To4 (ua_IP addr)) = To4 (ua_IP addr)" "length (ua_IP addr) = 4 \<or> length (ua_IP addr) = 16"
    using length_To4 [of "ua_IP addr"] by (auto simp: To4_def split: if_splits)
  moreover have "sa = SockaddrInet4 (To4 (ua_IP addr)) (ua_Port addr)" "0 \<le> ua_Port addr" "ua_Port addr < 65536"
    using udpSockaddr_cases [OF assms] False by auto
  ultimately show ?thesis
    using False by (simp add: udpAddrPort_def)
qed

theorem sockaddr_typed_witness:
  "\<exists>dst. parseOrigDst (\<lambda>_. None) [Some (SockaddrInet4 [10, 0, 0, 1] 53)] = Inr dst \<and> udpAddrPort dst = udpAddrPort tproxyMapped"
  using sockaddr_typed [of "\<lambda>_. None" tproxyMapped "SockaddrInet4 [10, 0, 0, 1] 53" "\<lambda>_. None"]
  by (simp add: tproxyMapped_def udpSockaddr_def To4_def v4InV6Prefix_def numeral_eq_Suc)

end
