(* ===== verification/Udp_Checksum.thy ===== *)
theory Udp_Checksum
  imports Go_Base
begin

text \<open>
  The UDP checksum (\<open>ComputeUDPChecksum\<close> of \<open>phantomtcp/udp.go\<close>) of an IPv4 packet with a
  header of 20 bytes, and its equivalence with the one's complement sum of the standard.
\<close>

definition word16 :: "bytes \<Rightarrow> nat \<Rightarrow> nat" where
  "word16 buffer i = be_nat (take 2 (drop i buffer))"

function checksumLoop :: "bytes \<Rightarrow> nat \<Rightarrow> nat \<Rightarrow> nat" where
  "checksumLoop buffer offset checksum =
    (if offset + 2 > length buffer then
       (if offset + 1 = length buffer then u32 (checksum + unat (buffer ! offset) * 256) else checksum)
     else checksumLoop buffer (offset + 2) (u32 (checksum + word16 buffer offset)))"
  by pat_completeness auto
termination
  by (relation "measure (\<lambda>(buffer, offset, _). length buffer - offset)") auto

declare checksumLoop.simps [simp del]

definition foldChecksum :: "nat \<Rightarrow> nat" where
  "foldChecksum checksum = u32 (checksum mod 65536 + checksum div 65536)"

text \<open>\<open>None\<close> is the panic at a packet that ends before the length of its UDP header.\<close>

definition ComputeUDPChecksum :: "bytes \<Rightarrow> nat option" where
  "ComputeUDPChecksum buffer =
    (if length buffer < 26 then None
     else
       (let checksum = u32 (word16 buffer 12 + word16 buffer 14 + word16 buffer 16 + word16 buffer 18 + 17 + word16 buffer 24
              + word16 buffer 20 + word16 buffer 22 + word16 buffer 24);
            checksum = foldChecksum (foldChecksum (checksumLoop buffer 28 checksum))
        in Some (65535 - u16 checksum)))"

subsection \<open>The checksum of the standard\<close>

text \<open>Sums of 16-bit words with the carry added at the low end.\<close>

definition onesAdd :: "nat \<Rightarrow> nat \<Rightarrow> nat" where
  "onesAdd a b = (if a + b < 65536 then a + b else a + b - 65535)"

definition onesSum :: "nat list \<Rightarrow> nat" where
  "onesSum ws = fold onesAdd ws 0"

fun words16 :: "bytes \<Rightarrow> nat list" where
  "words16 [] = []"
| "words16 [a] = [unat a * 256]"
| "words16 (a # b # bs) = be_nat [a, b] # words16 bs"

text \<open>The two addresses, the protocol and the length; the ports, the length and no checksum; the data.\<close>

definition udpWords :: "bytes \<Rightarrow> nat list" where
  "udpWords buffer =
    words16 (take 8 (drop 12 buffer)) @ [17, word16 buffer 24] @ words16 (take 6 (drop 20 buffer)) @ [0] @ words16 (drop 28 buffer)"

lemma word16_less: "word16 buffer i < 65536"
  using be_nat_less [of "take 2 (drop i buffer)"] power_increasing [of "length (take 2 (drop i buffer))" 2 "256::nat"]
  by (simp add: word16_def)

lemma words16_less: "w \<in> set (words16 bs) \<Longrightarrow> w < 65536"
proof (induction bs rule: words16.induct)
  case (2 a)
  then show ?case using unat_byte_less [of a] by simp
next
  case (3 a b bs)
  then show ?case using be_nat_less [of "[a, b]"] by auto
qed simp

lemma sum_words16: "2 * sum_list (words16 bs) \<le> (length bs + 1) * 65535"
proof (induction bs rule: words16.induct)
  case (2 a)
  have "unat a \<le> 255"
    using unat_byte_less [of a] by linarith
  then have "unat a * 256 \<le> 255 * 256"
    by (rule mult_le_mono1)
  then show ?case by simp
next
  case (3 a b bs)
  then show ?case using be_nat_less [of "[a, b]"] by simp
qed simp

lemma onesSum_step: "a \<le> 65535 \<Longrightarrow> b < 65536 \<Longrightarrow>
    onesAdd a b \<le> 65535 \<and> (onesAdd a b = 0 \<longleftrightarrow> a + b = 0) \<and> onesAdd a b mod 65535 = (a + b) mod 65535"
  using le_mod_geq [of 65535 "a + b"] by (auto simp: onesAdd_def)

text \<open>The sum is the only number up to 65535 with the same remainder that is 0 only for zeros.\<close>

lemma onesSum_char: "\<forall>w \<in> set ws. w < 65536 \<Longrightarrow> a \<le> 65535 \<Longrightarrow>
    fold onesAdd ws a \<le> 65535 \<and> (fold onesAdd ws a = 0 \<longleftrightarrow> a + sum_list ws = 0)
      \<and> fold onesAdd ws a mod 65535 = (a + sum_list ws) mod 65535"
proof (induction ws arbitrary: a)
  case (Cons w ws)
  note step = onesSum_step [of w a]
  have "fold onesAdd ws (onesAdd w a) \<le> 65535 \<and> (fold onesAdd ws (onesAdd w a) = 0 \<longleftrightarrow> onesAdd w a + sum_list ws = 0)
      \<and> fold onesAdd ws (onesAdd w a) mod 65535 = (onesAdd w a + sum_list ws) mod 65535"
    using Cons step by simp
  moreover have "(onesAdd w a + sum_list ws) mod 65535 = (a + w + sum_list ws) mod 65535"
    using Cons.prems step by (intro mod_add_cong) (simp_all add: add.commute)
  ultimately show ?case
    using Cons.prems step by (simp add: ac_simps)
qed auto

lemma ones_unique:
  assumes "x \<le> 65535" "y \<le> 65535" "x = 0 \<longleftrightarrow> y = 0" "x mod 65535 = y mod (65535 :: nat)"
  shows "x = y"
  using assms by (cases "x = 65535"; cases "y = 65535") auto

lemma checksumLoop_words:
  "offset \<le> length buffer \<Longrightarrow> s + sum_list (words16 (drop offset buffer)) < 4294967296 \<Longrightarrow>
    checksumLoop buffer offset s = s + sum_list (words16 (drop offset buffer))"
proof (induction buffer offset s rule: checksumLoop.induct)
  case (1 buffer offset s)
  consider "offset = length buffer" | "offset + 1 = length buffer" | "offset + 2 \<le> length buffer"
    using "1.prems"(1) by linarith
  then show ?case
  proof cases
    case 1
    then show ?thesis by (subst checksumLoop.simps) simp
  next
    case 2
    then have "drop offset buffer = [buffer ! offset]"
      by (metis Cons_nth_drop_Suc Suc_eq_plus1 drop_all lessI order.refl)
    with 2 "1.prems"(2) show ?thesis by (subst checksumLoop.simps) simp
  next
    case 3
    then have d: "drop offset buffer = buffer ! offset # buffer ! (offset + 1) # drop (offset + 2) buffer"
      using Cons_nth_drop_Suc [of offset buffer] Cons_nth_drop_Suc [of "offset + 1" buffer] by simp
    then have w: "word16 buffer offset = be_nat [buffer ! offset, buffer ! (offset + 1)]"
      by (simp add: word16_def numeral_2_eq_2)
    with 3 d "1.IH" "1.prems" show ?thesis by (subst checksumLoop.simps) simp
  qed
qed

lemma foldChecksum:
  assumes "s < 4294967296" "0 < s"
  shows "foldChecksum (foldChecksum s) \<le> 65535 \<and> 0 < foldChecksum (foldChecksum s)
    \<and> foldChecksum (foldChecksum s) mod 65535 = s mod 65535"
proof -
  have fold: "foldChecksum n = n mod 65536 + n div 65536 \<and> 0 < foldChecksum n \<and> foldChecksum n mod 65535 = n mod 65535"
    if "n < 4294967296" "0 < n" for n
  proof -
    have n: "n = (n div 65536) * 65535 + (n mod 65536 + n div 65536)"
      using div_mult_mod_eq [of n 65536] by linarith
    have "n div 65536 < 65536"
      using that(1) by (simp add: less_mult_imp_div_less)
    then have eq: "foldChecksum n = n mod 65536 + n div 65536"
      by (simp add: foldChecksum_def)
    moreover have "0 < n mod 65536 + n div 65536"
      using that(2) n by (cases "n mod 65536 + n div 65536") auto
    moreover have "n mod 65535 = (n mod 65536 + n div 65536) mod 65535"
      by (metis n mod_mult_self3)
    ultimately show ?thesis by simp
  qed
  have one: "foldChecksum s \<le> 131070"
    using fold [OF assms] assms(1) mod_less_divisor [of 65536 s] less_mult_imp_div_less [of s 65536 65536] by simp
  then have "foldChecksum (foldChecksum s) \<le> 65535"
  proof (cases "foldChecksum s < 65536")
    case False
    then have "foldChecksum s div 65536 = 1" "foldChecksum s mod 65536 = foldChecksum s - 65536"
      using one by (simp_all add: div_nat_eqI le_mod_geq)
    with fold [of "foldChecksum s"] one False show ?thesis by simp
  qed (use fold [OF assms] fold [of "foldChecksum s"] in auto)
  moreover have "foldChecksum s < 4294967296" "0 < foldChecksum s"
    using one fold [OF assms] by linarith+
  ultimately show ?thesis
    using fold [OF assms] fold [of "foldChecksum s"] by metis
qed

lemma words16_take: "i + 2 * k \<le> length buffer \<Longrightarrow> words16 (take (2 * k) (drop i buffer)) = map (\<lambda>j. word16 buffer (i + 2 * j)) [0..<k]"
proof (induction k arbitrary: i)
  case (Suc k)
  then have d: "drop i buffer = buffer ! i # buffer ! (i + 1) # drop (i + 2) buffer"
    using Cons_nth_drop_Suc [of i buffer] Cons_nth_drop_Suc [of "i + 1" buffer] by simp
  have "map (\<lambda>j. word16 buffer (i + 2 * j)) [0..<Suc k] = word16 buffer i # map (\<lambda>j. word16 buffer (i + 2 + 2 * j)) [0..<k]"
    by (simp add: upt_conv_Cons map_Suc_upt [symmetric] del: upt_Suc)
  with d Suc show ?case by (simp add: word16_def numeral_2_eq_2)
qed simp

text \<open>The checksum is the one of the standard: the complement of the one's complement sum of
  the pseudo header, the header and the data, for every UDP packet IPv4 can carry.
\<close>

theorem checksum_standard:
  assumes "28 \<le> length buffer" "length buffer \<le> 65535"
  shows "ComputeUDPChecksum buffer = Some (65535 - onesSum (udpWords buffer))"
proof -
  let ?w = "word16 buffer"
  let ?s = "?w 12 + ?w 14 + ?w 16 + ?w 18 + 17 + ?w 24 + ?w 20 + ?w 22 + ?w 24"
  define t where "t = ?s + sum_list (words16 (drop 28 buffer))"
  have w: "?w i < 65536" for i by (rule word16_less)
  have "2 * sum_list (words16 (drop 28 buffer)) \<le> 65535 * 65535"
    using sum_words16 [of "drop 28 buffer"] assms by simp
  with w [of 12] w [of 14] w [of 16] w [of 18] w [of 20] w [of 22] w [of 24] have t: "t < 4294967296" "?s < 4294967296" "0 < t"
    by (simp_all add: t_def)
  have loop: "checksumLoop buffer 28 ?s = t"
    unfolding t_def by (rule checksumLoop_words) (use assms(1) t t_def in auto)
  have "sum_list (udpWords buffer) = t"
    using assms(1) words16_take [of 12 4 buffer] words16_take [of 20 3 buffer] by (simp add: udpWords_def t_def upt_rec)
  moreover have "\<forall>w \<in> set (udpWords buffer). w < 65536"
    using word16_less [of buffer 24] by (auto simp: udpWords_def dest: words16_less)
  ultimately have "onesSum (udpWords buffer) \<le> 65535 \<and> (onesSum (udpWords buffer) = 0 \<longleftrightarrow> t = 0)
      \<and> onesSum (udpWords buffer) mod 65535 = t mod 65535"
    using onesSum_char [of "udpWords buffer" 0] by (simp only: onesSum_def add_0 zero_le simp_thms)
  then have "foldChecksum (foldChecksum t) = onesSum (udpWords buffer)"
    using foldChecksum [OF t(1,3)] t(3) by (metis ones_unique not_less_zero)
  then show ?thesis
    using assms(1) t(2) loop foldChecksum [OF t(1,3)] by (simp add: ComputeUDPChecksum_def Let_def u16_def)
qed

definition samplePacket :: bytes where
  "samplePacket = [69, 0, 0, 31, 0, 0, 0, 0, 64, 17, 0, 0, 127, 0, 0, 1, 127, 0, 0, 1, 0, 53, 0, 80, 0, 11, 0, 0, 1, 2, 3]"

theorem checksum_standard_witness:
  "ComputeUDPChecksum samplePacket = Some (65535 - onesSum (udpWords samplePacket)) \<and> onesSum (udpWords samplePacket) = 689"
proof
  show "ComputeUDPChecksum samplePacket = Some (65535 - onesSum (udpWords samplePacket))"
    by (rule checksum_standard) (simp_all add: samplePacket_def)
  show "onesSum (udpWords samplePacket) = 689"
    by (simp add: samplePacket_def onesSum_def udpWords_def word16_def onesAdd_def be_nat_two)
qed

end
