(* ===== verification/Udp_Dial.thy ===== *)
theory Udp_Dial
  imports Tcp_Root Socks_Udp Udp_TProxy
begin

text \<open>
  Dialling UDP through an outbound (\<open>dialUDPProxy\<close> of \<open>phantomtcp/udp.go\<close>): directly, or
  through the UDP association of a SOCKS5 proxy. The deadlines of the TCP connection that
  keeps the association can always be set.
\<close>

unbundle bit_operations_syntax

text \<open>What dialling UDP from and to an address gives, \<open>None\<close> its error.\<close>

record udpDialEnv = dialEnv +
  ud_Dial :: "bytes option \<Rightarrow> bytes \<times> int \<Rightarrow> nat option"

text \<open>A socket, or the socket, the TCP connection and the header of a \<open>socksUDPConn\<close>.\<close>

datatype udpConn = UDPConn nat | SocksUDPConn nat wire bytes

definition associateRequest :: bytes where
  "associateRequest = [0x05, 0x03, 0x00, 0x01, 0, 0, 0, 0, 0, 0]"

text \<open>A name in the reply is read as an address; one that is none leaves the nil address.\<close>

definition associateReply :: "tcpAddr io" where
  "associateReply =
    ioBind (ReadFull 4) (\<lambda>b.
      if b ! 0 \<noteq> 0x05 \<or> b ! 1 \<noteq> 0x00 then ioError invalidProxy
      else if b ! 3 = 0x01 then
        ioBind (ReadFull 6) (\<lambda>a. ioReturn \<lparr>ta_IP = take 4 a, ta_Port = be_nat (drop 4 a)\<rparr>)
      else if b ! 3 = 0x03 then
        ioBind (ReadFull 1) (\<lambda>l.
        ioBind (ReadFull (unat (l ! 0) + 2)) (\<lambda>a.
          ioReturn \<lparr>ta_IP = ParseIP (take (unat (l ! 0)) a), ta_Port = be_nat (drop (unat (l ! 0)) a)\<rparr>))
      else if b ! 3 = 0x04 then
        ioBind (ReadFull 18) (\<lambda>a. ioReturn \<lparr>ta_IP = take 16 a, ta_Port = be_nat (drop 16 a)\<rparr>)
      else ioError invalidProxy)"

definition socks5Associate :: "tcpAddr io" where
  "socks5Associate =
    ioCatch (socks5Negotiate [] []) (\<lambda>_. ioError invalidProxy) (\<lambda>_.
    ioBind (connWrite associateRequest) (\<lambda>_. associateReply))"

text \<open>The TCP connection to the proxy, with the header of packets beside it where the hints need one.\<close>

definition associateConn :: "dialEnv \<Rightarrow> outbound \<Rightarrow> bytes option \<Rightarrow> bytes \<times> int \<Rightarrow> error + wire" where
  "associateConn env ob laddr raddr =
    (let h = ob_Hint ob AND HINT_MODIFY in
     case de_Dial env 0 (if h \<noteq> 0 then fakeRequest ob laddr raddr [] else passiveRequest laddr raddr) of
       Inl _ \<Rightarrow> Inl ''dial''
     | Inr w \<Rightarrow> (if h \<noteq> 0 \<and> wr_syn w = None then Inl ''connection does not exist'' else Inr w))"

definition associateOn :: "outbound \<Rightarrow> tcpAddr wio" where
  "associateOn ob =
    (let h = ob_Hint ob AND HINT_MODIFY in
     wBind (wWhen (h \<noteq> 0) (wBind (AddTCPSeq 1) (\<lambda>_. ModifyAndSendPacket (replicate 264 0) h (ob_TTL ob) 2))) (\<lambda>_.
     onConn socks5Associate))"

text \<open>The association's address, which is the proxy's own when it is unspecified, is dialled.\<close>

definition dialAssociation :: "udpDialEnv \<Rightarrow> outbound \<Rightarrow> gostr \<Rightarrow> int \<Rightarrow> bytes option \<Rightarrow> bytes \<times> int \<Rightarrow> wire \<Rightarrow> udpConn outcome" where
  "dialAssociation env ob host port laddr raddr w =
    (case associateOn ob w of
       (Err e, _) \<Rightarrow> Err e
     | (Panic, _) \<Rightarrow> Panic
     | (Ok addr, w) \<Rightarrow>
        (case ud_Dial env laddr (if isUnspecifiedIP (ta_IP addr) then fst raddr else ta_IP addr, int (ta_Port addr)) of
           None \<Rightarrow> Err ''dial''
         | Some c \<Rightarrow> Ok (SocksUDPConn c w (newSocksUDPConn host (nat (port mod 65536))))))"

definition dialUDPSocks :: "udpDialEnv \<Rightarrow> outbound \<Rightarrow> gostr \<Rightarrow> int \<Rightarrow> bytes \<times> int \<Rightarrow> udpConn outcome" where
  "dialUDPSocks env ob host port raddr =
    (if host = [] then Err invalidProxy
     else
       (case GetLocalTCPAddr (de_Interfaces env) (ob_Device ob) (To4 (fst raddr) = []) of Inl e \<Rightarrow> Err e
        | Inr laddr \<Rightarrow>
           (case associateConn (dialEnv.truncate env) ob laddr raddr of Inl e \<Rightarrow> Err e
            | Inr w \<Rightarrow> dialAssociation env ob host port laddr raddr w)))"

text \<open>A device without an address of the family has the nil one, whose field panics.\<close>

definition dialUDPDirect :: "udpDialEnv \<Rightarrow> outbound \<Rightarrow> bytes \<times> int \<Rightarrow> udpConn outcome" where
  "dialUDPDirect env ob raddr =
    (let dial = (\<lambda>laddr. case ud_Dial env laddr raddr of None \<Rightarrow> Err ''dial'' | Some c \<Rightarrow> Ok (UDPConn c)) in
     if ob_Device ob = [] then dial None
     else
       (case GetLocalTCPAddr (de_Interfaces env) (ob_Device ob) (To4 (fst raddr) = []) of
          Inl e \<Rightarrow> Err e | Inr None \<Rightarrow> Panic | Inr (Some ip) \<Rightarrow> dial (Some ip)))"

text \<open>One of the addresses of \<open>GetRemoteAddresses\<close>; of no address none can be picked.\<close>

definition dialUDPProxy :: "udpDialEnv \<Rightarrow> outbound \<Rightarrow> gostr \<Rightarrow> int \<Rightarrow> (bytes \<times> int) list \<Rightarrow> udpConn outcome" where
  "dialUDPProxy env ob host port raddrs =
    (let raddr = raddrs ! (de_Random env (length raddrs) mod length raddrs) in
     if raddrs = [] then Panic
     else
       (case ob_Protocol ob of
          SOCKS5 \<Rightarrow> dialUDPSocks env ob host port raddr
        | HTTP \<Rightarrow> Err invalidProxy
        | HTTPS \<Rightarrow> Err invalidProxy
        | SOCKS4 \<Rightarrow> Err invalidProxy
        | _ \<Rightarrow> dialUDPDirect env ob raddr))"

subsection \<open>The association with the program's own server\<close>

lemma reads_associateReply:
  assumes "ipOk (ta_IP la)" "ta_Port la < 65536"
  shows "reads associateReply (socks5UDPAssociateReply (Some la)) \<lparr>ta_IP = wireIP (ta_IP la), ta_Port = ta_Port la\<rparr>"
proof -
  let ?v = "\<lambda>a p. \<lparr>ta_IP = a, ta_Port = p\<rparr>"
  from wireIP_cases [OF assms(1)] show ?thesis
  proof (elim disjE conjE)
    assume ip: "To4 (ta_IP la) \<noteq> []" "length (To4 (ta_IP la)) = 4" "wireIP (ta_IP la) = To4 (ta_IP la)"
    then have eq: "socks5UDPAssociateReply (Some la) = [5, 0, 0, 1] @ (To4 (ta_IP la) @ be_bytes 2 (ta_Port la))"
      by (simp add: socks5UDPAssociateReply_def socks5AddrReply_def socks5_reps)
    show ?thesis
      unfolding eq associateReply_def
      by (rule talks_ReadFull_bind) (use reads_addr_body [OF ip(2) assms(2), of ?v] ip in simp_all)
  next
    assume ip: "To4 (ta_IP la) = []" "length (ta_IP la) = 16" "wireIP (ta_IP la) = ta_IP la"
      "copy_at (replicate 16 0) 0 (To16 (ta_IP la)) = ta_IP la"
    then have eq: "socks5UDPAssociateReply (Some la) = [5, 0, 0, 4] @ (ta_IP la @ be_bytes 2 (ta_Port la))"
      by (simp add: socks5UDPAssociateReply_def socks5AddrReply_def socks5_reps)
    show ?thesis
      unfolding eq associateReply_def
      by (rule talks_ReadFull_bind) (use reads_addr_body [OF ip(2) assms(2), of ?v] ip in simp_all)
  qed
qed

lemma talks_associate:
  assumes "ipOk (ta_IP la)" "ta_Port la < 65536"
  shows "talks socks5Associate ([5, 0] @ socks5UDPAssociateReply (Some la)) ([[5, 1, 0]] @ [associateRequest])
    \<lparr>ta_IP = wireIP (ta_IP la), ta_Port = ta_Port la\<rparr>"
  unfolding socks5Associate_def
  by (rule talks_catch [OF talks_negotiate]) (intro talks_write_bind reads_associateReply assms)

lemma talks_SocksProxy_associate:
  "talks (SocksProxy local) ([5, 1, 0] @ associateRequest) [[5, 0], socks5UDPAssociateReply local] HoldAssociation"
proof -
  have body: "reads (ioBind (ReadFull 6) (\<lambda>body. ioReturn
      \<lparr>rq_cmd = 3, rq_host = [], rq_addr = take 4 body, rq_port = be_nat (drop 4 body)\<rparr>)) ([0, 0, 0, 0, 0, 0])
      \<lparr>rq_cmd = 3, rq_host = [], rq_addr = [0, 0, 0, 0], rq_port = 0\<rparr>"
    by (rule talks_ReadFull_return) (simp_all add: be_nat_two)
  have "reads socks5ReadRequest ([5, 3, 0, 1] @ [0, 0, 0, 0, 0, 0]) \<lparr>rq_cmd = 3, rq_host = [], rq_addr = [0, 0, 0, 0], rq_port = 0\<rparr>"
    unfolding socks5ReadRequest_def by (rule talks_ReadFull_bind) (use body in simp_all)
  then have request: "reads socks5ReadRequest associateRequest \<lparr>rq_cmd = 3, rq_host = [], rq_addr = [0, 0, 0, 0], rq_port = 0\<rparr>"
    by (simp add: associateRequest_def)
  have "socks5UDPAssociateReply local \<noteq> []"
    by (simp add: socks5UDPAssociateReply_def socks5AddrReply_def split: option.split)
  then have "talks (socks5Handshake local) ([1, 0] @ (associateRequest @ [])) ([[5, 0]] @ ([] @ [socks5UDPAssociateReply local])) HoldAssociation"
    unfolding socks5Handshake_def
    by (intro talks_bind [OF talks_serverNegotiate] talks_catch [OF request])
       (auto simp: socks5HandshakeReply_def socksCommand_def Let_def intro: talks_write_bind)
  then have "talks (SocksProxy local) ([5] @ ([1, 0] @ associateRequest)) [[5, 0], socks5UDPAssociateReply local] HoldAssociation"
    unfolding SocksProxy_def by (intro talks_ReadFull_bind) simp_all
  then show ?thesis by simp
qed

lemma onConn_talks:
  assumes "talks m d out v" and "concat (tc_in (wr_conn w)) = d @ s" and "length out \<le> tc_left (wr_conn w)"
  obtains w' where "onConn m w = (Ok v, w')" "wr_log w' = wr_log w @ map Write out" "concat (tc_in (wr_conn w')) = s"
proof -
  obtain rest where "concat rest = s"
    "m ((wr_conn w)\<lparr>tc_out := []\<rparr>) = (Inr v, (wr_conn w)\<lparr>tc_out := []\<rparr>\<lparr>tc_in := rest, tc_out := [] @ out, tc_left := tc_left (wr_conn w) - length out\<rparr>)"
    by (rule talksE [OF assms(1), of "(wr_conn w)\<lparr>tc_out := []\<rparr>" s]) (use assms in auto)
  then show ?thesis
    by (intro that [of "snd (onConn m w)"]) (simp_all add: onConn_def)
qed

lemma sendPackets:
  assumes "wr_syn w = Some info" "n \<le> tc_left (wr_conn w)"
  shows "\<exists>w'. ModifyAndSendPacket payload h ttl n w = (Ok (), w') \<and> wr_log w' = wr_log w @ replicate n (Packet (fakePacket info payload h ttl))
    \<and> tc_in (wr_conn w') = tc_in (wr_conn w) \<and> tc_left (wr_conn w') = tc_left (wr_conn w) - n"
proof -
  have "\<exists>w'. wTimes n (wOp s) w = (Ok (), w') \<and> wr_log w' = wr_log w @ replicate n s
      \<and> tc_in (wr_conn w') = tc_in (wr_conn w) \<and> tc_left (wr_conn w') = tc_left (wr_conn w) - n"
    if "n \<le> tc_left (wr_conn w)" for n s w
    using that
  proof (induction n arbitrary: w)
    case (Suc n)
    then obtain k where k: "tc_left (wr_conn w) = Suc k" "n \<le> k"
      by (cases "tc_left (wr_conn w)") auto
    with Suc.IH [of "w\<lparr>wr_conn := (wr_conn w)\<lparr>tc_left := k\<rparr>, wr_log := wr_log w @ [s]\<rparr>"] show ?case
      by (auto simp: wBind_def wOp_def)
  qed (simp add: wReturn_def)
  with assms show ?thesis
    by (simp add: ModifyAndSendPacket_def)
qed

text \<open>The packets of zeros before the association.\<close>

definition associatePackets :: "outbound \<Rightarrow> wire \<Rightarrow> tcpSend list" where
  "associatePackets ob w =
    (let h = ob_Hint ob AND HINT_MODIFY in
     if h = 0 then []
     else replicate 2 (Packet (fakePacket (case wr_syn w of Some i \<Rightarrow> i\<lparr>ci_Seq := u32 (ci_Seq i + 1)\<rparr>) (replicate 264 0) h (ob_TTL ob))))"

lemma associateOn_talks:
  assumes "ipOk (ta_IP la)" "ta_Port la < 65536" and "concat (tc_in (wr_conn w)) = [5, 0] @ socks5UDPAssociateReply (Some la) @ s"
    and "4 \<le> tc_left (wr_conn w)" and "ob_Hint ob AND HINT_MODIFY \<noteq> 0 \<longrightarrow> wr_syn w \<noteq> None"
  obtains w' where "associateOn ob w = (Ok \<lparr>ta_IP = wireIP (ta_IP la), ta_Port = ta_Port la\<rparr>, w')"
    "wr_log w' = wr_log w @ associatePackets ob w @ map Write [[5, 1, 0], associateRequest]" "concat (tc_in (wr_conn w')) = s"
proof -
  let ?h = "ob_Hint ob AND HINT_MODIFY"
  obtain w1 where w1: "wWhen (?h \<noteq> 0) (wBind (AddTCPSeq 1) (\<lambda>_. ModifyAndSendPacket (replicate 264 0) ?h (ob_TTL ob) 2)) w = (Ok (), w1)"
    "wr_log w1 = wr_log w @ associatePackets ob w" "tc_in (wr_conn w1) = tc_in (wr_conn w)" "2 \<le> tc_left (wr_conn w1)"
  proof (cases "?h = 0")
    case True
    with assms(4) show ?thesis
      by (intro that [of w]) (simp_all add: wWhen_def wReturn_def associatePackets_def)
  next
    case False
    then obtain i where i: "wr_syn w = Some i"
      using assms(5) by auto
    let ?w = "w\<lparr>wr_syn := Some (i\<lparr>ci_Seq := u32 (ci_Seq i + 1)\<rparr>)\<rparr>"
    from sendPackets [of ?w "i\<lparr>ci_Seq := u32 (ci_Seq i + 1)\<rparr>" 2 "replicate 264 0" ?h "ob_TTL ob"] assms(4)
    obtain w' where "ModifyAndSendPacket (replicate 264 0) ?h (ob_TTL ob) 2 ?w = (Ok (), w')"
      "wr_log w' = wr_log w @ associatePackets ob w" "tc_in (wr_conn w') = tc_in (wr_conn w)" "tc_left (wr_conn w') = tc_left (wr_conn w) - 2"
      using False i by (auto simp: associatePackets_def)
    with False i assms(4) show ?thesis
      by (intro that [of w']) (simp_all add: wWhen_def AddTCPSeq_def)
  qed
  from onConn_talks [OF talks_associate [OF assms(1,2)], of w1 s] w1 assms(3)
  obtain w' where "onConn socks5Associate w1 = (Ok \<lparr>ta_IP = wireIP (ta_IP la), ta_Port = ta_Port la\<rparr>, w')"
    "wr_log w' = wr_log w1 @ map Write ([[5, 1, 0]] @ [associateRequest])" "concat (tc_in (wr_conn w')) = s"
    by auto
  with w1(1,2) show ?thesis
    by (intro that [of w']) (simp_all add: associateOn_def Let_def)
qed

text \<open>C15: A UDP association through the SOCKS5 server of the program: given the server's two
  replies, however they are cut, the dialled connection sends to the server's own address, or
  to the proxy's when that is unspecified; what was written makes \<open>SocksProxy\<close> hold the
  association with just these replies; and every datagram it sends leads the relay to the host.
\<close>

theorem associate_agrees:
  assumes "ob_Protocol ob = SOCKS5" "raddrs \<noteq> []" "0 < length host" "length host \<le> 255" "0 \<le> port" "port < 65536"
    and "raddr = raddrs ! (de_Random env (length raddrs) mod length raddrs)"
    and "GetLocalTCPAddr (de_Interfaces env) (ob_Device ob) (To4 (fst raddr) = []) = Inr laddr"
    and "associateConn (dialEnv.truncate env) ob laddr raddr = Inr w" "4 \<le> tc_left (wr_conn w)"
    and "ipOk (ta_IP la)" "ta_Port la < 65536"
    and "concat (tc_in (wr_conn w)) = [5, 0] @ socks5UDPAssociateReply (Some la) @ s"
    and "ud_Dial env laddr (if isUnspecifiedIP (wireIP (ta_IP la)) then fst raddr else wireIP (ta_IP la), int (ta_Port la)) = Some c"
  shows "\<exists>w' header. dialUDPProxy env ob host port raddrs = Ok (SocksUDPConn c w' header)
    \<and> wr_log w' = wr_log w @ associatePackets ob w @ map Write [[5, 1, 0], associateRequest] \<and> concat (tc_in (wr_conn w')) = s
    \<and> talks (SocksProxy (Some la)) ([5, 1, 0] @ associateRequest) [[5, 0], socks5UDPAssociateReply (Some la)] HoldAssociation
    \<and> (\<forall>b. b = [] \<or> socksUDPTarget (socksUDPConnWrite header b)
        = Some (fst (hostAddress host), snd (hostAddress host), nat port, header, length header))"
proof -
  have "ob_Hint ob AND HINT_MODIFY \<noteq> 0 \<longrightarrow> wr_syn w \<noteq> None"
    using assms(9) by (auto simp: associateConn_def Let_def split: sum.splits if_splits)
  from associateOn_talks [OF assms(11-13,10) this]
  obtain w' where w': "associateOn ob w = (Ok \<lparr>ta_IP = wireIP (ta_IP la), ta_Port = ta_Port la\<rparr>, w')"
    "wr_log w' = wr_log w @ associatePackets ob w @ map Write [[5, 1, 0], associateRequest]" "concat (tc_in (wr_conn w')) = s"
    by blast
  have "dialUDPProxy env ob host port raddrs = Ok (SocksUDPConn c w' (newSocksUDPConn host (nat port)))"
    using assms(1-9,14) w'(1) by (auto simp: dialUDPProxy_def dialUDPSocks_def dialAssociation_def split: if_splits)
  moreover have "nat port < 65536"
    using assms(6) by simp
  ultimately show ?thesis
    using w' talks_SocksProxy_associate socksUDPTarget_new [OF assms(4), of "nat port"]
    by (intro exI [of _ w'] exI [of _ "newSocksUDPConn host (nat port)"]) (auto simp: socksUDPConnWrite_def)
qed

definition sampleAssociation :: udpDialEnv where
  "sampleAssociation =
    \<lparr>de_Interfaces = (\<lambda>_. None),
     de_Dial = (\<lambda>_ _. Inr \<lparr>wr_conn = \<lparr>tc_in = [[5, 0, 5], [0, 0, 1, 127, 0, 0, 1, 4, 56]], tc_out = [], tc_left = 4\<rparr>, wr_log = [], wr_syn = None\<rparr>),
     de_State = (\<lambda>_. None), de_Random = (\<lambda>_. 0), de_Int = (\<lambda>_. 0), de_Bytes = (\<lambda>_. []), de_Delayed = (\<lambda>_. False),
     de_Handshake = sampleHandshakeEnv, de_Passive = False, ud_Dial = (\<lambda>_ addr. if addr = ([127, 0, 0, 1], 1080) then Some 7 else None)\<rparr>"

theorem associate_agrees_witness:
  "\<exists>w' header. dialUDPProxy sampleAssociation socksUpstream [97, 46, 98] 53 [([10, 0, 0, 1], 1080)] = Ok (SocksUDPConn 7 w' header)
    \<and> wr_log w' = map Write [[5, 1, 0], associateRequest]"
proof -
  let ?raddr = "([10, 0, 0, 1], 1080) :: bytes \<times> int" and ?la = "\<lparr>ta_IP = [127, 0, 0, 1], ta_Port = 1080\<rparr> :: tcpAddr"
  define w where "w = \<lparr>wr_conn = \<lparr>tc_in = [[5, 0, 5], [0, 0, 1, 127, 0, 0, 1, 4, 56]], tc_out = [], tc_left = 4\<rparr>, wr_log = [], wr_syn = None\<rparr>"
  have h: "ob_Hint socksUpstream AND HINT_MODIFY = 0"
    by (simp add: socksUpstream_def hint_defs)
  have w: "associateConn (dialEnv.truncate sampleAssociation) socksUpstream None ?raddr = Inr w"
    by (simp add: associateConn_def h sampleAssociation_def dialEnv.truncate_def w_def)
  have ip: "wireIP [127, 0, 0, 1] = [127, 0, 0, 1]" "\<not> isUnspecifiedIP [127, 0, 0, 1]"
    by (auto simp: isUnspecifiedIP_def wireIP_def To4_def dest: arg_cong [of _ _ length])
  have reply: "concat (tc_in (wr_conn w)) = [5, 0] @ socks5UDPAssociateReply (Some ?la) @ []"
    by (simp add: w_def socks5UDPAssociateReply_def socks5AddrReply_def socks5_reps To4_def be_bytes_2)
  show ?thesis
    using associate_agrees [where env = sampleAssociation and ob = socksUpstream and raddrs = "[?raddr]" and raddr = ?raddr
        and host = "[97, 46, 98]" and port = 53 and laddr = None and w = w and la = ?la and s = "[]" and c = 7] w reply ip
    by (auto simp: socksUpstream_def sampleAssociation_def GetLocalTCPAddr_def ipOk_def associatePackets_def h w_def hint_defs)
qed

end
