(* ===== verification/Go_Fields.thy ===== *)
theory Go_Fields
  imports Go_Strings
begin

text \<open>
  \<open>strings.Fields\<close>: the words between white space, which besides the six ASCII characters is
  the white space of Unicode, here as the bytes of UTF-8.
\<close>

definition spaceWidth :: "gostr \<Rightarrow> nat" where
  "spaceWidth s =
    (if s = [] then 0
     else if hd s \<in> {9, 10, 11, 12, 13, 32} then 1
     else if take 2 s \<in> {[0xC2, 0x85], [0xC2, 0xA0]} then 2
     else if take 3 s \<in> {[0xE1, 0x9A, 0x80], [0xE2, 0x80, 0xA8], [0xE2, 0x80, 0xA9], [0xE2, 0x80, 0xAF], [0xE2, 0x81, 0x9F], [0xE3, 0x80, 0x80]}
       \<or> take 2 s = [0xE2, 0x80] \<and> length s > 2 \<and> s ! 2 \<ge> 0x80 \<and> s ! 2 \<le> 0x8A then 3
     else 0)"

text \<open>How many bytes to skip, the word so far, and the rest.\<close>

fun fieldsFrom :: "nat \<Rightarrow> gostr \<Rightarrow> gostr \<Rightarrow> gostr list" where
  "fieldsFrom k word [] = (if word = [] then [] else [word])"
| "fieldsFrom (Suc k) word (c # s) = fieldsFrom k word s"
| "fieldsFrom 0 word (c # s) =
    (if spaceWidth (c # s) = 0 then fieldsFrom 0 (word @ [c]) s
     else (if word = [] then [] else [word]) @ fieldsFrom (spaceWidth (c # s) - 1) [] s)"

definition Fields :: "gostr \<Rightarrow> gostr list" where
  "Fields s = fieldsFrom 0 [] s"

lemma fieldsFrom_nonempty: "w \<in> set (fieldsFrom k word s) \<Longrightarrow> w \<noteq> []"
  by (induction k word s rule: fieldsFrom.induct) (auto split: if_splits)

end
