(* ===== verification/Port_Mapping.thy ===== *)
theory Port_Mapping
  imports Go_Machine Go_Maps Go_Fields Tcp_Wire
begin

text \<open>
  Port mappings (\<open>phantomtcp/portmapping.go\<close>): addresses with the name of an interface, the
  URL of a SOCKS server that binds a port, UDP and TCP mappings to a list of targets. What
  \<open>url.Parse\<close> gives is a parameter, and so are the addresses of the interfaces, which
  connections can be dialled, and the result of a script.
\<close>

subsection \<open>The URL of a SOCKS listener\<close>

record listenURL =
  lu_Scheme :: gostr
  lu_Host :: gostr
  lu_User :: "(gostr \<times> gostr) option"
  lu_Bind :: gostr

definition isSocksScheme :: "listenURL \<Rightarrow> bool" where
  "isSocksScheme u \<longleftrightarrow> lu_Scheme u = str ''socks5'' \<or> lu_Scheme u = str ''socks''"

definition IsSocksListen :: "(gostr \<Rightarrow> listenURL option) \<Rightarrow> gostr \<Rightarrow> bool" where
  "IsSocksListen parse listen =
    (case parse listen of None \<Rightarrow> False | Some u \<Rightarrow> isSocksScheme u \<and> lu_Host u \<noteq> [])"

definition parseBindAddr :: "gostr \<Rightarrow> error + bytes \<times> int" where
  "parseBindAddr addr =
    (if addr = [] then Inr (IPv4zero, 0)
     else if hasPrefix addr [58] then
       (case Atoi (tl addr) of None \<Rightarrow> Inl ''port'' | Some port \<Rightarrow> Inr (IPv4zero, port))
     else if 58 \<notin> set addr then
       (case Atoi addr of None \<Rightarrow> Inl ''port'' | Some port \<Rightarrow> Inr (IPv4zero, port))
     else
       (case SplitHostPort addr of None \<Rightarrow> Inl ''address''
        | Some (host, portStr) \<Rightarrow>
           (case Atoi portStr of None \<Rightarrow> Inl ''port''
            | Some port \<Rightarrow> (if ParseIP host = [] then Inl ''invalid bind address'' else Inr (ParseIP host, port)))))"

definition ParseSocksListen :: "(gostr \<Rightarrow> listenURL option) \<Rightarrow> gostr \<Rightarrow> error + SocksListenConfig" where
  "ParseSocksListen parse listen =
    (case parse listen of None \<Rightarrow> Inl ''url''
     | Some u \<Rightarrow>
        (if \<not> isSocksScheme u then Inl ''not a socks listen URL''
         else if lu_Host u = [] then Inl ''missing proxy host''
         else
           (case hostAndPort (lu_Host u) of None \<Rightarrow> Inl ''address''
            | Some (host, port) \<Rightarrow>
               (case parseBindAddr (lu_Bind u) of Inl e \<Rightarrow> Inl e
                | Inr (ip, bindPort) \<Rightarrow>
                   Inr \<lparr>sl_ProxyHost = host, sl_ProxyPort = port,
                        sl_User = (case lu_User u of Some (user, _) \<Rightarrow> user | None \<Rightarrow> []),
                        sl_Password = (case lu_User u of Some (_, password) \<Rightarrow> password | None \<Rightarrow> []),
                        sl_BindIP = ip, sl_BindPort = bindPort\<rparr>))))"

subsection \<open>Addresses with an interface\<close>

text \<open>\<open>None\<close> is the panic at an empty address.\<close>

definition IsIPv6 :: "gostr \<Rightarrow> bool option" where
  "IsIPv6 addr = (case addr of [] \<Rightarrow> None | c # _ \<Rightarrow> Some (c = 91))"

text \<open>Whether an address of an interface is taken: one of the family that is not link-local.\<close>

definition usableAddress :: "bool \<Rightarrow> bytes \<Rightarrow> bool" where
  "usableAddress ipv6 ip \<longleftrightarrow>
    (if ipv6 then To4 ip = [] \<and> \<not> hasPrefix (IPString ip) (str ''fe80::'') else To4 ip \<noteq> [])"

definition bracketed :: "bool \<Rightarrow> bytes \<Rightarrow> gostr" where
  "bracketed ipv6 ip = (if ipv6 then [91] @ IPString ip @ [93] else IPString ip)"

text \<open>The last usable address of the interface, or the empty string.\<close>

definition GetAddressFromInterface :: "(gostr \<Rightarrow> bytes list option) \<Rightarrow> gostr \<Rightarrow> bool \<Rightarrow> error + gostr" where
  "GetAddressFromInterface interfaces iface ipv6 =
    (case interfaces iface of None \<Rightarrow> Inl ''no such interface''
     | Some ips \<Rightarrow> Inr (foldl (\<lambda>addr ip. if usableAddress ipv6 ip then bracketed ipv6 ip else addr) [] ips))"

text \<open>
  The address that \<open>ListenUDP\<close> listens on: that of the interface replaces the host, \<open>None\<close>
  being the panic when there is no port to keep.
\<close>

fun listenOn :: "bool \<Rightarrow> bytes list \<Rightarrow> gostr \<Rightarrow> gostr option" where
  "listenOn ipv6 [] addr = Some addr"
| "listenOn ipv6 (ip # ips) addr =
    (if usableAddress ipv6 ip then
       (case (if ipv6 then indexOf [93, 58] addr else indexByte 58 addr) of None \<Rightarrow> None
        | Some i \<Rightarrow> listenOn ipv6 ips ((if ipv6 then [91] @ IPString ip else IPString ip) @ drop i addr))
     else listenOn ipv6 ips addr)"

definition ListenUDP :: "(gostr \<Rightarrow> bytes list option) \<Rightarrow> gostr \<Rightarrow> (error + gostr \<times> gostr) option" where
  "ListenUDP interfaces address =
    (case splitByte2 64 address of
       [addr] \<Rightarrow> map_option (\<lambda>ipv6. Inr (str (if ipv6 then ''udp6'' else ''udp''), addr)) (IsIPv6 addr)
     | addr # iface # _ \<Rightarrow>
        (case IsIPv6 addr of None \<Rightarrow> None
         | Some ipv6 \<Rightarrow>
            (case interfaces iface of None \<Rightarrow> Some (Inl ''no such interface'')
             | Some ips \<Rightarrow> map_option (\<lambda>addr. Inr (str (if ipv6 then ''udp6'' else ''udp''), addr)) (listenOn ipv6 ips addr))))"

text \<open>The local address, if any, and the remote one.\<close>

definition DialUDP :: "(gostr \<Rightarrow> bytes list option) \<Rightarrow> gostr \<Rightarrow> (error + gostr option \<times> gostr) option" where
  "DialUDP interfaces address =
    (case splitByte2 64 address of
       addr # iface # _ \<Rightarrow>
        (case IsIPv6 addr of None \<Rightarrow> None
         | Some ipv6 \<Rightarrow>
            (case GetAddressFromInterface interfaces iface ipv6 of Inl e \<Rightarrow> Some (Inl e)
             | Inr laddr \<Rightarrow> Some (Inr (Some (laddr @ str '':0''), addr))))
     | _ \<Rightarrow> Some (Inr (None, address)))"

definition DialTCP :: "(gostr \<Rightarrow> bytes list option) \<Rightarrow> gostr \<Rightarrow> gostr \<Rightarrow> (error + gostr option \<times> gostr) option" where
  "DialTCP interfaces address device =
    (if device = [] then Some (Inr (None, address))
     else
       (case IsIPv6 address of None \<Rightarrow> None
        | Some ipv6 \<Rightarrow>
           (case GetAddressFromInterface interfaces device ipv6 of Inl e \<Rightarrow> Some (Inl e)
            | Inr laddr \<Rightarrow> Some (Inr (Some (laddr @ str '':0''), address)))))"

definition parseAddresses :: "gostr \<Rightarrow> gostr list" where
  "parseAddresses list = filter (\<lambda>addr. addr \<noteq> []) (splitByte 44 list)"

subsection \<open>UDP mappings\<close>

datatype mapEffect = ToRemote nat bytes | ToClient gostr bytes

text \<open>With a local port: the last client gets the replies, until a read fails.\<close>

definition portDatagram :: "nat \<Rightarrow> (gostr \<times> bytes) option \<Rightarrow> gostr option \<Rightarrow> mapEffect list \<times> gostr option" where
  "portDatagram conn event SrcAddr =
    (case event of None \<Rightarrow> ([], None) | Some (client, d) \<Rightarrow> ([ToRemote conn (take 1500 d)], Some client))"

definition portReply :: "bytes \<Rightarrow> gostr option \<Rightarrow> mapEffect list" where
  "portReply d SrcAddr = (case SrcAddr of None \<Rightarrow> [] | Some client \<Rightarrow> [ToClient client (take 1500 d)])"

text \<open>Its loop over what is received, \<open>None\<close> being an error.\<close>

fun portLoop :: "nat \<Rightarrow> (gostr \<times> bytes) option list \<Rightarrow> gostr option \<Rightarrow> mapEffect list \<times> gostr option" where
  "portLoop conn [] SrcAddr = ([], SrcAddr)"
| "portLoop conn (event # events) SrcAddr =
    (let (out, SrcAddr) = portDatagram conn event SrcAddr;
         (outs, SrcAddr) = portLoop conn events SrcAddr
     in (out @ outs, SrcAddr))"

text \<open>
  With an address: a connection for every client. Connections are numbered as they are
  dialled; \<open>um_readers\<close> are the functions that read one and answer its client.
\<close>

record udpMap =
  um_conns :: "(gostr \<times> nat) list"
  um_readers :: "(nat \<times> gostr) list"
  um_opened :: nat

definition udpMap0 :: udpMap where
  "udpMap0 = \<lparr>um_conns = [], um_readers = [], um_opened = 0\<rparr>"

text \<open>Whether a connection can be dialled, and takes the first datagram.\<close>

definition mapDatagram :: "bool \<Rightarrow> bool \<Rightarrow> gostr \<Rightarrow> bytes \<Rightarrow> udpMap \<Rightarrow> mapEffect list \<times> udpMap" where
  "mapDatagram dialled sent client d st =
    (case map_of (um_conns st) client of
       Some conn \<Rightarrow> ([ToRemote conn (take 1500 d)], st)
     | None \<Rightarrow>
        (if \<not> dialled then ([], st)
         else
           (let conn = um_opened st;
                st = st\<lparr>um_conns := AList.update client conn (um_conns st), um_opened := conn + 1\<rparr>
            in if \<not> sent then ([], st)
               else ([ToRemote conn (take 1500 d)], st\<lparr>um_readers := um_readers st @ [(conn, client)]\<rparr>))))"

definition mapReply :: "nat \<times> gostr \<Rightarrow> bytes \<Rightarrow> mapEffect list" where
  "mapReply reader d = [ToClient (snd reader) (take 1500 d)]"

definition mapReaderEnd :: "nat \<times> gostr \<Rightarrow> udpMap \<Rightarrow> udpMap" where
  "mapReaderEnd reader st =
    st\<lparr>um_conns := AList.delete (snd reader) (um_conns st), um_readers := remove1 reader (um_readers st)\<rparr>"

text \<open>\<open>UDPMapping\<close>: the target is the first address of the list; without one there is nothing to do.\<close>

datatype udpMapping = NoMapping | PortMapping int gostr | AddressMapping gostr gostr

definition UDPMapping :: "gostr \<Rightarrow> gostr \<Rightarrow> udpMapping" where
  "UDPMapping Address Target =
    (case parseAddresses Target of [] \<Rightarrow> NoMapping
     | target # _ \<Rightarrow> (case Atoi Address of Some port \<Rightarrow> PortMapping port target | None \<Rightarrow> AddressMapping Address target))"

subsection \<open>TCP mappings\<close>

text \<open>\<open>tcpMappingRelay\<close>: the address it relays to, after a script; a blank script panics.\<close>

definition tcpMappingRelay :: "(gostr list \<Rightarrow> bool) \<Rightarrow> gostr \<Rightarrow> gostr \<Rightarrow> gostr option option" where
  "tcpMappingRelay run address script =
    (if script = [] then Some (Some address)
     else if Fields script = [] then None
     else Some (if run (Fields script) then Some address else None))"

datatype tcpMapping = NoTCP | BindLoop SocksListenConfig "gostr list" | AcceptLoop gostr gostr "gostr list"

definition TCPMapping :: "(gostr \<Rightarrow> listenURL option) \<Rightarrow> gostr \<Rightarrow> gostr \<Rightarrow> (error + tcpMapping) option" where
  "TCPMapping parse Listen Address =
    (let addresses = parseAddresses Address in
     if addresses = [] then Some (Inr NoTCP)
     else if IsSocksListen parse Listen then
       Some (case ParseSocksListen parse Listen of Inl e \<Rightarrow> Inl e | Inr cfg \<Rightarrow> Inr (BindLoop cfg addresses))
     else
       map_option (\<lambda>ipv6. Inr (AcceptLoop (str (if ipv6 then ''tcp6'' else ''tcp'')) Listen addresses)) (IsIPv6 Listen))"

text \<open>A turn of the loop that binds: the connection on which a peer came in, and where it goes.\<close>

definition bindTurn ::
  "(gostr \<Rightarrow> (tcpConn \<times> tcpAddr option) option) \<Rightarrow> (nat \<Rightarrow> nat) \<Rightarrow> SocksListenConfig \<Rightarrow> gostr list \<Rightarrow> error + tcpConn \<times> tcpAddr \<times> gostr" where
  "bindTurn dial random cfg addresses =
    (case DialTCPBind dial (Some cfg) of Inl e \<Rightarrow> Inl e
     | Inr (ctrl, bnd) \<Rightarrow>
        (case SocksBindWaitInbound ctrl of
           (Inl e, _) \<Rightarrow> Inl e
         | (Inr peer, ctrl) \<Rightarrow> Inr (ctrl, peer, addresses ! random (length addresses))))"

subsection \<open>Clients do not mix\<close>

inductive mapStep :: "udpMap \<Rightarrow> udpMap \<Rightarrow> bool" where
  datagram: "mapDatagram dialled sent client d st = (out, st') \<Longrightarrow> mapStep st st'"
| reader_end: "reader \<in> set (um_readers st) \<Longrightarrow> mapStep st (mapReaderEnd reader st)"

definition mapOk :: "udpMap \<Rightarrow> bool" where
  "mapOk st \<longleftrightarrow> distinct (map fst (um_conns st)) \<and> distinct (map snd (um_conns st)) \<and> distinct (map fst (um_readers st))
    \<and> (\<forall>(client, conn) \<in> set (um_conns st). conn < um_opened st)
    \<and> (\<forall>(conn, client) \<in> set (um_readers st). (client, conn) \<in> set (um_conns st))"

lemma mapOk0: "mapOk udpMap0"
  by (simp add: mapOk_def udpMap0_def)

lemma update_new: "map_of xs k = None \<Longrightarrow> AList.update k v xs = xs @ [(k, v)]"
  by (induction xs) (auto split: if_splits)

lemma mapOk_datagram:
  assumes "mapOk st" "mapDatagram dialled sent client d st = (out, st')"
  shows "mapOk st'"
proof (cases "map_of (um_conns st) client = None \<and> dialled")
  case True
  then have new: "AList.update client (um_opened st) (um_conns st) = um_conns st @ [(client, um_opened st)]" "client \<notin> fst ` set (um_conns st)"
    by (simp_all add: update_new map_of_eq_None_iff)
  have fresh: "um_opened st \<notin> snd ` set (um_conns st)" "um_opened st \<notin> fst ` set (um_readers st)"
    using assms(1) by (fastforce simp: mapOk_def)+
  let ?st = "st\<lparr>um_conns := um_conns st @ [(client, um_opened st)], um_opened := um_opened st + 1\<rparr>"
  have "st' = ?st \<or> st' = ?st\<lparr>um_readers := um_readers st @ [(um_opened st, client)]\<rparr>"
    using True assms(2) new by (auto simp: mapDatagram_def Let_def split: if_splits)
  with assms(1) new(2) fresh show ?thesis
    by (auto simp: mapOk_def less_Suc_eq)
next
  case False
  with assms show ?thesis by (auto simp: mapDatagram_def split: option.splits if_splits)
qed

lemma mapOk_reader_end:
  assumes "mapOk st" "reader \<in> set (um_readers st)"
  shows "mapOk (mapReaderEnd reader st)"
proof -
  obtain conn client where r: "reader = (conn, client)"
    by (cases reader)
  have d: "distinct (um_readers st)" "inj_on fst (set (um_readers st))"
    using assms(1) by (simp_all add: mapOk_def distinct_map)
  have others: "client' \<noteq> client" if "(conn', client') \<in> set (remove1 reader (um_readers st))" for conn' client'
  proof
    assume "client' = client"
    moreover have mem: "(conn', client') \<in> set (um_readers st)" "(conn', client') \<noteq> (conn, client)"
      using that d(1) r by auto
    ultimately have "(client, conn') \<in> set (um_conns st)" "(client, conn) \<in> set (um_conns st)"
      using assms r by (fastforce simp: mapOk_def)+
    then have "conn' = conn"
      using assms(1) by (metis mapOk_def map_of_is_SomeI option.inject)
    with \<open>client' = client\<close> mem(2) show False by simp
  qed
  let ?conns = "AList.delete client (um_conns st)"
  have readers: "distinct (map fst (remove1 reader (um_readers st)))"
    using d by (simp add: distinct_map inj_on_diff)
  have conns: "distinct (map fst ?conns)" "distinct (map snd ?conns)" "set ?conns = {x \<in> set (um_conns st). fst x \<noteq> client}"
    using assms(1) by (auto simp: mapOk_def AList.delete_eq distinct_map_filter)
  have "(client', conn') \<in> set ?conns" if "(conn', client') \<in> set (remove1 reader (um_readers st))" for conn' client'
  proof -
    have "(conn', client') \<in> set (um_readers st)"
      using that set_remove1_subset by fast
    with assms(1) others [OF that] show ?thesis
      by (fastforce simp: mapOk_def conns(3))
  qed
  then have "\<forall>(conn', client') \<in> set (remove1 reader (um_readers st)). (client', conn') \<in> set ?conns"
    by blast
  moreover have "\<forall>(client', conn') \<in> set ?conns. conn' < um_opened st"
    using assms(1) conns(3) by (auto simp: mapOk_def)
  moreover have "um_conns (mapReaderEnd reader st) = ?conns" "um_readers (mapReaderEnd reader st) = remove1 reader (um_readers st)"
    "um_opened (mapReaderEnd reader st) = um_opened st"
    by (simp_all add: mapReaderEnd_def r)
  ultimately show ?thesis
    unfolding mapOk_def using readers conns(1,2) by presburger
qed

interpretation mapping: machine udpMap0 mapStep mapOk
proof
  show "mapOk st'" if "mapOk st" "mapStep st st'" for st st'
    using that(2,1) by cases (auto intro: mapOk_datagram mapOk_reader_end)
qed (rule mapOk0)

text \<open>With a local port, what comes in goes to the one connection, and the last client is kept.\<close>

lemma portLoop_received:
  "portLoop conn events SrcAddr =
    (map (\<lambda>(_, d). ToRemote conn (take 1500 d)) (concat (map (\<lambda>e. case e of None \<Rightarrow> [] | Some x \<Rightarrow> [x]) events)),
     if events = [] then SrcAddr else map_option fst (last events))"
  by (induction events arbitrary: SrcAddr) (auto simp: portDatagram_def split: option.split)

text \<open>C22: The clients of a UDP mapping whose local side is an address do not mix: in every
  reachable state, what is read from a connection is answered to the one client whose datagrams
  go to that connection, and it has at most one reader. Those of a mapping whose local side is a
  mere port do mix: after any sequence of datagrams and errors, all datagrams went to the one
  connection, in their order, and what is read from it is answered to the sender of the last
  datagram, whoever asked, or to nobody when an error came after it.
\<close>

theorem mapping_isolated:
  assumes "mapStep\<^sup>*\<^sup>* udpMap0 st" and "(conn, client) \<in> set (um_readers st)"
  shows "mapReply (conn, client) d = [ToClient client (take 1500 d)]
    \<and> mapDatagram dialled sent client d st = ([ToRemote conn (take 1500 d)], st)
    \<and> (map_of (um_conns st) client' = Some conn \<longleftrightarrow> client' = client)
    \<and> ((conn, client'') \<in> set (um_readers st) \<longleftrightarrow> client'' = client)
    \<and> fst (portLoop target events None)
      = map (\<lambda>(_, d). ToRemote target (take 1500 d)) (concat (map (\<lambda>e. case e of None \<Rightarrow> [] | Some x \<Rightarrow> [x]) events))
    \<and> portReply d (snd (portLoop target events None))
      = (if events = [] then [] else case last events of None \<Rightarrow> [] | Some (sender, _) \<Rightarrow> [ToClient sender (take 1500 d)])"
proof -
  have ok: "mapOk st"
    using assms(1) by (rule mapping.reachable_inv)
  then have conn: "map_of (um_conns st) client = Some conn"
    using assms(2) by (fastforce simp: mapOk_def)
  have inj: "inj_on snd (set (um_conns st))" "inj_on fst (set (um_readers st))"
    using ok by (simp_all add: mapOk_def distinct_map)
  show ?thesis
  proof (intro conjI iffI)
    assume "map_of (um_conns st) client' = Some conn"
    from inj_onD [OF inj(1) _ map_of_SomeD [OF this] map_of_SomeD [OF conn]] show "client' = client"
      by simp
  next
    assume "(conn, client'') \<in> set (um_readers st)"
    from inj_onD [OF inj(2) _ this assms(2)] show "client'' = client"
      by simp
  qed (use conn assms(2) in \<open>simp_all add: mapReply_def mapDatagram_def portLoop_received portReply_def split: option.split\<close>)
qed

definition mappedState :: udpMap where
  "mappedState = \<lparr>um_conns = [([97], 0)], um_readers = [(0, [97])], um_opened = 1\<rparr>"

theorem mapping_isolated_witness:
  "mapDatagram True True [97] [1, 2] mappedState = ([ToRemote 0 [1, 2]], mappedState) \<and> map_of (um_conns mappedState) [98] \<noteq> Some 0
    \<and> portReply [1, 2] (snd (portLoop 3 [Some ([97], [1]), Some ([98], [2])] None)) = [ToClient [98] [1, 2]]"
proof -
  have "mapStep udpMap0 mappedState"
    by (rule mapStep.datagram [of True True "[97]" "[1]"]) (simp add: mapDatagram_def udpMap0_def mappedState_def)
  then have run: "mapStep\<^sup>*\<^sup>* udpMap0 mappedState" ..
  have "(0, [97]) \<in> set (um_readers mappedState)"
    by (simp add: mappedState_def)
  from mapping_isolated [OF run this, of "[1, 2]" True True "[98]" "[97]" 3 "[Some ([97], [1]), Some ([98], [2])]"] show ?thesis
    by simp
qed

text \<open>
  When the first datagram of a client cannot be written, its connection stays in the map with
  no reader: from then on its datagrams go there, and nothing ever answers or removes it.
\<close>

definition unread :: "gostr \<Rightarrow> nat \<Rightarrow> udpMap \<Rightarrow> bool" where
  "unread client conn st \<longleftrightarrow> mapOk st \<and> map_of (um_conns st) client = Some conn \<and> conn \<notin> fst ` set (um_readers st)"

lemma unread_step:
  assumes "unread client conn st" "mapStep st st'"
  shows "unread client conn st'"
  using assms(2)
proof cases
  case (datagram dialled sent client' d out)
  have "mapOk st'"
    using assms mapping.inv_step by (auto simp: unread_def)
  moreover have "conn < um_opened st"
    using assms(1) map_of_SomeD by (fastforce simp: unread_def mapOk_def)
  ultimately show ?thesis
    using datagram assms(1) by (auto simp: unread_def mapDatagram_def Let_def update_new split: option.splits if_splits)
next
  case (reader_end reader)
  have "snd reader \<noteq> client"
  proof
    assume "snd reader = client"
    then have "(client, fst reader) \<in> set (um_conns st)"
      using assms(1) reader_end(2) by (fastforce simp: unread_def mapOk_def)
    with assms(1) have "fst reader = conn"
      by (auto simp: unread_def mapOk_def)
    with assms(1) reader_end(2) show False by (auto simp: unread_def)
  qed
  moreover have "mapOk st'"
    using assms mapping.inv_step by (auto simp: unread_def)
  moreover have "set (remove1 reader (um_readers st)) \<subseteq> set (um_readers st)"
    by (rule set_remove1_subset)
  ultimately show ?thesis
    using reader_end assms(1) by (auto simp: unread_def mapReaderEnd_def alist_simps)
qed

text \<open>A client whose first datagram cannot be written is cut off for ever: its connection
  stays in the map without a reader, so that no reply can come, and its later datagrams go
  there instead of opening another.
\<close>

theorem failed_write_starves:
  assumes "mapStep\<^sup>*\<^sup>* udpMap0 st" "map_of (um_conns st) client = None"
    and "mapStep\<^sup>*\<^sup>* (snd (mapDatagram True False client d st)) st'"
  shows "um_opened st \<notin> fst ` set (um_readers st')
    \<and> mapDatagram dialled sent client d' st' = ([ToRemote (um_opened st) (take 1500 d')], st')"
proof -
  have ok: "mapOk st"
    using assms(1) by (rule mapping.reachable_inv)
  then have "um_opened st \<notin> fst ` set (um_readers st)"
    by (fastforce simp: mapOk_def)
  moreover have "mapOk (snd (mapDatagram True False client d st))"
    by (rule mapOk_datagram [OF ok, where out = "fst (mapDatagram True False client d st)"]) simp
  ultimately have "unread client (um_opened st) (snd (mapDatagram True False client d st))"
    using assms(2) by (simp add: unread_def mapDatagram_def Let_def alist_simps)
  with assms(3) have "unread client (um_opened st) st'"
    by (induction rule: rtranclp_induct) (auto intro: unread_step)
  then show ?thesis
    by (auto simp: unread_def mapDatagram_def)
qed

theorem failed_write_starves_witness:
  "mapDatagram True True [97] [2] (snd (mapDatagram True False [97] [1] udpMap0))
    = ([ToRemote 0 [2]], snd (mapDatagram True False [97] [1] udpMap0))"
proof -
  have "map_of (um_conns udpMap0) [97] = None" "um_opened udpMap0 = 0"
    by (simp_all add: udpMap0_def)
  with failed_write_starves [OF rtranclp.rtrancl_refl this(1) rtranclp.rtrancl_refl, of "[1]" True True "[2]"] show ?thesis
    by simp
qed

subsection \<open>A port bound at a SOCKS server\<close>

lemma ipOk_ParseIP: "ParseIP host \<noteq> [] \<Longrightarrow> ipOk (ParseIP host)"
  using ParseIP_length [of host] by (auto simp: ipOk_def)

lemma parseBindAddr_ok: "parseBindAddr addr = Inr (ip, port) \<Longrightarrow> ipOk ip"
  by (auto simp: parseBindAddr_def IPv4zero_def To16_def v4InV6Prefix_def ipOk_ParseIP ipOk_def [of "_ @ _"] split: if_splits option.splits)

lemma ParseSocksListen_ok:
  assumes "ParseSocksListen parse listen = Inr cfg"
  shows "ipOk (sl_BindIP cfg)"
proof -
  obtain u where "parse listen = Some u"
    using assms by (auto simp: ParseSocksListen_def split: option.splits)
  with assms have "parseBindAddr (lu_Bind u) = Inr (sl_BindIP cfg, sl_BindPort cfg)"
    by (auto simp: ParseSocksListen_def split: option.splits if_splits sum.splits)
  then show ?thesis
    by (rule parseBindAddr_ok)
qed

lemma reads_wait:
  assumes "ipOk (ta_IP peer)" "ta_Port peer < 65536"
  shows "reads SocksBindWaitInbound (socks5AddrReply socks5RepSucceeded peer) \<lparr>ta_IP = wireIP (ta_IP peer), ta_Port = ta_Port peer\<rparr>"
proof -
  have "reads SocksBindWaitInbound (socks5AddrReply socks5RepSucceeded peer @ []) \<lparr>ta_IP = wireIP (ta_IP peer), ta_Port = ta_Port peer\<rparr>"
    unfolding SocksBindWaitInbound_def
    using talks_bind [OF reads_addrReply [OF assms, of socks5RepSucceeded],
        of "\<lambda>r. if fst r \<noteq> socks5RepSucceeded then ioError ''socks bind inbound failed'' else ioReturn (snd r)" "[]" "[]"]
    by auto
  then show ?thesis by simp
qed

text \<open>C37: A TCP mapping that listens at a SOCKS URL, with the SOCKS server of the program at the
  other end: its two replies, the address it bound and the one that came in, make the turn
  give the connection, with the client's bytes still on it, to one of the targets; and what
  was written makes the server bind the address and port of the URL.
\<close>

theorem bind_mapping:
  assumes "TCPMapping parse Listen Address = Some (Inr (BindLoop cfg addresses))"
    and "sl_ProxyHost cfg \<noteq> []" "sl_ProxyPort cfg > 0" "sl_User cfg = []"
    and "ipOk (ta_IP bound)" "ta_Port bound < 65536" "ipOk (ta_IP peer)" "ta_Port peer < 65536"
    and "dial (JoinHostPort (sl_ProxyHost cfg) (decString (nat (sl_ProxyPort cfg)))) = Some (client, remote)"
    and "tc_out client = []" "tc_left client \<ge> 2" "\<And>n. 0 < n \<Longrightarrow> random n < n"
    and "concat (tc_in client) = [5, 0] @ socks5AddrReply socks5RepSucceeded bound @ socks5AddrReply socks5RepSucceeded peer @ s"
  shows "\<exists>client' target. bindTurn dial random cfg addresses
        = Inr (client', \<lparr>ta_IP = wireIP (ta_IP peer), ta_Port = ta_Port peer\<rparr>, target)
    \<and> target \<in> set (parseAddresses Address) \<and> concat (tc_in client') = s
    \<and> talks (SocksProxy local) (concat (tc_out client')) [[5, 0]] (Bind [] (bindWireIP (sl_BindIP cfg)) (nat (sl_BindPort cfg mod 65536)))"
proof -
  have cfg: "ipOk (sl_BindIP cfg)" "addresses = parseAddresses Address" "addresses \<noteq> []"
    using assms(1) by (auto simp: TCPMapping_def Let_def dest: ParseSocksListen_ok split: if_splits sum.splits)
  obtain rest where rest: "concat rest = socks5AddrReply socks5RepSucceeded peer @ s"
    "bindExchange cfg client = (Inr \<lparr>ta_IP = wireIP (ta_IP bound), ta_Port = ta_Port bound\<rparr>,
      client\<lparr>tc_in := rest, tc_out := [[5, 1, 0], socks5BindRequest (sl_BindIP cfg) (sl_BindPort cfg)], tc_left := tc_left client - 2\<rparr>)"
    by (rule talksE [OF talks_bindExchange [OF assms(4-6)], of client "socks5AddrReply socks5RepSucceeded peer @ s"])
      (use assms(10,11,13) in \<open>auto simp: numeral_2_eq_2\<close>)
  let ?client = "client\<lparr>tc_in := rest, tc_out := [[5, 1, 0], socks5BindRequest (sl_BindIP cfg) (sl_BindPort cfg)], tc_left := tc_left client - 2\<rparr>"
  obtain bnd where bnd: "DialTCPBind dial (Some cfg) = Inr (?client, bnd)"
    using assms(2,3,9) rest(2) by (auto simp: DialTCPBind_def)
  obtain r2 where r2: "concat r2 = s"
    "SocksBindWaitInbound ?client = (Inr \<lparr>ta_IP = wireIP (ta_IP peer), ta_Port = ta_Port peer\<rparr>, ?client\<lparr>tc_in := r2\<rparr>)"
    by (rule talksE [OF reads_wait [OF assms(7,8)], of ?client s]) (use rest(1) in auto)
  have "talks (SocksProxy local) ([5, 1, 0] @ socks5BindRequest (sl_BindIP cfg) (sl_BindPort cfg)) [[5, 0]]
      (Bind [] (bindWireIP (sl_BindIP cfg)) (nat (sl_BindPort cfg mod 65536)))"
    using cfg(1) by (intro talks_SocksProxy_bind) simp
  moreover have "bindTurn dial random cfg addresses = Inr (?client\<lparr>tc_in := r2\<rparr>,
      \<lparr>ta_IP = wireIP (ta_IP peer), ta_Port = ta_Port peer\<rparr>, addresses ! random (length addresses))"
    using bnd r2 by (simp add: bindTurn_def)
  moreover have "addresses ! random (length addresses) \<in> set addresses"
    using assms(12) cfg(3) by simp
  ultimately show ?thesis
    using r2(1) cfg(2) by auto
qed

definition sampleListen :: "gostr \<Rightarrow> listenURL option" where
  "sampleListen listen =
    (if listen = str ''socks://h:1080'' then Some \<lparr>lu_Scheme = str ''socks'', lu_Host = str ''h:1080'', lu_User = None, lu_Bind = str '':80''\<rparr> else None)"

definition mappedClient :: tcpConn where
  "mappedClient = \<lparr>tc_in = [[5, 0, 5, 0, 0, 1, 10, 0, 0, 1, 0, 80], [5, 0, 0, 1, 10, 0, 0, 9, 4, 0, 71]], tc_out = [], tc_left = 2\<rparr>"

theorem bind_mapping_witness:
  "\<exists>client'. bindTurn (\<lambda>_. Some (mappedClient, None)) (\<lambda>_. 0)
      \<lparr>sl_ProxyHost = str ''h'', sl_ProxyPort = 1080, sl_User = [], sl_Password = [], sl_BindIP = IPv4zero, sl_BindPort = 80\<rparr> [[97]]
    = Inr (client', \<lparr>ta_IP = [10, 0, 0, 9], ta_Port = 1024\<rparr>, [97]) \<and> concat (tc_in client') = [71]"
proof -
  let ?bound = "\<lparr>ta_IP = [10, 0, 0, 1], ta_Port = 80\<rparr> :: tcpAddr" and ?peer = "\<lparr>ta_IP = [10, 0, 0, 9], ta_Port = 1024\<rparr> :: tcpAddr"
  let ?cfg = "\<lparr>sl_ProxyHost = str ''h'', sl_ProxyPort = 1080, sl_User = [], sl_Password = [], sl_BindIP = IPv4zero, sl_BindPort = 80\<rparr>"
  have "TCPMapping sampleListen (str ''socks://h:1080'') [97] = Some (Inr (BindLoop ?cfg [[97]]))"
    by (simp add: TCPMapping_def parseAddresses_def IsSocksListen_def ParseSocksListen_def sampleListen_def isSocksScheme_def
        parseBindAddr_def hostAndPort_def SplitHostPort_def hasHostPort_def lastIndexByte_def hasPrefix_def Atoi_def isDigit_def decimal_def str_def)
  moreover have "concat (tc_in mappedClient) = [5, 0] @ socks5AddrReply socks5RepSucceeded ?bound @ socks5AddrReply socks5RepSucceeded ?peer @ [71]"
    by (simp add: mappedClient_def socks5AddrReply_def socks5_reps To4_def be_bytes_2)
  moreover have "wireIP [10, 0, 0, 9] = [10, 0, 0, 9]"
    by (simp add: wireIP_def To4_def)
  ultimately show ?thesis
    using bind_mapping [of sampleListen "str ''socks://h:1080''" "[97]" ?cfg "[[97]]" ?bound ?peer "\<lambda>_. Some (mappedClient, None)"
        mappedClient None "\<lambda>_. 0" "[71]"]
    by (auto simp: ipOk_def mappedClient_def str_def parseAddresses_def)
qed

end
