(* ===== verification/Http_Proxy.thy ===== *)
theory Http_Proxy
  imports Tcp_Redirect Go_Fields Profile_Load
begin

text \<open>
  The HTTP proxy (\<open>HTTPProxy\<close> and \<open>aheadConn\<close> of \<open>phantomtcp/http.go\<close>) and the control
  connection (\<open>Netcat\<close> of \<open>phantomtcp/proxy.go\<close>). Reading and printing a whole HTTP request, as
  \<open>net/http\<close> does, are parameters. \<open>Sscanf\<close> reads the words of a request
  line that is UTF-8; other bytes it would replace.
\<close>

unbundle bit_operations_syntax

subsection \<open>Reading ahead\<close>

text \<open>What was read too much is read first, at the place \<open>ac_off\<close> of it.\<close>

record aheadConn =
  ac_ahead :: bytes
  ac_off :: nat
  ac_conn :: "bytes list"

definition aheadRead :: "nat \<Rightarrow> aheadConn \<Rightarrow> (bytes \<times> aheadConn) option" where
  "aheadRead m c =
    (if ac_off c < length (ac_ahead c) then
       (let d = take m (drop (ac_off c) (ac_ahead c)) in Some (d, c\<lparr>ac_off := ac_off c + length d\<rparr>))
     else map_option (\<lambda>(d, rest). (d, c\<lparr>ac_conn := rest\<rparr>)) (connRead m (ac_conn c)))"

text \<open>So it is a connection on which the rest of it is the next segment.\<close>

definition aheadSegments :: "aheadConn \<Rightarrow> bytes list" where
  "aheadSegments c =
    (if ac_off c < length (ac_ahead c) then drop (ac_off c) (ac_ahead c) # ac_conn c else ac_conn c)"

lemma aheadRead_segments:
  "map_option (\<lambda>(d, c). (d, aheadSegments c)) (aheadRead m c) = connRead m (aheadSegments c)"
  by (auto simp: aheadRead_def aheadSegments_def connRead_def Let_def min_def add.commute split: list.splits)

subsection \<open>The proxy\<close>

text \<open>The method and the target of the request line, empty when it has none.\<close>

definition scanLine :: "gostr \<Rightarrow> gostr \<times> gostr" where
  "scanLine line = (case Fields line of [] \<Rightarrow> ([], []) | [method] \<Rightarrow> (method, []) | method # target # _ \<Rightarrow> (method, target))"

definition established :: bytes where
  "established = str ''HTTP/1.1 200 Connection established'' @ [13, 10, 13, 10]"

definition hostOr80 :: "gostr \<Rightarrow> gostr \<times> int" where
  "hostOr80 target = (case splitHostPort target of (host, port) \<Rightarrow> (host, if port = 0 then 80 else port))"

definition proxyAuthority :: "gostr \<Rightarrow> gostr" where
  "proxyAuthority target =
    (let authority = (if hasPrefix target (str ''http://'') then drop 7 target else target)
     in case indexByte 47 authority of Some i \<Rightarrow> take i authority | None \<Rightarrow> authority)"

text \<open>
  \<open>parse\<close> gives the header to send on, what was read beyond the request, and the connection
  after that. The target is reached by its name: there is no address.
\<close>

definition HTTPProxy ::
  "(bytes \<Rightarrow> tcpConn \<Rightarrow> (bytes \<times> bytes \<times> tcpConn) option) \<Rightarrow> redirectEnv \<Rightarrow> redirectState \<Rightarrow> redirectEnd \<times> redirectState" where
  "HTTPProxy parse env st =
    (case connRead 1500 (tc_in (rs_Client st)) of None \<Rightarrow> (Closed, st)
     | Some (b, rest) \<Rightarrow>
        (let st = st\<lparr>rs_Client := (rs_Client st)\<lparr>tc_in := rest\<rparr>\<rparr> in
         case indexByte 10 b of None \<Rightarrow> (Closed, st)
         | Some end \<Rightarrow>
            (let (method, target) = scanLine (take end b) in
             if method = str ''CONNECT'' then
               (let (host, port) = hostOr80 target in tcp_redirect env [] port host None (snd (clientWrite established st)))
             else
               (let (host, port) = hostOr80 (proxyAuthority target) in
                case parse b (rs_Client st) of None \<Rightarrow> (Closed, st)
                | Some (header, leftover, client) \<Rightarrow>
                    tcp_redirect env [] port host (Some header)
                      (st\<lparr>rs_Client := client\<lparr>tc_in := aheadSegments \<lparr>ac_ahead = leftover, ac_off = 0, ac_conn = tc_in client\<rparr>\<rparr>\<rparr>)))))"

subsection \<open>Plain requests\<close>

text \<open>
  A request as \<open>net/http\<close> gives it: the URL of its line with its scheme if it is absolute, its
  host and its header, whose keys are in canonical form. \<open>readRequest\<close> gives the request, its
  body and what it read beyond; \<open>writeRequest\<close> prints it with the body.
\<close>

record httpRequest =
  hq_URL :: "(gostr \<times> gostr) option"
  hq_Host :: gostr
  hq_RequestURI :: gostr
  hq_Header :: "(gostr \<times> gostr) list"

definition headerDel :: "gostr \<Rightarrow> httpRequest \<Rightarrow> httpRequest" where
  "headerDel key req = req\<lparr>hq_Header := filter (\<lambda>(k, v). k \<noteq> key) (hq_Header req)\<rparr>"

definition headerGet :: "gostr \<Rightarrow> httpRequest \<Rightarrow> gostr" where
  "headerGet key req = (case map_of (hq_Header req) key of None \<Rightarrow> [] | Some v \<Rightarrow> v)"

text \<open>
  \<open>strings.EqualFold\<close> with a word of ASCII letters: of those, \<open>k\<close> and \<open>s\<close> have another form beyond
  ASCII, the Kelvin sign and the long s.
\<close>

definition lowerByte :: "byte \<Rightarrow> byte" where
  "lowerByte b = (if 65 \<le> b \<and> b \<le> 90 then b + 32 else b)"

fun foldCase :: "gostr \<Rightarrow> gostr" where
  "foldCase [] = []"
| "foldCase (b # s) =
    (if take 3 (b # s) = [0xE2, 0x84, 0xAA] then 107 # foldCase (drop 2 s)
     else if take 2 (b # s) = [0xC5, 0xBF] then 115 # foldCase (drop 1 s)
     else lowerByte b # foldCase s)"

definition equalFold :: "gostr \<Rightarrow> gostr \<Rightarrow> bool" where
  "equalFold a b \<longleftrightarrow> foldCase a = foldCase b"

text \<open>The headers for the proxy alone are taken out, and with them the connection, unless it is upgraded.\<close>

definition proxyHeaders :: "gostr list" where
  "proxyHeaders = [str ''Proxy-Connection'', str ''Proxy-Authorization'', str ''Proxy-Authenticate'', str ''Keep-Alive'', str ''Te'',
    str ''Trailer'', str ''Transfer-Encoding'']"

definition originRequest :: "httpRequest \<Rightarrow> httpRequest option" where
  "originRequest req =
    (case hq_URL req of
       Some (scheme, host) \<Rightarrow>
         (if scheme \<noteq> str ''http'' then None
          else
            (let req = (if hq_Host req = [] then req\<lparr>hq_Host := host\<rparr> else req);
                 req = fold headerDel proxyHeaders (req\<lparr>hq_RequestURI := []\<rparr>)
             in Some (if \<not> equalFold (headerGet (str ''Connection'') req) (str ''upgrade'')
                         \<or> \<not> equalFold (headerGet (str ''Upgrade'') req) (str ''websocket'')
                      then headerDel (str ''Connection'') req else req)))
     | None \<Rightarrow> None)"

definition parseHTTPProxy ::
  "(bytes \<Rightarrow> tcpConn \<Rightarrow> (httpRequest \<times> bytes option \<times> bytes \<times> tcpConn) option) \<Rightarrow> (httpRequest \<Rightarrow> bytes \<Rightarrow> bytes option) \<Rightarrow>
    bytes \<Rightarrow> tcpConn \<Rightarrow> (bytes \<times> bytes \<times> tcpConn) option" where
  "parseHTTPProxy readRequest writeRequest initial conn = do {
    (req, body, leftover, conn) \<leftarrow> readRequest initial conn;
    body \<leftarrow> body;
    req \<leftarrow> originRequest req;
    buf \<leftarrow> writeRequest req body;
    Some (buf, leftover, conn) }"

lemma headerDel_fold: "hq_Header (fold headerDel ks req) = filter (\<lambda>(k, v). k \<notin> set ks) (hq_Header req)"
  by (induction ks arbitrary: req) (auto simp: headerDel_def intro: filter_cong)

lemma fold_headerDel_more: "hq_Host (fold headerDel ks req) = hq_Host req" "hq_RequestURI (fold headerDel ks req) = hq_RequestURI req"
  by (induction ks arbitrary: req) (simp_all add: headerDel_def)

text \<open>What the server gets names it, and has none of the headers for the proxy.\<close>

lemma originRequest_clean:
  assumes "originRequest req = Some req'"
  shows "\<exists>host. hq_URL req = Some (str ''http'', host) \<and> hq_Host req' = (if hq_Host req = [] then host else hq_Host req)"
    and "hq_RequestURI req' = []" and "set (hq_Header req') \<subseteq> set (hq_Header req)" and "fst ` set (hq_Header req') \<inter> set proxyHeaders = {}"
    and "kv \<in> set (hq_Header req) \<Longrightarrow> fst kv \<notin> set (str ''Connection'' # proxyHeaders) \<Longrightarrow> kv \<in> set (hq_Header req')"
  using assms
  by (auto simp: originRequest_def Let_def headerDel_fold fold_headerDel_more headerDel_def split: option.splits if_splits)

subsection \<open>The control connection\<close>

text \<open>The service in terms of the profile, and the files that can be read.\<close>

record netcatEnv =
  nc_Dns :: "phantomProfile \<Rightarrow> dnsEnv"
  nc_Load :: loadEnv
  nc_Default :: "outbound option"
  nc_File :: "gostr \<Rightarrow> bytes option"

text \<open>Addresses that expire are forgotten; a record without addresses of a family panics.\<close>

definition flushHint :: "nat option \<Rightarrow> dnsState \<Rightarrow> bool option" where
  "flushHint hint st = map_option (\<lambda>h. ra_TTL (dns_Addresses st ! h) \<noteq> 0) hint"

definition flushRecords :: "nat \<Rightarrow> dnsState \<Rightarrow> dnsState option" where
  "flushRecords p st =
    (case flushHint (rec_IPv4Hint (recordsOf st p)) st of None \<Rightarrow> None
     | Some expires \<Rightarrow>
        (let st = (if expires then setRecords p ((recordsOf st p)\<lparr>rec_IPv4Hint := None\<rparr>) st else st) in
         case flushHint (rec_IPv6Hint (recordsOf st p)) st of None \<Rightarrow> None
         | Some expires \<Rightarrow> Some (if expires then setRecords p ((recordsOf st p)\<lparr>rec_IPv6Hint := None\<rparr>) st else st)))"

text \<open>All of them, in the order in which Go goes over the names of the cache.\<close>

fun flushAll :: "gostr list \<Rightarrow> dnsState \<Rightarrow> dnsState option" where
  "flushAll [] st = Some st"
| "flushAll (name # names) st =
    (case LoadDNSCache st name of None \<Rightarrow> flushAll names st
     | Some p \<Rightarrow> (case flushRecords p st of None \<Rightarrow> None | Some st \<Rightarrow> flushAll names st))"

text \<open>A command, with what is written to the client; a profile that fails is loaded up to there.\<close>

definition netcatCommand :: "netcatEnv \<Rightarrow> gostr list \<Rightarrow> gostr list \<Rightarrow> loadState \<Rightarrow> (bytes list \<times> loadState) option" where
  "netcatCommand env names cmd st =
    (case cmd of
       c # arg # _ \<Rightarrow>
        (if c = str ''host'' then
           (case fst (GetOutbound (ld_Profile st) (nc_Default env) (ld_Depth st) arg) of None \<Rightarrow> None
            | Some ob \<Rightarrow>
                map_option (\<lambda>(dns, _, addrs). (map (\<lambda>a. IPString a @ [10]) addrs, st\<lparr>ld_Dns := dns\<rparr>))
                  (NSLookup (nc_Dns env (ld_Profile st)) ob arg 0 (ld_Dns st)))
         else if c = str ''load'' then
           (case nc_File env arg of None \<Rightarrow> Some ([], st)
            | Some content \<Rightarrow>
                (case LoadProfile (nc_Load env) (nc_Default env) content st of
                   Next st \<Rightarrow> Some ([], st) | Failed st \<Rightarrow> Some ([], st) | LoadPanic \<Rightarrow> None))
         else if c = str ''flush'' then
           map_option (\<lambda>dns. ([], st\<lparr>ld_Dns := dns\<rparr>)) (flushAll (if arg = str ''all'' then names else [arg]) (ld_Dns st))
         else Some ([], st))
     | _ \<Rightarrow> Some ([], st))"

text \<open>A turn of the loop: \<open>None\<close> is a panic, and \<open>None\<close> inside the end. Failed writes are not noticed.\<close>

definition Netcat :: "netcatEnv \<Rightarrow> gostr list \<Rightarrow> tcpConn \<Rightarrow> loadState \<Rightarrow> (tcpConn \<times> loadState) option option" where
  "Netcat env names client st =
    (case connRead 1460 (tc_in client) of None \<Rightarrow> Some None
     | Some (b, rest) \<Rightarrow>
        (if b = [] then Some None
         else
           map_option (\<lambda>(out, st). Some (fold (\<lambda>d client. snd (connWrite d client)) out (client\<lparr>tc_in := rest\<rparr>), st))
             (netcatCommand env names (Fields b) st)))"

subsection \<open>Numbers, hosts and words that are written and read again\<close>

lemma unat_digit: "m < 10 \<Longrightarrow> unat (of_nat (48 + m) :: byte) = 48 + m"
  using unat_of_nat_byte [of "48 + m"] by simp

lemma decDigits_value:
  "n < 10 ^ k \<Longrightarrow> 0 < k \<Longrightarrow> decimal (decDigits k n) = n \<and> list_all isDigit (decDigits k n) \<and> decDigits k n \<noteq> []"
proof (induction k arbitrary: n)
  case (Suc k)
  have digit: "isDigit (of_nat (48 + m))" if "m < 10" for m
    using unat_digit [OF that] that by (simp add: isDigit_def word_le_nat_alt)
  show ?case
  proof (cases "n < 10")
    case True
    then show ?thesis
      using digit [OF True] unat_digit [OF True] by (simp add: decimal_def)
  next
    case False
    then have "n div 10 < 10 ^ k" "0 < k"
      using Suc.prems by (cases k; simp add: less_mult_imp_div_less)+
    note IH = Suc.IH [OF this]
    have "n mod 10 < 10"
      by simp
    with False IH digit [OF this] unat_digit [OF this] show ?thesis
      by (simp add: decimal_def)
  qed
qed simp

lemma decString_value: "decimal (decString n) = n \<and> list_all isDigit (decString n) \<and> decString n \<noteq> []"
proof -
  have "n < 10 ^ Suc n"
    by (induction n) auto
  then show ?thesis
    unfolding decString_def by (rule decDigits_value) simp
qed

lemma isDigit_ascii: "isDigit c \<Longrightarrow> 32 < c \<and> c < 128 \<and> c \<noteq> 58 \<and> c \<noteq> 43 \<and> c \<noteq> 45 \<and> c \<noteq> 91 \<and> c \<noteq> 93"
  by (auto simp: isDigit_def word_le_nat_alt word_less_nat_alt)

lemma Atoi_intString:
  assumes "0 \<le> i" "i < 65536"
  shows "Atoi (intString i) = Some i"
proof -
  obtain c cs where c: "decString (nat i) = c # cs"
    using decString_value [of "nat i"] by (cases "decString (nat i)") auto
  with decString_value [of "nat i"] have "c \<noteq> 45" "c \<noteq> 43"
    using isDigit_ascii [of c] by auto
  with c decString_value [of "nat i"] assms show ?thesis
    by (simp add: Atoi_def intString_def Let_def)
qed

lemma intString_digits: "0 \<le> i \<Longrightarrow> list_all isDigit (intString i)"
  using decString_value [of "nat i"] by (simp add: intString_def)

lemma indexByte_append: "b \<notin> set xs \<Longrightarrow> indexByte b (xs @ b # ys) = Some (length xs)"
  by (induction xs) auto

lemma lastIndexByte_append: "b \<notin> set ys \<Longrightarrow> lastIndexByte b (xs @ b # ys) = Some (length xs)"
  using indexByte_append [of b "rev ys" "rev xs"] by (simp add: lastIndexByte_def)

text \<open>A host of printable ASCII characters without brackets.\<close>

definition plainHost :: "gostr \<Rightarrow> bool" where
  "plainHost host \<longleftrightarrow> host \<noteq> [] \<and> (\<forall>c \<in> set host. 32 < c \<and> c < 128 \<and> c \<noteq> 91 \<and> c \<noteq> 93)"

lemma JoinHostPort_ascii:
  assumes "plainHost host" "0 \<le> port" "c \<in> set (JoinHostPort host (intString port))"
  shows "32 < c \<and> c < 128"
  using assms isDigit_ascii [of c] intString_digits [OF assms(2)]
  by (auto simp: JoinHostPort_def plainHost_def list_all_iff str_def split: if_splits)

lemma splitHostPort_join:
  assumes "plainHost host" "0 \<le> port" "port < 65536"
  shows "splitHostPort (JoinHostPort host (intString port)) = (host, port)"
proof -
  let ?p = "intString port"
  have p: "58 \<notin> set ?p"
    using intString_digits [OF assms(2)] isDigit_ascii by (auto simp: list_all_iff)
  define h where "h = (if 58 \<in> set host then [91] @ host @ [93] else host)"
  have join: "JoinHostPort host ?p = h @ 58 # ?p"
    by (simp add: JoinHostPort_def h_def str_def)
  have strip: "(if hasPrefix h [91] \<and> hasSuffix h [93] then (take (length h - 2) (drop 1 h), port) else (h, port)) = (host, port)"
  proof (cases "58 \<in> set host")
    case True
    then show ?thesis by (simp add: h_def hasPrefix_def hasSuffix_def)
  next
    case False
    have "\<not> hasPrefix host [91]"
      using assms(1) by (cases host) (auto simp: plainHost_def hasPrefix_def)
    with False show ?thesis by (simp add: h_def)
  qed
  have "validOptionalPort (58 # ?p)"
    using intString_digits [OF assms(2)] by (simp add: validOptionalPort_def)
  then have "splitHostPort (h @ 58 # ?p) =
      (if hasPrefix h [91] \<and> hasSuffix h [93] then (take (length h - 2) (drop 1 h), port) else (h, port))"
    by (simp add: splitHostPort_def lastIndexByte_append [OF p] Atoi_intString [OF assms(2,3)])
  with strip show ?thesis
    by (simp only: join)
qed

lemma spaceWidth_ascii:
  assumes "32 < c" "c < 128"
  shows "spaceWidth (c # s) = 0"
proof -
  have "c \<noteq> 9" "c \<noteq> 10" "c \<noteq> 11" "c \<noteq> 12" "c \<noteq> 13" "c \<noteq> 32" "c \<noteq> 0xC2" "c \<noteq> 0xE1" "c \<noteq> 0xE2" "c \<noteq> 0xE3"
    using assms by (auto simp: word_less_nat_alt)
  then show ?thesis
    by (simp add: spaceWidth_def)
qed

lemma fieldsFrom_word:
  "\<forall>c \<in> set w. 32 < c \<and> c < 128 \<Longrightarrow> acc @ w \<noteq> [] \<Longrightarrow> fieldsFrom 0 acc (w @ 32 # s) = (acc @ w) # fieldsFrom 0 [] s"
proof (induction w arbitrary: acc)
  case Nil
  then show ?case by (simp add: spaceWidth_def)
next
  case (Cons c w)
  then show ?case
    using spaceWidth_ascii [of c "w @ 32 # s"] by simp
qed

lemma scanLine_words:
  assumes "\<forall>c \<in> set v. 32 < c \<and> c < 128" "\<forall>c \<in> set w. 32 < c \<and> c < 128" "v \<noteq> []" "w \<noteq> []"
  shows "scanLine (v @ 32 # w @ 32 # s) = (v, w)"
  using fieldsFrom_word [of v "[]"] fieldsFrom_word [of w "[]"] assms
  by (simp add: scanLine_def Fields_def)

end
