(* ===== verification/Http_Proxy_Properties.thy ===== *)
theory Http_Proxy_Properties
  imports Http_Proxy Profile_Hosts Tcp_Redirect_Properties
begin

text \<open>
  The agreement of the program's HTTP client and proxy, and the control connection: it keeps
  the state of the name service valid, and what its \<open>flush\<close> panics at.
\<close>

unbundle bit_operations_syntax

text \<open>C21: The program's HTTP client and HTTP proxy understand each other: the CONNECT request
  that an outbound writes, for a host in printable characters, makes the proxy connect its
  client to that host and port, and its answer lets the client's handshake succeed and leaves
  what comes after it.
\<close>

theorem http_agrees:
  assumes "plainHost host" "0 < port" "port < 65536"
    and "tc_in (wr_conn w) = established # rest" "0 < tc_left (wr_conn w)"
    and "tc_in (rs_Client st) = connectRequest ob host port # segs" "length (connectRequest ob host port) \<le> 1500" "tc_left (rs_Client st) = Suc k"
  shows "(\<exists>w'. httpHandshake ob False host port w = (Ok 0, w') \<and> wr_log w' = wr_log w @ [Write (connectRequest ob host port)]
      \<and> tc_in (wr_conn w') = rest)
    \<and> HTTPProxy parse env st = tcp_redirect env [] port host None
        (st\<lparr>rs_Client := (rs_Client st)\<lparr>tc_in := segs, tc_out := tc_out (rs_Client st) @ [established], tc_left := k\<rparr>\<rparr>)"
proof
  have e: "length established = 39" "hasPrefix established (str ''HTTP/1.1 200 '')"
    by (simp_all add: established_def str_def hasPrefix_def)
  obtain l where "tc_left (wr_conn w) = Suc l"
    using assms(5) gr0_implies_Suc by auto
  with assms(4) e show "\<exists>w'. httpHandshake ob False host port w = (Ok 0, w') \<and> wr_log w' = wr_log w @ [Write (connectRequest ob host port)]
      \<and> tc_in (wr_conn w') = rest"
    by (simp add: httpHandshake_def connectResponse_def wWrite_def wOp_def wBind_def wCatch_def wRead_def connRead_def wReturn_def Let_def)
next
  let ?hp = "JoinHostPort host (intString port)"
  let ?line = "str ''CONNECT'' @ 32 # ?hp @ 32 # str ''HTTP/1.1'' @ [13]"
  obtain tail where request: "connectRequest ob host port = ?line @ 10 # tail"
    by (auto simp: connectRequest_def str_def)
  have ascii: "\<forall>c \<in> set ?hp. 32 < c \<and> c < 128"
    using JoinHostPort_ascii [OF assms(1), of port] assms(2) by (metis less_imp_le)
  have ne: "?hp \<noteq> []"
    by (simp add: JoinHostPort_def str_def)
  have "10 \<notin> set ?hp"
    using ascii by (auto simp: word_less_nat_alt)
  then have "10 \<notin> set ?line"
    by (simp add: str_def)
  then have line: "indexByte 10 (connectRequest ob host port) = Some (length ?line)"
    unfolding request by (rule indexByte_append)
  have "scanLine (take (length ?line) (connectRequest ob host port)) = (str ''CONNECT'', ?hp)"
    using scanLine_words [of "str ''CONNECT''" ?hp "str ''HTTP/1.1'' @ [13]"] ascii ne by (simp add: request str_def)
  moreover have "hostOr80 ?hp = (host, port)"
    using splitHostPort_join [OF assms(1)] assms(2,3) by (simp add: hostOr80_def)
  ultimately show "HTTPProxy parse env st = tcp_redirect env [] port host None
        (st\<lparr>rs_Client := (rs_Client st)\<lparr>tc_in := segs, tc_out := tc_out (rs_Client st) @ [established], tc_left := k\<rparr>\<rparr>)"
    using assms(6-8) line by (simp add: HTTPProxy_def connRead_def clientWrite_def connWrite_def Let_def)
qed

lemma length_decDigits: "length (decDigits k n) \<le> k"
  by (induction k n rule: decDigits.induct) auto

theorem http_agrees_witness:
  "HTTPProxy (\<lambda>_ _. None) redirectEnv0 (redirectState0\<lparr>rs_Client := \<lparr>tc_in = [connectRequest socksUpstream [97, 46, 98] 443], tc_out = [], tc_left = 2\<rparr>\<rparr>)
    = tcp_redirect redirectEnv0 [] 443 [97, 46, 98] None
        (redirectState0\<lparr>rs_Client := \<lparr>tc_in = [], tc_out = [established], tc_left = 1\<rparr>\<rparr>)"
proof -
  have host: "plainHost [97, 46, 98]"
    by (simp add: plainHost_def word_less_nat_alt)
  have len: "length (connectRequest socksUpstream [97, 46, 98] 443) \<le> 1500"
    using length_decDigits [of 444 443]
    by (simp add: connectRequest_def socksUpstream_def JoinHostPort_def str_def intString_def decString_def del: decDigits.simps)
  show ?thesis
    using http_agrees [where host = "[97, 46, 98]" and port = 443 and ob = socksUpstream and k = 1 and segs = "[]" and rest = "[]"
        and w = "\<lparr>wr_conn = \<lparr>tc_in = [established], tc_out = [], tc_left = 1\<rparr>, wr_log = [], wr_syn = None\<rparr>"
        and st = "redirectState0\<lparr>rs_Client := \<lparr>tc_in = [connectRequest socksUpstream [97, 46, 98] 443], tc_out = [], tc_left = 2\<rparr>\<rparr>"
        and env = redirectEnv0 and parse = "\<lambda>_ _. None", OF host _ _ _ _ _ len] by simp
qed

subsection \<open>The control connection\<close>

lemma LoadProfile_grows:
  assumes "resultState (LoadProfile env dflt content st) = Some st'"
  shows "dnsGrows (ld_Dns st) (ld_Dns st')"
proof -
  let ?r = "loadLines env (readLines content) (st\<lparr>ld_Current := dflt\<rparr>)"
  obtain st1 where "resultState ?r = Some st1" "ld_Dns st' = ld_Dns st1"
    using assms by (cases ?r) (auto simp: LoadProfile_def)
  with loadLines_grows [of env "readLines content" "st\<lparr>ld_Current := dflt\<rparr>" st1] show ?thesis
    by simp
qed

lemma flushRecords_step: "flushRecords p st = Some st' \<Longrightarrow> stepAt p st st'"
  using stepAt_trans [OF stepAt_expire(1) stepAt_expire(2)]
  by (auto simp: flushRecords_def Let_def ok_steps split: option.splits if_splits)

lemma flushAll_grows: "flushAll names st = Some st' \<Longrightarrow> dnsGrows st st'"
proof (induction names st rule: flushAll.induct)
  case (2 name names st)
  show ?case
  proof (cases "LoadDNSCache st name")
    case None
    with 2 show ?thesis by simp
  next
    case (Some p)
    with "2.prems" obtain st1 where st1: "flushRecords p st = Some st1" "flushAll names st1 = Some st'"
      by (auto split: option.splits)
    have "dnsGrows st st1"
      using flushRecords_step [OF st1(1)] LoadDNSCache_valid [OF _ Some]
      by (intro okStep_grows) (auto simp: stepAt_def)
    then show ?thesis
      using "2.IH"(2) [OF Some st1] by (rule dnsGrows_trans)
  qed
qed (simp add: dnsGrows_refl)

definition sampleNetcat :: netcatEnv where
  "sampleNetcat = \<lparr>nc_Dns = (\<lambda>_. sampleDnsEnv redirectOutbound), nc_Load = sampleLoadEnv, nc_Default = None,
    nc_File = (\<lambda>name. if name = [112] then Some sampleNetworks else None)\<rparr>"

text \<open>The commands of the control connection, whatever they are and in whatever order Go goes
  over the cache, keep the state of the name service valid and every fake address.
\<close>

theorem netcat_valid:
  assumes "dnsOk (ld_Dns st)" and "netcatCommand env names cmd st = Some (out, st')"
  shows "dnsOk (ld_Dns st') \<and> (\<exists>lies. dns_Nose (ld_Dns st') = dns_Nose (ld_Dns st) @ lies)"
proof -
  have lookup: "dnsGrows d d'" if "NSLookup e ob name qtype d = Some (d', r)" for e ob name qtype d d' r
    using that by (cases r) (auto intro: okStep_grows NSLookup_ok)
  have load: "dnsGrows (ld_Dns st) (ld_Dns st1)" if "LoadProfile e dflt content st = Next st1" for e dflt content st1
    using that LoadProfile_grows [of e dflt content st st1] by simp
  have failed: "dnsGrows (ld_Dns st) (ld_Dns st1)" if "LoadProfile e dflt content st = Failed st1" for e dflt content st1
    using that LoadProfile_grows [of e dflt content st st1] by simp
  have "dnsGrows (ld_Dns st) (ld_Dns st')"
    using assms(2) lookup load failed flushAll_grows
    by (auto simp: netcatCommand_def dnsGrows_refl simp del: flushAll.simps split: list.splits if_splits option.splits loadResult.splits)
  with assms(1) show ?thesis
    by (simp add: dnsGrows_def)
qed

theorem netcat_valid_witness:
  "netcatCommand sampleNetcat [] [str ''load'', [112]] sampleLoad = Some ([], sampleLoaded) \<and> dnsOk (ld_Dns sampleLoaded)"
proof -
  have load: "netcatCommand sampleNetcat [] [str ''load'', [112]] sampleLoad = Some ([], sampleLoaded)"
    by (simp add: netcatCommand_def sampleNetcat_def sample_load str_def)
  moreover have "dnsOk (ld_Dns sampleLoad)"
    by (auto simp: dnsOk_def dnsState0_def sampleLoad_def)
  ultimately show ?thesis
    using netcat_valid [OF _ load] by simp
qed

lemma expire_IPv6:
  "rec_IPv6Hint (recordsOf (setRecords p ((recordsOf st p)\<lparr>rec_IPv4Hint := x\<rparr>) st) p) = rec_IPv6Hint (recordsOf st p)"
  by (cases "p < length (dns_Records st)") (simp_all add: recordsOf_def setRecords_def list_update_beyond)

text \<open>\<open>flush\<close> of a cached name panics unless its record holds addresses of both families,
  which no lookup of a single type leaves; else it forgets just those that expire.
\<close>

theorem flush_panics:
  assumes "LoadDNSCache (ld_Dns st) name = Some p" "name \<noteq> str ''all''"
  shows "netcatCommand env names [str ''flush'', name] st = None
    \<longleftrightarrow> rec_IPv4Hint (recordsOf (ld_Dns st) p) = None \<or> rec_IPv6Hint (recordsOf (ld_Dns st) p) = None"
  using assms
  by (auto simp: netcatCommand_def str_def flushRecords_def flushHint_def Let_def expire_IPv6 split: option.splits)

theorem flush_panics_witness:
  "netcatCommand sampleNetcat names [str ''flush'', str ''a.bc''] (sampleLoad\<lparr>ld_Dns := sampleHosted\<rparr>) = None"
proof -
  have "LoadDNSCache sampleHosted (str ''a.bc'') = Some 0" "rec_IPv6Hint (recordsOf sampleHosted 0) = None" "str ''a.bc'' \<noteq> str ''all''"
    by (simp_all add: sampleHosted_def LoadDNSCache_def recordsOf_def str_def)
  with flush_panics [of "sampleLoad\<lparr>ld_Dns := sampleHosted\<rparr>" "str ''a.bc''" 0 sampleNetcat names] show ?thesis
    by simp
qed

end
