(* ===== verification/Service_Start.thy ===== *)
theory Service_Start
  imports Http_Proxy_Properties Profile_Properties Dns_Service_Properties
begin

text \<open>
  The start of the program (\<open>StartService\<close>, \<open>ListenAndServe\<close> and \<open>PACServer\<close> of
  \<open>main.go\<close>): the outbounds, the profiles and the hosts file are loaded in this order, and
  then the services of the inbounds start. The parsed configuration file, the contents of the
  other files and the network are parameters.
\<close>

unbundle bit_operations_syntax

record inboundConfig =
  in_Protocol :: gostr
  in_Listen :: gostr
  in_Address :: gostr
  in_PrivateKey :: gostr
  in_Script :: gostr

record proxyConfig =
  pc_VirtualAddrPrefix :: int
  pc_SystemProxy :: gostr
  pc_HostsFile :: gostr
  pc_Clients :: "gostr list"
  pc_Profiles :: "gostr list"
  pc_Inbounds :: "inboundConfig list"
  pc_Outbounds :: "outboundConfig list"

subsection \<open>The services of an inbound\<close>

text \<open>A listener with the handler of its connections and the key pair it may have, and the rest.\<close>

datatype handler = DNSTCPServer | HTTPProxyHandler | SocksHandler | SNIHandler | NetcatHandler

datatype service =
    DNSServerAt gostr
  | Listener gostr gostr handler
  | DoHServerAt gostr gostr gostr
  | SocksUDPAt gostr
  | RedirectTCPAt gostr
  | RedirectUDPAt gostr
  | TProxyTCPAt gostr
  | TProxyUDPAt gostr
  | TCPMappingOf gostr gostr gostr
  | UDPMappingOf gostr gostr
  | PACServerAt gostr gostr
  | QUICProxyAt gostr

text \<open>The upper case of the two names that occur.\<close>

definition socksName :: "gostr \<Rightarrow> gostr" where
  "socksName protocol = (if protocol = str ''socks5'' then str ''SOCKS5'' else str ''SOCKS'')"

text \<open>
  The services, and the proxy that a PAC file names from then on. \<open>None\<close> is a panic: the key
  of a DoH server must have two parts.
\<close>

definition startInbound :: "inboundConfig \<Rightarrow> gostr \<Rightarrow> (service list \<times> gostr) option" where
  "startInbound inbound default_proxy =
    (let listen = (if in_Listen inbound = [] then in_Address inbound else in_Listen inbound);
         p = in_Protocol inbound; key = in_PrivateKey inbound
     in if p = str ''dns'' then Some ([DNSServerAt listen, Listener listen [] DNSTCPServer], default_proxy)
        else if p = str ''doh'' then
          (case splitByte 44 key of cert # key # _ \<Rightarrow> Some ([DoHServerAt listen cert key], default_proxy) | _ \<Rightarrow> None)
        else if p = str ''http'' then Some ([Listener listen key HTTPProxyHandler], str ''HTTP '' @ listen)
        else if p = str ''socks5'' \<or> p = str ''socks'' then
          Some ([Listener listen key SocksHandler, SocksUDPAt listen], socksName p @ str '' '' @ listen)
        else if p = str ''redirect'' then Some ([RedirectTCPAt listen, RedirectUDPAt listen], default_proxy)
        else if p = str ''tproxy'' then Some ([TProxyTCPAt listen, TProxyUDPAt listen], default_proxy)
        else if p = str ''tcp'' then Some ([TCPMappingOf (in_Listen inbound) (in_Address inbound) (in_Script inbound)], default_proxy)
        else if p = str ''udp'' then Some ([UDPMappingOf (in_Listen inbound) (in_Address inbound)], default_proxy)
        else if p = str ''pac'' then
          Some (if default_proxy \<noteq> [] then [PACServerAt listen default_proxy] else [], default_proxy)
        else if p = str ''reverse'' then Some ([Listener listen key SNIHandler, QUICProxyAt listen], default_proxy)
        else if p = str ''netcat'' then Some ([Listener listen [] NetcatHandler], default_proxy)
        else Some ([], default_proxy))"

fun startInbounds :: "inboundConfig list \<Rightarrow> gostr \<Rightarrow> service list option" where
  "startInbounds [] default_proxy = Some []"
| "startInbounds (inbound # inbounds) default_proxy =
    (case startInbound inbound default_proxy of None \<Rightarrow> None
     | Some (services, default_proxy) \<Rightarrow> map_option ((@) services) (startInbounds inbounds default_proxy))"

subsection \<open>Connections of a listener\<close>

text \<open>A listener speaks TLS when its key has exactly two parts.\<close>

definition listenerKeys :: "gostr \<Rightarrow> (gostr \<times> gostr) option" where
  "listenerKeys key = (case splitByte 44 key of [cert, key] \<Rightarrow> Some (cert, key) | _ \<Rightarrow> None)"

text \<open>The clients that are served, by the text of their address; no list is everybody.\<close>

definition allowlist :: "gostr list \<Rightarrow> gostr set option" where
  "allowlist clients = (if clients = [] then None else Some (set clients))"

definition ListenAndServe :: "gostr set option \<Rightarrow> bytes \<Rightarrow> bool" where
  "ListenAndServe allow ip = (case allow of None \<Rightarrow> True | Some clients \<Rightarrow> IPString ip \<in> clients)"

definition PACServer :: "gostr list \<Rightarrow> int \<Rightarrow> gostr \<Rightarrow> gostr \<Rightarrow> bytes" where
  "PACServer hosts depth profile proxyAddr =
    (let pac = GetPAC hosts depth proxyAddr profile
     in str ''HTTP/1.1 200 OK'' @ [13, 10] @ str ''Content-Length:'' @ decString (length pac) @ [13, 10, 13, 10] @ pac)"

subsection \<open>Loading\<close>

text \<open>The machine, the files that can be opened and the resolver of addresses.\<close>

record startEnv =
  se_DefaultDev :: gostr
  se_LocalAddr :: "gostr \<Rightarrow> bool \<Rightarrow> bool"
  se_File :: "gostr \<Rightarrow> bytes option"
  se_Resolve :: "gostr \<Rightarrow> gostr option"

text \<open>A profile that cannot be opened or loaded ends the start.\<close>

fun loadProfiles :: "startEnv \<Rightarrow> loadEnv \<Rightarrow> outbound option \<Rightarrow> gostr list \<Rightarrow> loadState \<Rightarrow> loadResult" where
  "loadProfiles env lenv dflt [] st = Next st"
| "loadProfiles env lenv dflt (filename # filenames) st =
    (case se_File env filename of None \<Rightarrow> Failed st
     | Some content \<Rightarrow>
        (case LoadProfile lenv dflt content st of Next st \<Rightarrow> loadProfiles env lenv dflt filenames st | r \<Rightarrow> r))"

definition loadState0 :: loadState where
  "loadState0 = \<lparr>ld_Dns = dnsState0, ld_Profile = \<lparr>DomainMap = Map.empty, IPv4Ranges = [], IPv6Ranges = []\<rparr>,
    ld_MinTTL = 0, ld_Depth = 2, ld_Current = None\<rparr>"

definition loadHostsFile :: "startEnv \<Rightarrow> outbound option \<Rightarrow> gostr \<Rightarrow> loadState \<Rightarrow> loadResult" where
  "loadHostsFile env dflt filename st =
    (if filename = [] then Next st
     else
       (case se_File env filename of None \<Rightarrow> Failed st
        | Some content \<Rightarrow> Next (st\<lparr>ld_Dns := LoadHosts (ld_Profile st) dflt (ld_Depth st) content (ld_Dns st)\<rparr>)))"

record started =
  sr_Load :: loadState
  sr_Outbounds :: outboundsState
  sr_Default :: "outbound option"
  sr_Services :: "service list"
  sr_Allow :: "gostr set option"
  sr_Proxies :: "(gostr \<times> gostr) list"
  sr_VirtualAddrPrefix :: "byte option"

datatype startResult = Started started | StartFailed | StartPanic

text \<open>
  \<open>sr_Proxies\<close> are the devices whose system proxy is set, and the prefix of the fake addresses
  is set last, when the services run already.
\<close>

definition StartService :: "startEnv \<Rightarrow> proxyConfig \<Rightarrow> startResult" where
  "StartService env config =
    (let (obs, dflt) = CreateOutbounds (se_DefaultDev env) (se_LocalAddr env) (pc_Outbounds config) None;
         lenv = \<lparr>le_Outbounds = obs_Map obs, le_Resolve = se_Resolve env\<rparr>
     in case loadProfiles env lenv dflt (pc_Profiles config) loadState0 of
          LoadPanic \<Rightarrow> StartPanic
        | Failed _ \<Rightarrow> StartFailed
        | Next st \<Rightarrow>
           (case loadHostsFile env dflt (pc_HostsFile config) st of
              LoadPanic \<Rightarrow> StartPanic
            | Failed _ \<Rightarrow> StartFailed
            | Next st \<Rightarrow>
               (case startInbounds (pc_Inbounds config) [] of None \<Rightarrow> StartPanic
                | Some services \<Rightarrow>
                    Started \<lparr>sr_Load = st, sr_Outbounds = obs, sr_Default = dflt, sr_Services = services,
                      sr_Allow = allowlist (pc_Clients config),
                      sr_Proxies = (if pc_SystemProxy config = [] then [] else map (\<lambda>dev. (dev, pc_SystemProxy config)) (obs_devices obs)),
                      sr_VirtualAddrPrefix =
                        (if pc_VirtualAddrPrefix config \<noteq> 0 then Some (of_int (pc_VirtualAddrPrefix config)) else None)\<rparr>)))"

subsection \<open>What has started is valid\<close>

definition loadOk :: "loadState \<Rightarrow> bool" where
  "loadOk st \<longleftrightarrow> dnsOk (ld_Dns st) \<and> sorted (map rng_Start (IPv4Ranges (ld_Profile st))) \<and> sorted (map rng_Start (IPv6Ranges (ld_Profile st)))"

lemma loadOk0: "loadOk loadState0"
  by (simp add: loadOk_def loadState0_def dnsState0_ok)

lemma loadOk_LoadProfile:
  assumes "loadOk st" "LoadProfile env dflt content st = Next st'"
  shows "loadOk st'"
proof -
  have "dnsGrows (ld_Dns st) (ld_Dns st')"
    using assms(2) LoadProfile_grows [of env dflt content st st'] by simp
  moreover have "\<exists>p. ld_Profile st' = sortRanges p"
    using assms(2) by (auto simp: LoadProfile_def split: loadResult.splits)
  then obtain p where "ld_Profile st' = sortRanges p" ..
  ultimately show ?thesis
    using assms(1) by (simp add: loadOk_def dnsGrows_def sortRanges_def)
qed

lemma loadOk_loadProfiles: "loadOk st \<Longrightarrow> loadProfiles env lenv dflt filenames st = Next st' \<Longrightarrow> loadOk st'"
proof (induction filenames arbitrary: st)
  case (Cons filename filenames)
  then obtain st1 where "LoadProfile lenv dflt (the (se_File env filename)) st = Next st1" "loadProfiles env lenv dflt filenames st1 = Next st'"
    by (auto split: option.splits loadResult.splits)
  with Cons loadOk_LoadProfile show ?case by blast
qed simp

lemma LoadHosts_grows: "dnsGrows st (LoadHosts profile dflt depth content st)"
proof -
  have "dnsGrows st (hostsLine profile dflt depth line st)" for line st
  proof -
    obtain name where "hostsName line \<noteq> Some name"
      by (metis list.distinct(1) option.inject)
    then show ?thesis
      using hostsLine_keeps [of line name] by blast
  qed
  then have "dnsGrows st (fold (hostsLine profile dflt depth) lines st)" for lines
    by (induction lines arbitrary: st) (auto intro: dnsGrows_refl dnsGrows_trans)
  then show ?thesis
    by (simp add: LoadHosts_def)
qed

lemma loadOk_hosts: "loadOk st \<Longrightarrow> loadHostsFile env dflt filename st = Next st' \<Longrightarrow> loadOk st'"
  using LoadHosts_grows [of "ld_Dns st" "ld_Profile st" dflt "ld_Depth st"]
  by (auto simp: loadHostsFile_def loadOk_def dnsGrows_def split: if_splits option.splits)

text \<open>C4: However the program is configured, if it starts, then from then on, whatever its name
  service handles: the state of the service is valid and the fake addresses given at the start
  keep their names and outbounds; the ranges of addresses are sorted; and every outbound, and
  every fallback, has an address family to connect with.
\<close>

theorem service_started:
  assumes "StartService env config = Started r" and "dnsStep\<^sup>*\<^sup>* (ld_Dns (sr_Load r)) st"
  shows "dnsOk st
    \<and> (GetDNSLie (ld_Dns (sr_Load r)) i = Some lie \<longrightarrow> GetDNSLie st i = Some lie)
    \<and> sorted (map rng_Start (IPv4Ranges (ld_Profile (sr_Load r)))) \<and> sorted (map rng_Start (IPv6Ranges (ld_Profile (sr_Load r))))
    \<and> (obs_Map (sr_Outbounds r) name = Some ob \<longrightarrow> (\<forall>f \<in> set (fallbacks ob). hasFamily (ob_Hint f)))"
proof -
  obtain obs dflt where obs: "CreateOutbounds (se_DefaultDev env) (se_LocalAddr env) (pc_Outbounds config) None = (obs, dflt)"
    by (cases "CreateOutbounds (se_DefaultDev env) (se_LocalAddr env) (pc_Outbounds config) None")
  let ?lenv = "\<lparr>le_Outbounds = obs_Map obs, le_Resolve = se_Resolve env\<rparr>"
  obtain st1 where st1: "loadProfiles env ?lenv dflt (pc_Profiles config) loadState0 = Next st1"
      "loadHostsFile env dflt (pc_HostsFile config) st1 = Next (sr_Load r)" "sr_Outbounds r = obs"
    using assms(1) obs by (auto simp: StartService_def Let_def split: loadResult.splits option.splits)
  have "loadOk (sr_Load r)"
    using loadOk_loadProfiles [OF loadOk0 st1(1)] st1(2) by (rule loadOk_hosts)
  moreover from this have step: "okStep (ld_Dns (sr_Load r)) st"
    using dnsSteps_ok [OF assms(2)] by (simp add: loadOk_def)
  moreover have "outboundsOk obs"
    using fold_createOutbound_ok [of "\<lparr>obs_Map = Map.empty, obs_devices = []\<rparr>"] obs
    by (auto simp: CreateOutbounds_def Let_def outboundsOk_def)
  moreover have "GetDNSLie (ld_Dns (sr_Load r)) i = Some lie \<longrightarrow> GetDNSLie st i = Some lie"
    using extends_lies [of _ _ i lie] step by (auto simp: okStep_def)
  ultimately show ?thesis
    using st1(3) by (auto simp: loadOk_def okStep_def outboundsOk_def)
qed

definition sampleStart :: startEnv where
  "sampleStart = \<lparr>se_DefaultDev = [101], se_LocalAddr = (\<lambda>_ _. False), se_File = (\<lambda>_. None), se_Resolve = (\<lambda>_. None)\<rparr>"

definition sampleProxyConfig :: proxyConfig where
  "sampleProxyConfig = \<lparr>pc_VirtualAddrPrefix = 0, pc_SystemProxy = [], pc_HostsFile = [], pc_Clients = [], pc_Profiles = [],
    pc_Inbounds = [\<lparr>in_Protocol = str ''socks'', in_Listen = [58, 49], in_Address = [], in_PrivateKey = [], in_Script = []\<rparr>],
    pc_Outbounds = [sampleConfig [97] [] []]\<rparr>"

theorem service_started_witness:
  "\<exists>r ob. StartService sampleStart sampleProxyConfig = Started r \<and> sr_Services r = [Listener [58, 49] [] SocksHandler, SocksUDPAt [58, 49]]
    \<and> dnsOk (ld_Dns (sr_Load r)) \<and> obs_Map (sr_Outbounds r) [97] = Some ob \<and> hasFamily (ob_Hint ob)"
proof -
  obtain obs dflt where obs: "CreateOutbounds [101] (\<lambda>_ _. False) [sampleConfig [97] [] []] None = (obs, dflt)"
    by (cases "CreateOutbounds [101] (\<lambda>_ _. False) [sampleConfig [97] [] []] None")
  then obtain ob where ob: "obs_Map obs [97] = Some ob"
    by (auto simp: CreateOutbounds_def createOutbound_def sampleConfig_def Let_def HINT_NONE_def)
  obtain r where r: "StartService sampleStart sampleProxyConfig = Started r" "sr_Outbounds r = obs"
    "sr_Services r = [Listener [58, 49] [] SocksHandler, SocksUDPAt [58, 49]]"
    using obs by (simp add: StartService_def sampleStart_def sampleProxyConfig_def loadHostsFile_def startInbound_def Let_def str_def)
  from service_started [OF r(1) rtranclp.rtrancl_refl, of _ _ "[97]" ob] r ob fallbacks_unfold [of ob] show ?thesis
    by auto
qed

end
