(* ===== verification/Syn_Monitor.thy ===== *)
theory Syn_Monitor
  imports Tcp_Root
begin

text \<open>
  How the build with packet capture learns the header of a connection it dials
  (\<open>phantomtcp/pcap.go\<close>, \<open>phantomtcp/pcap_linux.go\<close>, \<open>AddConn\<close> and \<open>DelConn\<close> of
  \<open>phantomtcp/tcp_root.go\<close>): the dialler announces the address, the monitor sees the SYN
  packet and offers what it says on the channel of the local port. Parsing packets is the
  capture library's.
\<close>

unbundle bit_operations_syntax

subsection \<open>The monitor\<close>

text \<open>
  A captured packet: whether it is IPv6, the addresses of its Ethernet frame if it has one,
  those of its IP and TCP headers, and the rest that the monitor looks at or passes on.
\<close>

record synPacket =
  mp_IPv6 :: bool
  mp_Link :: "(bytes \<times> bytes) option"
  mp_Src :: bytes
  mp_Dst :: bytes
  mp_TTL :: nat
  mp_SrcPort :: nat
  mp_DstPort :: nat
  mp_SYN :: bool
  mp_ACK :: bool
  mp_Seq :: nat
  mp_Ack :: nat
  mp_Window :: nat
  mp_Options :: "(nat \<times> bytes) list"

record monitorInfo = connectionInfo +
  mi_Link :: "(bytes \<times> bytes) option"
  mi_Src :: bytes
  mi_Dst :: bytes
  mi_TTL :: nat
  mi_SrcPort :: nat
  mi_DstPort :: nat

text \<open>\<open>ConnSyn\<close>, and the arrays \<open>ConnWait4\<close> and \<open>ConnWait6\<close>.\<close>

record monitorState =
  ms_Syn :: "gostr \<Rightarrow> synInfo option"
  ms_Wait4 :: "nat \<Rightarrow> hint"
  ms_Wait6 :: "nat \<Rightarrow> hint"

definition monitorState0 :: monitorState where
  "monitorState0 = \<lparr>ms_Syn = Map.empty, ms_Wait4 = (\<lambda>_. 0), ms_Wait6 = (\<lambda>_. 0)\<rparr>"

text \<open>A packet sent again with this hop limit, and an offer on a channel, for two seconds.\<close>

datatype monitorEffect = Resent nat | Offer bool nat monitorInfo

text \<open>\<open>SendPacket\<close>: outside Ethernet with hop limit 32, unless that is its limit already.\<close>

definition SendPacket :: "synPacket \<Rightarrow> monitorEffect list" where
  "SendPacket p = (if mp_Link p \<noteq> None then [Resent (mp_TTL p)] else if mp_TTL p = 32 then [] else [Resent 32])"

definition waitOf :: "synPacket \<Rightarrow> monitorState \<Rightarrow> nat \<Rightarrow> hint" where
  "waitOf p st = (if mp_IPv6 p then ms_Wait6 st else ms_Wait4 st)"

definition clearWait :: "synPacket \<Rightarrow> monitorState \<Rightarrow> nat \<Rightarrow> monitorState" where
  "clearWait p st port =
    (if mp_IPv6 p then st\<lparr>ms_Wait6 := (ms_Wait6 st)(port := 0)\<rparr> else st\<lparr>ms_Wait4 := (ms_Wait4 st)(port := 0)\<rparr>)"

definition monitorHint :: "synPacket \<Rightarrow> monitorState \<Rightarrow> hint" where
  "monitorHint p st =
    (if mp_SYN p \<and> mp_ACK p then waitOf p st (mp_DstPort p)
     else
       (case ms_Syn st (JoinHostPort (IPString (mp_Dst p)) (intString (int (mp_DstPort p)))) of
          Some info \<Rightarrow> syn_Hint info | None \<Rightarrow> 0))"

text \<open>A SYN/ACK is turned round, into the header that the client would send next.\<close>

definition turnedRound :: "synPacket \<Rightarrow> synPacket" where
  "turnedRound p =
    p\<lparr>mp_Link := map_option (\<lambda>(src, dst). (dst, src)) (mp_Link p), mp_Src := mp_Dst p, mp_Dst := mp_Src p, mp_TTL := 64,
      mp_SrcPort := mp_DstPort p, mp_DstPort := mp_SrcPort p,
      mp_Seq := nat ((int (mp_Ack p) - 1) mod 4294967296), mp_Ack := u32 (mp_Seq p + 1)\<rparr>"

definition infoOf :: "synPacket \<Rightarrow> monitorInfo" where
  "infoOf p =
    \<lparr>ci_Seq = mp_Seq p, ci_Ack = mp_Ack p, ci_Window = mp_Window p, ci_Options = mp_Options p,
     mi_Link = mp_Link p, mi_Src = mp_Src p, mi_Dst = mp_Dst p, mi_TTL = mp_TTL p, mi_SrcPort = mp_SrcPort p, mi_DstPort = mp_DstPort p\<rparr>"

definition connectionMonitor :: "synPacket \<Rightarrow> monitorState \<Rightarrow> monitorEffect list \<times> monitorState" where
  "connectionMonitor p st =
    (let hint = monitorHint p st; synack = (mp_SYN p \<and> mp_ACK p); q = (if synack then turnedRound p else p) in
     if hint = 0 then ([], st)
     else
       ((if hint AND HINT_SYNX2 \<noteq> 0 \<and> \<not> synack then SendPacket p else []) @ [Offer (mp_IPv6 p) (mp_SrcPort q) (infoOf q)],
        if hint AND HINT_SYNX2 \<noteq> 0 \<and> synack then clearWait p st (mp_SrcPort q) else st))"

subsection \<open>The dialler\<close>

text \<open>
  \<open>DialConnInfo\<close> with the address announced while it dials and waits: \<open>received\<close> is what comes
  on the channel of the local port within a second, when the addresses in its argument are
  announced; \<open>options\<close> is whether the options of the socket can be set. Without a packet a
  connection that needs it is closed, with no error.
\<close>

definition DialConnInfo ::
  "gostr \<Rightarrow> outbound \<Rightarrow> bytes option \<Rightarrow> (dialError + wire) \<Rightarrow> ((gostr \<Rightarrow> synInfo option) \<Rightarrow> connectionInfo option) \<Rightarrow> bool \<Rightarrow>
    (gostr \<Rightarrow> synInfo option) \<Rightarrow> (dialError + wire option) \<times> (gostr \<Rightarrow> synInfo option)" where
  "DialConnInfo addr ob payload dialled received options m =
    (let m = AddConn addr (ob_Hint ob) m in
     case dialled of Inl e \<Rightarrow> (Inl e, DelConn addr m)
     | Inr w \<Rightarrow>
        (let info = received m; m = DelConn addr m in
         if payload \<noteq> None \<or> ob_MaxTTL ob \<noteq> 0 then
           (if info = None then Inr None
            else if \<not> options then Inl HardError
            else Inr (Some (w\<lparr>wr_syn := info\<rparr>)), m)
         else (Inr (Some (w\<lparr>wr_syn := info\<rparr>)), m)))"

text \<open>One that dials alone leaves the addresses as they were.\<close>

lemma DialConnInfo_withdraws: "m addr = None \<Longrightarrow> snd (DialConnInfo addr ob payload dialled received options m) = m"
proof -
  assume "m addr = None"
  then have "DelConn addr (AddConn addr h m) = m" for h
    by (auto simp: AddConn_def DelConn_def)
  then show ?thesis
    by (simp add: DialConnInfo_def Let_def split: sum.split)
qed

subsection \<open>Counting the connections\<close>

text \<open>Whole calls of \<open>AddConn\<close> and \<open>DelConn\<close>, one after the other.\<close>

datatype connCall = Announce gostr hint | Withdraw gostr

fun callConn :: "connCall \<Rightarrow> (gostr \<Rightarrow> synInfo option) \<Rightarrow> (gostr \<Rightarrow> synInfo option)" where
  "callConn (Announce a h) = AddConn a h"
| "callConn (Withdraw a) = DelConn a"

definition announced :: "gostr \<Rightarrow> connCall list \<Rightarrow> nat" where
  "announced a calls = length (filter (\<lambda>c. case c of Announce b _ \<Rightarrow> b = a | Withdraw _ \<Rightarrow> False) calls)"

definition withdrawn :: "gostr \<Rightarrow> connCall list \<Rightarrow> nat" where
  "withdrawn a calls = length (filter (\<lambda>c. c = Withdraw a) calls)"

definition waitingNumber :: "(gostr \<Rightarrow> synInfo option) \<Rightarrow> gostr \<Rightarrow> nat" where
  "waitingNumber m a = (case m a of None \<Rightarrow> 0 | Some info \<Rightarrow> syn_Number info)"

lemma waiting_zero: "(\<forall>info. m a = Some info \<longrightarrow> 0 < syn_Number info) \<Longrightarrow> waitingNumber m a = 0 \<longleftrightarrow> m a = None"
  by (auto simp: waitingNumber_def split: option.splits)

lemma AddConn_number:
  "waitingNumber m a < 4294967295 \<Longrightarrow> waitingNumber (AddConn b h m) a = waitingNumber m a + (if b = a then 1 else 0)"
  by (auto simp: AddConn_def waitingNumber_def split: option.splits)

lemma DelConn_number: "waitingNumber (DelConn b m) a = waitingNumber m a - (if b = a then 1 else 0)"
  by (auto simp: DelConn_def waitingNumber_def split: option.splits)

lemma AddConn_positive:
  "\<forall>a info. m a = Some info \<longrightarrow> 0 < syn_Number info \<Longrightarrow> waitingNumber m b < 4294967295 \<Longrightarrow>
    AddConn b h m a = Some info \<Longrightarrow> 0 < syn_Number info"
  by (auto simp: AddConn_def waitingNumber_def split: option.splits if_splits)

lemma DelConn_positive:
  "\<forall>a info. m a = Some info \<longrightarrow> 0 < syn_Number info \<Longrightarrow> DelConn b m a = Some info \<Longrightarrow> 0 < syn_Number info"
  by (auto simp: DelConn_def split: option.splits if_splits)

text \<open>Calls in which every prefix withdraws only what was announced.\<close>

definition balanced :: "connCall list \<Rightarrow> bool" where
  "balanced calls \<longleftrightarrow> (\<forall>k a. withdrawn a (take k calls) \<le> announced a (take k calls))"

lemma balanced_snoc: "balanced (calls @ [c]) \<Longrightarrow> balanced calls \<and> withdrawn a (calls @ [c]) \<le> announced a (calls @ [c])"
proof
  assume b: "balanced (calls @ [c])"
  show "balanced calls"
    unfolding balanced_def
  proof (intro allI)
    fix k a
    show "withdrawn a (take k calls) \<le> announced a (take k calls)"
      using b [unfolded balanced_def, rule_format, of a "min k (length calls)"] by (simp add: min_def split: if_splits)
  qed
  show "withdrawn a (calls @ [c]) \<le> announced a (calls @ [c])"
    using b [unfolded balanced_def, rule_format, of a "length calls + 1"] by simp
qed

lemma conn_numbers:
  "balanced calls \<Longrightarrow> length calls < 4294967296 \<Longrightarrow>
    (\<forall>a. waitingNumber (fold callConn calls Map.empty) a = announced a calls - withdrawn a calls)
    \<and> (\<forall>a info. fold callConn calls Map.empty a = Some info \<longrightarrow> 0 < syn_Number info)"
proof (induction calls rule: rev_induct)
  case Nil
  then show ?case by (simp add: waitingNumber_def announced_def withdrawn_def)
next
  case (snoc c calls)
  let ?m = "fold callConn calls Map.empty"
  have IH: "waitingNumber ?m a = announced a calls - withdrawn a calls" "\<forall>a info. ?m a = Some info \<longrightarrow> 0 < syn_Number info"
    "withdrawn a (calls @ [c]) \<le> announced a (calls @ [c])" "withdrawn a calls \<le> announced a calls" for a
    using snoc balanced_snoc [OF snoc.prems(1)] by (auto simp: balanced_def dest: spec [of _ "length calls"])
  have small: "waitingNumber ?m a < 4294967295" for a
  proof -
    have "announced a calls \<le> length calls"
      by (simp add: announced_def)
    with IH(1) [of a] snoc.prems(2) show ?thesis by simp
  qed
  show ?case
  proof (cases c)
    case (Announce b h)
    then show ?thesis
      using IH AddConn_positive [OF IH(2) small] AddConn_number [OF small]
      by (auto simp: announced_def withdrawn_def)
  next
    case (Withdraw b)
    then show ?thesis
      using IH DelConn_positive [OF IH(2)] DelConn_number [of b ?m]
      by (auto simp: announced_def withdrawn_def)
  qed
qed

definition connHints :: "connCall list \<Rightarrow> hint set" where
  "connHints calls = {h. \<exists>a. Announce a h \<in> set calls}"

lemma conn_hints: "fold callConn calls Map.empty a = Some info \<Longrightarrow> syn_Hint info \<in> connHints calls"
proof (induction calls arbitrary: a info rule: rev_induct)
  case Nil
  then show ?case by simp
next
  case (snoc c calls)
  have more: "h \<in> connHints calls \<Longrightarrow> h \<in> connHints (calls @ [c])" for h
    by (auto simp: connHints_def)
  show ?case
  proof (cases c)
    case (Announce b h)
    then have "h \<in> connHints (calls @ [c])"
      by (auto simp: connHints_def)
    with Announce snoc more show ?thesis
      by (fastforce simp: AddConn_def split: option.splits if_splits)
  next
    case (Withdraw b)
    with snoc more show ?thesis
      by (fastforce simp: DelConn_def split: option.splits if_splits)
  qed
qed

definition synAddress :: "synPacket \<Rightarrow> gostr" where
  "synAddress p = JoinHostPort (IPString (mp_Dst p)) (intString (int (mp_DstPort p)))"

lemma monitor_offers:
  assumes "\<not> (mp_SYN p \<and> mp_ACK p)"
  shows "ms_Syn st (synAddress p) = None \<Longrightarrow> fst (connectionMonitor p st) = []"
    and "ms_Syn st (synAddress p) = Some info \<Longrightarrow> syn_Hint info \<noteq> 0 \<Longrightarrow>
      Offer (mp_IPv6 p) (mp_SrcPort p) (infoOf p) \<in> set (fst (connectionMonitor p st))"
  using assms by (auto simp: connectionMonitor_def monitorHint_def synAddress_def Let_def)

text \<open>C39: As long as their calls do not overlap, \<open>AddConn\<close> and \<open>DelConn\<close> count exactly the
  connections that wait for an address; and the monitor attends to a SYN packet exactly when
  somebody waits for its address: then it offers its header on the channel of the packet's
  local port, and otherwise it passes the packet by.
\<close>

theorem conn_counted:
  assumes "balanced calls" "length calls < 4294967296" "0 \<notin> connHints calls"
    and "ms_Syn st = fold callConn calls Map.empty" "\<not> (mp_SYN p \<and> mp_ACK p)"
  shows "waitingNumber (ms_Syn st) a = announced a calls - withdrawn a calls
    \<and> (if announced (synAddress p) calls > withdrawn (synAddress p) calls
       then Offer (mp_IPv6 p) (mp_SrcPort p) (infoOf p) \<in> set (fst (connectionMonitor p st))
       else fst (connectionMonitor p st) = [])"
proof -
  have number: "waitingNumber (ms_Syn st) b = announced b calls - withdrawn b calls" for b
    using conn_numbers [OF assms(1,2)] assms(4) by auto
  have waiting: "ms_Syn st b = None \<longleftrightarrow> \<not> announced b calls > withdrawn b calls" for b
    using conn_numbers [OF assms(1,2)] waiting_zero [of "ms_Syn st" b] number [of b] assms(4) by auto
  show ?thesis
  proof (cases "ms_Syn st (synAddress p)")
    case None
    with number waiting monitor_offers(1) [OF assms(5)] show ?thesis
      by (metis (mono_tags))
  next
    case (Some info)
    with conn_hints assms(3,4) have "syn_Hint info \<noteq> 0"
      by metis
    with Some number waiting monitor_offers(2) [OF assms(5)] show ?thesis
      by (metis (mono_tags) option.distinct(1))
  qed
qed

definition sampleSyn :: synPacket where
  "sampleSyn = \<lparr>mp_IPv6 = False, mp_Link = None, mp_Src = [10, 0, 0, 2], mp_Dst = [10, 0, 0, 1], mp_TTL = 64, mp_SrcPort = 5000, mp_DstPort = 7,
    mp_SYN = True, mp_ACK = False, mp_Seq = 4294967295, mp_Ack = 0, mp_Window = 100, mp_Options = []\<rparr>"

definition sampleCalls :: "connCall list" where
  "sampleCalls = [Announce (synAddress sampleSyn) 1, Announce (synAddress sampleSyn) 2, Withdraw (synAddress sampleSyn)]"

theorem conn_counted_witness:
  "waitingNumber (fold callConn sampleCalls Map.empty) (synAddress sampleSyn) = 1
    \<and> Offer False 5000 (infoOf sampleSyn)
      \<in> set (fst (connectionMonitor sampleSyn (monitorState0\<lparr>ms_Syn := fold callConn sampleCalls Map.empty\<rparr>)))"
proof -
  have balanced: "balanced sampleCalls"
    unfolding balanced_def
  proof (intro allI)
    fix k :: nat and a
    consider "k = 0" | "k = 1" | "k = 2" | "3 \<le> k"
      by linarith
    then show "withdrawn a (take k sampleCalls) \<le> announced a (take k sampleCalls)"
      by cases (auto simp: withdrawn_def announced_def sampleCalls_def take_Cons')
  qed
  have counts: "announced (synAddress sampleSyn) sampleCalls = 2" "withdrawn (synAddress sampleSyn) sampleCalls = 1"
    by (simp_all add: announced_def withdrawn_def sampleCalls_def)
  have "length sampleCalls < 4294967296" "0 \<notin> connHints sampleCalls" "\<not> (mp_SYN sampleSyn \<and> mp_ACK sampleSyn)"
    "mp_IPv6 sampleSyn = False" "mp_SrcPort sampleSyn = 5000"
    by (simp_all add: sampleCalls_def connHints_def sampleSyn_def)
  with conn_counted [OF balanced, of "monitorState0\<lparr>ms_Syn := fold callConn sampleCalls Map.empty\<rparr>" sampleSyn "synAddress sampleSyn"]
  show ?thesis
    by (simp add: counts)
qed

subsection \<open>Calls that overlap\<close>

text \<open>
  Both calls read the map, and write it only later. Where a dialler of one address is: before
  \<open>AddConn\<close>, between its two accesses with what it read, waiting for its packet, between the
  accesses of \<open>DelConn\<close>, or done; and its next access.
\<close>

datatype synPc = Ready | Adding synInfo | Waiting | Deleting synInfo | Done

fun synAccess :: "hint \<Rightarrow> synPc \<Rightarrow> synInfo option \<Rightarrow> synPc \<times> synInfo option" where
  "synAccess h Ready None = (Waiting, Some \<lparr>syn_Number = 1, syn_Hint = h\<rparr>)"
| "synAccess h Ready (Some info) = (Adding info, Some info)"
| "synAccess h (Adding info) entry = (Waiting, Some \<lparr>syn_Number = u32 (syn_Number info + 1), syn_Hint = h\<rparr>)"
| "synAccess h Waiting None = (Done, None)"
| "synAccess h Waiting (Some info) = (Deleting info, Some info)"
| "synAccess h (Deleting info) entry = (Done, if syn_Number info > 1 then Some (info\<lparr>syn_Number := syn_Number info - 1\<rparr>) else None)"
| "synAccess h Done entry = (Done, entry)"

definition synTurn :: "hint \<Rightarrow> nat \<Rightarrow> synPc list \<times> synInfo option \<Rightarrow> synPc list \<times> synInfo option" where
  "synTurn h i st = (case synAccess h (fst st ! i) (snd st) of (pc, entry) \<Rightarrow> ((fst st)[i := pc], entry))"

text \<open>One dialler alone runs \<open>AddConn\<close> and then \<open>DelConn\<close>.\<close>

lemma synTurn_alone:
  "m a = None \<Longrightarrow> snd (synTurn h 0 ([Ready], m a)) = AddConn a h m a"
  "m a \<noteq> None \<Longrightarrow> snd (synTurn h 0 (synTurn h 0 ([Ready], m a))) = AddConn a h m a"
  "snd (synTurn h 0 (synTurn h 0 ([Waiting], m a))) = DelConn a m a"
  by (cases "m a"; auto simp: synTurn_def AddConn_def DelConn_def)+

text \<open>
  Overlapping calls can lose a dialler: by one schedule of three diallers of an address, two have
  waited and are done while the third still waits, and the address is no longer in the map.
\<close>

lemma announcement_lost:
  "\<exists>schedule. fold (synTurn h) schedule ([Ready, Ready, Ready], None) = ([Done, Done, Waiting], None)"
proof
  show "fold (synTurn h) [0, 1, 2, 1, 2, 0, 0, 1, 1] ([Ready, Ready, Ready], None) = ([Done, Done, Waiting], None)"
    by (simp add: synTurn_def numeral_2_eq_2)
qed

subsection \<open>SYN/ACK packets\<close>

text \<open>
  Nothing ever marks a port in \<open>ConnWait4\<close> or \<open>ConnWait6\<close> in this build, so a SYN/ACK is
  never turned round.
\<close>

lemma waits_stay:
  "ms_Wait4 st = (\<lambda>_. 0) \<Longrightarrow> ms_Wait6 st = (\<lambda>_. 0) \<Longrightarrow> connectionMonitor p st = (out, st') \<Longrightarrow>
    ms_Wait4 st' = (\<lambda>_. 0) \<and> ms_Wait6 st' = (\<lambda>_. 0) \<and> (mp_SYN p \<and> mp_ACK p \<longrightarrow> out = [] \<and> st' = st)"
  by (auto simp: connectionMonitor_def monitorHint_def waitOf_def clearWait_def Let_def split: if_splits)

end
