(* ===== verification/Win_Redirect.thy ===== *)
theory Win_Redirect
  imports Dns_Service_Properties
begin

text \<open>
  The redirection of the Windows build (\<open>Redirect\<close> and \<open>RedirectDNS\<close> of
  \<open>phantomtcp/windivert.go\<close>, \<open>GetOriginalDST\<close> of \<open>phantomtcp/tcp_windows.go\<close>): packets to the fake
  addresses are turned to the local listener, with what they lose written into their loopback
  addresses, and DNS queries are answered in place. Capturing packets is the library's, and
  computing their checksums is its parameter.
\<close>

unbundle bit_operations_syntax

subsection \<open>Turning TCP packets\<close>

text \<open>The parts of a captured packet that change; the addresses have four bytes.\<close>

record divertPacket =
  dp_SrcIP :: bytes
  dp_DstIP :: bytes
  dp_SrcPort :: nat
  dp_DstPort :: nat

text \<open>The filters of the two handles; \<open>None\<close> when the address is not IPv4.\<close>

definition redirectFilter :: "gostr \<Rightarrow> gostr option" where
  "redirectFilter dst =
    (let dstip = To4 (ParseIP dst); a = decString (unat (dstip ! 0)); b = decString (unat (dstip ! 1)) in
     if dst = [] \<or> dstip = [] then None
     else if dstip ! 2 = 0 \<and> dstip ! 3 = 0 then
       Some (str ''ip.DstAddr>='' @ a @ str ''.'' @ b @ str ''.0.0 and ip.DstAddr<'' @ a @ str ''.'' @ b @ str ''.255.255 and tcp'')
     else Some (str ''ip.DstAddr='' @ dst @ str '' and tcp''))"

definition redirectFilters :: "gostr \<Rightarrow> int \<Rightarrow> (gostr \<times> gostr) option" where
  "redirectFilters dst to_port =
    map_option (\<lambda>f.
      (str ''(outbound and '' @ f @ str '') or (ip.SrcAddr>127.255.0.0 and ip.SrcAddr<127.255.255.255 and tcp.SrcPort='' @
         intString to_port @ str '')'',
       str ''('' @ f @ str '') and (ip.SrcAddr>192.168.137.0 and ip.SrcAddr<192.168.137.255)''))
      (redirectFilter dst)"

text \<open>A packet of the shared network, and one of this machine or of its listener.\<close>

definition turnForwarded :: "nat \<Rightarrow> divertPacket \<Rightarrow> divertPacket" where
  "turnForwarded to_port p =
    p\<lparr>dp_SrcIP := [127, dp_SrcIP p ! 3, of_nat (dp_DstPort p div 256), of_nat (dp_DstPort p)],
      dp_DstIP := [127, 255, dp_DstIP p ! 2, dp_DstIP p ! 3], dp_DstPort := u16 to_port\<rparr>"

text \<open>\<open>localIP\<close> is the last sender on this machine, the empty string before the first.\<close>

definition Redirect :: "bytes \<Rightarrow> nat \<Rightarrow> bool \<Rightarrow> divertPacket \<Rightarrow> bytes \<Rightarrow> divertPacket \<times> bytes" where
  "Redirect dstip to_port forward p localIP =
    (if dp_SrcIP p ! 0 = 127 \<and> dp_DstIP p ! 0 = 127 then
       (p\<lparr>dp_SrcIP := [dstip ! 0, dstip ! 1, dp_SrcIP p ! 2, dp_SrcIP p ! 3],
          dp_SrcPort := 256 * unat (dp_DstIP p ! 2) + unat (dp_DstIP p ! 3),
          dp_DstIP := (if dp_DstIP p ! 1 > 1 then [192, 168, 137, dp_DstIP p ! 1] else if forward then localIP else dp_DstIP p)\<rparr>,
        localIP)
     else
       (p\<lparr>dp_SrcIP := [127, 0, of_nat (dp_DstPort p div 256), of_nat (dp_DstPort p)],
          dp_DstIP := [127, 255, dp_DstIP p ! 2, dp_DstIP p ! 3], dp_DstPort := u16 to_port\<rparr>,
        dp_SrcIP p))"

text \<open>\<open>GetOriginalDST\<close> of a connection of the listener, from its local and remote addresses.\<close>

definition windowsOriginalDST :: "byte \<Rightarrow> bytes \<times> nat \<Rightarrow> bytes \<Rightarrow> bytes \<times> nat" where
  "windowsOriginalDST prefix own remote =
    (let ip4 = To4 (fst own); r = To4 remote in
     if ip4 \<noteq> [] \<and> ip4 ! 0 = 127 \<and> ip4 ! 1 = 255
     then ([prefix, 0, ip4 ! 2, ip4 ! 3], 256 * unat (r ! 2) + unat (r ! 3)) else own)"

text \<open>The packet back, between the same two ends.\<close>

definition answering :: "divertPacket \<Rightarrow> divertPacket" where
  "answering p = p\<lparr>dp_SrcIP := dp_DstIP p, dp_DstIP := dp_SrcIP p, dp_SrcPort := dp_DstPort p, dp_DstPort := dp_SrcPort p\<rparr>"

text \<open>Other packets meanwhile, all of one sender of this machine or of the listener.\<close>

definition sameSender :: "bytes \<Rightarrow> divertPacket list \<Rightarrow> bool" where
  "sameSender a ps \<longleftrightarrow> (\<forall>p \<in> set ps. dp_SrcIP p = a \<or> dp_SrcIP p ! 0 = 127 \<and> dp_DstIP p ! 0 = 127)"

definition afterwards :: "bytes \<Rightarrow> nat \<Rightarrow> divertPacket list \<Rightarrow> bytes \<Rightarrow> bytes" where
  "afterwards dstip to_port ps localIP = fold (\<lambda>p l. snd (Redirect dstip to_port True p l)) ps localIP"

lemma sender_stays: "sameSender a ps \<Longrightarrow> afterwards dstip to_port ps a = a"
  by (induction ps) (auto simp: sameSender_def afterwards_def Redirect_def)

lemma port_bytes: "n < 65536 \<Longrightarrow> 256 * unat (of_nat (n div 256) :: byte) + unat (of_nat n :: byte) = n"
  by (simp add: unat_of_nat)

lemma list4: "length xs = 4 \<Longrightarrow> [xs ! 0, xs ! 1, xs ! 2, xs ! 3] = xs"
  by (simp add: list_eq_iff_nth_eq less_Suc_eq numeral_eq_Suc)

text \<open>The networks whose packets are turned: this machine's, and that of the shared connection.\<close>

definition sentFrom :: "bool \<Rightarrow> bytes \<Rightarrow> bool" where
  "sentFrom forwarded ip \<longleftrightarrow> (if forwarded then \<exists>x. 1 < x \<and> ip = [192, 168, 137, x] else length ip = 4)"

text \<open>C18: A packet to a fake address reaches the local listener, which finds in its loopback
  addresses exactly the fake address and the port it was for; and the answer to it comes back
  to its sender as one from there, whatever other packets of the machine's address come
  meanwhile.
\<close>

theorem redirect_nat:
  assumes "dstip = prefix # 0 # net" "prefix \<noteq> 127"
    and "length (dp_DstIP p) = 4" "take 2 (dp_DstIP p) = [prefix, 0]" "dp_DstPort p < 65536" "to_port < 65536"
    and "sentFrom forwarded (dp_SrcIP p)" "sameSender (dp_SrcIP p) ps"
    and "(q, l) = (if forwarded then (turnForwarded to_port p, l0) else Redirect dstip to_port True p l0)"
  shows "dp_DstPort q = to_port
    \<and> windowsOriginalDST prefix (dp_DstIP q, dp_DstPort q) (dp_SrcIP q) = (dp_DstIP p, dp_DstPort p)
    \<and> fst (Redirect dstip to_port True (answering q) (if forwarded then l else afterwards dstip to_port ps l)) = answering p"
proof -
  have port: "256 * unat (of_nat (dp_DstPort p div 256) :: byte) + unat (of_nat (dp_DstPort p) :: byte) = dp_DstPort p" "u16 to_port = to_port"
    using assms(5,6) by (simp_all add: port_bytes u16_def)
  have dst: "dp_DstIP p ! 0 = prefix" "dp_DstIP p ! 1 = 0"
    using assms(3,4) by (auto simp: numeral_2_eq_2 take_Suc_conv_app_nth)
  then have same: "[prefix, 0, dp_DstIP p ! 2, dp_DstIP p ! 3] = dp_DstIP p"
    using list4 [OF assms(3)] by simp
  show ?thesis
  proof (cases forwarded)
    case True
    then obtain x where x: "1 < x" "dp_SrcIP p = [192, 168, 137, x]"
      using assms(7) by (auto simp: sentFrom_def)
    with True assms(9) have q: "q = turnForwarded to_port p"
      by simp
    show ?thesis
      using True x port same assms(1)
      by (simp add: q turnForwarded_def windowsOriginalDST_def To4_def Redirect_def answering_def)
  next
    case False
    then have q: "q = p\<lparr>dp_SrcIP := [127, 0, of_nat (dp_DstPort p div 256), of_nat (dp_DstPort p)],
        dp_DstIP := [127, 255, dp_DstIP p ! 2, dp_DstIP p ! 3], dp_DstPort := to_port\<rparr>" and l: "l = dp_SrcIP p"
      using assms(2,9) dst port(2) by (simp_all add: Redirect_def)
    show ?thesis
      using False port same assms(1) sender_stays [OF assms(8)]
      by (simp add: q l windowsOriginalDST_def To4_def Redirect_def answering_def)
  qed
qed

theorem redirect_nat_witness:
  "windowsOriginalDST 6 ([127, 255, 1, 2], 6) [127, 0, 1, 187] = ([6, 0, 1, 2], 443)
    \<and> fst (Redirect [6, 0, 0, 0] 6 True \<lparr>dp_SrcIP = [127, 255, 1, 2], dp_DstIP = [127, 0, 1, 187], dp_SrcPort = 6, dp_DstPort = 5000\<rparr> [10, 0, 0, 2])
      = \<lparr>dp_SrcIP = [6, 0, 1, 2], dp_DstIP = [10, 0, 0, 2], dp_SrcPort = 443, dp_DstPort = 5000\<rparr>"
proof -
  let ?p = "\<lparr>dp_SrcIP = [10, 0, 0, 2], dp_DstIP = [6, 0, 1, 2], dp_SrcPort = 5000, dp_DstPort = 443\<rparr>"
  let ?q = "\<lparr>dp_SrcIP = [127, 0, 1, 187], dp_DstIP = [127, 255, 1, 2], dp_SrcPort = 5000, dp_DstPort = 6\<rparr>"
  have turn: "(?q, [10, 0, 0, 2]) = (if False then (turnForwarded 6 ?p, []) else Redirect [6, 0, 0, 0] 6 True ?p [])"
    by (simp add: Redirect_def u16_def)
  have "sentFrom False (dp_SrcIP ?p)" "sameSender (dp_SrcIP ?p) []"
    by (simp_all add: sentFrom_def sameSender_def)
  with redirect_nat [of "[6, 0, 0, 0]" 6 "[0, 0]" ?p 6 False "[]", OF _ _ _ _ _ _ _ _ turn] show ?thesis
    by (simp add: afterwards_def answering_def)
qed

subsection \<open>Answering DNS queries in place\<close>

text \<open>
  The answer is built in the buffer \<open>rawbuf\<close> of 1500 bytes, of which the packet is a slice: a
  header, the addresses and ports the other way round, and the response.
\<close>

definition dnsAnswer6 :: "bytes \<Rightarrow> bytes \<Rightarrow> bytes \<Rightarrow> bytes option" where
  "dnsAnswer6 raw response buf = do {
    buf \<leftarrow> put16 (copy_at buf 0 [96, 12, 19, 68, 0, 98, 17, 128]) 4 (u16 (length response + 8));
    dst \<leftarrow> slice raw 24 40;
    src \<leftarrow> slice raw 8 24;
    dport \<leftarrow> slice raw 42 44;
    sport \<leftarrow> slice raw 40 42;
    Some (copy_at (copy_at (copy_at (copy_at buf 8 dst) 24 src) 40 dport) 42 sport) }"

definition dnsAnswer4 :: "nat \<Rightarrow> bytes \<Rightarrow> bytes \<Rightarrow> bytes \<Rightarrow> bytes option" where
  "dnsAnswer4 ipheadlen raw response buf = do {
    buf \<leftarrow> put16 (copy_at buf 0 [69, 0, 1, 32, 141, 152, 64, 0, 64, 17, 150, 46]) 2 (u16 (length response + 28));
    dst \<leftarrow> slice raw 16 20;
    src \<leftarrow> slice raw 12 16;
    dport \<leftarrow> slice raw (ipheadlen + 2) (ipheadlen + 4);
    sport \<leftarrow> slice raw ipheadlen (ipheadlen + 2);
    Some (copy_at (copy_at (copy_at (copy_at buf 12 dst) 16 src) 20 dport) 22 sport) }"

definition dnsAnswer :: "(bytes \<Rightarrow> bytes) \<Rightarrow> bool \<Rightarrow> nat \<Rightarrow> bytes \<Rightarrow> bytes \<Rightarrow> bytes \<Rightarrow> (bytes \<times> bytes) option" where
  "dnsAnswer CalcNewChecksum ipv6 ipheadlen raw response buf =
    (let h = (if ipv6 then 40 else 20) in do {
      buf \<leftarrow> (if ipv6 then dnsAnswer6 raw response buf else dnsAnswer4 ipheadlen raw response buf);
      buf \<leftarrow> put16 buf (h + 4) (u16 (length response + 8));
      buf \<leftarrow> copyFrom buf (h + 8) response;
      packet \<leftarrow> slice buf 0 (h + 8 + length response);
      Some (CalcNewChecksum packet, copy_at buf 0 (CalcNewChecksum packet)) })"

text \<open>
  A captured query: the packet that is sent on, if any, with the buffer and the service after
  it. An unreadable question is dropped; a name of the default outbound passes unchanged.
  \<open>isDefault\<close> compares a pointer with \<open>DefaultOutbound\<close>.
\<close>

definition RedirectDNS ::
  "(bytes \<Rightarrow> bytes) \<Rightarrow> dnsEnv \<Rightarrow> (outbound \<Rightarrow> bool) \<Rightarrow> bytes \<Rightarrow> bytes \<Rightarrow> dnsState \<Rightarrow> (bytes option \<times> bytes \<times> dnsState) option" where
  "RedirectDNS CalcNewChecksum env isDefault raw buf st = do {
    first \<leftarrow> rd8 raw 0;
    let ipv6 = (first div 16 = 6);
    let ipheadlen = (if ipv6 then 40 else first mod 16 * 4);
    request \<leftarrow> slice raw (ipheadlen + 8) (length raw);
    let (qname, _, _) = GetQName request;
    if qname = [] then Some (None, buf, st)
    else
      (case fst (GetOutbound (net_Profile (env_Net env)) (net_Default (env_Net env)) (env_Depth env) qname) of
         None \<Rightarrow> Some (Some raw, buf, st)
       | Some ob \<Rightarrow>
          (if isDefault ob then Some (Some raw, buf, st)
           else do {
             (st, _, response) \<leftarrow> NSRequest env request True st;
             (packet, buf) \<leftarrow> dnsAnswer CalcNewChecksum ipv6 ipheadlen raw response buf;
             Some (Some packet, buf, st) })) }"

text \<open>
  A UDP packet as its reader takes it apart: addresses, ports and data, by the lengths in its
  headers.
\<close>

definition field :: "nat \<Rightarrow> nat \<Rightarrow> bytes \<Rightarrow> bytes" where
  "field i n raw = take n (drop i raw)"

definition udpHeaderAt :: "bytes \<Rightarrow> nat" where
  "udpHeaderAt raw = (if unat (raw ! 0) div 16 = 6 then 40 else unat (raw ! 0) mod 16 * 4)"

definition udpAddresses :: "bytes \<Rightarrow> bytes \<times> bytes" where
  "udpAddresses raw = (if unat (raw ! 0) div 16 = 6 then (field 8 16 raw, field 24 16 raw) else (field 12 4 raw, field 16 4 raw))"

definition udpPorts :: "bytes \<Rightarrow> bytes \<times> bytes" where
  "udpPorts raw = (field (udpHeaderAt raw) 2 raw, field (udpHeaderAt raw + 2) 2 raw)"

definition udpData :: "bytes \<Rightarrow> bytes" where
  "udpData raw = field (udpHeaderAt raw + 8) (be_nat (field (udpHeaderAt raw + 4) 2 raw) - 8) raw"

text \<open>The library writes the checksums of the two headers and nothing else.\<close>

definition setsChecksums :: "(bytes \<Rightarrow> bytes) \<Rightarrow> bool" where
  "setsChecksums calc \<longleftrightarrow> (\<forall>raw. length (calc raw) = length raw \<and>
    (\<forall>i < length raw. (unat (raw ! 0) div 16 = 6 \<or> i \<noteq> 10 \<and> i \<noteq> 11) \<and> i \<noteq> udpHeaderAt raw + 6 \<and> i \<noteq> udpHeaderAt raw + 7 \<longrightarrow>
      calc raw ! i = raw ! i))"

lemma field_copy_same: "length s = n \<Longrightarrow> i + n \<le> length d \<Longrightarrow> field i n (copy_at d i s) = s"
  by (simp add: field_def copy_at_fits)

lemma field_copy_other: "i + length s \<le> length d \<Longrightarrow> j + n \<le> i \<or> i + length s \<le> j \<Longrightarrow> field j n (copy_at d i s) = field j n d"
  by (auto simp: field_def copy_at_fits drop_append take_append drop_take min_def)

lemma length_field: "i + n \<le> length d \<Longrightarrow> length (field i n d) = n"
  by (simp add: field_def)

lemma slice_field: "i \<le> j \<Longrightarrow> j \<le> length d \<Longrightarrow> slice d i j = Some (field i (j - i) d)"
  by (simp add: slice_def field_def)

lemma field_take: "i + n \<le> m \<Longrightarrow> field i n (take m d) = field i n d"
  by (simp add: field_def drop_take min_def)

lemma field_checksum:
  assumes "setsChecksums calc" "i + n \<le> length raw"
    and "unat (raw ! 0) div 16 = 6 \<or> i + n \<le> 10 \<or> 12 \<le> i" "i + n \<le> udpHeaderAt raw + 6 \<or> udpHeaderAt raw + 8 \<le> i"
  shows "field i n (calc raw) = field i n raw"
proof (rule nth_equalityI)
  have len: "length (calc raw) = length raw"
    using assms(1) by (auto simp: setsChecksums_def)
  with assms(2) show "length (field i n (calc raw)) = length (field i n raw)"
    by (simp add: field_def)
  fix k
  assume "k < length (field i n (calc raw))"
  then have k: "k < n" "i + k < length raw"
    using assms(2) len by (simp_all add: field_def)
  then have "(unat (raw ! 0) div 16 = 6 \<or> i + k \<noteq> 10 \<and> i + k \<noteq> 11) \<and> i + k \<noteq> udpHeaderAt raw + 6 \<and> i + k \<noteq> udpHeaderAt raw + 7"
    using assms(3,4) by auto
  then have "calc raw ! (i + k) = raw ! (i + k)"
    using assms(1) k by (auto simp: setsChecksums_def)
  then show "field i n (calc raw) ! k = field i n raw ! k"
    using k len by (simp add: field_def)
qed


lemmas field_simps' = field_copy_same field_copy_other length_field slice_field put16_def

lemma dnsAnswer6_fields:
  assumes "length buf = 1500" "48 \<le> length raw"
  shows "\<exists>b. dnsAnswer6 raw response buf = Some b \<and> length b = 1500 \<and> field 0 1 b = [96]
    \<and> field 8 16 b = field 24 16 raw \<and> field 24 16 b = field 8 16 raw \<and> field 40 2 b = field 42 2 raw \<and> field 42 2 b = field 40 2 raw"
proof -
  have "field 0 1 (copy_at buf 0 [96, 12, 19, 68, 0, 98, 17, 128]) = [96]"
    using assms(1) by (simp add: field_def copy_at_fits)
  then show ?thesis
    using assms by (simp add: dnsAnswer6_def field_simps') (simp add: field_def)
qed

lemma dnsAnswer4_fields:
  assumes "length buf = 1500" "h + 8 \<le> length raw" "20 \<le> h"
  shows "\<exists>b. dnsAnswer4 h raw response buf = Some b \<and> length b = 1500 \<and> field 0 1 b = [69]
    \<and> field 12 4 b = field 16 4 raw \<and> field 16 4 b = field 12 4 raw \<and> field 20 2 b = field (h + 2) 2 raw \<and> field 22 2 b = field h 2 raw"
proof -
  have "field 0 1 (copy_at buf 0 [69, 0, 1, 32, 141, 152, 64, 0, 64, 17, 150, 46]) = [69]"
    using assms(1) by (simp add: field_def copy_at_fits)
  then show ?thesis
    using assms by (simp add: dnsAnswer4_def field_simps') (simp add: field_def)
qed

lemma field_first: "field 0 1 raw = [b] \<Longrightarrow> raw ! 0 = b"
  by (cases raw) (auto simp: field_def)

text \<open>C19: A DNS query that a captured packet carries, for a name of another than the default
  outbound, is answered in its place: the packet that is sent on goes from the server's
  address and port to the client's, and its data are exactly the response of the name service.
\<close>

theorem dns_redirected:
  assumes "setsChecksums calc" "length buf = 1500"
    and "20 \<le> udpHeaderAt raw" "udpHeaderAt raw + 8 \<le> length raw" "request = drop (udpHeaderAt raw + 8) raw"
    and "fst (GetQName request) = qname" "qname \<noteq> []"
    and "fst (GetOutbound (net_Profile (env_Net env)) (net_Default (env_Net env)) (env_Depth env) qname) = Some ob" "\<not> isDefault ob"
    and "NSRequest env request True st = Some (st', ttl, response)" "length response \<le> 1452"
  shows "\<exists>packet buf'. RedirectDNS calc env isDefault raw buf st = Some (Some packet, buf', st') \<and> length buf' = 1500
    \<and> udpAddresses packet = prod.swap (udpAddresses raw) \<and> udpPorts packet = prod.swap (udpPorts raw) \<and> udpData packet = response"
proof -
  let ?v6 = "unat (raw ! 0) div 16 = 6" and ?n = "length response"
  define h where "h = (if ?v6 then 40 else 20 :: nat)"
  obtain b where b: "(if ?v6 then dnsAnswer6 raw response buf else dnsAnswer4 (udpHeaderAt raw) raw response buf) = Some b"
    "length b = 1500" "field 0 1 b = [if ?v6 then 96 else 69]"
    "if ?v6 then field 8 16 b = field 24 16 raw \<and> field 24 16 b = field 8 16 raw
     else field 12 4 b = field 16 4 raw \<and> field 16 4 b = field 12 4 raw"
    "field h 2 b = field (udpHeaderAt raw + 2) 2 raw" "field (h + 2) 2 b = field (udpHeaderAt raw) 2 raw"
  proof (cases ?v6)
    case True
    with dnsAnswer6_fields [OF assms(2), of raw response] assms(4) that show ?thesis
      by (auto simp: udpHeaderAt_def h_def)
  next
    case False
    then have "h = 20"
      by (simp add: h_def)
    with False dnsAnswer4_fields [OF assms(2,4,3), of response] that show ?thesis
      by auto
  qed
  define p where "p = take (h + 8 + ?n) (copy_at (copy_at b (h + 4) (be_bytes 2 (u16 (?n + 8)))) (h + 8) response)"
  have h: "20 \<le> h" "h \<le> 40" and size: "h + 8 + ?n \<le> 1500" "?n + 8 < 65536"
    using assms(11) by (simp_all add: h_def)
  have p: "length p = h + 8 + ?n" "\<And>i n. i + n \<le> h + 4 \<Longrightarrow> field i n p = field i n b"
      "field (h + 4) 2 p = be_bytes 2 (?n + 8)" "field (h + 8) ?n p = response"
    using h size b(2) by (simp_all add: p_def field_take field_copy_same field_copy_other u16_def)
  have first: "p ! 0 = (if ?v6 then 96 else 69)"
    using p(2) [of 0 1] b(3) h by (intro field_first) simp
  then have hp: "udpHeaderAt p = h" "unat (p ! 0) div 16 = 6 \<longleftrightarrow> ?v6"
    by (simp_all add: udpHeaderAt_def h_def)
  have calc: "length (calc p) = length p" "field i n (calc p) = field i n p"
    if "i + n \<le> length p" "?v6 \<or> i + n \<le> 10 \<or> 12 \<le> i" "i + n \<le> h + 6 \<or> h + 8 \<le> i" for i n
    using field_checksum [OF assms(1), of i n p] that hp assms(1) by (simp_all add: setsChecksums_def)
  have c: "length (calc p) = length p" "calc p ! 0 = p ! 0"
    using calc(1) [of 0 0] calc(2) [of 0 1] p(1) h field_first [of "calc p" "p ! 0"]
    by (auto simp: field_def take_Suc_conv_app_nth)
  have hc: "udpHeaderAt (calc p) = h" "unat (calc p ! 0) div 16 = 6 \<longleftrightarrow> ?v6"
    unfolding udpHeaderAt_def c(2) by (fact hp [unfolded udpHeaderAt_def])+
  have "udpAddresses (calc p) = prod.swap (udpAddresses raw)"
    using b(4) p h by (auto simp: udpAddresses_def hc calc h_def split: if_splits)
  moreover have "udpPorts (calc p) = prod.swap (udpPorts raw)"
    using b(5,6) p h by (simp add: udpPorts_def hc calc)
  moreover have "udpData (calc p) = response"
    using p h size by (simp add: udpData_def hc calc be_nat_be_bytes)
  moreover have "RedirectDNS calc env isDefault raw buf st = Some (Some (calc p), copy_at (copy_at (copy_at b (h + 4) (be_bytes 2 (u16 (?n + 8)))) (h + 8) response) 0 (calc p), st')"
  proof -
    obtain x y where "GetQName request = (qname, x, y)"
      using assms(6) by (cases "GetQName request") auto
    moreover have "raw \<noteq> []"
      using assms(4) by auto
    then have "rd8 raw 0 = Some (unat (raw ! 0))" "slice raw (udpHeaderAt raw + 8) (length raw) = Some request"
      using assms(4,5) by (simp_all add: rd8_def slice_def)
    moreover have "udpHeaderAt raw = (if ?v6 then 40 else unat (raw ! 0) mod 16 * 4)"
      by (simp add: udpHeaderAt_def)
    moreover have "dnsAnswer calc ?v6 (udpHeaderAt raw) raw response buf
        = Some (calc p, copy_at (copy_at (copy_at b (h + 4) (be_bytes 2 (u16 (?n + 8)))) (h + 8) response) 0 (calc p))"
      using b(1,2) h size by (simp add: dnsAnswer_def h_def [symmetric] put16_def copyFrom_def slice_def p_def)
    ultimately show ?thesis
      using assms(7-10) by (simp add: RedirectDNS_def Let_def)
  qed
  ultimately show ?thesis
    using b(2) h size by simp
qed


definition windowsState :: dnsState where
  "windowsState = StoreDNSCache (dnsState0\<lparr>dns_Records := [dnsRecords0\<lparr>rec_Index := 1\<rparr>]\<rparr>) (str ''a.bc'') 0"

definition windowsQuery :: bytes where
  "windowsQuery = [69, 0, 0, 50, 0, 0, 0, 0, 128, 17, 0, 0, 10, 0, 0, 2, 8, 8, 8, 8, 19, 136, 0, 53, 0, 30, 0, 0] @ queryMessage 7 (str ''a.bc'') 1"

theorem dns_redirected_witness:
  "\<exists>packet buf' st'. RedirectDNS id silentEnv (\<lambda>_. False) windowsQuery (replicate 1500 0) windowsState = Some (Some packet, buf', st')
    \<and> udpAddresses packet = ([8, 8, 8, 8], [10, 0, 0, 2]) \<and> udpPorts packet = ([0, 53], [19, 136])
    \<and> udpData packet = responseMessage 7 (str ''a.bc'') 1 1 (fakeAnswer 1)"
proof -
  let ?q = "queryMessage 7 (str ''a.bc'') 1" and ?r = "responseMessage 7 (str ''a.bc'') 1 1 (fakeAnswer 1)"
  have host: "hostName (str ''a.bc'')"
    by (simp add: hostName_def ascii_def str_def)
  have q: "GetQName ?q = (str ''a.bc'', 1, length ?q)"
    using host by (simp add: GetQName_query)
  have "NSRequest silentEnv ?q True windowsState = Some (windowsState, 1, ?r)"
    using NSRequest_fake [OF host, of windowsState 0 silentEnv 7]
    by (simp add: windowsState_def recordsOf_def StoreDNSCache_def LoadDNSCache_def dnsState0_def dnsRecords0_def)
  moreover have "length ?r \<le> 1452"
    using length_PackQName [OF host]
    by (simp add: responseMessage_def responseHeader_def fakeAnswer_def str_def wireName_def question_def)
  moreover have "fst (GetOutbound (net_Profile (env_Net silentEnv)) (net_Default (env_Net silentEnv)) (env_Depth silentEnv) (str ''a.bc''))
      = Some fakeOutbound"
    by (simp add: silentEnv_def silentNet_def GetOutbound_first)
  moreover have "udpHeaderAt windowsQuery = 20" "drop 28 windowsQuery = ?q"
    by (simp_all add: udpHeaderAt_def windowsQuery_def)
  moreover have "udpAddresses windowsQuery = ([10, 0, 0, 2], [8, 8, 8, 8])" "udpPorts windowsQuery = ([19, 136], [0, 53])"
    by (simp_all add: udpAddresses_def udpPorts_def udpHeaderAt_def windowsQuery_def field_def)
  moreover have "setsChecksums id" "28 \<le> length windowsQuery" "length (replicate 1500 (0 :: byte)) = 1500" "str ''a.bc'' \<noteq> []"
    by (simp_all add: setsChecksums_def windowsQuery_def str_def)
  ultimately show ?thesis
    using dns_redirected [of id "replicate 1500 0" windowsQuery ?q "str ''a.bc''" silentEnv fakeOutbound "\<lambda>_. False" windowsState windowsState 1 ?r] q
    by auto
qed

end
