(* ===== verification/Win_Monitor.thy ===== *)
theory Win_Monitor
  imports Syn_Monitor
begin

text \<open>
  The monitor of the Windows build (\<open>connectionMonitor\<close>, \<open>ModifyAndSendPacket\<close> and \<open>DialConnInfo\<close>
  of \<open>phantomtcp/windivert.go\<close>, \<open>DialWithOption\<close> of \<open>phantomtcp/tcp_windows.go\<close>). It holds every
  SYN packet until it passes it on, and does TCP fast open by itself: a dialler marks its SYN by
  the hop limit with the slot of its payload, and the monitor sends another SYN in its place
  that carries the payload and the server's cookie.
\<close>

unbundle bit_operations_syntax

subsection \<open>State and packets\<close>

record divertState = monitorState +
  dm_Cookies :: "gostr \<Rightarrow> bytes option"
  dm_Payload :: "nat \<Rightarrow> bytes option"
  dm_SynID :: nat

definition divertState0 :: divertState where
  "divertState0 = \<lparr>ms_Syn = Map.empty, ms_Wait4 = (\<lambda>_. 0), ms_Wait6 = (\<lambda>_. 0),
    dm_Cookies = Map.empty, dm_Payload = Map.empty, dm_SynID = 0\<rparr>"

text \<open>
  What is done with a packet: passed on as it is, sent a second time, another one sent with
  data in its place, or its header offered to the dialler at a port.
\<close>

datatype divertEffect = PassedOn | SentAgain | Crafted synPacket bytes | Offered bool nat "monitorInfo option"

definition setWait :: "synPacket \<Rightarrow> nat \<Rightarrow> hint \<Rightarrow> divertState \<Rightarrow> divertState" where
  "setWait p port h st =
    (if mp_IPv6 p then st\<lparr>ms_Wait6 := (ms_Wait6 st)(port := h)\<rparr> else st\<lparr>ms_Wait4 := (ms_Wait4 st)(port := h)\<rparr>)"

definition divertInfo :: "synPacket \<Rightarrow> monitorInfo" where
  "divertInfo p = (infoOf p)\<lparr>mi_Link := None\<rparr>"

text \<open>\<open>ModifyAndSendPacket\<close> for fast open changes the header it is given, which the offer shares.\<close>

definition fastOpenHeader :: "divertState \<Rightarrow> bytes \<Rightarrow> synPacket \<Rightarrow> synPacket" where
  "fastOpenHeader st payload p =
    p\<lparr>mp_Seq := nat ((int (mp_Seq p) - int (length payload)) mod 4294967296),
      mp_Options := mp_Options p @ [(34, case dm_Cookies st (IPString (mp_Dst p)) of None \<Rightarrow> [] | Some cookie \<Rightarrow> cookie)]\<rparr>"

definition fastOpenData :: "divertState \<Rightarrow> bytes \<Rightarrow> synPacket \<Rightarrow> bytes" where
  "fastOpenData st payload p = (case dm_Cookies st (IPString (mp_Dst p)) of None \<Rightarrow> [] | Some _ \<Rightarrow> payload)"

text \<open>\<open>ModifyAndSendPacket\<close> for the fakes, in the header they share with \<open>raw.go\<close> but for \<open>w-time\<close>.\<close>

definition divertFake :: "connectionInfo \<Rightarrow> bytes \<Rightarrow> hint \<Rightarrow> nat \<Rightarrow> tcpPacket" where
  "divertFake info payload h ttl =
    (fakePacket info payload h ttl)\<lparr>pk_Options :=
      (if h AND HINT_WMD5 \<noteq> 0 then [(19, replicate 16 0)] else if h AND HINT_WTIME \<noteq> 0 then [(8, replicate 8 0)] else [])\<rparr>"

subsection \<open>The monitor\<close>

definition cookiesOf :: "synPacket \<Rightarrow> bytes list" where
  "cookiesOf p = map snd (filter (\<lambda>(kind, _). kind = 34) (mp_Options p))"

definition learnCookies :: "hint \<Rightarrow> synPacket \<Rightarrow> divertState \<Rightarrow> divertState" where
  "learnCookies h q st =
    (if h AND HINT_TFO \<noteq> 0
     then st\<lparr>dm_Cookies := fold (\<lambda>cookie m. m(IPString (mp_Dst q) \<mapsto> cookie)) (cookiesOf q) (dm_Cookies st)\<rparr> else st)"

text \<open>A SYN of a dialler that opens fast; one that is not marked is held for good.\<close>

definition divertFastOpen :: "hint \<Rightarrow> synPacket \<Rightarrow> divertState \<Rightarrow> divertEffect list \<times> divertState" where
  "divertFastOpen h p st =
    (let port = mp_SrcPort p; offer = Offered (mp_IPv6 p) port; count = (if h AND HINT_SYNX2 \<noteq> 0 then 2 else 1);
         q = p\<lparr>mp_TTL := (if mp_IPv6 p then 64 else 128)\<rparr>
     in if mp_TTL p \<ge> 128 then ([offer (Some (divertInfo p))], st)
        else if mp_SYN p then
          (case dm_Payload st (mp_TTL p mod 64) of
             Some payload \<Rightarrow>
               (let q = fastOpenHeader st payload q in
                (replicate count (Crafted q (fastOpenData st payload p)) @ [offer (Some (divertInfo q))], setWait p port h st))
           | None \<Rightarrow> ([offer None], st))
        else (replicate count (Crafted (fastOpenHeader st [] q) []) @ [offer None], st))"

definition divertMonitor :: "synPacket \<Rightarrow> divertState \<Rightarrow> divertEffect list \<times> divertState" where
  "divertMonitor p st =
    (let h = monitorHint p (monitorState.truncate st);
         synack = (mp_SYN p \<and> mp_ACK p);
         q = (turnedRound p)\<lparr>mp_TTL := (if mp_IPv6 p then 64 else 128)\<rparr>
     in if h = 0 then ([PassedOn], st)
        else if h AND (HINT_TFO OR HINT_SYNX2) = 0 then
          (PassedOn # [Offered (mp_IPv6 p) (mp_SrcPort (if synack then q else p)) (Some (divertInfo (if synack then q else p)))], st)
        else if synack then
          ([Offered (mp_IPv6 p) (mp_SrcPort q) (Some (divertInfo q))], setWait p (mp_SrcPort q) 0 (learnCookies h q st))
        else if h AND HINT_TFO \<noteq> 0 then divertFastOpen h p st
        else ([PassedOn, SentAgain, Offered (mp_IPv6 p) (mp_SrcPort p) (Some (divertInfo p))], st))"

subsection \<open>The dialler\<close>

text \<open>
  The slot of the payload is chosen before the SYN is marked: \<open>DialWithOption\<close> marks it with the
  counter of its own moment and counts up.
\<close>

definition payloadSlot :: "divertState \<Rightarrow> nat" where
  "payloadSlot st = dm_SynID st mod 64"

definition markSyn :: "bool \<Rightarrow> divertState \<Rightarrow> nat option \<times> divertState" where
  "markSyn tcpfastopen st =
    (if tcpfastopen then (Some (dm_SynID st OR 64), st\<lparr>dm_SynID := (dm_SynID st + 1) mod 256\<rparr>) else (None, st))"

definition dialAnnounced :: "gostr \<Rightarrow> outbound \<Rightarrow> bytes option \<Rightarrow> divertState \<Rightarrow> divertState" where
  "dialAnnounced addr ob payload st =
    st\<lparr>ms_Syn := AddConn addr (ob_Hint ob) (ms_Syn st),
       dm_Payload := (if payload = None then dm_Payload st else (dm_Payload st)(payloadSlot st := payload))\<rparr>"

definition dialWithdrawn :: "gostr \<Rightarrow> bytes option \<Rightarrow> nat \<Rightarrow> divertState \<Rightarrow> divertState" where
  "dialWithdrawn addr payload slot st =
    st\<lparr>ms_Syn := DelConn addr (ms_Syn st),
       dm_Payload := (if payload = None then dm_Payload st else (dm_Payload st)(slot := None))\<rparr>"

subsection \<open>Fast open\<close>

lemma fastOpen_stream:
  assumes "mp_Seq p < 4294967296" "dm_Cookies st (IPString (mp_Dst p)) = Some cookie"
  shows "u32 (mp_Seq (fastOpenHeader st payload p) + length payload) = mp_Seq p"
proof -
  have "int (u32 (mp_Seq (fastOpenHeader st payload p) + length payload)) = int (mp_Seq p)"
    using assms(1) by (simp add: fastOpenHeader_def u32_def zmod_int mod_simps)
  then show ?thesis
    by (simp only: of_nat_eq_iff)
qed

text \<open>The mark names the slot for half of the values of the counter.\<close>

lemma mark_table: "list_all (\<lambda>n :: nat. if n < 128 then n OR 64 < 128 \<and> (n OR 64) mod 64 = n mod 64 else n OR 64 \<ge> 128) [0..<256]"
  by code_simp

lemma mark_slot: "n < 128 \<Longrightarrow> n OR 64 < 128 \<and> (n OR 64) mod 64 = n mod (64 :: nat)"
  and mark_lost: "128 \<le> n \<Longrightarrow> n < 256 \<Longrightarrow> 128 \<le> n OR (64 :: nat)"
  using mark_table [unfolded list_all_iff] by force+

text \<open>The SYN packet of a dial with fast open: to the announced address, with the mark.\<close>

definition fastOpenSyn :: "outbound \<Rightarrow> bytes \<Rightarrow> synPacket \<Rightarrow> divertState \<Rightarrow> divertState \<Rightarrow> bool" where
  "fastOpenSyn ob payload p st st' \<longleftrightarrow>
    ob_Hint ob AND HINT_TFO \<noteq> 0 \<and> markSyn True (dialAnnounced (synAddress p) ob (Some payload) st) = (Some (mp_TTL p), st')
    \<and> mp_SYN p \<and> \<not> mp_ACK p \<and> mp_Seq p < 4294967296"

text \<open>C40: A dialler whose server's cookie is known opens its connection with its payload: in place
  of its SYN packet another is sent, with the cookie and the whole payload, which ends where the
  stream of the connection begins; its SYN/ACK is then kept from the system, and the cookie in
  it is learned. But when the counter of the marks is above 127, which is so for every second
  128 dials, nothing is sent at all: the SYN packet is held for good.
\<close>

theorem fast_open:
  assumes "fastOpenSyn ob payload p st st'" "dm_SynID st < 256"
    and "dm_Cookies st (IPString (mp_Dst p)) = Some cookie"
  shows "if dm_SynID st < 128
    then \<exists>q. fst (divertMonitor p st') = replicate (if ob_Hint ob AND HINT_SYNX2 \<noteq> 0 then 2 else 1) (Crafted q payload) @
          [Offered (mp_IPv6 p) (mp_SrcPort p) (Some (divertInfo q))]
      \<and> (34, cookie) \<in> set (mp_Options q) \<and> u32 (mp_Seq q + length payload) = mp_Seq p
      \<and> waitOf p (monitorState.truncate (snd (divertMonitor p st'))) (mp_SrcPort p) = ob_Hint ob
    else fst (divertMonitor p st') = [Offered (mp_IPv6 p) (mp_SrcPort p) (Some (divertInfo p))]"
proof -
  let ?st = "dialAnnounced (synAddress p) ob (Some payload) st"
  have syn: "ob_Hint ob AND HINT_TFO \<noteq> 0" "mp_SYN p" "\<not> mp_ACK p" "mp_Seq p < 4294967296" "mp_TTL p = dm_SynID st OR 64"
    "st' = ?st\<lparr>dm_SynID := (dm_SynID st + 1) mod 256\<rparr>"
    using assms(1) by (auto simp: fastOpenSyn_def markSyn_def dialAnnounced_def)
  have h: "monitorHint p (monitorState.truncate st') = ob_Hint ob" "ob_Hint ob \<noteq> 0"
    using syn by (auto simp: monitorHint_def synAddress_def dialAnnounced_def AddConn_def monitorState.truncate_def split: option.splits)
  moreover have "ob_Hint ob AND (HINT_TFO OR HINT_SYNX2) \<noteq> 0"
    using syn(1) by (metis bit.conj_disj_distrib or_eq_0_iff)
  ultimately have m: "divertMonitor p st' = divertFastOpen (ob_Hint ob) p st'"
    using syn(1-3) by (simp add: divertMonitor_def Let_def)
  show ?thesis
  proof (cases "dm_SynID st < 128")
    case True
    let ?q = "fastOpenHeader st' payload (p\<lparr>mp_TTL := (if mp_IPv6 p then 64 else 128)\<rparr>)"
    have cookie: "dm_Cookies st' (IPString (mp_Dst p)) = Some cookie" "dm_Payload st' (mp_TTL p mod 64) = Some payload" "mp_TTL p < 128"
      using assms(3) mark_slot [OF True] by (simp_all add: syn dialAnnounced_def payloadSlot_def)
    then have "fastOpenData st' payload p = payload" "(34, cookie) \<in> set (mp_Options ?q)" "u32 (mp_Seq ?q + length payload) = mp_Seq p"
      using syn(4) fastOpen_stream [of "p\<lparr>mp_TTL := (if mp_IPv6 p then 64 else 128)\<rparr>" st' cookie payload]
      by (simp_all add: fastOpenData_def fastOpenHeader_def)
    moreover have "waitOf p (monitorState.truncate (setWait p port x st')) port = x" for port x
      by (simp add: waitOf_def setWait_def monitorState.truncate_def)
    ultimately show ?thesis
      using True cookie(2,3) syn(2) by (simp add: m divertFastOpen_def Let_def)
  next
    case False
    with mark_lost [of "dm_SynID st"] assms(2) show ?thesis
      by (simp add: m divertFastOpen_def Let_def syn(5))
  qed
qed

text \<open>The SYN/ACK of such a SYN is not passed on, and a cookie in it is kept for its sender.\<close>

lemma synack_learned:
  assumes "mp_SYN p" "mp_ACK p" "waitOf p (monitorState.truncate st) (mp_DstPort p) = h" "h AND HINT_TFO \<noteq> 0"
    and "cookiesOf p = [cookie]"
  shows "PassedOn \<notin> set (fst (divertMonitor p st))"
    and "dm_Cookies (snd (divertMonitor p st)) (IPString (mp_Src p)) = Some cookie"
    and "waitOf p (monitorState.truncate (snd (divertMonitor p st))) (mp_DstPort p) = 0"
proof -
  let ?q = "(turnedRound p)\<lparr>mp_TTL := (if mp_IPv6 p then 64 else 128)\<rparr>"
  have "h \<noteq> 0" "h AND (HINT_TFO OR HINT_SYNX2) \<noteq> 0"
    using assms(4) by (auto simp: bit.conj_disj_distrib or_eq_0_iff)
  then have m: "divertMonitor p st = ([Offered (mp_IPv6 p) (mp_SrcPort ?q) (Some (divertInfo ?q))], setWait p (mp_SrcPort ?q) 0 (learnCookies h ?q st))"
    using assms(1-3) by (simp add: divertMonitor_def monitorHint_def Let_def)
  show "PassedOn \<notin> set (fst (divertMonitor p st))"
    by (simp add: m)
  have "cookiesOf ?q = [cookie]" "mp_Dst ?q = mp_Src p" "mp_SrcPort ?q = mp_DstPort p"
    using assms(5) by (simp_all add: cookiesOf_def turnedRound_def)
  then show "dm_Cookies (snd (divertMonitor p st)) (IPString (mp_Src p)) = Some cookie"
    and "waitOf p (monitorState.truncate (snd (divertMonitor p st))) (mp_DstPort p) = 0"
    using assms(4) by (simp_all add: m learnCookies_def setWait_def waitOf_def monitorState.truncate_def)
qed

definition fastOutbound :: outbound where
  "fastOutbound = Outbound [] [] (HINT_IPV4 OR HINT_TFO) 0 0 0 DIRECT [] [] 65535 None"

theorem fast_open_witness:
  "\<exists>st' q. fst (divertMonitor (sampleSyn\<lparr>mp_TTL := 69\<rparr>) st') = [Crafted q [1, 2, 3], Offered False 5000 (Some (divertInfo q))]
    \<and> (34, [9, 9]) \<in> set (mp_Options q) \<and> u32 (mp_Seq q + 3) = 4294967295"
proof -
  let ?p = "sampleSyn\<lparr>mp_TTL := 69\<rparr>"
  let ?st = "divertState0\<lparr>dm_SynID := 5, dm_Cookies := [IPString [10, 0, 0, 1] \<mapsto> [9, 9]]\<rparr>"
  have "5 OR 64 = (69 :: nat)"
    by code_simp
  then have "fastOpenSyn fastOutbound [1, 2, 3] ?p ?st ((dialAnnounced (synAddress ?p) fastOutbound (Some [1, 2, 3]) ?st)\<lparr>dm_SynID := 6\<rparr>)"
    by (simp add: fastOpenSyn_def fastOutbound_def hint_defs markSyn_def dialAnnounced_def sampleSyn_def)
  note run = fast_open [OF this, of "[9, 9]"]
  have "\<not> mp_IPv6 sampleSyn" "mp_SrcPort sampleSyn = 5000" "mp_Seq sampleSyn = 4294967295" "mp_Dst sampleSyn = [10, 0, 0, 1]"
    by (simp_all add: sampleSyn_def)
  moreover have "ob_Hint fastOutbound AND HINT_SYNX2 = 0"
    by (simp add: fastOutbound_def hint_defs)
  ultimately obtain st' q where "fst (divertMonitor ?p st') = [Crafted q [1, 2, 3], Offered False 5000 (Some (divertInfo q))]"
    "(34, [9, 9]) \<in> set (mp_Options q)" "u32 (mp_Seq q + length [1 :: byte, 2, 3]) = 4294967295"
    using run by (auto simp del: list.size)
  then show ?thesis
    by (intro exI [of _ st'] exI [of _ q]) (simp add: numeral_3_eq_3)
qed

end
